(* ===== verification/Prelude.thy ===== *)
theory Prelude imports Main "HOL-Library.Word" "HOL-Library.Char_ord" "HOL-Library.List_Lexorder" "HOL-Library.Multiset" begin

text \<open>
  Vocabulary shared by every component: the machine integers of the C++ sources, byte strings,
  the correspondence between \<open>std::string\<close> and bytes, and the generic facts on lists, bytes and
  sorting that the component proofs use.  Nothing here is specific to one component.
\<close>

unbundle bit_operations_syntax

type_synonym byte = "8 word"
type_synonym u16 = "16 word"
type_synonym u32 = "32 word"
type_synonym u64 = "64 word"

text \<open>
  \<open>std::int64_t\<close> is a 64-bit word too; it is read by \<^const>\<open>sint\<close> and compared by the signed
  orders of the word library.
\<close>

type_synonym i64 = "64 word"
type_synonym bytes = "byte list"

named_theorems codec_simps \<open>unfolding rules of encoders, decoders and parsers\<close>
named_theorems codec_width \<open>widths of encoded fields\<close>
named_theorems field_rt \<open>round-trip facts of encoded fields\<close>

subsection \<open>Results\<close>

text \<open>
  Fallible operations return a sum with the error on the left; \<open>sum_bind\<close> is the early return of
  the sources.
\<close>

definition sum_bind :: "'e + 'a \<Rightarrow> ('a \<Rightarrow> 'e + 'b) \<Rightarrow> 'e + 'b" where
  "sum_bind m f = (case m of Inl e \<Rightarrow> Inl e | Inr x \<Rightarrow> f x)"

lemma sum_bind_simps [simp]: "sum_bind (Inl e) f = Inl e" "sum_bind (Inr x) f = f x"
  by (simp_all add: sum_bind_def)

lemma sum_bind_eq_Inr: "sum_bind m f = Inr y \<longleftrightarrow> (\<exists>x. m = Inr x \<and> f x = Inr y)"
  by (cases m) auto

lemma sum_bind_eq_Inl: "sum_bind m f = Inl e \<longleftrightarrow> m = Inl e \<or> (\<exists>x. m = Inr x \<and> f x = Inl e)"
  by (cases m) auto

lemma sum_bind_cong [cong]: "m = n \<Longrightarrow> (\<And>x. n = Inr x \<Longrightarrow> f x = g x) \<Longrightarrow> sum_bind m f = sum_bind n g"
  by (cases n) auto

subsection \<open>Strings as byte sequences\<close>

text \<open>
  A \<open>std::string\<close> is a sequence of \<open>char\<close>, one byte each; the sources move it in and out of byte
  vectors with \<open>reinterpret_cast\<close> and range copies.
\<close>

definition string_bytes :: "string \<Rightarrow> bytes" where
  "string_bytes s = map of_char s"

definition bytes_string :: "bytes \<Rightarrow> string" where
  "bytes_string bs = map (\<lambda>b. char_of (unat b)) bs"

lemma char_of_unat_of_char [simp]: "char_of (unat (of_char c :: byte)) = c"
proof -
  have "unat (of_char c :: byte) = of_char c"
    by (simp add: of_char_def unsigned_of_nat horner_sum_of_bool_2_less flip: of_nat_of_char) 
  then show ?thesis by simp
qed

lemma of_char_char_of_unat [simp]: "(of_char (char_of (unat b) :: char) :: byte) = b"
proof -
  have "(of_char (char_of (unat b) :: char) :: byte) = of_nat (of_char (char_of (unat b) :: char))"
    by (rule of_nat_of_char [symmetric])
  also have "\<dots> = of_nat (unat b mod 256)" by (simp only: of_char_of)
  also have "\<dots> = b" using unsigned_less [of b, where ?'a = nat] by simp
  finally show ?thesis .
qed

lemma bytes_string_of_string_bytes [simp]: "bytes_string (string_bytes s) = s"
  by (simp add: bytes_string_def string_bytes_def comp_def)

lemma string_bytes_of_bytes_string [simp]: "string_bytes (bytes_string bs) = bs"
  by (simp add: bytes_string_def string_bytes_def comp_def)

lemma string_bytes_inject [simp]: "string_bytes a = string_bytes b \<longleftrightarrow> a = b"
  by (metis bytes_string_of_string_bytes)

lemma length_string_bytes [simp]: "length (string_bytes s) = length s"
  by (simp add: string_bytes_def)

lemma string_bytes_Nil [simp]: "string_bytes [] = []" and bytes_string_Nil [simp]: "bytes_string [] = []"
  by (simp_all add: string_bytes_def bytes_string_def)

lemma length_bytes_string [simp]: "length (bytes_string bs) = length bs"
  by (simp add: bytes_string_def)

subsection \<open>Bytes of a machine word\<close>

text \<open>
  \<open>byte_at n v\<close> is the C++ expression \<open>static_cast<uint8_t>((v >> n) & 0xFF)\<close>, with which every
  encoder of the repository splits a word.  The \<open>join\<close> lemmas put a word together again from its
  bytes; \<open>byte_at_join\<close> lemmas are the other direction.
\<close>

definition byte_at :: "nat \<Rightarrow> 'a::len word \<Rightarrow> byte" where
  "byte_at n v = ucast (drop_bit n v AND 0xFF)"

lemma mask8: "(0xFF :: 'a::len word) = mask 8"
  by (simp add: mask_eq_exp_minus_1)

lemma bit_byte_at: "bit (byte_at n v) m \<longleftrightarrow> m < 8 \<and> bit v (n + m)" for v :: "'a::len word"
  unfolding byte_at_def mask8 by (auto simp: bit_unsigned_iff bit_and_iff bit_drop_bit_eq bit_mask_iff simp del: mask_eq_exp_minus_1 dest: bit_imp_le_length)

lemma join_top: "LENGTH('a) = n + 8 \<Longrightarrow> push_bit n (ucast (byte_at n v)) = push_bit n (drop_bit n v)" for v :: "'a::len word"
  by (rule bit_word_eqI) (auto simp: bit_simps bit_byte_at)

lemma join_step: "push_bit (n + 8) (drop_bit (n + 8) v) OR push_bit n (ucast (byte_at n v)) = push_bit n (drop_bit n v)" for v :: "'a::len word"
proof (rule bit_word_eqI)
  fix i assume "i < LENGTH('a)"
  then show "bit (push_bit (n + 8) (drop_bit (n + 8) v) OR push_bit n (ucast (byte_at n v))) i = bit (push_bit n (drop_bit n v)) i"
    by (cases "n + 8 \<le> i") (auto simp: bit_simps bit_byte_at)
qed

lemma join_last: "push_bit 8 (drop_bit 8 v) OR ucast (byte_at 0 v) = v" for v :: "'a::len word"
  using join_step [of 0 v] by simp

lemma join64: "((((((push_bit 56 (ucast (byte_at 56 v)) OR push_bit 48 (ucast (byte_at 48 v))) OR push_bit 40 (ucast (byte_at 40 v))) OR
  push_bit 32 (ucast (byte_at 32 v))) OR push_bit 24 (ucast (byte_at 24 v))) OR push_bit 16 (ucast (byte_at 16 v))) OR push_bit 8 (ucast (byte_at 8 v))) OR ucast (byte_at 0 v) = (v::64 word)"
  using join_step [of 48 v] join_step [of 40 v] join_step [of 32 v] join_step [of 24 v] join_step [of 16 v] join_step [of 8 v]
  by (simp add: join_top join_last)

lemma byte_at_or: "byte_at n (a OR b) = byte_at n a OR byte_at n b" for a :: "'a::len word"
  by (rule bit_word_eqI) (auto simp: bit_simps bit_byte_at)

lemma byte_at_push:
  "(j + 1) * 8 \<le> LENGTH('a) \<Longrightarrow>
    byte_at (j * 8) (push_bit (k * 8) (ucast (b::byte)) :: 'a::len word) = (if j = k then b else 0)"
proof (rule bit_word_eqI)
  fix n assume w: "(j + 1) * 8 \<le> LENGTH('a)" and n: "n < LENGTH(8)"
  have "\<not> bit b (j * 8 + n - k * 8)" if "k * 8 \<le> j * 8 + n" "j \<noteq> k"
  proof -
    have "8 \<le> j * 8 + n - k * 8" using that n by (cases "j < k") auto
    then show ?thesis by (auto dest: bit_imp_le_length)
  qed
  then show "bit (byte_at (j * 8) (push_bit (k * 8) (ucast b) :: 'a word)) n = bit (if j = k then b else 0) n"
    using w n by (auto simp: bit_simps bit_byte_at)
qed

lemma byte_at_push_bit [simp]:
  "8 dvd n \<Longrightarrow> 8 dvd m \<Longrightarrow> n + 8 \<le> LENGTH('a) \<Longrightarrow>
    byte_at n (push_bit m (ucast (b::byte)) :: 'a::len word) = (if n = m then b else 0)"
  using byte_at_push [of "n div 8" "m div 8" b, where ?'a = 'a] by auto

lemma byte_at_ucast [simp]:
  "8 dvd n \<Longrightarrow> n + 8 \<le> LENGTH('a) \<Longrightarrow>
    byte_at n (ucast (b::byte) :: 'a::len word) = (if n = 0 then b else 0)"
  using byte_at_push_bit [of n 0 b, where ?'a = 'a] by simp

lemma byte_at_zero_or [simp]: "byte_at n (a OR b) = byte_at n a OR byte_at n b" for a :: "'a::len word"
  by (rule byte_at_or)

lemma join16: "push_bit 8 (ucast (byte_at 8 v)) OR ucast (byte_at 0 v) = (v :: u16)"
  by (simp add: join_top join_last)

lemma join32:
  "push_bit 24 (ucast (byte_at 24 v)) OR push_bit 16 (ucast (byte_at 16 v)) OR
    push_bit 8 (ucast (byte_at 8 v)) OR ucast (byte_at 0 v) = (v :: u32)"
  using join_step [of 16 v] join_step [of 8 v] by (simp add: join_top join_last or.assoc [symmetric])

lemma join64_right:
  "push_bit 56 (ucast (byte_at 56 v)) OR push_bit 48 (ucast (byte_at 48 v)) OR
    push_bit 40 (ucast (byte_at 40 v)) OR push_bit 32 (ucast (byte_at 32 v)) OR
    push_bit 24 (ucast (byte_at 24 v)) OR push_bit 16 (ucast (byte_at 16 v)) OR
    push_bit 8 (ucast (byte_at 8 v)) OR ucast (byte_at 0 v) = (v :: u64)"
  using join64 [of v] by (simp only: or.assoc)


lemma distinct_map_sort_key [simp]: "distinct (map f (sort_key k xs)) = distinct (map f xs)"
  by (rule mset_eq_imp_distinct_iff) simp

end
