(* ===== verification/ByteCodec.thy ===== *)
theory ByteCodec imports Prelude begin

text \<open>
  The big-endian field codec of Hugin, \<open>src/backend/Hugin/common/byte_codec.hpp\<close>, and the status
  type of \<open>src/backend/Hugin/common/status.hpp\<close>.

  A writer appends to the output vector; a reader takes the buffer and the running offset and
  returns the value with the advanced offset, or \<^const>\<open>None\<close> where the C++ reader returns
  \<open>false\<close>.  The locale \<open>field_codec\<close> is the contract between the fields and the message codecs
  built from them; it is interpreted on the four kinds of field.
\<close>

subsection \<open>Status\<close>

datatype error_code =
    Ok | InvalidArgument | ParseError | UnsupportedVersion | StorageError
  | ValidationError | Duplicate | Gap | NotFound | Internal

text \<open>
  \<open>StatusOr<T>\<close> is a sum: \<^const>\<open>Inl\<close> holds the code and the text of a failure.  A failure never
  carries the code \<^const>\<open>Ok\<close> in the sources.
\<close>

type_synonym status_error = "error_code \<times> string"
type_synonym 'a status_or = "status_error + 'a"

subsection \<open>Writers\<close>

text \<open>The bytes one call of a writer appends.\<close>

definition put_u16 :: "u16 \<Rightarrow> bytes" where
  "put_u16 v = [byte_at 8 v, byte_at 0 v]"

definition put_u32 :: "u32 \<Rightarrow> bytes" where
  "put_u32 v = [byte_at 24 v, byte_at 16 v, byte_at 8 v, byte_at 0 v]"

definition put_u64 :: "u64 \<Rightarrow> bytes" where
  "put_u64 v = [byte_at 56 v, byte_at 48 v, byte_at 40 v, byte_at 32 v,
     byte_at 24 v, byte_at 16 v, byte_at 8 v, byte_at 0 v]"

definition put_string :: "string \<Rightarrow> bytes" where
  "put_string s = put_u32 (of_nat (length s)) @ string_bytes s"

definition append_u16_be :: "bytes \<Rightarrow> u16 \<Rightarrow> bytes" where
  "append_u16_be out v = out @ put_u16 v"

definition append_u32_be :: "bytes \<Rightarrow> u32 \<Rightarrow> bytes" where
  "append_u32_be out v = out @ put_u32 v"

definition append_u64_be :: "bytes \<Rightarrow> u64 \<Rightarrow> bytes" where
  "append_u64_be out v = out @ put_u64 v"

definition append_bytes :: "bytes \<Rightarrow> bytes \<Rightarrow> bytes" where
  "append_bytes out raw = out @ raw"

definition append_string :: "bytes \<Rightarrow> string \<Rightarrow> bytes" where
  "append_string out s = out @ put_string s"

lemmas append_defs [codec_simps] =
  append_u16_be_def append_u32_be_def append_u64_be_def append_bytes_def append_string_def

subsection \<open>Readers\<close>

type_synonym 'a field_reader = "bytes \<Rightarrow> nat \<Rightarrow> ('a \<times> nat) option"

definition read_u16_be :: "u16 field_reader" where
  "read_u16_be raw off =
    (if off + 2 > length raw then None
     else Some (push_bit 8 (ucast (raw ! off)) OR ucast (raw ! (off + 1)), off + 2))"

definition read_u32_be :: "u32 field_reader" where
  "read_u32_be raw off =
    (if off + 4 > length raw then None
     else Some (push_bit 24 (ucast (raw ! off)) OR push_bit 16 (ucast (raw ! (off + 1))) OR
       push_bit 8 (ucast (raw ! (off + 2))) OR ucast (raw ! (off + 3)), off + 4))"

definition read_u64_be :: "u64 field_reader" where
  "read_u64_be raw off =
    (if off + 8 > length raw then None
     else Some (push_bit 56 (ucast (raw ! off)) OR push_bit 48 (ucast (raw ! (off + 1))) OR
       push_bit 40 (ucast (raw ! (off + 2))) OR push_bit 32 (ucast (raw ! (off + 3))) OR
       push_bit 24 (ucast (raw ! (off + 4))) OR push_bit 16 (ucast (raw ! (off + 5))) OR
       push_bit 8 (ucast (raw ! (off + 6))) OR ucast (raw ! (off + 7)), off + 8))"

definition read_bytes :: "bytes \<Rightarrow> nat \<Rightarrow> nat \<Rightarrow> (bytes \<times> nat) option" where
  "read_bytes raw off n =
    (if off + n > length raw then None else Some (take n (drop off raw), off + n))"

definition read_string :: "string field_reader" where
  "read_string raw off =
    (case read_u32_be raw off of
       None \<Rightarrow> None
     | Some (n, o1) \<Rightarrow>
         if o1 + unat n > length raw then None
         else Some (bytes_string (take (unat n) (drop o1 raw)), o1 + unat n))"

subsection \<open>The contract of a field\<close>

text \<open>
  \<open>put v\<close> are the bytes a writer appends, \<open>fits\<close> the values the field can carry (a string must be
  shorter than \<open>2^32\<close>, because its length goes out as 32 bits).
\<close>

locale field_codec =
  fixes put :: "'a \<Rightarrow> bytes"
    and get :: "'a field_reader"
    and fits :: "'a \<Rightarrow> bool"
  assumes get_here: "fits v \<Longrightarrow> get (put v @ post) 0 = Some (v, length (put v))"
    and get_shift: "length pre \<le> off \<Longrightarrow>
      get (pre @ raw) off = map_option (\<lambda>(v, o'). (v, length pre + o')) (get raw (off - length pre))"
    and get_inverse: "get raw 0 = Some (v, o') \<Longrightarrow>
      fits v \<and> o' = length (put v) \<and> (\<exists>post. raw = put v @ post)"
begin

lemma get_put: "fits v \<Longrightarrow> get (pre @ put v @ post) (length pre) = Some (v, length pre + length (put v))"
  by (simp add: get_shift get_here)

lemma get_alone: "fits v \<Longrightarrow> get (put v) 0 = Some (v, length (put v))"
  using get_here [of v "[]"] by simp

lemma get_cons:
  "0 < off \<Longrightarrow> get (b # raw) off = map_option (\<lambda>(v, o'). (v, Suc o')) (get raw (off - 1))"
  using get_shift [of "[b]" off raw] by simp

lemma get_prefix:
  assumes "get raw off = Some (v, o')" and "off \<le> length raw"
  shows "fits v \<and> o' = off + length (put v) \<and> (\<exists>post. raw = take off raw @ put v @ post)"
proof -
  have "get raw off = map_option (\<lambda>(v, o'). (v, off + o')) (get (drop off raw) 0)"
    using get_shift [of "take off raw" off "drop off raw"] assms(2) by simp
  then obtain d where d: "get (drop off raw) 0 = Some (v, d)" "o' = off + d"
    using assms(1) by (cases "get (drop off raw) 0") auto
  from get_inverse [OF d(1)] obtain post where "drop off raw = put v @ post" "d = length (put v)" "fits v"
    by blast
  then show ?thesis using d(2) append_take_drop_id [of off raw, symmetric] by metis
qed

lemma get_bounded:
  assumes "get raw off = Some (v, o')" and "off \<le> length raw"
  shows "o' \<le> length raw"
proof -
  from get_prefix [OF assms] obtain post
    where raw: "raw = take off raw @ put v @ post" and o': "o' = off + length (put v)" by blast
  have "length raw = length (take off raw @ put v @ post)" using raw by (rule arg_cong)
  also have "\<dots> = o' + length post" using assms(2) o' by simp
  finally show ?thesis by simp
qed

lemma get_take:
  assumes "get raw off = Some (v, o')" and "off \<le> length raw"
  shows "take o' raw = take off raw @ put v"
proof -
  obtain post where p: "raw = take off raw @ put v @ post" and o: "o' = off + length (put v)"
    using get_prefix [OF assms] by blast
  have "take o' raw = take o' (take off raw @ put v @ post)" using p by (rule arg_cong)
  also have "\<dots> = take off raw @ put v" using o assms(2) by simp
  finally show ?thesis .
qed

text \<open>One successful read, in the form in which parsers chain them.\<close>

lemma get_step:
  assumes "get raw off = Some (v, o')" and "off \<le> length raw"
  shows "o' \<le> length raw \<and> fits v \<and> take o' raw = take off raw @ put v"
  using get_bounded [OF assms] get_take [OF assms] get_prefix [OF assms] by simp

lemma put_prefix_free:
  assumes "fits v" "fits w" "put v @ s = put w @ t"
  shows "v = w \<and> s = t"
  using get_here [OF assms(1), of s] get_here [OF assms(2), of t] assms(3) by auto

end

subsection \<open>The fields of the wire format keep the contract\<close>

text \<open>A string fits when its length survives the cast to \<open>std::uint32_t\<close>.\<close>

definition fits_u32 :: "'a list \<Rightarrow> bool" where
  "fits_u32 xs \<longleftrightarrow> length xs < 2 ^ 32"

lemma length_put [codec_width, simp]:
  "length (put_u16 v) = 2" "length (put_u32 w) = 4" "length (put_u64 x) = 8"
  "length (put_string s) = 4 + length s"
  by (simp_all add: put_u16_def put_u32_def put_u64_def put_string_def)

lemma unat_of_nat_fits: "fits_u32 xs \<Longrightarrow> unat (of_nat (length xs) :: u32) = length xs"
  by (simp add: fits_u32_def unat_of_nat take_bit_nat_eq_self_iff)

lemma fits_of_unat: "length xs = unat (n :: u32) \<Longrightarrow> fits_u32 xs"
  using unsigned_less [of n, where ?'a = nat] by (simp add: fits_u32_def)

lemma split_at_2: "2 \<le> length raw \<Longrightarrow> \<exists>a b r. raw = a # b # r"
  by (cases raw; cases "tl raw") (auto simp: numeral_eq_Suc)

lemma split_at_4: "4 \<le> length raw \<Longrightarrow> \<exists>a b c d r. raw = a # b # c # d # r"
  using split_at_2 [of raw] split_at_2 [of "drop 2 raw"] by auto

lemma split_at_8: "8 \<le> length raw \<Longrightarrow> \<exists>a b c d e f g h r. raw = a # b # c # d # e # f # g # h # r"
  using split_at_4 [of raw] split_at_4 [of "drop 4 raw"] by auto

lemma nth_append_Suc:
  "(pre @ raw) ! Suc (length pre + k) = raw ! Suc k"
  "(pre @ raw) ! Suc (Suc (length pre + k)) = raw ! Suc (Suc k)"
  by (simp_all add: nth_append)

interpretation u16f: field_codec put_u16 read_u16_be "\<lambda>_. True"
proof
  fix v post
  show "read_u16_be (put_u16 v @ post) 0 = Some (v, length (put_u16 v))"
    by (simp add: read_u16_be_def put_u16_def join16)
next
  fix pre raw :: bytes and off assume "length pre \<le> off"
  then obtain k where "off = length pre + k" using le_Suc_ex by blast
  then show "read_u16_be (pre @ raw) off =
      map_option (\<lambda>(v, o'). (v, length pre + o')) (read_u16_be raw (off - length pre))"
    by (simp add: read_u16_be_def add.assoc nth_append_length_plus nth_append_Suc)
next
  fix raw v o' assume "read_u16_be raw 0 = Some (v, o')"
  then show "True \<and> o' = length (put_u16 v) \<and> (\<exists>post. raw = put_u16 v @ post)"
    using split_at_2 [of raw]
    by (auto simp: read_u16_be_def put_u16_def split: if_splits)
qed

interpretation u32f: field_codec put_u32 read_u32_be "\<lambda>_. True"
proof
  fix v post
  show "read_u32_be (put_u32 v @ post) 0 = Some (v, length (put_u32 v))"
    by (simp add: read_u32_be_def put_u32_def join32)
next
  fix pre raw :: bytes and off assume "length pre \<le> off"
  then obtain k where "off = length pre + k" using le_Suc_ex by blast
  then show "read_u32_be (pre @ raw) off =
      map_option (\<lambda>(v, o'). (v, length pre + o')) (read_u32_be raw (off - length pre))"
    by (simp add: read_u32_be_def add.assoc nth_append_length_plus nth_append_Suc)
next
  fix raw v o' assume "read_u32_be raw 0 = Some (v, o')"
  then show "True \<and> o' = length (put_u32 v) \<and> (\<exists>post. raw = put_u32 v @ post)"
    using split_at_4 [of raw]
    by (auto simp: read_u32_be_def put_u32_def split: if_splits)
qed

interpretation u64f: field_codec put_u64 read_u64_be "\<lambda>_. True"
proof
  fix v post
  show "read_u64_be (put_u64 v @ post) 0 = Some (v, length (put_u64 v))"
    by (simp add: read_u64_be_def put_u64_def join64_right)
next
  fix pre raw :: bytes and off assume "length pre \<le> off"
  then obtain k where "off = length pre + k" using le_Suc_ex by blast
  then show "read_u64_be (pre @ raw) off =
      map_option (\<lambda>(v, o'). (v, length pre + o')) (read_u64_be raw (off - length pre))"
    by (simp add: read_u64_be_def add.assoc nth_append_length_plus nth_append_Suc)
next
  fix raw v o' assume "read_u64_be raw 0 = Some (v, o')"
  then show "True \<and> o' = length (put_u64 v) \<and> (\<exists>post. raw = put_u64 v @ post)"
    using split_at_8 [of raw]
    by (auto simp: read_u64_be_def put_u64_def split: if_splits)
qed

interpretation stringf: field_codec put_string read_string fits_u32
proof
  fix s :: string and post assume "fits_u32 s"
  then show "read_string (put_string s @ post) 0 = Some (s, length (put_string s))"
    by (simp add: read_string_def put_string_def u32f.get_here unat_of_nat_fits)
next
  fix pre raw :: bytes and off assume "length pre \<le> off"
  then show "read_string (pre @ raw) off =
      map_option (\<lambda>(v, o'). (v, length pre + o')) (read_string raw (off - length pre))"
    by (auto simp: read_string_def u32f.get_shift split: option.splits)
next
  fix raw :: bytes and s o' assume "read_string raw 0 = Some (s, o')"
  then obtain n o1 where r: "read_u32_be raw 0 = Some (n, o1)" and le: "o1 + unat n \<le> length raw"
    and s: "s = bytes_string (take (unat n) (drop o1 raw))" and o': "o' = o1 + unat n"
    by (auto simp: read_string_def split: option.splits if_splits)
  from u32f.get_inverse [OF r] obtain post where raw: "raw = put_u32 n @ post" and o1: "o1 = 4" by auto
  have len: "length s = unat n" using s le by simp
  have "fits_u32 s" using len unsigned_less [of n, where ?'a = nat] by (simp add: fits_u32_def)
  moreover have "raw = put_string s @ drop (unat n) post"
    using raw s len o1 by (simp add: put_string_def)
  ultimately show "fits_u32 s \<and> o' = length (put_string s) \<and> (\<exists>post. raw = put_string s @ post)"
    using o' o1 len by auto
qed

lemma put_word_inject [simp]:
  "put_u16 a = put_u16 b \<longleftrightarrow> a = b" "put_u32 c = put_u32 d \<longleftrightarrow> c = d" "put_u64 e = put_u64 f \<longleftrightarrow> e = f"
  using u16f.put_prefix_free [of a "[]" b "[]"] u32f.put_prefix_free [of c "[]" d "[]"]
    u64f.put_prefix_free [of e "[]" f "[]"] by auto

lemmas field_codec_facts [field_rt] =
  u16f.get_here u16f.get_alone u16f.get_shift u16f.get_cons u32f.get_here u32f.get_alone u32f.get_shift u32f.get_cons
  u64f.get_here u64f.get_alone u64f.get_shift u64f.get_cons stringf.get_here stringf.get_alone stringf.get_shift stringf.get_cons

lemma read_bytes_shift [field_rt]:
  "length pre \<le> off \<Longrightarrow> read_bytes (pre @ raw) off n =
    map_option (\<lambda>(v, o'). (v, length pre + o')) (read_bytes raw (off - length pre) n)"
  by (auto simp: read_bytes_def)

lemma read_bytes_step:
  "read_bytes raw off n = Some (v, o') \<Longrightarrow> off \<le> length raw \<Longrightarrow>
    o' \<le> length raw \<and> length v = n \<and> take o' raw = take off raw @ v"
  by (auto simp: read_bytes_def take_add split: if_splits)

lemma read_bytes_all [field_rt]: "read_bytes raw 0 (length raw) = Some (raw, length raw)"
  by (simp add: read_bytes_def)

end
