(* ===== verification/Wire.thy ===== *)
theory Wire imports ByteCodec "HOL-Library.Monad_Syntax" begin

text \<open>
  The Muninn-to-Hugin message protocol, \<open>src/backend/Hugin/protocol/wire.hpp\<close> and \<open>wire.cpp\<close>: a
  12-byte header (magic, version, kind, flags, payload length) and one payload layout per kind of
  message.  \<open>MessageKind\<close> is cast from a raw byte, so it is a byte here with the named constants of
  the enumeration; a byte that names no kind reaches the \<open>default\<close> branch of \<open>parse_message\<close>.
\<close>

subsection \<open>Constants and message types\<close>

definition kHuginMagic :: u32 where "kHuginMagic = 0x4C455347"
definition kHuginProtocolVersion :: u16 where "kHuginProtocolVersion = 1"
definition kHeaderSize :: nat where "kHeaderSize = 12"

type_synonym message_kind = byte

abbreviation (input) Kind_ClientHello :: message_kind where "Kind_ClientHello \<equiv> 1"
abbreviation (input) Kind_ServerHello :: message_kind where "Kind_ServerHello \<equiv> 2"
abbreviation (input) Kind_Data :: message_kind where "Kind_Data \<equiv> 3"
abbreviation (input) Kind_Ack :: message_kind where "Kind_Ack \<equiv> 4"
abbreviation (input) Kind_Nack :: message_kind where "Kind_Nack \<equiv> 5"
abbreviation (input) Kind_Error :: message_kind where "Kind_Error \<equiv> 6"
abbreviation (input) Kind_Ping :: message_kind where "Kind_Ping \<equiv> 7"
abbreviation (input) Kind_Pong :: message_kind where "Kind_Pong \<equiv> 8"

record client_hello =
  ch_host_id :: string
  ch_client_instance_id :: string
  ch_requested_protocol_version :: u16
  ch_resume_from_sequence :: u64
  ch_capabilities_bitmask :: u32
  ch_auth_token :: string

record server_hello =
  sh_accepted :: bool
  sh_negotiated_protocol_version :: u16
  sh_session_id :: u64
  sh_server_checkpoint :: u64
  sh_requested_resume_from :: u64
  sh_reason :: string

record data_message =
  dm_host_id :: string
  dm_sequence :: u64
  dm_codec_version_major :: u16
  dm_codec_version_minor :: u16
  dm_sent_at_unix_seconds :: u64
  dm_frame_crc32c :: u32
  dm_muninn_frame :: bytes

record ack_message =
  am_host_id :: string
  am_ack_inclusive_sequence :: u64
  am_expected_next_sequence :: u64

record nack_message =
  nm_host_id :: string
  nm_expected_sequence :: u64
  nm_received_sequence :: u64
  nm_reason :: string

record error_message =
  em_error_code :: u16
  em_message :: string

record ping_message = pi_unix_seconds :: u64
record pong_message = po_unix_seconds :: u64

datatype message =
    ClientHello client_hello
  | ServerHello server_hello
  | DataMessage data_message
  | AckMessage ack_message
  | NackMessage nack_message
  | ErrorMessage error_message
  | PingMessage ping_message
  | PongMessage pong_message

record parsed_header =
  ph_protocol_version :: u16
  ph_kind :: message_kind
  ph_flags :: byte
  ph_payload_len :: u32

subsection \<open>Header\<close>

definition parse_header :: "bytes \<Rightarrow> parsed_header status_or" where
  "parse_header raw =
    (if length raw < kHeaderSize then Inl (ParseError, ''Wire frame header is truncated.'')
     else (case read_u32_be raw 0 of
       None \<Rightarrow> Inl (ParseError, ''Wire frame magic is truncated.'')
     | Some (magic, o1) \<Rightarrow>
         if magic \<noteq> kHuginMagic then Inl (ParseError, ''Wire frame magic is invalid.'')
         else (case read_u16_be raw o1 of
           None \<Rightarrow> Inl (ParseError, ''Wire frame version is truncated.'')
         | Some (version, o2) \<Rightarrow>
             if version \<noteq> kHuginProtocolVersion
             then Inl (UnsupportedVersion, ''Wire protocol version is unsupported.'')
             else (case read_u32_be raw (o2 + 2) of
               None \<Rightarrow> Inl (ParseError, ''Wire frame payload length is truncated.'')
             | Some (payload_len, o3) \<Rightarrow>
                 if length raw \<noteq> kHeaderSize + unat payload_len
                 then Inl (ParseError, ''Wire frame payload length mismatch.'')
                 else Inr \<lparr>ph_protocol_version = version, ph_kind = raw ! o2,
                   ph_flags = raw ! (o2 + 1), ph_payload_len = payload_len\<rparr>))))"

definition make_frame :: "message_kind \<Rightarrow> bytes \<Rightarrow> bytes" where
  "make_frame kind payload =
    append_bytes
      (append_u32_be
        (append_u16_be (append_u32_be [] kHuginMagic) kHuginProtocolVersion @ [kind, 0])
        (of_nat (length payload)))
      payload"

subsection \<open>Encoders\<close>

definition encode_client_hello :: "client_hello \<Rightarrow> bytes" where
  "encode_client_hello msg =
    (let payload = append_string [] (ch_host_id msg);
         payload = append_string payload (ch_client_instance_id msg);
         payload = append_u16_be payload (ch_requested_protocol_version msg);
         payload = append_u64_be payload (ch_resume_from_sequence msg);
         payload = append_u32_be payload (ch_capabilities_bitmask msg);
         payload = append_string payload (ch_auth_token msg)
     in make_frame Kind_ClientHello payload)"

definition encode_server_hello :: "server_hello \<Rightarrow> bytes" where
  "encode_server_hello msg =
    (let payload = [if sh_accepted msg then 1 else 0];
         payload = append_u16_be payload (sh_negotiated_protocol_version msg);
         payload = append_u64_be payload (sh_session_id msg);
         payload = append_u64_be payload (sh_server_checkpoint msg);
         payload = append_u64_be payload (sh_requested_resume_from msg);
         payload = append_string payload (sh_reason msg)
     in make_frame Kind_ServerHello payload)"

definition encode_data :: "data_message \<Rightarrow> bytes" where
  "encode_data msg =
    (let payload = append_string [] (dm_host_id msg);
         payload = append_u64_be payload (dm_sequence msg);
         payload = append_u16_be payload (dm_codec_version_major msg);
         payload = append_u16_be payload (dm_codec_version_minor msg);
         payload = append_u64_be payload (dm_sent_at_unix_seconds msg);
         payload = append_u32_be payload (dm_frame_crc32c msg);
         payload = append_u32_be payload (of_nat (length (dm_muninn_frame msg)));
         payload = append_bytes payload (dm_muninn_frame msg)
     in make_frame Kind_Data payload)"

definition encode_ack :: "ack_message \<Rightarrow> bytes" where
  "encode_ack msg =
    (let payload = append_string [] (am_host_id msg);
         payload = append_u64_be payload (am_ack_inclusive_sequence msg);
         payload = append_u64_be payload (am_expected_next_sequence msg)
     in make_frame Kind_Ack payload)"

definition encode_nack :: "nack_message \<Rightarrow> bytes" where
  "encode_nack msg =
    (let payload = append_string [] (nm_host_id msg);
         payload = append_u64_be payload (nm_expected_sequence msg);
         payload = append_u64_be payload (nm_received_sequence msg);
         payload = append_string payload (nm_reason msg)
     in make_frame Kind_Nack payload)"

definition encode_error :: "error_message \<Rightarrow> bytes" where
  "encode_error msg =
    (let payload = append_u16_be [] (em_error_code msg);
         payload = append_string payload (em_message msg)
     in make_frame Kind_Error payload)"

definition encode_ping :: "ping_message \<Rightarrow> bytes" where
  "encode_ping msg = make_frame Kind_Ping (append_u64_be [] (pi_unix_seconds msg))"

definition encode_pong :: "pong_message \<Rightarrow> bytes" where
  "encode_pong msg = make_frame Kind_Pong (append_u64_be [] (po_unix_seconds msg))"

fun serialize_message :: "message \<Rightarrow> bytes" where
  "serialize_message (ClientHello m) = encode_client_hello m"
| "serialize_message (ServerHello m) = encode_server_hello m"
| "serialize_message (DataMessage m) = encode_data m"
| "serialize_message (AckMessage m) = encode_ack m"
| "serialize_message (NackMessage m) = encode_nack m"
| "serialize_message (ErrorMessage m) = encode_error m"
| "serialize_message (PingMessage m) = encode_ping m"
| "serialize_message (PongMessage m) = encode_pong m"

subsection \<open>Payload parsers\<close>

text \<open>
  A chain of readers joined by \<open>||\<close> in the sources is a bind in the option monad; each parser then
  insists that the payload is used up.
\<close>

definition parse_client_hello_payload :: "bytes \<Rightarrow> message status_or" where
  "parse_client_hello_payload payload =
    (case do { (host_id, o1) \<leftarrow> read_string payload 0;
               (instance_id, o2) \<leftarrow> read_string payload o1;
               (version, o3) \<leftarrow> read_u16_be payload o2;
               (resume_from, o4) \<leftarrow> read_u64_be payload o3;
               (capabilities, o5) \<leftarrow> read_u32_be payload o4;
               (token, o6) \<leftarrow> read_string payload o5;
               Some (\<lparr>ch_host_id = host_id, ch_client_instance_id = instance_id,
                 ch_requested_protocol_version = version, ch_resume_from_sequence = resume_from,
                 ch_capabilities_bitmask = capabilities, ch_auth_token = token\<rparr>, o6) } of
       None \<Rightarrow> Inl (ParseError, ''ClientHello payload is invalid.'')
     | Some (msg, off) \<Rightarrow>
         if off \<noteq> length payload then Inl (ParseError, ''ClientHello payload has trailing bytes.'')
         else Inr (ClientHello msg))"

definition parse_server_hello_payload :: "bytes \<Rightarrow> message status_or" where
  "parse_server_hello_payload payload =
    (if payload = [] then Inl (ParseError, ''ServerHello payload is truncated.'')
     else case do { (version, o1) \<leftarrow> read_u16_be payload 1;
                    (session, o2) \<leftarrow> read_u64_be payload o1;
                    (checkpoint, o3) \<leftarrow> read_u64_be payload o2;
                    (resume_from, o4) \<leftarrow> read_u64_be payload o3;
                    (reason, o5) \<leftarrow> read_string payload o4;
                    Some (\<lparr>sh_accepted = (payload ! 0 \<noteq> 0), sh_negotiated_protocol_version = version,
                      sh_session_id = session, sh_server_checkpoint = checkpoint,
                      sh_requested_resume_from = resume_from, sh_reason = reason\<rparr>, o5) } of
       None \<Rightarrow> Inl (ParseError, ''ServerHello payload is invalid.'')
     | Some (msg, off) \<Rightarrow>
         if off \<noteq> length payload then Inl (ParseError, ''ServerHello payload has trailing bytes.'')
         else Inr (ServerHello msg))"

definition parse_data_payload :: "bytes \<Rightarrow> message status_or" where
  "parse_data_payload payload =
    (case do { (host_id, o1) \<leftarrow> read_string payload 0;
               (sequence, o2) \<leftarrow> read_u64_be payload o1;
               (major, o3) \<leftarrow> read_u16_be payload o2;
               (minor, o4) \<leftarrow> read_u16_be payload o3;
               (sent_at, o5) \<leftarrow> read_u64_be payload o4;
               (crc, o6) \<leftarrow> read_u32_be payload o5;
               Some ((host_id, sequence, major, minor, sent_at, crc), o6) } of
       None \<Rightarrow> Inl (ParseError, ''Data payload is invalid.'')
     | Some ((host_id, sequence, major, minor, sent_at, crc), o6) \<Rightarrow>
         (case read_u32_be payload o6 of
           None \<Rightarrow> Inl (ParseError, ''Data payload frame length is invalid.'')
         | Some (frame_len, o7) \<Rightarrow>
             (case read_bytes payload o7 (unat frame_len) of
               None \<Rightarrow> Inl (ParseError, ''Data payload frame bytes are truncated.'')
             | Some (frame, o8) \<Rightarrow>
                 if o8 \<noteq> length payload then Inl (ParseError, ''Data payload has trailing bytes.'')
                 else Inr (DataMessage \<lparr>dm_host_id = host_id, dm_sequence = sequence,
                   dm_codec_version_major = major, dm_codec_version_minor = minor,
                   dm_sent_at_unix_seconds = sent_at, dm_frame_crc32c = crc,
                   dm_muninn_frame = frame\<rparr>))))"

definition parse_ack_payload :: "bytes \<Rightarrow> message status_or" where
  "parse_ack_payload payload =
    (case do { (host_id, o1) \<leftarrow> read_string payload 0;
               (inclusive, o2) \<leftarrow> read_u64_be payload o1;
               (expected, o3) \<leftarrow> read_u64_be payload o2;
               Some (\<lparr>am_host_id = host_id, am_ack_inclusive_sequence = inclusive,
                 am_expected_next_sequence = expected\<rparr>, o3) } of
       None \<Rightarrow> Inl (ParseError, ''Ack payload is invalid.'')
     | Some (msg, off) \<Rightarrow>
         if off \<noteq> length payload then Inl (ParseError, ''Ack payload has trailing bytes.'')
         else Inr (AckMessage msg))"

definition parse_nack_payload :: "bytes \<Rightarrow> message status_or" where
  "parse_nack_payload payload =
    (case do { (host_id, o1) \<leftarrow> read_string payload 0;
               (expected, o2) \<leftarrow> read_u64_be payload o1;
               (received, o3) \<leftarrow> read_u64_be payload o2;
               (reason, o4) \<leftarrow> read_string payload o3;
               Some (\<lparr>nm_host_id = host_id, nm_expected_sequence = expected,
                 nm_received_sequence = received, nm_reason = reason\<rparr>, o4) } of
       None \<Rightarrow> Inl (ParseError, ''Nack payload is invalid.'')
     | Some (msg, off) \<Rightarrow>
         if off \<noteq> length payload then Inl (ParseError, ''Nack payload has trailing bytes.'')
         else Inr (NackMessage msg))"

definition parse_error_payload :: "bytes \<Rightarrow> message status_or" where
  "parse_error_payload payload =
    (case do { (code, o1) \<leftarrow> read_u16_be payload 0;
               (text, o2) \<leftarrow> read_string payload o1;
               Some (\<lparr>em_error_code = code, em_message = text\<rparr>, o2) } of
       None \<Rightarrow> Inl (ParseError, ''Error payload is invalid.'')
     | Some (msg, off) \<Rightarrow>
         if off \<noteq> length payload then Inl (ParseError, ''Error payload has trailing bytes.'')
         else Inr (ErrorMessage msg))"

definition parse_ping_payload :: "bytes \<Rightarrow> message status_or" where
  "parse_ping_payload payload =
    (case read_u64_be payload 0 of
       None \<Rightarrow> Inl (ParseError, ''Ping payload is invalid.'')
     | Some (t, off) \<Rightarrow>
         if off \<noteq> length payload then Inl (ParseError, ''Ping payload is invalid.'')
         else Inr (PingMessage \<lparr>pi_unix_seconds = t\<rparr>))"

definition parse_pong_payload :: "bytes \<Rightarrow> message status_or" where
  "parse_pong_payload payload =
    (case read_u64_be payload 0 of
       None \<Rightarrow> Inl (ParseError, ''Pong payload is invalid.'')
     | Some (t, off) \<Rightarrow>
         if off \<noteq> length payload then Inl (ParseError, ''Pong payload is invalid.'')
         else Inr (PongMessage \<lparr>po_unix_seconds = t\<rparr>))"

definition parse_message :: "bytes \<Rightarrow> message status_or" where
  "parse_message raw =
    (case parse_header raw of
       Inl e \<Rightarrow> Inl e
     | Inr header \<Rightarrow>
         let payload = take (unat (ph_payload_len header)) (drop kHeaderSize raw);
             kind = ph_kind header
         in if kind = Kind_ClientHello then parse_client_hello_payload payload
            else if kind = Kind_ServerHello then parse_server_hello_payload payload
            else if kind = Kind_Data then parse_data_payload payload
            else if kind = Kind_Ack then parse_ack_payload payload
            else if kind = Kind_Nack then parse_nack_payload payload
            else if kind = Kind_Error then parse_error_payload payload
            else if kind = Kind_Ping then parse_ping_payload payload
            else if kind = Kind_Pong then parse_pong_payload payload
            else Inl (ParseError, ''Wire message kind is unknown.''))"

subsection \<open>Messages that fit the format\<close>

text \<open>
  Lengths travel as 32 bits: every string, the enclosed frame and the payload as a whole have to be
  shorter than \<open>2^32\<close> bytes for the casts in the encoders to keep them.
\<close>

definition frame_payload :: "message \<Rightarrow> bytes" where
  "frame_payload m = drop kHeaderSize (serialize_message m)"

fun message_fields_fit :: "message \<Rightarrow> bool" where
  "message_fields_fit (ClientHello m) \<longleftrightarrow>
     fits_u32 (ch_host_id m) \<and> fits_u32 (ch_client_instance_id m) \<and> fits_u32 (ch_auth_token m)"
| "message_fields_fit (ServerHello m) \<longleftrightarrow> fits_u32 (sh_reason m)"
| "message_fields_fit (DataMessage m) \<longleftrightarrow> fits_u32 (dm_host_id m) \<and> fits_u32 (dm_muninn_frame m)"
| "message_fields_fit (AckMessage m) \<longleftrightarrow> fits_u32 (am_host_id m)"
| "message_fields_fit (NackMessage m) \<longleftrightarrow> fits_u32 (nm_host_id m) \<and> fits_u32 (nm_reason m)"
| "message_fields_fit (ErrorMessage m) \<longleftrightarrow> fits_u32 (em_message m)"
| "message_fields_fit (PingMessage m) \<longleftrightarrow> True"
| "message_fields_fit (PongMessage m) \<longleftrightarrow> True"

definition message_fits :: "message \<Rightarrow> bool" where
  "message_fits m \<longleftrightarrow> message_fields_fit m \<and> fits_u32 (frame_payload m)"

subsection \<open>Header lemmas\<close>

lemma make_frame_eq:
  "make_frame kind payload =
    put_u32 kHuginMagic @ put_u16 kHuginProtocolVersion @ [kind, 0] @ put_u32 (of_nat (length payload)) @ payload"
  by (simp add: make_frame_def codec_simps)

lemma drop_make_frame [simp]: "drop kHeaderSize (make_frame kind payload) = payload"
  by (simp add: make_frame_eq kHeaderSize_def)

lemma nth_make_frame:
  "make_frame kind payload ! 6 = kind" "make_frame kind payload ! 7 = 0"
  by (simp_all add: make_frame_eq nth_append)

lemma parse_header_make_frame:
  "fits_u32 payload \<Longrightarrow> parse_header (make_frame kind payload) =
    Inr \<lparr>ph_protocol_version = kHuginProtocolVersion, ph_kind = kind, ph_flags = 0,
      ph_payload_len = of_nat (length payload)\<rparr>"
  by (simp add: parse_header_def make_frame_eq field_rt kHeaderSize_def unat_of_nat_fits nth_append)

lemma parse_header_inverse:
  assumes "parse_header raw = Inr h"
  shows "raw[7 := 0] = make_frame (ph_kind h) (drop kHeaderSize raw)
    \<and> unat (ph_payload_len h) = length raw - kHeaderSize \<and> kHeaderSize \<le> length raw
    \<and> fits_u32 (drop kHeaderSize raw) \<and> ph_flags h = raw ! 7"
proof -
  from assms obtain o1 o2 n o3 where len: "12 \<le> length raw" and total: "length raw = 12 + unat n"
    and r1: "read_u32_be raw 0 = Some (kHuginMagic, o1)"
    and r2: "read_u16_be raw o1 = Some (kHuginProtocolVersion, o2)"
    and r3: "read_u32_be raw (o2 + 2) = Some (n, o3)"
    and h: "h = \<lparr>ph_protocol_version = kHuginProtocolVersion, ph_kind = raw ! o2,
      ph_flags = raw ! (o2 + 1), ph_payload_len = n\<rparr>"
    by (auto simp: parse_header_def kHeaderSize_def split: if_splits option.splits)
  have o1: "o1 = 4" and t4: "take 4 raw = put_u32 kHuginMagic"
    using u32f.get_step [OF r1] u32f.get_prefix [OF r1] by auto
  have o2: "o2 = 6" and t6: "take 6 raw = take 4 raw @ put_u16 kHuginProtocolVersion"
    using u16f.get_step [OF r2] u16f.get_prefix [OF r2] o1 len by auto
  have o3: "o3 = 12" and t12: "take 12 raw = take 8 raw @ put_u32 n"
    using u32f.get_step [OF r3] u32f.get_prefix [OF r3] o2 len by auto
  have t8: "take 8 raw = take 6 raw @ [raw ! 6, raw ! 7]"
    using len take_Suc_conv_app_nth [of 6 raw] take_Suc_conv_app_nth [of 7 raw] by simp
  have "raw = take 12 raw @ drop 12 raw" by simp
  also have "\<dots> = put_u32 kHuginMagic @ put_u16 kHuginProtocolVersion @ [raw ! 6, raw ! 7] @ put_u32 n @ drop 12 raw"
    by (simp only: t12 t8 t6 t4 append_assoc)
  finally have raw: "raw = put_u32 kHuginMagic @ put_u16 kHuginProtocolVersion @ [raw ! 6, raw ! 7] @ put_u32 n @ drop 12 raw" .
  have n: "of_nat (length raw - 12) = n" using total by simp
  have "raw[7 := 0] = put_u32 kHuginMagic @ put_u16 kHuginProtocolVersion @ [raw ! 6, 0] @ put_u32 n @ drop 12 raw"
    by (subst raw) (simp add: list_update_append)
  then show ?thesis
    using n h o2 len total unsigned_less [of n, where ?'a = nat]
    by (simp add: make_frame_eq kHeaderSize_def fits_u32_def)
qed

lemma parse_message_make_frame:
  "fits_u32 payload \<Longrightarrow> parse_message (make_frame kind payload) =
     (if kind = Kind_ClientHello then parse_client_hello_payload payload
      else if kind = Kind_ServerHello then parse_server_hello_payload payload
      else if kind = Kind_Data then parse_data_payload payload
      else if kind = Kind_Ack then parse_ack_payload payload
      else if kind = Kind_Nack then parse_nack_payload payload
      else if kind = Kind_Error then parse_error_payload payload
      else if kind = Kind_Ping then parse_ping_payload payload
      else if kind = Kind_Pong then parse_pong_payload payload
      else Inl (ParseError, ''Wire message kind is unknown.''))"
  by (simp add: parse_message_def parse_header_make_frame unat_of_nat_fits)

lemmas encode_defs [codec_simps] =
  encode_client_hello_def encode_server_hello_def encode_data_def encode_ack_def encode_nack_def
  encode_error_def encode_ping_def encode_pong_def

lemmas parse_payload_defs =
  parse_client_hello_payload_def parse_server_hello_payload_def parse_data_payload_def
  parse_ack_payload_def parse_nack_payload_def parse_error_payload_def parse_ping_payload_def
  parse_pong_payload_def

subsection \<open>Round trip\<close>

lemma parse_encode_client_hello:
  "message_fields_fit (ClientHello m) \<Longrightarrow>
    parse_client_hello_payload (frame_payload (ClientHello m)) = Inr (ClientHello m)"
  by (simp add: parse_client_hello_payload_def frame_payload_def codec_simps field_rt Let_def)

lemma parse_encode_server_hello:
  "message_fields_fit (ServerHello m) \<Longrightarrow>
    parse_server_hello_payload (frame_payload (ServerHello m)) = Inr (ServerHello m)"
  by (simp add: parse_server_hello_payload_def frame_payload_def codec_simps field_rt Let_def)

lemma parse_encode_data:
  "message_fields_fit (DataMessage m) \<Longrightarrow>
    parse_data_payload (frame_payload (DataMessage m)) = Inr (DataMessage m)"
  by (simp add: parse_data_payload_def frame_payload_def codec_simps field_rt Let_def unat_of_nat_fits)

lemma parse_encode_ack:
  "message_fields_fit (AckMessage m) \<Longrightarrow>
    parse_ack_payload (frame_payload (AckMessage m)) = Inr (AckMessage m)"
  by (simp add: parse_ack_payload_def frame_payload_def codec_simps field_rt Let_def)

lemma parse_encode_nack:
  "message_fields_fit (NackMessage m) \<Longrightarrow>
    parse_nack_payload (frame_payload (NackMessage m)) = Inr (NackMessage m)"
  by (simp add: parse_nack_payload_def frame_payload_def codec_simps field_rt Let_def)

lemma parse_encode_error:
  "message_fields_fit (ErrorMessage m) \<Longrightarrow>
    parse_error_payload (frame_payload (ErrorMessage m)) = Inr (ErrorMessage m)"
  by (simp add: parse_error_payload_def frame_payload_def codec_simps field_rt Let_def)

lemma parse_encode_ping:
  "parse_ping_payload (frame_payload (PingMessage m)) = Inr (PingMessage m)"
  by (simp add: parse_ping_payload_def frame_payload_def codec_simps field_rt Let_def)

lemma parse_encode_pong:
  "parse_pong_payload (frame_payload (PongMessage m)) = Inr (PongMessage m)"
  by (simp add: parse_pong_payload_def frame_payload_def codec_simps field_rt Let_def)

lemmas parse_encode_payload =
  parse_encode_client_hello parse_encode_server_hello parse_encode_data parse_encode_ack
  parse_encode_nack parse_encode_error parse_encode_ping parse_encode_pong

fun message_kind_of :: "message \<Rightarrow> message_kind" where
  "message_kind_of (ClientHello m) = Kind_ClientHello"
| "message_kind_of (ServerHello m) = Kind_ServerHello"
| "message_kind_of (DataMessage m) = Kind_Data"
| "message_kind_of (AckMessage m) = Kind_Ack"
| "message_kind_of (NackMessage m) = Kind_Nack"
| "message_kind_of (ErrorMessage m) = Kind_Error"
| "message_kind_of (PingMessage m) = Kind_Ping"
| "message_kind_of (PongMessage m) = Kind_Pong"

lemma serialize_message_frame: "serialize_message m = make_frame (message_kind_of m) (frame_payload m)"
  by (cases m) (simp_all add: frame_payload_def codec_simps Let_def)

lemma parse_serialize: "message_fits m \<Longrightarrow> parse_message (serialize_message m) = Inr m"
  unfolding message_fits_def serialize_message_frame
  by (cases m) (simp_all add: parse_message_make_frame parse_encode_payload)

subsection \<open>Every accepted frame is a canonical frame\<close>

lemmas read_steps = u16f.get_step u32f.get_step u64f.get_step stringf.get_step read_bytes_step

text \<open>
  The layout of the longer payloads is stated with \<open>take (length p) p\<close> for \<open>p\<close>: the readers' step
  lemmas end in it, and it keeps \<open>p\<close> itself out of the rewriting.
\<close>

lemma parse_client_hello_fields:
  "parse_client_hello_payload p = Inr m \<Longrightarrow>
    \<exists>h. m = ClientHello h \<and> message_fields_fit m \<and>
      take (length p) p = put_string (ch_host_id h) @ put_string (ch_client_instance_id h) @
        put_u16 (ch_requested_protocol_version h) @ put_u64 (ch_resume_from_sequence h) @
        put_u32 (ch_capabilities_bitmask h) @ put_string (ch_auth_token h)"
  by (auto simp: parse_client_hello_payload_def bind_eq_Some_conv
      simp del: take_all_iff take_all split: option.splits if_splits dest!: read_steps)

lemma parse_client_hello_inverse:
  assumes "parse_client_hello_payload p = Inr m"
  shows "message_kind_of m = Kind_ClientHello \<and> message_fields_fit m \<and> frame_payload m = p"
  using parse_client_hello_fields [OF assms] by (auto simp: frame_payload_def codec_simps Let_def)

lemma parse_ack_inverse:
  "parse_ack_payload p = Inr m \<Longrightarrow>
    message_kind_of m = Kind_Ack \<and> message_fields_fit m \<and> frame_payload m = p"
  by (auto simp: parse_ack_payload_def frame_payload_def codec_simps Let_def bind_eq_Some_conv
      split: option.splits if_splits dest!: read_steps)

lemma parse_nack_inverse:
  "parse_nack_payload p = Inr m \<Longrightarrow>
    message_kind_of m = Kind_Nack \<and> message_fields_fit m \<and> frame_payload m = p"
  by (auto simp: parse_nack_payload_def frame_payload_def codec_simps Let_def bind_eq_Some_conv
      split: option.splits if_splits dest!: read_steps)

lemma parse_error_inverse:
  "parse_error_payload p = Inr m \<Longrightarrow>
    message_kind_of m = Kind_Error \<and> message_fields_fit m \<and> frame_payload m = p"
  by (auto simp: parse_error_payload_def frame_payload_def codec_simps Let_def bind_eq_Some_conv
      split: option.splits if_splits dest!: read_steps)

lemma parse_ping_inverse:
  "parse_ping_payload p = Inr m \<Longrightarrow>
    message_kind_of m = Kind_Ping \<and> message_fields_fit m \<and> frame_payload m = p"
  by (auto simp: parse_ping_payload_def frame_payload_def codec_simps Let_def
      split: option.splits if_splits dest!: read_steps)

lemma parse_pong_inverse:
  "parse_pong_payload p = Inr m \<Longrightarrow>
    message_kind_of m = Kind_Pong \<and> message_fields_fit m \<and> frame_payload m = p"
  by (auto simp: parse_pong_payload_def frame_payload_def codec_simps Let_def
      split: option.splits if_splits dest!: read_steps)

lemma parse_data_fields:
  "parse_data_payload p = Inr m \<Longrightarrow>
    \<exists>d n. m = DataMessage d \<and> fits_u32 (dm_host_id d) \<and> length (dm_muninn_frame d) = unat (n :: u32) \<and>
      take (length p) p = put_string (dm_host_id d) @ put_u64 (dm_sequence d) @
        put_u16 (dm_codec_version_major d) @ put_u16 (dm_codec_version_minor d) @
        put_u64 (dm_sent_at_unix_seconds d) @ put_u32 (dm_frame_crc32c d) @ put_u32 n @ dm_muninn_frame d"
  by (auto simp: parse_data_payload_def bind_eq_Some_conv
      simp del: take_all_iff take_all split: option.splits if_splits dest!: read_steps)

lemma parse_data_inverse:
  assumes "parse_data_payload p = Inr m"
  shows "message_kind_of m = Kind_Data \<and> message_fields_fit m \<and> frame_payload m = p"
proof -
  from parse_data_fields [OF assms] obtain d n where d: "m = DataMessage d" "fits_u32 (dm_host_id d)"
    and n: "length (dm_muninn_frame d) = unat (n :: u32)"
    and p: "p = put_string (dm_host_id d) @ put_u64 (dm_sequence d) @ put_u16 (dm_codec_version_major d) @
        put_u16 (dm_codec_version_minor d) @ put_u64 (dm_sent_at_unix_seconds d) @
        put_u32 (dm_frame_crc32c d) @ put_u32 n @ dm_muninn_frame d"
    by auto
  show ?thesis using d fits_of_unat [OF n]
    by (simp add: p n frame_payload_def codec_simps Let_def)
qed

lemma parse_server_hello_fields:
  "parse_server_hello_payload p = Inr m \<Longrightarrow>
    \<exists>h. m = ServerHello h \<and> fits_u32 (sh_reason h) \<and> p \<noteq> [] \<and> sh_accepted h = (p ! 0 \<noteq> 0) \<and>
      take (length p) p = take 1 p @ put_u16 (sh_negotiated_protocol_version h) @
        put_u64 (sh_session_id h) @ put_u64 (sh_server_checkpoint h) @
        put_u64 (sh_requested_resume_from h) @ put_string (sh_reason h)"
  by (auto simp: parse_server_hello_payload_def bind_eq_Some_conv Suc_le_eq
      simp del: take_all_iff take_all split: option.splits if_splits dest!: read_steps)

lemma parse_server_hello_inverse:
  assumes "parse_server_hello_payload p = Inr m"
  shows "message_kind_of m = Kind_ServerHello \<and> message_fields_fit m \<and>
    frame_payload m = p[0 := if p ! 0 = 0 then 0 else 1]"
proof -
  from parse_server_hello_fields [OF assms] obtain h rest where h: "m = ServerHello h"
    "fits_u32 (sh_reason h)" "p \<noteq> []" "sh_accepted h = (p ! 0 \<noteq> 0)"
    and p: "p = take 1 p @ rest" and rest: "rest = put_u16 (sh_negotiated_protocol_version h) @
        put_u64 (sh_session_id h) @ put_u64 (sh_server_checkpoint h) @
        put_u64 (sh_requested_resume_from h) @ put_string (sh_reason h)"
    by auto
  have upd: "p[0 := b] = b # rest" for b using h(3) p by (cases p) auto
  show ?thesis
    by (simp add: upd) (simp add: h rest frame_payload_def codec_simps Let_def)
qed

lemmas parse_payload_inverses =
  parse_client_hello_inverse parse_server_hello_inverse parse_data_inverse parse_ack_inverse
  parse_nack_inverse parse_error_inverse parse_ping_inverse parse_pong_inverse

text \<open>
  The two degrees of freedom of an accepted frame: the flags byte is ignored, and any non-zero
  \<open>accepted\<close> byte of a server hello reads as true.
\<close>

definition normalise_frame :: "bytes \<Rightarrow> bytes" where
  "normalise_frame raw =
    (let cleared = raw[7 := 0]
     in if raw ! 6 = Kind_ServerHello then cleared[12 := if raw ! 12 = 0 then 0 else 1] else cleared)"

lemma parse_message_payload:
  assumes "parse_header raw = Inr h" "parse_message raw = Inr m"
  shows "message_kind_of m = ph_kind h \<and> message_fields_fit m \<and>
    frame_payload m = (let p = drop kHeaderSize raw in
      if ph_kind h = Kind_ServerHello then p[0 := if p ! 0 = 0 then 0 else 1] else p)"
proof -
  have "take (unat (ph_payload_len h)) (drop kHeaderSize raw) = drop kHeaderSize raw"
    using parse_header_inverse [OF assms(1)] by simp
  then show ?thesis using assms
    by (auto simp: parse_message_def Let_def split: if_splits dest!: parse_payload_inverses)
qed

lemma parse_message_inverse:
  assumes "parse_message raw = Inr m"
  shows "message_fits m \<and> serialize_message m = normalise_frame raw"
proof -
  obtain h where h: "parse_header raw = Inr h"
    using assms by (auto simp: parse_message_def split: sum.splits)
  note hd = parse_header_inverse [OF h] and pl = parse_message_payload [OF h assms]
  have kind: "ph_kind h = raw ! 6"
    using hd nth_make_frame(1) [of "ph_kind h" "drop kHeaderSize raw"]
    by (metis nth_list_update_neq numeral_eq_iff semiring_norm(89,90))
  have "fits_u32 (frame_payload m)" using hd pl by (auto simp: fits_u32_def Let_def)
  moreover have "serialize_message m = normalise_frame raw"
  proof (cases "ph_kind h = Kind_ServerHello")
    case False
    then show ?thesis using hd pl kind
      by (simp add: serialize_message_frame normalise_frame_def Let_def)
  next
    case True
    have "make_frame k (p[0 := b]) = (make_frame k p)[12 := b]" for k b p
      by (simp add: make_frame_eq list_update_append)
    then show ?thesis using hd pl kind True
      by (simp add: serialize_message_frame normalise_frame_def Let_def kHeaderSize_def)
  qed
  ultimately show ?thesis using pl by (simp add: message_fits_def)
qed

subsection \<open>Properties\<close>

text \<open>
  C24: every message that fits the format comes back unchanged from \<open>parse_message\<close> after
  \<open>serialize_message\<close>, for all eight kinds.
\<close>

theorem wire_round_trip: "message_fits m \<Longrightarrow> parse_message (serialize_message m) = Inr m"
  by (rule parse_serialize)

definition sample_data :: data_message where
  "sample_data = \<lparr>dm_host_id = ''h1'', dm_sequence = 7, dm_codec_version_major = 1,
    dm_codec_version_minor = 0, dm_sent_at_unix_seconds = 1700000000, dm_frame_crc32c = 0,
    dm_muninn_frame = [1, 2, 3]\<rparr>"

lemma sample_data_fits: "message_fits (DataMessage sample_data)"
  by (simp add: message_fits_def fits_u32_def frame_payload_def codec_simps Let_def sample_data_def)

theorem wire_round_trip_witness:
  "parse_message (serialize_message (DataMessage sample_data)) = Inr (DataMessage sample_data)"
  by (rule wire_round_trip [OF sample_data_fits])

text \<open>
  C25: a frame \<open>parse_message\<close> accepts is the encoding of the message it returns, up to the ignored
  flags byte and the non-zero values of the \<open>accepted\<close> byte; nothing else of the frame is free.
\<close>

theorem wire_accepts_only_canonical:
  "parse_message raw = Inr m \<Longrightarrow> message_fits m \<and> serialize_message m = normalise_frame raw"
  by (rule parse_message_inverse)

theorem wire_accepts_only_canonical_witness:
  "serialize_message (DataMessage sample_data) =
    normalise_frame (serialize_message (DataMessage sample_data))"
  using wire_accepts_only_canonical [OF parse_serialize [OF sample_data_fits]] by simp

end
