(* ===== verification/TransportFrame.thy ===== *)
theory TransportFrame imports ByteCodec begin

text \<open>
  The storage side of a transport record, \<open>src/backend/Muninn/storage/lmdb_store.hpp\<close> and the codec
  functions at the top of \<open>lmdb_store.cpp\<close>: the status type of the store, \<open>TransportRecord\<close>, the
  big-endian keys and the frame in which a record is kept in the outbox and sent to Hugin.
\<close>

subsection \<open>Status of a store operation\<close>

datatype store_error_code =
    Ok | InvalidArgument | NotOpen | IoFailure | LmdbError | NotFound
  | SerializationFailure | ValidationFailure | CorruptedPayload

text \<open>
  \<open>StoreStatus\<close>: a failure carries the code, the return code of LMDB (\<open>MDB_SUCCESS\<close>, 0, when the
  failure is not LMDB's) and a text.  Results are sums with the failure on the left.
\<close>

record store_failure =
  sf_code :: store_error_code
  sf_lmdb_rc :: int
  sf_message :: string

type_synonym 'a store_result = "store_failure + 'a"

abbreviation (input) MDB_SUCCESS :: int where "MDB_SUCCESS \<equiv> 0"

definition store_error :: "store_error_code \<Rightarrow> string \<Rightarrow> store_failure" where
  "store_error code text = \<lparr>sf_code = code, sf_lmdb_rc = MDB_SUCCESS, sf_message = text\<rparr>"

subsection \<open>Keys\<close>

definition encode_u64_be :: "u64 \<Rightarrow> bytes" where
  "encode_u64_be v = [byte_at 56 v, byte_at 48 v, byte_at 40 v, byte_at 32 v,
     byte_at 24 v, byte_at 16 v, byte_at 8 v, byte_at 0 v]"

definition decode_u64_be :: "bytes \<Rightarrow> u64" where
  "decode_u64_be raw =
    push_bit 56 (ucast (raw ! 0)) OR push_bit 48 (ucast (raw ! 1)) OR
    push_bit 40 (ucast (raw ! 2)) OR push_bit 32 (ucast (raw ! 3)) OR
    push_bit 24 (ucast (raw ! 4)) OR push_bit 16 (ucast (raw ! 5)) OR
    push_bit 8 (ucast (raw ! 6)) OR ucast (raw ! 7)"

definition make_delta_key :: "u64 \<Rightarrow> u64 \<Rightarrow> bytes" where
  "make_delta_key base_snapshot_id target_snapshot_id =
    encode_u64_be base_snapshot_id @ encode_u64_be target_snapshot_id"

subsection \<open>Transport records and their frames\<close>

text \<open>\<open>TransportRecordType\<close> is cast from the stored byte without a check, so it is a byte.\<close>

type_synonym transport_record_type = byte

abbreviation (input) Transport_Snapshot :: transport_record_type where "Transport_Snapshot \<equiv> 1"
abbreviation (input) Transport_Delta :: transport_record_type where "Transport_Delta \<equiv> 2"

record transport_record =
  tr_sequence :: u64
  tr_created_at :: u64
  tr_type :: transport_record_type
  tr_routing_key :: string
  tr_payload :: bytes

definition serialize_frame :: "transport_record_type \<Rightarrow> string \<Rightarrow> bytes \<Rightarrow> u64 \<Rightarrow> bytes" where
  "serialize_frame type routing_key payload created_at =
    (let routing_size = of_nat (length routing_key) :: u32;
         payload_size = of_nat (length payload) :: u32;
         frame = [type];
         frame = frame @ encode_u64_be created_at;
         frame = frame @ drop 4 (encode_u64_be (ucast routing_size));
         frame = frame @ string_bytes routing_key;
         frame = frame @ drop 4 (encode_u64_be (ucast payload_size));
         frame = frame @ payload
     in frame)"

definition parse_frame :: "bytes \<Rightarrow> transport_record \<Rightarrow> transport_record store_result" where
  "parse_frame raw out_record =
    (if length raw < 1 + 8 + 4 + 4
     then Inl (store_error CorruptedPayload ''Transport frame is truncated.'')
     else
       let type = raw ! 0;
           created_at = decode_u64_be (drop 1 raw);
           route_size = unat (decode_u64_be (replicate 4 0 @ take 4 (drop 9 raw)));
           off = 13
       in if off + route_size + 4 > length raw
          then Inl (store_error CorruptedPayload ''Transport frame routing key is invalid.'')
          else
            let routing_key = bytes_string (take route_size (drop off raw));
                off = off + route_size;
                payload_size = unat (decode_u64_be (replicate 4 0 @ take 4 (drop off raw)));
                off = off + 4
            in if off + payload_size \<noteq> length raw
               then Inl (store_error CorruptedPayload ''Transport frame payload size is invalid.'')
               else Inr (out_record\<lparr>tr_type := type, tr_created_at := created_at,
                 tr_routing_key := routing_key, tr_payload := take payload_size (drop off raw)\<rparr>))"

subsection \<open>Keys are ordered like the numbers they encode\<close>

lemma encode_u64_be_put: "encode_u64_be v = put_u64 v"
  by (simp add: encode_u64_be_def put_u64_def)

lemma length_encode_u64_be [simp, codec_width]: "length (encode_u64_be v) = 8"
  by (simp add: encode_u64_be_def)

lemma decode_encode_u64_be: "decode_u64_be (encode_u64_be v @ post) = v"
  by (simp add: decode_u64_be_def encode_u64_be_def join64_right)

lemma encode_u64_be_inject [simp]: "encode_u64_be v = encode_u64_be w \<longleftrightarrow> v = w"
  by (simp add: encode_u64_be_put)

lemma make_delta_key_inject [simp]:
  "make_delta_key b t = make_delta_key b' t' \<longleftrightarrow> b = b' \<and> t = t'"
  by (auto simp: make_delta_key_def)

text \<open>The number that a byte string of a given length is, most significant byte first.\<close>

fun be_value :: "bytes \<Rightarrow> nat" where
  "be_value [] = 0"
| "be_value (b # bs) = unat b * 256 ^ length bs + be_value bs"

lemma be_value_bound: "be_value bs < 256 ^ length bs"
proof (induction bs)
  case (Cons b bs)
  have "unat b < 256" using unsigned_less [of b, where ?'a = nat] by simp
  then have "unat b * 256 ^ length bs \<le> 255 * 256 ^ length bs" by (intro mult_right_mono) auto
  then show ?case using Cons by (simp only: be_value.simps length_Cons power_Suc)
qed simp

lemma be_value_less: "length xs = length ys \<Longrightarrow> xs < ys \<longleftrightarrow> be_value xs < be_value ys"
proof (induction xs ys rule: list_induct2)
  case (Cons x xs y ys)
  let ?n = "256 ^ length ys :: nat"
  have bounds: "be_value xs < ?n" "be_value ys < ?n" using be_value_bound [of xs] be_value_bound [of ys] Cons(1) by simp_all
  consider "unat x < unat y" | "unat x = unat y" | "unat y < unat x" by linarith
  then show ?case
  proof cases
    case 1
    then have "(unat x + 1) * ?n \<le> unat y * ?n" by (intro mult_right_mono) auto
    then show ?thesis using 1 bounds Cons(1) by (simp add: word_less_nat_alt)
  next
    case 2
    then show ?thesis using Cons by (simp add: word_less_nat_alt word_unat_eq_iff)
  next
    case 3
    then have "(unat y + 1) * ?n \<le> unat x * ?n" by (intro mult_right_mono) auto
    then show ?thesis using 3 bounds Cons(1) by (auto simp: word_less_nat_alt word_unat_eq_iff)
  qed
qed simp

lemma unat_byte_at: "unat (byte_at n v) = unat v div 2 ^ n mod 256" for v :: u64
proof -
  have "byte_at n v = ucast (drop_bit n v)"
    by (rule bit_word_eqI) (auto simp: bit_byte_at bit_simps)
  moreover have "unat (drop_bit n v) = unat v div 2 ^ n" using unat_drop_bit_eq [of n v] drop_bit_eq_div [of n "unat v"] by (simp only:)
  ultimately show ?thesis
    by (simp only: unsigned_ucast_eq take_bit_eq_mod) simp
qed

lemma be_value_snoc: "be_value (bs @ [b]) = be_value bs * 256 + unat b"
  by (induction bs) (simp_all add: algebra_simps)

lemma be_value_put_u64: "be_value (put_u64 v) = unat v"
proof -
  have step: "be_value (bs @ [byte_at n v]) = unat v div 2 ^ n" if "be_value bs = unat v div 2 ^ (n + 8)" for bs n
    using div_mult_mod_eq [of "unat v div 2 ^ n" 256] that
    by (simp add: be_value_snoc unat_byte_at power_add div_mult2_eq)
  have "unat v < 2 ^ 64" using unsigned_less [of v, where ?'a = nat] by simp
  then have top: "be_value [] = unat v div 2 ^ 64" by simp
  have b56: "be_value ([] @ [byte_at 56 v]) = unat v div 2 ^ 56" by (rule step) (use top in simp)
  have b48: "be_value (([] @ [byte_at 56 v]) @ [byte_at 48 v]) = unat v div 2 ^ 48" by (rule step) (use b56 in simp)
  have b40: "be_value ((([] @ [byte_at 56 v]) @ [byte_at 48 v]) @ [byte_at 40 v]) = unat v div 2 ^ 40" by (rule step) (use b48 in simp)
  have b32: "be_value (((([] @ [byte_at 56 v]) @ [byte_at 48 v]) @ [byte_at 40 v]) @ [byte_at 32 v]) = unat v div 2 ^ 32" by (rule step) (use b40 in simp)
  have b24: "be_value ((((([] @ [byte_at 56 v]) @ [byte_at 48 v]) @ [byte_at 40 v]) @ [byte_at 32 v]) @ [byte_at 24 v]) = unat v div 2 ^ 24" by (rule step) (use b32 in simp)
  have b16: "be_value (((((([] @ [byte_at 56 v]) @ [byte_at 48 v]) @ [byte_at 40 v]) @ [byte_at 32 v]) @ [byte_at 24 v]) @ [byte_at 16 v]) = unat v div 2 ^ 16" by (rule step) (use b24 in simp)
  have b8: "be_value ((((((([] @ [byte_at 56 v]) @ [byte_at 48 v]) @ [byte_at 40 v]) @ [byte_at 32 v]) @ [byte_at 24 v]) @ [byte_at 16 v]) @ [byte_at 8 v]) = unat v div 2 ^ 8" by (rule step) (use b16 in simp)
  have b0: "be_value (((((((([] @ [byte_at 56 v]) @ [byte_at 48 v]) @ [byte_at 40 v]) @ [byte_at 32 v]) @ [byte_at 24 v]) @ [byte_at 16 v]) @ [byte_at 8 v]) @ [byte_at 0 v]) = unat v div 2 ^ 0" by (rule step) (use b8 in simp)
  show ?thesis using b0 by (simp add: put_u64_def)
qed

lemma encode_u64_be_less: "encode_u64_be v < encode_u64_be w \<longleftrightarrow> v < w"
  by (simp add: encode_u64_be_put be_value_less be_value_put_u64 word_less_nat_alt)

lemma encode_u64_be_le: "encode_u64_be v \<le> encode_u64_be w \<longleftrightarrow> v \<le> w"
  by (auto simp: le_less encode_u64_be_less)

lemma read_u64_decode: "off + 8 \<le> length raw \<Longrightarrow> read_u64_be raw off = Some (decode_u64_be (drop off raw), off + 8)"
  by (simp add: read_u64_be_def decode_u64_be_def)

lemma ucast_or_32_64: "(ucast (a OR b :: u32) :: u64) = ucast a OR ucast b"
  by (rule bit_word_eqI) (simp add: bit_simps)

lemma ucast_push_byte:
  "k + 8 \<le> 32 \<Longrightarrow> (ucast (push_bit k (ucast (a :: byte)) :: u32) :: u64) = push_bit k (ucast a)"
  by (rule bit_word_eqI) (auto simp: bit_simps dest: bit_imp_le_length)

lemma decode_pad:
  "decode_u64_be (replicate 4 0 @ [a, b, c, d]) =
    ucast (push_bit 24 (ucast a) OR push_bit 16 (ucast b) OR push_bit 8 (ucast c) OR ucast d :: u32)"
proof -
  have pad: "replicate 4 0 @ [a, b, c, d] = [0, 0, 0, 0, a, b, c, d]" by (simp add: numeral_eq_Suc)
  show ?thesis unfolding pad
    using ucast_push_byte [of 0 d] by (simp add: decode_u64_be_def ucast_or_32_64 ucast_push_byte)
qed

lemma unat_ucast_32_64 [simp]: "unat (ucast (n :: u32) :: u64) = unat n"
  by (simp add: unsigned_ucast_eq take_bit_nat_eq_self_iff less_le_trans [OF unsigned_less [where ?'a = nat]])

lemma decode_u64_low:
  assumes "off + 4 \<le> length raw"
  shows "\<exists>n. read_u32_be raw off = Some (n, off + 4) \<and>
    unat (decode_u64_be (replicate 4 0 @ take 4 (drop off raw))) = unat n"
proof -
  obtain a b c d r where r: "drop off raw = a # b # c # d # r"
    using split_at_4 [of "drop off raw"] assms by (auto simp: le_diff_conv2)
  have nth: "raw ! off = a" "raw ! (off + 1) = b" "raw ! (off + 2) = c" "raw ! (off + 3) = d"
    using r assms nth_drop [of off raw 0] nth_drop [of off raw 1] nth_drop [of off raw 2] nth_drop [of off raw 3]
    by simp_all
  have "take 4 (drop off raw) = [a, b, c, d]" by (simp add: r)
  then show ?thesis using assms by (simp add: decode_pad read_u32_be_def nth [simplified])
qed

lemma encode_low_put: "drop 4 (encode_u64_be (ucast (n :: u32))) = put_u32 n"
proof -
  have "byte_at k (ucast n :: u64) = byte_at k n" if "k < 32" for k
    using that by (intro bit_word_eqI) (auto simp: bit_byte_at bit_simps)
  then show ?thesis by (simp add: encode_u64_be_def put_u32_def)
qed

text \<open>The layout both codecs of a transport frame agree on.\<close>

definition frame_layout :: "byte \<Rightarrow> u64 \<Rightarrow> string \<Rightarrow> bytes \<Rightarrow> bytes" where
  "frame_layout type created_at routing_key payload =
    type # put_u64 created_at @ put_string routing_key @ put_u32 (of_nat (length payload)) @ payload"

lemma serialize_frame_layout:
  "serialize_frame type routing_key payload created_at = frame_layout type created_at routing_key payload"
  by (simp add: serialize_frame_def frame_layout_def encode_low_put encode_u64_be_put [of created_at] put_string_def Let_def)

lemma decode_low_put: "decode_u64_be (replicate 4 0 @ put_u32 n) = ucast n"
  by (simp only: put_u32_def decode_pad join32)

lemma frame_pieces:
  assumes "13 + unat n + 4 \<le> length raw" "13 + unat n + 4 + unat k = length raw"
    and n: "read_u32_be raw 9 = Some (n, 13)"
    and k: "read_u32_be raw (13 + unat n) = Some (k, 13 + unat n + 4)"
  shows "raw = frame_layout (raw ! 0) (decode_u64_be (drop 1 raw))
      (bytes_string (take (unat n) (drop 13 raw))) (drop (13 + unat n + 4) raw)"
proof -
  have t1: "take 1 raw = [raw ! 0]" using assms(1) by (cases raw) auto
  have "read_u64_be raw 1 = Some (decode_u64_be (drop 1 raw), 9)"
    using read_u64_decode [of 1 raw] assms(1) by simp
  then have t9: "take 9 raw = take 1 raw @ put_u64 (decode_u64_be (drop 1 raw))"
    using u64f.get_step assms(1) by fastforce
  have t13: "take 13 raw = take 9 raw @ put_u32 n" using u32f.get_step [OF n] assms(1) by simp
  have tn: "take (13 + unat n) raw = take 13 raw @ take (unat n) (drop 13 raw)" by (rule take_add)
  have tk: "take (13 + unat n + 4) raw = take (13 + unat n) raw @ put_u32 k"
    using u32f.get_step [OF k] assms(1) by simp
  have "raw = take (13 + unat n + 4) raw @ drop (13 + unat n + 4) raw" by simp
  also have "\<dots> = [raw ! 0] @ put_u64 (decode_u64_be (drop 1 raw)) @ put_u32 n @
      take (unat n) (drop 13 raw) @ put_u32 k @ drop (13 + unat n + 4) raw"
    by (simp only: tk tn t13 t9 t1 append_assoc)
  finally have raw: "raw = [raw ! 0] @ put_u64 (decode_u64_be (drop 1 raw)) @ put_u32 n @
      take (unat n) (drop 13 raw) @ put_u32 k @ drop (13 + unat n + 4) raw" .
  have sizes: "length (take (unat n) (drop 13 raw)) = unat n" "length (drop (13 + unat n + 4) raw) = unat k"
    using assms(1,2) by auto
  have words: "(of_nat (unat w) :: u32) = w" for w by simp
  show ?thesis
    unfolding frame_layout_def put_string_def length_bytes_string string_bytes_of_bytes_string sizes
      words using raw by simp
qed

lemma parse_frame_layout:
  assumes "fits_u32 key" "fits_u32 payload"
  shows "parse_frame (frame_layout type created_at key payload) out =
    Inr (out\<lparr>tr_type := type, tr_created_at := created_at, tr_routing_key := key, tr_payload := payload\<rparr>)"
  using assms unat_of_nat_fits [OF assms(1)] unat_of_nat_fits [OF assms(2)]
  by (simp add: parse_frame_def frame_layout_def put_string_def decode_low_put 
      decode_encode_u64_be [unfolded encode_u64_be_put] drop_Cons' Let_def)

lemma parse_frame_Inr:
  assumes "parse_frame raw out = Inr r"
  shows "raw = frame_layout (tr_type r) (tr_created_at r) (tr_routing_key r) (tr_payload r)
    \<and> fits_u32 (tr_routing_key r) \<and> fits_u32 (tr_payload r) \<and> tr_sequence r = tr_sequence out"
proof -
  let ?rs = "unat (decode_u64_be (replicate 4 0 @ take 4 (drop 9 raw)))"
  have len: "17 \<le> length raw" and rs: "13 + ?rs + 4 \<le> length raw"
    using assms by (auto simp: parse_frame_def Let_def split: if_splits)
  obtain n where n: "read_u32_be raw 9 = Some (n, 13)" and rsn: "?rs = unat n"
    using decode_u64_low [of 9 raw] len by auto
  obtain k where k: "read_u32_be raw (13 + unat n) = Some (k, 13 + unat n + 4)"
    and ps: "unat (decode_u64_be (replicate 4 0 @ take 4 (drop (13 + unat n) raw))) = unat k"
    using decode_u64_low [of "13 + unat n" raw] rs rsn by auto
  have total: "13 + unat n + 4 + unat k = length raw"
    and r: "r = out\<lparr>tr_type := raw ! 0, tr_created_at := decode_u64_be (drop 1 raw),
      tr_routing_key := bytes_string (take (unat n) (drop 13 raw)),
      tr_payload := take (unat k) (drop (13 + unat n + 4) raw)\<rparr>"
    using assms len rs unfolding parse_frame_def Let_def rsn ps
    by (auto simp: ps split: if_splits)
  have payload: "take (unat k) (drop (13 + unat n + 4) raw) = drop (13 + unat n + 4) raw"
    using total by (intro take_all) simp
  have "raw = frame_layout (tr_type r) (tr_created_at r) (tr_routing_key r) (tr_payload r)"
    using frame_pieces [OF _ total n k] total unfolding r by (simp add: payload)
  moreover have "fits_u32 (tr_payload r)" by (rule fits_of_unat [of _ k]) (use total r in simp)
  moreover have "fits_u32 (tr_routing_key r)" by (rule fits_of_unat [of _ n]) (use total r in simp)
  ultimately show ?thesis by (simp add: r)
qed

end
