(* ===== verification/MuninnFrame.thy ===== *)
theory MuninnFrame imports TransportFrame begin

text \<open>
  The frame Hugin takes out of a data message, \<open>src/backend/Hugin/protocol/muninn_frame.hpp\<close> and
  \<open>muninn_frame.cpp\<close>, and its agreement with the frame Muninn's store writes
  (\<open>serialize_frame\<close> of \<open>lmdb_store.cpp\<close>, in the theory TransportFrame): the two programs have a codec each
  for the same bytes.
\<close>

subsection \<open>Frames of Hugin\<close>

datatype muninn_record_type = Snapshot | Delta

definition muninn_record_type_byte :: "muninn_record_type \<Rightarrow> byte" where
  "muninn_record_type_byte t = (case t of Snapshot \<Rightarrow> 1 | Delta \<Rightarrow> 2)"

text \<open>The cast \<open>static_cast<MuninnRecordType>\<close>, used on the two valid bytes only.\<close>

definition muninn_record_type_of :: "byte \<Rightarrow> muninn_record_type" where
  "muninn_record_type_of b = (if b = 1 then Snapshot else Delta)"

record muninn_frame =
  mf_type :: muninn_record_type
  mf_created_at_unix_seconds :: u64
  mf_routing_key :: string
  mf_payload :: bytes

definition kMinFrameSize :: nat where "kMinFrameSize = 1 + 8 + 4 + 4"

definition is_valid_record_type :: "byte \<Rightarrow> bool" where
  "is_valid_record_type b \<longleftrightarrow>
    b = muninn_record_type_byte Snapshot \<or> b = muninn_record_type_byte Delta"

definition serialize_muninn_frame :: "muninn_frame \<Rightarrow> bytes" where
  "serialize_muninn_frame frame =
    (let out = [muninn_record_type_byte (mf_type frame)];
         out = append_u64_be out (mf_created_at_unix_seconds frame);
         out = append_u32_be out (of_nat (length (mf_routing_key frame)));
         out = out @ string_bytes (mf_routing_key frame);
         out = append_u32_be out (of_nat (length (mf_payload frame)))
     in out @ mf_payload frame)"

definition parse_muninn_frame :: "bytes \<Rightarrow> muninn_frame status_or" where
  "parse_muninn_frame raw =
    (if length raw < kMinFrameSize then Inl (ParseError, ''Muninn frame is truncated.'')
     else if \<not> is_valid_record_type (raw ! 0) then Inl (ParseError, ''Muninn frame type is invalid.'')
     else (case read_u64_be raw 1 of
       None \<Rightarrow> Inl (ParseError, ''Muninn frame created_at is truncated.'')
     | Some (created_at, o1) \<Rightarrow>
         (case read_u32_be raw o1 of
           None \<Rightarrow> Inl (ParseError, ''Muninn frame routing key length is truncated.'')
         | Some (route_len, o2) \<Rightarrow>
             if o2 + unat route_len + 4 > length raw
             then Inl (ParseError, ''Muninn frame routing key is invalid.'')
             else (case read_u32_be raw (o2 + unat route_len) of
               None \<Rightarrow> Inl (ParseError, ''Muninn frame payload length is truncated.'')
             | Some (payload_len, o3) \<Rightarrow>
                 if o3 + unat payload_len \<noteq> length raw
                 then Inl (ParseError, ''Muninn frame payload size is invalid.'')
                 else Inr \<lparr>mf_type = muninn_record_type_of (raw ! 0),
                   mf_created_at_unix_seconds = created_at,
                   mf_routing_key = bytes_string (take (unat route_len) (drop o2 raw)),
                   mf_payload = drop o3 raw\<rparr>))))"

subsection \<open>Layout\<close>

lemma muninn_record_type_of_byte [simp]: "muninn_record_type_of (muninn_record_type_byte t) = t"
  by (simp add: muninn_record_type_of_def muninn_record_type_byte_def split: muninn_record_type.split)

lemma muninn_record_type_byte_of [simp]:
  "is_valid_record_type b \<Longrightarrow> muninn_record_type_byte (muninn_record_type_of b) = b"
  by (auto simp: is_valid_record_type_def muninn_record_type_of_def muninn_record_type_byte_def)

lemma is_valid_record_type_byte [simp]: "is_valid_record_type (muninn_record_type_byte t)"
  by (cases t) (simp_all add: is_valid_record_type_def)

lemma serialize_muninn_frame_layout:
  "serialize_muninn_frame f = frame_layout (muninn_record_type_byte (mf_type f))
    (mf_created_at_unix_seconds f) (mf_routing_key f) (mf_payload f)"
  by (simp add: serialize_muninn_frame_def frame_layout_def put_string_def codec_simps Let_def)

lemma parse_muninn_frame_layout:
  assumes "fits_u32 key" "fits_u32 payload"
  shows "parse_muninn_frame (frame_layout (muninn_record_type_byte t) created_at key payload) =
    Inr \<lparr>mf_type = t, mf_created_at_unix_seconds = created_at, mf_routing_key = key, mf_payload = payload\<rparr>"
  using assms unat_of_nat_fits [OF assms(1)] unat_of_nat_fits [OF assms(2)]
  by (simp add: parse_muninn_frame_def kMinFrameSize_def frame_layout_def put_string_def field_rt drop_Cons')

lemma parse_muninn_frame_Inr:
  assumes "parse_muninn_frame raw = Inr f"
  shows "raw = frame_layout (muninn_record_type_byte (mf_type f)) (mf_created_at_unix_seconds f)
      (mf_routing_key f) (mf_payload f) \<and> fits_u32 (mf_routing_key f) \<and> fits_u32 (mf_payload f)"
proof -
  have len: "17 \<le> length raw" and valid: "is_valid_record_type (raw ! 0)"
    using assms by (auto simp: parse_muninn_frame_def kMinFrameSize_def split: if_splits)
  have c: "read_u64_be raw 1 = Some (decode_u64_be (drop 1 raw), 9)"
    using read_u64_decode [of 1 raw] len by simp
  obtain n where n: "read_u32_be raw 9 = Some (n, 13)" using decode_u64_low [of 9 raw] len by auto
  have room: "13 + unat n + 4 \<le> length raw"
    using assms len c n by (auto simp: parse_muninn_frame_def kMinFrameSize_def split: if_splits)
  obtain k where k: "read_u32_be raw (13 + unat n) = Some (k, 13 + unat n + 4)"
    using decode_u64_low [of "13 + unat n" raw] room by auto
  have total: "13 + unat n + 4 + unat k = length raw"
    and f: "f = \<lparr>mf_type = muninn_record_type_of (raw ! 0),
      mf_created_at_unix_seconds = decode_u64_be (drop 1 raw),
      mf_routing_key = bytes_string (take (unat n) (drop 13 raw)), mf_payload = drop (13 + unat n + 4) raw\<rparr>"
    using assms len room valid c n k
    by (auto simp: parse_muninn_frame_def kMinFrameSize_def split: if_splits)
  have "raw = frame_layout (muninn_record_type_byte (mf_type f)) (mf_created_at_unix_seconds f)
      (mf_routing_key f) (mf_payload f)"
    using frame_pieces [OF room total n k] valid unfolding f by simp
  moreover have "fits_u32 (mf_payload f)" by (rule fits_of_unat [of _ k]) (use total f in simp)
  moreover have "fits_u32 (mf_routing_key f)" by (rule fits_of_unat [of _ n]) (use total f in simp)
  ultimately show ?thesis by simp
qed

subsection \<open>Muninn's record as Hugin's frame\<close>

text \<open>What Hugin makes of a record of the outbox.\<close>

definition frame_of_record :: "transport_record \<Rightarrow> muninn_frame" where
  "frame_of_record r = \<lparr>mf_type = muninn_record_type_of (tr_type r),
    mf_created_at_unix_seconds = tr_created_at r, mf_routing_key = tr_routing_key r,
    mf_payload = tr_payload r\<rparr>"

text \<open>
  The two parsers accept the same byte strings, up to the type byte that only Hugin checks, and read
  the same fields from them.
\<close>

lemma parsers_agree:
  "parse_muninn_frame raw = Inr f \<longleftrightarrow>
    (\<exists>r. parse_frame raw out = Inr r \<and> is_valid_record_type (tr_type r) \<and> f = frame_of_record r)"
proof
  assume "parse_muninn_frame raw = Inr f"
  note f = parse_muninn_frame_Inr [OF this]
  show "\<exists>r. parse_frame raw out = Inr r \<and> is_valid_record_type (tr_type r) \<and> f = frame_of_record r"
    using parse_frame_layout [of "mf_routing_key f" "mf_payload f"
        "muninn_record_type_byte (mf_type f)" "mf_created_at_unix_seconds f" out] f
    by (intro exI [of _ "out\<lparr>tr_type := muninn_record_type_byte (mf_type f),
      tr_created_at := mf_created_at_unix_seconds f, tr_routing_key := mf_routing_key f,
      tr_payload := mf_payload f\<rparr>"]) (simp add: frame_of_record_def)
next
  assume "\<exists>r. parse_frame raw out = Inr r \<and> is_valid_record_type (tr_type r) \<and> f = frame_of_record r"
  then obtain r where "parse_frame raw out = Inr r" and valid: "is_valid_record_type (tr_type r)"
    and f: "f = frame_of_record r" by blast
  note r = parse_frame_Inr [OF this(1)]
  show "parse_muninn_frame raw = Inr f"
    using parse_muninn_frame_layout [of "tr_routing_key r" "tr_payload r"
        "muninn_record_type_of (tr_type r)" "tr_created_at r"] r valid f
    by (simp add: frame_of_record_def)
qed

subsection \<open>Properties\<close>

text \<open>
  A record that Muninn's store frames with \<open>serialize_frame\<close> arrives at Hugin's
  \<open>parse_muninn_frame\<close> with the same type, time, routing key and payload.
\<close>

lemma stored_record_reaches_hugin:
  assumes "fits_u32 routing_key" and "fits_u32 payload"
  shows "parse_muninn_frame (serialize_frame (muninn_record_type_byte t) routing_key payload created_at) =
    Inr \<lparr>mf_type = t, mf_created_at_unix_seconds = created_at, mf_routing_key = routing_key,
      mf_payload = payload\<rparr>"
  unfolding serialize_frame_layout by (rule parse_muninn_frame_layout [OF assms])

lemma stored_record_reaches_hugin_witness:
  "parse_muninn_frame (serialize_frame (muninn_record_type_byte Delta) ''h1'' [9, 9] 5) =
    Inr \<lparr>mf_type = Delta, mf_created_at_unix_seconds = 5, mf_routing_key = ''h1'', mf_payload = [9, 9]\<rparr>"
  by (rule stored_record_reaches_hugin) (simp_all add: fits_u32_def)

text \<open>
  Hugin's \<open>parse_muninn_frame\<close> accepts exactly the byte strings that \<open>parse_frame\<close> of the store
  accepts with a known type byte, and reads the same record from them.
\<close>

lemma frame_parsers_agree:
  "parse_muninn_frame raw = Inr f \<longleftrightarrow>
    (\<exists>r. parse_frame raw out = Inr r \<and> is_valid_record_type (tr_type r) \<and> f = frame_of_record r)"
  by (rule parsers_agree)

end
