(* ===== verification/Models.thy ===== *)
theory Models imports Prelude begin

text \<open>
  The domain model of Muninn: \<open>src/backend/Muninn/domain/model/models.hpp\<close> (snapshots, entries and
  deltas) and \<open>validation_types.hpp\<close> (issues and reports).  Field names carry the name of their
  structure as a prefix, because HOL's record selectors are global.
\<close>

subsection \<open>Snapshots\<close>

type_synonym entry_id = u64
type_synonym snapshot_id = u64
type_synonym hash64 = u64
type_synonym unix_timestamp = i64

record schema_header =
  sc_major :: u16
  sc_minor :: u16
  sc_patch :: u16
  sc_min_reader_major :: u16

definition kCurrentSchemaHeader :: schema_header where
  "kCurrentSchemaHeader = \<lparr>sc_major = 1, sc_minor = 0, sc_patch = 0, sc_min_reader_major = 1\<rparr>"

text \<open>\<open>EntryType\<close> is cast from a stored byte without a check, so it is a byte with named values.\<close>

type_synonym entry_type = byte

abbreviation (input) EntryType_File :: entry_type where "EntryType_File \<equiv> 0"
abbreviation (input) EntryType_Directory :: entry_type where "EntryType_Directory \<equiv> 1"
abbreviation (input) EntryType_Symlink :: entry_type where "EntryType_Symlink \<equiv> 2"
abbreviation (input) EntryType_Special :: entry_type where "EntryType_Special \<equiv> 3"

record file_metadata =
  md_size_bytes :: u64
  md_created_at :: unix_timestamp
  md_modified_at :: unix_timestamp
  md_accessed_at :: unix_timestamp
  md_permissions :: u32
  md_file_id :: u64
  md_device_id :: u64
  md_content_hash :: "hash64 option"

record file_entry =
  fe_id :: entry_id
  fe_parent_id :: entry_id
  fe_normalized_path :: string
  fe_name :: string
  fe_type :: entry_type
  fe_metadata :: file_metadata

record snapshot =
  sn_schema :: schema_header
  sn_snapshot_id :: snapshot_id
  sn_created_at :: unix_timestamp
  sn_host_identifier :: string
  sn_root_entry_id :: entry_id
  sn_entries :: "file_entry list"

subsection \<open>Deltas\<close>

text \<open>\<open>AddedEntry\<close> and \<open>RemovedEntry\<close> wrap one entry each.\<close>

type_synonym added_entry = file_entry
type_synonym removed_entry = file_entry

record modified_entry =
  me_entry_id :: entry_id
  me_before :: file_metadata
  me_after :: file_metadata

record renamed_entry =
  re_before_entry_id :: entry_id
  re_after_entry_id :: entry_id
  re_old_path :: string
  re_new_path :: string

record delta_snapshot =
  dl_schema :: schema_header
  dl_base_snapshot_id :: snapshot_id
  dl_target_snapshot_id :: snapshot_id
  dl_added_entries :: "added_entry list"
  dl_removed_entries :: "removed_entry list"
  dl_modified_entries :: "modified_entry list"
  dl_renamed_entries :: "renamed_entry list"

definition metadata_equals :: "file_metadata \<Rightarrow> file_metadata \<Rightarrow> bool" where
  "metadata_equals lhs rhs \<longleftrightarrow>
    md_size_bytes lhs = md_size_bytes rhs \<and>
    md_created_at lhs = md_created_at rhs \<and>
    md_modified_at lhs = md_modified_at rhs \<and>
    md_accessed_at lhs = md_accessed_at rhs \<and>
    md_permissions lhs = md_permissions rhs \<and>
    md_file_id lhs = md_file_id rhs \<and>
    md_device_id lhs = md_device_id rhs \<and>
    md_content_hash lhs = md_content_hash rhs"

definition structural_entry_equals :: "file_entry \<Rightarrow> file_entry \<Rightarrow> bool" where
  "structural_entry_equals lhs rhs \<longleftrightarrow>
    fe_id lhs = fe_id rhs \<and>
    fe_parent_id lhs = fe_parent_id rhs \<and>
    fe_normalized_path lhs = fe_normalized_path rhs \<and>
    fe_name lhs = fe_name rhs \<and>
    fe_type lhs = fe_type rhs \<and>
    metadata_equals (fe_metadata lhs) (fe_metadata rhs)"

lemma metadata_equals_iff [simp]: "metadata_equals m n \<longleftrightarrow> m = n"
  by (auto simp: metadata_equals_def)

lemma structural_entry_equals_iff [simp]: "structural_entry_equals e f \<longleftrightarrow> e = f"
  by (auto simp: structural_entry_equals_def)

subsection \<open>Validation reports\<close>

datatype validation_severity = Info | Warning | Error | Fatal

datatype validation_error_code =
    SnapshotIdZero | SnapshotSchemaInvalid | SnapshotSchemaTooNew | SnapshotSchemaTooOld
  | SnapshotTimestampInvalid | SnapshotHostIdentifierEmpty | SnapshotRootIdZero
  | SnapshotEntriesEmpty | SnapshotRootMissing | SnapshotRootNotDirectory | SnapshotRootParentNotZero
  | EntryIdZero | EntryIdDuplicate | EntryPathEmpty | EntryPathNotAbsolute | EntryPathNotNormalized
  | EntryPathTraversalDetected | EntryNameMismatch | EntryPermissionsInvalid | EntryTypeInvalid
  | EntryTimestampOrderInvalid | EntryTimestampInFuture
  | ParentIdZeroNonRoot | ParentMissing | ParentNotDirectory | GraphCycleDetected
  | GraphDisconnectedEntry | GraphDuplicatePath | GraphMaxDepthExceeded
  | DeltaBaseSnapshotIdZero | DeltaTargetSnapshotIdZero | DeltaBaseEqualsTarget
  | DeltaAddedEntryDuplicate | DeltaRemovedEntryDuplicate | DeltaModifiedEntryDuplicate
  | DeltaRenamedEntryDuplicate | DeltaConflictingOperations | DeltaRemovedEntryMissingInBase
  | DeltaAddedEntryMissingInTarget | DeltaModifiedEntryMissingInBase
  | DeltaModifiedEntryMissingInTarget | DeltaRenamedOldMissingInBase | DeltaRenamedNewMissingInTarget
  | DeltaRenamePathConflict
  | MigrationUnsupportedSourceVersion | MigrationUnsupportedTargetVersion | MigrationNoPathAvailable
  | MigrationValidationFailed | MigrationNonReversible

record validation_issue =
  vi_code :: validation_error_code
  vi_severity :: validation_severity
  vi_message :: string
  vi_snapshot_id :: "snapshot_id option"
  vi_entry_id :: "entry_id option"
  vi_path :: string

text \<open>A \<open>ValidationReport\<close> holds the list of issues and nothing else.\<close>

type_synonym validation_report = "validation_issue list"

definition is_error_issue :: "validation_issue \<Rightarrow> bool" where
  "is_error_issue issue \<longleftrightarrow> vi_severity issue = Error \<or> vi_severity issue = Fatal"

definition has_errors :: "validation_report \<Rightarrow> bool" where
  "has_errors report \<longleftrightarrow> list_ex is_error_issue report"

definition has_fatal :: "validation_report \<Rightarrow> bool" where
  "has_fatal report \<longleftrightarrow> list_ex (\<lambda>issue. vi_severity issue = Fatal) report"

lemma has_errors_append [simp]: "has_errors (r @ s) \<longleftrightarrow> has_errors r \<or> has_errors s"
  by (simp add: has_errors_def)

lemma has_errors_Nil [simp]: "\<not> has_errors []"
  by (simp add: has_errors_def)

lemma has_errors_Cons [simp]: "has_errors (i # r) \<longleftrightarrow> is_error_issue i \<or> has_errors r"
  by (simp add: has_errors_def)

lemma has_errors_concat: "has_errors (concat rs) \<longleftrightarrow> (\<exists>r\<in>set rs. has_errors r)"
  by (induction rs) auto

end
