(* ===== verification/Serialization.thy ===== *)
theory Serialization imports Models begin

text \<open>
  The binary format of snapshots and deltas: \<open>BinaryWriter\<close> and \<open>BinaryReader\<close> of
  \<open>src/backend/Muninn/domain/serialization/serialization_helper.hpp\<close> and the binary half of
  \<open>serialization.cpp\<close>.  A writer takes the contents of the stream and returns them extended, or the
  status it stopped with; a reader takes what is left of the stream and returns a value and the rest.
  Both run over in-memory streams, whose \<open>write\<close> does not fail, so \<open>IoFailure\<close> does not occur.
\<close>

subsection \<open>Constants and status\<close>

definition kSnapshotMagic :: u32 where "kSnapshotMagic = 0x48534E50"
definition kDeltaMagic :: u32 where "kDeltaMagic = 0x48444C54"
definition kBinaryFormatMajor :: u16 where "kBinaryFormatMajor = 1"
definition kBinaryFormatMinor :: u16 where "kBinaryFormatMinor = 0"
definition kMaxBinaryEntries :: nat where "kMaxBinaryEntries = 5000000"
definition kMaxStringLength :: nat where "kMaxStringLength = 4 * 1024 * 1024"

datatype serialization_error_code =
    NoError | IoFailure | InvalidMagic | UnsupportedFormatVersion | PayloadTruncated
  | PayloadOverflow | InvalidValue | StringTooLarge | EntryCountTooLarge | JsonFieldMissing
  | JsonTypeMismatch

type_synonym ser_error = "serialization_error_code \<times> string"
type_synonym 'a ser_writer = "'a \<Rightarrow> bytes \<Rightarrow> ser_error + bytes"
type_synonym 'a ser_reader = "bytes \<Rightarrow> ser_error + 'a \<times> bytes"

subsection \<open>BinaryWriter\<close>

definition bw_write_bytes :: "bytes ser_writer" where
  "bw_write_bytes data stream = Inr (stream @ data)"

definition bw_write_u8 :: "byte ser_writer" where
  "bw_write_u8 v = bw_write_bytes [v]"

definition encode_u16_le :: "u16 \<Rightarrow> bytes" where
  "encode_u16_le v = [byte_at 0 v, byte_at 8 v]"

definition encode_u32_le :: "u32 \<Rightarrow> bytes" where
  "encode_u32_le v = [byte_at 0 v, byte_at 8 v, byte_at 16 v, byte_at 24 v]"

definition encode_u64_le :: "u64 \<Rightarrow> bytes" where
  "encode_u64_le v = [byte_at 0 v, byte_at 8 v, byte_at 16 v, byte_at 24 v,
     byte_at 32 v, byte_at 40 v, byte_at 48 v, byte_at 56 v]"

definition bw_write_u16 :: "u16 ser_writer" where
  "bw_write_u16 v = bw_write_bytes (encode_u16_le v)"

definition bw_write_u32 :: "u32 ser_writer" where
  "bw_write_u32 v = bw_write_bytes (encode_u32_le v)"

definition bw_write_u64 :: "u64 ser_writer" where
  "bw_write_u64 v = bw_write_bytes (encode_u64_le v)"

definition bw_write_i64 :: "i64 ser_writer" where
  "bw_write_i64 v = bw_write_u64 v"

definition bw_write_string :: "string ser_writer" where
  "bw_write_string v stream =
    (if length v > kMaxStringLength
     then Inl (StringTooLarge, ''String length exceeds serialization limit.'')
     else sum_bind (bw_write_u32 (of_nat (length v)) stream) (bw_write_bytes (string_bytes v)))"

subsection \<open>BinaryReader\<close>

definition br_read_bytes :: "nat \<Rightarrow> bytes ser_reader" where
  "br_read_bytes n stream =
    (if length stream < n
     then Inl (PayloadTruncated, ''Binary payload ended before expected bytes were read.'')
     else Inr (take n stream, drop n stream))"

definition br_read_u8 :: "byte ser_reader" where
  "br_read_u8 stream = sum_bind (br_read_bytes 1 stream) (\<lambda>(b, s). Inr (b ! 0, s))"

definition decode_u16_le :: "bytes \<Rightarrow> u16" where
  "decode_u16_le b = ucast (b ! 0) OR push_bit 8 (ucast (b ! 1))"

definition decode_u32_le :: "bytes \<Rightarrow> u32" where
  "decode_u32_le b = ucast (b ! 0) OR push_bit 8 (ucast (b ! 1)) OR push_bit 16 (ucast (b ! 2)) OR
    push_bit 24 (ucast (b ! 3))"

definition decode_u64_le :: "bytes \<Rightarrow> u64" where
  "decode_u64_le b = ucast (b ! 0) OR push_bit 8 (ucast (b ! 1)) OR push_bit 16 (ucast (b ! 2)) OR
    push_bit 24 (ucast (b ! 3)) OR push_bit 32 (ucast (b ! 4)) OR push_bit 40 (ucast (b ! 5)) OR
    push_bit 48 (ucast (b ! 6)) OR push_bit 56 (ucast (b ! 7))"

definition br_read_u16 :: "u16 ser_reader" where
  "br_read_u16 stream = sum_bind (br_read_bytes 2 stream) (\<lambda>(b, s). Inr (decode_u16_le b, s))"

definition br_read_u32 :: "u32 ser_reader" where
  "br_read_u32 stream = sum_bind (br_read_bytes 4 stream) (\<lambda>(b, s). Inr (decode_u32_le b, s))"

definition br_read_u64 :: "u64 ser_reader" where
  "br_read_u64 stream = sum_bind (br_read_bytes 8 stream) (\<lambda>(b, s). Inr (decode_u64_le b, s))"

definition br_read_i64 :: "i64 ser_reader" where
  "br_read_i64 stream = br_read_u64 stream"

definition br_read_string :: "string ser_reader" where
  "br_read_string stream =
    sum_bind (br_read_u32 stream) (\<lambda>(n, s).
      if unat n > kMaxStringLength
      then Inl (StringTooLarge, ''Serialized string length exceeds limit.'')
      else if n = 0 then Inr ([], s)
      else sum_bind (br_read_bytes (unat n) s) (\<lambda>(b, s). Inr (bytes_string b, s)))"

subsection \<open>Parts of a snapshot\<close>

definition write_schema :: "schema_header ser_writer" where
  "write_schema schema s =
    sum_bind (bw_write_u16 (sc_major schema) s) (\<lambda>s.
    sum_bind (bw_write_u16 (sc_minor schema) s) (\<lambda>s.
    sum_bind (bw_write_u16 (sc_patch schema) s) (\<lambda>s.
    bw_write_u16 (sc_min_reader_major schema) s)))"

definition read_schema :: "schema_header ser_reader" where
  "read_schema s =
    sum_bind (br_read_u16 s) (\<lambda>(major, s).
    sum_bind (br_read_u16 s) (\<lambda>(minor, s).
    sum_bind (br_read_u16 s) (\<lambda>(patch, s).
    sum_bind (br_read_u16 s) (\<lambda>(min_reader, s).
    Inr (\<lparr>sc_major = major, sc_minor = minor, sc_patch = patch, sc_min_reader_major = min_reader\<rparr>, s)))))"

definition write_metadata :: "file_metadata ser_writer" where
  "write_metadata metadata s =
    sum_bind (bw_write_u64 (md_size_bytes metadata) s) (\<lambda>s.
    sum_bind (bw_write_i64 (md_created_at metadata) s) (\<lambda>s.
    sum_bind (bw_write_i64 (md_modified_at metadata) s) (\<lambda>s.
    sum_bind (bw_write_i64 (md_accessed_at metadata) s) (\<lambda>s.
    sum_bind (bw_write_u32 (md_permissions metadata) s) (\<lambda>s.
    sum_bind (bw_write_u64 (md_file_id metadata) s) (\<lambda>s.
    sum_bind (bw_write_u64 (md_device_id metadata) s) (\<lambda>s.
    case md_content_hash metadata of
      None \<Rightarrow> bw_write_u8 0 s
    | Some h \<Rightarrow> sum_bind (bw_write_u8 1 s) (bw_write_u64 h))))))))"

definition read_metadata :: "file_metadata ser_reader" where
  "read_metadata s =
    sum_bind (br_read_u64 s) (\<lambda>(size_bytes, s).
    sum_bind (br_read_i64 s) (\<lambda>(created_at, s).
    sum_bind (br_read_i64 s) (\<lambda>(modified_at, s).
    sum_bind (br_read_i64 s) (\<lambda>(accessed_at, s).
    sum_bind (br_read_u32 s) (\<lambda>(permissions, s).
    sum_bind (br_read_u64 s) (\<lambda>(file_id, s).
    sum_bind (br_read_u64 s) (\<lambda>(device_id, s).
    sum_bind (br_read_u8 s) (\<lambda>(has_hash, s).
    sum_bind (if has_hash \<noteq> 0 then sum_bind (br_read_u64 s) (\<lambda>(h, s). Inr (Some h, s))
              else Inr (None, s)) (\<lambda>(content_hash, s).
    Inr (\<lparr>md_size_bytes = size_bytes, md_created_at = created_at, md_modified_at = modified_at,
      md_accessed_at = accessed_at, md_permissions = permissions, md_file_id = file_id,
      md_device_id = device_id, md_content_hash = content_hash\<rparr>, s))))))))))"

definition write_entry :: "file_entry ser_writer" where
  "write_entry entry s =
    sum_bind (bw_write_u64 (fe_id entry) s) (\<lambda>s.
    sum_bind (bw_write_u64 (fe_parent_id entry) s) (\<lambda>s.
    sum_bind (bw_write_string (fe_normalized_path entry) s) (\<lambda>s.
    sum_bind (bw_write_string (fe_name entry) s) (\<lambda>s.
    sum_bind (bw_write_u8 (fe_type entry) s) (\<lambda>s.
    write_metadata (fe_metadata entry) s)))))"

definition read_entry :: "file_entry ser_reader" where
  "read_entry s =
    sum_bind (br_read_u64 s) (\<lambda>(id, s).
    sum_bind (br_read_u64 s) (\<lambda>(parent_id, s).
    sum_bind (br_read_string s) (\<lambda>(path, s).
    sum_bind (br_read_string s) (\<lambda>(name, s).
    sum_bind (br_read_u8 s) (\<lambda>(raw_type, s).
    sum_bind (read_metadata s) (\<lambda>(metadata, s).
    Inr (\<lparr>fe_id = id, fe_parent_id = parent_id, fe_normalized_path = path, fe_name = name,
      fe_type = raw_type, fe_metadata = metadata\<rparr>, s)))))))"

text \<open>The operation records of a delta, whose loops write and read their fields in place.\<close>

definition write_modified :: "modified_entry ser_writer" where
  "write_modified modified s =
    sum_bind (bw_write_u64 (me_entry_id modified) s) (\<lambda>s.
    sum_bind (write_metadata (me_before modified) s) (\<lambda>s.
    write_metadata (me_after modified) s))"

definition read_modified :: "modified_entry ser_reader" where
  "read_modified s =
    sum_bind (br_read_u64 s) (\<lambda>(id, s).
    sum_bind (read_metadata s) (\<lambda>(before, s).
    sum_bind (read_metadata s) (\<lambda>(after, s).
    Inr (\<lparr>me_entry_id = id, me_before = before, me_after = after\<rparr>, s))))"

definition write_renamed :: "renamed_entry ser_writer" where
  "write_renamed renamed s =
    sum_bind (bw_write_u64 (re_before_entry_id renamed) s) (\<lambda>s.
    sum_bind (bw_write_u64 (re_after_entry_id renamed) s) (\<lambda>s.
    sum_bind (bw_write_string (re_old_path renamed) s) (\<lambda>s.
    bw_write_string (re_new_path renamed) s)))"

definition read_renamed :: "renamed_entry ser_reader" where
  "read_renamed s =
    sum_bind (br_read_u64 s) (\<lambda>(before_id, s).
    sum_bind (br_read_u64 s) (\<lambda>(after_id, s).
    sum_bind (br_read_string s) (\<lambda>(old_path, s).
    sum_bind (br_read_string s) (\<lambda>(new_path, s).
    Inr (\<lparr>re_before_entry_id = before_id, re_after_entry_id = after_id, re_old_path = old_path,
      re_new_path = new_path\<rparr>, s)))))"

subsection \<open>Headers\<close>

definition write_binary_header :: "u32 ser_writer" where
  "write_binary_header magic s =
    sum_bind (bw_write_u32 magic s) (\<lambda>s.
    sum_bind (bw_write_u16 kBinaryFormatMajor s) (\<lambda>s.
    bw_write_u16 kBinaryFormatMinor s))"

text \<open>
  \<open>read_binary_header\<close> only says whether the header is right; its callers report every failure,
  truncation included, as an invalid header.
\<close>

definition read_binary_header :: "u32 \<Rightarrow> bytes \<Rightarrow> bytes option" where
  "read_binary_header expected_magic s =
    (case sum_bind (br_read_u32 s) (\<lambda>(magic, s).
          sum_bind (br_read_u16 s) (\<lambda>(format_major, s).
          sum_bind (br_read_u16 s) (\<lambda>(format_minor, s).
          Inr (magic, format_major, format_minor, s)))) of
       Inl _ \<Rightarrow> None
     | Inr (magic, format_major, format_minor, s) \<Rightarrow>
         if magic \<noteq> expected_magic then None
         else if format_major = kBinaryFormatMajor \<and> format_minor = kBinaryFormatMinor then Some s
         else None)"

subsection \<open>Lists of records\<close>

text \<open>The range loops of the serialisers and the counted loops of the deserialisers.\<close>

fun write_all :: "'a ser_writer \<Rightarrow> 'a list ser_writer" where
  "write_all wr [] s = Inr s"
| "write_all wr (x # xs) s = sum_bind (wr x s) (write_all wr xs)"

fun read_many :: "'a ser_reader \<Rightarrow> nat \<Rightarrow> 'a list ser_reader" where
  "read_many rd 0 s = Inr ([], s)"
| "read_many rd (Suc n) s =
    sum_bind (rd s) (\<lambda>(x, s). sum_bind (read_many rd n s) (\<lambda>(xs, s). Inr (x # xs, s)))"

subsection \<open>Snapshots\<close>

definition serialize_snapshot_binary :: "snapshot ser_writer" where
  "serialize_snapshot_binary snapshot s =
    sum_bind (write_binary_header kSnapshotMagic s) (\<lambda>s.
    sum_bind (write_schema (sn_schema snapshot) s) (\<lambda>s.
    sum_bind (bw_write_u64 (sn_snapshot_id snapshot) s) (\<lambda>s.
    sum_bind (bw_write_i64 (sn_created_at snapshot) s) (\<lambda>s.
    sum_bind (bw_write_string (sn_host_identifier snapshot) s) (\<lambda>s.
    sum_bind (bw_write_u64 (sn_root_entry_id snapshot) s) (\<lambda>s.
    if length (sn_entries snapshot) > kMaxBinaryEntries
    then Inl (EntryCountTooLarge, ''Snapshot entry count exceeds serialization limit.'')
    else
      sum_bind (bw_write_u32 (of_nat (length (sn_entries snapshot))) s) (\<lambda>s.
      write_all write_entry (sn_entries snapshot) s)))))))"

definition deserialize_snapshot_binary :: "snapshot ser_reader" where
  "deserialize_snapshot_binary s =
    (case read_binary_header kSnapshotMagic s of
       None \<Rightarrow> Inl (InvalidMagic, ''Invalid snapshot binary header.'')
     | Some s \<Rightarrow>
         sum_bind (read_schema s) (\<lambda>(schema, s).
         sum_bind (br_read_u64 s) (\<lambda>(id, s).
         sum_bind (br_read_i64 s) (\<lambda>(created_at, s).
         sum_bind (br_read_string s) (\<lambda>(host, s).
         sum_bind (br_read_u64 s) (\<lambda>(root, s).
         sum_bind (br_read_u32 s) (\<lambda>(entry_count, s).
         if unat entry_count > kMaxBinaryEntries
         then Inl (EntryCountTooLarge, ''Serialized snapshot entry count is above limit.'')
         else
           sum_bind (read_many read_entry (unat entry_count) s) (\<lambda>(entries, s).
           Inr (\<lparr>sn_schema = schema, sn_snapshot_id = id, sn_created_at = created_at,
             sn_host_identifier = host, sn_root_entry_id = root, sn_entries = entries\<rparr>, s)))))))))"

subsection \<open>Deltas\<close>

definition serialize_delta_binary :: "delta_snapshot ser_writer" where
  "serialize_delta_binary delta s =
    sum_bind (write_binary_header kDeltaMagic s) (\<lambda>s.
    sum_bind (write_schema (dl_schema delta) s) (\<lambda>s.
    sum_bind (bw_write_u64 (dl_base_snapshot_id delta) s) (\<lambda>s.
    sum_bind (bw_write_u64 (dl_target_snapshot_id delta) s) (\<lambda>s.
    if length (dl_added_entries delta) > kMaxBinaryEntries \<or>
       length (dl_removed_entries delta) > kMaxBinaryEntries \<or>
       length (dl_modified_entries delta) > kMaxBinaryEntries \<or>
       length (dl_renamed_entries delta) > kMaxBinaryEntries
    then Inl (EntryCountTooLarge, ''Delta operation count exceeds serialization limit.'')
    else
      sum_bind (bw_write_u32 (of_nat (length (dl_added_entries delta))) s) (\<lambda>s.
      sum_bind (bw_write_u32 (of_nat (length (dl_removed_entries delta))) s) (\<lambda>s.
      sum_bind (bw_write_u32 (of_nat (length (dl_modified_entries delta))) s) (\<lambda>s.
      sum_bind (bw_write_u32 (of_nat (length (dl_renamed_entries delta))) s) (\<lambda>s.
      sum_bind (write_all write_entry (dl_added_entries delta) s) (\<lambda>s.
      sum_bind (write_all write_entry (dl_removed_entries delta) s) (\<lambda>s.
      sum_bind (write_all write_modified (dl_modified_entries delta) s) (\<lambda>s.
      write_all write_renamed (dl_renamed_entries delta) s)))))))))))"

definition deserialize_delta_binary :: "delta_snapshot ser_reader" where
  "deserialize_delta_binary s =
    (case read_binary_header kDeltaMagic s of
       None \<Rightarrow> Inl (InvalidMagic, ''Invalid delta binary header.'')
     | Some s \<Rightarrow>
         sum_bind (read_schema s) (\<lambda>(schema, s).
         sum_bind (br_read_u64 s) (\<lambda>(base_id, s).
         sum_bind (br_read_u64 s) (\<lambda>(target_id, s).
         sum_bind (br_read_u32 s) (\<lambda>(added_count, s).
         sum_bind (br_read_u32 s) (\<lambda>(removed_count, s).
         sum_bind (br_read_u32 s) (\<lambda>(modified_count, s).
         sum_bind (br_read_u32 s) (\<lambda>(renamed_count, s).
         if unat added_count > kMaxBinaryEntries \<or> unat removed_count > kMaxBinaryEntries \<or>
            unat modified_count > kMaxBinaryEntries \<or> unat renamed_count > kMaxBinaryEntries
         then Inl (EntryCountTooLarge, ''Serialized delta operation count is above limit.'')
         else
           sum_bind (read_many read_entry (unat added_count) s) (\<lambda>(added, s).
           sum_bind (read_many read_entry (unat removed_count) s) (\<lambda>(removed, s).
           sum_bind (read_many read_modified (unat modified_count) s) (\<lambda>(modified, s).
           sum_bind (read_many read_renamed (unat renamed_count) s) (\<lambda>(renamed, s).
           Inr (\<lparr>dl_schema = schema, dl_base_snapshot_id = base_id, dl_target_snapshot_id = target_id,
             dl_added_entries = added, dl_removed_entries = removed, dl_modified_entries = modified,
             dl_renamed_entries = renamed\<rparr>, s)))))))))))))"

subsection \<open>The contract of a stream codec\<close>

text \<open>
  \<open>enc v\<close> is the layout of \<open>v\<close>, \<open>ok\<close> the values inside the limits of the format: the writer appends
  exactly the layout of an admissible value and rejects every other value, the reader takes exactly
  the layout off the stream, and what a reader accepts does not depend on what follows.
\<close>

locale stream_codec =
  fixes wr :: "'a ser_writer"
    and rd :: "'a ser_reader"
    and enc :: "'a \<Rightarrow> bytes"
    and ok :: "'a \<Rightarrow> bool"
  assumes wr_ok: "ok v \<Longrightarrow> wr v s = Inr (s @ enc v)"
    and wr_reject: "\<not> ok v \<Longrightarrow> \<exists>e. wr v s = Inl e"
    and rd_enc: "ok v \<Longrightarrow> rd (enc v @ rest) = Inr (v, rest)"
    and rd_extend: "rd s = Inr (v, r) \<Longrightarrow> rd (s @ q) = Inr (v, r @ q)"
begin

lemma wr_Inr_iff: "wr v s = Inr t \<longleftrightarrow> ok v \<and> t = s @ enc v"
  using wr_ok [of v s] wr_reject [of v s] by (cases "ok v") auto

lemma rd_enc_alone: "ok v \<Longrightarrow> rd (enc v) = Inr (v, [])"
  using rd_enc [of v "[]"] by simp

lemma strict_prefix_rejected:
  assumes "ok v" "enc v = p @ q" "q \<noteq> []" shows "\<exists>e. rd p = Inl e"
proof (cases "rd p")
  case (Inr a)
  then obtain w r where "rd p = Inr (w, r)" by (cases a) simp
  from rd_extend [OF this, of q] have "rd (enc v) = Inr (w, r @ q)" using assms(2) by simp
  then show ?thesis using rd_enc_alone [OF assms(1)] assms(3) by simp
qed simp

lemma enc_prefix_free: "ok v \<Longrightarrow> ok w \<Longrightarrow> enc v @ s = enc w @ t \<Longrightarrow> v = w \<and> s = t"
  by (metis rd_enc Inr_inject prod.inject)

lemma write_all_ok: "list_all ok vs \<Longrightarrow> write_all wr vs s = Inr (s @ concat (map enc vs))"
  by (induction vs arbitrary: s) (simp_all add: wr_ok)

lemma write_all_reject: "\<not> list_all ok vs \<Longrightarrow> \<exists>e. write_all wr vs s = Inl e"
proof (induction vs arbitrary: s)
  case (Cons v vs)
  then show ?case using wr_reject [of v s] by (cases "ok v") (auto simp: wr_ok)
qed simp

lemma write_all_Inr_iff: "write_all wr vs s = Inr t \<longleftrightarrow> list_all ok vs \<and> t = s @ concat (map enc vs)"
  using write_all_ok [of vs s] write_all_reject [of vs s] by (cases "list_all ok vs") auto

lemma read_many_enc:
  "list_all ok vs \<Longrightarrow> read_many rd (length vs) (concat (map enc vs) @ rest) = Inr (vs, rest)"
  by (induction vs) (simp_all add: rd_enc)

lemma read_many_extend: "read_many rd n s = Inr (vs, r) \<Longrightarrow> read_many rd n (s @ q) = Inr (vs, r @ q)"
proof (induction n arbitrary: s vs)
  case (Suc n)
  then obtain v s1 ws where v: "rd s = Inr (v, s1)" and ws: "read_many rd n s1 = Inr (ws, r)"
    and vs: "vs = v # ws"
    by (auto simp: sum_bind_eq_Inr)
  show ?case using rd_extend [OF v, of q] Suc.IH [OF ws] vs by simp
qed simp

end

subsection \<open>Layouts\<close>

definition string_ok :: "string \<Rightarrow> bool" where
  "string_ok s \<longleftrightarrow> length s \<le> kMaxStringLength"

definition string_layout :: "string \<Rightarrow> bytes" where
  "string_layout s = encode_u32_le (of_nat (length s)) @ string_bytes s"

definition schema_layout :: "schema_header \<Rightarrow> bytes" where
  "schema_layout h = encode_u16_le (sc_major h) @ encode_u16_le (sc_minor h) @
    encode_u16_le (sc_patch h) @ encode_u16_le (sc_min_reader_major h)"

definition metadata_layout :: "file_metadata \<Rightarrow> bytes" where
  "metadata_layout m = encode_u64_le (md_size_bytes m) @ encode_u64_le (md_created_at m) @
    encode_u64_le (md_modified_at m) @ encode_u64_le (md_accessed_at m) @
    encode_u32_le (md_permissions m) @ encode_u64_le (md_file_id m) @ encode_u64_le (md_device_id m) @
    (case md_content_hash m of None \<Rightarrow> [0] | Some h \<Rightarrow> 1 # encode_u64_le h)"

definition entry_ok :: "file_entry \<Rightarrow> bool" where
  "entry_ok e \<longleftrightarrow> string_ok (fe_normalized_path e) \<and> string_ok (fe_name e)"

definition entry_layout :: "file_entry \<Rightarrow> bytes" where
  "entry_layout e = encode_u64_le (fe_id e) @ encode_u64_le (fe_parent_id e) @
    string_layout (fe_normalized_path e) @ string_layout (fe_name e) @ [fe_type e] @
    metadata_layout (fe_metadata e)"

definition modified_layout :: "modified_entry \<Rightarrow> bytes" where
  "modified_layout m = encode_u64_le (me_entry_id m) @ metadata_layout (me_before m) @
    metadata_layout (me_after m)"

definition renamed_ok :: "renamed_entry \<Rightarrow> bool" where
  "renamed_ok r \<longleftrightarrow> string_ok (re_old_path r) \<and> string_ok (re_new_path r)"

definition renamed_layout :: "renamed_entry \<Rightarrow> bytes" where
  "renamed_layout r = encode_u64_le (re_before_entry_id r) @ encode_u64_le (re_after_entry_id r) @
    string_layout (re_old_path r) @ string_layout (re_new_path r)"

subsection \<open>The fields and records keep the contract\<close>

lemma br_read_bytes_append [simp]: "length b = n \<Longrightarrow> br_read_bytes n (b @ rest) = Inr (b, rest)"
  by (simp add: br_read_bytes_def)

lemma br_read_bytes_Inr: "br_read_bytes n s = Inr (b, r) \<longleftrightarrow> length b = n \<and> s = b @ r"
  by (auto simp: br_read_bytes_def)

lemma length_encode_le [simp, codec_width]:
  "length (encode_u16_le v) = 2" "length (encode_u32_le w) = 4" "length (encode_u64_le x) = 8"
  by (simp_all add: encode_u16_le_def encode_u32_le_def encode_u64_le_def)

lemma decode_encode_le [simp]:
  "decode_u16_le (encode_u16_le v) = v" "decode_u32_le (encode_u32_le w) = w"
  "decode_u64_le (encode_u64_le x) = x"
  using join16 [of v] join32 [of w] join64_right [of x]
  by (simp_all add: decode_u16_le_def encode_u16_le_def decode_u32_le_def encode_u32_le_def
      decode_u64_le_def encode_u64_le_def or.commute or.left_commute or.assoc)

lemmas reader_defs =
  br_read_u8_def br_read_u16_def br_read_u32_def br_read_u64_def br_read_i64_def

interpretation u8s: stream_codec bw_write_u8 br_read_u8 "\<lambda>v. [v]" "\<lambda>_. True"
  by unfold_locales (auto simp: bw_write_u8_def bw_write_bytes_def br_read_u8_def sum_bind_eq_Inr
      br_read_bytes_Inr nth_append)

interpretation u16s: stream_codec bw_write_u16 br_read_u16 encode_u16_le "\<lambda>_. True"
  by unfold_locales (auto simp: bw_write_u16_def bw_write_bytes_def br_read_u16_def sum_bind_eq_Inr br_read_bytes_Inr)

interpretation u32s: stream_codec bw_write_u32 br_read_u32 encode_u32_le "\<lambda>_. True"
  by unfold_locales (auto simp: bw_write_u32_def bw_write_bytes_def br_read_u32_def sum_bind_eq_Inr br_read_bytes_Inr)

interpretation u64s: stream_codec bw_write_u64 br_read_u64 encode_u64_le "\<lambda>_. True"
  by unfold_locales (auto simp: bw_write_u64_def bw_write_bytes_def br_read_u64_def sum_bind_eq_Inr br_read_bytes_Inr)

lemma write_i64 [simp]: "bw_write_i64 = bw_write_u64" and read_i64 [simp]: "br_read_i64 = br_read_u64"
  by (simp_all add: fun_eq_iff bw_write_i64_def br_read_i64_def)

lemma unat_length_ok: "n \<le> kMaxStringLength \<Longrightarrow> unat (of_nat n :: u32) = n"
  by (simp add: kMaxStringLength_def unat_of_nat take_bit_nat_eq_self_iff)

interpretation strings: stream_codec bw_write_string br_read_string string_layout string_ok
proof
  fix v :: string and s rest assume "string_ok v"
  then have v: "length v \<le> kMaxStringLength" by (simp add: string_ok_def)
  show "bw_write_string v s = Inr (s @ string_layout v)"
    using v by (simp add: bw_write_string_def u32s.wr_ok bw_write_bytes_def string_layout_def)
  show "br_read_string (string_layout v @ rest) = Inr (v, rest)"
    using v unat_length_ok [OF v] by (auto simp: br_read_string_def string_layout_def u32s.rd_enc)
next
  fix v s assume "\<not> string_ok v"
  then show "\<exists>e. bw_write_string v s = Inl e" by (simp add: string_ok_def bw_write_string_def)
next
  fix s v r q assume rd: "br_read_string s = Inr (v, r)"
  then obtain n s1 where n: "br_read_u32 s = Inr (n, s1)" by (auto simp: br_read_string_def sum_bind_eq_Inr)
  show "br_read_string (s @ q) = Inr (v, r @ q)"
    using rd by (auto simp: br_read_string_def n u32s.rd_extend [OF n] sum_bind_eq_Inr
        br_read_bytes_Inr split: if_splits)
qed

lemmas field_wr = u8s.wr_ok u16s.wr_ok u32s.wr_ok u64s.wr_ok
lemmas field_rd = u8s.rd_enc u8s.rd_enc [where v = 0, simplified] u16s.rd_enc u32s.rd_enc u64s.rd_enc strings.rd_enc
lemmas field_extend = u8s.rd_extend u16s.rd_extend u32s.rd_extend u64s.rd_extend strings.rd_extend

lemma u8_rd [simp]: "br_read_u8 (b # rest) = Inr (b, rest)"
  using u8s.rd_enc [of b rest] by simp

interpretation schemas: stream_codec write_schema read_schema schema_layout "\<lambda>_. True"
  by unfold_locales (auto simp: write_schema_def read_schema_def schema_layout_def field_wr field_rd
      sum_bind_eq_Inr field_extend)

interpretation metadatas: stream_codec write_metadata read_metadata metadata_layout "\<lambda>_. True"
proof
  fix v s rest
  show "write_metadata v s = Inr (s @ metadata_layout v)"
    by (simp add: write_metadata_def metadata_layout_def field_wr split: option.split)
  show "read_metadata (metadata_layout v @ rest) = Inr (v, rest)"
    by (cases "md_content_hash v") (simp_all add: read_metadata_def metadata_layout_def field_rd)
next
  fix s v r q assume "read_metadata s = Inr (v, r)"
  then show "read_metadata (s @ q) = Inr (v, r @ q)"
    by (auto simp: read_metadata_def sum_bind_eq_Inr field_extend split: if_splits)
qed simp

interpretation entries: stream_codec write_entry read_entry entry_layout entry_ok
proof
  fix v s rest assume "entry_ok v"
  then show "write_entry v s = Inr (s @ entry_layout v)"
    and "read_entry (entry_layout v @ rest) = Inr (v, rest)"
    by (simp_all add: entry_ok_def write_entry_def read_entry_def entry_layout_def field_wr field_rd
        strings.wr_ok metadatas.wr_ok metadatas.rd_enc)
next
  fix v s assume "\<not> entry_ok v"
  then have "\<nexists>t. write_entry v s = Inr t"
    by (auto simp: entry_ok_def write_entry_def sum_bind_eq_Inr field_wr strings.wr_Inr_iff)
  then show "\<exists>e. write_entry v s = Inl e" by (cases "write_entry v s") auto
next
  fix s v r q assume "read_entry s = Inr (v, r)"
  then show "read_entry (s @ q) = Inr (v, r @ q)"
    by (auto simp: read_entry_def sum_bind_eq_Inr field_extend metadatas.rd_extend)
qed

interpretation modifieds: stream_codec write_modified read_modified modified_layout "\<lambda>_. True"
  by unfold_locales (auto simp: write_modified_def read_modified_def modified_layout_def field_wr
      field_rd metadatas.wr_ok metadatas.rd_enc sum_bind_eq_Inr field_extend metadatas.rd_extend)

interpretation renameds: stream_codec write_renamed read_renamed renamed_layout renamed_ok
proof
  fix v s rest assume "renamed_ok v"
  then show "write_renamed v s = Inr (s @ renamed_layout v)"
    and "read_renamed (renamed_layout v @ rest) = Inr (v, rest)"
    by (simp_all add: renamed_ok_def write_renamed_def read_renamed_def renamed_layout_def field_wr
        field_rd strings.wr_ok)
next
  fix v s assume "\<not> renamed_ok v"
  then have "\<nexists>t. write_renamed v s = Inr t"
    by (auto simp: renamed_ok_def write_renamed_def sum_bind_eq_Inr field_wr strings.wr_Inr_iff)
  then show "\<exists>e. write_renamed v s = Inl e" by (cases "write_renamed v s") auto
next
  fix s v r q assume "read_renamed s = Inr (v, r)"
  then show "read_renamed (s @ q) = Inr (v, r @ q)"
    by (auto simp: read_renamed_def sum_bind_eq_Inr field_extend)
qed

subsection \<open>Whole snapshots and deltas keep the contract\<close>

definition header_layout :: "u32 \<Rightarrow> bytes" where
  "header_layout magic = encode_u32_le magic @ encode_u16_le kBinaryFormatMajor @ encode_u16_le kBinaryFormatMinor"

definition snapshot_ok :: "snapshot \<Rightarrow> bool" where
  "snapshot_ok sn \<longleftrightarrow> string_ok (sn_host_identifier sn) \<and> length (sn_entries sn) \<le> kMaxBinaryEntries \<and>
    list_all entry_ok (sn_entries sn)"

definition snapshot_layout :: "snapshot \<Rightarrow> bytes" where
  "snapshot_layout sn = header_layout kSnapshotMagic @ schema_layout (sn_schema sn) @
    encode_u64_le (sn_snapshot_id sn) @ encode_u64_le (sn_created_at sn) @
    string_layout (sn_host_identifier sn) @ encode_u64_le (sn_root_entry_id sn) @
    encode_u32_le (of_nat (length (sn_entries sn))) @ concat (map entry_layout (sn_entries sn))"

definition delta_ok :: "delta_snapshot \<Rightarrow> bool" where
  "delta_ok dl \<longleftrightarrow>
    length (dl_added_entries dl) \<le> kMaxBinaryEntries \<and> length (dl_removed_entries dl) \<le> kMaxBinaryEntries \<and>
    length (dl_modified_entries dl) \<le> kMaxBinaryEntries \<and> length (dl_renamed_entries dl) \<le> kMaxBinaryEntries \<and>
    list_all entry_ok (dl_added_entries dl) \<and> list_all entry_ok (dl_removed_entries dl) \<and>
    list_all renamed_ok (dl_renamed_entries dl)"

definition delta_layout :: "delta_snapshot \<Rightarrow> bytes" where
  "delta_layout dl = header_layout kDeltaMagic @ schema_layout (dl_schema dl) @
    encode_u64_le (dl_base_snapshot_id dl) @ encode_u64_le (dl_target_snapshot_id dl) @
    encode_u32_le (of_nat (length (dl_added_entries dl))) @
    encode_u32_le (of_nat (length (dl_removed_entries dl))) @
    encode_u32_le (of_nat (length (dl_modified_entries dl))) @
    encode_u32_le (of_nat (length (dl_renamed_entries dl))) @
    concat (map entry_layout (dl_added_entries dl)) @ concat (map entry_layout (dl_removed_entries dl)) @
    concat (map modified_layout (dl_modified_entries dl)) @ concat (map renamed_layout (dl_renamed_entries dl))"

lemma write_binary_header_ok: "write_binary_header magic s = Inr (s @ header_layout magic)"
  by (simp add: write_binary_header_def header_layout_def field_wr)

lemma read_binary_header_layout: "read_binary_header magic (header_layout magic @ rest) = Some rest"
  by (simp add: read_binary_header_def header_layout_def field_rd)

lemma read_binary_header_extend:
  "read_binary_header magic s = Some r \<Longrightarrow> read_binary_header magic (s @ q) = Some (r @ q)"
proof -
  assume r: "read_binary_header magic s = Some r"
  then obtain m a b s1 s2 s3 where "br_read_u32 s = Inr (m, s1)" "br_read_u16 s1 = Inr (a, s2)"
    "br_read_u16 s2 = Inr (b, s3)"
    by (auto simp: read_binary_header_def sum_bind_eq_Inr split: sum.splits)
  then show ?thesis using r by (auto simp: read_binary_header_def field_extend split: if_splits)
qed

lemma unat_count_ok: "n \<le> kMaxBinaryEntries \<Longrightarrow> unat (of_nat n :: u32) = n"
  by (simp add: kMaxBinaryEntries_def unat_of_nat take_bit_nat_eq_self_iff)

lemmas write_all_oks = entries.write_all_ok modifieds.write_all_ok renameds.write_all_ok
lemmas read_many_encs = entries.read_many_enc modifieds.read_many_enc renameds.read_many_enc
lemmas read_many_extends = entries.read_many_extend modifieds.read_many_extend renameds.read_many_extend

lemma serialize_snapshot_ok:
  "snapshot_ok sn \<Longrightarrow> serialize_snapshot_binary sn s = Inr (s @ snapshot_layout sn)"
  by (simp add: snapshot_ok_def serialize_snapshot_binary_def snapshot_layout_def field_wr
      write_binary_header_ok schemas.wr_ok strings.wr_ok write_all_oks)

lemmas write_all_iffs = entries.write_all_Inr_iff modifieds.write_all_Inr_iff renameds.write_all_Inr_iff

lemma serialize_snapshot_Inr: "serialize_snapshot_binary sn s = Inr t \<Longrightarrow> snapshot_ok sn"
  by (auto simp: snapshot_ok_def serialize_snapshot_binary_def sum_bind_eq_Inr strings.wr_Inr_iff
      write_all_iffs split: if_splits)

interpretation snapshots: stream_codec serialize_snapshot_binary deserialize_snapshot_binary
  snapshot_layout snapshot_ok
proof (unfold_locales, goal_cases)
  case (1 v s)
  then show ?case by (rule serialize_snapshot_ok)
next
  case (2 v s)
  then show ?case using serialize_snapshot_Inr [of v s] by (cases "serialize_snapshot_binary v s") auto
next
  case (3 v rest)
  then show ?case
    by (simp add: snapshot_ok_def deserialize_snapshot_binary_def snapshot_layout_def field_rd
        read_binary_header_layout schemas.rd_enc read_many_encs unat_count_ok)
next
  case (4 s v r q)
  then show ?case
    by (auto simp: deserialize_snapshot_binary_def sum_bind_eq_Inr read_binary_header_extend
        field_extend schemas.rd_extend read_many_extends split: option.splits if_splits)
qed

lemma serialize_delta_ok: "delta_ok dl \<Longrightarrow> serialize_delta_binary dl s = Inr (s @ delta_layout dl)"
  by (simp add: delta_ok_def serialize_delta_binary_def delta_layout_def field_wr
      write_binary_header_ok schemas.wr_ok write_all_oks list_all_iff)

lemma serialize_delta_Inr: "serialize_delta_binary dl s = Inr t \<Longrightarrow> delta_ok dl"
  by (auto simp: delta_ok_def serialize_delta_binary_def sum_bind_eq_Inr write_all_iffs split: if_splits)

interpretation deltas: stream_codec serialize_delta_binary deserialize_delta_binary delta_layout delta_ok
proof (unfold_locales, goal_cases)
  case (1 v s)
  then show ?case by (rule serialize_delta_ok)
next
  case (2 v s)
  then show ?case using serialize_delta_Inr [of v s] by (cases "serialize_delta_binary v s") auto
next
  case (3 v rest)
  then show ?case
    by (simp add: delta_ok_def deserialize_delta_binary_def delta_layout_def field_rd
        read_binary_header_layout schemas.rd_enc read_many_encs unat_count_ok list_all_iff)
next
  case (4 s v r q)
  then show ?case
    by (auto simp: deserialize_delta_binary_def sum_bind_eq_Inr read_binary_header_extend
        field_extend schemas.rd_extend read_many_extends split: option.splits if_splits)
qed

subsection \<open>Properties\<close>

text \<open>
  C22: the serialiser refuses a snapshot that is outside the limits of the format (the number of entries and the
  length of every string).  It succeeds on every other one: it only appends to the stream, and reading the
  bytes it has appended gives the snapshot back and leaves whatever follows them on the stream.
\<close>

theorem snapshot_binary_round_trip:
  "case serialize_snapshot_binary sn s of
     Inl e \<Rightarrow> \<not> snapshot_ok sn
   | Inr out \<Rightarrow> snapshot_ok sn \<and>
       (\<exists>b. out = s @ b \<and> deserialize_snapshot_binary (b @ rest) = Inr (sn, rest))"
proof (cases "snapshot_ok sn")
  case True
  then show ?thesis by (simp add: snapshots.wr_ok snapshots.rd_enc)
next
  case False
  then show ?thesis using snapshots.wr_reject [of sn s] by auto
qed

definition sample_entry :: file_entry where
  "sample_entry = \<lparr>fe_id = 1, fe_parent_id = 0, fe_normalized_path = ''/'', fe_name = [],
    fe_type = EntryType_Directory,
    fe_metadata = \<lparr>md_size_bytes = 0, md_created_at = 1, md_modified_at = 2, md_accessed_at = 3,
      md_permissions = 0x1ED, md_file_id = 2, md_device_id = 1, md_content_hash = Some 77\<rparr>\<rparr>"

definition sample_snapshot :: snapshot where
  "sample_snapshot = \<lparr>sn_schema = kCurrentSchemaHeader, sn_snapshot_id = 4, sn_created_at = 9,
    sn_host_identifier = ''h'', sn_root_entry_id = 1, sn_entries = [sample_entry]\<rparr>"

lemma sample_snapshot_ok: "snapshot_ok sample_snapshot"
  by (simp add: snapshot_ok_def sample_snapshot_def sample_entry_def entry_ok_def string_ok_def
      kMaxStringLength_def kMaxBinaryEntries_def)

text \<open>
  C23: no truncation of a serialised snapshot is read as a snapshot: every strict prefix is an error.
\<close>

theorem truncated_snapshot_rejected:
  assumes "serialize_snapshot_binary sn [] = Inr (p @ q)" and "q \<noteq> []"
  shows "\<exists>e. deserialize_snapshot_binary p = Inl e"
  using assms snapshots.strict_prefix_rejected [of sn p q] snapshots.wr_Inr_iff [of sn "[]"] by simp

lemma snapshot_layout_not_Nil: "snapshot_layout sn \<noteq> []"
  by (simp add: snapshot_layout_def header_layout_def encode_u32_le_def)

theorem truncated_snapshot_rejected_witness:
  "\<exists>e. deserialize_snapshot_binary (butlast (snapshot_layout sample_snapshot)) = Inl e"
  by (rule truncated_snapshot_rejected [of sample_snapshot _ "[last (snapshot_layout sample_snapshot)]"])
    (simp_all add: snapshots.wr_ok sample_snapshot_ok snapshot_layout_not_Nil)

text \<open>
  A delta is serialised exactly when it is inside the limits of the format, and then reading the
  bytes back gives the delta and leaves what followed it on the stream.
\<close>

lemma delta_binary_round_trip:
  "(\<exists>b. serialize_delta_binary dl s = Inr (s @ b) \<and>
      deserialize_delta_binary (b @ rest) = Inr (dl, rest)) \<longleftrightarrow> delta_ok dl"
  by (auto simp: deltas.wr_Inr_iff deltas.rd_enc)

end
