(* ===== verification/Paths.thy ===== *)
theory Paths imports Prelude begin

text \<open>
  The lexical operations of \<open>std::filesystem::path\<close> that the sources use, on POSIX paths: splitting
  into elements, \<open>is_absolute\<close>, \<open>filename\<close>, \<open>parent_path\<close> and \<open>lexically_normal\<close>; and the helpers of
  \<open>src/backend/Muninn/domain/model/invariants.hpp\<close> built on them.  None of them touches the file system.
\<close>

subsection \<open>Elements\<close>

fun split_slash :: "string \<Rightarrow> string list" where
  "split_slash [] = [[]]"
| "split_slash (c # s) =
    (if c = CHR ''/'' then [] # split_slash s
     else case split_slash s of [] \<Rightarrow> [[c]] | x # xs \<Rightarrow> (c # x) # xs)"

fun join_slash :: "string list \<Rightarrow> string" where
  "join_slash [] = []"
| "join_slash [x] = x"
| "join_slash (x # y # ys) = x @ CHR ''/'' # join_slash (y # ys)"

text \<open>The file names between the separators; runs of separators count as one.\<close>

definition path_names :: "string \<Rightarrow> string list" where
  "path_names p = filter (\<lambda>x. x \<noteq> []) (split_slash p)"

definition path_is_absolute :: "string \<Rightarrow> bool" where
  "path_is_absolute p \<longleftrightarrow> p \<noteq> [] \<and> hd p = CHR ''/''"

definition path_has_trailing :: "string \<Rightarrow> bool" where
  "path_has_trailing p \<longleftrightarrow> p \<noteq> [] \<and> last p = CHR ''/''"

text \<open>\<open>filename()\<close>: the part after the last separator.\<close>

definition path_filename :: "string \<Rightarrow> string" where
  "path_filename p = last (split_slash p)"

text \<open>
  \<open>parent_path()\<close>: a path without a relative part (empty or separators only) is its own parent; otherwise
  the last element goes away with the separators before it, but not the root directory.
\<close>

definition path_has_relative :: "string \<Rightarrow> bool" where
  "path_has_relative p \<longleftrightarrow> list_ex (\<lambda>c. c \<noteq> CHR ''/'') p"

definition drop_right :: "(char \<Rightarrow> bool) \<Rightarrow> string \<Rightarrow> string" where
  "drop_right P s = rev (dropWhile P (rev s))"

definition path_parent :: "string \<Rightarrow> string" where
  "path_parent p =
    (if \<not> path_has_relative p then p
     else let upper = drop_right (\<lambda>c. c \<noteq> CHR ''/'') p;
              dir = drop_right (\<lambda>c. c = CHR ''/'') upper
          in if dir = [] \<and> upper \<noteq> [] then ''/'' else dir)"

subsection \<open>Normal form\<close>

definition dot :: string where "dot = ''.''"
definition dotdot :: string where "dotdot = ''..''"

text \<open>
  One element met while normalising, on the reversed list of the elements kept so far: a dot goes
  away, a dot-dot removes the file name before it, and at the root a dot-dot goes away.
\<close>

definition normal_step :: "bool \<Rightarrow> string \<Rightarrow> string list \<Rightarrow> string list" where
  "normal_step absolute c stack =
    (if c = dot then stack
     else if c = dotdot then
       (case stack of
          [] \<Rightarrow> if absolute then [] else [dotdot]
        | upper # below \<Rightarrow> if upper = dotdot then dotdot # stack else below)
     else c # stack)"

definition normal_names :: "bool \<Rightarrow> string list \<Rightarrow> string list" where
  "normal_names absolute names = rev (fold (normal_step absolute) names [])"

definition render_path :: "bool \<Rightarrow> string list \<Rightarrow> bool \<Rightarrow> string" where
  "render_path absolute names trailing =
    (if names = [] then (if absolute then ''/'' else dot)
     else (if absolute then ''/'' else []) @ join_slash names @
       (if trailing \<and> last names \<noteq> dotdot then ''/'' else []))"

definition lexically_normal :: "string \<Rightarrow> string" where
  "lexically_normal p =
    (if p = [] then []
     else let names = path_names p;
              trailing = path_has_trailing p \<or> (names \<noteq> [] \<and> (last names = dot \<or> last names = dotdot))
          in render_path (path_is_absolute p) (normal_names (path_is_absolute p) names) trailing)"

subsection \<open>Helpers of invariants.hpp and validators.cpp\<close>

definition is_absolute_normalized_path :: "string \<Rightarrow> bool" where
  "is_absolute_normalized_path path \<longleftrightarrow>
    (if path = [] then False
     else if \<not> path_is_absolute path then False
     else lexically_normal path = path)"

definition normalize_path :: "string \<Rightarrow> string" where
  "normalize_path path = lexically_normal path"

definition has_path_traversal :: "string \<Rightarrow> bool" where
  "has_path_traversal path \<longleftrightarrow> list_ex (\<lambda>part. part = dotdot) (path_names path)"

subsection \<open>Splitting and joining\<close>

definition proper_name :: "string \<Rightarrow> bool" where
  "proper_name x \<longleftrightarrow> x \<noteq> [] \<and> CHR ''/'' \<notin> set x"

lemma split_slash_not_Nil [simp]: "split_slash s \<noteq> []"
  by (induction s) (auto split: list.split)

lemma split_slash_no_slash: "CHR ''/'' \<notin> set x \<Longrightarrow> split_slash x = [x]"
  by (induction x) auto

lemma split_slash_append: "CHR ''/'' \<notin> set x \<Longrightarrow> split_slash (x @ CHR ''/'' # s) = x # split_slash s"
  by (induction x) auto

lemma split_slash_elems: "x \<in> set (split_slash s) \<Longrightarrow> CHR ''/'' \<notin> set x"
  by (induction s arbitrary: x) (auto split: list.splits if_splits)

lemma path_names_proper: "x \<in> set (path_names p) \<Longrightarrow> proper_name x"
  using split_slash_elems [of x p] by (auto simp: path_names_def proper_name_def)

lemma split_join:
  "xs \<noteq> [] \<Longrightarrow> \<forall>x\<in>set xs. proper_name x \<Longrightarrow> split_slash (join_slash xs) = xs"
  by (induction xs rule: join_slash.induct)
    (auto simp: proper_name_def split_slash_no_slash split_slash_append)

lemma split_join_trailing:
  "xs \<noteq> [] \<Longrightarrow> \<forall>x\<in>set xs. proper_name x \<Longrightarrow> split_slash (join_slash xs @ ''/'') = xs @ [[]]"
proof (induction xs rule: join_slash.induct)
  case (2 x)
  then show ?case using split_slash_append [of x "[]"] by (simp add: proper_name_def)
next
  case (3 x y ys)
  then show ?case by (simp add: proper_name_def split_slash_append)
qed simp

lemma filter_proper [simp]: "\<forall>x\<in>set xs. proper_name x \<Longrightarrow> filter (\<lambda>x. x \<noteq> []) xs = xs"
  by (induction xs) (auto simp: proper_name_def)

lemma path_names_render:
  assumes "\<forall>x\<in>set xs. proper_name x" "xs \<noteq> []"
  shows "path_names (render_path a xs t) = xs"
  using assms by (auto simp: path_names_def render_path_def split_join split_join_trailing)

lemma join_slash_not_Nil: "xs \<noteq> [] \<Longrightarrow> \<forall>x\<in>set xs. proper_name x \<Longrightarrow> join_slash xs \<noteq> []"
  by (cases xs rule: join_slash.cases) (auto simp: proper_name_def)

lemma proper_name_ends: "proper_name x \<Longrightarrow> hd x \<noteq> CHR ''/'' \<and> last x \<noteq> CHR ''/''"
  by (metis hd_in_set last_in_set proper_name_def)

lemma proper_not_Nil: "proper_name x \<Longrightarrow> x \<noteq> []"
  by (simp add: proper_name_def)

lemma hd_join_slash: "xs \<noteq> [] \<Longrightarrow> \<forall>x\<in>set xs. proper_name x \<Longrightarrow> hd (join_slash xs) \<noteq> CHR ''/''"
  by (cases xs rule: join_slash.cases) (auto simp: proper_not_Nil proper_name_ends)

lemma last_join_slash: "xs \<noteq> [] \<Longrightarrow> \<forall>x\<in>set xs. proper_name x \<Longrightarrow> last (join_slash xs) \<noteq> CHR ''/''"
proof (induction xs rule: join_slash.induct)
  case (3 x y ys)
  then show ?case using join_slash_not_Nil [of "y # ys"] by (simp add: last_append)
qed (auto simp: proper_name_ends)

lemma path_is_absolute_render:
  "\<forall>x\<in>set xs. proper_name x \<Longrightarrow> path_is_absolute (render_path a xs t) = a"
  using hd_join_slash [of xs] join_slash_not_Nil [of xs]
  by (auto simp: path_is_absolute_def render_path_def dot_def hd_append)

lemma path_has_trailing_render:
  "\<forall>x\<in>set xs. proper_name x \<Longrightarrow> xs \<noteq> [] \<Longrightarrow>
    path_has_trailing (render_path a xs t) = (t \<and> last xs \<noteq> dotdot)"
  using last_join_slash [of xs] join_slash_not_Nil [of xs]
  by (auto simp: path_has_trailing_def render_path_def)

subsection \<open>Normal names stay as they are\<close>

definition is_normal :: "bool \<Rightarrow> string list \<Rightarrow> bool" where
  "is_normal absolute names \<longleftrightarrow>
    (\<exists>k rest. names = replicate k dotdot @ rest \<and> (absolute \<longrightarrow> k = 0) \<and>
      dot \<notin> set rest \<and> dotdot \<notin> set rest)"

lemma is_normal_step:
  assumes "is_normal a (rev stack)" shows "is_normal a (rev (normal_step a c stack))"
proof -
  from assms obtain k rest where r: "rev stack = replicate k dotdot @ rest" "a \<longrightarrow> k = 0"
    "dot \<notin> set rest" "dotdot \<notin> set rest"
    by (auto simp: is_normal_def)
  have stack: "stack = rev rest @ replicate k dotdot"
    using arg_cong [OF r(1), of rev] by simp
  show ?thesis
  proof (cases "c = dotdot")
    case False
    then show ?thesis using r assms
      by (auto simp: normal_step_def is_normal_def intro!: exI [of _ k] exI [of _ "rest @ [c]"])
  next
    case True
    have dd: "dotdot \<noteq> dot" by (simp add: dot_def dotdot_def)
    show ?thesis
    proof (cases rest rule: rev_cases)
      case Nil
      then show ?thesis using True r stack dd
        by (cases k) (auto simp: normal_step_def is_normal_def replicate_append_same
            intro!: exI [of _ "Suc k"] exI [of _ "[]::string list"])
    next
      case (snoc ys y)
      then show ?thesis using True r stack dd
        by (auto simp: normal_step_def is_normal_def intro!: exI [of _ k] exI [of _ ys])
    qed
  qed
qed

lemma is_normal_normal_names: "is_normal a (normal_names a names)"
proof -
  have "is_normal a (rev (fold (normal_step a) names stack))" if "is_normal a (rev stack)" for stack
    using that by (induction names arbitrary: stack) (auto simp: is_normal_step)
  from this [of "[]"] show ?thesis
    by (simp add: normal_names_def is_normal_def)
qed

lemma fold_normal_plain:
  "dot \<notin> set rest \<Longrightarrow> dotdot \<notin> set rest \<Longrightarrow> fold (normal_step a) rest stack = rev rest @ stack"
  by (induction rest arbitrary: stack) (auto simp: normal_step_def)

lemma funpow_dotdots: "(normal_step False dotdot ^^ k) [] = replicate k dotdot"
proof (induction k)
  case (Suc k)
  then show ?case by (cases k) (simp_all add: normal_step_def dot_def dotdot_def)
qed simp

lemma fold_normal_dotdots: "fold (normal_step False) (replicate k dotdot) [] = replicate k dotdot"
  by (simp add: funpow_dotdots)

lemma normal_names_of_normal: "is_normal a names \<Longrightarrow> normal_names a names = names"
  by (cases a) (auto simp: is_normal_def normal_names_def fold_normal_plain funpow_dotdots)

lemma normal_step_proper:
  "proper_name c \<Longrightarrow> \<forall>x\<in>set stack. proper_name x \<Longrightarrow> \<forall>x\<in>set (normal_step a c stack). proper_name x"
  by (cases stack; cases "c = dotdot") (simp_all add: normal_step_def)

lemma normal_names_proper:
  assumes "\<forall>x\<in>set names. proper_name x" shows "\<forall>x\<in>set (normal_names a names). proper_name x"
proof -
  have "\<forall>x\<in>set (fold (normal_step a) names stack). proper_name x" if "\<forall>x\<in>set stack. proper_name x" for stack
    using assms that
  proof (induction names arbitrary: stack)
    case (Cons c cs)
    have "\<forall>x\<in>set (normal_step a c stack). proper_name x"
      by (rule normal_step_proper) (use Cons.prems in simp_all)
    from Cons.IH [OF _ this] show ?case using Cons.prems(1) by simp
  qed simp
  from this [of "[]"] show ?thesis by (simp add: normal_names_def)
qed

lemma is_normal_no_dot: "is_normal a names \<Longrightarrow> dot \<notin> set names"
proof -
  have "dot \<noteq> dotdot" by (simp add: dot_def dotdot_def)
  then show "is_normal a names \<Longrightarrow> dot \<notin> set names" by (auto simp: is_normal_def)
qed

lemma normal_last: "is_normal a names \<Longrightarrow> names \<noteq> [] \<Longrightarrow> last names \<noteq> dot"
  using is_normal_no_dot last_in_set by metis

lemma lexically_normal_render:
  assumes "p \<noteq> []"
  obtains t where "lexically_normal p =
    render_path (path_is_absolute p) (normal_names (path_is_absolute p) (path_names p)) t"
  using assms unfolding lexically_normal_def Let_def by simp

lemma lexically_normal_of_render:
  assumes "\<forall>x\<in>set names. proper_name x" "is_normal a names" "names \<noteq> []"
  shows "lexically_normal (render_path a names t) = render_path a names t"
proof -
  have ne: "render_path a names t \<noteq> []"
    using assms join_slash_not_Nil by (simp add: render_path_def)
  have "lexically_normal (render_path a names t) =
      render_path a names (t \<and> last names \<noteq> dotdot \<or> last names = dotdot)"
    using assms ne normal_last [OF assms(2,3)]
    by (simp add: lexically_normal_def Let_def path_is_absolute_render path_names_render
        path_has_trailing_render normal_names_of_normal)
  moreover have "render_path a names (t \<and> last names \<noteq> dotdot \<or> last names = dotdot) = render_path a names t"
    by (auto simp: render_path_def)
  ultimately show ?thesis by simp
qed

lemma lexically_normal_root: "lexically_normal (render_path a [] t) = render_path a [] t"
  by (cases a) (simp_all add: render_path_def lexically_normal_def path_names_def
      path_is_absolute_def path_has_trailing_def normal_names_def normal_step_def dot_def)

lemma lexically_normal_idem: "lexically_normal (lexically_normal p) = lexically_normal p"
proof (cases "p = []")
  case False
  let ?names = "normal_names (path_is_absolute p) (path_names p)"
  obtain t where np: "lexically_normal p = render_path (path_is_absolute p) ?names t"
    using lexically_normal_render [OF False] .
  have "\<forall>x\<in>set ?names. proper_name x"
    using path_names_proper by (intro normal_names_proper) auto
  then show ?thesis unfolding np
    by (cases "?names = []") (simp_all add: lexically_normal_root lexically_normal_of_render is_normal_normal_names)
qed (simp add: lexically_normal_def)

text \<open>A normalised absolute path has no dot-dot element.\<close>

lemma normalized_no_traversal:
  assumes "is_absolute_normalized_path p" shows "\<not> has_path_traversal p"
proof -
  have abs: "path_is_absolute p" and ne: "p \<noteq> []" and p: "lexically_normal p = p"
    using assms by (auto simp: is_absolute_normalized_path_def split: if_splits)
  let ?names = "normal_names True (path_names p)"
  obtain t where np: "p = render_path True ?names t"
    using lexically_normal_render [OF ne] p abs by auto
  have proper: "\<forall>x\<in>set ?names. proper_name x"
    using path_names_proper by (intro normal_names_proper) auto
  have nodd: "dotdot \<notin> set ?names"
    using is_normal_normal_names [of True "path_names p"] by (auto simp: is_normal_def)
  have "path_names (render_path True ?names t) = ?names"
  proof (cases "?names = []")
    case True
    then show ?thesis by (simp add: render_path_def path_names_def)
  next
    case False
    then show ?thesis by (rule path_names_render [OF proper])
  qed
  then have "path_names p = ?names" using np by simp
  then show ?thesis using nodd by (auto simp: has_path_traversal_def list_ex_iff)
qed

text \<open>Going up shortens a path unless it has no relative part.\<close>

lemma length_drop_right: "length (drop_right P s) \<le> length s"
  using length_dropWhile_le [of P "rev s"] by (simp add: drop_right_def)

lemma length_path_parent:
  assumes rel: "path_has_relative p" shows "length (path_parent p) < length p"
proof -
  let ?upper = "drop_right (\<lambda>c. c \<noteq> CHR ''/'') p"
  let ?dir = "drop_right (\<lambda>c. c = CHR ''/'') ?upper"
  have parent: "path_parent p = (if ?dir = [] \<and> ?upper \<noteq> [] then ''/'' else ?dir)"
    using rel by (simp add: path_parent_def Let_def)
  have le: "length ?dir \<le> length ?upper" "length ?upper \<le> length p" by (simp_all add: length_drop_right)
  have shorter: "length ?dir < length p"
  proof (cases "p = [] \<or> last p = CHR ''/''")
    case False
    then obtain s c where p: "p = s @ [c]" "c \<noteq> CHR ''/''" by (cases p rule: rev_cases) auto
    then have "?upper = drop_right (\<lambda>c. c \<noteq> CHR ''/'') s" by (simp add: drop_right_def)
    then have "length ?upper < length p" using length_drop_right [of _ s] p(1) by (simp add: less_Suc_eq_le)
    then show ?thesis using le by simp
  next
    case True
    then obtain s where p: "p = s @ ''/''" using rel by (cases p rule: rev_cases) (auto simp: path_has_relative_def)
    then have "?upper = p" by (simp add: drop_right_def)
    then have "?dir = drop_right (\<lambda>c. c = CHR ''/'') s" using p by (simp add: drop_right_def)
    then show ?thesis using length_drop_right [of "\<lambda>c. c = CHR ''/''" s] p by (simp add: less_Suc_eq_le)
  qed
  show ?thesis
  proof (cases "?dir = [] \<and> ?upper \<noteq> []")
    case True
    then have "p \<noteq> []" "path_parent p = ''/''" using parent le by auto
    moreover have "length p \<noteq> 1"
    proof
      assume "length p = 1"
      then obtain c where c: "p = [c]" by (cases p) auto
      then have "c \<noteq> CHR ''/''" using rel by (simp add: path_has_relative_def)
      then show False using True c by (simp add: drop_right_def)
    qed
    ultimately show ?thesis by (cases p) auto
  qed (use parent shorter in auto)
qed

lemma path_parent_moves: "path_parent p \<noteq> p \<Longrightarrow> path_has_relative p"
  by (metis path_parent_def)

lemma path_parent_examples:
  "path_parent ''/a/b'' = ''/a''" "path_parent ''/a'' = ''/''" "path_parent ''/'' = ''/''"
  "path_parent ''/a/'' = ''/a''" "path_parent ''a'' = []" "path_parent ''/a//b'' = ''/a''"
  by (simp_all add: path_parent_def path_has_relative_def drop_right_def)

subsection \<open>Properties\<close>

text \<open>normalising a path a second time changes nothing.\<close>

theorem normalize_path_idempotent: "normalize_path (normalize_path p) = normalize_path p"
  by (simp add: normalize_path_def lexically_normal_idem)

end
