(* ===== verification/Validation.thy ===== *)
theory Validation imports Models Paths begin

text \<open>
  The validation passes of \<open>src/backend/Muninn/domain/validation/validators.cpp\<close>, with the collector
  of \<open>validator_context.hpp\<close> and the entry points of \<open>validate_snapshot.cpp\<close>.  A pass is a function
  from its inputs to the issues it adds, in order; the collector appends them to the report.  Hash sets
  and maps are sets and maps; where the sources iterate over a hash container, whose order is
  unspecified, the model goes by first occurrence.
\<close>

subsection \<open>Issues\<close>

text \<open>\<open>ValidationCollector::add\<close>: the issue it appends.\<close>

definition issue ::
  "validation_error_code \<Rightarrow> validation_severity \<Rightarrow> string \<Rightarrow> snapshot_id option \<Rightarrow> entry_id option \<Rightarrow>
    string \<Rightarrow> validation_issue" where
  "issue code severity message sid eid path =
    \<lparr>vi_code = code, vi_severity = severity, vi_message = message, vi_snapshot_id = sid,
     vi_entry_id = eid, vi_path = path\<rparr>"

definition issue_if :: "bool \<Rightarrow> validation_issue \<Rightarrow> validation_report" where
  "issue_if c i = (if c then [i] else [])"

lemma is_error_issue_simps [simp]:
  "is_error_issue (issue c s m a b p) \<longleftrightarrow> s = Error \<or> s = Fatal"
  "has_errors (issue_if cond i) \<longleftrightarrow> cond \<and> is_error_issue i"
  by (simp_all add: is_error_issue_def issue_def issue_if_def)

subsection \<open>Header pass\<close>

definition is_valid_schema :: "schema_header \<Rightarrow> bool" where
  "is_valid_schema schema \<longleftrightarrow>
    (if sc_major schema = 0 then False
     else if sc_min_reader_major schema = 0 then False
     else sc_min_reader_major schema \<le> sc_major schema)"

definition header_pass :: "snapshot \<Rightarrow> validation_report" where
  "header_pass snapshot =
    (let sid = Some (sn_snapshot_id snapshot) in
     issue_if (sn_snapshot_id snapshot = 0)
       (issue SnapshotIdZero Error ''Snapshot ID must be non-zero.'' None None []) @
     issue_if (\<not> is_valid_schema (sn_schema snapshot))
       (issue SnapshotSchemaInvalid Error ''Snapshot schema header is invalid.'' sid None []) @
     issue_if (sc_major (sn_schema snapshot) > sc_major kCurrentSchemaHeader)
       (issue SnapshotSchemaTooNew Error
         ''Snapshot schema major version is newer than this reader supports.'' sid None []) @
     issue_if (sc_major (sn_schema snapshot) < sc_min_reader_major kCurrentSchemaHeader)
       (issue SnapshotSchemaTooOld Error
         ''Snapshot schema major version is older than supported minimum.'' sid None []) @
     issue_if (sint (sn_created_at snapshot) \<le> 0)
       (issue SnapshotTimestampInvalid Warning
         ''Snapshot creation timestamp is unset or invalid.'' sid None []) @
     issue_if (sn_host_identifier snapshot = [])
       (issue SnapshotHostIdentifierEmpty Error ''Snapshot host identifier is empty.'' sid None []) @
     issue_if (sn_root_entry_id snapshot = 0)
       (issue SnapshotRootIdZero Error ''Snapshot root entry ID is zero.'' sid None []) @
     (if sn_entries snapshot = []
      then [issue SnapshotEntriesEmpty Error ''Snapshot entry collection is empty.'' sid None []]
      else (case find (\<lambda>e. fe_id e = sn_root_entry_id snapshot) (sn_entries snapshot) of
        None \<Rightarrow> [issue SnapshotRootMissing Error
          ''Snapshot root entry ID does not reference any entry.'' sid (Some (sn_root_entry_id snapshot)) []]
      | Some root \<Rightarrow>
          issue_if (fe_type root \<noteq> EntryType_Directory)
            (issue SnapshotRootNotDirectory Error ''Snapshot root entry is not a directory.'' sid
              (Some (fe_id root)) (fe_normalized_path root)) @
          issue_if (fe_parent_id root \<noteq> 0)
            (issue SnapshotRootParentNotZero Error ''Snapshot root entry must have parent ID 0.'' sid
              (Some (fe_id root)) (fe_normalized_path root)))))"

subsection \<open>Identity pass\<close>

fun identity_loop :: "snapshot \<Rightarrow> entry_id set \<Rightarrow> file_entry list \<Rightarrow> validation_report" where
  "identity_loop snapshot ids [] = []"
| "identity_loop snapshot ids (entry # es) =
    (let sid = Some (sn_snapshot_id snapshot);
         eid = Some (fe_id entry);
         path = fe_normalized_path entry
     in issue_if (fe_id entry = 0) (issue EntryIdZero Error ''Entry ID must be non-zero.'' sid eid path) @
        issue_if (fe_id entry \<in> ids)
          (issue EntryIdDuplicate Error ''Duplicate entry ID detected.'' sid eid path) @
        issue_if (fe_id entry \<noteq> sn_root_entry_id snapshot \<and> fe_parent_id entry = 0)
          (issue ParentIdZeroNonRoot Error ''Non-root entry has parent ID 0.'' sid eid path) @
        identity_loop snapshot (insert (fe_id entry) ids) es)"

definition identity_pass :: "snapshot \<Rightarrow> validation_report" where
  "identity_pass snapshot = identity_loop snapshot {} (sn_entries snapshot)"

subsection \<open>Path pass\<close>

definition path_checks :: "snapshot \<Rightarrow> string set \<Rightarrow> file_entry \<Rightarrow> validation_report" where
  "path_checks snapshot unique_paths entry =
    (let sid = Some (sn_snapshot_id snapshot);
         eid = Some (fe_id entry);
         path = fe_normalized_path entry
     in issue_if (\<not> path_is_absolute path)
          (issue EntryPathNotAbsolute Error ''Entry path must be absolute.'' sid eid path) @
        issue_if (lexically_normal path \<noteq> path)
          (issue EntryPathNotNormalized Error ''Entry path is not lexically normalized.'' sid eid path) @
        issue_if (has_path_traversal path)
          (issue EntryPathTraversalDetected Error
            ''Entry path contains traversal segment '..'.'' sid eid path) @
        issue_if (path \<in> unique_paths)
          (issue GraphDuplicatePath Error ''Duplicate normalized path detected.'' sid eid path) @
        issue_if (fe_parent_id entry \<noteq> 0 \<and> fe_name entry \<noteq> path_filename path)
          (issue EntryNameMismatch Warning ''Entry name does not match path filename.'' sid eid path) @
        issue_if (md_permissions (fe_metadata entry) AND 0xFFFF0000 \<noteq> 0)
          (issue EntryPermissionsInvalid Warning
            ''Entry permissions contain unsupported high bits.'' sid eid path) @
        issue_if (fe_type entry > EntryType_Special)
          (issue EntryTypeInvalid Error ''Entry type value is out of range.'' sid eid path))"

fun path_loop :: "snapshot \<Rightarrow> string set \<Rightarrow> file_entry list \<Rightarrow> validation_report" where
  "path_loop snapshot unique_paths [] = []"
| "path_loop snapshot unique_paths (entry # es) =
    (if fe_normalized_path entry = []
     then issue EntryPathEmpty Error ''Entry path is empty.'' (Some (sn_snapshot_id snapshot))
            (Some (fe_id entry)) [] # path_loop snapshot unique_paths es
     else path_checks snapshot unique_paths entry @
       path_loop snapshot (insert (fe_normalized_path entry) unique_paths) es)"

definition path_pass :: "snapshot \<Rightarrow> validation_report" where
  "path_pass snapshot = path_loop snapshot {} (sn_entries snapshot)"

subsection \<open>Graph pass\<close>

definition build_entry_index :: "snapshot \<Rightarrow> entry_id \<rightharpoonup> file_entry" where
  "build_entry_index snapshot = fold (\<lambda>entry by_id. by_id(fe_id entry \<mapsto> entry)) (sn_entries snapshot) Map.empty"

definition add_child :: "file_entry \<Rightarrow> (entry_id \<rightharpoonup> entry_id list) \<Rightarrow> (entry_id \<rightharpoonup> entry_id list)" where
  "add_child entry children =
    (if fe_parent_id entry \<noteq> 0
     then children(fe_parent_id entry \<mapsto>
       (case children (fe_parent_id entry) of None \<Rightarrow> [] | Some cs \<Rightarrow> cs) @ [fe_id entry])
     else children)"

definition build_children_index :: "snapshot \<Rightarrow> entry_id \<rightharpoonup> entry_id list" where
  "build_children_index snapshot = fold add_child (sn_entries snapshot) Map.empty"

definition parent_checks :: "snapshot \<Rightarrow> (entry_id \<rightharpoonup> file_entry) \<Rightarrow> file_entry \<Rightarrow> validation_report" where
  "parent_checks snapshot by_id entry =
    (let sid = Some (sn_snapshot_id snapshot);
         eid = Some (fe_id entry);
         path = fe_normalized_path entry
     in if fe_id entry = sn_root_entry_id snapshot then []
        else if fe_parent_id entry = 0
        then [issue ParentIdZeroNonRoot Error ''Non-root entry has parent ID 0.'' sid eid path]
        else (case by_id (fe_parent_id entry) of
            None \<Rightarrow> [issue ParentMissing Error ''Entry parent ID does not exist.'' sid eid path]
          | Some parent \<Rightarrow>
              issue_if (fe_type parent \<noteq> EntryType_Directory)
                (issue ParentNotDirectory Error ''Entry parent is not a directory.'' sid eid path)))"

datatype color = White | Gray | Black

definition kMaxReasonableDepth :: nat where "kMaxReasonableDepth = 4096"

text \<open>
  The depth-first search with its explicit stack of frames (entry and index of the next child).  It
  ends because every round colours a white entry, consumes a child of a frame, or pops a frame.
\<close>

definition remaining :: "(entry_id \<rightharpoonup> entry_id list) \<Rightarrow> entry_id \<times> nat \<Rightarrow> nat" where
  "remaining children frame =
    (case children (fst frame) of None \<Rightarrow> 0 | Some cs \<Rightarrow> length cs - snd frame)"

definition depth_issues :: "snapshot \<Rightarrow> (entry_id \<times> nat) list \<Rightarrow> validation_report" where
  "depth_issues snapshot stack =
    issue_if (length stack > kMaxReasonableDepth)
      (issue GraphMaxDepthExceeded Warning ''Tree depth exceeds configured validation limit.''
        (Some (sn_snapshot_id snapshot)) (Some (fst (hd stack))) [])"

function dfs ::
  "snapshot \<Rightarrow> (entry_id \<rightharpoonup> entry_id list) \<Rightarrow> (entry_id \<rightharpoonup> color) \<Rightarrow> (entry_id \<times> nat) list \<Rightarrow>
    (entry_id \<rightharpoonup> color) \<times> validation_report" where
  "dfs snapshot children colors [] = (colors, [])"
| "dfs snapshot children colors ((cur, next_index) # frames) =
    (let deep = depth_issues snapshot ((cur, next_index) # frames);
         kids = (case children cur of None \<Rightarrow> [] | Some cs \<Rightarrow> cs)
     in if next_index \<ge> length kids
        then (let (colors', issues) = dfs snapshot children (colors(cur \<mapsto> Black)) frames
              in (colors', deep @ issues))
        else
          let child = kids ! next_index;
              frames' = (cur, Suc next_index) # frames
          in (case colors child of
              None \<Rightarrow> let (colors', issues) = dfs snapshot children colors frames' in (colors', deep @ issues)
            | Some Gray \<Rightarrow>
                let (colors', issues) = dfs snapshot children colors frames'
                in (colors', deep @ issue GraphCycleDetected Error
                     ''Cycle detected in parent/child graph.'' (Some (sn_snapshot_id snapshot)) (Some child) []
                     # issues)
            | Some White \<Rightarrow>
                let (colors', issues) = dfs snapshot children (colors(child \<mapsto> Gray)) ((child, 0) # frames')
                in (colors', deep @ issues)
            | Some Black \<Rightarrow>
                let (colors', issues) = dfs snapshot children colors frames' in (colors', deep @ issues)))"
  by pat_completeness auto

definition white_ids :: "(entry_id \<rightharpoonup> color) \<Rightarrow> entry_id set" where
  "white_ids colors = {i. colors i = Some White}"

lemma finite_white_ids [simp]: "finite (white_ids colors)"
  by (rule finite)

lemma white_ids_colour: "colors i = Some White \<Longrightarrow> white_ids (colors(i \<mapsto> Gray)) = white_ids colors - {i}"
  by (auto simp: white_ids_def)

lemma white_ids_black: "white_ids (colors(i \<mapsto> Black)) \<subseteq> white_ids colors"
  by (auto simp: white_ids_def)

termination dfs
proof (relation "measures [\<lambda>(snapshot, children, colors, stack). card (white_ids colors),
    \<lambda>(snapshot, children, colors, stack). sum_list (map (remaining children) stack) + length stack]", goal_cases)
  case 1
  then show ?case by simp
next
  case (2 snapshot children colors cur next_index frames deep kids)
  have "card (white_ids (colors(cur \<mapsto> Black))) \<le> card (white_ids colors)"
    by (rule card_mono [OF finite_white_ids white_ids_black])
  then show ?case by (auto simp: le_less)
next
  case (3 snapshot children colors cur next_index frames deep kids child frames')
  then show ?case by (auto simp: remaining_def split: option.splits)
next
  case (4 snapshot children colors cur next_index frames deep kids child frames' c)
  have "card (white_ids (colors(child \<mapsto> Gray))) < card (white_ids colors)"
    using 4 by (auto simp: white_ids_colour white_ids_def intro!: psubset_card_mono)
  then show ?case by simp
next
  case (5 snapshot children colors cur next_index frames deep kids child frames' c)
  then show ?case by (auto simp: remaining_def split: option.splits)
next
  case (6 snapshot children colors cur next_index frames deep kids child frames' c)
  then show ?case by (auto simp: remaining_def split: option.splits)
qed

fun dfs_roots ::
  "snapshot \<Rightarrow> (entry_id \<rightharpoonup> entry_id list) \<Rightarrow> (entry_id \<rightharpoonup> color) \<Rightarrow> file_entry list \<Rightarrow>
    (entry_id \<rightharpoonup> color) \<times> validation_report" where
  "dfs_roots snapshot children colors [] = (colors, [])"
| "dfs_roots snapshot children colors (entry # es) =
    (if colors (fe_id entry) \<noteq> Some White then dfs_roots snapshot children colors es
     else let (colors', issues) = dfs snapshot children (colors(fe_id entry \<mapsto> Gray)) [(fe_id entry, 0)];
              (colors'', issues') = dfs_roots snapshot children colors' es
          in (colors'', issues @ issues'))"

definition initial_colors :: "snapshot \<Rightarrow> entry_id \<rightharpoonup> color" where
  "initial_colors snapshot = fold (\<lambda>entry colors. colors(fe_id entry \<mapsto> White)) (sn_entries snapshot) Map.empty"

text \<open>The search for the entries below the root, again with an explicit stack.\<close>

fun visit_children :: "entry_id list \<Rightarrow> entry_id set \<Rightarrow> entry_id list \<Rightarrow> entry_id set \<times> entry_id list" where
  "visit_children [] reachable stack = (reachable, stack)"
| "visit_children (c # cs) reachable stack =
    (if c \<in> reachable then visit_children cs reachable stack
     else visit_children cs (insert c reachable) (c # stack))"

lemma visit_children_measure:
  "visit_children cs reachable stack = (reachable', stack') \<Longrightarrow>
    reachable \<subseteq> reachable' \<and>
    card (UNIV - reachable') + length stack' = card (UNIV - reachable) + length stack"
proof (induction cs arbitrary: reachable stack)
  case (Cons c cs)
  show ?case
  proof (cases "c \<in> reachable")
    case False
    have "UNIV - insert c reachable = (UNIV - reachable) - {c}" by blast
    then have "card (UNIV - insert c reachable) + 1 = card (UNIV - reachable)"
      using False card_Suc_Diff1 [of "UNIV - reachable" c] by simp
    then show ?thesis using Cons.IH [of "insert c reachable" "c # stack"] Cons.prems False by auto
  qed (use Cons in auto)
qed simp

function reach :: "(entry_id \<rightharpoonup> entry_id list) \<Rightarrow> entry_id set \<Rightarrow> entry_id list \<Rightarrow> entry_id set" where
  "reach children reachable [] = reachable"
| "reach children reachable (current # stack) =
    (case children current of
       None \<Rightarrow> reach children reachable stack
     | Some cs \<Rightarrow>
         (let (reachable', stack') = visit_children cs reachable stack in reach children reachable' stack'))"
  by pat_completeness auto
termination
proof (relation "measure (\<lambda>(children, reachable, stack). card (UNIV - reachable) + length stack)", goal_cases)
  case (3 children reachable current stack cs p reachable' stack')
  then have v: "visit_children cs reachable stack = (reachable', stack')" by simp
  from visit_children_measure [OF this] show ?case by (simp add: v)
qed auto

definition graph_pass :: "snapshot \<Rightarrow> validation_report" where
  "graph_pass snapshot =
    (if sn_entries snapshot = [] then []
     else
       let by_id = build_entry_index snapshot;
           children = build_children_index snapshot;
           parent_issues = concat (map (parent_checks snapshot by_id) (sn_entries snapshot));
           cycle_issues = snd (dfs_roots snapshot children (initial_colors snapshot) (sn_entries snapshot))
       in parent_issues @ cycle_issues @
         (case by_id (sn_root_entry_id snapshot) of
            None \<Rightarrow> []
          | Some _ \<Rightarrow>
              let reachable = reach children {sn_root_entry_id snapshot} [sn_root_entry_id snapshot]
              in concat (map (\<lambda>id. issue_if (id \<notin> reachable)
                   (issue GraphDisconnectedEntry Warning ''Entry is not reachable from root.''
                     (Some (sn_snapshot_id snapshot)) (Some id)
                     (case by_id id of None \<Rightarrow> [] | Some e \<Rightarrow> fe_normalized_path e)))
                   (remdups (map fe_id (sn_entries snapshot))))))"

subsection \<open>Timestamp pass\<close>

text \<open>\<open>now_epoch\<close> is the reading of the system clock.\<close>

definition timestamp_checks :: "int \<Rightarrow> snapshot \<Rightarrow> file_entry \<Rightarrow> validation_report" where
  "timestamp_checks now_epoch snapshot entry =
    (let sid = Some (sn_snapshot_id snapshot);
         eid = Some (fe_id entry);
         path = fe_normalized_path entry;
         created = sint (md_created_at (fe_metadata entry));
         modified = sint (md_modified_at (fe_metadata entry));
         accessed = sint (md_accessed_at (fe_metadata entry))
     in issue_if (created > modified \<or> modified > accessed)
          (issue EntryTimestampOrderInvalid Warning
            ''Entry timestamps are not monotonic: created <= modified <= accessed failed.'' sid eid path) @
        issue_if (created > now_epoch \<or> modified > now_epoch \<or> accessed > now_epoch)
          (issue EntryTimestampInFuture Warning ''Entry timestamps are in the future.'' sid eid path))"

definition timestamp_pass :: "int \<Rightarrow> snapshot \<Rightarrow> validation_report" where
  "timestamp_pass now_epoch snapshot = concat (map (timestamp_checks now_epoch snapshot) (sn_entries snapshot))"

definition validate_snapshot :: "int \<Rightarrow> snapshot \<Rightarrow> validation_report" where
  "validate_snapshot now_epoch snapshot =
    header_pass snapshot @ identity_pass snapshot @ path_pass snapshot @ graph_pass snapshot @
    timestamp_pass now_epoch snapshot"

subsection \<open>Delta pass\<close>

text \<open>The three loops that look for an identifier met before.\<close>

fun duplicate_issues :: "('a \<Rightarrow> entry_id) \<Rightarrow> ('a \<Rightarrow> validation_issue) \<Rightarrow> entry_id set \<Rightarrow> 'a list \<Rightarrow> validation_report" where
  "duplicate_issues key mk seen [] = []"
| "duplicate_issues key mk seen (x # xs) =
    issue_if (key x \<in> seen) (mk x) @ duplicate_issues key mk (insert (key x) seen) xs"

text \<open>
  The loop over the renames.  \<open>||\<close> is short-circuit: the new identifier of a rename whose old one is
  a duplicate is not recorded.
\<close>

fun rename_issues ::
  "delta_snapshot \<Rightarrow> entry_id set \<Rightarrow> entry_id set \<Rightarrow> string set \<Rightarrow> renamed_entry list \<Rightarrow> validation_report" where
  "rename_issues delta olds news targets [] = []"
| "rename_issues delta olds news targets (renamed # rs) =
    (let sid = Some (dl_target_snapshot_id delta);
         eid = Some (re_after_entry_id renamed);
         old_dup = re_before_entry_id renamed \<in> olds;
         new_dup = re_after_entry_id renamed \<in> news
     in issue_if (old_dup \<or> new_dup)
          (issue DeltaRenamedEntryDuplicate Error ''Delta contains duplicate rename endpoint IDs.''
            sid eid (re_new_path renamed)) @
        issue_if (re_new_path renamed \<in> targets)
          (issue DeltaRenamePathConflict Error ''Multiple rename operations target the same path.''
            sid eid (re_new_path renamed)) @
        rename_issues delta (insert (re_before_entry_id renamed) olds)
          (if old_dup then news else insert (re_after_entry_id renamed) news)
          (insert (re_new_path renamed) targets) rs)"

definition delta_header_issues :: "delta_snapshot \<Rightarrow> validation_report" where
  "delta_header_issues delta =
    issue_if (dl_base_snapshot_id delta = 0)
      (issue DeltaBaseSnapshotIdZero Error ''Delta base snapshot ID must be non-zero.''
        (Some (dl_base_snapshot_id delta)) None []) @
    issue_if (dl_target_snapshot_id delta = 0)
      (issue DeltaTargetSnapshotIdZero Error ''Delta target snapshot ID must be non-zero.''
        (Some (dl_target_snapshot_id delta)) None []) @
    issue_if (dl_base_snapshot_id delta = dl_target_snapshot_id delta \<and> dl_base_snapshot_id delta \<noteq> 0)
      (issue DeltaBaseEqualsTarget Warning ''Delta base and target snapshot IDs are identical.''
        (Some (dl_base_snapshot_id delta)) None [])"

definition delta_conflict_issues :: "delta_snapshot \<Rightarrow> validation_report" where
  "delta_conflict_issues delta =
    (let added_ids = map fe_id (dl_added_entries delta);
         removed_ids = map fe_id (dl_removed_entries delta);
         modified_ids = map me_entry_id (dl_modified_entries delta)
     in concat (map (\<lambda>i. issue_if (i \<in> set removed_ids \<or> i \<in> set modified_ids)
          (issue DeltaConflictingOperations Error ''Entry appears in conflicting delta operation sets.''
            (Some (dl_target_snapshot_id delta)) (Some i) [])) (remdups added_ids)) @
        concat (map (\<lambda>i. issue_if (i \<in> set modified_ids)
          (issue DeltaConflictingOperations Error ''Removed entry cannot also be marked modified.''
            (Some (dl_base_snapshot_id delta)) (Some i) [])) (remdups removed_ids)))"

definition delta_base_issues :: "delta_snapshot \<Rightarrow> snapshot \<Rightarrow> validation_report" where
  "delta_base_issues delta base =
    (let base_ids = set (map fe_id (sn_entries base));
         sid = Some (sn_snapshot_id base)
     in concat (map (\<lambda>e. issue_if (fe_id e \<notin> base_ids)
          (issue DeltaRemovedEntryMissingInBase Error
            ''Removed entry ID does not exist in base snapshot.'' sid (Some (fe_id e))
            (fe_normalized_path e))) (dl_removed_entries delta)) @
        concat (map (\<lambda>m. issue_if (me_entry_id m \<notin> base_ids)
          (issue DeltaModifiedEntryMissingInBase Error
            ''Modified entry ID does not exist in base snapshot.'' sid (Some (me_entry_id m)) []))
          (dl_modified_entries delta)) @
        concat (map (\<lambda>r. issue_if (re_before_entry_id r \<notin> base_ids)
          (issue DeltaRenamedOldMissingInBase Error
            ''Rename source entry ID does not exist in base snapshot.'' sid (Some (re_before_entry_id r))
            (re_old_path r))) (dl_renamed_entries delta)))"

definition delta_target_issues :: "delta_snapshot \<Rightarrow> snapshot \<Rightarrow> validation_report" where
  "delta_target_issues delta target =
    (let target_ids = set (map fe_id (sn_entries target));
         sid = Some (sn_snapshot_id target)
     in concat (map (\<lambda>e. issue_if (fe_id e \<notin> target_ids)
          (issue DeltaAddedEntryMissingInTarget Error
            ''Added entry ID does not exist in target snapshot.'' sid (Some (fe_id e))
            (fe_normalized_path e))) (dl_added_entries delta)) @
        concat (map (\<lambda>m. issue_if (me_entry_id m \<notin> target_ids)
          (issue DeltaModifiedEntryMissingInTarget Error
            ''Modified entry ID does not exist in target snapshot.'' sid (Some (me_entry_id m)) []))
          (dl_modified_entries delta)) @
        concat (map (\<lambda>r. issue_if (re_after_entry_id r \<notin> target_ids)
          (issue DeltaRenamedNewMissingInTarget Error
            ''Rename target entry ID does not exist in target snapshot.'' sid (Some (re_after_entry_id r))
            (re_new_path r))) (dl_renamed_entries delta)))"

definition validate_delta :: "delta_snapshot \<Rightarrow> snapshot option \<Rightarrow> snapshot option \<Rightarrow> validation_report" where
  "validate_delta delta base_snapshot target_snapshot =
    delta_header_issues delta @
    duplicate_issues fe_id (\<lambda>e. issue DeltaAddedEntryDuplicate Error
      ''Delta contains duplicate added entry ID.'' (Some (dl_target_snapshot_id delta)) (Some (fe_id e))
      (fe_normalized_path e)) {} (dl_added_entries delta) @
    duplicate_issues fe_id (\<lambda>e. issue DeltaRemovedEntryDuplicate Error
      ''Delta contains duplicate removed entry ID.'' (Some (dl_base_snapshot_id delta)) (Some (fe_id e))
      (fe_normalized_path e)) {} (dl_removed_entries delta) @
    duplicate_issues me_entry_id (\<lambda>m. issue DeltaModifiedEntryDuplicate Error
      ''Delta contains duplicate modified entry ID.'' (Some (dl_target_snapshot_id delta))
      (Some (me_entry_id m)) []) {} (dl_modified_entries delta) @
    rename_issues delta {} {} {} (dl_renamed_entries delta) @
    delta_conflict_issues delta @
    (case base_snapshot of None \<Rightarrow> [] | Some base \<Rightarrow> delta_base_issues delta base) @
    (case target_snapshot of None \<Rightarrow> [] | Some target \<Rightarrow> delta_target_issues delta target)"

subsection \<open>What a delta report without errors means\<close>

definition delta_well_formed :: "delta_snapshot \<Rightarrow> bool" where
  "delta_well_formed d \<longleftrightarrow>
    dl_base_snapshot_id d \<noteq> 0 \<and> dl_target_snapshot_id d \<noteq> 0 \<and>
    distinct (map fe_id (dl_added_entries d)) \<and> distinct (map fe_id (dl_removed_entries d)) \<and>
    distinct (map me_entry_id (dl_modified_entries d)) \<and>
    distinct (map re_before_entry_id (dl_renamed_entries d)) \<and>
    distinct (map re_after_entry_id (dl_renamed_entries d)) \<and>
    distinct (map re_new_path (dl_renamed_entries d)) \<and>
    set (map fe_id (dl_added_entries d)) \<inter> set (map fe_id (dl_removed_entries d)) = {} \<and>
    set (map fe_id (dl_added_entries d)) \<inter> set (map me_entry_id (dl_modified_entries d)) = {} \<and>
    set (map fe_id (dl_removed_entries d)) \<inter> set (map me_entry_id (dl_modified_entries d)) = {}"

definition delta_fits_base :: "delta_snapshot \<Rightarrow> snapshot \<Rightarrow> bool" where
  "delta_fits_base d base \<longleftrightarrow>
    set (map fe_id (dl_removed_entries d)) \<union> set (map me_entry_id (dl_modified_entries d)) \<union>
    set (map re_before_entry_id (dl_renamed_entries d)) \<subseteq> set (map fe_id (sn_entries base))"

definition delta_fits_target :: "delta_snapshot \<Rightarrow> snapshot \<Rightarrow> bool" where
  "delta_fits_target d target \<longleftrightarrow>
    set (map fe_id (dl_added_entries d)) \<union> set (map me_entry_id (dl_modified_entries d)) \<union>
    set (map re_after_entry_id (dl_renamed_entries d)) \<subseteq> set (map fe_id (sn_entries target))"

lemma duplicate_issues_errors:
  assumes "\<And>x. is_error_issue (mk x)"
  shows "has_errors (duplicate_issues key mk seen xs) \<longleftrightarrow> \<not> (distinct (map key xs) \<and> key ` set xs \<inter> seen = {})"
  using assms by (induction xs arbitrary: seen) auto

lemma rename_issues_errors:
  "has_errors (rename_issues d olds news targets rs) \<longleftrightarrow>
    \<not> (distinct (map re_before_entry_id rs) \<and> distinct (map re_after_entry_id rs) \<and>
       distinct (map re_new_path rs) \<and> re_before_entry_id ` set rs \<inter> olds = {} \<and>
       re_after_entry_id ` set rs \<inter> news = {} \<and> re_new_path ` set rs \<inter> targets = {})"
  by (induction rs arbitrary: olds news targets) (auto simp: Let_def)

lemma has_errors_concat_map: "has_errors (concat (map f xs)) \<longleftrightarrow> (\<exists>x\<in>set xs. has_errors (f x))"
  by (induction xs) auto

lemma delta_header_errors:
  "has_errors (delta_header_issues d) \<longleftrightarrow> dl_base_snapshot_id d = 0 \<or> dl_target_snapshot_id d = 0"
  by (simp add: delta_header_issues_def)

lemma delta_base_errors: "has_errors (delta_base_issues d base) \<longleftrightarrow> \<not> delta_fits_base d base"
  by (auto simp: delta_base_issues_def delta_fits_base_def has_errors_concat_map Let_def)

lemma delta_target_errors: "has_errors (delta_target_issues d target) \<longleftrightarrow> \<not> delta_fits_target d target"
  by (auto simp: delta_target_issues_def delta_fits_target_def has_errors_concat_map Let_def)

lemma validate_delta_errors:
  "has_errors (validate_delta d base target) \<longleftrightarrow>
    \<not> (delta_well_formed d \<and> (\<forall>b. base = Some b \<longrightarrow> delta_fits_base d b) \<and>
       (\<forall>t. target = Some t \<longrightarrow> delta_fits_target d t))"
  by (auto simp: validate_delta_def delta_well_formed_def duplicate_issues_errors rename_issues_errors
      delta_header_errors delta_base_errors delta_target_errors delta_conflict_issues_def Let_def
      has_errors_concat_map split: option.split)

end
