(* ===== verification/ValidationGraph.thy ===== *)
theory ValidationGraph imports Validation begin

text \<open>
  What a snapshot report without errors means.  The depth-first search of the graph pass is shown to
  find every cycle and nothing else: \<open>search_inv\<close> is the invariant of its colours and its stack.  With
  the other passes this makes an accepted snapshot a tree of directories under the root.
\<close>

subsection \<open>Indexes\<close>

definition kids :: "(entry_id \<rightharpoonup> entry_id list) \<Rightarrow> entry_id \<Rightarrow> entry_id list" where
  "kids children i = (case children i of None \<Rightarrow> [] | Some cs \<Rightarrow> cs)"

definition child_edges :: "(entry_id \<rightharpoonup> entry_id list) \<Rightarrow> (entry_id \<times> entry_id) set" where
  "child_edges children = {(p, c). c \<in> set (kids children p)}"

lemma child_edges_iff [simp]: "(p, c) \<in> child_edges children \<longleftrightarrow> c \<in> set (kids children p)"
  by (simp add: child_edges_def)

lemma kids_fold_add_child:
  "kids (fold add_child es children) p =
    kids children p @ (if p = 0 then [] else map fe_id (filter (\<lambda>e. fe_parent_id e = p) es))"
  by (induction es arbitrary: children) (auto simp: add_child_def kids_def split: option.split)

lemma kids_children_index:
  "kids (build_children_index sn) p =
    (if p = 0 then [] else map fe_id (filter (\<lambda>e. fe_parent_id e = p) (sn_entries sn)))"
  by (simp add: build_children_index_def kids_fold_add_child) (simp add: kids_def)

lemma child_edges_index:
  "child_edges (build_children_index sn) =
    {(fe_parent_id e, fe_id e) | e. e \<in> set (sn_entries sn) \<and> fe_parent_id e \<noteq> 0}"
  by (auto simp: child_edges_def kids_children_index split: if_splits)

lemma fold_upd_id: "i \<notin> fe_id ` set es \<Longrightarrow> fold (\<lambda>e m. m(fe_id e \<mapsto> g e)) es m i = m i"
  by (induction es arbitrary: m) auto

lemma fold_upd_in:
  "i \<in> fe_id ` set es \<Longrightarrow> \<exists>e\<in>set es. fe_id e = i \<and> fold (\<lambda>e m. m(fe_id e \<mapsto> g e)) es m i = Some (g e)"
proof (induction es arbitrary: m)
  case (Cons e es)
  show ?case
  proof (cases "i \<in> fe_id ` set es")
    case True
    from Cons.IH [OF this, of "m(fe_id e \<mapsto> g e)"] show ?thesis by auto
  next
    case False
    then have i: "i = fe_id e" using Cons.prems by auto
    have "fold (\<lambda>e m. m(fe_id e \<mapsto> g e)) (e # es) m i = Some (g e)"
      using fold_upd_id [OF False, of g "m(fe_id e \<mapsto> g e)"] by (simp add: i)
    then show ?thesis using i by (metis list.set_intros(1))
  qed
qed simp

lemma entry_index_None: "build_entry_index sn i = None \<longleftrightarrow> i \<notin> fe_id ` set (sn_entries sn)"
  using fold_upd_id [of i "sn_entries sn" "\<lambda>e. e" Map.empty] fold_upd_in [of i "sn_entries sn" "\<lambda>e. e" Map.empty]
  by (fastforce simp: build_entry_index_def)

lemma entry_index_Some: "build_entry_index sn i = Some e \<Longrightarrow> e \<in> set (sn_entries sn) \<and> fe_id e = i"
  using fold_upd_id [of i "sn_entries sn" "\<lambda>e. e" Map.empty] fold_upd_in [of i "sn_entries sn" "\<lambda>e. e" Map.empty]
  by (cases "i \<in> fe_id ` set (sn_entries sn)") (auto simp: build_entry_index_def)

lemma initial_colors_eq: "initial_colors sn i = (if i \<in> fe_id ` set (sn_entries sn) then Some White else None)"
  using fold_upd_id [of i "sn_entries sn" "\<lambda>e. White" Map.empty] fold_upd_in [of i "sn_entries sn" "\<lambda>e. White" Map.empty]
  by (auto simp: initial_colors_def)

subsection \<open>Adding a node without incoming edges\<close>

lemma acyclic_add_source:
  assumes "acyclic R" "x \<notin> Range R" "x \<notin> S" shows "acyclic (R \<union> {x} \<times> S)"
proof -
  have step: "b \<noteq> x \<and> (a \<noteq> x \<longrightarrow> (a, b) \<in> R\<^sup>+)" if "(a, b) \<in> (R \<union> {x} \<times> S)\<^sup>+" for a b
    using that
  proof (induction rule: trancl_induct)
    case (base y)
    then show ?case using assms by auto
  next
    case (step y z)
    then show ?case using assms by (auto intro: trancl_into_trancl)
  qed
  then show ?thesis using assms(1) by (metis acyclic_def)
qed

subsection \<open>The invariant of the search\<close>

text \<open>
  The stack is a path: each frame has just handed out the child above it, and every child handed out
  before is finished.  Grey means on the stack; black nodes have only finished children and no cycle
  among them.
\<close>

definition settled :: "(entry_id \<rightharpoonup> color) \<Rightarrow> entry_id \<Rightarrow> bool" where
  "settled colors c \<longleftrightarrow> colors c = None \<or> colors c = Some Black"

fun stack_path :: "(entry_id \<rightharpoonup> entry_id list) \<Rightarrow> (entry_id \<rightharpoonup> color) \<Rightarrow> (entry_id \<times> nat) list \<Rightarrow> bool" where
  "stack_path children colors [] = True"
| "stack_path children colors [(i, k)] \<longleftrightarrow>
    k \<le> length (kids children i)"
| "stack_path children colors ((i, k) # (j, m) # frames) \<longleftrightarrow>
    k \<le> length (kids children i) \<and> 0 < m \<and> m \<le> length (kids children j) \<and> kids children j ! (m - 1) = i \<and>
    (\<forall>c\<in>set (take (m - 1) (kids children j)). settled colors c) \<and>
    stack_path children colors ((j, m) # frames)"

definition top_settled :: "(entry_id \<rightharpoonup> entry_id list) \<Rightarrow> (entry_id \<rightharpoonup> color) \<Rightarrow> (entry_id \<times> nat) list \<Rightarrow> bool" where
  "top_settled children colors stack \<longleftrightarrow>
    (case stack of [] \<Rightarrow> True
     | (i, k) # _ \<Rightarrow> \<forall>c\<in>set (take k (kids children i)). settled colors c)"

definition black_edges :: "(entry_id \<rightharpoonup> entry_id list) \<Rightarrow> (entry_id \<rightharpoonup> color) \<Rightarrow> (entry_id \<times> entry_id) set" where
  "black_edges children colors =
    {(p, c). colors p = Some Black \<and> colors c = Some Black \<and> c \<in> set (kids children p)}"

definition search_inv :: "(entry_id \<rightharpoonup> entry_id list) \<Rightarrow> (entry_id \<rightharpoonup> color) \<Rightarrow> (entry_id \<times> nat) list \<Rightarrow> bool" where
  "search_inv children colors stack \<longleftrightarrow>
    distinct (map fst stack) \<and>
    (\<forall>i. colors i = Some Gray \<longleftrightarrow> i \<in> fst ` set stack) \<and>
    stack_path children colors stack \<and> top_settled children colors stack \<and>
    (\<forall>b c. colors b = Some Black \<longrightarrow> c \<in> set (kids children b) \<longrightarrow> settled colors c) \<and>
    acyclic (black_edges children colors)"

lemma stack_path_settled_mono:
  "(\<And>c. settled colors c \<Longrightarrow> settled colors' c) \<Longrightarrow> stack_path children colors stack \<Longrightarrow>
    stack_path children colors' stack"
  by (induction children colors stack rule: stack_path.induct) auto

text \<open>The three ways a round changes the state keep it.\<close>

lemma search_inv_pop:
  assumes inv: "search_inv children colors ((i, k) # frames)" and k: "length (kids children i) \<le> k"
  shows "search_inv children (colors(i \<mapsto> Black)) frames"
proof -
  let ?colors = "colors(i \<mapsto> Black)"
  have gray: "colors i = Some Gray" and notin: "i \<notin> fst ` set frames"
    and all: "\<forall>c\<in>set (kids children i). settled colors c"
    and closed: "\<forall>b c. colors b = Some Black \<longrightarrow> c \<in> set (kids children b) \<longrightarrow> settled colors c"
    and acyc: "acyclic (black_edges children colors)"
    using inv k by (auto simp: search_inv_def top_settled_def)
  have mono: "settled colors c \<Longrightarrow> settled ?colors c" for c by (auto simp: settled_def)
  have "stack_path children colors frames"
    using inv by (cases frames) (auto simp: search_inv_def)
  then have path: "stack_path children ?colors frames" using mono by (rule stack_path_settled_mono [rotated])
  have top: "top_settled children ?colors frames"
  proof (cases frames)
    case (Cons f fs)
    obtain j m where f: "f = (j, m)" by (cases f)
    have m: "0 < m" "m \<le> length (kids children j)" "kids children j ! (m - 1) = i"
      "\<forall>c\<in>set (take (m - 1) (kids children j)). settled colors c"
      using inv Cons f by (auto simp: search_inv_def)
    have "take m (kids children j) = take (m - 1) (kids children j) @ [i]"
      using m take_Suc_conv_app_nth [of "m - 1" "kids children j"] by simp
    then show ?thesis using m(4) mono by (auto simp: top_settled_def Cons f settled_def)
  qed (simp add: top_settled_def)
  let ?S = "{c. c \<in> set (kids children i) \<and> colors c = Some Black}"
  have "black_edges children ?colors = black_edges children colors \<union> {i} \<times> ?S"
    using gray closed all by (fastforce simp: black_edges_def settled_def split: if_splits)
  moreover have "acyclic (black_edges children colors \<union> {i} \<times> ?S)"
    by (rule acyclic_add_source [OF acyc]) (use gray in \<open>auto simp: black_edges_def\<close>)
  ultimately have "acyclic (black_edges children ?colors)" by simp
  then show ?thesis
    using inv gray notin all closed path top mono by (auto simp: search_inv_def)
qed

lemma search_inv_advance:
  assumes inv: "search_inv children colors ((i, k) # frames)" and k: "k < length (kids children i)"
    and child: "settled colors (kids children i ! k)"
  shows "search_inv children colors ((i, Suc k) # frames)"
proof -
  have "take (Suc k) (kids children i) = take k (kids children i) @ [kids children i ! k]"
    using k by (rule take_Suc_conv_app_nth)
  then show ?thesis using inv k child
    by (cases frames) (auto simp: search_inv_def top_settled_def)
qed

lemma search_inv_push:
  assumes inv: "search_inv children colors ((i, k) # frames)" and k: "k < length (kids children i)"
    and white: "colors (kids children i ! k) = Some White"
  shows "search_inv children (colors(kids children i ! k \<mapsto> Gray)) ((kids children i ! k, 0) # (i, Suc k) # frames)"
proof -
  let ?c = "kids children i ! k"
  let ?colors = "colors(?c \<mapsto> Gray)"
  have new: "?c \<notin> fst ` set ((i, k) # frames)"
    using inv white by (metis search_inv_def color.distinct(1) option.inject)
  have mono: "settled colors c \<Longrightarrow> settled ?colors c" for c using white by (auto simp: settled_def)
  have "stack_path children colors ((i, Suc k) # frames)"
    using inv k by (cases frames) (auto simp: search_inv_def)
  then have path: "stack_path children ?colors ((i, Suc k) # frames)"
    using mono by (rule stack_path_settled_mono [rotated])
  have "black_edges children ?colors = black_edges children colors"
    using white by (auto simp: black_edges_def)
  then show ?thesis
    using inv new path mono k white by (auto simp: search_inv_def top_settled_def)
qed

text \<open>A grey child closes a cycle through the stack.\<close>

lemma stack_path_reaches:
  "stack_path children colors ((i, k) # frames) \<Longrightarrow> j \<in> fst ` set ((i, k) # frames) \<Longrightarrow>
    (j, i) \<in> (child_edges children)\<^sup>*"
proof (induction frames arbitrary: i k)
  case (Cons f frames)
  obtain h m where f: "f = (h, m)" by (cases f)
  have "m - 1 < length (kids children h)" "kids children h ! (m - 1) = i"
    using Cons.prems(1) by (auto simp: f)
  then have "i \<in> set (kids children h)" by (metis nth_mem)
  then have edge: "(h, i) \<in> child_edges children" by simp
  show ?case
  proof (cases "j = i")
    case False
    then have "j \<in> fst ` set ((h, m) # frames)" using Cons.prems(2) f by auto
    moreover have "stack_path children colors ((h, m) # frames)" using Cons.prems(1) f by simp
    ultimately have "(j, h) \<in> (child_edges children)\<^sup>*" using Cons.IH by blast
    then show ?thesis using edge by (rule rtrancl_into_rtrancl)
  qed simp
qed auto

lemma search_inv_gray_cycle:
  assumes inv: "search_inv children colors ((i, k) # frames)" and k: "k < length (kids children i)"
    and gray: "colors (kids children i ! k) = Some Gray"
  shows "\<not> acyclic (child_edges children)"
proof -
  let ?c = "kids children i ! k"
  have "?c \<in> fst ` set ((i, k) # frames)" using inv gray by (auto simp: search_inv_def)
  then have "(?c, i) \<in> (child_edges children)\<^sup>*"
    using inv stack_path_reaches [of children colors i k frames ?c] by (simp add: search_inv_def)
  moreover have "(i, ?c) \<in> child_edges children" using k by simp
  ultimately have "(i, i) \<in> (child_edges children)\<^sup>+" by (meson rtrancl_into_trancl2)
  then show ?thesis by (auto simp: acyclic_def)
qed

subsection \<open>The search finds exactly the cycles\<close>

lemma depth_issues_errors [simp]: "\<not> has_errors (depth_issues sn stack)"
  by (simp add: depth_issues_def)

text \<open>Colours only move forward and no node is forgotten.\<close>

definition colors_forward :: "(entry_id \<rightharpoonup> color) \<Rightarrow> (entry_id \<rightharpoonup> color) \<Rightarrow> bool" where
  "colors_forward colors colors' \<longleftrightarrow> dom colors' = dom colors \<and> white_ids colors' \<subseteq> white_ids colors"

lemma colors_forward_refl [simp]: "colors_forward colors colors"
  by (simp add: colors_forward_def)

lemma colors_forward_upd:
  "colors_forward (colors(i \<mapsto> c)) colors' \<Longrightarrow> i \<in> dom colors \<Longrightarrow> c \<noteq> White \<Longrightarrow> colors_forward colors colors'"
  by (auto simp: colors_forward_def white_ids_def split: if_splits)

lemma kids_case: "(case children i of None \<Rightarrow> [] | Some cs \<Rightarrow> cs) = kids children i"
  by (simp add: kids_def)

declare dfs.simps [simp del]

lemma dfs_Nil [simp]: "dfs sn children colors [] = (colors, [])"
  by (rule dfs.simps)

lemma dfs_step:
  "dfs sn children colors ((i, k) # frames) =
    (let deep = depth_issues sn ((i, k) # frames)
     in if length (kids children i) \<le> k
        then apsnd ((@) deep) (dfs sn children (colors(i \<mapsto> Black)) frames)
        else (case colors (kids children i ! k) of
            Some Gray \<Rightarrow> apsnd (\<lambda>r. deep @ issue GraphCycleDetected Error
                ''Cycle detected in parent/child graph.'' (Some (sn_snapshot_id sn))
                (Some (kids children i ! k)) [] # r) (dfs sn children colors ((i, Suc k) # frames))
          | Some White \<Rightarrow> apsnd ((@) deep) (dfs sn children (colors(kids children i ! k \<mapsto> Gray))
                ((kids children i ! k, 0) # (i, Suc k) # frames))
          | _ \<Rightarrow> apsnd ((@) deep) (dfs sn children colors ((i, Suc k) # frames))))"
  by (auto simp: dfs.simps(2) kids_def Let_def apsnd_def map_prod_def split: option.split color.split prod.split)

lemma dfs_correct:
  "search_inv children colors stack \<Longrightarrow> dfs sn children colors stack = (colors', issues) \<Longrightarrow>
    (\<not> has_errors issues \<longrightarrow> search_inv children colors' [] \<and> colors_forward colors colors') \<and>
    (has_errors issues \<longrightarrow> \<not> acyclic (child_edges children))"
proof (induction sn children colors stack arbitrary: colors' issues rule: dfs.induct)
  case (1 sn children colors)
  then show ?case by simp
next
  case (2 sn children colors i k frames)
  have gray: "i \<in> dom colors" using "2.prems"(1) by (auto simp: search_inv_def)
  note run = trans [OF dfs_step [symmetric] "2.prems"(2)]
  show ?case
  proof (cases "length (kids children i) \<le> k")
    case True
    obtain c1 is1 where rec: "dfs sn children (colors(i \<mapsto> Black)) frames = (c1, is1)" by fastforce
    have fwd: "colors_forward (colors(i \<mapsto> Black)) c1 \<Longrightarrow> colors_forward colors c1"
      using colors_forward_upd gray by blast
    have "(\<not> has_errors is1 \<longrightarrow> search_inv children c1 [] \<and> colors_forward (colors(i \<mapsto> Black)) c1) \<and>
        (has_errors is1 \<longrightarrow> \<not> acyclic (child_edges children))"
      using "2.IH"(1) [OF refl refl _ search_inv_pop [OF "2.prems"(1) True] rec] True
      unfolding kids_def .
    then show ?thesis using run rec True fwd by (auto simp: Let_def)
  next
    case False
    then have k: "k < length (kids children i)" by simp
    let ?c = "kids children i ! k"
    show ?thesis
    proof (cases "colors ?c = Some Gray")
      case True
      obtain c1 is1 where "dfs sn children colors ((i, Suc k) # frames) = (c1, is1)" by fastforce
      then show ?thesis using search_inv_gray_cycle [OF "2.prems"(1) k True] run False True by (auto simp: Let_def)
    next
      case not_gray: False
      show ?thesis
      proof (cases "colors ?c = Some White")
        case True
        obtain c1 is1 where rec: "dfs sn children (colors(?c \<mapsto> Gray)) ((?c, 0) # (i, Suc k) # frames) = (c1, is1)"
          by fastforce
        note inv = search_inv_push [OF "2.prems"(1) k True]
        have fwd: "colors_forward (colors(?c \<mapsto> Gray)) c1 \<Longrightarrow> colors_forward colors c1"
          using colors_forward_upd True by blast
        have "(\<not> has_errors is1 \<longrightarrow> search_inv children c1 [] \<and> colors_forward (colors(?c \<mapsto> Gray)) c1) \<and>
            (has_errors is1 \<longrightarrow> \<not> acyclic (child_edges children))"
          using "2.IH"(3) [OF refl refl k [unfolded kids_def not_le [symmetric]] refl refl
              True [unfolded kids_def] refl inv [unfolded kids_def] rec [unfolded kids_def]]
          unfolding kids_def by this
        then show ?thesis using run rec True k fwd by (auto simp: Let_def)
      next
        case False
        then have settled: "settled colors ?c" using not_gray
          by (cases "colors ?c" rule: option.exhaust; cases "the (colors ?c)") (auto simp: settled_def)
        obtain c1 is1 where rec: "dfs sn children colors ((i, Suc k) # frames) = (c1, is1)" by fastforce
        note inv = search_inv_advance [OF "2.prems"(1) k settled]
        show ?thesis
        proof (cases "colors ?c")
          case None
          from "2.IH"(2) [OF refl refl _ refl refl _ inv rec] None k
          show ?thesis using run rec None k by (auto simp: kids_def Let_def)
        next
          case (Some col)
          then have "colors ?c = Some Black" using settled by (simp add: settled_def)
          with "2.IH"(5) [OF refl refl _ refl refl _ _ inv rec] k
          show ?thesis using run rec by (auto simp: kids_def Let_def)
        qed
      qed
    qed
  qed
qed

lemma colors_forward_trans:
  "colors_forward a b \<Longrightarrow> colors_forward b c \<Longrightarrow> colors_forward a c"
  by (auto simp: colors_forward_def)

lemma search_inv_start:
  assumes "search_inv children colors []" "colors i = Some White"
  shows "search_inv children (colors(i \<mapsto> Gray)) [(i, 0)]"
proof -
  have "black_edges children (colors(i \<mapsto> Gray)) = black_edges children colors"
    using assms(2) by (auto simp: black_edges_def)
  moreover have "i \<notin> set (kids children b)" if "colors b = Some Black" for b
    using assms that unfolding search_inv_def settled_def by fastforce
  ultimately show ?thesis using assms by (auto simp: search_inv_def top_settled_def settled_def)
qed

lemma dfs_roots_correct:
  "search_inv children colors [] \<Longrightarrow> dfs_roots sn children colors es = (colors', issues) \<Longrightarrow>
    (\<not> has_errors issues \<longrightarrow> search_inv children colors' [] \<and> colors_forward colors colors' \<and>
       (\<forall>e\<in>set es. colors' (fe_id e) \<noteq> Some White)) \<and>
    (has_errors issues \<longrightarrow> \<not> acyclic (child_edges children))"
proof (induction sn children colors es arbitrary: colors' issues rule: dfs_roots.induct)
  case (1 sn children colors)
  then show ?case by simp
next
  case (2 sn children colors e es)
  show ?case
  proof (cases "colors (fe_id e) = Some White")
    case False
    with "2.IH"(1) [OF False "2.prems"(1)] "2.prems"(2)
    show ?thesis by (auto simp: colors_forward_def white_ids_def)
  next
    case True
    obtain c1 is1 where d: "dfs sn children (colors(fe_id e \<mapsto> Gray)) [(fe_id e, 0)] = (c1, is1)" by fastforce
    obtain c2 is2 where r: "dfs_roots sn children c1 es = (c2, is2)" by fastforce
    have res: "colors' = c2" "issues = is1 @ is2" using "2.prems"(2) True d r by auto
    note one = dfs_correct [OF search_inv_start [OF "2.prems"(1) True] d]
    show ?thesis
    proof (cases "has_errors is1")
      case True
      then show ?thesis using one res by simp
    next
      case False
      have c1: "search_inv children c1 []" "colors_forward (colors(fe_id e \<mapsto> Gray)) c1"
        using one False by auto
      have fwd: "colors_forward colors c1" using colors_forward_upd [OF c1(2)] True by blast
      have "c1 (fe_id e) \<noteq> Some White"
        using c1(2) by (auto simp: colors_forward_def white_ids_def)
      moreover note "2.IH"(2) [OF _ d [symmetric] refl c1(1) r]
      ultimately show ?thesis using res True False fwd colors_forward_trans [OF fwd]
        by (auto simp: colors_forward_def white_ids_def)
    qed
  qed
qed

lemma dfs_finds_cycles:
  "has_errors (snd (dfs_roots sn (build_children_index sn) (initial_colors sn) (sn_entries sn))) \<longleftrightarrow>
    \<not> acyclic {(fe_parent_id e, fe_id e) | e. e \<in> set (sn_entries sn) \<and> fe_parent_id e \<noteq> 0 \<and>
       fe_parent_id e \<in> fe_id ` set (sn_entries sn)}"
proof -
  let ?ch = "build_children_index sn" and ?ids = "fe_id ` set (sn_entries sn)"
  let ?E = "{(fe_parent_id e, fe_id e) | e. e \<in> set (sn_entries sn) \<and> fe_parent_id e \<noteq> 0 \<and> fe_parent_id e \<in> ?ids}"
  obtain c rep where run: "dfs_roots sn ?ch (initial_colors sn) (sn_entries sn) = (c, rep)" by fastforce
  have inv: "search_inv ?ch (initial_colors sn) []"
    by (auto simp: search_inv_def top_settled_def initial_colors_eq black_edges_def acyclic_def)
  note res = dfs_roots_correct [OF inv run]
  have E: "?E = {(p, ch). (p, ch) \<in> child_edges ?ch \<and> p \<in> ?ids}"
    unfolding child_edges_index by blast
  have cyc: "acyclic ?E \<longleftrightarrow> acyclic (child_edges ?ch)"
  proof
    assume "acyclic (child_edges ?ch)"
    then show "acyclic ?E" by (rule acyclic_subset) (auto simp: E)
  next
    assume a: "acyclic ?E"
    have ran: "b \<in> ?ids" if "(a, b) \<in> (child_edges ?ch)\<^sup>+" for a b
      using that by (induction rule: trancl_induct) (auto simp: child_edges_index simp del: child_edges_iff)
    have lift: "a \<in> ?ids \<longrightarrow> (a, b) \<in> ?E\<^sup>+" if "(a, b) \<in> (child_edges ?ch)\<^sup>+" for a b
      using that
    proof (induction rule: trancl_induct)
      case (base b)
      then show ?case by (auto simp: E)
    next
      case (step b d)
      then have "b \<in> ?ids" using ran by blast
      then have "(b, d) \<in> ?E" using step by (simp add: E)
      then show ?case using step by (auto intro: trancl_into_trancl)
    qed
    show "acyclic (child_edges ?ch)"
    proof (rule acyclicI, intro allI notI)
      fix x assume x: "(x, x) \<in> (child_edges ?ch)\<^sup>+"
      have "(x, x) \<in> ?E\<^sup>+" by (rule mp [OF lift [OF x] ran [OF x]])
      then show False using a by (simp only: acyclic_def) 
    qed
  qed
  show ?thesis
  proof (cases "has_errors rep")
    case True
    then show ?thesis using res run cyc by simp
  next
    case False
    have init: "dom (initial_colors sn) = ?ids"
      by (auto simp: dom_def initial_colors_eq split: if_splits)
    from False res have r: "search_inv ?ch c [] \<and> colors_forward (initial_colors sn) c \<and>
        (\<forall>e\<in>set (sn_entries sn). c (fe_id e) \<noteq> Some White)" by (elim conjE) (drule mp)
    have domc: "dom c = ?ids" using conjunct1 [OF conjunct2 [OF r]] init by (simp only: colors_forward_def)
    have inv_c: "search_inv ?ch c []" using r by (rule conjunct1)
    have white: "c i \<noteq> Some White" if "i \<in> ?ids" for i
      using conjunct2 [OF conjunct2 [OF r]] that by (elim imageE) simp
    have black: "c i = Some Black" if "i \<in> ?ids" for i
    proof -
      have "i \<in> dom c" unfolding domc by (rule that)
      then obtain col where col: "c i = Some col" by (auto simp: dom_def)
      have "c i \<noteq> Some Gray" using inv_c by (simp add: search_inv_def)
      then show ?thesis using col white [OF that] by (cases col) simp_all
    qed
    have "(fe_parent_id e, fe_id e) \<in> black_edges ?ch c"
      if "e \<in> set (sn_entries sn)" "fe_parent_id e \<noteq> 0" "fe_parent_id e \<in> ?ids" for e
      using that black by (simp add: black_edges_def kids_children_index)
    then have "?E \<subseteq> black_edges ?ch c" by blast
    moreover have "acyclic (black_edges ?ch c)" using inv_c by (simp add: search_inv_def)
    ultimately have "acyclic ?E" by (rule acyclic_subset [rotated])
    then show ?thesis using run False by simp
  qed
qed

subsection \<open>The other passes\<close>

lemma timestamp_pass_errors [simp]: "\<not> has_errors (timestamp_pass now sn)"
  by (simp add: timestamp_pass_def timestamp_checks_def has_errors_concat_map Let_def)

lemma identity_loop_errors:
  "has_errors (identity_loop sn ids es) \<longleftrightarrow>
    \<not> (distinct (map fe_id es) \<and> fe_id ` set es \<inter> ids = {} \<and>
       (\<forall>e\<in>set es. fe_id e \<noteq> 0 \<and> (fe_id e \<noteq> sn_root_entry_id sn \<longrightarrow> fe_parent_id e \<noteq> 0)))"
  by (induction es arbitrary: ids) (auto simp: Let_def)

lemma identity_pass_errors:
  "has_errors (identity_pass sn) \<longleftrightarrow>
    \<not> (distinct (map fe_id (sn_entries sn)) \<and>
       (\<forall>e\<in>set (sn_entries sn). fe_id e \<noteq> 0 \<and> (fe_id e \<noteq> sn_root_entry_id sn \<longrightarrow> fe_parent_id e \<noteq> 0)))"
  by (simp add: identity_pass_def identity_loop_errors)

definition schema_readable :: "schema_header \<Rightarrow> bool" where
  "schema_readable h \<longleftrightarrow> is_valid_schema h \<and> sc_major h \<le> sc_major kCurrentSchemaHeader \<and>
    sc_min_reader_major kCurrentSchemaHeader \<le> sc_major h"

lemma header_pass_errors:
  "has_errors (header_pass sn) \<longleftrightarrow>
    \<not> (sn_snapshot_id sn \<noteq> 0 \<and> schema_readable (sn_schema sn) \<and> sn_host_identifier sn \<noteq> [] \<and>
       sn_root_entry_id sn \<noteq> 0 \<and>
       (\<exists>root. find (\<lambda>e. fe_id e = sn_root_entry_id sn) (sn_entries sn) = Some root \<and>
         fe_type root = EntryType_Directory \<and> fe_parent_id root = 0))"
  by (auto simp: header_pass_def schema_readable_def Let_def not_less split: option.split)

definition path_acceptable :: "file_entry \<Rightarrow> bool" where
  "path_acceptable e \<longleftrightarrow> is_absolute_normalized_path (fe_normalized_path e) \<and> fe_type e \<le> EntryType_Special"

lemma path_checks_errors:
  "fe_normalized_path e \<noteq> [] \<Longrightarrow>
    has_errors (path_checks sn seen e) \<longleftrightarrow> \<not> (path_acceptable e \<and> fe_normalized_path e \<notin> seen)"
  using normalized_no_traversal [of "fe_normalized_path e"]
  by (auto simp: path_checks_def path_acceptable_def is_absolute_normalized_path_def Let_def not_less)

lemma path_loop_errors:
  "has_errors (path_loop sn seen es) \<longleftrightarrow>
    \<not> (distinct (map fe_normalized_path es) \<and> fe_normalized_path ` set es \<inter> seen = {} \<and>
       list_all path_acceptable es)"
proof (induction es arbitrary: seen)
  case (Cons e es)
  show ?case
  proof (cases "fe_normalized_path e = []")
    case True
    then show ?thesis by (simp add: path_acceptable_def is_absolute_normalized_path_def)
  next
    case False
    then show ?thesis using Cons path_checks_errors [OF False] by auto
  qed
qed simp

lemma parent_checks_errors:
  "has_errors (parent_checks sn by_id e) \<longleftrightarrow>
    fe_id e \<noteq> sn_root_entry_id sn \<and>
    (fe_parent_id e = 0 \<or> \<not> (\<exists>p. by_id (fe_parent_id e) = Some p \<and> fe_type p = EntryType_Directory))"
  by (auto simp: parent_checks_def Let_def split: option.split)

lemma graph_pass_errors:
  "sn_entries sn \<noteq> [] \<Longrightarrow>
    has_errors (graph_pass sn) \<longleftrightarrow>
      (\<exists>e\<in>set (sn_entries sn). has_errors (parent_checks sn (build_entry_index sn) e)) \<or>
      \<not> acyclic {(fe_parent_id e, fe_id e) | e. e \<in> set (sn_entries sn) \<and> fe_parent_id e \<noteq> 0 \<and>
         fe_parent_id e \<in> fe_id ` set (sn_entries sn)}"
  by (simp add: graph_pass_def Let_def dfs_finds_cycles has_errors_concat_map split: option.split) blast

subsection \<open>Accepted snapshots are trees\<close>

definition parent_of :: "snapshot \<Rightarrow> (entry_id \<times> entry_id) set" where
  "parent_of sn = {(fe_id e, fe_parent_id e) | e. e \<in> set (sn_entries sn) \<and> fe_parent_id e \<noteq> 0}"

text \<open>
  The directory tree a snapshot stands for: one root, and every other entry inside a directory of
  the snapshot, from which the root is reached by going up.
\<close>

definition directory_tree :: "snapshot \<Rightarrow> bool" where
  "directory_tree sn \<longleftrightarrow>
    distinct (map fe_id (sn_entries sn)) \<and> 0 \<notin> fe_id ` set (sn_entries sn) \<and>
    (\<exists>root\<in>set (sn_entries sn). fe_id root = sn_root_entry_id sn \<and>
       fe_type root = EntryType_Directory \<and> fe_parent_id root = 0) \<and>
    (\<forall>e\<in>set (sn_entries sn). fe_id e \<noteq> sn_root_entry_id sn \<longrightarrow>
       (\<exists>p\<in>set (sn_entries sn). fe_id p = fe_parent_id e \<and> fe_type p = EntryType_Directory)) \<and>
    (\<forall>e\<in>set (sn_entries sn). (fe_id e, sn_root_entry_id sn) \<in> (parent_of sn)\<^sup>*)"

definition snapshot_acceptable :: "snapshot \<Rightarrow> bool" where
  "snapshot_acceptable sn \<longleftrightarrow>
    sn_snapshot_id sn \<noteq> 0 \<and> schema_readable (sn_schema sn) \<and> sn_host_identifier sn \<noteq> [] \<and>
    distinct (map fe_normalized_path (sn_entries sn)) \<and> list_all path_acceptable (sn_entries sn) \<and>
    directory_tree sn"

lemma acyclic_up_reaches:
  assumes "finite P" "acyclic (P :: ('a \<times> 'a) set)" "\<And>x. x \<in> A \<Longrightarrow> x \<noteq> root \<Longrightarrow> \<exists>y\<in>A. (x, y) \<in> P"
  shows "x \<in> A \<Longrightarrow> (x, root) \<in> P\<^sup>*"
proof -
  have "wf (P\<inverse>)" using assms(1,2) by (intro finite_acyclic_wf) (simp_all add: acyclic_converse)
  then show "x \<in> A \<Longrightarrow> (x, root) \<in> P\<^sup>*"
  proof (induction x)
    case (less x)
    show ?case
    proof (cases "x = root")
      case False
      then obtain y where "y \<in> A" "(x, y) \<in> P" using assms(3) less.prems by blast
      then show ?thesis using less.IH [of y] by (auto intro: converse_rtrancl_into_rtrancl)
    qed simp
  qed
qed

lemma single_valued_reaches_acyclic:
  assumes sv: "single_valued P" and root: "root \<notin> Domain P"
    and reach: "\<And>x. x \<in> Domain P \<Longrightarrow> (x, root) \<in> P\<^sup>*"
  shows "acyclic P"
proof (rule acyclicI, rule allI, rule notI)
  fix a assume cyc: "(a, a) \<in> P\<^sup>+"
  have "(b, a) \<in> P\<^sup>+" if "(a, b) \<in> P\<^sup>*" for b
    using that
  proof (induction rule: rtrancl_induct)
    case (step b c)
    from step.IH obtain b' where "(b, b') \<in> P" "(b', a) \<in> P\<^sup>*" by (meson tranclD)
    then have "(c, a) \<in> P\<^sup>*" using step.hyps sv by (metis single_valuedD)
    then show ?case using cyc by simp
  qed (rule cyc)
  moreover have "a \<in> Domain P" using cyc by (meson tranclD Domain.DomainI)
  ultimately have "(root, a) \<in> P\<^sup>+" using reach by blast
  then show False using root by (meson tranclD Domain.DomainI)
qed

lemma distinct_map_eq: "distinct (map f xs) \<Longrightarrow> x \<in> set xs \<Longrightarrow> y \<in> set xs \<Longrightarrow> f x = f y \<Longrightarrow> x = y"
  by (metis distinct_map inj_onD)

lemma find_distinct:
  assumes "distinct (map f xs)"
  shows "find (\<lambda>x. f x = v) xs = Some x \<longleftrightarrow> x \<in> set xs \<and> f x = v"
  using assms by (induction xs) auto

lemma entry_index_distinct:
  assumes "distinct (map fe_id (sn_entries sn))"
  shows "build_entry_index sn i = Some p \<longleftrightarrow> p \<in> set (sn_entries sn) \<and> fe_id p = i"
proof
  assume "build_entry_index sn i = Some p"
  then show "p \<in> set (sn_entries sn) \<and> fe_id p = i" by (rule entry_index_Some)
next
  assume p: "p \<in> set (sn_entries sn) \<and> fe_id p = i"
  then have "build_entry_index sn i \<noteq> None" using entry_index_None [of sn i] by blast
  then obtain q where "build_entry_index sn i = Some q" by blast
  with entry_index_Some [OF this] p assms show "build_entry_index sn i = Some p"
    by (auto dest: distinct_map_eq)
qed

lemma single_valued_parent_of: "distinct (map fe_id (sn_entries sn)) \<Longrightarrow> single_valued (parent_of sn)"
  by (auto simp: single_valued_def parent_of_def dest: distinct_map_eq)

lemma finite_parent_of: "finite (parent_of sn)"
proof -
  have "parent_of sn \<subseteq> (\<lambda>e. (fe_id e, fe_parent_id e)) ` set (sn_entries sn)"
    by (auto simp: parent_of_def)
  then show ?thesis by (rule finite_subset) simp
qed

text \<open>The pieces of the tree that the identity, header and graph passes check.\<close>

definition tree_checks :: "snapshot \<Rightarrow> bool" where
  "tree_checks sn \<longleftrightarrow>
    distinct (map fe_id (sn_entries sn)) \<and>
    (\<forall>e\<in>set (sn_entries sn). fe_id e \<noteq> 0 \<and> (fe_id e \<noteq> sn_root_entry_id sn \<longrightarrow> fe_parent_id e \<noteq> 0)) \<and>
    (\<exists>root\<in>set (sn_entries sn). fe_id root = sn_root_entry_id sn \<and>
       fe_type root = EntryType_Directory \<and> fe_parent_id root = 0) \<and>
    (\<forall>e\<in>set (sn_entries sn). fe_id e \<noteq> sn_root_entry_id sn \<longrightarrow>
       (\<exists>p\<in>set (sn_entries sn). fe_id p = fe_parent_id e \<and> fe_type p = EntryType_Directory)) \<and>
    acyclic (parent_of sn)"

lemma directory_tree_checks: "directory_tree sn \<longleftrightarrow> tree_checks sn"
proof
  assume t: "directory_tree sn"
  then have d: "distinct (map fe_id (sn_entries sn))" and nz: "0 \<notin> fe_id ` set (sn_entries sn)"
    by (auto simp: directory_tree_def)
  obtain root where r: "root \<in> set (sn_entries sn)" "fe_id root = sn_root_entry_id sn" "fe_parent_id root = 0"
    using t by (auto simp: directory_tree_def)
  have "sn_root_entry_id sn \<notin> Domain (parent_of sn)"
    using r d by (auto simp: parent_of_def dest: distinct_map_eq)
  then have "acyclic (parent_of sn)"
    by (rule single_valued_reaches_acyclic [OF single_valued_parent_of [OF d]])
      (use t in \<open>auto simp: directory_tree_def parent_of_def\<close>)
  moreover have "fe_parent_id e \<noteq> 0" if "e \<in> set (sn_entries sn)" "fe_id e \<noteq> sn_root_entry_id sn" for e
    using t that nz unfolding directory_tree_def by (metis image_eqI)
  moreover have "fe_id e \<noteq> 0" if "e \<in> set (sn_entries sn)" for e
    using that nz by (metis image_eqI)
  ultimately show "tree_checks sn" using t unfolding directory_tree_def tree_checks_def by simp
next
  assume c: "tree_checks sn"
  have up: "\<exists>y\<in>fe_id ` set (sn_entries sn). (x, y) \<in> parent_of sn"
    if "x \<in> fe_id ` set (sn_entries sn)" "x \<noteq> sn_root_entry_id sn" for x
    using c that unfolding tree_checks_def parent_of_def by fastforce
  have "(fe_id e, sn_root_entry_id sn) \<in> (parent_of sn)\<^sup>*" if "e \<in> set (sn_entries sn)" for e
    using acyclic_up_reaches [OF finite_parent_of _ up] c that by (auto simp: tree_checks_def)
  then show "directory_tree sn" using c by (auto simp: tree_checks_def directory_tree_def)
qed

lemma acyclic_known_parents:
  assumes "\<forall>e\<in>set (sn_entries sn). fe_parent_id e \<noteq> 0 \<longrightarrow> fe_parent_id e \<in> fe_id ` set (sn_entries sn)"
  shows "acyclic {(fe_parent_id e, fe_id e) | e. e \<in> set (sn_entries sn) \<and> fe_parent_id e \<noteq> 0 \<and>
      fe_parent_id e \<in> fe_id ` set (sn_entries sn)} \<longleftrightarrow> acyclic (parent_of sn)"
proof -
  have "{(fe_parent_id e, fe_id e) | e. e \<in> set (sn_entries sn) \<and> fe_parent_id e \<noteq> 0 \<and>
      fe_parent_id e \<in> fe_id ` set (sn_entries sn)} = (parent_of sn)\<inverse>"
    using assms by (auto simp: parent_of_def)
  then show ?thesis by (simp only: acyclic_converse)
qed

lemma passes_tree:
  assumes d: "distinct (map fe_id (sn_entries sn))"
    and nz: "\<forall>e\<in>set (sn_entries sn). fe_id e \<noteq> 0 \<and> (fe_id e \<noteq> sn_root_entry_id sn \<longrightarrow> fe_parent_id e \<noteq> 0)"
    and root: "root \<in> set (sn_entries sn)" "fe_id root = sn_root_entry_id sn"
      "fe_type root = EntryType_Directory" "fe_parent_id root = 0"
  shows "\<not> has_errors (graph_pass sn) \<longleftrightarrow> directory_tree sn"
proof -
  have pc: "\<not> has_errors (parent_checks sn (build_entry_index sn) e) \<longleftrightarrow>
      (fe_id e \<noteq> sn_root_entry_id sn \<longrightarrow>
        (\<exists>p\<in>set (sn_entries sn). fe_id p = fe_parent_id e \<and> fe_type p = EntryType_Directory))"
    if "e \<in> set (sn_entries sn)" for e
    using that nz entry_index_distinct [OF d] by (auto simp: parent_checks_errors)
  have known: "fe_parent_id e \<in> fe_id ` set (sn_entries sn)"
    if all: "\<forall>e\<in>set (sn_entries sn). \<not> has_errors (parent_checks sn (build_entry_index sn) e)"
      and e: "e \<in> set (sn_entries sn)" "fe_parent_id e \<noteq> 0" for e
  proof -
    have "fe_id e \<noteq> sn_root_entry_id sn"
      using e root d by (metis distinct_map_eq)
    then obtain p where "p \<in> set (sn_entries sn)" "fe_id p = fe_parent_id e" using all e pc [OF e(1)] by blast
    then show ?thesis by (metis image_eqI)
  qed
  have "sn_entries sn \<noteq> []" using root(1) by auto
  note ge = graph_pass_errors [OF this]
  have "\<not> has_errors (graph_pass sn) \<longleftrightarrow>
      (\<forall>e\<in>set (sn_entries sn). \<not> has_errors (parent_checks sn (build_entry_index sn) e)) \<and> acyclic (parent_of sn)"
    using ge acyclic_known_parents [of sn] known by blast
  also have "\<dots> \<longleftrightarrow> tree_checks sn"
    using d nz root pc unfolding tree_checks_def by blast
  finally show ?thesis by (simp only: directory_tree_checks)
qed

lemma validate_snapshot_errors: "has_errors (validate_snapshot now sn) \<longleftrightarrow> \<not> snapshot_acceptable sn"
proof (cases "has_errors (header_pass sn) \<or> has_errors (identity_pass sn)")
  case True
  have "\<not> snapshot_acceptable sn"
  proof
    assume a: "snapshot_acceptable sn"
    then have t: "tree_checks sn" by (simp add: snapshot_acceptable_def directory_tree_checks)
    then have d: "distinct (map fe_id (sn_entries sn))" by (simp add: tree_checks_def)
    from t have "\<not> has_errors (identity_pass sn)" by (auto simp: identity_pass_errors tree_checks_def)
    moreover from t a have "\<not> has_errors (header_pass sn)"
      by (auto simp: header_pass_errors find_distinct [OF d] snapshot_acceptable_def tree_checks_def) 
    ultimately show False using True by blast
  qed
  then show ?thesis using True by (auto simp: validate_snapshot_def)
next
  case False
  then have d: "distinct (map fe_id (sn_entries sn))"
    and nz: "\<forall>e\<in>set (sn_entries sn). fe_id e \<noteq> 0 \<and> (fe_id e \<noteq> sn_root_entry_id sn \<longrightarrow> fe_parent_id e \<noteq> 0)"
    by (auto simp: identity_pass_errors)
  obtain root where root: "root \<in> set (sn_entries sn)" "fe_id root = sn_root_entry_id sn"
      "fe_type root = EntryType_Directory" "fe_parent_id root = 0"
    using False by (auto simp: header_pass_errors find_distinct [OF d])
  have "has_errors (validate_snapshot now sn) \<longleftrightarrow> has_errors (path_pass sn) \<or> has_errors (graph_pass sn)"
    using False by (simp add: validate_snapshot_def)
  also have "\<dots> \<longleftrightarrow> \<not> snapshot_acceptable sn"
    using False passes_tree [OF d nz root]
    by (auto simp: path_pass_def path_loop_errors snapshot_acceptable_def header_pass_errors)
  finally show ?thesis .
qed

subsection \<open>Properties\<close>

text \<open>
  C21: \<open>validate_snapshot\<close> reports an error exactly when the snapshot is not acceptable: identifiers
  and paths distinct, paths absolute and normalised, schema readable, and the entries a directory tree
  whose every entry leads up to the root.
\<close>

theorem snapshot_report_exact: "has_errors (validate_snapshot now_epoch sn) \<longleftrightarrow> \<not> snapshot_acceptable sn"
  by (rule validate_snapshot_errors)

text \<open>
  The colour search over all entries reports a cycle exactly when the parent relation among the
  entries has one.
\<close>

lemma cycle_search_exact:
  "has_errors (snd (dfs_roots sn (build_children_index sn) (initial_colors sn) (sn_entries sn))) \<longleftrightarrow>
    \<not> acyclic {(fe_parent_id e, fe_id e) | e. e \<in> set (sn_entries sn) \<and> fe_parent_id e \<noteq> 0 \<and>
       fe_parent_id e \<in> fe_id ` set (sn_entries sn)}"
  by (rule dfs_finds_cycles)

text \<open>
  C26: \<open>validate_delta\<close> reports an error exactly when the delta is not well formed or refers to
  entries the given base or target snapshot does not have.
\<close>

theorem delta_report_exact:
  "has_errors (validate_delta d base target) \<longleftrightarrow>
    \<not> (delta_well_formed d \<and> (case base of None \<Rightarrow> True | Some b \<Rightarrow> delta_fits_base d b) \<and>
       (case target of None \<Rightarrow> True | Some t \<Rightarrow> delta_fits_target d t))"
  by (auto simp: validate_delta_errors split: option.split)

end
