(* ===== verification/Hash.thy ===== *)
theory Hash imports Prelude begin

text \<open>
  The hash functions of \<open>src/backend/Muninn/utils/hash.hpp\<close>.  Only their values matter to the sources:
  nothing relies on a hash being free of collisions.
\<close>

definition kFnvOffsetBasis :: u64 where "kFnvOffsetBasis = 14695981039346656037"
definition kFnvPrime :: u64 where "kFnvPrime = 1099511628211"

definition fnv1a64 :: "string \<Rightarrow> u64" where
  "fnv1a64 data = fold (\<lambda>ch hash. (hash XOR ucast (of_char ch :: byte)) * kFnvPrime) data kFnvOffsetBasis"

definition combine_hash :: "u64 \<Rightarrow> u64 \<Rightarrow> u64" where
  "combine_hash seed v = seed XOR (v + 0x9e3779b97f4a7c15 + push_bit 6 seed + drop_bit 2 seed)"

lemma fnv1a64_Nil: "fnv1a64 [] = kFnvOffsetBasis"
  by (simp add: fnv1a64_def)

lemma fnv1a64_snoc: "fnv1a64 (s @ [c]) = (fnv1a64 s XOR ucast (of_char c :: byte)) * kFnvPrime"
  by (simp add: fnv1a64_def)

end
