(* ===== verification/DeltaEngine.thy ===== *)
theory DeltaEngine imports ValidationGraph Hash "HOL-Library.Product_Lexorder" begin

text \<open>
  The delta engine, \<open>src/backend/Muninn/snapshot/delta_engine.cpp\<close>: \<open>compute\<close> compares two snapshots
  entry by entry, pairs unmatched entries as renames by a fingerprint, and sorts the result; \<open>invert\<close>
  turns a delta around.  \<open>std::sort\<close> is a stable sort here: its order of equal elements is unspecified,
  and no lemma depends on it.
\<close>

subsection \<open>Fingerprints\<close>

record rename_fingerprint =
  rf_type :: entry_type
  rf_device_id :: u64
  rf_file_id :: u64
  rf_size_bytes :: u64
  rf_modified_at :: unix_timestamp
  rf_name_hash :: u64

definition make_rename_fingerprint :: "file_entry \<Rightarrow> rename_fingerprint" where
  "make_rename_fingerprint entry =
    (let md = fe_metadata entry;
         known = md_device_id md \<noteq> 0 \<and> md_file_id md \<noteq> 0
     in \<lparr>rf_type = fe_type entry,
         rf_device_id = (if known then md_device_id md else 0),
         rf_file_id = (if known then md_file_id md else 0),
         rf_size_bytes = md_size_bytes md,
         rf_modified_at = md_modified_at md,
         rf_name_hash = fnv1a64 (fe_name entry)\<rparr>)"

definition rename_fingerprint_hash :: "rename_fingerprint \<Rightarrow> u64" where
  "rename_fingerprint_hash f =
    (let seed = ucast (rf_type f);
         seed = combine_hash seed (rf_device_id f);
         seed = combine_hash seed (rf_file_id f);
         seed = combine_hash seed (rf_size_bytes f);
         seed = combine_hash seed (rf_modified_at f)
     in combine_hash seed (rf_name_hash f))"

subsection \<open>Index and order\<close>

text \<open>\<open>emplace\<close> keeps the first entry of an identifier.\<close>

definition index_by_id :: "snapshot \<Rightarrow> entry_id \<rightharpoonup> file_entry" where
  "index_by_id snapshot =
    fold (\<lambda>entry by_id. if fe_id entry \<in> dom by_id then by_id else by_id(fe_id entry \<mapsto> entry))
      (sn_entries snapshot) Map.empty"

definition entry_key :: "file_entry \<Rightarrow> string \<times> entry_id" where
  "entry_key e = (fe_normalized_path e, fe_id e)"

definition rename_key :: "renamed_entry \<Rightarrow> string \<times> string \<times> entry_id \<times> entry_id" where
  "rename_key r = (re_old_path r, re_new_path r, re_before_entry_id r, re_after_entry_id r)"

definition sort_delta :: "delta_snapshot \<Rightarrow> delta_snapshot" where
  "sort_delta delta = delta\<lparr>
    dl_added_entries := sort_key entry_key (dl_added_entries delta),
    dl_removed_entries := sort_key entry_key (dl_removed_entries delta),
    dl_modified_entries := sort_key me_entry_id (dl_modified_entries delta),
    dl_renamed_entries := sort_key rename_key (dl_renamed_entries delta)\<rparr>"

subsection \<open>Comparison of two snapshots\<close>

text \<open>One pass over the base snapshot: renames and modifications of matched entries, and the rest.\<close>

definition matched_rename :: "file_entry \<Rightarrow> file_entry \<Rightarrow> renamed_entry list" where
  "matched_rename base_entry target_entry =
    (if fe_normalized_path base_entry \<noteq> fe_normalized_path target_entry
     then [\<lparr>re_before_entry_id = fe_id base_entry, re_after_entry_id = fe_id target_entry,
       re_old_path = fe_normalized_path base_entry, re_new_path = fe_normalized_path target_entry\<rparr>]
     else [])"

definition matched_modification :: "file_entry \<Rightarrow> file_entry \<Rightarrow> modified_entry list" where
  "matched_modification base_entry target_entry =
    (if \<not> metadata_equals (fe_metadata base_entry) (fe_metadata target_entry) \<or>
        fe_type base_entry \<noteq> fe_type target_entry
     then [\<lparr>me_entry_id = fe_id target_entry, me_before = fe_metadata base_entry,
       me_after = fe_metadata target_entry\<rparr>]
     else [])"

fun compare_entries ::
  "(entry_id \<rightharpoonup> file_entry) \<Rightarrow> file_entry list \<Rightarrow>
    renamed_entry list \<times> modified_entry list \<times> file_entry list" where
  "compare_entries target_by_id [] = ([], [], [])"
| "compare_entries target_by_id (base_entry # es) =
    (let (renamed, modified, unmatched) = compare_entries target_by_id es
     in case target_by_id (fe_id base_entry) of
          None \<Rightarrow> (renamed, modified, base_entry # unmatched)
        | Some target_entry \<Rightarrow>
            (matched_rename base_entry target_entry @ renamed,
             matched_modification base_entry target_entry @ modified, unmatched))"

definition add_to_bucket ::
  "nat \<times> file_entry \<Rightarrow> (rename_fingerprint \<rightharpoonup> nat list) \<Rightarrow> (rename_fingerprint \<rightharpoonup> nat list)" where
  "add_to_bucket = (\<lambda>(i, entry) buckets.
    (let f = make_rename_fingerprint entry
     in buckets(f \<mapsto> (case buckets f of None \<Rightarrow> [] | Some is \<Rightarrow> is) @ [i])))"

definition fingerprint_buckets :: "file_entry list \<Rightarrow> rename_fingerprint \<rightharpoonup> nat list" where
  "fingerprint_buckets unmatched_added = fold add_to_bucket (enumerate 0 unmatched_added) Map.empty"

text \<open>
  The matching loop over the removed entries: \<open>consumed\<close> are the indices of the added entries already
  paired.  The result is the renames, the removed entries left over, and the consumed indices.
\<close>

fun match_removed ::
  "(rename_fingerprint \<rightharpoonup> nat list) \<Rightarrow> file_entry list \<Rightarrow> nat set \<Rightarrow> file_entry list \<Rightarrow>
    renamed_entry list \<times> file_entry list \<times> nat set" where
  "match_removed buckets added consumed [] = ([], [], consumed)"
| "match_removed buckets added consumed (removed # rs) =
    (case (case buckets (make_rename_fingerprint removed) of
             None \<Rightarrow> None
           | Some candidates \<Rightarrow> find (\<lambda>i. i \<notin> consumed) candidates) of
       None \<Rightarrow>
         (let (renames, left, consumed') = match_removed buckets added consumed rs
          in (renames, removed # left, consumed'))
     | Some i \<Rightarrow>
         (let (renames, left, consumed') = match_removed buckets added (insert i consumed) rs
          in (\<lparr>re_before_entry_id = fe_id removed, re_after_entry_id = fe_id (added ! i),
               re_old_path = fe_normalized_path removed, re_new_path = fe_normalized_path (added ! i)\<rparr>
              # renames, left, consumed')))"

definition compute_delta :: "bool \<Rightarrow> snapshot \<Rightarrow> snapshot \<Rightarrow> delta_snapshot" where
  "compute_delta enable_rename_heuristic base_snapshot target_snapshot =
    (let base_by_id = index_by_id base_snapshot;
         target_by_id = index_by_id target_snapshot;
         (renamed, modified, unmatched_removed) = compare_entries target_by_id (sn_entries base_snapshot);
         unmatched_added = filter (\<lambda>e. fe_id e \<notin> dom base_by_id) (sn_entries target_snapshot);
         (heuristic, removed, added) =
           (if enable_rename_heuristic then
              let unmatched_removed = sort_key fe_normalized_path unmatched_removed;
                  unmatched_added = sort_key fe_normalized_path unmatched_added;
                  (renames, left, consumed) =
                    match_removed (fingerprint_buckets unmatched_added) unmatched_added {} unmatched_removed
              in (renames, left, map snd (filter (\<lambda>(i, e). i \<notin> consumed) (enumerate 0 unmatched_added)))
            else ([], unmatched_removed, unmatched_added))
     in sort_delta \<lparr>dl_schema = kCurrentSchemaHeader,
          dl_base_snapshot_id = sn_snapshot_id base_snapshot,
          dl_target_snapshot_id = sn_snapshot_id target_snapshot,
          dl_added_entries = added, dl_removed_entries = removed, dl_modified_entries = modified,
          dl_renamed_entries = renamed @ heuristic\<rparr>)"

subsection \<open>Inversion\<close>

definition invert_modified :: "modified_entry \<Rightarrow> modified_entry" where
  "invert_modified m = \<lparr>me_entry_id = me_entry_id m, me_before = me_after m, me_after = me_before m\<rparr>"

definition invert_renamed :: "renamed_entry \<Rightarrow> renamed_entry" where
  "invert_renamed r = \<lparr>re_before_entry_id = re_after_entry_id r, re_after_entry_id = re_before_entry_id r,
    re_old_path = re_new_path r, re_new_path = re_old_path r\<rparr>"

definition invert_delta :: "delta_snapshot \<Rightarrow> delta_snapshot" where
  "invert_delta delta = sort_delta \<lparr>dl_schema = dl_schema delta,
    dl_base_snapshot_id = dl_target_snapshot_id delta,
    dl_target_snapshot_id = dl_base_snapshot_id delta,
    dl_added_entries = dl_removed_entries delta,
    dl_removed_entries = dl_added_entries delta,
    dl_modified_entries = map invert_modified (dl_modified_entries delta),
    dl_renamed_entries = map invert_renamed (dl_renamed_entries delta)\<rparr>"

subsection \<open>Index and comparison in closed form\<close>

lemma fold_first_id:
  "fold (\<lambda>e m. if fe_id e \<in> dom m then m else m(fe_id e \<mapsto> e)) es m i =
    (case m i of Some x \<Rightarrow> Some x | None \<Rightarrow> find (\<lambda>e. fe_id e = i) es)"
  by (induction es arbitrary: m) (auto split: option.splits)

lemma index_by_id_find: "index_by_id sn i = find (\<lambda>e. fe_id e = i) (sn_entries sn)"
  by (simp add: index_by_id_def fold_first_id)

lemma index_by_id_None: "index_by_id sn i = None \<longleftrightarrow> i \<notin> fe_id ` set (sn_entries sn)"
  by (auto simp: index_by_id_find find_None_iff)

lemma dom_index_by_id: "dom (index_by_id sn) = fe_id ` set (sn_entries sn)"
  by (auto simp: dom_def index_by_id_None domIff simp flip: not_None_eq)

lemma index_by_id_distinct:
  "distinct (map fe_id (sn_entries sn)) \<Longrightarrow>
    index_by_id sn i = Some e \<longleftrightarrow> e \<in> set (sn_entries sn) \<and> fe_id e = i"
  by (simp add: index_by_id_find find_distinct)

definition per_match :: "(entry_id \<rightharpoonup> file_entry) \<Rightarrow> (file_entry \<Rightarrow> file_entry \<Rightarrow> 'a list) \<Rightarrow> file_entry \<Rightarrow> 'a list" where
  "per_match T f b = (case T (fe_id b) of None \<Rightarrow> [] | Some t \<Rightarrow> f b t)"

lemma in_per_match: "x \<in> set (per_match T f b) \<longleftrightarrow> (\<exists>t. T (fe_id b) = Some t \<and> x \<in> set (f b t))"
  by (cases "T (fe_id b)") (simp_all add: per_match_def)

lemma compare_entries_eq:
  "compare_entries T es =
    (concat (map (per_match T matched_rename) es), concat (map (per_match T matched_modification) es),
     filter (\<lambda>b. T (fe_id b) = None) es)"
  by (induction es) (auto simp: per_match_def split: option.split)

subsection \<open>Pairs found by the heuristic\<close>

definition rename_of :: "file_entry \<Rightarrow> file_entry \<Rightarrow> renamed_entry" where
  "rename_of r a = \<lparr>re_before_entry_id = fe_id r, re_after_entry_id = fe_id a,
    re_old_path = fe_normalized_path r, re_new_path = fe_normalized_path a\<rparr>"

definition buckets_ok :: "(rename_fingerprint \<rightharpoonup> nat list) \<Rightarrow> file_entry list \<Rightarrow> bool" where
  "buckets_ok buckets added \<longleftrightarrow>
    (\<forall>f is. buckets f = Some is \<longrightarrow>
      (\<forall>i\<in>set is. i < length added \<and> make_rename_fingerprint (added ! i) = f))"

lemma buckets_okD:
  "buckets_ok buckets added \<Longrightarrow> buckets f = Some is \<Longrightarrow> i \<in> set is \<Longrightarrow>
    i < length added \<and> make_rename_fingerprint (added ! i) = f"
  unfolding buckets_ok_def by blast

lemma add_to_bucket_ok:
  assumes ok: "buckets_ok buckets added" and i: "i < length added" "added ! i = e"
  shows "buckets_ok (add_to_bucket (i, e) buckets) added"
  unfolding buckets_ok_def
proof (intro allI impI ballI)
  fix f "is" k
  assume "add_to_bucket (i, e) buckets f = Some is" and k: "k \<in> set is"
  then show "k < length added \<and> make_rename_fingerprint (added ! k) = f"
    using i buckets_okD [OF ok, of f]
    by (cases "buckets f") (auto simp: add_to_bucket_def Let_def split: if_splits)
qed

lemma fold_add_to_bucket_ok:
  "buckets_ok buckets added \<Longrightarrow> \<forall>p\<in>set ps. fst p < length added \<and> added ! fst p = snd p \<Longrightarrow>
    buckets_ok (fold add_to_bucket ps buckets) added"
proof (induction ps arbitrary: buckets)
  case (Cons p ps)
  have "buckets_ok (add_to_bucket (fst p, snd p) buckets) added"
    by (rule add_to_bucket_ok) (use Cons.prems in simp_all)
  then show ?case using Cons.IH [of "add_to_bucket p buckets"] Cons.prems(2) by simp
qed simp

lemma fingerprint_buckets_ok: "buckets_ok (fingerprint_buckets added) added"
  unfolding fingerprint_buckets_def
  by (rule fold_add_to_bucket_ok) (auto simp: buckets_ok_def in_set_enumerate_eq)

lemma match_removed_spec:
  assumes "buckets_ok buckets added"
  shows "match_removed buckets added consumed rs = (renames, left, consumed') \<Longrightarrow>
    \<exists>pairs. renames = map (\<lambda>(r, i). rename_of r (added ! i)) pairs \<and>
      mset (map fst pairs @ left) = mset rs \<and> distinct (map snd pairs) \<and>
      set (map snd pairs) \<inter> consumed = {} \<and> consumed' = consumed \<union> set (map snd pairs) \<and>
      (\<forall>(r, i)\<in>set pairs. i < length added \<and> make_rename_fingerprint r = make_rename_fingerprint (added ! i))"
proof (induction rs arbitrary: consumed renames left consumed')
  case Nil
  then show ?case by (intro exI [of _ "[]"]) simp
next
  case (Cons removed rs)
  let ?sel = "case buckets (make_rename_fingerprint removed) of
    None \<Rightarrow> None | Some candidates \<Rightarrow> find (\<lambda>i. i \<notin> consumed) candidates"
  show ?case
  proof (cases ?sel)
    case None
    obtain ren l c where rec: "match_removed buckets added consumed rs = (ren, l, c)" by (metis prod_cases3)
    with Cons.prems None have "renames = ren" "left = removed # l" "consumed' = c" by auto
    moreover obtain pairs where "ren = map (\<lambda>(r, i). rename_of r (added ! i)) pairs"
      "mset (map fst pairs @ l) = mset rs" "distinct (map snd pairs)" "set (map snd pairs) \<inter> consumed = {}"
      "c = consumed \<union> set (map snd pairs)"
      "\<forall>(r, i)\<in>set pairs. i < length added \<and> make_rename_fingerprint r = make_rename_fingerprint (added ! i)"
      using Cons.IH [OF rec] by blast
    ultimately show ?thesis by (intro exI [of _ pairs]) auto
  next
    case (Some i)
    obtain ren l c where rec: "match_removed buckets added (insert i consumed) rs = (ren, l, c)" by (metis prod_cases3)
    with Cons.prems Some have res: "renames = rename_of removed (added ! i) # ren" "left = l" "consumed' = c"
      by (auto simp: rename_of_def)
    obtain cands where b: "buckets (make_rename_fingerprint removed) = Some cands"
      and c: "i \<in> set cands" and new: "i \<notin> consumed"
      using Some by (auto simp: find_Some_iff split: option.splits)
    have i: "i < length added" "make_rename_fingerprint removed = make_rename_fingerprint (added ! i)"
      using buckets_okD [OF assms b c] by simp_all
    obtain pairs where "ren = map (\<lambda>(r, i). rename_of r (added ! i)) pairs"
      "mset (map fst pairs @ l) = mset rs" "distinct (map snd pairs)" "set (map snd pairs) \<inter> insert i consumed = {}"
      "c = insert i consumed \<union> set (map snd pairs)"
      "\<forall>(r, i)\<in>set pairs. i < length added \<and> make_rename_fingerprint r = make_rename_fingerprint (added ! i)"
      using Cons.IH [OF rec] by blast
    then show ?thesis using res i new by (intro exI [of _ "(removed, i) # pairs"]) auto
  qed
qed

lemma mset_picked_and_rest:
  assumes "distinct is" "set is \<subseteq> {..<length xs}"
  shows "mset (map ((!) xs) is @ map snd (filter (\<lambda>(i, e). i \<notin> set is) (enumerate 0 xs))) = mset xs"
proof -
  let ?in = "filter (\<lambda>(i, e). i \<in> set is) (enumerate 0 xs)"
  let ?out = "filter (\<lambda>(i, e). i \<notin> set is) (enumerate 0 xs)"
  have "set (map (\<lambda>i. (i, xs ! i)) is) = set ?in"
    using assms(2) by (auto simp: in_set_enumerate_eq)
  moreover have "distinct (map (\<lambda>i. (i, xs ! i)) is)"
    using assms(1) by (simp add: distinct_map inj_on_def)
  moreover have "distinct ?in" by (simp add: distinct_enumerate distinct_filter)
  ultimately have "mset (map (\<lambda>i. (i, xs ! i)) is) = mset ?in"
    using set_eq_iff_mset_eq_distinct by blast
  then have "mset (map snd (map (\<lambda>i. (i, xs ! i)) is)) = mset (map snd ?in)"
    by (simp only: mset_map)
  then have "mset (map ((!) xs) is) = mset (map snd ?in)" by (simp add: comp_def)
  moreover have "mset (map snd ?in) + mset (map snd ?out) = mset (map snd (enumerate 0 xs))"
    unfolding mset_map by (simp add: mset_filter case_prod_unfold flip: image_mset_union multiset_partition)
  ultimately show ?thesis by simp
qed

subsection \<open>What a computed delta holds\<close>

definition ids :: "snapshot \<Rightarrow> entry_id set" where
  "ids sn = fe_id ` set (sn_entries sn)"

definition only_in :: "snapshot \<Rightarrow> snapshot \<Rightarrow> file_entry list" where
  "only_in sn other = filter (\<lambda>e. fe_id e \<notin> ids other) (sn_entries sn)"

definition per_common :: "(file_entry \<Rightarrow> file_entry \<Rightarrow> 'a list) \<Rightarrow> snapshot \<Rightarrow> snapshot \<Rightarrow> 'a list" where
  "per_common f b t = concat (map (per_match (index_by_id t) f) (sn_entries b))"

text \<open>
  The delta before sorting: the unmatched entries are split into renamed pairs of equal fingerprint and
  the added and removed entries that are left.
\<close>

definition delta_of_pairs ::
  "snapshot \<Rightarrow> snapshot \<Rightarrow> (file_entry \<times> file_entry) list \<Rightarrow> file_entry list \<Rightarrow> file_entry list \<Rightarrow> delta_snapshot" where
  "delta_of_pairs b t pairs removed added = \<lparr>dl_schema = kCurrentSchemaHeader,
    dl_base_snapshot_id = sn_snapshot_id b, dl_target_snapshot_id = sn_snapshot_id t,
    dl_added_entries = added, dl_removed_entries = removed,
    dl_modified_entries = per_common matched_modification b t,
    dl_renamed_entries = per_common matched_rename b t @ map (\<lambda>(r, a). rename_of r a) pairs\<rparr>"

lemma compute_delta_parts:
  "\<exists>pairs removed added. compute_delta h b t = sort_delta (delta_of_pairs b t pairs removed added) \<and>
    mset (map fst pairs @ removed) = mset (only_in b t) \<and>
    mset (map snd pairs @ added) = mset (only_in t b) \<and>
    (\<forall>(r, a)\<in>set pairs. make_rename_fingerprint r = make_rename_fingerprint a) \<and> (\<not> h \<longrightarrow> pairs = [])"
proof -
  have rest: "filter (\<lambda>e. index_by_id t (fe_id e) = None) (sn_entries b) = only_in b t"
    "filter (\<lambda>e. fe_id e \<notin> dom (index_by_id b)) (sn_entries t) = only_in t b"
    by (simp_all add: only_in_def ids_def index_by_id_None dom_index_by_id)
  show ?thesis
  proof (cases h)
    case False
    then show ?thesis
      by (intro exI [of _ "[]"] exI [of _ "only_in b t"] exI [of _ "only_in t b"])
        (simp add: compute_delta_def compare_entries_eq rest delta_of_pairs_def per_common_def Let_def)
  next
    case True
    let ?rs = "sort_key fe_normalized_path (only_in b t)" and ?as = "sort_key fe_normalized_path (only_in t b)"
    obtain ren left c where m: "match_removed (fingerprint_buckets ?as) ?as {} ?rs = (ren, left, c)"
      by (metis prod_cases3)
    obtain ps where ps: "ren = map (\<lambda>(r, i). rename_of r (?as ! i)) ps"
      "mset (map fst ps @ left) = mset ?rs" "distinct (map snd ps)" "c = set (map snd ps)"
      "\<forall>(r, i)\<in>set ps. i < length ?as \<and> make_rename_fingerprint r = make_rename_fingerprint (?as ! i)"
      using match_removed_spec [OF fingerprint_buckets_ok m] by auto
    let ?pairs = "map (\<lambda>(r, i). (r, ?as ! i)) ps"
    let ?added = "map snd (filter (\<lambda>(i, e). i \<notin> c) (enumerate 0 ?as))"
    have "mset (map ((!) ?as) (map snd ps) @ ?added) = mset ?as"
      unfolding ps(4) by (rule mset_picked_and_rest [OF ps(3)]) (use ps(5) in auto)
    then have "mset (map snd ?pairs @ ?added) = mset (only_in t b)"
      by (simp add: comp_def case_prod_unfold)
    moreover have "mset (map fst ?pairs @ left) = mset (only_in b t)"
      using ps(2) by (simp add: comp_def case_prod_unfold)
    moreover have "compute_delta h b t = sort_delta (delta_of_pairs b t ?pairs left ?added)"
      using True m ps(1)
      by (simp add: compute_delta_def compare_entries_eq rest delta_of_pairs_def per_common_def Let_def
          comp_def case_prod_unfold)
    moreover have "\<forall>(r, a)\<in>set ?pairs. make_rename_fingerprint r = make_rename_fingerprint a"
      using ps(5) by auto
    ultimately show ?thesis using True by blast
  qed
qed

lemma in_per_common:
  assumes "distinct (map fe_id (sn_entries t))"
  shows "x \<in> set (per_common f b t) \<longleftrightarrow>
    (\<exists>e\<in>set (sn_entries b). \<exists>e'\<in>set (sn_entries t). fe_id e' = fe_id e \<and> x \<in> set (f e e'))"
  unfolding per_common_def by (auto simp: in_per_match index_by_id_distinct [OF assms])

lemma distinct_concat_map:
  assumes "distinct (map g es)" "\<And>e x. e \<in> set es \<Longrightarrow> x \<in> set (F e) \<Longrightarrow> k x = g e"
    "\<And>e. e \<in> set es \<Longrightarrow> distinct (map k (F e))"
  shows "distinct (map k (concat (map F es)))"
  using assms
proof (induction es)
  case (Cons e es)
  then have "k ` set (F e) \<inter> k ` set (concat (map F es)) = {}"
    by (fastforce simp: image_iff)
  then show ?case using Cons by simp
qed simp

text \<open>Keys of the operations on common entries, read off the base or the target entry.\<close>

lemma distinct_per_common_base:
  assumes "distinct (map g (sn_entries b))" "distinct (map fe_id (sn_entries t))"
    "\<And>e e' x. e \<in> set (sn_entries b) \<Longrightarrow> e' \<in> set (sn_entries t) \<Longrightarrow> fe_id e' = fe_id e \<Longrightarrow>
      x \<in> set (f e e') \<Longrightarrow> k x = g e"
    "\<And>e e'. length (f e e') \<le> 1"
  shows "distinct (map k (per_common f b t))"
  unfolding per_common_def
proof (rule distinct_concat_map [OF assms(1)])
  fix e x assume "e \<in> set (sn_entries b)" "x \<in> set (per_match (index_by_id t) f e)"
  then show "k x = g e"
    using assms(3) by (auto simp: in_per_match index_by_id_distinct [OF assms(2)])
next
  fix e
  have short: "length xs \<le> 1 \<Longrightarrow> distinct (map k xs)" for xs by (cases xs) auto
  show "distinct (map k (per_match (index_by_id t) f e))"
    using assms(4) short by (simp add: per_match_def split: option.split)
qed

lemma short_operations [simp]:
  "length (matched_rename e e') \<le> Suc 0" "length (matched_modification e e') \<le> Suc 0"
  by (simp_all add: matched_rename_def matched_modification_def)

subsection \<open>A computed delta is well formed and fits both snapshots\<close>

lemma set_only_in: "set (only_in sn other) = {e \<in> set (sn_entries sn). fe_id e \<notin> ids other}"
  by (auto simp: only_in_def)

lemma distinct_map_only_in: "distinct (map f (sn_entries sn)) \<Longrightarrow> distinct (map f (only_in sn other))"
  unfolding only_in_def by (rule distinct_map_filter)

lemma distinct_split:
  assumes "mset (xs @ ys) = mset zs" "distinct (map f zs)"
  shows "distinct (map f xs)" "distinct (map f ys)" "f ` set xs \<inter> f ` set ys = {}" "set xs \<union> set ys = set zs"
proof -
  have "mset (map f (xs @ ys)) = mset (map f zs)" using assms(1) by (simp only: mset_map)
  then have "distinct (map f (xs @ ys))" using assms(2) by (metis mset_eq_imp_distinct_iff)
  then show "distinct (map f xs)" "distinct (map f ys)" "f ` set xs \<inter> f ` set ys = {}" by auto
  show "set xs \<union> set ys = set zs" using mset_eq_setD [OF assms(1)] by simp
qed

definition renames_of :: "snapshot \<Rightarrow> snapshot \<Rightarrow> (file_entry \<times> file_entry) list \<Rightarrow> renamed_entry list" where
  "renames_of b t pairs = per_common matched_rename b t @ map (\<lambda>(r, a). rename_of r a) pairs"

lemma in_matched_rename:
  "x \<in> set (matched_rename e e') \<Longrightarrow> x = rename_of e e' \<and> fe_normalized_path e \<noteq> fe_normalized_path e'"
  by (auto simp: matched_rename_def rename_of_def split: if_splits)

lemma in_matched_modification:
  "x \<in> set (matched_modification e e') \<longleftrightarrow>
    (fe_metadata e \<noteq> fe_metadata e' \<or> fe_type e \<noteq> fe_type e') \<and>
    x = \<lparr>me_entry_id = fe_id e', me_before = fe_metadata e, me_after = fe_metadata e'\<rparr>"
  by (auto simp: matched_modification_def)

definition comparable :: "snapshot \<Rightarrow> snapshot \<Rightarrow> bool" where
  "comparable b t \<longleftrightarrow> distinct (map fe_id (sn_entries b)) \<and> distinct (map fe_id (sn_entries t)) \<and>
    distinct (map fe_normalized_path (sn_entries t))"

definition delta_split ::
  "snapshot \<Rightarrow> snapshot \<Rightarrow> (file_entry \<times> file_entry) list \<Rightarrow> file_entry list \<Rightarrow> file_entry list \<Rightarrow> bool" where
  "delta_split b t pairs removed added \<longleftrightarrow>
    mset (map fst pairs @ removed) = mset (only_in b t) \<and> mset (map snd pairs @ added) = mset (only_in t b)"

lemma delta_split_removed:
  assumes "delta_split b t pairs removed added" "comparable b t"
  shows "distinct (map fe_id (map fst pairs))" "distinct (map fe_id removed)"
    "fe_id ` fst ` set pairs \<inter> fe_id ` set removed = {}"
    "fst ` set pairs \<union> set removed = {e \<in> set (sn_entries b). fe_id e \<notin> ids t}"
  using distinct_split [of "map fst pairs" removed "only_in b t" fe_id] assms
    distinct_map_only_in [of fe_id b t]
  by (simp_all add: delta_split_def comparable_def set_only_in image_image)

lemma delta_split_added:
  assumes "delta_split b t pairs removed added" "comparable b t"
  shows "distinct (map fe_id (map snd pairs))" "distinct (map fe_id added)"
    "fe_id ` snd ` set pairs \<inter> fe_id ` set added = {}"
    "snd ` set pairs \<union> set added = {e \<in> set (sn_entries t). fe_id e \<notin> ids b}"
    "distinct (map fe_normalized_path (map snd pairs))"
  using distinct_split [of "map snd pairs" added "only_in t b" fe_id]
    distinct_split [of "map snd pairs" added "only_in t b" fe_normalized_path] assms
    distinct_map_only_in [of fe_id t b] distinct_map_only_in [of fe_normalized_path t b]
  by (simp_all add: delta_split_def comparable_def set_only_in image_image)

lemma distinct_append_map:
  "distinct (map f xs) \<Longrightarrow> distinct (map f ys) \<Longrightarrow> f ` set xs \<inter> f ` set ys = {} \<Longrightarrow> distinct (map f (xs @ ys))"
  by simp

lemma rename_of_sel [simp]:
  "re_before_entry_id (rename_of r a) = fe_id r" "re_after_entry_id (rename_of r a) = fe_id a"
  "re_old_path (rename_of r a) = fe_normalized_path r" "re_new_path (rename_of r a) = fe_normalized_path a"
  by (simp_all add: rename_of_def)

lemma map_rename_pairs:
  "map re_before_entry_id (map (\<lambda>(r, a). rename_of r a) pairs) = map fe_id (map fst pairs)"
  "map re_after_entry_id (map (\<lambda>(r, a). rename_of r a) pairs) = map fe_id (map snd pairs)"
  "map re_new_path (map (\<lambda>(r, a). rename_of r a) pairs) = map fe_normalized_path (map snd pairs)"
  by (auto simp: case_prod_unfold)

lemma in_renames_of:
  assumes "comparable b t"
  shows "x \<in> set (renames_of b t pairs) \<longleftrightarrow>
    (\<exists>e\<in>set (sn_entries b). \<exists>e'\<in>set (sn_entries t). fe_id e' = fe_id e \<and>
       fe_normalized_path e \<noteq> fe_normalized_path e' \<and> x = rename_of e e') \<or>
    (\<exists>(r, a)\<in>set pairs. x = rename_of r a)"
proof -
  have "distinct (map fe_id (sn_entries t))" using assms by (simp add: comparable_def)
  from in_per_common [OF this, of x matched_rename b] show ?thesis
    by (auto simp: renames_of_def matched_rename_def rename_of_def image_iff split: if_splits) 
qed

lemma common_keys:
  assumes "comparable b t"
  shows "distinct (map re_before_entry_id (per_common matched_rename b t))"
    "distinct (map re_after_entry_id (per_common matched_rename b t))"
    "distinct (map me_entry_id (per_common matched_modification b t))"
  using assms
  by (auto simp: comparable_def in_matched_modification intro!: distinct_per_common_base [of fe_id]
      dest!: in_matched_rename)

lemma idsI: "e \<in> set (sn_entries sn) \<Longrightarrow> fe_id e \<in> ids sn"
  by (simp add: ids_def)

lemma common_rename_ids:
  assumes "comparable b t" "x \<in> set (per_common matched_rename b t)"
  shows "re_before_entry_id x \<in> ids b \<and> re_before_entry_id x \<in> ids t \<and> re_after_entry_id x = re_before_entry_id x"
proof -
  have "distinct (map fe_id (sn_entries t))" using assms(1) by (simp add: comparable_def)
  from assms(2) [unfolded in_per_common [OF this]] obtain e e' where
    e: "e \<in> set (sn_entries b)" "e' \<in> set (sn_entries t)" "fe_id e' = fe_id e" "x \<in> set (matched_rename e e')"
    by (elim bexE conjE)
  then have "x = rename_of e e'" using in_matched_rename by blast
  then show ?thesis using idsI [OF e(1)] idsI [OF e(2)] e(3) by simp
qed

lemma common_modification_ids:
  assumes "comparable b t" "x \<in> set (per_common matched_modification b t)"
  shows "me_entry_id x \<in> ids b \<and> me_entry_id x \<in> ids t"
proof -
  have "distinct (map fe_id (sn_entries t))" using assms(1) by (simp add: comparable_def)
  from assms(2) [unfolded in_per_common [OF this]] obtain e e' where
    e: "e \<in> set (sn_entries b)" "e' \<in> set (sn_entries t)" "fe_id e' = fe_id e" "x \<in> set (matched_modification e e')"
    by (elim bexE conjE)
  then have "me_entry_id x = fe_id e'" by (simp add: in_matched_modification)
  then show ?thesis using idsI [OF e(1)] idsI [OF e(2)] e(3) by simp
qed

lemma delta_split_pairs:
  assumes "delta_split b t pairs removed added" "comparable b t" "(r, a) \<in> set pairs"
  shows "r \<in> set (sn_entries b) \<and> fe_id r \<notin> ids t \<and> a \<in> set (sn_entries t) \<and> fe_id a \<notin> ids b"
proof -
  have "r \<in> fst ` set pairs" "a \<in> snd ` set pairs" using assms(3) by force+
  then show ?thesis
    using delta_split_removed(4) [OF assms(1,2)] delta_split_added(4) [OF assms(1,2)] by blast
qed

lemma distinct_renames:
  assumes split: "delta_split b t pairs removed added" and c: "comparable b t"
  shows "distinct (map re_before_entry_id (renames_of b t pairs))"
    "distinct (map re_after_entry_id (renames_of b t pairs))"
    "distinct (map re_new_path (renames_of b t pairs))"
proof -
  note r = delta_split_removed [OF split c] and a = delta_split_added [OF split c]
  have sets: "re_before_entry_id ` set (per_common matched_rename b t) \<subseteq> ids t"
    "re_after_entry_id ` set (per_common matched_rename b t) \<subseteq> ids b"
    "fe_id ` set (map fst pairs) \<inter> ids t = {}" "fe_id ` set (map snd pairs) \<inter> ids b = {}"
    using common_rename_ids [OF c] delta_split_pairs [OF split c] by auto
  let ?rs = "map (\<lambda>(r, a). rename_of r a) pairs"
  have img: "re_before_entry_id ` set ?rs = fe_id ` set (map fst pairs)"
    "re_after_entry_id ` set ?rs = fe_id ` set (map snd pairs)"
    by (simp_all add: image_image case_prod_unfold)
  show 1: "distinct (map re_before_entry_id (renames_of b t pairs))"
    unfolding renames_of_def
    by (rule distinct_append_map; (unfold map_rename_pairs img)?) (use common_keys [OF c] r(1) sets in blast)+
  show 2: "distinct (map re_after_entry_id (renames_of b t pairs))"
    unfolding renames_of_def
    by (rule distinct_append_map; (unfold map_rename_pairs img)?) (use common_keys [OF c] a(1) sets in blast)+
  have target: "\<exists>e\<in>set (sn_entries t). re_after_entry_id x = fe_id e \<and> re_new_path x = fe_normalized_path e"
    if "x \<in> set (renames_of b t pairs)" for x
    using that [unfolded in_renames_of [OF c]]
  proof (elim disjE bexE conjE)
    fix e e' assume "e' \<in> set (sn_entries t)" "x = rename_of e e'"
    then show ?thesis by (intro bexI [of _ e']) simp_all
  next
    fix p assume "p \<in> set pairs" "case p of (r, a) \<Rightarrow> x = rename_of r a"
    then show ?thesis using delta_split_pairs [OF split c, of "fst p" "snd p"]
      by (intro bexI [of _ "snd p"]) (simp_all add: case_prod_unfold)
  qed
  have "inj_on re_new_path (set (renames_of b t pairs))"
  proof (rule inj_onI)
    fix x y assume x: "x \<in> set (renames_of b t pairs)" and y: "y \<in> set (renames_of b t pairs)"
      and eq: "re_new_path x = re_new_path y"
    obtain e e' where "e \<in> set (sn_entries t)" "re_after_entry_id x = fe_id e" "re_new_path x = fe_normalized_path e"
      "e' \<in> set (sn_entries t)" "re_after_entry_id y = fe_id e'" "re_new_path y = fe_normalized_path e'"
      using target [OF x] target [OF y] by blast
    moreover from this have "e = e'" using eq c distinct_map_eq [of fe_normalized_path "sn_entries t" e e']
      by (simp add: comparable_def)
    ultimately show "x = y" using 2 x y distinct_map_eq [of re_after_entry_id] by metis
  qed
  then show "distinct (map re_new_path (renames_of b t pairs))"
    using 1 by (simp add: distinct_map)
qed

lemma disjoint_mono: "A \<subseteq> C \<Longrightarrow> B \<subseteq> D \<Longrightarrow> C \<inter> D = {} \<Longrightarrow> A \<inter> B = {}"
  by blast

lemma delta_of_pairs_valid:
  assumes split: "delta_split b t pairs removed added" and c: "comparable b t"
    and nz: "sn_snapshot_id b \<noteq> 0" "sn_snapshot_id t \<noteq> 0"
  defines "d \<equiv> sort_delta (delta_of_pairs b t pairs removed added)"
  shows "delta_well_formed d \<and> delta_fits_base d b \<and> delta_fits_target d t"
proof -
  note r = delta_split_removed [OF split c] and a = delta_split_added [OF split c]
  have ren: "dl_renamed_entries d = sort_key rename_key (renames_of b t pairs)"
    by (simp add: d_def sort_delta_def delta_of_pairs_def renames_of_def)
  have sub: "set removed \<subseteq> set (sn_entries b)" "set added \<subseteq> set (sn_entries t)"
    "fe_id ` set removed \<inter> ids t = {}" "fe_id ` set added \<inter> ids b = {}"
    using r(4) a(4) by auto
  have sub_ids: "fe_id ` set removed \<subseteq> ids b" "fe_id ` set added \<subseteq> ids t"
    using sub(1,2) by (auto simp: ids_def)
  have mods_base: "me_entry_id ` set (per_common matched_modification b t) \<subseteq> ids b"
    and mods_target: "me_entry_id ` set (per_common matched_modification b t) \<subseteq> ids t"
    using common_modification_ids [OF c] by (intro image_subsetI; blast)+
  have before: "re_before_entry_id x \<in> ids b" and after: "re_after_entry_id x \<in> ids t"
    if "x \<in> set (renames_of b t pairs)" for x
    using that common_rename_ids [OF c, of x] delta_split_pairs [OF split c] idsI
    by (auto simp: renames_of_def)
  have parts: "dl_base_snapshot_id d = sn_snapshot_id b" "dl_target_snapshot_id d = sn_snapshot_id t"
    "set (dl_added_entries d) = set added" "set (dl_removed_entries d) = set removed"
    "dl_modified_entries d = sort_key me_entry_id (per_common matched_modification b t)"
    "distinct (map fe_id (dl_added_entries d)) = distinct (map fe_id added)"
    "distinct (map fe_id (dl_removed_entries d)) = distinct (map fe_id removed)"
    by (simp_all add: d_def sort_delta_def delta_of_pairs_def)
  have dist: "distinct (map re_before_entry_id (renames_of b t pairs))"
    "distinct (map re_after_entry_id (renames_of b t pairs))"
    "distinct (map re_new_path (renames_of b t pairs))"
    using distinct_renames [OF split c] by blast+
  have disj: "fe_id ` set added \<inter> fe_id ` set removed = {}"
    "fe_id ` set added \<inter> me_entry_id ` set (per_common matched_modification b t) = {}"
    "fe_id ` set removed \<inter> me_entry_id ` set (per_common matched_modification b t) = {}"
    using disjoint_mono [OF subset_refl sub_ids(1) sub(4)] disjoint_mono [OF subset_refl mods_base sub(4)]
      disjoint_mono [OF subset_refl mods_target sub(3)] by simp_all
  have "delta_well_formed d"
    unfolding delta_well_formed_def ren parts distinct_map_sort_key set_map set_sort
    using dist disj r(2) a(2) common_keys(3) [OF c] nz by (intro conjI) assumption+
  moreover have "delta_fits_base d b"
    unfolding delta_fits_base_def ren parts set_map set_sort ids_def [symmetric]
    by (intro Un_least image_subsetI) (use before sub_ids(1) mods_base in auto)
  moreover have "delta_fits_target d t"
    unfolding delta_fits_target_def ren parts set_map set_sort ids_def [symmetric]
    by (intro Un_least image_subsetI) (use after sub_ids(2) mods_target in auto)
  ultimately show ?thesis by blast
qed

lemma snapshot_acceptable_comparable:
  "snapshot_acceptable b \<Longrightarrow> snapshot_acceptable t \<Longrightarrow> comparable b t"
  by (simp add: snapshot_acceptable_def comparable_def directory_tree_def)

lemma compute_delta_valid:
  assumes "comparable b t" "sn_snapshot_id b \<noteq> 0" "sn_snapshot_id t \<noteq> 0"
  shows "\<not> has_errors (validate_delta (compute_delta h b t) (Some b) (Some t))"
proof -
  obtain pairs removed added where p: "compute_delta h b t = sort_delta (delta_of_pairs b t pairs removed added)"
    "delta_split b t pairs removed added"
    using compute_delta_parts [of h b t] unfolding delta_split_def by blast
  show ?thesis
    using delta_of_pairs_valid [OF p(2) assms] unfolding p(1) validate_delta_errors by simp
qed


subsection \<open>Inversion undoes itself\<close>

lemma sort_key_of_map: "(\<And>x. k (g x) = k x) \<Longrightarrow> sort_key k (map g xs) = map g (sort_key k xs)"
proof (induction xs)
  case (Cons x xs)
  have "insort_key k (g x) (map g ys) = map g (insort_key k x ys)" for ys
    by (induction ys) (simp_all add: Cons.prems)
  with Cons show ?case by simp
qed simp

lemma invert_involutive [simp]:
  "invert_modified (invert_modified m) = m" "invert_renamed (invert_renamed r) = r"
  by (simp_all add: invert_modified_def invert_renamed_def)

lemma invert_comp [simp]:
  "invert_modified \<circ> invert_modified = id" "invert_renamed \<circ> invert_renamed = id"
  by (simp_all add: fun_eq_iff)

lemma inj_rename_key: "inj_on rename_key A"
  by (auto simp: inj_on_def rename_key_def intro: renamed_entry.equality)

lemma sort_renames_cong: "mset xs = mset ys \<Longrightarrow> sort_key rename_key xs = sort_key rename_key ys"
  by (rule sort_key_inj_key_eq) (simp_all add: inj_rename_key)

lemma sort_sort_key [simp]: "sort_key k (sort_key k xs) = sort_key k xs"
  by (simp add: sort_key_id_if_sorted)

lemma invert_sorted_renames:
  "sort_key rename_key (map invert_renamed (sort_key rename_key (map invert_renamed rs))) = sort_key rename_key rs"
  by (rule sort_renames_cong) (simp only: mset_map mset_sort image_mset.compositionality invert_comp, simp)

lemma sort_delta_fields:
  "sort_delta d = \<lparr>dl_schema = dl_schema d, dl_base_snapshot_id = dl_base_snapshot_id d,
    dl_target_snapshot_id = dl_target_snapshot_id d,
    dl_added_entries = sort_key entry_key (dl_added_entries d),
    dl_removed_entries = sort_key entry_key (dl_removed_entries d),
    dl_modified_entries = sort_key me_entry_id (dl_modified_entries d),
    dl_renamed_entries = sort_key rename_key (dl_renamed_entries d)\<rparr>"
  by (simp add: sort_delta_def)

lemma invert_modified_key [simp]: "me_entry_id (invert_modified m) = me_entry_id m"
  by (simp add: invert_modified_def)

lemma invert_invert: "invert_delta (invert_delta d) = sort_delta d"
  by (simp add: invert_delta_def sort_delta_fields sort_key_of_map invert_sorted_renames)

lemma sort_compute [simp]: "sort_delta (compute_delta h b t) = compute_delta h b t"
  using compute_delta_parts [of h b t] by (auto simp: sort_delta_fields)

subsection \<open>Comparison the other way round\<close>

lemma mset_of_keys:
  assumes "distinct (map k xs)" "distinct (map k ys)" "set xs = set ys"
  shows "mset xs = mset ys"
  using assms by (simp add: distinct_map set_eq_iff_mset_eq_distinct [symmetric])

lemma rename_of_flip: "invert_renamed (rename_of e e') = rename_of e' e"
  by (simp add: rename_of_def invert_renamed_def)

lemma matched_rename_flip: "matched_rename e' e = map invert_renamed (matched_rename e e')"
  by (simp add: matched_rename_def invert_renamed_def)

lemma matched_modification_flip:
  "fe_id e' = fe_id e \<Longrightarrow> matched_modification e' e = map invert_modified (matched_modification e e')"
  by (auto simp: matched_modification_def invert_modified_def)

lemma per_common_flip:
  assumes "comparable b t" "comparable t b"
    and flip: "\<And>e e'. fe_id e' = fe_id e \<Longrightarrow> f e' e = map g (f e e')"
  shows "set (per_common f t b) = g ` set (per_common f b t)"
proof -
  have d: "distinct (map fe_id (sn_entries b))" "distinct (map fe_id (sn_entries t))"
    using assms by (simp_all add: comparable_def)
  show ?thesis
  proof (intro equalityI subsetI)
    fix x assume "x \<in> set (per_common f t b)"
    then obtain e e' where e: "e \<in> set (sn_entries t)" "e' \<in> set (sn_entries b)" "fe_id e' = fe_id e"
      "x \<in> set (f e e')" unfolding in_per_common [OF d(1)] by blast
    then obtain y where y: "x = g y" "y \<in> set (f e' e)" using flip [of e e'] by auto
    then have "y \<in> set (per_common f b t)" unfolding in_per_common [OF d(2)] using e by metis
    then show "x \<in> g ` set (per_common f b t)" using y by blast
  next
    fix x assume "x \<in> g ` set (per_common f b t)"
    then obtain y where y: "x = g y" "y \<in> set (per_common f b t)" by blast
    then obtain e e' where e: "e \<in> set (sn_entries b)" "e' \<in> set (sn_entries t)" "fe_id e' = fe_id e"
      "y \<in> set (f e e')" unfolding in_per_common [OF d(2)] by blast
    then have "x \<in> set (f e' e)" using flip [of e' e] y by auto
    then show "x \<in> set (per_common f t b)" unfolding in_per_common [OF d(1)] using e by metis
  qed
qed

lemma compute_without_heuristic:
  "compute_delta False b t = sort_delta (delta_of_pairs b t [] (only_in b t) (only_in t b))"
proof -
  have "filter (\<lambda>e. index_by_id t (fe_id e) = None) (sn_entries b) = only_in b t"
    "filter (\<lambda>e. fe_id e \<notin> dom (index_by_id b)) (sn_entries t) = only_in t b"
    by (simp_all add: only_in_def ids_def index_by_id_None dom_index_by_id)
  then show ?thesis
    by (simp add: compute_delta_def compare_entries_eq delta_of_pairs_def per_common_def Let_def)
qed

lemma common_renames_flip:
  assumes "comparable b t" "comparable t b"
  shows "mset (per_common matched_rename t b) = mset (map invert_renamed (per_common matched_rename b t))"
proof (rule mset_of_keys [where k = re_before_entry_id])
  show "distinct (map re_before_entry_id (per_common matched_rename t b))" by (rule common_keys [OF assms(2)])
  show "distinct (map re_before_entry_id (map invert_renamed (per_common matched_rename b t)))"
    using common_keys(2) [OF assms(1)] by (simp add: comp_def invert_renamed_def)
  show "set (per_common matched_rename t b) = set (map invert_renamed (per_common matched_rename b t))"
    using per_common_flip [OF assms matched_rename_flip] by simp
qed

lemma common_modifications_flip:
  assumes "comparable b t" "comparable t b"
  shows "sort_key me_entry_id (per_common matched_modification t b) =
    sort_key me_entry_id (map invert_modified (per_common matched_modification b t))"
proof (rule sort_key_inj_key_eq)
  let ?l = "per_common matched_modification t b"
  show "inj_on me_entry_id (set ?l)"
    using common_keys(3) [OF assms(2)] by (simp add: distinct_map)
  have "mset ?l = mset (map invert_modified (per_common matched_modification b t))"
  proof (rule mset_of_keys [where k = me_entry_id])
    show "distinct (map me_entry_id ?l)" by (rule common_keys [OF assms(2)])
    show "distinct (map me_entry_id (map invert_modified (per_common matched_modification b t)))"
      using common_keys(3) [OF assms(1)] by (simp add: comp_def)
    show "set ?l = set (map invert_modified (per_common matched_modification b t))"
      using per_common_flip [OF assms matched_modification_flip] by simp
  qed
  then show "mset ?l = mset (sort_key me_entry_id (map invert_modified (per_common matched_modification b t)))"
    by simp
qed simp

lemma compute_flip:
  assumes "comparable b t" "comparable t b"
  shows "compute_delta False t b = invert_delta (compute_delta False b t)"
proof -
  have "sort_key rename_key (per_common matched_rename t b) =
    sort_key rename_key (map invert_renamed (sort_key rename_key (per_common matched_rename b t)))"
    by (rule sort_renames_cong) (simp add: common_renames_flip [OF assms])
  then show ?thesis
    by (simp add: compute_without_heuristic invert_delta_def sort_delta_fields delta_of_pairs_def
        common_modifications_flip [OF assms] sort_key_of_map)
qed


subsection \<open>A delta without operations\<close>

definition delta_empty :: "delta_snapshot \<Rightarrow> bool" where
  "delta_empty d \<longleftrightarrow> dl_added_entries d = [] \<and> dl_removed_entries d = [] \<and>
    dl_modified_entries d = [] \<and> dl_renamed_entries d = []"

text \<open>The part of an entry the delta engine looks at.\<close>

definition entry_view :: "file_entry \<Rightarrow> string \<times> entry_type \<times> file_metadata" where
  "entry_view e = (fe_normalized_path e, fe_type e, fe_metadata e)"

definition same_view :: "snapshot \<Rightarrow> snapshot \<Rightarrow> bool" where
  "same_view b t \<longleftrightarrow> ids b = ids t \<and>
    (\<forall>e\<in>set (sn_entries b). \<forall>e'\<in>set (sn_entries t). fe_id e' = fe_id e \<longrightarrow> entry_view e' = entry_view e)"

lemma sort_key_empty [simp]: "sort_key k xs = [] \<longleftrightarrow> xs = []"
  by (metis length_0_conv length_sort)

lemma nil_iff: "xs = [] \<longleftrightarrow> (\<forall>x. x \<notin> set xs)"
  by (cases xs) auto

lemma per_common_empty:
  assumes "comparable b t"
  shows "per_common f b t = [] \<longleftrightarrow>
    (\<forall>e\<in>set (sn_entries b). \<forall>e'\<in>set (sn_entries t). fe_id e' = fe_id e \<longrightarrow> f e e' = [])"
proof -
  have d: "distinct (map fe_id (sn_entries t))" using assms by (simp add: comparable_def)
  show ?thesis unfolding nil_iff in_per_common [OF d] by blast
qed

lemma only_in_empty: "only_in sn other = [] \<longleftrightarrow> ids sn \<subseteq> ids other"
  by (auto simp: only_in_def ids_def filter_empty_conv)

lemma pairs_empty:
  "mset (map f pairs @ rest) = mset xs \<Longrightarrow> pairs = [] \<Longrightarrow> rest = [] \<longleftrightarrow> xs = []"
  by auto

lemma compute_delta_empty:
  assumes "comparable b t"
  shows "delta_empty (compute_delta h b t) \<longleftrightarrow> same_view b t"
proof -
  obtain pairs removed added where p: "compute_delta h b t = sort_delta (delta_of_pairs b t pairs removed added)"
    "mset (map fst pairs @ removed) = mset (only_in b t)" "mset (map snd pairs @ added) = mset (only_in t b)"
    using compute_delta_parts [of h b t] by blast
  have rest: "pairs = [] \<and> removed = [] \<and> added = [] \<longleftrightarrow> only_in b t = [] \<and> only_in t b = []"
    using p(2,3) by (cases "pairs = []") auto
  have "delta_empty (compute_delta h b t) \<longleftrightarrow> (pairs = [] \<and> removed = [] \<and> added = []) \<and>
    per_common matched_modification b t = [] \<and> per_common matched_rename b t = []"
    unfolding p(1) by (auto simp: delta_empty_def sort_delta_fields delta_of_pairs_def)
  also have "\<dots> \<longleftrightarrow> ids b = ids t \<and> per_common matched_modification b t = [] \<and> per_common matched_rename b t = []"
    unfolding rest only_in_empty by blast
  also have "\<dots> \<longleftrightarrow> same_view b t"
  proof -
    have "matched_modification e e' = [] \<and> matched_rename e e' = [] \<longleftrightarrow> entry_view e' = entry_view e" for e e'
      by (auto simp: matched_modification_def matched_rename_def entry_view_def)
    then show ?thesis unfolding per_common_empty [OF assms] same_view_def by blast
  qed
  finally show ?thesis .
qed

subsection \<open>The identifiers a delta accounts for\<close>

lemma image_renames_pairs:
  "re_before_entry_id ` set (renames_of b t pairs) =
     re_before_entry_id ` set (per_common matched_rename b t) \<union> fe_id ` fst ` set pairs"
  "re_after_entry_id ` set (renames_of b t pairs) =
     re_after_entry_id ` set (per_common matched_rename b t) \<union> fe_id ` snd ` set pairs"
  by (simp_all add: renames_of_def image_Un image_image case_prod_unfold)

lemma compute_delta_ids:
  assumes "comparable b t" and d_def: "d = compute_delta h b t"
  shows "ids t = (ids b - fe_id ` set (dl_removed_entries d) - re_before_entry_id ` set (dl_renamed_entries d))
    \<union> fe_id ` set (dl_added_entries d) \<union> re_after_entry_id ` set (dl_renamed_entries d)"
proof -
  obtain pairs removed added where p: "compute_delta h b t = sort_delta (delta_of_pairs b t pairs removed added)"
    "delta_split b t pairs removed added"
    using compute_delta_parts [of h b t] unfolding delta_split_def by blast
  have sets: "dl_removed_entries d = sort_key entry_key removed" "dl_added_entries d = sort_key entry_key added"
    "dl_renamed_entries d = sort_key rename_key (renames_of b t pairs)"
    by (simp_all add: d_def p(1) sort_delta_fields delta_of_pairs_def renames_of_def)
  let ?C = "re_before_entry_id ` set (per_common matched_rename b t)"
  have same: "re_after_entry_id ` set (per_common matched_rename b t) = ?C"
    using common_rename_ids [OF assms(1)] by (intro image_cong) auto
  have common: "?C \<subseteq> ids b \<inter> ids t" using common_rename_ids [OF assms(1)] by (intro image_subsetI) blast
  have left: "fe_id ` set removed \<union> fe_id ` fst ` set pairs = ids b - ids t"
    unfolding image_Un [symmetric] Un_commute [of "set removed"] delta_split_removed(4) [OF p(2) assms(1)]
    by (auto simp: ids_def)
  have right: "fe_id ` set added \<union> fe_id ` snd ` set pairs = ids t - ids b"
    unfolding image_Un [symmetric] Un_commute [of "set added"] delta_split_added(4) [OF p(2) assms(1)]
    by (auto simp: ids_def)
  have "ids t = (ids b - (ids b - ids t) - ?C) \<union> (ids t - ids b) \<union> ?C" using common by blast
  also have "\<dots> = (ids b - fe_id ` set removed - (?C \<union> fe_id ` fst ` set pairs)) \<union> fe_id ` set added \<union>
     (?C \<union> fe_id ` snd ` set pairs)"
    unfolding left [symmetric] right [symmetric] by blast
  finally show ?thesis unfolding sets set_sort image_renames_pairs same .
qed


subsection \<open>Properties\<close>

text \<open>Entries for the concrete instances: a directory or a file with given permissions.\<close>

definition example_entry ::
  "entry_id \<Rightarrow> entry_id \<Rightarrow> string \<Rightarrow> string \<Rightarrow> entry_type \<Rightarrow> u32 \<Rightarrow> file_entry" where
  "example_entry i p path nm ty permissions = \<lparr>fe_id = i, fe_parent_id = p, fe_normalized_path = path,
    fe_name = nm, fe_type = ty,
    fe_metadata = \<lparr>md_size_bytes = 0, md_created_at = 0, md_modified_at = 0, md_accessed_at = 0,
      md_permissions = permissions, md_file_id = 0, md_device_id = 0, md_content_hash = None\<rparr>\<rparr>"

definition example_snapshot :: "snapshot_id \<Rightarrow> file_entry list \<Rightarrow> snapshot" where
  "example_snapshot i es = \<lparr>sn_schema = kCurrentSchemaHeader, sn_snapshot_id = i, sn_created_at = 0,
    sn_host_identifier = ''h'', sn_root_entry_id = 1, sn_entries = example_entry 1 0 ''/'' ''/'' EntryType_Directory 0 # es\<rparr>"

lemma example_snapshots_pass:
  "\<not> has_errors (validate_snapshot 0 (example_snapshot 5 []))"
  "\<not> has_errors (validate_snapshot 0 (example_snapshot 6 [example_entry 2 1 ''/a'' ''a'' EntryType_File 0]))"
  by code_simp+

text \<open>
  C27: the delta of two snapshots that pass validation itself passes delta validation against both, with
  and without the rename heuristic: identifiers and rename targets are distinct, no entry is both added and
  removed, and every reference points into its snapshot.
\<close>

theorem computed_delta_validates:
  assumes "\<not> has_errors (validate_snapshot now b)" and "\<not> has_errors (validate_snapshot now' t)"
  shows "\<not> has_errors (validate_delta (compute_delta h b t) (Some b) (Some t))"
proof -
  have "snapshot_acceptable b" "snapshot_acceptable t" using assms by (simp_all add: validate_snapshot_errors)
  then show ?thesis
    by (intro compute_delta_valid snapshot_acceptable_comparable) (simp_all add: snapshot_acceptable_def)
qed

theorem computed_delta_validates_witness:
  "let b = example_snapshot 5 []; t = example_snapshot 6 [example_entry 2 1 ''/a'' ''a'' EntryType_File 0]
   in \<not> has_errors (validate_delta (compute_delta True b t) (Some b) (Some t))"
  unfolding Let_def by (rule computed_delta_validates [OF example_snapshots_pass])

text \<open>
  A computed delta accounts for every identifier: taking the removed and renamed-away identifiers from
  those of the base and adding the added and renamed-to ones gives those of the target.
\<close>

lemma delta_accounts_for_identifiers:
  assumes "distinct (map fe_id (sn_entries b))" and "distinct (map fe_id (sn_entries t))"
    and "distinct (map fe_normalized_path (sn_entries t))"
  shows "let d = compute_delta h b t in
    fe_id ` set (sn_entries t) =
      (fe_id ` set (sn_entries b) - fe_id ` set (dl_removed_entries d)
        - re_before_entry_id ` set (dl_renamed_entries d))
      \<union> fe_id ` set (dl_added_entries d) \<union> re_after_entry_id ` set (dl_renamed_entries d)"
  using compute_delta_ids [OF _ refl, of b t h] assms by (simp add: comparable_def ids_def Let_def)

lemma delta_accounts_for_identifiers_witness:
  "let b = example_snapshot 5 [example_entry 2 1 ''/a'' ''a'' EntryType_File 0];
       t = example_snapshot 6 [example_entry 3 1 ''/b'' ''b'' EntryType_File 0]; d = compute_delta True b t in
    fe_id ` set (sn_entries t) =
      (fe_id ` set (sn_entries b) - fe_id ` set (dl_removed_entries d)
        - re_before_entry_id ` set (dl_renamed_entries d))
      \<union> fe_id ` set (dl_added_entries d) \<union> re_after_entry_id ` set (dl_renamed_entries d)"
  unfolding Let_def
  by (rule delta_accounts_for_identifiers [unfolded Let_def])
    (simp_all add: example_snapshot_def example_entry_def)

text \<open>
  A computed delta has no operation exactly when both snapshots hold the same identifiers with the same
  path, type and metadata (names and parents are not compared).
\<close>

lemma empty_delta_means_same_view:
  assumes "distinct (map fe_id (sn_entries b))" and "distinct (map fe_id (sn_entries t))"
    and "distinct (map fe_normalized_path (sn_entries t))"
  shows "delta_empty (compute_delta h b t) \<longleftrightarrow> same_view b t"
  by (rule compute_delta_empty) (simp add: comparable_def assms)

lemma empty_delta_means_same_view_witness:
  "let b = example_snapshot 5 [example_entry 2 1 ''/a'' ''a'' EntryType_File 0]
   in delta_empty (compute_delta True b b) \<longleftrightarrow> same_view b b"
  unfolding Let_def
  by (rule empty_delta_means_same_view) (simp_all add: example_snapshot_def example_entry_def)

text \<open>
  inverting a computed delta twice gives it back, and for any delta the double inversion is that
  delta in sorted order.
\<close>

theorem invert_is_involutive:
  "invert_delta (invert_delta (compute_delta h b t)) = compute_delta h b t \<and>
   invert_delta (invert_delta d) = sort_delta d"
  by (simp add: invert_invert)

text \<open>
  C28: for two snapshots in each of which the entries have distinct identifiers and distinct paths, as in every
  snapshot that the validator accepts, and without the rename heuristic: the delta from the target back to the
  base is the inverse of the delta from the base to the target.
\<close>

theorem reverse_delta_is_inverse:
  assumes "distinct (map fe_id (sn_entries b))" and "distinct (map fe_id (sn_entries t))"
    and "distinct (map fe_normalized_path (sn_entries b))" and "distinct (map fe_normalized_path (sn_entries t))"
  shows "compute_delta False t b = invert_delta (compute_delta False b t)"
  by (rule compute_flip) (simp_all add: comparable_def assms)

theorem reverse_delta_is_inverse_witness:
  "let b = example_snapshot 5 [example_entry 2 1 ''/a'' ''a'' EntryType_File 0];
       t = example_snapshot 6 [example_entry 2 1 ''/b'' ''b'' EntryType_File 0]
   in compute_delta False t b = invert_delta (compute_delta False b t)"
  unfolding Let_def
  by (rule reverse_delta_is_inverse) (simp_all add: example_snapshot_def example_entry_def)

text \<open>
  A file that moves to another directory and changes its permissions between two snapshots is reported
  by the rename heuristic as a rename only: the delta has no modification, so the new permissions are lost.
\<close>

lemma heuristic_rename_drops_metadata:
  "let b = example_snapshot 5 [example_entry 2 1 ''/d'' ''d'' EntryType_Directory 0,
             example_entry 3 1 ''/f'' ''f'' EntryType_File 420];
       t = example_snapshot 6 [example_entry 2 1 ''/d'' ''d'' EntryType_Directory 0,
             example_entry 4 2 ''/d/f'' ''f'' EntryType_File 384];
       d = compute_delta True b t
   in \<not> has_errors (validate_snapshot 0 b) \<and> \<not> has_errors (validate_snapshot 0 t) \<and>
      dl_added_entries d = [] \<and> dl_removed_entries d = [] \<and> dl_modified_entries d = [] \<and>
      map re_new_path (dl_renamed_entries d) = [''/d/f'']"
  by code_simp

end
