(* ===== verification/Glob.thy ===== *)
theory Glob imports Prelude begin

text \<open>
  The glob matcher of \<open>src/backend/Muninn/filesystem/filesystem_scanner.cpp\<close>: \<open>wildcard_match\<close>, a loop
  over two indices that remembers the last star and returns to it on a mismatch.  It is compared with a
  recursive specification of glob patterns.
\<close>

subsection \<open>The loop\<close>

text \<open>\<open>std::tolower\<close> in the C locale, which the programs never change.\<close>

definition tolower :: "char \<Rightarrow> char" where
  "tolower c = (if (65::nat) \<le> of_char c \<and> of_char c \<le> (90::nat) then char_of (of_char c + (32::nat)) else c)"

definition char_equal :: "bool \<Rightarrow> char \<Rightarrow> char \<Rightarrow> bool" where
  "char_equal case_sensitive lhs rhs \<longleftrightarrow> (if case_sensitive then lhs = rhs else tolower lhs = tolower rhs)"

definition skip_stars :: "string \<Rightarrow> nat \<Rightarrow> nat" where
  "skip_stars pattern i = i + length (takeWhile (\<lambda>c. c = CHR ''*'') (drop i pattern))"

text \<open>
  \<open>star_index\<close> is \<open>npos\<close> (\<open>None\<close>) until a star has been met.  The loop is a partial function whose
  result \<open>None\<close> would mean that it does not end.
\<close>

partial_function (option) wildcard_loop ::
  "bool \<Rightarrow> string \<Rightarrow> string \<Rightarrow> nat \<Rightarrow> nat \<Rightarrow> nat option \<Rightarrow> nat \<Rightarrow> bool option" where
  "wildcard_loop cs pattern txt pattern_index text_index star_index star_text_index =
    (if text_index < length txt then
       if pattern_index < length pattern \<and>
          (pattern ! pattern_index = CHR ''?'' \<or> char_equal cs (pattern ! pattern_index) (txt ! text_index))
       then wildcard_loop cs pattern txt (pattern_index + 1) (text_index + 1) star_index star_text_index
       else if pattern_index < length pattern \<and> pattern ! pattern_index = CHR ''*''
       then wildcard_loop cs pattern txt (pattern_index + 1) text_index (Some pattern_index) text_index
       else (case star_index of
          Some s \<Rightarrow> wildcard_loop cs pattern txt (s + 1) (star_text_index + 1) star_index (star_text_index + 1)
        | None \<Rightarrow> Some False)
     else Some (skip_stars pattern pattern_index = length pattern))"

declare wildcard_loop.simps [code]

definition wildcard_match :: "string \<Rightarrow> string \<Rightarrow> bool \<Rightarrow> bool" where
  "wildcard_match pattern txt case_sensitive \<longleftrightarrow>
    wildcard_loop case_sensitive pattern txt 0 0 None 0 = Some True"

definition matches_any_glob :: "string list \<Rightarrow> string \<Rightarrow> string \<Rightarrow> bool \<Rightarrow> bool" where
  "matches_any_glob globs normalized_path entry_name case_sensitive \<longleftrightarrow>
    list_ex (\<lambda>glob. glob \<noteq> [] \<and>
      (wildcard_match glob normalized_path case_sensitive \<or> wildcard_match glob entry_name case_sensitive)) globs"

subsection \<open>Specification\<close>

text \<open>A star stands for any text, a question mark for one character, any other character for itself.\<close>

fun glob_matches :: "bool \<Rightarrow> string \<Rightarrow> string \<Rightarrow> bool" where
  "glob_matches cs [] t = (t = [])"
| "glob_matches cs (c # p) t =
    (if c = CHR ''*'' then glob_matches cs p t \<or> (\<exists>k\<in>set [1..<Suc (length t)]. glob_matches cs p (drop k t))
     else (case t of [] \<Rightarrow> False | x # xs \<Rightarrow> (c = CHR ''?'' \<or> char_equal cs c x) \<and> glob_matches cs p xs))"

lemma glob_star: "glob_matches cs (CHR ''*'' # p) t \<longleftrightarrow> (\<exists>k\<le>length t. glob_matches cs p (drop k t))"
proof -
  have "glob_matches cs (CHR ''*'' # p) t \<longleftrightarrow>
      glob_matches cs p (drop 0 t) \<or> (\<exists>k. 1 \<le> k \<and> k \<le> length t \<and> glob_matches cs p (drop k t))"
    by (auto simp: less_Suc_eq_le)
  also have "\<dots> \<longleftrightarrow> (\<exists>k\<le>length t. glob_matches cs p (drop k t))"
    by (metis One_nat_def Suc_leI neq0_conv zero_le)
  finally show ?thesis .
qed

lemma glob_plain:
  "c \<noteq> CHR ''*'' \<Longrightarrow> glob_matches cs (c # p) t \<longleftrightarrow>
    t \<noteq> [] \<and> (c = CHR ''?'' \<or> char_equal cs c (hd t)) \<and> glob_matches cs p (tl t)"
  by (cases t) auto

declare glob_matches.simps(2) [simp del]

lemma glob_star_drop: "glob_matches cs (CHR ''*'' # p) (drop k t) \<Longrightarrow> i \<le> k \<Longrightarrow> k \<le> length t \<Longrightarrow>
  glob_matches cs (CHR ''*'' # p) (drop i t)"
  unfolding glob_star
proof (elim exE conjE)
  fix j assume "i \<le> k" "k \<le> length t" "j \<le> length (drop k t)" "glob_matches cs p (drop j (drop k t))"
  then show "\<exists>j\<le>length (drop i t). glob_matches cs p (drop j (drop i t))"
    by (intro exI [of _ "j + (k - i)"]) (simp add: add.commute)
qed

text \<open>A segment without stars takes as many characters as it has itself.\<close>

lemma glob_segment:
  "CHR ''*'' \<notin> set seg \<Longrightarrow> glob_matches cs (seg @ p) t \<Longrightarrow> length seg \<le> length t \<and> glob_matches cs p (drop (length seg) t)"
proof (induction seg arbitrary: t)
  case (Cons c seg)
  then have "c \<noteq> CHR ''*''" by auto
  from Cons.prems(2) have "t \<noteq> [] \<and> glob_matches cs (seg @ p) (tl t)"
    by (simp add: glob_plain [OF \<open>c \<noteq> CHR ''*''\<close>])
  with Cons.IH [of "tl t"] Cons.prems(1) show ?case by (cases t) auto
qed simp

lemma glob_only_stars: "glob_matches cs p [] \<longleftrightarrow> (\<forall>c\<in>set p. c = CHR ''*'')"
proof (induction p)
  case (Cons c p)
  then show ?case by (cases "c = CHR ''*''") (simp_all add: glob_star glob_plain)
qed simp

lemma takeWhile_full: "length (takeWhile P xs) = length xs \<longleftrightarrow> (\<forall>x\<in>set xs. P x)"
proof
  assume "length (takeWhile P xs) = length xs"
  then have "takeWhile P xs = xs" by (metis takeWhile_eq_take take_all_iff le_refl)
  then show "\<forall>x\<in>set xs. P x" by (simp add: takeWhile_eq_all_conv)
next
  assume "\<forall>x\<in>set xs. P x"
  then have "takeWhile P xs = xs" by (simp add: takeWhile_eq_all_conv)
  then show "length (takeWhile P xs) = length xs" by (rule arg_cong)
qed

lemma skip_stars_end:
  assumes "i \<le> length pattern"
  shows "skip_stars pattern i = length pattern \<longleftrightarrow> glob_matches cs (drop i pattern) []"
proof -
  have "skip_stars pattern i = length pattern \<longleftrightarrow>
      length (takeWhile (\<lambda>c. c = CHR ''*'') (drop i pattern)) = length (drop i pattern)"
    using assms by (simp add: skip_stars_def) arith
  then show ?thesis by (simp only: takeWhile_full glob_only_stars)
qed

subsection \<open>The loop finds a match exactly when there is one\<close>

text \<open>
  The invariant: the pattern between the last star and \<open>pattern_index\<close> has no star and took the text
  between \<open>star_text_index\<close> and \<open>text_index\<close>.  \<open>answer\<close> is what is left to decide.
\<close>

definition loop_inv :: "string \<Rightarrow> string \<Rightarrow> nat \<Rightarrow> nat \<Rightarrow> nat option \<Rightarrow> nat \<Rightarrow> bool" where
  "loop_inv pattern txt i j star k0 \<longleftrightarrow> i \<le> length pattern \<and> j \<le> length txt \<and>
    (\<forall>s. star = Some s \<longrightarrow> s < i \<and> k0 \<le> j \<and> j - k0 = i - Suc s \<and>
       CHR ''*'' \<notin> set (take (i - Suc s) (drop (Suc s) pattern)))"

definition retry :: "bool \<Rightarrow> string \<Rightarrow> string \<Rightarrow> nat \<Rightarrow> nat \<Rightarrow> bool" where
  "retry cs pattern txt s k0 \<longleftrightarrow>
    (\<exists>k. k0 < k \<and> k \<le> length txt \<and> glob_matches cs (drop (Suc s) pattern) (drop k txt))"

definition answer :: "bool \<Rightarrow> string \<Rightarrow> string \<Rightarrow> nat \<Rightarrow> nat \<Rightarrow> nat option \<Rightarrow> nat \<Rightarrow> bool" where
  "answer cs pattern txt i j star k0 \<longleftrightarrow>
    glob_matches cs (drop i pattern) (drop j txt) \<or> (\<exists>s. star = Some s \<and> retry cs pattern txt s k0)"

lemma retry_step:
  assumes "k0 < length txt"
  shows "retry cs pattern txt s k0 \<longleftrightarrow>
    glob_matches cs (drop (Suc s) pattern) (drop (Suc k0) txt) \<or> retry cs pattern txt s (Suc k0)"
proof -
  have "(\<exists>k. k0 < k \<and> k \<le> n \<and> Q k) \<longleftrightarrow> Q (Suc k0) \<or> (\<exists>k. Suc k0 < k \<and> k \<le> n \<and> Q k)"
    if "k0 < n" for n and Q :: "nat \<Rightarrow> bool"
  proof
    assume "\<exists>k. k0 < k \<and> k \<le> n \<and> Q k"
    then obtain k where k: "k0 < k" "k \<le> n" "Q k" by blast
    then show "Q (Suc k0) \<or> (\<exists>k. Suc k0 < k \<and> k \<le> n \<and> Q k)" by (cases "k = Suc k0") auto
  next
    assume "Q (Suc k0) \<or> (\<exists>k. Suc k0 < k \<and> k \<le> n \<and> Q k)"
    then show "\<exists>k. k0 < k \<and> k \<le> n \<and> Q k" using that by (meson Suc_lessD Suc_leI lessI)
  qed
  from this [OF assms] show ?thesis unfolding retry_def .
qed

text \<open>A retry gets past the segment only further right in the text.\<close>

lemma retry_segment:
  assumes "loop_inv pattern txt i j (Some s) k0" "retry cs pattern txt s k0"
  obtains k where "j < k" "k \<le> length txt" "glob_matches cs (drop i pattern) (drop k txt)"
proof -
  let ?seg = "take (i - Suc s) (drop (Suc s) pattern)"
  have inv: "s < i" "k0 \<le> j" "j - k0 = i - Suc s" "CHR ''*'' \<notin> set ?seg" "i \<le> length pattern"
    using assms(1) by (simp_all add: loop_inv_def)
  obtain k where k: "k0 < k" "k \<le> length txt" "glob_matches cs (drop (Suc s) pattern) (drop k txt)"
    using assms(2) by (auto simp: retry_def)
  have split: "drop (Suc s) pattern = ?seg @ drop i pattern"
    using inv(1) append_take_drop_id [of "i - Suc s" "drop (Suc s) pattern"] by simp
  have len: "length ?seg = i - Suc s" using inv(5) by simp
  have "glob_matches cs (?seg @ drop i pattern) (drop k txt)" using k(3) split by argo
  from glob_segment [OF inv(4) this]
  have "i - Suc s \<le> length txt - k \<and> glob_matches cs (drop i pattern) (drop (i - Suc s + k) txt)"
    unfolding len by simp
  then show thesis using inv(2,3) k(1,2) by (intro that [of "i - Suc s + k"]) auto
qed

lemma tolower_star: "tolower c = CHR ''*'' \<longleftrightarrow> c = CHR ''*''"
proof (cases "(65::nat) \<le> of_char c \<and> of_char c \<le> (90::nat)")
  case True
  have "tolower c \<noteq> CHR ''*''"
  proof
    assume "tolower c = CHR ''*''"
    then have "(of_char (char_of (of_char c + (32::nat)) :: char) :: nat) = of_char (CHR ''*'')"
      using True by (simp add: tolower_def)
    then show False using True by (simp add: of_char_of)
  qed
  moreover have "c \<noteq> CHR ''*''" using True by auto
  ultimately show ?thesis by simp
next
  case False
  then have "tolower c = c" unfolding tolower_def by (rule if_not_P)
  then show ?thesis by simp
qed

lemma char_equal_star: "char_equal cs (CHR ''*'') c \<longleftrightarrow> c = CHR ''*''"
proof -
  have "tolower (CHR ''*'') = CHR ''*''" by (simp only: tolower_star)
  then show ?thesis using tolower_star [of c] by (auto simp: char_equal_def)
qed


text \<open>What each branch of the loop does to the answer.\<close>

lemma drop_nth: "i < length xs \<Longrightarrow> drop i xs = xs ! i # drop (Suc i) xs"
  by (simp add: Cons_nth_drop_Suc)

lemma glob_at:
  assumes "i < length p" "p ! i \<noteq> CHR ''*''"
  shows "glob_matches cs (drop i p) (drop j t) \<longleftrightarrow>
    j < length t \<and> (p ! i = CHR ''?'' \<or> char_equal cs (p ! i) (t ! j)) \<and> glob_matches cs (drop (Suc i) p) (drop (Suc j) t)"
proof (cases "j < length t")
  case True
  then show ?thesis
    unfolding drop_nth [OF assms(1)] drop_nth [OF True] glob_plain [OF assms(2)] by simp
next
  case False
  then show ?thesis unfolding drop_nth [OF assms(1)] glob_plain [OF assms(2)] by simp
qed

lemma glob_at_star:
  assumes "i < length p" "p ! i = CHR ''*''" "j < length t"
  shows "glob_matches cs (drop i p) (drop j t) \<longleftrightarrow>
    glob_matches cs (drop (Suc i) p) (drop j t) \<or> retry cs p t i j"
proof -
  have "glob_matches cs (drop i p) (drop j t) \<longleftrightarrow> (\<exists>k\<le>length t - j. glob_matches cs (drop (Suc i) p) (drop (k + j) t))"
    unfolding drop_nth [OF assms(1)] assms(2) glob_star by (simp add: add.commute)
  also have "\<dots> \<longleftrightarrow> glob_matches cs (drop (Suc i) p) (drop j t) \<or> retry cs p t i j"
  proof (intro iffI; (elim exE disjE conjE)?)
    fix k assume k: "k \<le> length t - j" "glob_matches cs (drop (Suc i) p) (drop (k + j) t)"
    then show "glob_matches cs (drop (Suc i) p) (drop j t) \<or> retry cs p t i j"
      using assms(3) by (cases "k = 0") (auto simp: retry_def intro!: exI [of _ "k + j"])
  next
    assume "glob_matches cs (drop (Suc i) p) (drop j t)"
    then show "\<exists>k\<le>length t - j. glob_matches cs (drop (Suc i) p) (drop (k + j) t)" by (intro exI [of _ 0]) simp
  next
    assume "retry cs p t i j"
    then obtain k where "j < k" "k \<le> length t" "glob_matches cs (drop (Suc i) p) (drop k t)"
      by (auto simp: retry_def)
    then show "\<exists>k\<le>length t - j. glob_matches cs (drop (Suc i) p) (drop (k + j) t)"
      by (intro exI [of _ "k - j"]) auto
  qed
  finally show ?thesis .
qed

lemma answer_match:
  assumes "i < length p" "j < length t" "p ! i \<noteq> CHR ''*''" "p ! i = CHR ''?'' \<or> char_equal cs (p ! i) (t ! j)"
  shows "answer cs p t (Suc i) (Suc j) star k0 = answer cs p t i j star k0"
  using assms by (simp add: answer_def glob_at)

lemma answer_star:
  assumes inv: "loop_inv p t i j star k0" and i: "i < length p" "p ! i = CHR ''*''" and j: "j < length t"
  shows "answer cs p t (Suc i) j (Some i) j = answer cs p t i j star k0"
proof -
  have "retry cs p t s k0 \<Longrightarrow> star = Some s \<Longrightarrow> glob_matches cs (drop i p) (drop j t)" for s
  proof -
    assume "retry cs p t s k0" "star = Some s"
    then obtain k where "j < k" "k \<le> length t" "glob_matches cs (drop i p) (drop k t)"
      using retry_segment inv by blast
    then show ?thesis
      unfolding drop_nth [OF i(1)] i(2) using glob_star_drop [of cs _ k t j] less_imp_le [of j k] by blast
  qed
  then show ?thesis unfolding answer_def glob_at_star [OF i j] by blast
qed

lemma answer_mismatch:
  assumes "j < length t" "i \<le> length p"
    and "\<not> (i < length p \<and> (p ! i = CHR ''?'' \<or> char_equal cs (p ! i) (t ! j)))"
    and "\<not> (i < length p \<and> p ! i = CHR ''*'')"
  shows "\<not> glob_matches cs (drop i p) (drop j t)"
  using assms by (cases "i < length p") (auto simp: glob_at)

lemma answer_end:
  assumes inv: "loop_inv p t i j star k0" and j: "\<not> j < length t"
  shows "answer cs p t i j star k0 \<longleftrightarrow> skip_stars p i = length p"
proof -
  have ij: "i \<le> length p" "drop j t = []" using inv j by (simp_all add: loop_inv_def)
  have "\<not> retry cs p t s k0" if st: "star = Some s" for s
  proof
    assume "retry cs p t s k0"
    then obtain k where "j < k" "k \<le> length t" by (rule retry_segment [OF inv [unfolded st]])
    then show False using j by simp
  qed
  then show ?thesis using skip_stars_end [OF ij(1), of cs] ij(2) by (auto simp: answer_def)
qed

lemma inv_match:
  assumes "loop_inv p t i j star k0" "i < length p" "j < length t" "p ! i \<noteq> CHR ''*''"
  shows "loop_inv p t (Suc i) (Suc j) star k0"
proof -
  have "take (Suc i - Suc s) (drop (Suc s) p) = take (i - Suc s) (drop (Suc s) p) @ [p ! i]" if "s < i" for s
  proof -
    have "Suc i - Suc s = Suc (i - Suc s)" using that by simp
    then show ?thesis using that assms(2) by (simp add: take_Suc_conv_app_nth)
  qed
  then show ?thesis using assms by (auto simp: loop_inv_def)
qed

lemma inv_star:
  "loop_inv p t i j star k0 \<Longrightarrow> i < length p \<Longrightarrow> loop_inv p t (Suc i) j (Some i) j"
  by (simp add: loop_inv_def)

lemma inv_retry:
  "loop_inv p t i j (Some s) k0 \<Longrightarrow> j < length t \<Longrightarrow> loop_inv p t (Suc s) (Suc k0) (Some s) (Suc k0)"
  by (simp add: loop_inv_def)

lemma answer_retry:
  assumes "loop_inv p t i j (Some s) k0" "j < length t" "\<not> glob_matches cs (drop i p) (drop j t)"
  shows "answer cs p t (Suc s) (Suc k0) (Some s) (Suc k0) = answer cs p t i j (Some s) k0"
proof -
  have "k0 < length t" using assms(1,2) by (simp add: loop_inv_def)
  from retry_step [OF this] show ?thesis using assms(3) by (auto simp: answer_def)
qed

definition progress :: "string \<Rightarrow> string \<Rightarrow> nat \<times> nat \<times> nat option \<times> nat \<Rightarrow> nat \<times> nat \<times> nat" where
  "progress p t = (\<lambda>(i, j, star, k0). (length p - (case star of None \<Rightarrow> 0 | Some s \<Rightarrow> Suc s), length t - k0, length t - j))"

lemma wildcard_loop_answer:
  assumes "CHR ''*'' \<notin> set t" "loop_inv p t i j star k0"
  shows "wildcard_loop cs p t i j star k0 = Some (answer cs p t i j star k0)"
proof -
  have "wf (inv_image (less_than <*lex*> less_than <*lex*> less_than) (progress p t))"
    by (intro wf_inv_image wf_lex_prod wf_less_than)
  then show ?thesis using assms(2)
  proof (induction "(i, j, star, k0)" arbitrary: i j star k0 rule: wf_induct_rule)
    case less
    note IH = less.hyps and inv = less.prems
    let ?hit = "i < length p \<and> (p ! i = CHR ''?'' \<or> char_equal cs (p ! i) (t ! j))"
    let ?star = "i < length p \<and> p ! i = CHR ''*''"
    show ?case
    proof (cases "j < length t")
      case False
      then show ?thesis using answer_end [OF inv False] by (subst wildcard_loop.simps) simp
    next
      case j: True
      then have plain: "t ! j \<noteq> CHR ''*''" using assms(1) by (metis nth_mem)
      show ?thesis
      proof (cases ?hit)
        case True
        then have "p ! i \<noteq> CHR ''*''" using plain by (auto simp: char_equal_star)
        moreover from this have "wildcard_loop cs p t (Suc i) (Suc j) star k0 = Some (answer cs p t (Suc i) (Suc j) star k0)"
          by (intro IH inv_match [OF inv]) (use True j in \<open>auto simp: progress_def\<close>)
        ultimately show ?thesis using True j by (subst wildcard_loop.simps) (simp add: answer_match)
      next
        case no_hit: False
        show ?thesis
        proof (cases ?star)
          case True
          have "wildcard_loop cs p t (Suc i) j (Some i) j = Some (answer cs p t (Suc i) j (Some i) j)"
            by (intro IH inv_star [OF inv]) (use True inv in \<open>auto simp: progress_def loop_inv_def split: option.split\<close>)
          then show ?thesis using True no_hit j answer_star [OF inv _ _ j]
            by (subst wildcard_loop.simps) simp
        next
          case no_star: False
          have i: "i \<le> length p" using inv by (simp add: loop_inv_def)
          note miss = answer_mismatch [OF j i no_hit no_star]
          show ?thesis
          proof (cases star)
            case None
            have "wildcard_loop cs p t i j star k0 = Some False"
              by (subst wildcard_loop.simps) (simp only: if_P [OF j] if_not_P [OF no_hit] if_not_P [OF no_star] None option.case)
            then show ?thesis using None miss by (simp add: answer_def)
          next
            case (Some s)
            have "wildcard_loop cs p t (Suc s) (Suc k0) (Some s) (Suc k0) =
                Some (answer cs p t (Suc s) (Suc k0) (Some s) (Suc k0))"
              by (intro IH inv_retry [OF inv [unfolded Some] j])
                (use Some j inv in \<open>auto simp: progress_def loop_inv_def\<close>)
            moreover have "wildcard_loop cs p t i j star k0 = wildcard_loop cs p t (Suc s) (Suc k0) (Some s) (Suc k0)"
              by (subst wildcard_loop.simps)
                (simp only: if_P [OF j] if_not_P [OF no_hit] if_not_P [OF no_star] Some option.case Suc_eq_plus1)
            ultimately show ?thesis using answer_retry [OF inv [unfolded Some] j miss] Some by simp
          qed
        qed
      qed
    qed
  qed
qed


lemma wildcard_loop_starts:
  "CHR ''*'' \<notin> set t \<Longrightarrow> wildcard_loop cs p t 0 0 None 0 = Some (glob_matches cs p t)"
  using wildcard_loop_answer [of t p 0 0 None 0 cs] by (simp add: loop_inv_def answer_def)

subsection \<open>Properties\<close>

text \<open>
  C31: on a text without a star, the matching loop ends and \<open>wildcard_match\<close> accepts exactly the texts the
  glob pattern describes, for patterns with any number of stars.
\<close>

theorem wildcard_match_exact:
  assumes "CHR ''*'' \<notin> set txt"
  shows "wildcard_loop cs pattern txt 0 0 None 0 \<noteq> None \<and>
    wildcard_match pattern txt cs = glob_matches cs pattern txt"
  using wildcard_loop_starts [OF assms] by (simp add: wildcard_match_def)

theorem wildcard_match_exact_witness:
  "wildcard_loop False ''*.TxT'' ''/a/b.txt'' 0 0 None 0 \<noteq> None \<and>
    wildcard_match ''*.TxT'' ''/a/b.txt'' False = glob_matches False ''*.TxT'' ''/a/b.txt''"
  by (rule wildcard_match_exact) simp

text \<open>
  a file name may hold a star, and then the matcher is wrong: it compares the star of the pattern with
  the star of the name as a plain character and never tries it as a wildcard, so \<open>*b\<close> does not match the
  name \<open>*ab\<close> although the glob describes it.
\<close>

theorem wildcard_misses_starred_name:
  "\<not> wildcard_match ''*b'' ''*ab'' True \<and> glob_matches True ''*b'' ''*ab''"
proof
  show "\<not> wildcard_match ''*b'' ''*ab'' True"
    unfolding wildcard_match_def by (simp add: wildcard_loop.simps char_equal_def)
  show "glob_matches True ''*b'' ''*ab''"
    by (simp add: glob_matches.simps char_equal_def upt_rec)
qed

end
