(* ===== verification/FilesystemScanner.thy ===== *)
theory FilesystemScanner imports Models Paths Glob "HOL-Library.Product_Lexorder" begin

text \<open>
  The local scanner, \<open>src/backend/Muninn/filesystem/filesystem_scanner.cpp\<close>: which entries of a directory
  tree a scan keeps under the include and exclude globs and the entry limit, and what it records of each.

  Everything that asks the operating system is a parameter, the record \<open>file_system\<close>: the answers of
  \<open>absolute\<close>, \<open>symlink_status\<close>, \<open>file_size\<close>, \<open>last_write_time\<close> (already in Unix seconds) and \<open>lstat\<close>, where
  \<open>None\<close> is an error code, and the order in which \<open>recursive_directory_iterator\<close> visits the tree.
\<close>

subsection \<open>Data\<close>

datatype scan_severity = Scan_Info | Scan_Warning | Scan_Error | Scan_Fatal

datatype scan_error_code =
    Scan_None | RootPathMissing | RootPathNotDirectory | RootPathResolveFailure
  | TraversalFailure | MetadataUnavailable | EntryLimitExceeded

record scan_diagnostic =
  sd_code :: scan_error_code
  sd_severity :: scan_severity
  sd_message :: string
  sd_path :: string

record raw_entry =
  rw_normalized_path :: string
  rw_parent_path :: string
  rw_name :: string
  rw_type :: entry_type
  rw_metadata :: file_metadata

record raw_scan_result =
  rs_host_identifier :: string
  rs_root_path :: string
  rs_scanned_at :: unix_timestamp
  rs_entries :: "raw_entry list"
  rs_diagnostics :: "scan_diagnostic list"

record scan_options =
  so_follow_symlinks :: bool
  so_max_entries :: nat
  so_include_globs :: "string list"
  so_exclude_globs :: "string list"
  so_case_sensitive_globs :: bool

subsection \<open>The file system as a parameter\<close>

datatype file_type = FT_regular | FT_directory | FT_symlink | FT_other

record file_status =
  st_type :: file_type
  st_permissions :: u32

record stat_buffer =
  st_ino :: u64
  st_dev :: u64
  st_ctime :: i64
  st_mtime :: i64
  st_atime :: i64
  st_mode :: u32

text \<open>
  One position of the recursive iterator: an entry with the positions below it, which are skipped when
  recursion is disabled there, or an increment that reported an error.
\<close>

datatype walk_item = Visit string "walk_item list" | Increment_Failure

record file_system =
  fs_host :: string
  fs_now :: unix_timestamp
  fs_exists :: "string \<Rightarrow> bool"
  fs_is_directory :: "string \<Rightarrow> bool"
  fs_absolute :: "string \<Rightarrow> string option"
  fs_symlink_status :: "string \<Rightarrow> file_status option"
  fs_file_size :: "string \<Rightarrow> u64 option"
  fs_last_write_time :: "string \<Rightarrow> unix_timestamp option"
  fs_lstat :: "string \<Rightarrow> stat_buffer option"
  fs_walk :: "string \<Rightarrow> bool \<Rightarrow> walk_item list"

subsection \<open>One entry\<close>

definition normalize_absolute_path :: "file_system \<Rightarrow> string \<Rightarrow> string option" where
  "normalize_absolute_path fs path =
    (case fs_absolute fs path of None \<Rightarrow> None | Some absolute \<Rightarrow> Some (lexically_normal absolute))"

definition map_entry_type :: "file_status \<Rightarrow> entry_type" where
  "map_entry_type status =
    (case st_type status of FT_directory \<Rightarrow> EntryType_Directory | FT_symlink \<Rightarrow> EntryType_Symlink
     | FT_regular \<Rightarrow> EntryType_File | FT_other \<Rightarrow> EntryType_Special)"

definition try_fill_posix_metadata :: "file_system \<Rightarrow> string \<Rightarrow> file_metadata \<Rightarrow> file_metadata" where
  "try_fill_posix_metadata fs path metadata =
    (case fs_lstat fs path of
       None \<Rightarrow> metadata
     | Some s \<Rightarrow> metadata\<lparr>md_file_id := st_ino s, md_device_id := st_dev s, md_created_at := st_ctime s,
         md_modified_at := st_mtime s, md_accessed_at := st_atime s,
         md_permissions := st_mode s AND 0x0FFF\<rparr>)"

definition append_diagnostic ::
  "raw_scan_result \<Rightarrow> scan_error_code \<Rightarrow> scan_severity \<Rightarrow> string \<Rightarrow> string \<Rightarrow> raw_scan_result" where
  "append_diagnostic result code severity message path =
    result\<lparr>rs_diagnostics := rs_diagnostics result @
      [\<lparr>sd_code = code, sd_severity = severity, sd_message = message, sd_path = path\<rparr>]\<rparr>"

definition no_metadata :: file_metadata where
  "no_metadata = \<lparr>md_size_bytes = 0, md_created_at = 0, md_modified_at = 0, md_accessed_at = 0,
    md_permissions = 0, md_file_id = 0, md_device_id = 0, md_content_hash = None\<rparr>"

definition fill_entry_metadata ::
  "file_system \<Rightarrow> string \<Rightarrow> file_status \<Rightarrow> raw_entry \<Rightarrow> raw_scan_result \<Rightarrow> raw_entry \<times> raw_scan_result" where
  "fill_entry_metadata fs path status entry result =
    (let ty = map_entry_type status;
         md = (rw_metadata entry)\<lparr>md_permissions := st_permissions status\<rparr>;
         (md, result) =
           (if ty = EntryType_File then
              (case fs_file_size fs path of
                 Some file_size \<Rightarrow> (md\<lparr>md_size_bytes := file_size\<rparr>, result)
               | None \<Rightarrow> (md, append_diagnostic result MetadataUnavailable Scan_Warning ''Failed to read file size.'' path))
            else (md, result));
         md = (case fs_last_write_time fs path of
                 Some modified \<Rightarrow> md\<lparr>md_created_at := modified, md_modified_at := modified, md_accessed_at := modified\<rparr>
               | None \<Rightarrow> md);
         md = try_fill_posix_metadata fs path md
     in (entry\<lparr>rw_type := ty, rw_metadata := md\<rparr>, result))"

text \<open>
  The outcome of \<open>collect_one_entry\<close>: its return value and the two out-parameters.
\<close>

record collect_outcome =
  co_continue :: bool
  co_included :: bool
  co_disable_recursion :: bool

definition collect_one_entry ::
  "file_system \<Rightarrow> scan_options \<Rightarrow> string \<Rightarrow> bool \<Rightarrow> raw_scan_result \<Rightarrow> collect_outcome \<times> raw_scan_result" where
  "collect_one_entry fs options path is_root result =
    (case normalize_absolute_path fs path of
       None \<Rightarrow> (\<lparr>co_continue = False, co_included = False, co_disable_recursion = False\<rparr>,
         append_diagnostic result RootPathResolveFailure Scan_Error ''Failed to normalize path.'' path)
     | Some normalized_path \<Rightarrow>
       (case fs_symlink_status fs path of
          None \<Rightarrow> (\<lparr>co_continue = False, co_included = False, co_disable_recursion = False\<rparr>,
            append_diagnostic result MetadataUnavailable Scan_Warning ''Failed to read entry status.'' normalized_path)
        | Some status \<Rightarrow>
          (let entry_name = path_filename normalized_path;
               is_directory = (st_type status = FT_directory);
               excluded_by_policy = (\<not> is_root \<and>
                 matches_any_glob (so_exclude_globs options) normalized_path entry_name (so_case_sensitive_globs options));
               included_by_policy = (is_root \<or> so_include_globs options = [] \<or>
                 matches_any_glob (so_include_globs options) normalized_path entry_name (so_case_sensitive_globs options));
               include_entry = (if is_directory then \<not> excluded_by_policy
                 else included_by_policy \<and> \<not> excluded_by_policy)
           in if \<not> include_entry then
                (\<lparr>co_continue = True, co_included = False,
                   co_disable_recursion = is_directory \<and> excluded_by_policy\<rparr>, result)
              else if length (rs_entries result) \<ge> so_max_entries options then
                (\<lparr>co_continue = False, co_included = False, co_disable_recursion = False\<rparr>,
                 append_diagnostic result EntryLimitExceeded Scan_Error ''Scanner entry limit exceeded.'' [])
              else
                (let entry = \<lparr>rw_normalized_path = normalized_path,
                       rw_parent_path = (if is_root then [] else path_parent normalized_path),
                       rw_name = entry_name, rw_type = EntryType_File, rw_metadata = no_metadata\<rparr>;
                     (entry, result) = fill_entry_metadata fs path status entry result
                 in (\<lparr>co_continue = True, co_included = True, co_disable_recursion = False\<rparr>,
                     result\<lparr>rs_entries := rs_entries result @ [entry]\<rparr>)))))"

subsection \<open>The scan\<close>

text \<open>The loop over the iterator; the flag says whether the loop goes on.\<close>

fun scan_walk ::
  "file_system \<Rightarrow> scan_options \<Rightarrow> string \<Rightarrow> walk_item list \<Rightarrow> raw_scan_result \<Rightarrow> bool \<times> raw_scan_result" where
  "scan_walk fs options root [] result = (True, result)"
| "scan_walk fs options root (Increment_Failure # rest) result =
    scan_walk fs options root rest
      (append_diagnostic result TraversalFailure Scan_Warning
         ''Traversal encountered an error and skipped an entry.'' root)"
| "scan_walk fs options root (Visit path below # rest) result =
    (let (outcome, result) = collect_one_entry fs options path False result
     in if \<not> co_continue outcome then (False, result)
        else if \<not> co_included outcome \<and> co_disable_recursion outcome then scan_walk fs options root rest result
        else (let (go, result) = scan_walk fs options root below result
              in if go then scan_walk fs options root rest result else (False, result)))"

definition scan_key :: "raw_entry \<Rightarrow> string \<times> string" where
  "scan_key e = (rw_normalized_path e, rw_name e)"

definition scan :: "file_system \<Rightarrow> string \<Rightarrow> scan_options \<Rightarrow> raw_scan_result" where
  "scan fs root_path options =
    (let result = \<lparr>rs_host_identifier = fs_host fs, rs_root_path = [], rs_scanned_at = fs_now fs,
           rs_entries = [], rs_diagnostics = []\<rparr>
     in if \<not> fs_exists fs root_path then
          append_diagnostic result RootPathMissing Scan_Fatal ''Root path does not exist.'' root_path
        else if \<not> fs_is_directory fs root_path then
          append_diagnostic result RootPathNotDirectory Scan_Fatal ''Root path is not a directory.'' root_path
        else (case normalize_absolute_path fs root_path of
           None \<Rightarrow> append_diagnostic result RootPathResolveFailure Scan_Fatal ''Failed to normalize root path.'' root_path
         | Some [] \<Rightarrow> append_diagnostic result RootPathResolveFailure Scan_Fatal ''Failed to normalize root path.'' root_path
         | Some (c # cs) \<Rightarrow>
            (let (outcome, result) = collect_one_entry fs options root_path True (result\<lparr>rs_root_path := c # cs\<rparr>)
             in if \<not> co_continue outcome then result
                else (let (_, result) = scan_walk fs options root_path (fs_walk fs root_path (so_follow_symlinks options)) result
                      in result\<lparr>rs_entries := sort_key scan_key (rs_entries result)\<rparr>))))"


subsection \<open>What a scan keeps\<close>

text \<open>The policy as a predicate on a path and its status: is the entry kept, and is the tree below it skipped?\<close>

definition excluded :: "scan_options \<Rightarrow> string \<Rightarrow> bool" where
  "excluded options p \<longleftrightarrow> matches_any_glob (so_exclude_globs options) p (path_filename p) (so_case_sensitive_globs options)"

definition included :: "scan_options \<Rightarrow> string \<Rightarrow> bool" where
  "included options p \<longleftrightarrow> so_include_globs options = [] \<or>
    matches_any_glob (so_include_globs options) p (path_filename p) (so_case_sensitive_globs options)"

definition kept :: "scan_options \<Rightarrow> string \<Rightarrow> bool \<Rightarrow> bool" where
  "kept options p is_directory \<longleftrightarrow> \<not> excluded options p \<and> (is_directory \<or> included options p)"

text \<open>The entry recorded for a readable path.\<close>

definition normal_path :: "file_system \<Rightarrow> string \<Rightarrow> string" where
  "normal_path fs path = the (normalize_absolute_path fs path)"

definition is_dir :: "file_system \<Rightarrow> string \<Rightarrow> bool" where
  "is_dir fs path \<longleftrightarrow> st_type (the (fs_symlink_status fs path)) = FT_directory"

definition readable :: "file_system \<Rightarrow> string \<Rightarrow> bool" where
  "readable fs path \<longleftrightarrow> normalize_absolute_path fs path \<noteq> None \<and> fs_symlink_status fs path \<noteq> None"

definition blank_result :: raw_scan_result where
  "blank_result = \<lparr>rs_host_identifier = [], rs_root_path = [], rs_scanned_at = 0, rs_entries = [], rs_diagnostics = []\<rparr>"

definition filled_entry :: "file_system \<Rightarrow> string \<Rightarrow> file_status \<Rightarrow> raw_entry \<Rightarrow> raw_entry" where
  "filled_entry fs path status e = fst (fill_entry_metadata fs path status e blank_result)"

definition recorded :: "file_system \<Rightarrow> string \<Rightarrow> bool \<Rightarrow> raw_entry" where
  "recorded fs path is_root =
    filled_entry fs path (the (fs_symlink_status fs path))
      \<lparr>rw_normalized_path = normal_path fs path,
       rw_parent_path = (if is_root then [] else path_parent (normal_path fs path)),
       rw_name = path_filename (normal_path fs path), rw_type = EntryType_File, rw_metadata = no_metadata\<rparr>"

definition size_noted :: "file_system \<Rightarrow> string \<Rightarrow> file_status \<Rightarrow> raw_scan_result \<Rightarrow> raw_scan_result" where
  "size_noted fs path status r =
    (if map_entry_type status = EntryType_File \<and> fs_file_size fs path = None
     then append_diagnostic r MetadataUnavailable Scan_Warning ''Failed to read file size.'' path else r)"

fun walk_readable :: "file_system \<Rightarrow> walk_item list \<Rightarrow> bool" where
  "walk_readable fs [] \<longleftrightarrow> True"
| "walk_readable fs (Increment_Failure # rest) \<longleftrightarrow> walk_readable fs rest"
| "walk_readable fs (Visit path below # rest) \<longleftrightarrow> readable fs path \<and> walk_readable fs below \<and> walk_readable fs rest"

fun visible :: "file_system \<Rightarrow> scan_options \<Rightarrow> walk_item list \<Rightarrow> string list" where
  "visible fs options [] = []"
| "visible fs options (Increment_Failure # rest) = visible fs options rest"
| "visible fs options (Visit path below # rest) =
    (if is_dir fs path \<and> excluded options (normal_path fs path) then []
     else (if kept options (normal_path fs path) (is_dir fs path) then [path] else []) @ visible fs options below)
    @ visible fs options rest"

lemma append_diagnostic_entries [simp]:
  "rs_entries (append_diagnostic r c s m p) = rs_entries r"
  "rs_root_path (append_diagnostic r c s m p) = rs_root_path r"
  by (simp_all add: append_diagnostic_def)

lemma fill_entry_metadata_split:
  "fill_entry_metadata fs path status e r = (filled_entry fs path status e, size_noted fs path status r)"
  by (simp add: filled_entry_def size_noted_def fill_entry_metadata_def Let_def split: option.split)

lemma size_noted_entries [simp]: "rs_entries (size_noted fs path status r) = rs_entries r"
  by (simp add: size_noted_def)

lemma filled_entry_keeps [simp]:
  "rw_normalized_path (filled_entry fs path status e) = rw_normalized_path e"
  "rw_parent_path (filled_entry fs path status e) = rw_parent_path e"
  "rw_name (filled_entry fs path status e) = rw_name e"
  "rw_type (filled_entry fs path status e) = map_entry_type status"
  by (simp_all add: filled_entry_def fill_entry_metadata_def Let_def split: option.split)

text \<open>The four outcomes of one entry.\<close>

lemma collect_unreadable:
  "\<not> readable fs path \<Longrightarrow> \<exists>o' r'. collect_one_entry fs options path is_root r = (o', r') \<and>
    \<not> co_continue o' \<and> rs_entries r' = rs_entries r"
  by (auto simp: readable_def collect_one_entry_def split: option.split)

lemma collect_dropped:
  assumes "readable fs path" "\<not> is_root" "\<not> kept options (normal_path fs path) (is_dir fs path)"
  shows "collect_one_entry fs options path is_root r =
    (\<lparr>co_continue = True, co_included = False,
      co_disable_recursion = (is_dir fs path \<and> excluded options (normal_path fs path))\<rparr>, r)"
  using assms
  by (auto simp: readable_def collect_one_entry_def kept_def excluded_def included_def is_dir_def normal_path_def Let_def
      split: if_splits)

lemma collect_kept:
  assumes "readable fs path" "is_root \<or> kept options (normal_path fs path) (is_dir fs path)"
  shows "collect_one_entry fs options path is_root r =
    (if length (rs_entries r) \<ge> so_max_entries options then
       (\<lparr>co_continue = False, co_included = False, co_disable_recursion = False\<rparr>,
        append_diagnostic r EntryLimitExceeded Scan_Error ''Scanner entry limit exceeded.'' [])
     else (\<lparr>co_continue = True, co_included = True, co_disable_recursion = False\<rparr>,
        (size_noted fs path (the (fs_symlink_status fs path)) r)
          \<lparr>rs_entries := rs_entries r @ [recorded fs path is_root]\<rparr>))"
  using assms unfolding readable_def recorded_def
  by (auto simp: collect_one_entry_def kept_def excluded_def included_def is_dir_def normal_path_def Let_def
      fill_entry_metadata_split split: if_splits)


lemma recorded_keeps [simp]:
  "rw_normalized_path (recorded fs path is_root) = normal_path fs path"
  "rw_parent_path (recorded fs path is_root) = (if is_root then [] else path_parent (normal_path fs path))"
  by (simp_all add: recorded_def)

lemma scan_walk_complete:
  "walk_readable fs items \<Longrightarrow>
    length (rs_entries r) + length (visible fs options items) \<le> so_max_entries options \<Longrightarrow>
    \<exists>r'. scan_walk fs options root items r = (True, r') \<and>
      rs_entries r' = rs_entries r @ map (\<lambda>p. recorded fs p False) (visible fs options items)"
proof (induction fs options root items r rule: scan_walk.induct)
  case (3 fs options root path below rest r)
  have readable: "readable fs path" "walk_readable fs below" "walk_readable fs rest" using "3.prems"(1) by simp_all
  let ?np = "normal_path fs path" and ?d = "is_dir fs path"
  show ?case
  proof (cases "kept options ?np ?d")
    case True
    then have v: "visible fs options (Visit path below # rest) = path # visible fs options below @ visible fs options rest"
      by (auto simp: kept_def)
    note room = "3.prems"(2) [unfolded v]
    have limit: "\<not> so_max_entries options \<le> length (rs_entries r)" using room by simp
    let ?o = "\<lparr>co_continue = True, co_included = True, co_disable_recursion = False\<rparr>"
    let ?r = "(size_noted fs path (the (fs_symlink_status fs path)) r)\<lparr>rs_entries := rs_entries r @ [recorded fs path False]\<rparr>"
    have c: "collect_one_entry fs options path False r = (?o, ?r)"
      using collect_kept [OF readable(1), of False options r] True limit by simp
    from "3.IH"(2) [OF refl c [symmetric]] readable room obtain r1 where
      r1: "scan_walk fs options root below ?r = (True, r1)"
        "rs_entries r1 = rs_entries ?r @ map (\<lambda>p. recorded fs p False) (visible fs options below)"
      by auto
    from "3.IH"(3) [OF refl c [symmetric] _ _ refl r1(1) [symmetric]] readable room r1(2) obtain r2 where
      r2: "scan_walk fs options root rest r1 = (True, r2)"
        "rs_entries r2 = rs_entries r1 @ map (\<lambda>p. recorded fs p False) (visible fs options rest)"
      by auto
    show ?thesis unfolding v using c r1 r2 by simp
  next
    case False
    let ?o = "\<lparr>co_continue = True, co_included = False, co_disable_recursion = (?d \<and> excluded options ?np)\<rparr>"
    have c: "collect_one_entry fs options path False r = (?o, r)"
      by (rule collect_dropped [OF readable(1) _ False]) simp
    show ?thesis
    proof (cases "?d \<and> excluded options ?np")
      case True
      then have v: "visible fs options (Visit path below # rest) = visible fs options rest" by simp
      from "3.IH"(1) [OF refl c [symmetric]] readable "3.prems"(2) [unfolded v] True show ?thesis
        unfolding v using c by auto
    next
      case no_prune: False
      then have v: "visible fs options (Visit path below # rest) = visible fs options below @ visible fs options rest"
        using False by auto
      note room = "3.prems"(2) [unfolded v]
      from "3.IH"(2) [OF refl c [symmetric]] readable room no_prune obtain r1 where
        r1: "scan_walk fs options root below r = (True, r1)"
          "rs_entries r1 = rs_entries r @ map (\<lambda>p. recorded fs p False) (visible fs options below)"
        by auto
      from "3.IH"(3) [OF refl c [symmetric] _ _ refl r1(1) [symmetric]] readable room r1(2) no_prune obtain r2 where
        r2: "scan_walk fs options root rest r1 = (True, r2)"
          "rs_entries r2 = rs_entries r1 @ map (\<lambda>p. recorded fs p False) (visible fs options rest)"
        by auto
      show ?thesis unfolding v using c r1 r2 no_prune by auto
    qed
  qed
qed simp_all

text \<open>What holds of every scan, complete or cut short.\<close>

definition permitted :: "file_system \<Rightarrow> scan_options \<Rightarrow> string \<Rightarrow> raw_entry \<Rightarrow> bool" where
  "permitted fs options root e \<longleftrightarrow> e = recorded fs root True \<or>
    kept options (rw_normalized_path e) (rw_type e = EntryType_Directory)"

definition scan_inv :: "file_system \<Rightarrow> scan_options \<Rightarrow> string \<Rightarrow> raw_scan_result \<Rightarrow> bool" where
  "scan_inv fs options root r \<longleftrightarrow> length (rs_entries r) \<le> so_max_entries options \<and>
    (\<forall>e\<in>set (rs_entries r). permitted fs options root e)"

lemma permitted_recorded:
  assumes "is_root \<and> path = root \<or> kept options (normal_path fs path) (is_dir fs path)"
  shows "permitted fs options root (recorded fs path is_root)"
proof -
  have "rw_type (recorded fs path is_root) = map_entry_type (the (fs_symlink_status fs path))"
    by (simp add: recorded_def)
  then have "rw_type (recorded fs path is_root) = EntryType_Directory \<longleftrightarrow> is_dir fs path"
    by (cases "st_type (the (fs_symlink_status fs path))") (simp_all add: is_dir_def map_entry_type_def)
  then show ?thesis using assms by (auto simp: permitted_def)
qed

lemma collect_one_entry_inv:
  assumes "scan_inv fs options root r" and "is_root \<longrightarrow> path = root"
  shows "scan_inv fs options root (snd (collect_one_entry fs options path is_root r))"
proof (cases "readable fs path")
  case False
  then show ?thesis using collect_unreadable [OF False, of options is_root r] assms by (auto simp: scan_inv_def)
next
  case True
  show ?thesis
  proof (cases "is_root \<or> kept options (normal_path fs path) (is_dir fs path)")
    case keep: True
    show ?thesis using assms permitted_recorded [of is_root path root options fs] keep
      unfolding collect_kept [OF True keep] by (auto simp: scan_inv_def)
  next
    case False
    then show ?thesis using assms collect_dropped [OF True, of is_root options r] by auto
  qed
qed

lemma scan_walk_inv: "scan_inv fs options root0 r \<Longrightarrow> scan_inv fs options root0 (snd (scan_walk fs options root items r))"
proof (induction fs options root items r rule: scan_walk.induct)
  case (2 fs options root rest r)
  then show ?case by (simp add: scan_inv_def)
next
  case (3 fs options root path below rest r)
  obtain o1 r1 where c: "collect_one_entry fs options path False r = (o1, r1)" by (cases "collect_one_entry fs options path False r")
  obtain g2 r2 where w: "scan_walk fs options root below r1 = (g2, r2)" by (cases "scan_walk fs options root below r1")
  have i1: "scan_inv fs options root0 r1" using collect_one_entry_inv [OF "3.prems", of False path] c by (metis snd_conv)
  show ?case
  proof (cases "co_continue o1 \<and> \<not> (\<not> co_included o1 \<and> co_disable_recursion o1)")
    case True
    have i2: "scan_inv fs options root0 r2" using "3.IH"(2) [OF refl c [symmetric]] True i1 w by simp
    then show ?thesis using "3.IH"(3) [OF refl c [symmetric] _ _ refl w [symmetric]] True c w by auto
  next
    case False
    then show ?thesis using "3.IH"(1) [OF refl c [symmetric]] i1 c by auto
  qed
qed simp


lemma scan_inv_scan: "scan_inv fs options root (scan fs root options)"
proof (cases "fs_exists fs root \<and> fs_is_directory fs root \<and> readable fs root \<and> normal_path fs root \<noteq> []")
  case True
  then obtain c cs where n: "normalize_absolute_path fs root = Some (c # cs)"
    by (cases "normal_path fs root") (auto simp: readable_def normal_path_def)
  let ?r0 = "\<lparr>rs_host_identifier = fs_host fs, rs_root_path = c # cs, rs_scanned_at = fs_now fs,
    rs_entries = [], rs_diagnostics = []\<rparr>"
  let ?items = "fs_walk fs root (so_follow_symlinks options)"
  obtain o1 r1 where c: "collect_one_entry fs options root True ?r0 = (o1, r1)"
    by (cases "collect_one_entry fs options root True ?r0")
  have "scan_inv fs options root ?r0" by (simp add: scan_inv_def)
  from collect_one_entry_inv [OF this, of True root] c have i1: "scan_inv fs options root r1" by (metis snd_conv)
  obtain g r2 where w: "scan_walk fs options root ?items r1 = (g, r2)"
    by (cases "scan_walk fs options root ?items r1")
  have "scan_inv fs options root r2" using scan_walk_inv [OF i1] w by (metis snd_conv)
  then have "scan_inv fs options root (r2\<lparr>rs_entries := sort_key scan_key (rs_entries r2)\<rparr>)"
    by (simp add: scan_inv_def)
  then show ?thesis using i1 True n c w by (simp add: scan_def)
next
  case False
  have stop: "scan_inv fs options root (append_diagnostic r c s m p)" if "rs_entries r = []" for r c s m p
    using that by (simp add: scan_inv_def)
  have unread: "scan fs root options = snd (collect_one_entry fs options root True
      \<lparr>rs_host_identifier = fs_host fs, rs_root_path = c # cs, rs_scanned_at = fs_now fs,
       rs_entries = [], rs_diagnostics = []\<rparr>)"
    if "fs_exists fs root" "fs_is_directory fs root" "normalize_absolute_path fs root = Some (c # cs)"
      "\<not> readable fs root" for c cs
  proof -
    note prems = that
    let ?r0 = "\<lparr>rs_host_identifier = fs_host fs, rs_root_path = c # cs, rs_scanned_at = fs_now fs,
      rs_entries = [], rs_diagnostics = []\<rparr>"
    obtain x r1 where "collect_one_entry fs options root True ?r0 = (x, r1)" "\<not> co_continue x"
      using collect_unreadable [OF prems(4), of options True ?r0] by blast
    then show ?thesis using prems(1-3) by (simp add: scan_def)
  qed
  have "normalize_absolute_path fs root = None \<or> normalize_absolute_path fs root = Some [] \<or>
      (\<exists>c cs. normalize_absolute_path fs root = Some (c # cs) \<and> \<not> readable fs root)"
    if "fs_exists fs root" "fs_is_directory fs root"
    using False that by (cases "normalize_absolute_path fs root"; cases "normal_path fs root")
      (auto simp: normal_path_def)
  then consider "\<not> fs_exists fs root" | "fs_exists fs root" "\<not> fs_is_directory fs root"
    | "fs_exists fs root" "fs_is_directory fs root" "normalize_absolute_path fs root = None"
    | "fs_exists fs root" "fs_is_directory fs root" "normalize_absolute_path fs root = Some []"
    | c cs where "fs_exists fs root" "fs_is_directory fs root" "normalize_absolute_path fs root = Some (c # cs)"
      "\<not> readable fs root"
    by metis
  then show ?thesis
  proof cases
    case (5 c cs)
    show ?thesis unfolding unread [OF 5] by (rule collect_one_entry_inv) (simp_all add: scan_inv_def)
  qed (simp_all add: scan_def Let_def stop)
qed

subsection \<open>Properties\<close>

text \<open>
  C29: when every visited path can be read and the limit is large enough, the scan records exactly the root
  and the visible entries of the tree: excluded directories with everything below them are left out, files
  are kept when no exclude glob and, if there are include globs, some include glob matches; the entries are
  sorted by path and name.
\<close>

theorem scan_records_visible_tree:
  assumes "fs_exists fs root" and "fs_is_directory fs root" and "readable fs root" and "normal_path fs root \<noteq> []"
    and "walk_readable fs (fs_walk fs root (so_follow_symlinks options))"
    and "length (visible fs options (fs_walk fs root (so_follow_symlinks options))) < so_max_entries options"
  shows "let es = rs_entries (scan fs root options) in
    mset es = mset (recorded fs root True #
      map (\<lambda>p. recorded fs p False) (visible fs options (fs_walk fs root (so_follow_symlinks options)))) \<and>
    sorted (map scan_key es)"
proof -
  obtain c cs where n: "normalize_absolute_path fs root = Some (c # cs)"
    using assms(3,4) by (cases "normal_path fs root") (auto simp: readable_def normal_path_def)
  let ?r0 = "\<lparr>rs_host_identifier = fs_host fs, rs_root_path = c # cs, rs_scanned_at = fs_now fs,
    rs_entries = [], rs_diagnostics = []\<rparr>"
  let ?items = "fs_walk fs root (so_follow_symlinks options)"
  obtain r1 where r1: "collect_one_entry fs options root True ?r0 =
      (\<lparr>co_continue = True, co_included = True, co_disable_recursion = False\<rparr>, r1)"
    "rs_entries r1 = [recorded fs root True]"
    using collect_kept [OF assms(3), of True options ?r0] assms(6) by simp
  obtain r2 where "scan_walk fs options root ?items r1 = (True, r2)"
    "rs_entries r2 = rs_entries r1 @ map (\<lambda>p. recorded fs p False) (visible fs options ?items)"
    using scan_walk_complete [OF assms(5), of r1 options root] assms(6) r1(2) by auto
  then have "rs_entries (scan fs root options) =
      sort_key scan_key (recorded fs root True # map (\<lambda>p. recorded fs p False) (visible fs options ?items))"
    using assms(1,2) n r1 by (simp add: scan_def)
  then show ?thesis by (simp add: sorted_sort_key del: sort_key_simps)
qed

text \<open>
  C30: whatever errors a scan meets, it never records more than \<open>max_entries\<close> entries; no recorded entry other
  than the root matches an exclude glob; and every recorded entry other than the root that is not a directory
  satisfies the include globs (a directory is recorded without asking them).
\<close>

theorem scan_respects_policy:
  "length (rs_entries (scan fs root options)) \<le> so_max_entries options \<and>
   list_all (permitted fs options root) (rs_entries (scan fs root options))"
  using scan_inv_scan [of fs options root] by (simp add: scan_inv_def list_all_iff)

text \<open>Concrete trees for the instances: paths are absolute already, and a path is a directory or a file.\<close>

definition example_fs :: "string list \<Rightarrow> string list \<Rightarrow> walk_item list \<Rightarrow> file_system" where
  "example_fs dirs vanished items = \<lparr>fs_host = ''h'', fs_now = 0, fs_exists = (\<lambda>p. True), fs_is_directory = (\<lambda>p. p \<in> set dirs),
    fs_absolute = Some,
    fs_symlink_status = (\<lambda>p. if p \<in> set vanished then None
      else Some \<lparr>st_type = (if p \<in> set dirs then FT_directory else FT_regular), st_permissions = 0\<rparr>),
    fs_file_size = (\<lambda>p. Some 0), fs_last_write_time = (\<lambda>p. Some 0), fs_lstat = (\<lambda>p. None),
    fs_walk = (\<lambda>root follow. items)\<rparr>"

definition example_options :: "string list \<Rightarrow> scan_options" where
  "example_options exclude = \<lparr>so_follow_symlinks = False, so_max_entries = 10, so_include_globs = [],
    so_exclude_globs = exclude, so_case_sensitive_globs = True\<rparr>"

theorem scan_records_visible_tree_witness:
  "let fs = example_fs [''/r'', ''/r/d''] [] [Visit ''/r/d'' [Visit ''/r/d/x'' []], Visit ''/r/f'' []];
       es = rs_entries (scan fs ''/r'' (example_options [''d'']))
   in mset es = mset (recorded fs ''/r'' True #
      map (\<lambda>p. recorded fs p False) (visible fs (example_options [''d'']) (fs_walk fs ''/r'' (so_follow_symlinks (example_options [''d'']))))) \<and>
    sorted (map scan_key es)"
  unfolding Let_def
  by (rule scan_records_visible_tree [unfolded Let_def]; code_simp)

text \<open>
  One entry that disappears between being listed and being examined ends the whole scan: the entries
  visited after it are missing from the result, and the only trace is a warning.
\<close>

lemma vanished_entry_truncates_scan:
  "let items = [Visit ''/r/a'' [], Visit ''/r/b'' [], Visit ''/r/c'' []];
       r = scan (example_fs [''/r''] [''/r/b''] items) ''/r'' (example_options [])
   in map rw_normalized_path (rs_entries r) = [''/r'', ''/r/a''] \<and>
      map sd_severity (rs_diagnostics r) = [Scan_Warning] \<and>
      map rw_normalized_path (rs_entries (scan (example_fs [''/r''] [] items) ''/r'' (example_options []))) =
        [''/r'', ''/r/a'', ''/r/b'', ''/r/c'']"
  by code_simp

end
