(* ===== verification/Decimal.thy ===== *)
theory Decimal imports Prelude begin

text \<open>
  Decimal numbers as the standard library writes and reads them: insertion of an integer into an output
  stream, and \<open>std::stoull\<close>.
\<close>

subsection \<open>Writing\<close>

fun show_nat :: "nat \<Rightarrow> string" where
  "show_nat n = (if n < 10 then [char_of (48 + n)] else show_nat (n div 10) @ [char_of (48 + n mod 10)])"

declare show_nat.simps [simp del]

definition show_word :: "'a::len word \<Rightarrow> string" where
  "show_word w = show_nat (unat w)"

definition show_signed :: "i64 \<Rightarrow> string" where
  "show_signed w = (if sint w < 0 then CHR ''-'' # show_nat (nat (- sint w)) else show_nat (nat (sint w)))"

definition show_int :: "int \<Rightarrow> string" where
  "show_int i = (if i < 0 then CHR ''-'' # show_nat (nat (- i)) else show_nat (nat i))"

subsection \<open>Reading\<close>

definition is_digit :: "char \<Rightarrow> bool" where
  "is_digit c \<longleftrightarrow> (48::nat) \<le> of_char c \<and> of_char c \<le> (57::nat)"

definition is_space :: "char \<Rightarrow> bool" where
  "is_space c \<longleftrightarrow> of_char c = (32::nat) \<or> (9::nat) \<le> of_char c \<and> of_char c \<le> (13::nat)"

definition digits_value :: "string \<Rightarrow> nat" where
  "digits_value ds = foldl (\<lambda>v c. 10 * v + (of_char c - 48)) 0 ds"

text \<open>
  \<open>std::stoull\<close> in base ten: leading white space and one sign are skipped, the digits up to the first other
  character are read, a minus sign negates modulo \<open>2 ^ 64\<close>.  \<open>None\<close> is the exception: no digit, or a
  value out of range.
\<close>

definition stoull :: "string \<Rightarrow> u64 option" where
  "stoull s =
    (let s = dropWhile is_space s;
         negative = (s \<noteq> [] \<and> hd s = CHR ''-'');
         s = (if s \<noteq> [] \<and> (hd s = CHR ''-'' \<or> hd s = CHR ''+'') then tl s else s);
         ds = takeWhile is_digit s;
         v = digits_value ds
     in if ds = [] then None
        else if v \<ge> 2 ^ 64 then None
        else Some (if negative then - of_nat v else of_nat v))"

subsection \<open>Reading back what was written\<close>

lemma of_char_digit: "d < 10 \<Longrightarrow> of_char (char_of (48 + d :: nat) :: char) = 48 + d"
  by (simp add: of_char_of)

lemma is_digit_digit: "d < 10 \<Longrightarrow> is_digit (char_of (48 + d :: nat))"
  by (simp add: is_digit_def of_char_digit)

lemma digits_value_snoc: "digits_value (ds @ [c]) = 10 * digits_value ds + (of_char c - 48)"
  by (simp add: digits_value_def)

lemma show_nat_digits: "list_all is_digit (show_nat n) \<and> show_nat n \<noteq> [] \<and> digits_value (show_nat n) = n"
proof (induction n rule: show_nat.induct)
  case (1 n)
  show ?case
  proof (cases "n < 10")
    case True
    then show ?thesis
      by (simp add: show_nat.simps [of n] is_digit_digit digits_value_def of_char_digit)
  next
    case False
    then show ?thesis
      using "1.IH" by (simp add: show_nat.simps [of n] is_digit_digit digits_value_snoc of_char_digit)
  qed
qed

lemma show_nat_inj: "show_nat m = show_nat n \<longleftrightarrow> m = n"
  by (metis show_nat_digits)

lemma show_word_inj [simp]: "show_word v = show_word w \<longleftrightarrow> v = w"
  by (simp add: show_word_def show_nat_inj word_unat_eq_iff)

lemma digit_not_space: "is_digit c \<Longrightarrow> \<not> is_space c"
  by (auto simp: is_digit_def is_space_def)

lemma digit_not_sign: "is_digit c \<Longrightarrow> c \<noteq> CHR ''-'' \<and> c \<noteq> CHR ''+'' \<and> c \<noteq> CHR ''#''"
  by (auto simp: is_digit_def)

lemma show_word_digits: "list_all is_digit (show_word w)" "show_word w \<noteq> []"
  using show_nat_digits by (simp_all add: show_word_def)

text \<open>\<open>stoull\<close> stops at the first character that is not a digit.\<close>

lemma stoull_show_word:
  assumes "rest = [] \<or> \<not> is_digit (hd rest)" shows "stoull (show_word (w :: u64) @ rest) = Some w"
proof -
  obtain c cs where s: "show_word w = c # cs" "is_digit c"
    using show_word_digits [of w] by (cases "show_word w") auto
  have "takeWhile is_digit (show_word w @ rest) = show_word w"
    using show_word_digits(1) [of w] assms by (cases rest) (auto simp: list_all_iff takeWhile_append)
  moreover have "digits_value (show_word w) = unat w" using show_nat_digits by (simp add: show_word_def)
  moreover have "unat w < 2 ^ 64" using unsigned_less [of w, where ?'a = nat] by simp
  ultimately show ?thesis
    using s digit_not_space [OF s(2)] digit_not_sign [OF s(2)] by (simp add: stoull_def)
qed

end
