(* ===== verification/SnapshotBuilder.thy ===== *)
theory SnapshotBuilder imports ValidationGraph FilesystemScanner Hash Decimal begin

text \<open>
  The snapshot builder, \<open>src/backend/Muninn/snapshot/snapshot_builder.cpp\<close>: from the entries of a scan to a
  snapshot with stable identifiers and parent links, with the path helpers of
  \<open>src/backend/Muninn/utils/path_utils.hpp\<close>.
\<close>

subsection \<open>Path helpers\<close>

definition normalize_path_lexical :: "string \<Rightarrow> string" where
  "normalize_path_lexical path = lexically_normal path"

definition filename_from_path :: "string \<Rightarrow> string" where
  "filename_from_path path = path_filename path"

definition parent_from_path :: "string \<Rightarrow> string" where
  "parent_from_path path = path_parent path"

subsection \<open>Results\<close>

datatype build_severity = Build_Info | Build_Warning | Build_Error

datatype build_diagnostic_code =
  Build_None | RootEntryMissing | ParentPathMissing | DuplicatePath | StableIdCollision

record build_diagnostic =
  bd_code :: build_diagnostic_code
  bd_severity :: build_severity
  bd_message :: string
  bd_path :: string

record build_options =
  bo_snapshot_id :: snapshot_id
  bo_created_at :: unix_timestamp

record build_result =
  br_snapshot :: snapshot
  br_diagnostics :: "build_diagnostic list"

definition diagnostic :: "build_diagnostic_code \<Rightarrow> build_severity \<Rightarrow> string \<Rightarrow> string \<Rightarrow> build_diagnostic" where
  "diagnostic code severity message path =
    \<lparr>bd_code = code, bd_severity = severity, bd_message = message, bd_path = path\<rparr>"

subsection \<open>Stable identifiers\<close>

definition make_base_stable_key :: "raw_entry \<Rightarrow> string \<Rightarrow> string" where
  "make_base_stable_key entry normalized_path =
    show_word (rw_type entry) @ ''|'' @
    (if md_device_id (rw_metadata entry) \<noteq> 0 \<and> md_file_id (rw_metadata entry) \<noteq> 0
     then show_word (md_device_id (rw_metadata entry)) @ ''|'' @ show_word (md_file_id (rw_metadata entry))
     else normalized_path)"

definition salted_key :: "string \<Rightarrow> string \<Rightarrow> u32 \<Rightarrow> string" where
  "salted_key base_key normalized_path salt =
    base_key @ ''|path='' @ normalized_path @ ''|salt='' @ show_word salt"

definition candidate_id :: "string \<Rightarrow> entry_id" where
  "candidate_id candidate_key = (if fnv1a64 candidate_key = 0 then 1 else fnv1a64 candidate_key)"

definition collision_diagnostic :: "string \<Rightarrow> build_diagnostic" where
  "collision_diagnostic normalized_path = diagnostic StableIdCollision Build_Warning
    ''Stable ID collision resolved with deterministic salt.'' normalized_path"

text \<open>
  The search for a free identifier.  The salt wraps around and nothing stops the loop when every candidate
  is taken, so the result is \<open>None\<close> when it does not return.
\<close>

partial_function (option) stable_id_loop ::
  "string \<Rightarrow> string \<Rightarrow> (entry_id \<rightharpoonup> string) \<Rightarrow> u32 \<Rightarrow> string \<Rightarrow> build_diagnostic list \<Rightarrow>
    (entry_id \<times> (entry_id \<rightharpoonup> string) \<times> build_diagnostic list) option" where
  "stable_id_loop base_key path used_ids salt candidate_key diagnostics =
    (let c = candidate_id candidate_key
     in if used_ids c = None then Some (c, used_ids(c \<mapsto> candidate_key), diagnostics)
        else stable_id_loop base_key path used_ids (salt + 1) (salted_key base_key path (salt + 1))
               (diagnostics @ [collision_diagnostic path]))"

declare stable_id_loop.simps [code]

definition generate_stable_id ::
  "raw_entry \<Rightarrow> string \<Rightarrow> (entry_id \<rightharpoonup> string) \<Rightarrow> build_diagnostic list \<Rightarrow>
    (entry_id \<times> (entry_id \<rightharpoonup> string) \<times> build_diagnostic list) option" where
  "generate_stable_id entry normalized_path used_ids diagnostics =
    (let base_key = make_base_stable_key entry normalized_path
     in stable_id_loop base_key normalized_path used_ids 0 base_key diagnostics)"

subsection \<open>The identifier of a snapshot\<close>

definition entry_text :: "file_entry \<Rightarrow> string" where
  "entry_text entry =
    show_word (fe_id entry) @ ''|'' @ show_word (fe_parent_id entry) @ ''|'' @ show_word (fe_type entry) @ ''|'' @
    fe_normalized_path entry @ ''|'' @ fe_name entry @ ''|'' @
    show_word (md_size_bytes (fe_metadata entry)) @ ''|'' @ show_signed (md_created_at (fe_metadata entry)) @ ''|'' @
    show_signed (md_modified_at (fe_metadata entry)) @ ''|'' @ show_signed (md_accessed_at (fe_metadata entry)) @ ''|'' @
    show_word (md_permissions (fe_metadata entry)) @ ''|'' @ show_word (md_file_id (fe_metadata entry)) @ ''|'' @
    show_word (md_device_id (fe_metadata entry)) @ ''|'' @
    (case md_content_hash (fe_metadata entry) of Some h \<Rightarrow> show_word h | None \<Rightarrow> ''null'') @ '';''"

definition snapshot_text :: "snapshot \<Rightarrow> string" where
  "snapshot_text snapshot =
    show_word (sc_major (sn_schema snapshot)) @ ''|'' @ show_word (sc_minor (sn_schema snapshot)) @ ''|'' @
    show_word (sc_patch (sn_schema snapshot)) @ ''|'' @ show_word (sc_min_reader_major (sn_schema snapshot)) @ ''|'' @
    sn_host_identifier snapshot @ ''|'' @ show_signed (sn_created_at snapshot) @ ''|'' @
    show_word (sn_root_entry_id snapshot) @ ''|'' @ show_nat (length (sn_entries snapshot)) @ ''|'' @
    concat (map entry_text (sn_entries snapshot))"

definition compute_snapshot_id :: "snapshot \<Rightarrow> snapshot_id" where
  "compute_snapshot_id snapshot =
    (let snapshot_id = fnv1a64 (snapshot_text snapshot) in if snapshot_id = 0 then 1 else snapshot_id)"

subsection \<open>Building\<close>

text \<open>The state of the first loop: the entries so far, the index of each path, and the identifiers in use.\<close>

record build_state =
  bs_entries :: "file_entry list"
  bs_path_to_index :: "string \<rightharpoonup> nat"
  bs_used_ids :: "entry_id \<rightharpoonup> string"
  bs_diagnostics :: "build_diagnostic list"

definition add_raw_entry :: "raw_entry \<Rightarrow> build_state \<Rightarrow> build_state option" where
  "add_raw_entry raw_entry s =
    (let normalized_path = normalize_path_lexical (rw_normalized_path raw_entry)
     in if bs_path_to_index s normalized_path \<noteq> None
        then Some (s\<lparr>bs_diagnostics := bs_diagnostics s @
          [diagnostic DuplicatePath Build_Warning ''Duplicate path in scan result ignored.'' normalized_path]\<rparr>)
        else (case generate_stable_id raw_entry normalized_path (bs_used_ids s) (bs_diagnostics s) of
            None \<Rightarrow> None
          | Some (i, used, diagnostics) \<Rightarrow>
              (let snapshot_entry = \<lparr>fe_id = i, fe_parent_id = 0, fe_normalized_path = normalized_path,
                     fe_name = (if rw_name raw_entry = [] then filename_from_path normalized_path else rw_name raw_entry),
                     fe_type = rw_type raw_entry, fe_metadata = rw_metadata raw_entry\<rparr>
               in Some \<lparr>bs_entries = bs_entries s @ [snapshot_entry],
                    bs_path_to_index = (bs_path_to_index s)(normalized_path \<mapsto> length (bs_entries s)),
                    bs_used_ids = used, bs_diagnostics = diagnostics\<rparr>)))"

fun add_raw_entries :: "raw_entry list \<Rightarrow> build_state \<Rightarrow> build_state option" where
  "add_raw_entries [] s = Some s"
| "add_raw_entries (e # es) s = (case add_raw_entry e s of None \<Rightarrow> None | Some s' \<Rightarrow> add_raw_entries es s')"

text \<open>
  The second loop sets the parents.  It reads only the identifiers of the entries, which it never writes,
  so \<open>all\<close> can be the list before the loop.
\<close>

fun link_parents ::
  "string \<Rightarrow> (string \<rightharpoonup> nat) \<Rightarrow> file_entry list \<Rightarrow> file_entry list \<Rightarrow>
    entry_id \<Rightarrow> build_diagnostic list \<Rightarrow> file_entry list \<times> entry_id \<times> build_diagnostic list" where
  "link_parents root_path index all [] root_id diagnostics = ([], root_id, diagnostics)"
| "link_parents root_path index all (entry # es) root_id diagnostics =
    (if fe_normalized_path entry = root_path then
       (let (es', r, d) = link_parents root_path index all es (fe_id entry) diagnostics
        in (entry\<lparr>fe_parent_id := 0\<rparr> # es', r, d))
     else (case index (parent_from_path (fe_normalized_path entry)) of
         None \<Rightarrow>
           (let (es', r, d) = link_parents root_path index all es root_id
                  (diagnostics @ [diagnostic ParentPathMissing Build_Error
                     ''Parent path not found while building snapshot entry graph.'' (fe_normalized_path entry)])
            in (entry\<lparr>fe_parent_id := 0\<rparr> # es', r, d))
       | Some i \<Rightarrow>
           (let (es', r, d) = link_parents root_path index all es root_id diagnostics
            in (entry\<lparr>fe_parent_id := fe_id (all ! i)\<rparr> # es', r, d))))"

text \<open>When no entry had the root path, the first one becomes the root.\<close>

definition fallback_root ::
  "string \<Rightarrow> file_entry list \<Rightarrow> entry_id \<Rightarrow> build_diagnostic list \<Rightarrow>
    file_entry list \<times> entry_id \<times> build_diagnostic list" where
  "fallback_root root_path entries root_id diagnostics =
    (case entries of
       first # rest \<Rightarrow>
         if root_id = 0
         then (first\<lparr>fe_parent_id := 0\<rparr> # rest, fe_id first,
           diagnostics @ [diagnostic RootEntryMissing Build_Error
             ''Root entry was not found by root path; selected first entry as fallback.'' root_path])
         else (entries, root_id, diagnostics)
     | [] \<Rightarrow> (entries, root_id, diagnostics))"

definition build :: "raw_scan_result \<Rightarrow> build_options \<Rightarrow> build_result option" where
  "build scan_result options =
    (case add_raw_entries (sort_key rw_normalized_path (rs_entries scan_result))
        \<lparr>bs_entries = [], bs_path_to_index = Map.empty, bs_used_ids = Map.empty, bs_diagnostics = []\<rparr> of
       None \<Rightarrow> None
     | Some s \<Rightarrow>
       (let root_path = normalize_path_lexical (rs_root_path scan_result);
            (entries, root_id, diagnostics) =
              link_parents root_path (bs_path_to_index s) (bs_entries s) (bs_entries s) 0 (bs_diagnostics s);
            (entries, root_id, diagnostics) = fallback_root root_path entries root_id diagnostics;
            snapshot = \<lparr>sn_schema = kCurrentSchemaHeader, sn_snapshot_id = bo_snapshot_id options,
              sn_created_at = (if bo_created_at options \<noteq> 0 then bo_created_at options else rs_scanned_at scan_result),
              sn_host_identifier = rs_host_identifier scan_result, sn_root_entry_id = root_id, sn_entries = entries\<rparr>;
            snapshot = (if sn_snapshot_id snapshot = 0
              then snapshot\<lparr>sn_snapshot_id := compute_snapshot_id snapshot\<rparr> else snapshot)
        in Some \<lparr>br_snapshot = snapshot, br_diagnostics = diagnostics\<rparr>))"


subsection \<open>The search for an identifier\<close>

lemma candidate_id_nonzero [simp]: "candidate_id k \<noteq> 0"
  by (simp add: candidate_id_def)

lemma stable_id_loop_result:
  assumes "stable_id_loop b p used salt k d = Some r"
  shows "fst r \<noteq> 0 \<and> used (fst r) = None \<and> (\<exists>key. fst (snd r) = used(fst r \<mapsto> key))"
proof (rule stable_id_loop.raw_induct [where P = "\<lambda>b p used salt k d r. fst r \<noteq> 0 \<and> used (fst r) = None \<and> (\<exists>key. fst (snd r) = used(fst r \<mapsto> key))", OF _ assms])
  fix loop b p used salt k d r
  assume IH: "\<And>b p used salt k d y. loop b p used salt k d = Some y \<Longrightarrow>
      fst y \<noteq> 0 \<and> used (fst y) = None \<and> (\<exists>key. fst (snd y) = used(fst y \<mapsto> key))"
    and step: "(let c = candidate_id k in if used c = None then Some (c, used(c \<mapsto> k), d)
      else loop b p used (salt + 1) (salted_key b p (salt + 1)) (d @ [collision_diagnostic p])) = Some r"
  show "fst r \<noteq> 0 \<and> used (fst r) = None \<and> (\<exists>key. fst (snd r) = used(fst r \<mapsto> key))"
  proof (cases "used (candidate_id k) = None")
    case True
    then show ?thesis using step by (auto simp: Let_def)
  next
    case False
    have "loop b p used (salt + 1) (salted_key b p (salt + 1)) (d @ [collision_diagnostic p]) = Some r"
      using step unfolding Let_def if_not_P [OF False] .
    then show ?thesis by (rule IH)
  qed
qed

lemma stable_id_loop_free:
  "used (candidate_id k) = None \<Longrightarrow>
    stable_id_loop b p used salt k d = Some (candidate_id k, used(candidate_id k \<mapsto> k), d)"
  by (subst stable_id_loop.simps) (simp add: Let_def)

subsection \<open>The first loop\<close>

definition entry_of_raw :: "raw_entry \<Rightarrow> string \<times> entry_type" where
  "entry_of_raw r = (normalize_path_lexical (rw_normalized_path r), rw_type r)"

definition build_inv :: "build_state \<Rightarrow> bool" where
  "build_inv s \<longleftrightarrow> distinct (map fe_id (bs_entries s)) \<and> 0 \<notin> fe_id ` set (bs_entries s) \<and>
    dom (bs_used_ids s) = fe_id ` set (bs_entries s) \<and>
    distinct (map fe_normalized_path (bs_entries s)) \<and>
    dom (bs_path_to_index s) = fe_normalized_path ` set (bs_entries s) \<and>
    (\<forall>p i. bs_path_to_index s p = Some i \<longrightarrow> i < length (bs_entries s) \<and> fe_normalized_path (bs_entries s ! i) = p)"

definition path_type :: "file_entry \<Rightarrow> string \<times> entry_type" where
  "path_type e = (fe_normalized_path e, fe_type e)"

lemma add_raw_entry_new:
  assumes new: "bs_path_to_index s (fst (entry_of_raw r)) = None" and inv: "build_inv s"
    and ret: "add_raw_entry r s = Some s'"
  shows "build_inv s'" "map path_type (bs_entries s') = map path_type (bs_entries s) @ [entry_of_raw r]"
proof -
  let ?p = "normalize_path_lexical (rw_normalized_path r)"
  obtain i used d where g: "generate_stable_id r ?p (bs_used_ids s) (bs_diagnostics s) = Some (i, used, d)"
    using ret new by (cases "generate_stable_id r ?p (bs_used_ids s) (bs_diagnostics s)")
      (auto simp: add_raw_entry_def entry_of_raw_def Let_def)
  let ?e = "\<lparr>fe_id = i, fe_parent_id = 0, fe_normalized_path = ?p,
    fe_name = (if rw_name r = [] then filename_from_path ?p else rw_name r), fe_type = rw_type r, fe_metadata = rw_metadata r\<rparr>"
  have s': "s' = \<lparr>bs_entries = bs_entries s @ [?e], bs_path_to_index = (bs_path_to_index s)(?p \<mapsto> length (bs_entries s)),
      bs_used_ids = used, bs_diagnostics = d\<rparr>"
    using ret new g by (simp add: add_raw_entry_def entry_of_raw_def Let_def)
  have i: "i \<noteq> 0" "bs_used_ids s i = None" "\<exists>key. used = (bs_used_ids s)(i \<mapsto> key)"
    using stable_id_loop_result [of _ _ _ _ _ _ "(i, used, d)"] g by (auto simp: generate_stable_id_def Let_def)
  have "i \<notin> dom (bs_used_ids s)" "?p \<notin> dom (bs_path_to_index s)"
    using i(2) new by (simp_all add: domIff entry_of_raw_def)
  then have "i \<notin> fe_id ` set (bs_entries s)" "?p \<notin> fe_normalized_path ` set (bs_entries s)"
    using inv by (simp_all add: build_inv_def)
  moreover have "dom used = insert i (fe_id ` set (bs_entries s))"
    using i(3) inv by (elim exE) (simp add: build_inv_def)
  moreover have "\<forall>p k. ((bs_path_to_index s)(?p \<mapsto> length (bs_entries s))) p = Some k \<longrightarrow>
      k < length (bs_entries s @ [?e]) \<and> fe_normalized_path ((bs_entries s @ [?e]) ! k) = p"
    using inv by (auto simp: build_inv_def nth_append less_SucI)
  ultimately show "build_inv s'"
    using inv i(1) unfolding build_inv_def s' by simp
  show "map path_type (bs_entries s') = map path_type (bs_entries s) @ [entry_of_raw r]"
    by (simp add: s' path_type_def entry_of_raw_def)
qed

lemma add_raw_entries_new:
  "add_raw_entries rs s = Some s' \<Longrightarrow> build_inv s \<Longrightarrow> distinct (map (fst \<circ> entry_of_raw) rs) \<Longrightarrow>
    \<forall>r\<in>set rs. bs_path_to_index s (fst (entry_of_raw r)) = None \<Longrightarrow>
    build_inv s' \<and> map path_type (bs_entries s') = map path_type (bs_entries s) @ map entry_of_raw rs"
proof (induction rs arbitrary: s)
  case (Cons r rs)
  then obtain s1 where s1: "add_raw_entry r s = Some s1" "add_raw_entries rs s1 = Some s'"
    by (auto split: option.splits)
  have inv: "build_inv s1" and pt: "map path_type (bs_entries s1) = map path_type (bs_entries s) @ [entry_of_raw r]"
    using add_raw_entry_new [OF _ Cons.prems(2) s1(1)] Cons.prems(4) by auto
  have paths: "dom (bs_path_to_index sx) = set (map fst (map path_type (bs_entries sx)))" if "build_inv sx" for sx
    using that by (simp add: path_type_def build_inv_def image_image)
  have new_dom: "dom (bs_path_to_index s1) = insert (fst (entry_of_raw r)) (dom (bs_path_to_index s))"
    unfolding paths [OF inv] paths [OF Cons.prems(2)] pt by simp
  have "bs_path_to_index s1 (fst (entry_of_raw q)) = None" if "q \<in> set rs" for q
  proof -
    note q = that
    have "fst (entry_of_raw q) \<noteq> fst (entry_of_raw r)" using Cons.prems(3) q by (auto simp: rev_image_eqI)
    moreover have "fst (entry_of_raw q) \<notin> dom (bs_path_to_index s)" using Cons.prems(4) q by auto
    ultimately have "fst (entry_of_raw q) \<notin> dom (bs_path_to_index s1)" using new_dom by simp
    then show ?thesis by (simp add: domIff)
  qed
  then have "\<forall>q\<in>set rs. bs_path_to_index s1 (fst (entry_of_raw q)) = None" by blast
  from Cons.IH [OF s1(2) inv _ this] Cons.prems(3) pt show ?case by simp
qed simp


subsection \<open>The second loop\<close>

definition linked :: "string \<Rightarrow> (string \<rightharpoonup> nat) \<Rightarrow> file_entry list \<Rightarrow> file_entry \<Rightarrow> file_entry" where
  "linked root_path index all e = e\<lparr>fe_parent_id :=
    (if fe_normalized_path e = root_path then 0
     else case index (parent_from_path (fe_normalized_path e)) of None \<Rightarrow> 0 | Some i \<Rightarrow> fe_id (all ! i))\<rparr>"

lemma linked_keeps [simp]:
  "fe_id (linked root_path index all e) = fe_id e"
  "fe_normalized_path (linked root_path index all e) = fe_normalized_path e"
  "fe_type (linked root_path index all e) = fe_type e"
  by (simp_all add: linked_def)

lemma link_parents_entries: "fst (link_parents root_path index all es root_id d) = map (linked root_path index all) es"
  by (induction root_path index all es root_id d rule: link_parents.induct)
    (auto simp: linked_def split: option.split prod.split)

lemma link_parents_root:
  "root_path \<notin> fe_normalized_path ` set es \<Longrightarrow> fst (snd (link_parents root_path index all es root_id d)) = root_id"
proof (induction es arbitrary: d)
  case (Cons e es)
  then show ?case by (simp split: option.split prod.split) (metis fst_conv snd_conv)
qed simp

lemma link_parents_finds_root:
  assumes "distinct (map fe_normalized_path es)" "e \<in> set es" "fe_normalized_path e = root_path"
  shows "fst (snd (link_parents root_path index all es root_id d)) = fe_id e"
  using assms
proof (induction es arbitrary: root_id d)
  case (Cons x es)
  show ?case
  proof (cases "x = e")
    case True
    then have "root_path \<notin> fe_normalized_path ` set es" using Cons.prems by auto
    from link_parents_root [OF this] show ?thesis using True Cons.prems(3)
      by (simp split: prod.split) (metis fst_conv snd_conv)
  next
    case False
    then have "e \<in> set es" "fe_normalized_path x \<noteq> root_path" using Cons.prems by auto
    then show ?thesis using Cons.IH Cons.prems(1,3)
      by (simp split: option.split prod.split) (metis fst_conv snd_conv)
  qed
qed simp

lemma link_parents_quiet:
  "\<forall>e\<in>set es. fe_normalized_path e = root_path \<or> parent_from_path (fe_normalized_path e) \<in> dom index \<Longrightarrow>
    snd (snd (link_parents root_path index all es root_id d)) = d"
  by (induction root_path index all es root_id d rule: link_parents.induct)
    (auto split: option.split prod.split simp: domIff)


subsection \<open>A scan of a directory tree gives an acceptable snapshot\<close>

text \<open>
  The scans that describe a directory tree: the root is a recorded directory, and the parent path of
  every other entry is a recorded directory too.
\<close>

definition scan_tree :: "raw_scan_result \<Rightarrow> bool" where
  "scan_tree r \<longleftrightarrow> rs_host_identifier r \<noteq> [] \<and> distinct (map rw_normalized_path (rs_entries r)) \<and>
    list_all (\<lambda>e. is_absolute_normalized_path (rw_normalized_path e) \<and> rw_type e \<le> EntryType_Special) (rs_entries r) \<and>
    (rs_root_path r, EntryType_Directory) \<in> (\<lambda>e. (rw_normalized_path e, rw_type e)) ` set (rs_entries r) \<and>
    list_all (\<lambda>e. rw_normalized_path e = rs_root_path r \<or>
      path_has_relative (rw_normalized_path e) \<and>
      (parent_from_path (rw_normalized_path e), EntryType_Directory) \<in>
        (\<lambda>e. (rw_normalized_path e, rw_type e)) ` set (rs_entries r)) (rs_entries r)"

lemma normalized_stays: "is_absolute_normalized_path p \<Longrightarrow> normalize_path_lexical p = p"
  by (simp add: is_absolute_normalized_path_def normalize_path_lexical_def split: if_splits)

lemma scan_tree_entries:
  assumes "scan_tree r" "e \<in> set (rs_entries r)"
  shows "entry_of_raw e = (rw_normalized_path e, rw_type e)"
  using assms normalized_stays by (simp add: scan_tree_def list_all_iff entry_of_raw_def)

lemma scan_tree_root: "scan_tree r \<Longrightarrow> normalize_path_lexical (rs_root_path r) = rs_root_path r"
  using normalized_stays by (auto simp: scan_tree_def list_all_iff)

text \<open>The state after the first loop.\<close>

definition collected :: "raw_scan_result \<Rightarrow> build_state \<Rightarrow> bool" where
  "collected r s \<longleftrightarrow> build_inv s \<and>
    path_type ` set (bs_entries s) = (\<lambda>e. (rw_normalized_path e, rw_type e)) ` set (rs_entries r)"

lemma add_raw_entries_collected:
  assumes "scan_tree r" and "add_raw_entries (sort_key rw_normalized_path (rs_entries r))
    \<lparr>bs_entries = [], bs_path_to_index = Map.empty, bs_used_ids = Map.empty, bs_diagnostics = []\<rparr> = Some s"
  shows "collected r s"
proof -
  let ?rs = "sort_key rw_normalized_path (rs_entries r)"
  have eq: "map (fst \<circ> entry_of_raw) ?rs = map rw_normalized_path ?rs"
    using scan_tree_entries [OF assms(1)] by simp
  have d: "distinct (map (fst \<circ> entry_of_raw) ?rs)"
    unfolding eq distinct_map_sort_key using assms(1) by (simp add: scan_tree_def)
  have s: "build_inv s" "map path_type (bs_entries s) = map entry_of_raw ?rs"
    using add_raw_entries_new [OF assms(2) _ d] by (simp_all add: build_inv_def)
  have "path_type ` set (bs_entries s) = set (map path_type (bs_entries s))" by simp
  also have "\<dots> = entry_of_raw ` set (rs_entries r)" unfolding s(2) by simp
  also have "\<dots> = (\<lambda>e. (rw_normalized_path e, rw_type e)) ` set (rs_entries r)"
    by (rule image_cong [OF refl scan_tree_entries [OF assms(1)]])
  finally show ?thesis using s(1) by (simp add: collected_def)
qed

lemma collected_lookup:
  assumes "collected r s" "(p, ty) \<in> (\<lambda>e. (rw_normalized_path e, rw_type e)) ` set (rs_entries r)"
  obtains e i where "e \<in> set (bs_entries s)" "fe_normalized_path e = p" "fe_type e = ty"
    "bs_path_to_index s p = Some i" "bs_entries s ! i = e"
proof -
  have "(p, ty) \<in> path_type ` set (bs_entries s)" using assms by (simp only: collected_def)
  then obtain e where e: "e \<in> set (bs_entries s)" "path_type e = (p, ty)" by (elim imageE) simp
  then have "p \<in> dom (bs_path_to_index s)" using assms(1) by (auto simp: collected_def build_inv_def path_type_def)
  then obtain i where i: "bs_path_to_index s p = Some i" by blast
  then have "i < length (bs_entries s) \<and> fe_normalized_path (bs_entries s ! i) = p"
    using assms(1) by (simp add: collected_def build_inv_def)
  then have "bs_entries s ! i = e"
    using e assms(1) distinct_map_eq [of fe_normalized_path "bs_entries s" "bs_entries s ! i" e]
    by (simp add: collected_def build_inv_def path_type_def)
  with e i show thesis by (intro that [of e i]) (simp_all add: path_type_def)
qed

lemma scan_tree_kept:
  assumes "scan_tree r" "collected r s" "e \<in> set (bs_entries s)"
  shows "is_absolute_normalized_path (fe_normalized_path e)" "fe_type e \<le> EntryType_Special"
    "fe_normalized_path e = rs_root_path r \<or> path_has_relative (fe_normalized_path e) \<and>
      (parent_from_path (fe_normalized_path e), EntryType_Directory) \<in>
        (\<lambda>e. (rw_normalized_path e, rw_type e)) ` set (rs_entries r)"
proof -
  have "path_type e \<in> (\<lambda>e. (rw_normalized_path e, rw_type e)) ` set (rs_entries r)"
    using assms(2,3) unfolding collected_def by blast
  then obtain x where x: "x \<in> set (rs_entries r)" "fe_normalized_path e = rw_normalized_path x" "fe_type e = rw_type x"
    by (auto simp: path_type_def)
  then show "is_absolute_normalized_path (fe_normalized_path e)" "fe_type e \<le> EntryType_Special"
    "fe_normalized_path e = rs_root_path r \<or> path_has_relative (fe_normalized_path e) \<and>
      (parent_from_path (fe_normalized_path e), EntryType_Directory) \<in>
        (\<lambda>e. (rw_normalized_path e, rw_type e)) ` set (rs_entries r)"
    using assms(1) by (simp_all add: scan_tree_def list_all_iff)
qed


text \<open>The snapshot of the linked entries is a directory tree.\<close>

lemma linked_tree:
  assumes tree: "scan_tree r" and c: "collected r s"
    and sn: "sn_entries sn = map (linked (rs_root_path r) (bs_path_to_index s) (bs_entries s)) (bs_entries s)"
    and root: "root \<in> set (bs_entries s)" "fe_normalized_path root = rs_root_path r"
      "fe_type root = EntryType_Directory" "sn_root_entry_id sn = fe_id root"
  shows "directory_tree sn"
proof -
  let ?link = "linked (rs_root_path r) (bs_path_to_index s) (bs_entries s)"
  have inv: "distinct (map fe_id (bs_entries s))" "0 \<notin> fe_id ` set (bs_entries s)"
    "distinct (map fe_normalized_path (bs_entries s))"
    using c by (simp_all add: collected_def build_inv_def)
  have same: "e = root" if "e \<in> set (bs_entries s)" "fe_normalized_path e = rs_root_path r \<or> fe_id e = fe_id root" for e
    using that distinct_map_eq [OF inv(1) that(1) root(1)] distinct_map_eq [OF inv(3) that(1) root(1)] root(2) by auto
  have up: "\<exists>d\<in>set (bs_entries s). fe_parent_id (?link e) = fe_id d \<and> fe_type d = EntryType_Directory \<and>
      length (fe_normalized_path d) < length (fe_normalized_path e)"
    if e: "e \<in> set (bs_entries s)" "e \<noteq> root" for e
  proof -
    have p: "fe_normalized_path e \<noteq> rs_root_path r" using same e by blast
    with scan_tree_kept(3) [OF tree c e(1)] have rel: "path_has_relative (fe_normalized_path e)"
      and dir: "(parent_from_path (fe_normalized_path e), EntryType_Directory) \<in>
        (\<lambda>e. (rw_normalized_path e, rw_type e)) ` set (rs_entries r)" by blast+
    from collected_lookup [OF c dir] obtain d i where d: "d \<in> set (bs_entries s)"
      "fe_normalized_path d = parent_from_path (fe_normalized_path e)" "fe_type d = EntryType_Directory"
      "bs_path_to_index s (parent_from_path (fe_normalized_path e)) = Some i" "bs_entries s ! i = d" .
    moreover have "fe_parent_id (?link e) = fe_id d" using p d(4,5) by (simp add: linked_def)
    moreover have "length (fe_normalized_path d) < length (fe_normalized_path e)"
      using length_path_parent [OF rel] d(2) by (simp add: parent_from_path_def)
    ultimately show ?thesis by blast
  qed
  have reach: "(fe_id e, fe_id root) \<in> (parent_of sn)\<^sup>*" if "e \<in> set (bs_entries s)" for e
    using that
  proof (induction "length (fe_normalized_path e)" arbitrary: e rule: less_induct)
    case less
    show ?case
    proof (cases "e = root")
      case False
      from up [OF less.prems this] obtain d where d: "d \<in> set (bs_entries s)" "fe_parent_id (?link e) = fe_id d"
        "length (fe_normalized_path d) < length (fe_normalized_path e)" by blast
      have "fe_id d \<noteq> 0" using inv(2) d(1) by (metis imageI)
      then have "(fe_id e, fe_id d) \<in> parent_of sn"
        unfolding parent_of_def sn using less.prems d(2) by (auto intro!: exI [of _ "?link e"])
      then show ?thesis using less.hyps [OF d(3,1)] by (rule converse_rtrancl_into_rtrancl)
    qed simp
  qed
  show ?thesis
    unfolding directory_tree_def
  proof (intro conjI)
    show "distinct (map fe_id (sn_entries sn))" using inv(1) by (simp add: sn comp_def)
    show "0 \<notin> fe_id ` set (sn_entries sn)" using inv(2) by (simp add: sn image_image)
    show "\<exists>root\<in>set (sn_entries sn). fe_id root = sn_root_entry_id sn \<and> fe_type root = EntryType_Directory \<and> fe_parent_id root = 0"
    proof (intro bexI [of _ "?link root"] conjI)
      show "fe_parent_id (?link root) = 0" using root(2) by (simp add: linked_def)
    qed (use root in \<open>simp_all add: sn\<close>)
    show "\<forall>e\<in>set (sn_entries sn). fe_id e \<noteq> sn_root_entry_id sn \<longrightarrow>
        (\<exists>p\<in>set (sn_entries sn). fe_id p = fe_parent_id e \<and> fe_type p = EntryType_Directory)"
    proof (intro ballI impI)
      fix x assume x: "x \<in> set (sn_entries sn)" "fe_id x \<noteq> sn_root_entry_id sn"
      then obtain e where e: "e \<in> set (bs_entries s)" "x = ?link e" by (auto simp: sn)
      then have e_root: "e \<noteq> root" using x(2) root(4) by auto
      from up [OF e(1) e_root] obtain d where "d \<in> set (bs_entries s)" "fe_parent_id (?link e) = fe_id d"
        "fe_type d = EntryType_Directory" by blast
      then show "\<exists>p\<in>set (sn_entries sn). fe_id p = fe_parent_id x \<and> fe_type p = EntryType_Directory"
        by (intro bexI [of _ "?link d"]) (simp_all add: sn e(2))
    qed
    show "\<forall>e\<in>set (sn_entries sn). (fe_id e, sn_root_entry_id sn) \<in> (parent_of sn)\<^sup>*"
      using reach by (simp add: sn root(4))
  qed
qed


subsection \<open>The built snapshot\<close>

lemma compute_snapshot_id_nonzero [simp]: "compute_snapshot_id sn \<noteq> 0"
  by (simp add: compute_snapshot_id_def Let_def)

lemma build_collected:
  assumes tree: "scan_tree r" and c: "collected r s"
    and run: "add_raw_entries (sort_key rw_normalized_path (rs_entries r))
      \<lparr>bs_entries = [], bs_path_to_index = Map.empty, bs_used_ids = Map.empty, bs_diagnostics = []\<rparr> = Some s"
  obtains res where "build r opts = Some res" "snapshot_acceptable (br_snapshot res)"
    "br_diagnostics res = bs_diagnostics s" "map fe_id (sn_entries (br_snapshot res)) = map fe_id (bs_entries s)"
proof -
  obtain root i where root: "root \<in> set (bs_entries s)" "fe_normalized_path root = rs_root_path r"
    "fe_type root = EntryType_Directory" "bs_path_to_index s (rs_root_path r) = Some i" "bs_entries s ! i = root"
    using collected_lookup [OF c, of "rs_root_path r" EntryType_Directory] tree by (auto simp: scan_tree_def)
  have inv: "distinct (map fe_id (bs_entries s))" "0 \<notin> fe_id ` set (bs_entries s)"
    "distinct (map fe_normalized_path (bs_entries s))"
    using c by (simp_all add: collected_def build_inv_def)
  let ?links = "link_parents (rs_root_path r) (bs_path_to_index s) (bs_entries s) (bs_entries s) 0 (bs_diagnostics s)"
  let ?es = "map (linked (rs_root_path r) (bs_path_to_index s) (bs_entries s)) (bs_entries s)"
  have parents: "fe_normalized_path e = rs_root_path r \<or>
      parent_from_path (fe_normalized_path e) \<in> dom (bs_path_to_index s)" if "e \<in> set (bs_entries s)" for e
    using scan_tree_kept(3) [OF tree c that]
  proof (elim disjE conjE)
    assume "(parent_from_path (fe_normalized_path e), EntryType_Directory) \<in>
      (\<lambda>e. (rw_normalized_path e, rw_type e)) ` set (rs_entries r)"
    from collected_lookup [OF c this] show ?thesis by auto
  qed simp
  have links: "?links = (?es, fe_id root, bs_diagnostics s)"
    using link_parents_entries [of "rs_root_path r" "bs_path_to_index s" "bs_entries s" "bs_entries s" 0 "bs_diagnostics s"]
      link_parents_finds_root [OF inv(3) root(1,2), of "bs_path_to_index s" "bs_entries s" 0 "bs_diagnostics s"]
      link_parents_quiet [of "bs_entries s" "rs_root_path r" "bs_path_to_index s" "bs_entries s" 0 "bs_diagnostics s"]
      parents by (intro prod_eqI) simp_all
  have nz: "fe_id root \<noteq> 0" using inv(2) root(1) by (metis imageI)
  have keep: "fallback_root p es (fe_id root) d = (es, fe_id root, d)" for p es d
    using nz by (simp add: fallback_root_def split: list.split)
  let ?sn0 = "\<lparr>sn_schema = kCurrentSchemaHeader, sn_snapshot_id = bo_snapshot_id opts,
    sn_created_at = (if bo_created_at opts \<noteq> 0 then bo_created_at opts else rs_scanned_at r),
    sn_host_identifier = rs_host_identifier r, sn_root_entry_id = fe_id root, sn_entries = ?es\<rparr>"
  let ?sn = "if sn_snapshot_id ?sn0 = 0 then ?sn0\<lparr>sn_snapshot_id := compute_snapshot_id ?sn0\<rparr> else ?sn0"
  have b: "build r opts = Some \<lparr>br_snapshot = ?sn, br_diagnostics = bs_diagnostics s\<rparr>"
    by (simp only: build_def run option.case scan_tree_root [OF tree] links Let_def prod.case keep)
  have "directory_tree ?sn"
    by (rule linked_tree [OF tree c _ root(1,2,3)]) simp_all
  moreover have "sn_snapshot_id ?sn \<noteq> 0" by simp
  moreover have "schema_readable (sn_schema ?sn)"
    by (simp add: schema_readable_def is_valid_schema_def kCurrentSchemaHeader_def)
  moreover have "distinct (map fe_normalized_path (sn_entries ?sn))" using inv(3) by (simp add: comp_def)
  moreover have "list_all path_acceptable (sn_entries ?sn)"
    using scan_tree_kept(1,2) [OF tree c] by (simp add: list_all_iff path_acceptable_def)
  moreover have "sn_host_identifier ?sn \<noteq> []" using tree by (simp add: scan_tree_def)
  ultimately have "snapshot_acceptable ?sn" by (simp only: snapshot_acceptable_def simp_thms)
  moreover have "map fe_id (sn_entries ?sn) = map fe_id (bs_entries s)" by (simp add: comp_def)
  ultimately show thesis using that [OF b] by (simp only: build_result.simps)
qed

text \<open>Without collisions the first loop returns and reports nothing.\<close>

definition first_candidate :: "raw_entry \<Rightarrow> entry_id" where
  "first_candidate e = candidate_id (make_base_stable_key e (normalize_path_lexical (rw_normalized_path e)))"

lemma add_raw_entries_returns:
  "distinct (map first_candidate rs) \<Longrightarrow> first_candidate ` set rs \<inter> dom (bs_used_ids s) = {} \<Longrightarrow>
    distinct (map (fst \<circ> entry_of_raw) rs) \<Longrightarrow>
    (fst \<circ> entry_of_raw) ` set rs \<inter> dom (bs_path_to_index s) = {} \<Longrightarrow>
    \<exists>s'. add_raw_entries rs s = Some s' \<and> bs_diagnostics s' = bs_diagnostics s \<and>
      map fe_id (bs_entries s') = map fe_id (bs_entries s) @ map first_candidate rs"
proof (induction rs arbitrary: s)
  case (Cons r rs)
  let ?p = "normalize_path_lexical (rw_normalized_path r)"
  have "bs_used_ids s (first_candidate r) = None" "bs_path_to_index s ?p = None"
    using Cons.prems(2,4) by (auto simp: domIff entry_of_raw_def)
  then obtain s1 where s1: "add_raw_entry r s = Some s1" "bs_diagnostics s1 = bs_diagnostics s"
    "dom (bs_used_ids s1) = insert (first_candidate r) (dom (bs_used_ids s))"
    "dom (bs_path_to_index s1) = insert ?p (dom (bs_path_to_index s))"
    "map fe_id (bs_entries s1) = map fe_id (bs_entries s) @ [first_candidate r]"
    by (simp add: add_raw_entry_def generate_stable_id_def stable_id_loop_free first_candidate_def Let_def)
  have "first_candidate ` set rs \<inter> dom (bs_used_ids s1) = {}"
    "(fst \<circ> entry_of_raw) ` set rs \<inter> dom (bs_path_to_index s1) = {}"
    using Cons.prems unfolding s1(3,4) by (auto simp: entry_of_raw_def)
  from Cons.IH [OF _ this(1) _ this(2)] Cons.prems(1,3) s1(1,2,5) show ?case by auto
qed simp


lemma build_without_collisions:
  assumes tree: "scan_tree r" and d: "distinct (map first_candidate (rs_entries r))"
  obtains res where "build r opts = Some res" "snapshot_acceptable (br_snapshot res)" "br_diagnostics res = []"
    "map fe_id (sn_entries (br_snapshot res)) = map first_candidate (sort_key rw_normalized_path (rs_entries r))"
proof -
  let ?rs = "sort_key rw_normalized_path (rs_entries r)"
  let ?s0 = "\<lparr>bs_entries = [], bs_path_to_index = Map.empty, bs_used_ids = Map.empty, bs_diagnostics = []\<rparr>"
  have eq: "map (fst \<circ> entry_of_raw) ?rs = map rw_normalized_path ?rs"
    using scan_tree_entries [OF tree] by simp
  have paths: "distinct (map (fst \<circ> entry_of_raw) ?rs)"
    unfolding eq distinct_map_sort_key using tree by (simp add: scan_tree_def)
  obtain s where s: "add_raw_entries ?rs ?s0 = Some s" "bs_diagnostics s = []"
    "map fe_id (bs_entries s) = map first_candidate ?rs"
    using add_raw_entries_returns [OF _ _ paths, of ?s0] d by auto
  from build_collected [OF tree add_raw_entries_collected [OF tree s(1)] s(1), of opts] s(2,3) that
  show thesis by metis
qed

subsection \<open>When the search for an identifier ends\<close>

text \<open>
  The identifiers that the search can reach for a path: the one of its base key and one for each of the
  salts.  The search ends when one of them is free.
\<close>

definition candidates :: "string \<Rightarrow> string \<Rightarrow> entry_id set" where
  "candidates base_key path = insert (candidate_id base_key) (range (\<lambda>salt. candidate_id (salted_key base_key path salt)))"

definition entry_candidates :: "raw_entry \<Rightarrow> entry_id set" where
  "entry_candidates e = (let path = normalize_path_lexical (rw_normalized_path e)
    in candidates (make_base_stable_key e path) path)"

definition enough_candidates :: "raw_scan_result \<Rightarrow> bool" where
  "enough_candidates r \<longleftrightarrow> list_all (\<lambda>e. length (rs_entries r) \<le> card (entry_candidates e)) (rs_entries r)"

lemma unat_distance_step: "t \<noteq> s \<Longrightarrow> unat (t - (s + 1)) < unat (t - s)" for s t :: "'a::len word"
proof -
  assume "t \<noteq> s"
  then have "unat (t - s) \<noteq> 0" by (simp add: unat_eq_0)
  moreover have "unat (t - s - 1) = unat (t - s) - 1" using \<open>t \<noteq> s\<close> by (intro unat_minus_one) simp
  moreover have "t - (s + 1) = t - s - 1" by simp
  ultimately show ?thesis by (simp only:)
qed

lemma stable_id_loop_finds:
  assumes "used (candidate_id (salted_key b p free)) = None"
  shows "\<exists>r. stable_id_loop b p used salt (salted_key b p salt) d = Some r"
proof (induction "unat (free - salt)" arbitrary: salt d rule: less_induct)
  case less
  show ?case
  proof (cases "used (candidate_id (salted_key b p salt)) = None")
    case True
    from stable_id_loop_free [of used, OF this] show ?thesis by auto
  next
    case False
    then have "free \<noteq> salt" using assms by auto
    from less.hyps [OF unat_distance_step [OF this], of "d @ [collision_diagnostic p]"] False
    show ?thesis by (subst stable_id_loop.simps) (simp add: Let_def)
  qed
qed

lemma generate_stable_id_returns:
  assumes "\<not> entry_candidates e \<subseteq> dom used" and p: "p = normalize_path_lexical (rw_normalized_path e)"
  shows "\<exists>r. generate_stable_id e p used d = Some r"
proof (cases "used (candidate_id (make_base_stable_key e p)) = None")
  case True
  from stable_id_loop_free [of used, OF this] show ?thesis by (auto simp: generate_stable_id_def Let_def)
next
  case False
  then obtain free where "used (candidate_id (salted_key (make_base_stable_key e p) p free)) = None"
    using assms(1) by (auto simp: entry_candidates_def candidates_def Let_def p [symmetric])
  from stable_id_loop_finds [of used, OF this, of "0 + 1" "d @ [collision_diagnostic p]"] False
  show ?thesis unfolding generate_stable_id_def Let_def by (subst stable_id_loop.simps) (simp add: Let_def)
qed

lemma dom_used_card: "build_inv s \<Longrightarrow> finite (dom (bs_used_ids s)) \<and> card (dom (bs_used_ids s)) = length (bs_entries s)"
  using distinct_card [of "map fe_id (bs_entries s)"] by (simp add: build_inv_def)

lemma add_raw_entry_returns:
  assumes inv: "build_inv s" and room: "length (bs_entries s) < card (entry_candidates e)"
  shows "\<exists>s'. add_raw_entry e s = Some s' \<and> build_inv s' \<and> length (bs_entries s') \<le> length (bs_entries s) + 1"
proof -
  let ?p = "normalize_path_lexical (rw_normalized_path e)"
  have "\<not> entry_candidates e \<subseteq> dom (bs_used_ids s)"
    using card_mono [of "dom (bs_used_ids s)" "entry_candidates e"] dom_used_card [OF inv] room by auto
  from generate_stable_id_returns [OF this refl] obtain r
    where r: "generate_stable_id e ?p (bs_used_ids s) (bs_diagnostics s) = Some r" by blast
  show ?thesis
  proof (cases "bs_path_to_index s ?p = None")
    case True
    obtain s' where s': "add_raw_entry e s = Some s'" using True r by (cases r) (simp add: add_raw_entry_def Let_def)
    have new: "bs_path_to_index s (fst (entry_of_raw e)) = None" using True by (simp add: entry_of_raw_def)
    from add_raw_entry_new [OF new inv s'] have "build_inv s'"
      and "length (map path_type (bs_entries s')) = length (map path_type (bs_entries s) @ [entry_of_raw e])" by simp_all
    then show ?thesis using s' by simp
  next
    case False
    then show ?thesis using inv by (auto simp: add_raw_entry_def Let_def build_inv_def)
  qed
qed

lemma add_raw_entries_end:
  "build_inv s \<Longrightarrow> list_all (\<lambda>e. length (bs_entries s) + length rs \<le> card (entry_candidates e)) rs \<Longrightarrow>
    \<exists>s'. add_raw_entries rs s = Some s'"
proof (induction rs arbitrary: s)
  case (Cons e rs)
  then obtain s' where s': "add_raw_entry e s = Some s'" "build_inv s'" "length (bs_entries s') \<le> length (bs_entries s) + 1"
    using add_raw_entry_returns [of s e] by auto
  have "list_all (\<lambda>e. length (bs_entries s') + length rs \<le> card (entry_candidates e)) rs"
    using Cons.prems(2) s'(3) by (auto simp: list_all_iff)
  from Cons.IH [OF s'(2) this] show ?case using s'(1) by simp
qed simp

text \<open>So a build returns when every entry has as many candidates as the scan has entries.\<close>

lemma build_ends:
  assumes "enough_candidates r" shows "\<exists>res. build r options = Some res"
proof -
  let ?rs = "sort_key rw_normalized_path (rs_entries r)"
  let ?s0 = "\<lparr>bs_entries = [], bs_path_to_index = Map.empty, bs_used_ids = Map.empty, bs_diagnostics = []\<rparr>"
  have "list_all (\<lambda>e. length (bs_entries ?s0) + length ?rs \<le> card (entry_candidates e)) ?rs"
    using assms by (simp add: enough_candidates_def list_all_iff)
  from add_raw_entries_end [OF _ this] obtain s where "add_raw_entries ?rs ?s0 = Some s"
    by (auto simp: build_inv_def)
  then show ?thesis by (simp add: build_def Let_def split: prod.split)
qed

text \<open>
  There are always at least nine candidates: the hash function is injective in the last character of its
  input, so the ten salts of one digit have ten hash values, of which only 0 and 1 give the same identifier.
\<close>

lemma unit_times_inj: "x * p = y * p \<Longrightarrow> p * q = 1 \<Longrightarrow> x = y" for x y p q :: "'a::len word"
  by (metis mult.assoc mult.right_neutral)

lemma fnv_prime_inverse: "kFnvPrime * 0xce965057aff6957b = 1"
  by (simp add: kFnvPrime_def)

lemma fnv1a64_last: "fnv1a64 (s @ [c]) = fnv1a64 (s @ [d]) \<longleftrightarrow> c = d"
proof
  let ?x = "ucast (of_char c :: byte) :: u64" and ?y = "ucast (of_char d :: byte) :: u64"
  assume "fnv1a64 (s @ [c]) = fnv1a64 (s @ [d])"
  then have "fnv1a64 s XOR ?x = fnv1a64 s XOR ?y"
    unfolding fnv1a64_snoc by (rule unit_times_inj [OF _ fnv_prime_inverse])
  then have "fnv1a64 s XOR (fnv1a64 s XOR ?x) = fnv1a64 s XOR (fnv1a64 s XOR ?y)" by (rule arg_cong)
  then have "?x = ?y" by (simp flip: xor.assoc)
  then have "unat ?x = unat ?y" by simp
  moreover have "unat (ucast b :: u64) = unat b" for b :: byte
    using unsigned_less [of b, where ?'a = nat] by (simp add: unsigned_ucast_eq take_bit_nat_eq_self)
  ultimately have "unat (of_char c :: byte) = unat (of_char d :: byte)" by (simp only:)
  then show "c = d" by (metis char_of_unat_of_char)
qed simp

lemma salt_digit:
  "n < 10 \<Longrightarrow> salted_key b p (of_nat n) = (b @ ''|path='' @ p @ ''|salt='') @ [char_of (48 + n)]"
  by (simp add: salted_key_def show_word_def show_nat.simps unat_of_nat)

lemma digit_char_inj: "inj_on (\<lambda>n. char_of (48 + n)) {..<10 :: nat}"
proof (rule inj_onI)
  fix m n :: nat assume "m \<in> {..<10}" "n \<in> {..<10}" "char_of (48 + m) = char_of (48 + n)"
  then show "m = n" using of_char_of [of "48 + m"] of_char_of [of "48 + n"] by simp
qed

lemma nine_candidates: "9 \<le> card (candidates b p)"
proof -
  let ?k = "b @ ''|path='' @ p @ ''|salt=''"
  let ?hashes = "(\<lambda>n. fnv1a64 (?k @ [char_of (48 + n)])) ` {..<10 :: nat}"
  have "inj_on (\<lambda>n. fnv1a64 (?k @ [char_of (48 + n)])) {..<10 :: nat}"
    using digit_char_inj by (simp only: inj_on_def fnv1a64_last)
  from card_image [OF this] have ten: "card ?hashes = 10" by simp
  have "?hashes - {0} \<subseteq> candidates b p"
  proof
    fix h assume h: "h \<in> ?hashes - {0}"
    then obtain n :: nat where n: "n < 10" "h = fnv1a64 (?k @ [char_of (48 + n)])" by blast
    have "h = candidate_id (salted_key b p (of_nat n))"
      using h by (simp only: candidate_id_def salt_digit [OF n(1)] n(2) [symmetric]) simp
    then show "h \<in> candidates b p" unfolding candidates_def by blast
  qed
  then have "card (?hashes - {0}) \<le> card (candidates b p)" by (intro card_mono) (simp_all add: candidates_def)
  moreover have "card ?hashes - card {0 :: u64} \<le> card (?hashes - {0})" by (rule diff_card_le_card_Diff) simp
  ultimately show ?thesis unfolding ten by simp
qed

lemma small_scan_enough: "length (rs_entries r) \<le> 9 \<Longrightarrow> enough_candidates r"
  using nine_candidates order_trans by (fastforce simp: enough_candidates_def entry_candidates_def list_all_iff Let_def)

subsection \<open>Properties\<close>

text \<open>
  C32: a snapshot built from a scan of a directory tree passes validation: identifiers and paths are distinct
  and nonzero, and every entry hangs below the root, whatever collisions of identifiers had to be resolved.
\<close>

theorem built_snapshot_validates:
  assumes "scan_tree scan_result" and "build scan_result options = Some r"
  shows "\<not> has_errors (validate_snapshot now (br_snapshot r))"
proof -
  obtain s where s: "add_raw_entries (sort_key rw_normalized_path (rs_entries scan_result))
      \<lparr>bs_entries = [], bs_path_to_index = Map.empty, bs_used_ids = Map.empty, bs_diagnostics = []\<rparr> = Some s"
    using assms(2) unfolding build_def by (auto split: option.splits)
  from build_collected [OF assms(1) add_raw_entries_collected [OF assms(1) s] s, of options] assms(2)
  show ?thesis unfolding validate_snapshot_errors by (metis option.inject)
qed

definition example_scan :: "(string \<times> entry_type \<times> u64) list \<Rightarrow> string \<Rightarrow> raw_scan_result" where
  "example_scan es root = \<lparr>rs_host_identifier = ''h'', rs_root_path = root, rs_scanned_at = 0,
    rs_entries = map (\<lambda>(p, ty, i). \<lparr>rw_normalized_path = p, rw_parent_path = [], rw_name = [], rw_type = ty,
      rw_metadata = no_metadata\<lparr>md_device_id := 1, md_file_id := i\<rparr>\<rparr>) es, rs_diagnostics = []\<rparr>"

definition example_build_options :: build_options where
  "example_build_options = \<lparr>bo_snapshot_id = 7, bo_created_at = 1\<rparr>"

theorem built_snapshot_validates_witness:
  "case build (example_scan [(''/d'', 1, 2), (''/d/f'', 0, 3)] ''/d'') example_build_options of
     None \<Rightarrow> False | Some r \<Rightarrow> \<not> has_errors (validate_snapshot 0 (br_snapshot r))"
proof -
  let ?scan = "example_scan [(''/d'', 1, 2), (''/d/f'', 0, 3)] ''/d''"
  have "build ?scan example_build_options \<noteq> None" by code_simp
  then obtain r where r: "build ?scan example_build_options = Some r" by blast
  have "scan_tree ?scan" by code_simp
  from built_snapshot_validates [OF this r] show ?thesis unfolding r by simp
qed

text \<open>
  C33: when the first candidates of the entries do not collide, the builder returns, reports nothing, gives
  every entry its first candidate, and the snapshot passes validation.
\<close>

theorem build_returns:
  assumes "scan_tree scan_result" and "distinct (map first_candidate (rs_entries scan_result))"
  shows "\<exists>r. build scan_result options = Some r \<and> br_diagnostics r = [] \<and>
    map fe_id (sn_entries (br_snapshot r)) =
      map first_candidate (sort_key rw_normalized_path (rs_entries scan_result)) \<and>
    \<not> has_errors (validate_snapshot now (br_snapshot r))"
  using build_without_collisions [OF assms, of options] by (metis validate_snapshot_errors)

theorem build_returns_witness:
  "let scan_result = example_scan [(''/d'', 1, 2), (''/d/f'', 0, 3)] ''/d''
   in \<exists>r. build scan_result example_build_options = Some r \<and> br_diagnostics r = [] \<and>
    map fe_id (sn_entries (br_snapshot r)) =
      map first_candidate (sort_key rw_normalized_path (rs_entries scan_result)) \<and>
    \<not> has_errors (validate_snapshot 0 (br_snapshot r))"
  unfolding Let_def by (rule build_returns; code_simp)

text \<open>
  Scanning a directory that is named with a trailing slash gives a snapshot that fails validation: the
  root keeps the slash after normalisation, and the parent path of its entries has none.
\<close>

lemma trailing_slash_breaks_snapshot:
  "let scan_result = scan (example_fs [''/d/''] [] [Visit ''/d/f'' []]) ''/d/'' (example_options [])
   in case build scan_result example_build_options of
        None \<Rightarrow> False
      | Some r \<Rightarrow> map rw_normalized_path (rs_entries scan_result) = [''/d/'', ''/d/f''] \<and>
          map bd_code (br_diagnostics r) = [ParentPathMissing] \<and>
          has_errors (validate_snapshot 0 (br_snapshot r))"
  by code_simp

end
