(* ===== verification/Migration.thy ===== *)
theory Migration imports ValidationGraph begin

text \<open>
  Schema migration, \<open>src/backend/Muninn/domain/migration/migration.cpp\<close>: moving a snapshot or a delta to
  another schema header and validating the result.  The clock of the validator is an argument.
\<close>

subsection \<open>Results\<close>

datatype migration_status = Success | UnsupportedPath | ValidationFailed

record snapshot_migration_result =
  sm_status :: migration_status
  sm_snapshot :: snapshot
  sm_validation :: validation_report
  sm_reversible :: bool

record delta_migration_result =
  dm_status :: migration_status
  dm_delta :: delta_snapshot
  dm_validation :: validation_report
  dm_reversible :: bool

definition is_supported_schema :: "schema_header \<Rightarrow> bool" where
  "is_supported_schema schema \<longleftrightarrow> sc_major schema = 1"

definition migration_issue :: "validation_error_code \<Rightarrow> validation_severity \<Rightarrow> string \<Rightarrow> validation_issue" where
  "migration_issue code severity message = issue code severity message None None []"

definition is_reversible_pair :: "schema_header \<Rightarrow> schema_header \<Rightarrow> bool" where
  "is_reversible_pair source target \<longleftrightarrow>
    (if sc_major source \<noteq> sc_major target then False
     else if sc_min_reader_major source > sc_major target then False
     else if sc_min_reader_major target > sc_major source then False
     else True)"

subsection \<open>Migration\<close>

definition migrate_snapshot :: "int \<Rightarrow> snapshot \<Rightarrow> schema_header \<Rightarrow> snapshot_migration_result" where
  "migrate_snapshot now snapshot target_schema =
    (let reversible = is_reversible_pair (sn_schema snapshot) target_schema;
         unsupported = (\<lambda>code message. \<lparr>sm_status = UnsupportedPath, sm_snapshot = snapshot,
           sm_validation = [migration_issue code Error message], sm_reversible = reversible\<rparr>)
     in if \<not> is_supported_schema (sn_schema snapshot) then
          unsupported MigrationUnsupportedSourceVersion ''Snapshot source schema is unsupported for migration.''
        else if \<not> is_supported_schema target_schema then
          unsupported MigrationUnsupportedTargetVersion ''Snapshot target schema is unsupported for migration.''
        else if sc_min_reader_major (sn_schema snapshot) > sc_major target_schema then
          unsupported MigrationNoPathAvailable
            ''No deterministic migration path exists between source and target schema.''
        else
          (let migrated = snapshot\<lparr>sn_schema := target_schema\<rparr>;
               validation = validate_snapshot now migrated
           in if has_errors validation then
                \<lparr>sm_status = ValidationFailed, sm_snapshot = migrated,
                 sm_validation = validation @ [migration_issue MigrationValidationFailed Error
                   ''Migrated snapshot does not satisfy validation constraints.''], sm_reversible = reversible\<rparr>
              else
                \<lparr>sm_status = Success, sm_snapshot = migrated,
                 sm_validation = validation @ (if \<not> reversible then [migration_issue MigrationNonReversible Warning
                   ''Migration completed but is not guaranteed reversible.''] else []), sm_reversible = reversible\<rparr>))"

definition rollback_snapshot :: "int \<Rightarrow> snapshot \<Rightarrow> schema_header \<Rightarrow> snapshot_migration_result" where
  "rollback_snapshot now snapshot target_schema = migrate_snapshot now snapshot target_schema"

definition migrate_delta :: "delta_snapshot \<Rightarrow> schema_header \<Rightarrow> delta_migration_result" where
  "migrate_delta delta target_schema =
    (let reversible = is_reversible_pair (dl_schema delta) target_schema;
         unsupported = (\<lambda>code message. \<lparr>dm_status = UnsupportedPath, dm_delta = delta,
           dm_validation = [migration_issue code Error message], dm_reversible = reversible\<rparr>)
     in if \<not> is_supported_schema (dl_schema delta) then
          unsupported MigrationUnsupportedSourceVersion ''Delta source schema is unsupported for migration.''
        else if \<not> is_supported_schema target_schema then
          unsupported MigrationUnsupportedTargetVersion ''Delta target schema is unsupported for migration.''
        else if sc_min_reader_major (dl_schema delta) > sc_major target_schema then
          unsupported MigrationNoPathAvailable
            ''No deterministic migration path exists between source and target delta schema.''
        else
          (let migrated = delta\<lparr>dl_schema := target_schema\<rparr>;
               validation = validate_delta migrated None None
           in if has_errors validation then
                \<lparr>dm_status = ValidationFailed, dm_delta = migrated,
                 dm_validation = validation @ [migration_issue MigrationValidationFailed Error
                   ''Migrated delta does not satisfy validation constraints.''], dm_reversible = reversible\<rparr>
              else
                \<lparr>dm_status = Success, dm_delta = migrated,
                 dm_validation = validation @ (if \<not> reversible then [migration_issue MigrationNonReversible Warning
                   ''Delta migration completed but is not guaranteed reversible.''] else []), dm_reversible = reversible\<rparr>))"

definition rollback_delta :: "delta_snapshot \<Rightarrow> schema_header \<Rightarrow> delta_migration_result" where
  "rollback_delta delta target_schema = migrate_delta delta target_schema"


subsection \<open>When a migration succeeds\<close>

lemma snapshot_acceptable_schema:
  "snapshot_acceptable sn \<Longrightarrow> schema_readable h \<Longrightarrow> snapshot_acceptable (sn\<lparr>sn_schema := h\<rparr>)"
  by (simp add: snapshot_acceptable_def directory_tree_def parent_of_def)

lemma schema_readable_alt:
  "schema_readable h \<longleftrightarrow> sc_major h = 1 \<and> sc_min_reader_major h = 1"
proof -
  have "(a :: u16) \<noteq> 0 \<Longrightarrow> a \<le> 1 \<Longrightarrow> a = 1" for a
    by (simp add: word_le_nat_alt word_unat_eq_iff)
  then show ?thesis by (auto simp: schema_readable_def is_valid_schema_def kCurrentSchemaHeader_def)
qed

lemma migrate_snapshot_success:
  "sm_status (migrate_snapshot now sn target) = Success \<longleftrightarrow>
    sc_major (sn_schema sn) = 1 \<and> sc_min_reader_major (sn_schema sn) \<le> 1 \<and>
    snapshot_acceptable (sn\<lparr>sn_schema := target\<rparr>)"
proof -
  have "snapshot_acceptable (sn\<lparr>sn_schema := target\<rparr>) \<Longrightarrow> sc_major target = 1"
    by (simp add: snapshot_acceptable_def schema_readable_alt)
  then show ?thesis
    by (auto simp: migrate_snapshot_def validate_snapshot_errors is_supported_schema_def Let_def split: if_splits)
qed

lemma migrate_snapshot_result:
  assumes "sm_status (migrate_snapshot now sn target) = Success"
  shows "sm_snapshot (migrate_snapshot now sn target) = sn\<lparr>sn_schema := target\<rparr>"
    "sm_reversible (migrate_snapshot now sn target)"
    "sm_validation (migrate_snapshot now sn target) = validate_snapshot now (sn\<lparr>sn_schema := target\<rparr>)"
proof -
  have ok: "sc_major (sn_schema sn) = 1" "sc_min_reader_major (sn_schema sn) \<le> 1"
    "snapshot_acceptable (sn\<lparr>sn_schema := target\<rparr>)"
    using assms by (simp_all add: migrate_snapshot_success)
  then have t: "sc_major target = 1" "sc_min_reader_major target = 1"
    by (simp_all add: snapshot_acceptable_def schema_readable_alt)
  then have "is_reversible_pair (sn_schema sn) target" using ok by (simp add: is_reversible_pair_def not_less)
  then show "sm_snapshot (migrate_snapshot now sn target) = sn\<lparr>sn_schema := target\<rparr>"
    "sm_reversible (migrate_snapshot now sn target)"
    "sm_validation (migrate_snapshot now sn target) = validate_snapshot now (sn\<lparr>sn_schema := target\<rparr>)"
    using ok t by (simp_all add: migrate_snapshot_def validate_snapshot_errors is_supported_schema_def
        not_less [THEN iffD2, OF ok(2)] Let_def)
qed

subsection \<open>Properties\<close>

text \<open>
  A snapshot migration succeeds exactly when the source has major version 1 and can be read by version
  1, and the snapshot under the target schema is acceptable; then the result is the snapshot with only its
  schema replaced, it is marked reversible, and the report is the validator's with nothing added, so the
  warning about a migration that is not reversible is never given.
\<close>

lemma migration_succeeds_exactly:
  "let r = migrate_snapshot now sn target;
       ok = (sc_major (sn_schema sn) = 1 \<and> sc_min_reader_major (sn_schema sn) \<le> 1 \<and>
         snapshot_acceptable (sn\<lparr>sn_schema := target\<rparr>))
   in (sm_status r = Success) = ok \<and>
      (ok = (sm_status r = Success \<and> sm_snapshot r = sn\<lparr>sn_schema := target\<rparr> \<and> sm_reversible r \<and>
        sm_validation r = validate_snapshot now (sn\<lparr>sn_schema := target\<rparr>)))"
  using migrate_snapshot_success [of now sn target] migrate_snapshot_result [of now sn target]
  unfolding Let_def by blast

definition older_schema :: schema_header where
  "older_schema = \<lparr>sc_major = 1, sc_minor = 2, sc_patch = 3, sc_min_reader_major = 1\<rparr>"

definition one_directory :: snapshot where
  "one_directory = \<lparr>sn_schema = kCurrentSchemaHeader, sn_snapshot_id = 5, sn_created_at = 0,
    sn_host_identifier = ''h'', sn_root_entry_id = 1,
    sn_entries = [\<lparr>fe_id = 1, fe_parent_id = 0, fe_normalized_path = ''/'', fe_name = ''/'', fe_type = EntryType_Directory,
      fe_metadata = \<lparr>md_size_bytes = 0, md_created_at = 0, md_modified_at = 0, md_accessed_at = 0, md_permissions = 0,
        md_file_id = 0, md_device_id = 0, md_content_hash = None\<rparr>\<rparr>]\<rparr>"

text \<open>
  Rolling a successful migration of a valid snapshot back to its old schema succeeds and gives the
  original snapshot.
\<close>

lemma rollback_restores_snapshot:
  assumes "\<not> has_errors (validate_snapshot now sn)" and "sm_status (migrate_snapshot now sn target) = Success"
  shows "let r = rollback_snapshot now (sm_snapshot (migrate_snapshot now sn target)) (sn_schema sn)
    in sm_status r = Success \<and> sm_snapshot r = sn"
proof -
  have a: "snapshot_acceptable sn" using assms(1) by (simp add: validate_snapshot_errors)
  have m: "snapshot_acceptable (sn\<lparr>sn_schema := target\<rparr>)" "sm_snapshot (migrate_snapshot now sn target) = sn\<lparr>sn_schema := target\<rparr>"
    using assms(2) migrate_snapshot_result(1) [OF assms(2)] by (simp_all add: migrate_snapshot_success)
  have "schema_readable target" using m(1) by (simp add: snapshot_acceptable_def)
  then have s: "sm_status (migrate_snapshot now (sn\<lparr>sn_schema := target\<rparr>) (sn_schema sn)) = Success"
    using a by (simp add: migrate_snapshot_success schema_readable_alt)
  show ?thesis
    using s migrate_snapshot_result(1) [OF s] by (simp add: rollback_snapshot_def m(2) Let_def)
qed

lemma rollback_restores_snapshot_witness:
  "let r = rollback_snapshot 0 (sm_snapshot (migrate_snapshot 0 one_directory older_schema)) (sn_schema one_directory)
    in sm_status r = Success \<and> sm_snapshot r = one_directory"
  by (rule rollback_restores_snapshot; code_simp)

text \<open>
  the migration of a delta does not look at the target schema beyond its major version: it succeeds and
  yields a delta whose schema header is invalid, one that a snapshot could not be given.
\<close>

theorem delta_migrates_to_invalid_schema:
  "let bad = \<lparr>sc_major = 1, sc_minor = 0, sc_patch = 0, sc_min_reader_major = 9\<rparr>;
       d = \<lparr>dl_schema = kCurrentSchemaHeader, dl_base_snapshot_id = 1, dl_target_snapshot_id = 2,
         dl_added_entries = [], dl_removed_entries = [], dl_modified_entries = [], dl_renamed_entries = []\<rparr>;
       r = migrate_delta d bad
   in dm_status r = Success \<and> dl_schema (dm_delta r) = bad \<and> \<not> is_valid_schema bad \<and>
      sm_status (migrate_snapshot 0 one_directory bad) = ValidationFailed"
  by code_simp

end
