(* ===== verification/IngestStore.thy ===== *)
theory IngestStore imports ByteCodec Decimal begin

text \<open>
  Hugin's ingest store: the interface \<open>IIngestStore\<close> of \<open>src/backend/Hugin/storage/ingest_store.hpp\<close> as the
  locale \<open>ingest_store\<close>, and the store in memory, \<open>in_memory_ingest_store.cpp\<close>, that provides it.

  The abstract content of a store is a checkpoint per host and the raw frame logged under each host and
  sequence number.  Each operation of a store runs under its mutex, so it is one step.
\<close>

record ingest_log_record =
  il_host_id :: string
  il_sequence :: u64
  il_received_at_unix_seconds :: u64
  il_raw_frame :: bytes

subsection \<open>The interface\<close>

locale ingest_store =
  fixes get_checkpoint :: "'s \<Rightarrow> string \<Rightarrow> u64 status_or"
    and has_record :: "'s \<Rightarrow> string \<Rightarrow> u64 \<Rightarrow> bool status_or"
    and append_record :: "ingest_log_record \<Rightarrow> 's \<Rightarrow> unit status_or \<times> 's"
    and checkpoint :: "'s \<Rightarrow> string \<Rightarrow> u64"
    and logged :: "'s \<Rightarrow> string \<Rightarrow> u64 \<Rightarrow> bytes option"
  assumes get_checkpoint_Inr: "get_checkpoint s h = Inr c \<Longrightarrow> c = checkpoint s h"
    and has_record_Inr: "has_record s h q = Inr b \<Longrightarrow> b = (logged s h q \<noteq> None)"
    and append_Inr: "append_record r s = (Inr u, s') \<Longrightarrow>
      checkpoint s' = (checkpoint s)(il_host_id r := max (checkpoint s (il_host_id r)) (il_sequence r)) \<and>
      (\<forall>h q. logged s' h q =
        (if h = il_host_id r \<and> q = il_sequence r \<and> logged s h q = None then Some (il_raw_frame r) else logged s h q))"
    and append_Inl: "append_record r s = (Inl e, s') \<Longrightarrow> checkpoint s' = checkpoint s \<and> logged s' = logged s"
begin

text \<open>Whatever its outcome, appending never loses a record and never lowers a checkpoint.\<close>

lemma append_keeps_log: "append_record r s = (res, s') \<Longrightarrow> logged s h q = Some f \<Longrightarrow> logged s' h q = Some f"
  by (cases res) (auto dest: append_Inr append_Inl)

lemma append_checkpoint_mono: "append_record r s = (res, s') \<Longrightarrow> checkpoint s h \<le> checkpoint s' h"
  by (cases res) (auto dest: append_Inr append_Inl)

lemma append_other_host:
  "append_record r s = (res, s') \<Longrightarrow> h \<noteq> il_host_id r \<Longrightarrow>
    checkpoint s' h = checkpoint s h \<and> logged s' h = logged s h"
  by (cases res) (auto dest!: append_Inr append_Inl simp: fun_eq_iff)

lemma append_success:
  assumes "append_record r s = (Inr u, s')"
  shows "checkpoint s' (il_host_id r) = max (checkpoint s (il_host_id r)) (il_sequence r)"
    "logged s' (il_host_id r) (il_sequence r) \<noteq> None"
    "\<And>q. q \<noteq> il_sequence r \<Longrightarrow> logged s' (il_host_id r) q = logged s (il_host_id r) q"
  using append_Inr [OF assms] by auto

end

subsection \<open>The store in memory\<close>

record memory_store =
  ms_checkpoints :: "string \<rightharpoonup> u64"
  ms_records :: "string \<rightharpoonup> ingest_log_record"

definition make_key :: "string \<Rightarrow> u64 \<Rightarrow> string" where
  "make_key host_id sequence = host_id @ ''#'' @ show_word sequence"

definition memory_get_checkpoint :: "memory_store \<Rightarrow> string \<Rightarrow> u64 status_or" where
  "memory_get_checkpoint s host_id =
    (if host_id = [] then Inl (InvalidArgument, ''Host id is empty.'')
     else case ms_checkpoints s host_id of None \<Rightarrow> Inr 0 | Some c \<Rightarrow> Inr c)"

definition memory_has_record :: "memory_store \<Rightarrow> string \<Rightarrow> u64 \<Rightarrow> bool status_or" where
  "memory_has_record s host_id sequence =
    (if host_id = [] \<or> sequence = 0 then Inl (InvalidArgument, ''Host id or sequence is invalid.'')
     else Inr (ms_records s (make_key host_id sequence) \<noteq> None))"

text \<open>\<open>try_emplace\<close> keeps an existing record; \<open>operator[]\<close> creates a checkpoint of zero.\<close>

definition memory_append :: "ingest_log_record \<Rightarrow> memory_store \<Rightarrow> unit status_or \<times> memory_store" where
  "memory_append record s =
    (if il_host_id record = [] \<or> il_sequence record = 0
     then (Inl (InvalidArgument, ''Host id or sequence is invalid.''), s)
     else
       (let key = make_key (il_host_id record) (il_sequence record);
            records = (if ms_records s key \<noteq> None then ms_records s else (ms_records s)(key \<mapsto> record));
            checkpoint = (case ms_checkpoints s (il_host_id record) of None \<Rightarrow> 0 | Some c \<Rightarrow> c)
        in (Inr (), \<lparr>ms_checkpoints = (ms_checkpoints s)(il_host_id record \<mapsto>
              (if il_sequence record > checkpoint then il_sequence record else checkpoint)),
            ms_records = records\<rparr>)))"

definition memory_checkpoint :: "memory_store \<Rightarrow> string \<Rightarrow> u64" where
  "memory_checkpoint s h = (case ms_checkpoints s h of None \<Rightarrow> 0 | Some c \<Rightarrow> c)"

definition memory_logged :: "memory_store \<Rightarrow> string \<Rightarrow> u64 \<Rightarrow> bytes option" where
  "memory_logged s h q = map_option il_raw_frame (ms_records s (make_key h q))"

text \<open>The number after the last hash mark is the sequence number, so different records have different keys.\<close>

lemma make_key_inj [simp]: "make_key h q = make_key h' q' \<longleftrightarrow> h = h' \<and> q = q'"
proof
  have no_hash: "takeWhile (\<lambda>c. c \<noteq> CHR ''#'') (rev (make_key g p)) = rev (show_word p)"
    "tl (dropWhile (\<lambda>c. c \<noteq> CHR ''#'') (rev (make_key g p))) = rev g" for g p
    using show_word_digits(1) [of p] digit_not_sign
    by (auto simp: make_key_def list_all_iff takeWhile_append dropWhile_append)
  assume "make_key h q = make_key h' q'"
  then have "rev (show_word q) = rev (show_word q')" "rev h = rev h'"
    using no_hash [of h q] no_hash [of h' q'] by metis+
  then show "h = h' \<and> q = q'" by simp
qed simp

lemma memory_append_checkpoint:
  assumes "memory_append r s = (Inr u, s')"
  shows "memory_checkpoint s' = (memory_checkpoint s)(il_host_id r := max (memory_checkpoint s (il_host_id r)) (il_sequence r))"
proof
  fix h
  show "memory_checkpoint s' h =
      ((memory_checkpoint s)(il_host_id r := max (memory_checkpoint s (il_host_id r)) (il_sequence r))) h"
    using assms by (cases "h = il_host_id r") (auto simp: memory_append_def memory_checkpoint_def max_def Let_def split: if_splits)
qed

lemma memory_append_logged:
  assumes "memory_append r s = (Inr u, s')"
  shows "\<forall>h q. memory_logged s' h q = (if h = il_host_id r \<and> q = il_sequence r \<and> memory_logged s h q = None
    then Some (il_raw_frame r) else memory_logged s h q)"
proof (intro allI)
  fix h q
  have "ms_records s' = (if ms_records s (make_key (il_host_id r) (il_sequence r)) \<noteq> None then ms_records s
      else (ms_records s)(make_key (il_host_id r) (il_sequence r) \<mapsto> r))"
    using assms by (auto simp: memory_append_def Let_def split: if_splits)
  then show "memory_logged s' h q = (if h = il_host_id r \<and> q = il_sequence r \<and> memory_logged s h q = None
      then Some (il_raw_frame r) else memory_logged s h q)"
    by (auto simp: memory_logged_def)
qed

interpretation mem: ingest_store memory_get_checkpoint memory_has_record memory_append memory_checkpoint memory_logged
proof
  show "memory_get_checkpoint s h = Inr c \<Longrightarrow> c = memory_checkpoint s h" for s h c
    by (auto simp: memory_get_checkpoint_def memory_checkpoint_def split: if_splits option.splits)
  show "memory_has_record s h q = Inr b \<Longrightarrow> b = (memory_logged s h q \<noteq> None)" for s h q b
    by (auto simp: memory_has_record_def memory_logged_def split: if_splits)
  show "memory_append r s = (Inl e, s') \<Longrightarrow>
      memory_checkpoint s' = memory_checkpoint s \<and> memory_logged s' = memory_logged s" for r s e s'
    by (auto simp: memory_append_def Let_def split: if_splits)
  show "memory_append r s = (Inr u, s') \<Longrightarrow>
      memory_checkpoint s' = (memory_checkpoint s)(il_host_id r := max (memory_checkpoint s (il_host_id r)) (il_sequence r)) \<and>
      (\<forall>h q. memory_logged s' h q = (if h = il_host_id r \<and> q = il_sequence r \<and> memory_logged s h q = None
        then Some (il_raw_frame r) else memory_logged s h q))" for r s u s'
    using memory_append_checkpoint [of r s u s'] memory_append_logged [of r s u s'] by blast
qed

text \<open>The store in memory refuses only an empty host or the sequence number zero.\<close>

lemma memory_append_succeeds:
  "il_host_id r \<noteq> [] \<Longrightarrow> il_sequence r \<noteq> 0 \<Longrightarrow> fst (memory_append r s) = Inr ()"
  by (simp add: memory_append_def Let_def)

lemma memory_get_checkpoint_succeeds: "h \<noteq> [] \<Longrightarrow> memory_get_checkpoint s h = Inr (memory_checkpoint s h)"
  by (simp add: memory_get_checkpoint_def memory_checkpoint_def split: option.split)

end
