(* ===== verification/MessageValidator.thy ===== *)
theory MessageValidator imports MuninnFrame Serialization ValidationGraph Decimal begin

text \<open>
  Hugin's check of a received frame, \<open>src/backend/Hugin/ingest/message_validator.cpp\<close>: the payload is decoded
  with Muninn's binary format, validated, and compared with the authenticated host and the routing key.
  \<open>now\<close> is the clock that the validator's timestamp pass reads.
\<close>

record validated_record =
  vr_frame :: muninn_frame
  vr_snapshot :: "snapshot option"
  vr_delta :: "delta_snapshot option"

subsection \<open>Routing keys of deltas\<close>

text \<open>The texts before and after the first arrow.\<close>

fun split_arrow :: "string \<Rightarrow> (string \<times> string) option" where
  "split_arrow [] = None"
| "split_arrow (c # s) =
    (if c = CHR ''-'' \<and> s \<noteq> [] \<and> hd s = CHR ''>'' then Some ([], tl s)
     else case split_arrow s of None \<Rightarrow> None | Some (a, b) \<Rightarrow> Some (c # a, b))"

definition validate_delta_routing_key :: "string \<Rightarrow> delta_snapshot \<Rightarrow> unit status_or" where
  "validate_delta_routing_key routing_key delta =
    (case split_arrow routing_key of
       None \<Rightarrow> Inl (error_code.ValidationError, ''Delta routing key is malformed.'')
     | Some (base_text, target_text) \<Rightarrow>
         (case (stoull base_text, stoull target_text) of
            (Some base, Some target) \<Rightarrow>
              if base \<noteq> dl_base_snapshot_id delta \<or> target \<noteq> dl_target_snapshot_id delta
              then Inl (error_code.ValidationError, ''Delta routing key does not match payload snapshot ids.'')
              else Inr ()
          | _ \<Rightarrow> Inl (error_code.ValidationError, ''Delta routing key parse failed.'')))"

subsection \<open>Frames\<close>

definition validate_and_decode :: "int \<Rightarrow> muninn_frame \<Rightarrow> string \<Rightarrow> validated_record status_or" where
  "validate_and_decode now frame expected_host_id =
    (case mf_type frame of
       muninn_record_type.Snapshot \<Rightarrow>
         (case deserialize_snapshot_binary (mf_payload frame) of
            Inl (code, message) \<Rightarrow> Inl (ParseError, ''Snapshot payload decode failed: '' @ message)
          | Inr (snapshot, rest) \<Rightarrow>
              if has_errors (validate_snapshot now snapshot)
              then Inl (error_code.ValidationError, ''Snapshot payload validation failed.'')
              else if expected_host_id \<noteq> [] \<and> sn_host_identifier snapshot \<noteq> expected_host_id
              then Inl (error_code.ValidationError, ''Snapshot host identifier does not match authenticated host.'')
              else if mf_routing_key frame \<noteq> [] \<and> mf_routing_key frame \<noteq> sn_host_identifier snapshot
              then Inl (error_code.ValidationError, ''Snapshot routing key does not match payload host identifier.'')
              else Inr \<lparr>vr_frame = frame, vr_snapshot = Some snapshot, vr_delta = None\<rparr>)
     | muninn_record_type.Delta \<Rightarrow>
         (case deserialize_delta_binary (mf_payload frame) of
            Inl (code, message) \<Rightarrow> Inl (ParseError, ''Delta payload decode failed: '' @ message)
          | Inr (delta, rest) \<Rightarrow>
              if has_errors (validate_delta delta None None)
              then Inl (error_code.ValidationError, ''Delta payload validation failed.'')
              else (case validate_delta_routing_key (mf_routing_key frame) delta of
                      Inl e \<Rightarrow> Inl e
                    | Inr _ \<Rightarrow> Inr \<lparr>vr_frame = frame, vr_snapshot = None, vr_delta = Some delta\<rparr>)))"

subsection \<open>What is accepted\<close>

lemma split_arrow_append:
  "\<forall>c\<in>set a. c \<noteq> CHR ''-'' \<Longrightarrow> split_arrow (a @ CHR ''-'' # CHR ''>'' # b) = Some (a, b)"
  by (induction a) auto

text \<open>The key Muninn writes, two decimal numbers around an arrow, is read back.\<close>

lemma routing_key_accepted:
  "validate_delta_routing_key
    (show_word (dl_base_snapshot_id d) @ ''->'' @ show_word (dl_target_snapshot_id d)) d = Inr ()"
proof -
  have "\<forall>c\<in>set (show_word (dl_base_snapshot_id d)). c \<noteq> CHR ''-''"
    using show_word_digits(1) [of "dl_base_snapshot_id d"] digit_not_sign by (auto simp: list_all_iff)
  from split_arrow_append [OF this] show ?thesis
    using stoull_show_word [of "[]" "dl_base_snapshot_id d"] stoull_show_word [of "[]" "dl_target_snapshot_id d"]
    by (simp add: validate_delta_routing_key_def)
qed

lemma validate_and_decode_snapshot:
  "mf_type frame = muninn_record_type.Snapshot \<Longrightarrow> validate_and_decode now frame host = Inr v \<longleftrightarrow>
    (\<exists>sn rest. deserialize_snapshot_binary (mf_payload frame) = Inr (sn, rest) \<and> snapshot_acceptable sn \<and>
      (host = [] \<or> sn_host_identifier sn = host) \<and>
      (mf_routing_key frame = [] \<or> mf_routing_key frame = sn_host_identifier sn) \<and>
      v = \<lparr>vr_frame = frame, vr_snapshot = Some sn, vr_delta = None\<rparr>)"
  by (auto simp: validate_and_decode_def validate_snapshot_errors split: sum.splits if_splits)

lemma validate_and_decode_delta:
  "mf_type frame = muninn_record_type.Delta \<Longrightarrow> validate_and_decode now frame host = Inr v \<longleftrightarrow>
    (\<exists>d rest. deserialize_delta_binary (mf_payload frame) = Inr (d, rest) \<and> delta_well_formed d \<and>
      validate_delta_routing_key (mf_routing_key frame) d = Inr () \<and>
      v = \<lparr>vr_frame = frame, vr_snapshot = None, vr_delta = Some d\<rparr>)"
  by (auto simp: validate_and_decode_def validate_delta_errors split: sum.splits if_splits)

end
