(* ===== verification/IngestCoordinator.thy ===== *)
theory IngestCoordinator imports IngestStore MessageValidator begin

text \<open>
  Hugin's ingest coordinator, \<open>src/backend/Hugin/ingest/ingest_coordinator.cpp\<close>, over any ingest store and
  downstream sink.  \<open>ingest\<close> holds its mutex only while it looks at the sequence number and while it
  records the outcome; between the two, other threads can run.  So the function is given in phases, one
  atomic step each, whose composition is the call, and a step relation interleaves the phases of any
  number of threads with crashes of the process.
\<close>

subsection \<open>State\<close>

text \<open>\<open>IngestMetrics\<close>: atomic counters.\<close>

record ingest_metrics =
  frames_received :: u64
  frames_committed :: u64
  frames_duplicate :: u64
  frames_gap :: u64
  frames_validation_failed :: u64
  frames_storage_failed :: u64
  sink_failures :: u64

datatype ingest_action = Committed | Duplicate | Gap

record ingest_decision =
  id_action :: ingest_action
  id_should_ack :: bool
  id_ack_inclusive_sequence :: u64
  id_expected_next_sequence :: u64
  id_reason :: string

record host_state =
  hs_loaded :: bool
  hs_last_committed_sequence :: u64
  hs_since_last_ack :: nat

text \<open>The operations of the store and of the sink that the coordinator calls.\<close>

record 's store_ops =
  op_get_checkpoint :: "'s \<Rightarrow> string \<Rightarrow> u64 status_or"
  op_append :: "ingest_log_record \<Rightarrow> 's \<Rightarrow> unit status_or \<times> 's"

record 'k sink_ops =
  op_apply_snapshot :: "string \<Rightarrow> u64 \<Rightarrow> snapshot \<Rightarrow> 'k \<Rightarrow> unit status_or \<times> 'k"
  op_apply_delta :: "string \<Rightarrow> u64 \<Rightarrow> delta_snapshot \<Rightarrow> 'k \<Rightarrow> unit status_or \<times> 'k"

record ('s, 'k) coordinator =
  ic_store :: 's
  ic_sink :: 'k
  ic_metrics :: ingest_metrics
  ic_ack_batch_size :: nat
  ic_host_states :: "string \<rightharpoonup> host_state"

definition zero_metrics :: ingest_metrics where
  "zero_metrics = \<lparr>frames_received = 0, frames_committed = 0, frames_duplicate = 0, frames_gap = 0,
    frames_validation_failed = 0, frames_storage_failed = 0, sink_failures = 0\<rparr>"

definition make_coordinator :: "'s \<Rightarrow> 'k \<Rightarrow> nat \<Rightarrow> ('s, 'k) coordinator" where
  "make_coordinator store sink ack_batch_size = \<lparr>ic_store = store, ic_sink = sink, ic_metrics = zero_metrics,
    ic_ack_batch_size = (if ack_batch_size = 0 then 1 else ack_batch_size), ic_host_states = Map.empty\<rparr>"

definition count :: "(ingest_metrics \<Rightarrow> ingest_metrics) \<Rightarrow> ('s, 'k) coordinator \<Rightarrow> ('s, 'k) coordinator" where
  "count f c = c\<lparr>ic_metrics := f (ic_metrics c)\<rparr>"

subsection \<open>Phases\<close>

text \<open>\<open>operator[]\<close> creates an unloaded state before the checkpoint is read.\<close>

definition load_host_state ::
  "'s store_ops \<Rightarrow> string \<Rightarrow> ('s, 'k) coordinator \<Rightarrow> host_state status_or \<times> ('s, 'k) coordinator" where
  "load_host_state ops host_id c =
    (let state = (case ic_host_states c host_id of Some st \<Rightarrow> st
           | None \<Rightarrow> \<lparr>hs_loaded = False, hs_last_committed_sequence = 0, hs_since_last_ack = 0\<rparr>);
         c = c\<lparr>ic_host_states := (ic_host_states c)(host_id \<mapsto> state)\<rparr>
     in if hs_loaded state then (Inr state, c)
        else (case op_get_checkpoint ops (ic_store c) host_id of
            Inl e \<Rightarrow> (Inl e, c)
          | Inr checkpoint \<Rightarrow>
              (let state = \<lparr>hs_loaded = True, hs_last_committed_sequence = checkpoint, hs_since_last_ack = 0\<rparr>
               in (Inr state, c\<lparr>ic_host_states := (ic_host_states c)(host_id \<mapsto> state)\<rparr>))))"

record ingest_job =
  jb_host_id :: string
  jb_sequence :: u64
  jb_raw_frame :: bytes
  jb_received_at :: u64

text \<open>Where a call of \<open>ingest\<close> stands.\<close>

datatype phase =
    Arrived ingest_job
  | Admitted ingest_job
  | Logged ingest_job validated_record
  | Applied ingest_job bool
  | Returned ingest_job "ingest_decision status_or"

definition duplicate_decision :: "host_state \<Rightarrow> ingest_decision" where
  "duplicate_decision state = \<lparr>id_action = Duplicate, id_should_ack = True,
    id_ack_inclusive_sequence = hs_last_committed_sequence state,
    id_expected_next_sequence = hs_last_committed_sequence state + 1, id_reason = ''duplicate_sequence''\<rparr>"

definition gap_decision :: "host_state \<Rightarrow> ingest_decision" where
  "gap_decision state = \<lparr>id_action = Gap, id_should_ack = False,
    id_ack_inclusive_sequence = hs_last_committed_sequence state,
    id_expected_next_sequence = hs_last_committed_sequence state + 1, id_reason = ''sequence_gap''\<rparr>"

text \<open>Up to the end of the first critical section.\<close>

definition admit :: "'s store_ops \<Rightarrow> ingest_job \<Rightarrow> ('s, 'k) coordinator \<Rightarrow> phase \<times> ('s, 'k) coordinator" where
  "admit ops job c =
    (let c = count (\<lambda>m. m\<lparr>frames_received := frames_received m + 1\<rparr>) c
     in if jb_host_id job = [] then (Returned job (Inl (error_code.InvalidArgument, ''Host id is empty.'')), c)
        else if jb_sequence job = 0 then (Returned job (Inl (error_code.InvalidArgument, ''Sequence is zero.'')), c)
        else (case load_host_state ops (jb_host_id job) c of
            (Inl e, c) \<Rightarrow> (Returned job (Inl e), count (\<lambda>m. m\<lparr>frames_storage_failed := frames_storage_failed m + 1\<rparr>) c)
          | (Inr state, c) \<Rightarrow>
              if jb_sequence job \<le> hs_last_committed_sequence state
              then (Returned job (Inr (duplicate_decision state)),
                    count (\<lambda>m. m\<lparr>frames_duplicate := frames_duplicate m + 1\<rparr>) c)
              else if jb_sequence job > hs_last_committed_sequence state + 1
              then (Returned job (Inr (gap_decision state)), count (\<lambda>m. m\<lparr>frames_gap := frames_gap m + 1\<rparr>) c)
              else (Admitted job, c)))"

text \<open>Parsing, validation and the append to the store.\<close>

definition log_frame :: "'s store_ops \<Rightarrow> int \<Rightarrow> ingest_job \<Rightarrow> ('s, 'k) coordinator \<Rightarrow> phase \<times> ('s, 'k) coordinator" where
  "log_frame ops now job c =
    (let failed = count (\<lambda>m. m\<lparr>frames_validation_failed := frames_validation_failed m + 1\<rparr>) c
     in case parse_muninn_frame (jb_raw_frame job) of
          Inl e \<Rightarrow> (Returned job (Inl e), failed)
        | Inr frame \<Rightarrow>
            (case validate_and_decode now frame (jb_host_id job) of
               Inl e \<Rightarrow> (Returned job (Inl e), failed)
             | Inr validated \<Rightarrow>
                 (case op_append ops \<lparr>il_host_id = jb_host_id job, il_sequence = jb_sequence job,
                      il_received_at_unix_seconds = jb_received_at job, il_raw_frame = jb_raw_frame job\<rparr> (ic_store c) of
                    (Inl e, store) \<Rightarrow> (Returned job (Inl e),
                      count (\<lambda>m. m\<lparr>frames_storage_failed := frames_storage_failed m + 1\<rparr>) (c\<lparr>ic_store := store\<rparr>))
                  | (Inr _, store) \<Rightarrow> (Logged job validated, c\<lparr>ic_store := store\<rparr>))))"

definition apply_to_sink :: "'k sink_ops \<Rightarrow> ingest_job \<Rightarrow> validated_record \<Rightarrow> ('s, 'k) coordinator \<Rightarrow> phase \<times> ('s, 'k) coordinator" where
  "apply_to_sink sink job validated c =
    (let (sink_status, k) =
           (case vr_snapshot validated of
              Some snapshot \<Rightarrow> op_apply_snapshot sink (jb_host_id job) (jb_sequence job) snapshot (ic_sink c)
            | None \<Rightarrow> (case vr_delta validated of
                Some delta \<Rightarrow> op_apply_delta sink (jb_host_id job) (jb_sequence job) delta (ic_sink c)
              | None \<Rightarrow> (Inr (), ic_sink c)));
         c = c\<lparr>ic_sink := k\<rparr>
     in case sink_status of
          Inr _ \<Rightarrow> (Applied job True, c)
        | Inl _ \<Rightarrow> (Applied job False, count (\<lambda>m. m\<lparr>sink_failures := sink_failures m + 1\<rparr>) c))"

text \<open>The second critical section.\<close>

definition conclude :: "'s store_ops \<Rightarrow> ingest_job \<Rightarrow> bool \<Rightarrow> ('s, 'k) coordinator \<Rightarrow> phase \<times> ('s, 'k) coordinator" where
  "conclude ops job sink_ok c =
    (case load_host_state ops (jb_host_id job) c of
       (Inl e, c) \<Rightarrow> (Returned job (Inl e), count (\<lambda>m. m\<lparr>frames_storage_failed := frames_storage_failed m + 1\<rparr>) c)
     | (Inr state, c) \<Rightarrow>
         (let last = (if jb_sequence job > hs_last_committed_sequence state then jb_sequence job
                      else hs_last_committed_sequence state);
              since = hs_since_last_ack state + 1;
              should_ack = (since \<ge> ic_ack_batch_size c);
              state = state\<lparr>hs_last_committed_sequence := last, hs_since_last_ack := (if should_ack then 0 else since)\<rparr>
          in (Returned job (Inr \<lparr>id_action = Committed, id_should_ack = should_ack, id_ack_inclusive_sequence = last,
                id_expected_next_sequence = last + 1,
                id_reason = (if sink_ok then ''committed'' else ''committed_sink_failed'')\<rparr>),
              count (\<lambda>m. m\<lparr>frames_committed := frames_committed m + 1\<rparr>)
                (c\<lparr>ic_host_states := (ic_host_states c)(jb_host_id job \<mapsto> state)\<rparr>))))"

fun advance ::
  "'s store_ops \<Rightarrow> 'k sink_ops \<Rightarrow> int \<Rightarrow> phase \<Rightarrow> ('s, 'k) coordinator \<Rightarrow> phase \<times> ('s, 'k) coordinator" where
  "advance ops sink now (Arrived job) c = admit ops job c"
| "advance ops sink now (Admitted job) c = log_frame ops now job c"
| "advance ops sink now (Logged job validated) c = apply_to_sink sink job validated c"
| "advance ops sink now (Applied job sink_ok) c = conclude ops job sink_ok c"
| "advance ops sink now (Returned job result) c = (Returned job result, c)"

text \<open>A call that is not interrupted.\<close>

definition ingest ::
  "'s store_ops \<Rightarrow> 'k sink_ops \<Rightarrow> int \<Rightarrow> ingest_job \<Rightarrow> ('s, 'k) coordinator \<Rightarrow>
    ingest_decision status_or \<times> ('s, 'k) coordinator" where
  "ingest ops sink now job c =
    (let (p, c) = advance ops sink now (Arrived job) c;
         (p, c) = advance ops sink now p c;
         (p, c) = advance ops sink now p c;
         (p, c) = advance ops sink now p c
     in (case p of Returned _ result \<Rightarrow> result | _ \<Rightarrow> Inl (Internal, []), c))"

definition expected_next_sequence ::
  "'s store_ops \<Rightarrow> string \<Rightarrow> ('s, 'k) coordinator \<Rightarrow> u64 status_or \<times> ('s, 'k) coordinator" where
  "expected_next_sequence ops host_id c =
    (if host_id = [] then (Inl (error_code.InvalidArgument, ''Host id is empty.''), c)
     else (case load_host_state ops host_id c of
         (Inl e, c) \<Rightarrow> (Inl e, c)
       | (Inr state, c) \<Rightarrow> (Inr (hs_last_committed_sequence state + 1), c)))"


subsection \<open>Any interleaving of calls, and crashes\<close>

text \<open>
  The threads are numbered; each runs one call.  A crash keeps the store and the sink and loses the host
  states and all running calls.
\<close>

record ('s, 'k) system =
  sy_coordinator :: "('s, 'k) coordinator"
  sy_threads :: "nat \<rightharpoonup> phase"

inductive system_step ::
  "'s store_ops \<Rightarrow> 'k sink_ops \<Rightarrow> int \<Rightarrow> ('s, 'k) system \<Rightarrow> ('s, 'k) system \<Rightarrow> bool" for ops sink now where
  arrive: "sy_threads y i = None \<Longrightarrow> system_step ops sink now y (y\<lparr>sy_threads := (sy_threads y)(i \<mapsto> Arrived job)\<rparr>)"
| run: "sy_threads y i = Some p \<Longrightarrow> advance ops sink now p (sy_coordinator y) = (p', c') \<Longrightarrow>
    system_step ops sink now y \<lparr>sy_coordinator = c', sy_threads = (sy_threads y)(i \<mapsto> p')\<rparr>"
| crash: "system_step ops sink now y
    \<lparr>sy_coordinator = make_coordinator (ic_store (sy_coordinator y)) (ic_sink (sy_coordinator y))
       (ic_ack_batch_size (sy_coordinator y)), sy_threads = Map.empty\<rparr>"

inductive reachable ::
  "'s store_ops \<Rightarrow> 'k sink_ops \<Rightarrow> int \<Rightarrow> ('s, 'k) system \<Rightarrow> ('s, 'k) system \<Rightarrow> bool" for ops sink now start where
  initial: "reachable ops sink now start start"
| step: "reachable ops sink now start y \<Longrightarrow> system_step ops sink now y z \<Longrightarrow> reachable ops sink now start z"

definition start_system :: "'s \<Rightarrow> 'k \<Rightarrow> nat \<Rightarrow> ('s, 'k) system" where
  "start_system store sink ack_batch_size =
    \<lparr>sy_coordinator = make_coordinator store sink ack_batch_size, sy_threads = Map.empty\<rparr>"

lemma count_fields [simp]:
  "ic_store (count f c) = ic_store c" "ic_sink (count f c) = ic_sink c"
  "ic_host_states (count f c) = ic_host_states c" "ic_ack_batch_size (count f c) = ic_ack_batch_size c"
  by (simp_all add: count_def)

lemma load_host_state_fields [simp]:
  "ic_store (snd (load_host_state ops h c)) = ic_store c" "ic_sink (snd (load_host_state ops h c)) = ic_sink c"
  "ic_ack_batch_size (snd (load_host_state ops h c)) = ic_ack_batch_size c"
  by (simp_all add: load_host_state_def Let_def split: option.split sum.split)

text \<open>Every frame up to the checkpoint of a host is in the log.\<close>

definition contiguous :: "('s \<Rightarrow> string \<Rightarrow> u64) \<Rightarrow> ('s \<Rightarrow> string \<Rightarrow> u64 \<Rightarrow> bytes option) \<Rightarrow> 's \<Rightarrow> bool" where
  "contiguous checkpoint logged s \<longleftrightarrow> (\<forall>h q. q \<noteq> 0 \<longrightarrow> q \<le> checkpoint s h \<longrightarrow> logged s h q \<noteq> None)"

definition hosts_ok :: "(string \<Rightarrow> u64) \<Rightarrow> (string \<rightharpoonup> host_state) \<Rightarrow> bool" where
  "hosts_ok cp hosts \<longleftrightarrow> (\<forall>h st. hosts h = Some st \<longrightarrow> hs_loaded st \<longrightarrow> hs_last_committed_sequence st \<le> cp h)"

text \<open>What is known of a call in each phase: \<open>cp\<close> are the checkpoints of the store.\<close>

fun phase_ok :: "(string \<Rightarrow> u64) \<Rightarrow> phase \<Rightarrow> bool" where
  "phase_ok cp (Arrived job) \<longleftrightarrow> True"
| "phase_ok cp (Admitted job) \<longleftrightarrow> jb_sequence job \<noteq> 0 \<and> jb_sequence job - 1 \<le> cp (jb_host_id job)"
| "phase_ok cp (Logged job v) \<longleftrightarrow> jb_sequence job \<le> cp (jb_host_id job)"
| "phase_ok cp (Applied job ok) \<longleftrightarrow> jb_sequence job \<le> cp (jb_host_id job)"
| "phase_ok cp (Returned job r) \<longleftrightarrow>
    (case r of Inl e \<Rightarrow> True | Inr d \<Rightarrow> id_ack_inclusive_sequence d \<le> cp (jb_host_id job))"


lemma phase_ok_mono: "phase_ok cp p \<Longrightarrow> (\<And>h. cp h \<le> cp' h) \<Longrightarrow> phase_ok cp' p"
  by (cases p) (auto split: sum.splits intro: order_trans)

lemma hosts_ok_mono: "hosts_ok cp hosts \<Longrightarrow> (\<And>h. cp h \<le> cp' h) \<Longrightarrow> hosts_ok cp' hosts"
  unfolding hosts_ok_def by (meson order_trans)

lemma hosts_ok_upd: "hosts_ok cp hosts \<Longrightarrow> hs_loaded st \<longrightarrow> hs_last_committed_sequence st \<le> cp h \<Longrightarrow> hosts_ok cp (hosts(h \<mapsto> st))"
  by (auto simp: hosts_ok_def)

text \<open>The sequence number after an admitted one does not wrap around.\<close>

lemma next_sequence:
  assumes "(l :: u64) < q" "q \<le> l + 1" shows "q \<noteq> 0 \<and> q - 1 \<le> l"
proof -
  have "l + 1 \<noteq> 0" using assms by auto
  then have next_l: "unat (l + 1) = Suc (unat l)" by (simp add: unatSuc add.commute)
  then have "unat q = unat (l + 1)" using assms by (simp add: word_less_nat_alt word_le_nat_alt)
  then have "q = l + 1" by (simp add: word_unat_eq_iff)
  then show ?thesis using assms(1) by auto
qed

lemma between_predecessor:
  assumes "(q :: u64) \<noteq> 0" "q - 1 \<le> l" "l < p" "p \<le> q" shows "p = q"
proof -
  have "unat (q - 1) = unat q - 1" "unat q \<noteq> 0" using assms(1) by (simp_all add: unat_minus_one unat_eq_0)
  then show ?thesis using assms by (simp add: word_less_nat_alt word_le_nat_alt word_unat_eq_iff)
qed

text \<open>What a sink makes of a validated record.\<close>

definition sink_result :: "'k sink_ops \<Rightarrow> ingest_job \<Rightarrow> validated_record \<Rightarrow> 'k \<Rightarrow> unit status_or \<times> 'k" where
  "sink_result sink job v k =
    (case vr_snapshot v of
       Some snapshot \<Rightarrow> op_apply_snapshot sink (jb_host_id job) (jb_sequence job) snapshot k
     | None \<Rightarrow> (case vr_delta v of
         Some delta \<Rightarrow> op_apply_delta sink (jb_host_id job) (jb_sequence job) delta k
       | None \<Rightarrow> (Inr (), k)))"

lemma apply_to_sink_result:
  "\<exists>b c'. apply_to_sink sink job v c = (Applied job b, c') \<and> ic_sink c' = snd (sink_result sink job v (ic_sink c)) \<and>
    ic_store c' = ic_store c \<and> ic_host_states c' = ic_host_states c \<and> ic_ack_batch_size c' = ic_ack_batch_size c"
  by (auto simp: apply_to_sink_def sink_result_def Let_def split: sum.splits prod.splits option.splits)

text \<open>The frame of a job, decoded and validated.\<close>

definition decoded :: "int \<Rightarrow> ingest_job \<Rightarrow> validated_record status_or" where
  "decoded now job = sum_bind (parse_muninn_frame (jb_raw_frame job)) (\<lambda>frame. validate_and_decode now frame (jb_host_id job))"

text \<open>A sequence of calls, and the sequence numbers of a host that were committed, in order.\<close>

fun ingest_all ::
  "'s store_ops \<Rightarrow> 'k sink_ops \<Rightarrow> int \<Rightarrow> ingest_job list \<Rightarrow> ('s, 'k) coordinator \<Rightarrow>
    ingest_decision status_or list \<times> ('s, 'k) coordinator" where
  "ingest_all ops sink now [] c = ([], c)"
| "ingest_all ops sink now (job # jobs) c =
    (let (r, c) = ingest ops sink now job c; (rs, c) = ingest_all ops sink now jobs c in (r # rs, c))"

definition was_committed :: "ingest_decision status_or \<Rightarrow> bool" where
  "was_committed r \<longleftrightarrow> (case r of Inl e \<Rightarrow> False | Inr d \<Rightarrow> id_action d = Committed)"

definition committed_sequences :: "string \<Rightarrow> ingest_job list \<Rightarrow> ingest_decision status_or list \<Rightarrow> nat list" where
  "committed_sequences h jobs rs =
    map (\<lambda>(job, r). unat (jb_sequence job))
      (filter (\<lambda>(job, r). jb_host_id job = h \<and> was_committed r) (zip jobs rs))"

text \<open>
  The host states in memory agree with the checkpoints; and what one call does: \<open>checkpoint\<close> and \<open>logged\<close>
  are the abstract contents of the store.
\<close>

definition in_sync :: "('s \<Rightarrow> string \<Rightarrow> u64) \<Rightarrow> ('s, 'k) coordinator \<Rightarrow> bool" where
  "in_sync checkpoint c \<longleftrightarrow> (\<forall>h st. ic_host_states c h = Some st \<longrightarrow> hs_loaded st \<longrightarrow>
    hs_last_committed_sequence st = checkpoint (ic_store c) h)"

definition unchanged :: "('s \<Rightarrow> string \<Rightarrow> u64) \<Rightarrow> ('s \<Rightarrow> string \<Rightarrow> u64 \<Rightarrow> bytes option) \<Rightarrow> ('s, 'k) coordinator \<Rightarrow> ('s, 'k) coordinator \<Rightarrow> bool" where
  "unchanged checkpoint logged c c' \<longleftrightarrow> checkpoint (ic_store c') = checkpoint (ic_store c) \<and>
    logged (ic_store c') = logged (ic_store c) \<and> ic_sink c' = ic_sink c"

definition committed_by :: "('s \<Rightarrow> string \<Rightarrow> u64) \<Rightarrow> ('s \<Rightarrow> string \<Rightarrow> u64 \<Rightarrow> bytes option) \<Rightarrow> 'k sink_ops \<Rightarrow> int \<Rightarrow> ingest_job \<Rightarrow> ('s, 'k) coordinator \<Rightarrow> ('s, 'k) coordinator \<Rightarrow> bool" where
  "committed_by checkpoint logged sink now job c c' \<longleftrightarrow>
    (\<exists>v. decoded now job = Inr v \<and> ic_sink c' = snd (sink_result sink job v (ic_sink c))) \<and>
    unat (jb_sequence job) = Suc (unat (checkpoint (ic_store c) (jb_host_id job))) \<and>
    checkpoint (ic_store c') = (checkpoint (ic_store c))(jb_host_id job := jb_sequence job) \<and>
    (\<forall>h q. logged (ic_store c') h q = (if h = jb_host_id job \<and> q = jb_sequence job \<and> logged (ic_store c) h q = None
       then Some (jb_raw_frame job) else logged (ic_store c) h q))"

definition outcome_ok :: "('s \<Rightarrow> string \<Rightarrow> u64) \<Rightarrow> ('s \<Rightarrow> string \<Rightarrow> u64 \<Rightarrow> bytes option) \<Rightarrow> 'k sink_ops \<Rightarrow> int \<Rightarrow> ingest_job \<Rightarrow> ('s, 'k) coordinator \<Rightarrow> ('s, 'k) coordinator \<Rightarrow>
    ingest_decision status_or \<Rightarrow> bool" where
  "outcome_ok checkpoint logged sink now job c c' res \<longleftrightarrow>
    (case res of
       Inl e \<Rightarrow> unchanged checkpoint logged c c'
     | Inr d \<Rightarrow>
         (case id_action d of
            Committed \<Rightarrow> committed_by checkpoint logged sink now job c c' \<and> id_ack_inclusive_sequence d = jb_sequence job
          | Duplicate \<Rightarrow> unchanged checkpoint logged c c' \<and> id_should_ack d \<and>
              id_ack_inclusive_sequence d = checkpoint (ic_store c) (jb_host_id job) \<and>
              jb_sequence job \<le> checkpoint (ic_store c) (jb_host_id job)
          | Gap \<Rightarrow> unchanged checkpoint logged c c' \<and> \<not> id_should_ack d \<and>
              jb_sequence job > checkpoint (ic_store c) (jb_host_id job) + 1))"

context ingest_store
begin

abbreviation ops :: "'s store_ops" where
  "ops \<equiv> \<lparr>op_get_checkpoint = get_checkpoint, op_append = append_record\<rparr>"

lemma load_host_state_ok:
  assumes "hosts_ok (checkpoint (ic_store c)) (ic_host_states c)" "load_host_state ops h c = (res, c')"
  shows "hosts_ok (checkpoint (ic_store c)) (ic_host_states c')" "ic_store c' = ic_store c"
    "res = Inr st \<Longrightarrow> hs_loaded st \<and> hs_last_committed_sequence st \<le> checkpoint (ic_store c) h \<and> ic_host_states c' h = Some st"
  using assms get_checkpoint_Inr [of "ic_store c" h]
  by (auto simp: load_host_state_def hosts_ok_def Let_def split: option.splits sum.splits if_splits)

definition store_ok :: "('s, 'k) coordinator \<Rightarrow> bool" where
  "store_ok c \<longleftrightarrow> contiguous checkpoint logged (ic_store c) \<and> hosts_ok (checkpoint (ic_store c)) (ic_host_states c)"

lemma append_contiguous:
  assumes "contiguous checkpoint logged s" "append_record r s = (res, s')" "il_sequence r \<noteq> 0"
    "il_sequence r - 1 \<le> checkpoint s (il_host_id r)"
  shows "contiguous checkpoint logged s'"
  unfolding contiguous_def
proof (intro allI impI)
  fix h q assume q: "q \<noteq> 0" "q \<le> checkpoint s' h"
  show "logged s' h q \<noteq> None"
  proof (cases "q \<le> checkpoint s h")
    case True
    then have "logged s h q \<noteq> None" using assms(1) q(1) by (simp add: contiguous_def)
    then show ?thesis using append_keeps_log [OF assms(2)] by fastforce
  next
    case False
    then obtain u where u: "res = Inr u" using assms(2) q(2) append_Inl by (cases res) auto
    have h: "h = il_host_id r" using False q(2) append_other_host [OF assms(2)] by metis
    then have "checkpoint s h < q" "q \<le> il_sequence r"
      using False q(2) append_success(1) [OF assms(2) [unfolded u]] by (auto simp: max_def split: if_splits)
    then have "q = il_sequence r" using between_predecessor [OF assms(3,4)] h by blast
    then show ?thesis using append_success(2) [OF assms(2) [unfolded u]] h by blast
  qed
qed

lemma admit_ok:
  assumes "store_ok c" "admit ops job c = (p', c')"
  shows "store_ok c' \<and> phase_ok (checkpoint (ic_store c')) p' \<and> ic_store c' = ic_store c"
proof -
  let ?c = "count (\<lambda>m. m\<lparr>frames_received := frames_received m + 1\<rparr>) c"
  obtain res c1 where l: "load_host_state ops (jb_host_id job) ?c = (res, c1)"
    by (cases "load_host_state ops (jb_host_id job) ?c")
  have "hosts_ok (checkpoint (ic_store ?c)) (ic_host_states ?c)" using assms(1) by (simp add: store_ok_def)
  note load = load_host_state_ok [OF this l, simplified]
  show ?thesis
  proof (cases "jb_host_id job = [] \<or> jb_sequence job = 0")
    case True
    then show ?thesis using assms by (auto simp: admit_def store_ok_def Let_def split: if_splits)
  next
    case False
    show ?thesis
    proof (cases res)
      case (Inl e)
      then show ?thesis using assms l load(1,2) False by (auto simp: admit_def store_ok_def Let_def)
    next
      case (Inr st)
      note st = load(3) [OF Inr]
      let ?l = "hs_last_committed_sequence st" and ?q = "jb_sequence job"
      have "?q \<noteq> 0 \<and> ?q - 1 \<le> ?l" if "\<not> ?q \<le> ?l" "\<not> ?l + 1 < ?q"
        using next_sequence [of ?l ?q] that by (simp add: not_le not_less)
      then show ?thesis using assms l load(1,2) False st Inr
        by (auto simp: admit_def store_ok_def Let_def duplicate_decision_def gap_decision_def intro: order_trans split: if_splits)
    qed
  qed
qed

lemma log_frame_ok:
  assumes "store_ok c" "phase_ok (checkpoint (ic_store c)) (Admitted job)" "log_frame ops now job c = (p', c')"
  shows "store_ok c' \<and> phase_ok (checkpoint (ic_store c')) p' \<and> (\<forall>h. checkpoint (ic_store c) h \<le> checkpoint (ic_store c') h)"
proof -
  let ?r = "\<lparr>il_host_id = jb_host_id job, il_sequence = jb_sequence job,
    il_received_at_unix_seconds = jb_received_at job, il_raw_frame = jb_raw_frame job\<rparr>"
  obtain res s' where a: "append_record ?r (ic_store c) = (res, s')" by (cases "append_record ?r (ic_store c)")
  have mono: "checkpoint (ic_store c) h \<le> checkpoint s' h" for h by (rule append_checkpoint_mono [OF a])
  have cont: "contiguous checkpoint logged s'"
    by (rule append_contiguous [OF _ a]) (use assms(1,2) in \<open>simp_all add: store_ok_def\<close>)
  have hosts: "hosts_ok (checkpoint s') (ic_host_states c)"
    using assms(1) mono hosts_ok_mono unfolding store_ok_def by blast
  have "res = Inr u \<Longrightarrow> jb_sequence job \<le> checkpoint s' (jb_host_id job)" for u
    using append_success(1) [of ?r "ic_store c" u s'] a by simp
  then show ?thesis using assms(1,3) a mono cont hosts
    by (auto simp: log_frame_def store_ok_def Let_def split: sum.splits prod.splits)
qed

lemma apply_to_sink_ok:
  assumes "store_ok c" "phase_ok (checkpoint (ic_store c)) (Logged job v)" "apply_to_sink sink job v c = (p', c')"
  shows "store_ok c' \<and> phase_ok (checkpoint (ic_store c')) p' \<and> ic_store c' = ic_store c"
  using assms by (auto simp: apply_to_sink_def store_ok_def Let_def split: sum.splits prod.splits option.splits)

lemma conclude_ok:
  assumes "store_ok c" "phase_ok (checkpoint (ic_store c)) (Applied job b)" "conclude ops job b c = (p', c')"
  shows "store_ok c' \<and> phase_ok (checkpoint (ic_store c')) p' \<and> ic_store c' = ic_store c"
proof -
  obtain res c1 where l: "load_host_state ops (jb_host_id job) c = (res, c1)"
    by (cases "load_host_state ops (jb_host_id job) c")
  have "hosts_ok (checkpoint (ic_store c)) (ic_host_states c)" using assms(1) by (simp add: store_ok_def)
  note load = load_host_state_ok [OF this l]
  show ?thesis
  proof (cases res)
    case (Inl e)
    then show ?thesis using assms l load(1,2) by (auto simp: conclude_def store_ok_def)
  next
    case (Inr st)
    show ?thesis using assms l load(1,2) load(3) [OF Inr] Inr
      by (auto simp: conclude_def store_ok_def Let_def intro!: hosts_ok_upd)
  qed
qed

lemma advance_ok:
  assumes "store_ok c" "phase_ok (checkpoint (ic_store c)) p" "advance ops sink now p c = (p', c')"
  shows "store_ok c' \<and> phase_ok (checkpoint (ic_store c')) p' \<and> (\<forall>h. checkpoint (ic_store c) h \<le> checkpoint (ic_store c') h)"
proof (cases p)
  case (Arrived job)
  then show ?thesis using admit_ok [OF assms(1), of job p' c'] assms(3) by auto
next
  case (Admitted job)
  show ?thesis
    by (rule log_frame_ok [OF assms(1), of job now]) (use Admitted assms in simp_all)
next
  case (Logged job v)
  then show ?thesis using apply_to_sink_ok [OF assms(1), of job v sink p' c'] assms(2,3) by auto
next
  case (Applied job b)
  then show ?thesis using conclude_ok [OF assms(1), of job b p' c'] assms(2,3) by auto
next
  case (Returned job r)
  then have "p' = p" "c' = c" using assms(3) by simp_all
  then show ?thesis using assms(1,2) by simp
qed

text \<open>Every reachable state of the system.\<close>

definition system_ok :: "('s, 'k) system \<Rightarrow> bool" where
  "system_ok y \<longleftrightarrow> store_ok (sy_coordinator y) \<and>
    (\<forall>i p. sy_threads y i = Some p \<longrightarrow> phase_ok (checkpoint (ic_store (sy_coordinator y))) p)"

lemma system_ok_start: "contiguous checkpoint logged s \<Longrightarrow> system_ok (start_system s k n)"
  by (simp add: system_ok_def store_ok_def start_system_def make_coordinator_def hosts_ok_def)

lemma system_step_ok: "system_step ops sink now y z \<Longrightarrow> system_ok y \<Longrightarrow> system_ok z"
proof (induction rule: system_step.induct)
  case (arrive y i job)
  then show ?case by (simp add: system_ok_def)
next
  case (run y i p p' c')
  then have "store_ok (sy_coordinator y)" "phase_ok (checkpoint (ic_store (sy_coordinator y))) p"
    by (simp_all add: system_ok_def)
  from advance_ok [OF this run.hyps(2)]
  have new: "store_ok c'" "phase_ok (checkpoint (ic_store c')) p'"
    "\<And>h. checkpoint (ic_store (sy_coordinator y)) h \<le> checkpoint (ic_store c') h" by blast+
  have "phase_ok (checkpoint (ic_store c')) q" if "sy_threads y j = Some q" for j q
    using run.prems that phase_ok_mono [OF _ new(3)] by (auto simp: system_ok_def)
  then show ?case using new by (simp add: system_ok_def)
next
  case (crash y)
  then show ?case by (simp add: system_ok_def store_ok_def make_coordinator_def hosts_ok_def)
qed

lemma reachable_ok:
  "reachable ops sink now start y \<Longrightarrow> system_ok start \<Longrightarrow> system_ok y"
  by (induction rule: reachable.induct) (auto dest: system_step_ok)

lemma acknowledged_logged:
  assumes "contiguous checkpoint logged s" "reachable ops sink now (start_system s k n) y"
    "sy_threads y i = Some (Returned job (Inr d))" "q \<noteq> 0" "q \<le> id_ack_inclusive_sequence d"
  shows "logged (ic_store (sy_coordinator y)) (jb_host_id job) q \<noteq> None"
proof -
  have ok: "system_ok y" by (rule reachable_ok [OF assms(2) system_ok_start [OF assms(1)]])
  then have "phase_ok (checkpoint (ic_store (sy_coordinator y))) (Returned job (Inr d))"
    using assms(3) unfolding system_ok_def by blast
  then have "id_ack_inclusive_sequence d \<le> checkpoint (ic_store (sy_coordinator y)) (jb_host_id job)" by simp
  then have "q \<le> checkpoint (ic_store (sy_coordinator y)) (jb_host_id job)" using assms(5) by (rule order_trans [rotated])
  then show ?thesis using ok assms(4) by (simp add: system_ok_def store_ok_def contiguous_def)
qed

text \<open>Calls that are not interrupted keep the host states equal to the checkpoints.\<close>

lemma load_host_state_sync:
  assumes "in_sync checkpoint c" "load_host_state ops h c = (res, c')"
  shows "in_sync checkpoint c'" "ic_store c' = ic_store c" "ic_sink c' = ic_sink c"
    "res = Inr st \<Longrightarrow> hs_loaded st \<and> hs_last_committed_sequence st = checkpoint (ic_store c) h \<and> ic_host_states c' h = Some st"
  using assms get_checkpoint_Inr [of "ic_store c" h]
  by (auto simp: load_host_state_def in_sync_def Let_def split: option.splits sum.splits if_splits)

lemma admit_sync:
  assumes "in_sync checkpoint c" "admit ops job c = (p, c')"
  shows "in_sync checkpoint c'" "ic_store c' = ic_store c" "ic_sink c' = ic_sink c"
    "p = Admitted job \<and> jb_sequence job \<noteq> 0 \<and> unat (jb_sequence job) = Suc (unat (checkpoint (ic_store c) (jb_host_id job))) \<and>
       (\<exists>st. ic_host_states c' (jb_host_id job) = Some st \<and> hs_loaded st) \<or>
     (\<exists>e. p = Returned job (Inl e)) \<or>
     (\<exists>d. p = Returned job (Inr d) \<and> id_action d = Duplicate \<and> id_should_ack d \<and>
        id_ack_inclusive_sequence d = checkpoint (ic_store c) (jb_host_id job) \<and>
        jb_sequence job \<le> checkpoint (ic_store c) (jb_host_id job)) \<or>
     (\<exists>d. p = Returned job (Inr d) \<and> id_action d = Gap \<and> \<not> id_should_ack d \<and>
        jb_sequence job > checkpoint (ic_store c) (jb_host_id job) + 1)"
proof -
  let ?c = "count (\<lambda>m. m\<lparr>frames_received := frames_received m + 1\<rparr>) c"
  let ?cp = "checkpoint (ic_store c) (jb_host_id job)" and ?q = "jb_sequence job"
  obtain res c1 where l: "load_host_state ops (jb_host_id job) ?c = (res, c1)"
    by (cases "load_host_state ops (jb_host_id job) ?c")
  have "in_sync checkpoint ?c" using assms(1) by (simp add: in_sync_def)
  note load = load_host_state_sync [OF this l, simplified]
  have fields: "in_sync checkpoint (count f c) = in_sync checkpoint c" for f and c :: "('s, 'k) coordinator" by (simp add: in_sync_def)
  show "in_sync checkpoint c'" "ic_store c' = ic_store c" "ic_sink c' = ic_sink c"
    using assms l load(1-3) fields by (auto simp: admit_def Let_def split: if_splits sum.splits)
  have step: "?q \<noteq> 0 \<and> unat ?q = Suc (unat ?cp)" if "\<not> ?q \<le> ?cp" "\<not> ?cp + 1 < ?q"
  proof -
    have q: "?q \<noteq> 0" "?q - 1 \<le> ?cp" using next_sequence [of ?cp ?q] that by (simp_all add: not_le not_less)
    have "unat (?q - 1) = unat ?q - 1" "unat ?q \<noteq> 0" using q(1) by (simp_all add: unat_minus_one unat_eq_0)
    then show ?thesis using q that(1) by (simp add: word_le_nat_alt)
  qed
  show "p = Admitted job \<and> ?q \<noteq> 0 \<and> unat ?q = Suc (unat ?cp) \<and>
       (\<exists>st. ic_host_states c' (jb_host_id job) = Some st \<and> hs_loaded st) \<or>
     (\<exists>e. p = Returned job (Inl e)) \<or>
     (\<exists>d. p = Returned job (Inr d) \<and> id_action d = Duplicate \<and> id_should_ack d \<and>
        id_ack_inclusive_sequence d = ?cp \<and> ?q \<le> ?cp) \<or>
     (\<exists>d. p = Returned job (Inr d) \<and> id_action d = Gap \<and> \<not> id_should_ack d \<and> ?q > ?cp + 1)"
  proof (cases "jb_host_id job = [] \<or> ?q = 0")
    case True
    then show ?thesis using assms(2) by (auto simp: admit_def Let_def split: if_splits)
  next
    case False
    show ?thesis
    proof (cases res)
      case (Inl e)
      then show ?thesis using assms(2) l False by (auto simp: admit_def Let_def)
    next
      case (Inr st)
      note st = load(4) [OF Inr]
      show ?thesis using assms(2) l False st Inr step
        by (auto simp: admit_def Let_def duplicate_decision_def gap_decision_def split: if_splits)
    qed
  qed
qed

lemma log_frame_sync:
  assumes "log_frame ops now job c = (p, c')"
  shows "ic_host_states c' = ic_host_states c" "ic_sink c' = ic_sink c" "ic_ack_batch_size c' = ic_ack_batch_size c"
    "(\<exists>e. p = Returned job (Inl e) \<and> checkpoint (ic_store c') = checkpoint (ic_store c) \<and> logged (ic_store c') = logged (ic_store c)) \<or>
     (\<exists>v. p = Logged job v \<and> decoded now job = Inr v \<and>
        checkpoint (ic_store c') = (checkpoint (ic_store c))(jb_host_id job :=
          max (checkpoint (ic_store c) (jb_host_id job)) (jb_sequence job)) \<and>
        (\<forall>h q. logged (ic_store c') h q = (if h = jb_host_id job \<and> q = jb_sequence job \<and> logged (ic_store c) h q = None
           then Some (jb_raw_frame job) else logged (ic_store c) h q)))"
proof -
  let ?r = "\<lparr>il_host_id = jb_host_id job, il_sequence = jb_sequence job,
    il_received_at_unix_seconds = jb_received_at job, il_raw_frame = jb_raw_frame job\<rparr>"
  obtain res s' where a: "append_record ?r (ic_store c) = (res, s')" by (cases "append_record ?r (ic_store c)")
  show "ic_host_states c' = ic_host_states c" "ic_sink c' = ic_sink c" "ic_ack_batch_size c' = ic_ack_batch_size c"
    using assms by (auto simp: log_frame_def Let_def split: sum.splits prod.splits)
  show "(\<exists>e. p = Returned job (Inl e) \<and> checkpoint (ic_store c') = checkpoint (ic_store c) \<and> logged (ic_store c') = logged (ic_store c)) \<or>
     (\<exists>v. p = Logged job v \<and> decoded now job = Inr v \<and>
        checkpoint (ic_store c') = (checkpoint (ic_store c))(jb_host_id job :=
          max (checkpoint (ic_store c) (jb_host_id job)) (jb_sequence job)) \<and>
        (\<forall>h q. logged (ic_store c') h q = (if h = jb_host_id job \<and> q = jb_sequence job \<and> logged (ic_store c) h q = None
           then Some (jb_raw_frame job) else logged (ic_store c) h q)))"
  proof (cases "decoded now job")
    case (Inl e)
    then show ?thesis using assms
      by (auto simp: log_frame_def decoded_def sum_bind_eq_Inl Let_def split: sum.splits)
  next
    case (Inr v)
    then obtain frame where frame: "parse_muninn_frame (jb_raw_frame job) = Inr frame"
      "validate_and_decode now frame (jb_host_id job) = Inr v" by (auto simp: decoded_def sum_bind_eq_Inr)
    show ?thesis
    proof (cases res)
      case (Inl e)
      then show ?thesis using assms frame a append_Inl [of ?r "ic_store c" e s'] by (auto simp: log_frame_def Let_def)
    next
      case (Inr u)
      have p: "p = Logged job v" and s': "ic_store c' = s'" using assms frame a Inr by (auto simp: log_frame_def Let_def)
      show ?thesis
        unfolding s' using append_Inr [OF a [unfolded Inr], unfolded ingest_log_record.simps] p \<open>decoded now job = Inr v\<close>
        by blast
    qed
  qed
qed

lemma conclude_sync:
  assumes "ic_host_states c (jb_host_id job) = Some st" "hs_loaded st" "hs_last_committed_sequence st < jb_sequence job"
  shows "\<exists>d c'. conclude ops job b c = (Returned job (Inr d), c') \<and> id_action d = Committed \<and>
    id_ack_inclusive_sequence d = jb_sequence job \<and> ic_store c' = ic_store c \<and> ic_sink c' = ic_sink c \<and>
    (\<exists>st'. ic_host_states c' = (ic_host_states c)(jb_host_id job \<mapsto> st') \<and> hs_last_committed_sequence st' = jb_sequence job)"
  using assms by (auto simp: conclude_def load_host_state_def Let_def)

text \<open>One call, exactly.\<close>

lemma ingest_outcome:
  assumes sync: "in_sync checkpoint c" and run: "ingest ops sink now job c = (res, c')"
  shows "in_sync checkpoint c' \<and> outcome_ok checkpoint logged sink now job c c' res"
proof -
  obtain p1 c1 where a: "admit ops job c = (p1, c1)" by (cases "admit ops job c")
  note s1 = admit_sync(1-3) [OF sync a]
  let ?h = "jb_host_id job" and ?q = "jb_sequence job"
  show ?thesis
  proof (cases "\<exists>r. p1 = Returned job r")
    case True
    then obtain r where r: "p1 = Returned job r" by blast
    have "res = r" "c' = c1" using run a r by (simp_all add: ingest_def)
    then show ?thesis using admit_sync(4) [OF sync a] r s1
      by (auto simp: outcome_ok_def unchanged_def)
  next
    case False
    then obtain st where st: "p1 = Admitted job" "?q \<noteq> 0" "unat ?q = Suc (unat (checkpoint (ic_store c) ?h))"
      "ic_host_states c1 ?h = Some st" "hs_loaded st"
      using admit_sync(4) [OF sync a] by blast
    have last: "hs_last_committed_sequence st = checkpoint (ic_store c) ?h"
      using s1 st(4,5) by (simp add: in_sync_def)
    have less: "checkpoint (ic_store c) ?h < ?q" using st(3) by (simp add: word_less_nat_alt)
    obtain p2 c2 where lf: "log_frame ops now job c1 = (p2, c2)" by (cases "log_frame ops now job c1")
    note l = log_frame_sync [OF lf]
    show ?thesis
    proof (cases "\<exists>e. p2 = Returned job (Inl e)")
      case True
      then obtain e where e: "p2 = Returned job (Inl e)" by blast
      have "res = Inl e" "c' = c2" using run a st(1) lf e by (simp_all add: ingest_def)
      moreover have "checkpoint (ic_store c2) = checkpoint (ic_store c1)" "logged (ic_store c2) = logged (ic_store c1)"
        using l(4) e by auto
      ultimately show ?thesis using s1 l(1,2) by (simp add: outcome_ok_def unchanged_def in_sync_def)
    next
      case False
      then obtain v where v: "p2 = Logged job v" "decoded now job = Inr v"
        "checkpoint (ic_store c2) = (checkpoint (ic_store c1))(?h := max (checkpoint (ic_store c1) ?h) ?q)"
        "\<forall>h q. logged (ic_store c2) h q = (if h = ?h \<and> q = ?q \<and> logged (ic_store c1) h q = None
           then Some (jb_raw_frame job) else logged (ic_store c1) h q)"
        using l(4) by blast
      obtain b c3 where ap: "apply_to_sink sink job v c2 = (Applied job b, c3)"
        "ic_sink c3 = snd (sink_result sink job v (ic_sink c2))" "ic_store c3 = ic_store c2"
        "ic_host_states c3 = ic_host_states c2"
        using apply_to_sink_result [of sink job v c2] by blast
      have "ic_host_states c3 ?h = Some st" "hs_last_committed_sequence st < ?q"
        using ap(4) l(1) st(4) last less by simp_all
      then obtain d c4 st' where cc: "conclude ops job b c3 = (Returned job (Inr d), c4)" "id_action d = Committed"
        "id_ack_inclusive_sequence d = ?q" "ic_store c4 = ic_store c3" "ic_sink c4 = ic_sink c3"
        "ic_host_states c4 = (ic_host_states c3)(?h \<mapsto> st')" "hs_last_committed_sequence st' = ?q"
        using conclude_sync [of c3 job st b] st(5) by blast
      have res: "res = Inr d" "c' = c4" using run a st(1) lf v(1) ap(1) cc(1) by (simp_all add: ingest_def)
      have cp: "checkpoint (ic_store c4) = (checkpoint (ic_store c))(?h := ?q)"
        using cc(4) ap(3) v(3) s1(2) less by (simp add: max_absorb2 less_imp_le)
      have "in_sync checkpoint c4"
        using s1(1) cp cc(6,7) ap(4) l(1) s1(2) by (auto simp: in_sync_def)
      moreover have "committed_by checkpoint logged sink now job c c4"
        using v(2,4) ap(2) cc(4,5) ap(3) l(2) s1(2,3) st(3) cp by (auto simp: committed_by_def)
      ultimately show ?thesis using res cc(2,3) by (simp add: outcome_ok_def)
    qed
  qed
qed

lemma ingest_all_committed:
  "in_sync checkpoint c \<Longrightarrow> ingest_all ops sink now jobs c = (rs, c') \<Longrightarrow>
    checkpoint (ic_store c) h \<le> checkpoint (ic_store c') h \<and>
    committed_sequences h jobs rs = [Suc (unat (checkpoint (ic_store c) h))..<Suc (unat (checkpoint (ic_store c') h))]"
proof (induction jobs arbitrary: c rs)
  case Nil
  then show ?case by (simp add: committed_sequences_def)
next
  case (Cons job jobs)
  obtain r c1 where i: "ingest ops sink now job c = (r, c1)" by (cases "ingest ops sink now job c")
  obtain rs1 where rest: "ingest_all ops sink now jobs c1 = (rs1, c')" "rs = r # rs1"
    using Cons.prems(2) i by (auto split: prod.splits)
  have one: "in_sync checkpoint c1" "outcome_ok checkpoint logged sink now job c c1 r" using ingest_outcome [OF Cons.prems(1) i] by blast+
  note IH = Cons.IH [OF one(1) rest(1)]
  let ?cp = "checkpoint (ic_store c) h" and ?cp1 = "checkpoint (ic_store c1) h"
  have seqs: "committed_sequences h (job # jobs) rs =
      (if jb_host_id job = h \<and> was_committed r then [unat (jb_sequence job)] else []) @ committed_sequences h jobs rs1"
    by (simp add: committed_sequences_def rest(2))
  show ?case
  proof (cases "jb_host_id job = h \<and> was_committed r")
    case True
    then have "committed_by checkpoint logged sink now job c c1" using one(2)
      by (auto simp: outcome_ok_def was_committed_def split: sum.splits)
    then have q: "unat (jb_sequence job) = Suc (unat ?cp)" "?cp1 = jb_sequence job"
      using True by (simp_all add: committed_by_def)
    then have "?cp \<le> ?cp1" by (simp add: word_le_nat_alt)
    moreover have "unat ?cp1 \<le> unat (checkpoint (ic_store c') h)" using IH by (simp add: word_le_nat_alt)
    ultimately show ?thesis using IH True q unfolding seqs by (auto simp: upt_conv_Cons)
  next
    case False
    then have "?cp1 = ?cp" using one(2)
      by (auto simp: outcome_ok_def was_committed_def committed_by_def unchanged_def
          split: sum.splits ingest_action.splits)
    then show ?thesis using IH False unfolding seqs by simp
  qed
qed

end

end
