(* ===== verification/Lmdb.thy ===== *)
theory Lmdb imports Prelude "HOL-Library.Sublist" begin

text \<open>
  LMDB as the two stores use it.  It is not part of the repository, so its functions are a parameter, the
  record \<open>lmdb_api\<close> over an unknown type of database states, and \<open>lmdb_laws\<close> states what its
  documentation promises of them: a transaction starts from the committed contents; a put, a get or a
  deletion that reports success did what it says; \<open>MDB_NOTFOUND\<close> and \<open>MDB_KEYEXIST\<close> are truthful; a value
  that is stored has a 32-bit size; a cursor walks over the keys in lexicographic order, also while the
  record it stands on is deleted; a commit takes effect completely or not at all.  Which calls succeed is left open.  Aborting a transaction
  is keeping the old state.  A database handle is the name of the database.

  The loops of the stores over a cursor are one definition, \<open>cursor_loop\<close>, and \<open>cursor_loop_records\<close>
  is the fact about it that the stores' proofs use: the loop returns, and it is a run over a prefix of the
  sorted list of records, over all of them when it ends with \<open>MDB_NOTFOUND\<close>.
\<close>

abbreviation (input) MDB_NOTFOUND :: int where "MDB_NOTFOUND \<equiv> -30798"
abbreviation (input) MDB_KEYEXIST :: int where "MDB_KEYEXIST \<equiv> -30799"
abbreviation (input) MDB_BAD_VALSIZE :: int where "MDB_BAD_VALSIZE \<equiv> -30781"

text \<open>
  Where a cursor moves to: \<open>MDB_FIRST\<close>, \<open>MDB_NEXT\<close> from the record with a key, \<open>MDB_SET_RANGE\<close>.
\<close>

datatype cursor_position = First | After bytes | From bytes

record 'e lmdb_api =
  lm_create_directories :: "string \<Rightarrow> string option"
  lm_env_create :: int
  lm_set_mapsize :: "nat \<Rightarrow> int"
  lm_set_maxdbs :: "u32 \<Rightarrow> int"
  lm_set_maxreaders :: "u32 \<Rightarrow> int"
  lm_env_open :: "string \<Rightarrow> bool \<Rightarrow> bool \<Rightarrow> int \<times> 'e"
  lm_begin :: "'e \<Rightarrow> int \<times> 'e"
  lm_dbi_open :: "'e \<Rightarrow> string \<Rightarrow> int \<times> 'e"
  lm_get :: "'e \<Rightarrow> string \<Rightarrow> bytes \<Rightarrow> int \<times> bytes"
  lm_put :: "'e \<Rightarrow> string \<Rightarrow> bytes \<Rightarrow> bytes \<Rightarrow> bool \<Rightarrow> int \<times> 'e"
  lm_del :: "'e \<Rightarrow> string \<Rightarrow> bytes \<Rightarrow> int \<times> 'e"
  lm_cursor_open :: "'e \<Rightarrow> string \<Rightarrow> int"
  lm_cursor_get :: "'e \<Rightarrow> string \<Rightarrow> cursor_position \<Rightarrow> int \<times> bytes \<times> bytes"
  lm_cursor_del :: "'e \<Rightarrow> string \<Rightarrow> bytes \<Rightarrow> int \<times> 'e"
  lm_stat :: "'e \<Rightarrow> string \<Rightarrow> int \<times> nat"
  lm_commit :: "'e \<Rightarrow> 'e \<Rightarrow> int \<times> 'e"
  lm_strerror :: "int \<Rightarrow> string"

text \<open>
  The flags of \<open>lm_env_open\<close> are \<open>MDB_NOSYNC\<close> and \<open>MDB_WRITEMAP\<close>, that of \<open>lm_put\<close> is
  \<open>MDB_NOOVERWRITE\<close>; the key given to \<open>lm_cursor_del\<close> is the one the cursor stands on.
\<close>

type_synonym contents = "string \<Rightarrow> bytes \<rightharpoonup> bytes"

fun admits :: "cursor_position \<Rightarrow> bytes \<Rightarrow> bool" where
  "admits First k \<longleftrightarrow> True"
| "admits (After a) k \<longleftrightarrow> a < k"
| "admits (From a) k \<longleftrightarrow> a \<le> k"

definition first_record :: "(bytes \<rightharpoonup> bytes) \<Rightarrow> cursor_position \<Rightarrow> bytes \<Rightarrow> bytes \<Rightarrow> bool" where
  "first_record m pos k v \<longleftrightarrow>
    m k = Some v \<and> admits pos k \<and> (\<forall>k'. m k' \<noteq> None \<and> admits pos k' \<longrightarrow> k \<le> k')"

definition no_record :: "(bytes \<rightharpoonup> bytes) \<Rightarrow> cursor_position \<Rightarrow> bool" where
  "no_record m pos \<longleftrightarrow> (\<forall>k. m k \<noteq> None \<longrightarrow> \<not> admits pos k)"

definition lmdb_laws :: "'e lmdb_api \<Rightarrow> ('e \<Rightarrow> contents) \<Rightarrow> bool" where
  "lmdb_laws api contents \<longleftrightarrow>
    (\<forall>e db. finite (dom (contents e db))) \<and>
    (\<forall>e t. lm_begin api e = (0, t) \<longrightarrow> contents t = contents e) \<and>
    (\<forall>t db t'. lm_dbi_open api t db = (0, t') \<longrightarrow> contents t' = contents t) \<and>
    (\<forall>t db k v. lm_get api t db k = (0, v) \<longrightarrow> contents t db k = Some v) \<and>
    (\<forall>t db k v. lm_get api t db k = (MDB_NOTFOUND, v) \<longrightarrow> contents t db k = None) \<and>
    (\<forall>t db k v no t'. lm_put api t db k v no = (0, t') \<longrightarrow>
       contents t' = (contents t)(db := (contents t db)(k \<mapsto> v)) \<and> (no \<longrightarrow> contents t db k = None) \<and> length v < 4294967296) \<and>
    (\<forall>t db k v no t'. lm_put api t db k v no = (MDB_KEYEXIST, t') \<longrightarrow>
       contents t' = contents t \<and> no \<and> contents t db k \<noteq> None) \<and>
    (\<forall>t db k t'. lm_del api t db k = (0, t') \<longrightarrow>
       contents t' = (contents t)(db := (contents t db)(k := None)) \<and> contents t db k \<noteq> None) \<and>
    (\<forall>t db k t'. lm_del api t db k = (MDB_NOTFOUND, t') \<longrightarrow> contents t db k = None) \<and>
    (\<forall>t db pos k v. lm_cursor_get api t db pos = (0, k, v) \<longrightarrow> first_record (contents t db) pos k v) \<and>
    (\<forall>t db pos k v. lm_cursor_get api t db pos = (MDB_NOTFOUND, k, v) \<longrightarrow> no_record (contents t db) pos) \<and>
    (\<forall>t db k t'. lm_cursor_del api t db k = (0, t') \<longrightarrow>
       contents t' = (contents t)(db := (contents t db)(k := None))) \<and>
    (\<forall>t db n. lm_stat api t db = (0, n) \<longrightarrow> n = card (dom (contents t db))) \<and>
    (\<forall>e t e'. lm_commit api e t = (0, e') \<longrightarrow> contents e' = contents t) \<and>
    (\<forall>e t rc e'. lm_commit api e t = (rc, e') \<longrightarrow> rc \<noteq> 0 \<longrightarrow> contents e' = contents e)"

lemma lmdb_laws_parts:
  assumes "lmdb_laws api contents"
  shows "\<forall>e db. finite (dom (contents e db))"
    "\<forall>e t. lm_begin api e = (0, t) \<longrightarrow> contents t = contents e"
    "\<forall>t db t'. lm_dbi_open api t db = (0, t') \<longrightarrow> contents t' = contents t"
    "\<forall>t db k v. lm_get api t db k = (0, v) \<longrightarrow> contents t db k = Some v"
    "\<forall>t db k v. lm_get api t db k = (MDB_NOTFOUND, v) \<longrightarrow> contents t db k = None"
    "\<forall>t db k v no t'. lm_put api t db k v no = (0, t') \<longrightarrow> contents t' = (contents t)(db := (contents t db)(k \<mapsto> v)) \<and> (no \<longrightarrow> contents t db k = None) \<and> length v < 4294967296"
    "\<forall>t db k v no t'. lm_put api t db k v no = (MDB_KEYEXIST, t') \<longrightarrow> contents t' = contents t \<and> no \<and> contents t db k \<noteq> None"
    "\<forall>t db k t'. lm_del api t db k = (0, t') \<longrightarrow> contents t' = (contents t)(db := (contents t db)(k := None)) \<and> contents t db k \<noteq> None"
    "\<forall>t db k t'. lm_del api t db k = (MDB_NOTFOUND, t') \<longrightarrow> contents t db k = None"
    "\<forall>t db pos k v. lm_cursor_get api t db pos = (0, k, v) \<longrightarrow> first_record (contents t db) pos k v"
    "\<forall>t db pos k v. lm_cursor_get api t db pos = (MDB_NOTFOUND, k, v) \<longrightarrow> no_record (contents t db) pos"
    "\<forall>t db k t'. lm_cursor_del api t db k = (0, t') \<longrightarrow> contents t' = (contents t)(db := (contents t db)(k := None))"
    "\<forall>t db n. lm_stat api t db = (0, n) \<longrightarrow> n = card (dom (contents t db))"
    "\<forall>e t e'. lm_commit api e t = (0, e') \<longrightarrow> contents e' = contents t"
    "\<forall>e t rc e'. lm_commit api e t = (rc, e') \<longrightarrow> rc \<noteq> 0 \<longrightarrow> contents e' = contents e"
  using assms unfolding lmdb_laws_def by - (elim conjE, assumption)+

lemmas finite_contents = lmdb_laws_parts(1) [rule_format]
lemmas lm_begin_ok = lmdb_laws_parts(2) [rule_format]
lemmas lm_dbi_open_ok = lmdb_laws_parts(3) [rule_format]
lemmas lm_get_ok = lmdb_laws_parts(4) [rule_format]
lemmas lm_get_notfound = lmdb_laws_parts(5) [rule_format]
lemmas lm_put_ok = lmdb_laws_parts(6) [rule_format]
lemmas lm_put_exists = lmdb_laws_parts(7) [rule_format]
lemmas lm_del_ok = lmdb_laws_parts(8) [rule_format]
lemmas lm_del_notfound = lmdb_laws_parts(9) [rule_format]
lemmas lm_cursor_get_ok = lmdb_laws_parts(10) [rule_format]
lemmas lm_cursor_get_notfound = lmdb_laws_parts(11) [rule_format]
lemmas lm_cursor_del_ok = lmdb_laws_parts(12) [rule_format]
lemmas lm_stat_ok = lmdb_laws_parts(13) [rule_format]
lemmas lm_commit_ok = lmdb_laws_parts(14) [rule_format]
lemmas lm_commit_failed = lmdb_laws_parts(15) [rule_format]


text \<open>
  What both stores keep of the database: \<open>env_\<close>, null before it is opened, and \<open>open_\<close>; and what
  \<open>close\<close> makes of them.
\<close>

record 'e lmdb_handle =
  lh_env :: "'e option"
  lh_open :: bool

definition closed_handle :: "'e lmdb_handle" where
  "closed_handle = \<lparr>lh_env = None, lh_open = False\<rparr>"

definition is_open :: "'e lmdb_handle \<Rightarrow> bool" where
  "is_open s \<longleftrightarrow> lh_open s \<and> lh_env s \<noteq> None"

text \<open>The options with which both stores are opened.\<close>

record lmdb_options =
  lo_directory :: string
  lo_map_size_bytes :: nat
  lo_max_dbs :: u32
  lo_max_readers :: u32
  lo_no_sync :: bool
  lo_write_map :: bool

text \<open>The contents of a store; a closed store has none.\<close>

definition store_contents :: "('e \<Rightarrow> contents) \<Rightarrow> 'e lmdb_handle \<Rightarrow> contents" where
  "store_contents contents s = (case lh_env s of Some e \<Rightarrow> contents e | None \<Rightarrow> (\<lambda>_. Map.empty))"

lemma store_contents_Some [simp]: "store_contents contents \<lparr>lh_env = Some e, lh_open = b\<rparr> = contents e"
  by (simp add: store_contents_def)

subsection \<open>The laws can hold\<close>

text \<open>A database that is its contents, as association lists, and never fails.\<close>

type_synonym list_db = "string \<Rightarrow> (bytes \<times> bytes) list"

definition least_record :: "(bytes \<times> bytes) list \<Rightarrow> cursor_position \<Rightarrow> int \<times> bytes \<times> bytes" where
  "least_record kvs pos =
    (let ks = filter (admits pos) (map fst kvs)
     in if ks = [] then (MDB_NOTFOUND, [], [])
        else let k = fold min (tl ks) (hd ks) in (0, k, the (map_of kvs k)))"

definition faultless_lmdb :: "list_db \<Rightarrow> list_db lmdb_api" where
  "faultless_lmdb initial = \<lparr>
    lm_create_directories = (\<lambda>_. None), lm_env_create = 0,
    lm_set_mapsize = (\<lambda>_. 0), lm_set_maxdbs = (\<lambda>_. 0), lm_set_maxreaders = (\<lambda>_. 0),
    lm_env_open = (\<lambda>_ _ _. (0, initial)),
    lm_begin = (\<lambda>e. (0, e)),
    lm_dbi_open = (\<lambda>t _. (0, t)),
    lm_get = (\<lambda>t db k. case map_of (t db) k of None \<Rightarrow> (MDB_NOTFOUND, []) | Some v \<Rightarrow> (0, v)),
    lm_put = (\<lambda>t db k v no. if int (length v) \<ge> 4294967296 then (MDB_BAD_VALSIZE, t)
      else if no \<and> map_of (t db) k \<noteq> None then (MDB_KEYEXIST, t)
      else (0, t(db := (k, v) # filter (\<lambda>kv. fst kv \<noteq> k) (t db)))),
    lm_del = (\<lambda>t db k. if map_of (t db) k = None then (MDB_NOTFOUND, t)
      else (0, t(db := filter (\<lambda>kv. fst kv \<noteq> k) (t db)))),
    lm_cursor_open = (\<lambda>_ _. 0),
    lm_cursor_get = (\<lambda>t db pos. least_record (t db) pos),
    lm_cursor_del = (\<lambda>t db k. (0, t(db := filter (\<lambda>kv. fst kv \<noteq> k) (t db)))),
    lm_stat = (\<lambda>t db. (0, length (remdups (map fst (t db))))),
    lm_commit = (\<lambda>e t. (0, t)), lm_strerror = (\<lambda>rc. [])\<rparr>"

definition list_contents :: "list_db \<Rightarrow> contents" where
  "list_contents e db = map_of (e db)"

lemma map_of_filter_key: "map_of (filter (\<lambda>kv. fst kv \<noteq> k) kvs) = (map_of kvs)(k := None)"
  by (induction kvs) (auto simp: fun_eq_iff)

lemma fold_min: "fold min xs (x :: 'a::linorder) \<in> insert x (set xs) \<and> (\<forall>y \<in> insert x (set xs). fold min xs x \<le> y)"
proof (induction xs arbitrary: x)
  case (Cons a xs)
  show ?case using Cons [of "min a x"] by (auto simp: min_def split: if_splits)
qed simp

lemma least_record_ok:
  assumes "least_record kvs pos = (0, k, v)" shows "first_record (map_of kvs) pos k v"
proof -
  let ?ks = "filter (admits pos) (map fst kvs)"
  have ks: "?ks \<noteq> []" "k = fold min (tl ?ks) (hd ?ks)" "v = the (map_of kvs k)"
    using assms by (auto simp: least_record_def Let_def split: if_splits)
  have all: "set ?ks = insert (hd ?ks) (set (tl ?ks))" using ks(1) by (cases ?ks) auto
  have k: "k \<in> set ?ks" "\<forall>k' \<in> set ?ks. k \<le> k'"
    using fold_min [of "tl ?ks" "hd ?ks"] ks(2) unfolding all by blast+
  have "map_of kvs k = Some v" using k(1) ks(3) by (cases "map_of kvs k") (auto simp: map_of_eq_None_iff)
  moreover have "k' \<in> set ?ks" if "map_of kvs k' \<noteq> None" "admits pos k'" for k'
    using that by (auto simp: map_of_eq_None_iff)
  ultimately show ?thesis using k by (auto simp: first_record_def)
qed

lemma least_record_notfound:
  "least_record kvs pos = (MDB_NOTFOUND, k, v) \<Longrightarrow> no_record (map_of kvs) pos"
  by (auto simp: least_record_def no_record_def Let_def map_of_eq_None_iff filter_empty_conv split: if_splits)

lemma list_contents_upd: "list_contents (t(db := kvs)) = (list_contents t)(db := map_of kvs)"
  by (simp add: list_contents_def fun_eq_iff)

lemma stat_ok: "length (remdups (map fst kvs)) = card (dom (map_of kvs))"
  by (simp add: length_remdups_card_conv dom_map_of_conv_image_fst)

lemma faultless_lmdb_laws: "lmdb_laws (faultless_lmdb initial) list_contents"
  unfolding lmdb_laws_def
  by (intro conjI allI impI; (simp add: faultless_lmdb_def list_contents_upd map_of_filter_key split: if_splits option.splits; fail)?)
    (auto simp: faultless_lmdb_def list_contents_upd list_contents_def map_of_filter_key stat_ok finite_dom_map_of 
      dest: least_record_ok least_record_notfound split: if_splits option.splits)

subsection \<open>Loops over a cursor\<close>

text \<open>
  \<open>rc = mdb_cursor_get(cursor, &key, &value, ...); while (rc == MDB_SUCCESS) { body; rc =
  mdb_cursor_get(cursor, &key, &value, MDB_NEXT); }\<close>, where the body can leave the function with an error,
  leave the loop, or go on.  The first \<open>mdb_cursor_get\<close> is the argument.
\<close>

datatype ('x, 'e, 'a) loop_step = Abort 'x | Break 'e 'a | Next 'e 'a

partial_function (option) cursor_loop ::
  "'e lmdb_api \<Rightarrow> string \<Rightarrow> (bytes \<Rightarrow> bytes \<Rightarrow> 'e \<Rightarrow> 'a \<Rightarrow> ('x, 'e, 'a) loop_step) \<Rightarrow>
    int \<times> bytes \<times> bytes \<Rightarrow> 'e \<Rightarrow> 'a \<Rightarrow> ('x + int \<times> 'e \<times> 'a) option" where
  "cursor_loop api db body current txn acc =
    (case current of (rc, key, val) \<Rightarrow>
      if rc \<noteq> 0 then Some (Inr (rc, txn, acc))
      else (case body key val txn acc of
          Abort x \<Rightarrow> Some (Inl x)
        | Break txn acc \<Rightarrow> Some (Inr (0, txn, acc))
        | Next txn acc \<Rightarrow> cursor_loop api db body (lm_cursor_get api txn db (After key)) txn acc))"

declare cursor_loop.simps [code]

text \<open>The same over a list of records, with the code on which the walk ends.\<close>

fun run_records ::
  "(bytes \<Rightarrow> bytes \<Rightarrow> 'e \<Rightarrow> 'a \<Rightarrow> ('x, 'e, 'a) loop_step) \<Rightarrow> (bytes \<times> bytes) list \<Rightarrow> int \<Rightarrow>
    'e \<Rightarrow> 'a \<Rightarrow> 'x + int \<times> 'e \<times> 'a" where
  "run_records body [] rc txn acc = Inr (rc, txn, acc)"
| "run_records body ((key, val) # kvs) rc txn acc =
    (case body key val txn acc of
       Abort x \<Rightarrow> Inl x
     | Break txn acc \<Rightarrow> Inr (0, txn, acc)
     | Next txn acc \<Rightarrow> run_records body kvs rc txn acc)"

definition keys_at :: "(bytes \<rightharpoonup> bytes) \<Rightarrow> cursor_position \<Rightarrow> bytes set" where
  "keys_at m pos = {k. m k \<noteq> None \<and> admits pos k}"

definition records_of :: "(bytes \<rightharpoonup> bytes) \<Rightarrow> cursor_position \<Rightarrow> (bytes \<times> bytes) list" where
  "records_of m pos = map (\<lambda>k. (k, the (m k))) (sorted_list_of_set (keys_at m pos))"

lemma finite_keys_at: "finite (dom m) \<Longrightarrow> finite (keys_at m pos)"
  by (rule finite_subset [of _ "dom m"]) (auto simp: keys_at_def)

lemma set_records_of: "finite (dom m) \<Longrightarrow> set (records_of m pos) = {(k, v). m k = Some v \<and> admits pos k}"
  using finite_keys_at [of m pos] by (auto simp: records_of_def keys_at_def image_iff)

lemma sorted_records_of: "sorted_wrt (\<lambda>x y. fst x < fst y) (records_of m pos)"
  unfolding records_of_def sorted_wrt_map by (simp add: strict_sorted_list_of_set)

lemma records_of_none: "no_record m pos \<Longrightarrow> records_of m pos = []"
proof -
  assume "no_record m pos"
  then have "keys_at m pos = {}" by (auto simp: no_record_def keys_at_def)
  then show ?thesis by (simp add: records_of_def)
qed

lemma records_of_first:
  assumes "first_record m pos k v" "finite (dom m)"
  shows "records_of m pos = (k, v) # records_of m (After k)"
proof -
  have fin: "finite (keys_at m pos)" by (rule finite_keys_at [OF assms(2)])
  have k: "m k = Some v" "k \<in> keys_at m pos" "\<forall>k' \<in> keys_at m pos. k \<le> k'"
    using assms(1) by (auto simp: first_record_def keys_at_def)
  have min: "Min (keys_at m pos) = k" using fin k(2,3) by (intro Min_eqI) auto
  have after: "admits pos k'" if "k < k'" for k' using k(2) that by (cases pos) (auto simp: keys_at_def)
  have rest: "keys_at m pos - {k} = keys_at m (After k)"
  proof (rule set_eqI)
    fix k'
    show "k' \<in> keys_at m pos - {k} \<longleftrightarrow> k' \<in> keys_at m (After k)"
      using k(3) after [of k'] unfolding keys_at_def by (cases "k < k'") (auto simp: less_le)
  qed
  have "sorted_list_of_set (keys_at m pos) = k # sorted_list_of_set (keys_at m pos - {k})"
    using sorted_list_of_set_nonempty [OF fin] k(2) min by auto
  then show ?thesis using k(1) unfolding records_of_def rest by simp
qed

lemma records_of_cong:
  assumes "\<And>k. admits pos k \<Longrightarrow> m k = m' k" shows "records_of m pos = records_of m' pos"
proof -
  have keys: "keys_at m pos = keys_at m' pos" unfolding keys_at_def using assms by (intro Collect_cong) auto
  have "set (sorted_list_of_set (keys_at m' pos)) \<subseteq> keys_at m' pos"
    by (cases "finite (keys_at m' pos)") auto
  then show ?thesis unfolding records_of_def keys using assms by (intro map_cong) (auto simp: keys_at_def)
qed

text \<open>
  A body that leaves the records after the current one alone runs over a prefix of the records that were
  there when the loop began, and over all of them if the walk ends with \<open>MDB_NOTFOUND\<close>.  In particular
  the loop returns.
\<close>

definition forward :: "('e \<Rightarrow> contents) \<Rightarrow> string \<Rightarrow> (bytes \<Rightarrow> bytes \<Rightarrow> 'e \<Rightarrow> 'a \<Rightarrow> ('x, 'e, 'a) loop_step) \<Rightarrow> bool" where
  "forward contents db body \<longleftrightarrow>
    (\<forall>key val txn acc txn' acc'. body key val txn acc = Next txn' acc' \<longrightarrow>
       (\<forall>k > key. contents txn' db k = contents txn db k))"

lemma cursor_loop_records:
  assumes laws: "lmdb_laws api contents" and fwd: "forward contents db body"
  shows "\<exists>kvs rest rc. records_of (contents txn db) pos = kvs @ rest \<and> rc \<noteq> 0 \<and> (rc = MDB_NOTFOUND \<longrightarrow> rest = []) \<and>
    cursor_loop api db body (lm_cursor_get api txn db pos) txn acc = Some (run_records body kvs rc txn acc)"
proof (induction "length (records_of (contents txn db) pos)" arbitrary: txn acc pos rule: less_induct)
  case less
  let ?m = "contents txn db"
  obtain rc key val where g: "lm_cursor_get api txn db pos = (rc, key, val)" by (cases "lm_cursor_get api txn db pos")
  show ?case
  proof (cases "rc = 0")
    case False
    have "rc = MDB_NOTFOUND \<longrightarrow> records_of ?m pos = []"
      using g lm_cursor_get_notfound [OF laws] records_of_none by blast
    moreover have "cursor_loop api db body (rc, key, val) txn acc = Some (Inr (rc, txn, acc))"
      using False by (simp add: cursor_loop.simps)
    ultimately show ?thesis using False g by (intro exI [of _ "[]"] exI [of _ "records_of ?m pos"] exI [of _ rc]) simp
  next
    case True
    then have first: "first_record ?m pos key val" using g lm_cursor_get_ok [OF laws] by blast
    note recs = records_of_first [OF first finite_contents [OF laws]]
    show ?thesis
    proof (cases "body key val txn acc")
      case (Next txn' acc')
      have same: "records_of (contents txn' db) (After key) = records_of ?m (After key)"
        using fwd Next unfolding forward_def by (intro records_of_cong) (simp, blast)
      obtain kvs rest rc' where ih: "records_of (contents txn' db) (After key) = kvs @ rest" "rc' \<noteq> 0"
        "rc' = MDB_NOTFOUND \<longrightarrow> rest = []"
        "cursor_loop api db body (lm_cursor_get api txn' db (After key)) txn' acc' = Some (run_records body kvs rc' txn' acc')"
        using less [of txn' "After key" acc'] recs same by auto
      have "cursor_loop api db body (rc, key, val) txn acc = Some (run_records body ((key, val) # kvs) rc' txn acc)"
        using True Next ih(4) by (simp add: cursor_loop.simps [of _ _ _ "(0, key, val)"])
      then show ?thesis using recs same ih(1-3) g
        by (intro exI [of _ "(key, val) # kvs"] exI [of _ rest] exI [of _ rc']) simp
    next
      case (Abort x)
      have "cursor_loop api db body (rc, key, val) txn acc = Some (run_records body [(key, val)] 1 txn acc)"
        using True Abort by (simp add: cursor_loop.simps)
      then show ?thesis using recs g
        by (intro exI [of _ "[(key, val)]"] exI [of _ "records_of ?m (After key)"] exI [of _ 1]) simp
    next
      case (Break txn' acc')
      have "cursor_loop api db body (rc, key, val) txn acc = Some (run_records body [(key, val)] 1 txn acc)"
        using True Break by (simp add: cursor_loop.simps)
      then show ?thesis using recs g
        by (intro exI [of _ "[(key, val)]"] exI [of _ "records_of ?m (After key)"] exI [of _ 1]) simp
    qed
  qed
qed

text \<open>The loop returns, and what it returns comes from such a run.\<close>

lemma cursor_loop_cases:
  assumes "lmdb_laws api contents" "forward contents db body"
  obtains kvs rest rc where "records_of (contents txn db) pos = kvs @ rest" "rc \<noteq> 0"
    "rc = MDB_NOTFOUND \<Longrightarrow> rest = []"
    "cursor_loop api db body (lm_cursor_get api txn db pos) txn acc = Some (run_records body kvs rc txn acc)"
  using cursor_loop_records [OF assms, of txn pos acc] by blast

end
