(* ===== verification/LmdbIngestStore.thy ===== *)
theory LmdbIngestStore imports IngestStore Lmdb begin

text \<open>
  Hugin's ingest store on LMDB, \<open>src/backend/Hugin/storage/lmdb_ingest_store.cpp\<close>, over the parameter of
  theory Lmdb, and its refinement: with the laws of LMDB it provides the interface \<open>ingest_store\<close>.
\<close>

subsection \<open>Keys and values\<close>

definition ingest_kDbMeta :: string where "ingest_kDbMeta = ''meta''"
definition kDbIngestLog :: string where "kDbIngestLog = ''ingest_log''"
definition kDbCheckpoints :: string where "kDbCheckpoints = ''checkpoints''"
definition ingest_kMetaStoreVersion :: string where "ingest_kMetaStoreVersion = ''store_version''"
definition kRecordVersion :: byte where "kRecordVersion = 1"

definition ingest_encode_u64_be :: "u64 \<Rightarrow> bytes" where
  "ingest_encode_u64_be v = [byte_at 56 v, byte_at 48 v, byte_at 40 v, byte_at 32 v,
     byte_at 24 v, byte_at 16 v, byte_at 8 v, byte_at 0 v]"

definition ingest_decode_u64_be :: "bytes \<Rightarrow> u64" where
  "ingest_decode_u64_be raw =
    push_bit 56 (ucast (raw ! 0)) OR push_bit 48 (ucast (raw ! 1)) OR
    push_bit 40 (ucast (raw ! 2)) OR push_bit 32 (ucast (raw ! 3)) OR
    push_bit 24 (ucast (raw ! 4)) OR push_bit 16 (ucast (raw ! 5)) OR
    push_bit 8 (ucast (raw ! 6)) OR ucast (raw ! 7)"

definition ingest_lmdb_error :: "'e lmdb_api \<Rightarrow> int \<Rightarrow> string \<Rightarrow> status_error" where
  "ingest_lmdb_error api rc message =
    (StorageError, message @ '' (rc='' @ show_int rc @ '', detail='' @ lm_strerror api rc @ '')'')"

definition make_ingest_key :: "string \<Rightarrow> u64 \<Rightarrow> bytes" where
  "make_ingest_key host_id sequence =
    (let key = append_u16_be [] (of_nat (length host_id));
         key = key @ string_bytes host_id
     in append_u64_be key sequence)"

definition serialize_record_value :: "ingest_log_record \<Rightarrow> bytes" where
  "serialize_record_value record =
    (let value = [kRecordVersion];
         value = append_u64_be value (il_received_at_unix_seconds record);
         value = append_u32_be value (of_nat (length (il_raw_frame record)))
     in value @ il_raw_frame record)"

subsection \<open>Operations\<close>

definition ingest_put_blob :: "'e lmdb_api \<Rightarrow> 'e \<Rightarrow> string \<Rightarrow> bytes \<Rightarrow> bytes \<Rightarrow> bool \<Rightarrow> status_error + 'e" where
  "ingest_put_blob api txn dbi key val no_overwrite =
    (let (rc, txn) = lm_put api txn dbi key val no_overwrite
     in if rc \<noteq> 0 then Inl (ingest_lmdb_error api rc ''mdb_put'') else Inr txn)"

definition checkpoint_in_txn :: "'e lmdb_api \<Rightarrow> 'e \<Rightarrow> string \<Rightarrow> u64 status_or" where
  "checkpoint_in_txn api txn host_id =
    (let (rc, val) = lm_get api txn kDbCheckpoints (string_bytes host_id)
     in if rc = MDB_NOTFOUND then Inr 0
        else if rc \<noteq> 0 then Inl (StorageError, ''mdb_get(checkpoint) failed.'')
        else if length val \<noteq> 8 then Inl (ParseError, ''Checkpoint payload size is invalid.'')
        else Inr (ingest_decode_u64_be val))"

definition ingest_begin_txn :: "'e lmdb_api \<Rightarrow> 'e lmdb_handle \<Rightarrow> status_error + 'e" where
  "ingest_begin_txn api s =
    (if \<not> is_open s then Inl (StorageError, ''LMDB ingest store is not open.'')
     else (let (rc, txn) = lm_begin api (the (lh_env s))
           in if rc \<noteq> 0 then Inl (ingest_lmdb_error api rc ''mdb_txn_begin'') else Inr txn))"

definition ingest_open_dbi :: "'e lmdb_api \<Rightarrow> 'e \<Rightarrow> string \<Rightarrow> string \<Rightarrow> status_error + 'e" where
  "ingest_open_dbi api txn dbi message =
    (let (rc, txn) = lm_dbi_open api txn dbi
     in if rc \<noteq> 0 then Inl (ingest_lmdb_error api rc message) else Inr txn)"

definition ingest_initialize_dbs :: "'e lmdb_api \<Rightarrow> 'e \<Rightarrow> status_error + 'e" where
  "ingest_initialize_dbs api txn =
    sum_bind (ingest_open_dbi api txn ingest_kDbMeta ''mdb_dbi_open(meta)'') (\<lambda>txn.
    sum_bind (ingest_open_dbi api txn kDbIngestLog ''mdb_dbi_open(ingest_log)'') (\<lambda>txn.
    sum_bind (ingest_open_dbi api txn kDbCheckpoints ''mdb_dbi_open(checkpoints)'') (\<lambda>txn.
      let (rc, existing) = lm_get api txn ingest_kDbMeta (string_bytes ingest_kMetaStoreVersion)
      in if rc = MDB_NOTFOUND then ingest_put_blob api txn ingest_kDbMeta (string_bytes ingest_kMetaStoreVersion) [1] False
         else if rc \<noteq> 0 then Inl (ingest_lmdb_error api rc ''mdb_get(meta:store_version)'')
         else Inr txn)))"

definition lmdb_ingest_open :: "'e lmdb_api \<Rightarrow> lmdb_options \<Rightarrow> 'e lmdb_handle \<Rightarrow> unit status_or \<times> 'e lmdb_handle" where
  "lmdb_ingest_open api options s =
    (if lh_open s then (Inr (), s)
     else if lo_directory options = [] then (Inl (InvalidArgument, ''LMDB directory is empty.''), s)
     else case lm_create_directories api (lo_directory options) of
       Some detail \<Rightarrow> (Inl (StorageError, ''Failed to create LMDB directory: '' @ detail), s)
     | None \<Rightarrow>
        if lm_env_create api \<noteq> 0 then (Inl (ingest_lmdb_error api (lm_env_create api) ''mdb_env_create''), s)
        else if lm_set_mapsize api (lo_map_size_bytes options) \<noteq> 0
        then (Inl (ingest_lmdb_error api (lm_set_mapsize api (lo_map_size_bytes options)) ''mdb_env_set_mapsize''), closed_handle)
        else if lm_set_maxdbs api (lo_max_dbs options) \<noteq> 0
        then (Inl (ingest_lmdb_error api (lm_set_maxdbs api (lo_max_dbs options)) ''mdb_env_set_maxdbs''), closed_handle)
        else if lm_set_maxreaders api (lo_max_readers options) \<noteq> 0
        then (Inl (ingest_lmdb_error api (lm_set_maxreaders api (lo_max_readers options)) ''mdb_env_set_maxreaders''), closed_handle)
        else
          (let (rc, env) = lm_env_open api (lo_directory options) (lo_no_sync options) (lo_write_map options)
           in if rc \<noteq> 0 then (Inl (ingest_lmdb_error api rc ''mdb_env_open''), closed_handle)
              else (case sum_bind (ingest_begin_txn api \<lparr>lh_env = Some env, lh_open = True\<rparr>) (ingest_initialize_dbs api) of
                  Inl e \<Rightarrow> (Inl e, closed_handle)
                | Inr txn \<Rightarrow>
                    (let (rc, env) = lm_commit api env txn
                     in if rc \<noteq> 0 then (Inl (ingest_lmdb_error api rc ''mdb_txn_commit(open)''), closed_handle)
                        else (Inr (), \<lparr>lh_env = Some env, lh_open = True\<rparr>)))))"

definition lmdb_get_checkpoint :: "'e lmdb_api \<Rightarrow> 'e lmdb_handle \<Rightarrow> string \<Rightarrow> u64 status_or" where
  "lmdb_get_checkpoint api s host_id =
    (if host_id = [] then Inl (InvalidArgument, ''Host id is empty.'')
     else sum_bind (ingest_begin_txn api s) (\<lambda>txn. checkpoint_in_txn api txn host_id))"

definition lmdb_has_record :: "'e lmdb_api \<Rightarrow> 'e lmdb_handle \<Rightarrow> string \<Rightarrow> u64 \<Rightarrow> bool status_or" where
  "lmdb_has_record api s host_id sequence =
    (if host_id = [] \<or> sequence = 0 then Inl (InvalidArgument, ''Host id or sequence is invalid.'')
     else if length host_id > 65535 then Inl (InvalidArgument, ''Host id is too long.'')
     else sum_bind (ingest_begin_txn api s) (\<lambda>txn.
       let (rc, val) = lm_get api txn kDbIngestLog (make_ingest_key host_id sequence)
       in if rc = MDB_NOTFOUND then Inr False
          else if rc \<noteq> 0 then Inl (StorageError, ''mdb_get(ingest_log) failed.'')
          else Inr True))"

text \<open>The writes of \<open>append_if_absent_and_checkpoint\<close>, within its transaction.\<close>

definition append_in_txn :: "'e lmdb_api \<Rightarrow> ingest_log_record \<Rightarrow> 'e \<Rightarrow> status_error + 'e" where
  "append_in_txn api record txn =
    (let key = make_ingest_key (il_host_id record) (il_sequence record);
         val = serialize_record_value record;
         (rc, txn) = lm_put api txn kDbIngestLog key val True
     in if rc \<noteq> 0 \<and> rc \<noteq> MDB_KEYEXIST then Inl (ingest_lmdb_error api rc ''mdb_put(ingest_log)'')
        else sum_bind (checkpoint_in_txn api txn (il_host_id record)) (\<lambda>checkpoint.
          let next_checkpoint = max checkpoint (il_sequence record)
          in if next_checkpoint > checkpoint
             then ingest_put_blob api txn kDbCheckpoints (string_bytes (il_host_id record))
                    (ingest_encode_u64_be next_checkpoint) False
             else Inr txn))"

definition lmdb_append :: "'e lmdb_api \<Rightarrow> ingest_log_record \<Rightarrow> 'e lmdb_handle \<Rightarrow> unit status_or \<times> 'e lmdb_handle" where
  "lmdb_append api record s =
    (if il_host_id record = [] then (Inl (InvalidArgument, ''Host id is empty.''), s)
     else if il_sequence record = 0 then (Inl (InvalidArgument, ''Sequence must be non-zero.''), s)
     else if length (il_host_id record) > 65535 then (Inl (InvalidArgument, ''Host id is too long.''), s)
     else if length (il_raw_frame record) > 4294967295 then (Inl (InvalidArgument, ''Raw frame is too large.''), s)
     else (case sum_bind (ingest_begin_txn api s) (append_in_txn api record) of
         Inl e \<Rightarrow> (Inl e, s)
       | Inr txn \<Rightarrow>
           (let (rc, env) = lm_commit api (the (lh_env s)) txn
            in if rc \<noteq> 0
               then (Inl (ingest_lmdb_error api rc ''mdb_txn_commit(append_if_absent_and_checkpoint)''), s\<lparr>lh_env := Some env\<rparr>)
               else (Inr (), s\<lparr>lh_env := Some env\<rparr>))))"

subsection \<open>What the store holds\<close>

definition lmdb_checkpoint :: "('e \<Rightarrow> contents) \<Rightarrow> 'e lmdb_handle \<Rightarrow> string \<Rightarrow> u64" where
  "lmdb_checkpoint contents s host_id =
    (case store_contents contents s kDbCheckpoints (string_bytes host_id) of
       None \<Rightarrow> 0 | Some val \<Rightarrow> ingest_decode_u64_be val)"

text \<open>The frame is the value after its header of 13 bytes; a host with a longer name has no key.\<close>

definition lmdb_logged :: "('e \<Rightarrow> contents) \<Rightarrow> 'e lmdb_handle \<Rightarrow> string \<Rightarrow> u64 \<Rightarrow> bytes option" where
  "lmdb_logged contents s host_id sequence =
    (if length host_id > 65535 then None
     else map_option (drop 13) (store_contents contents s kDbIngestLog (make_ingest_key host_id sequence)))"

lemma ingest_decode_encode [simp]: "ingest_decode_u64_be (ingest_encode_u64_be v) = v"
  by (simp add: ingest_decode_u64_be_def ingest_encode_u64_be_def join64_right)

lemma make_ingest_key_layout: "make_ingest_key h q = put_u16 (of_nat (length h)) @ string_bytes h @ put_u64 q"
  by (simp add: make_ingest_key_def Let_def codec_simps)

text \<open>The length in front makes the keys of different hosts different, up to the bound of a 16-bit length.\<close>

lemma make_ingest_key_inject:
  "length h \<le> 65535 \<Longrightarrow> length h' \<le> 65535 \<Longrightarrow> make_ingest_key h q = make_ingest_key h' q' \<longleftrightarrow> h = h' \<and> q = q'"
proof -
  assume len: "length h \<le> 65535" "length h' \<le> 65535"
  have "unat (of_nat (length x) :: u16) = length x" if "length x \<le> 65535" for x :: string
    using that by (simp add: unsigned_of_nat take_bit_nat_eq_self_iff)
  then have "(of_nat (length h) :: u16) = of_nat (length h') \<Longrightarrow> length h = length h'" using len by metis
  then show ?thesis by (auto simp: make_ingest_key_layout)
qed

lemma drop_serialize_record_value [simp]: "drop 13 (serialize_record_value r) = il_raw_frame r"
  by (simp add: serialize_record_value_def Let_def codec_simps drop_Cons' codec_width)


lemma length_serialize_record_value: "length (serialize_record_value r) = 13 + length (il_raw_frame r)"
  by (simp add: serialize_record_value_def Let_def codec_simps codec_width)

lemma length_ingest_encode [simp]: "length (ingest_encode_u64_be v) = 8"
  by (simp add: ingest_encode_u64_be_def)

lemma ingest_begin_txn_Inr:
  assumes "lmdb_laws api contents" "ingest_begin_txn api s = Inr txn"
  shows "contents txn = store_contents contents s"
  using assms(2) lm_begin_ok [OF assms(1)]
  by (auto simp: ingest_begin_txn_def is_open_def store_contents_def split: if_splits prod.splits)

lemma ingest_put_blob_Inr:
  assumes "lmdb_laws api contents" "ingest_put_blob api txn dbi key val no = Inr txn'"
  shows "contents txn' = (contents txn)(dbi := (contents txn dbi)(key \<mapsto> val))"
  using assms(2) lm_put_ok [OF assms(1)] by (auto simp: ingest_put_blob_def split: if_splits prod.splits)

lemma checkpoint_in_txn_Inr:
  assumes "lmdb_laws api contents" "checkpoint_in_txn api txn h = Inr c"
  shows "c = (case contents txn kDbCheckpoints (string_bytes h) of None \<Rightarrow> 0 | Some val \<Rightarrow> ingest_decode_u64_be val)"
  using assms(2) lm_get_ok [OF assms(1)] lm_get_notfound [OF assms(1)]
  by (auto simp: checkpoint_in_txn_def split: if_splits prod.splits)

text \<open>A committed append.\<close>

lemma append_in_txn_Inr:
  assumes laws: "lmdb_laws api contents" and run: "append_in_txn api r txn = Inr txn'"
  defines "key \<equiv> make_ingest_key (il_host_id r) (il_sequence r)" and "m \<equiv> contents txn"
  defines "cp \<equiv> (case m kDbCheckpoints (string_bytes (il_host_id r)) of None \<Rightarrow> 0 | Some val \<Rightarrow> ingest_decode_u64_be val)"
  shows "contents txn' kDbIngestLog = (if m kDbIngestLog key = None
      then (m kDbIngestLog)(key \<mapsto> serialize_record_value r) else m kDbIngestLog)"
    "contents txn' kDbCheckpoints = (if cp < il_sequence r
      then (m kDbCheckpoints)(string_bytes (il_host_id r) \<mapsto> ingest_encode_u64_be (il_sequence r)) else m kDbCheckpoints)"
proof -
  obtain rc t where put: "lm_put api txn kDbIngestLog key (serialize_record_value r) True = (rc, t)"
    by (cases "lm_put api txn kDbIngestLog key (serialize_record_value r) True")
  have rc: "rc = 0 \<or> rc = MDB_KEYEXIST"
    using run put by (auto simp: append_in_txn_def Let_def key_def split: if_splits)
  have t: "contents t = (if m kDbIngestLog key = None
      then m(kDbIngestLog := (m kDbIngestLog)(key \<mapsto> serialize_record_value r)) else m)"
    using rc
  proof
    assume "rc = 0"
    then show ?thesis using lm_put_ok [OF laws put [unfolded \<open>rc = 0\<close>]] unfolding m_def by simp
  next
    assume "rc = MDB_KEYEXIST"
    then show ?thesis using lm_put_exists [OF laws put [unfolded \<open>rc = MDB_KEYEXIST\<close>]] unfolding m_def by auto
  qed
  have names: "kDbCheckpoints \<noteq> kDbIngestLog" by (simp add: kDbCheckpoints_def kDbIngestLog_def)
  obtain c where c: "checkpoint_in_txn api t (il_host_id r) = Inr c"
    and rest: "(if max c (il_sequence r) > c
      then ingest_put_blob api t kDbCheckpoints (string_bytes (il_host_id r)) (ingest_encode_u64_be (max c (il_sequence r))) False
      else Inr t) = Inr txn'"
    using run put rc by (auto simp: append_in_txn_def Let_def key_def sum_bind_eq_Inr split: if_splits)
  have cp: "c = cp" using checkpoint_in_txn_Inr [OF laws c] t names unfolding cp_def by simp
  have final: "contents txn' = (if cp < il_sequence r
      then (contents t)(kDbCheckpoints := (contents t kDbCheckpoints)(string_bytes (il_host_id r) \<mapsto> ingest_encode_u64_be (il_sequence r)))
      else contents t)"
  proof (cases "cp < il_sequence r")
    case True
    then have "ingest_put_blob api t kDbCheckpoints (string_bytes (il_host_id r))
        (ingest_encode_u64_be (il_sequence r)) False = Inr txn'"
      using rest cp by (simp add: max_absorb2 less_imp_le)
    from ingest_put_blob_Inr [OF laws this] True show ?thesis by simp
  next
    case False
    then have "txn' = t" using rest cp by (simp add: max_absorb1 not_less)
    then show ?thesis using False by simp
  qed
  show "contents txn' kDbIngestLog = (if m kDbIngestLog key = None
      then (m kDbIngestLog)(key \<mapsto> serialize_record_value r) else m kDbIngestLog)"
    "contents txn' kDbCheckpoints = (if cp < il_sequence r
      then (m kDbCheckpoints)(string_bytes (il_host_id r) \<mapsto> ingest_encode_u64_be (il_sequence r)) else m kDbCheckpoints)"
    using names by (simp_all add: final t)
qed


lemma ingest_begin_txn_open: "ingest_begin_txn api s = Inr txn \<Longrightarrow> \<exists>e. lh_env s = Some e"
  by (auto simp: ingest_begin_txn_def is_open_def split: if_splits)

lemma lmdb_append_contents:
  assumes laws: "lmdb_laws api contents" and run: "lmdb_append api r s = (res, s')"
  shows "case res of
      Inl e \<Rightarrow> store_contents contents s' = store_contents contents s
    | Inr u \<Rightarrow> length (il_host_id r) \<le> 65535 \<and>
        (\<exists>t t'. contents t = store_contents contents s \<and> append_in_txn api r t = Inr t' \<and>
           store_contents contents s' = contents t')"
proof (cases "sum_bind (ingest_begin_txn api s) (append_in_txn api r)")
  case (Inl e)
  then show ?thesis using run by (auto simp: lmdb_append_def split: if_splits)
next
  case (Inr t')
  then obtain t where t: "ingest_begin_txn api s = Inr t" "append_in_txn api r t = Inr t'"
    by (auto simp: sum_bind_eq_Inr)
  obtain e where e: "lh_env s = Some e" using ingest_begin_txn_open [OF t(1)] by blast
  obtain rc e' where c: "lm_commit api e t' = (rc, e')" by (cases "lm_commit api e t'")
  have "contents e' = (if rc = 0 then contents t' else contents e)"
    using lm_commit_ok [OF laws] lm_commit_failed [OF laws] c by auto
  then show ?thesis
  proof (cases res)
    case (Inl x)
    then show ?thesis using run \<open>sum_bind _ _ = Inr t'\<close> e c \<open>contents e' = _\<close>
      by (auto simp: lmdb_append_def store_contents_def split: if_splits)
  next
    case (Inr u)
    then have "rc = 0" "s' = s\<lparr>lh_env := Some e'\<rparr>" "length (il_host_id r) \<le> 65535"
      using run \<open>sum_bind _ _ = Inr t'\<close> e c by (auto simp: lmdb_append_def split: if_splits)
    then show ?thesis using Inr ingest_begin_txn_Inr [OF laws t(1)] t(2) \<open>contents e' = _\<close>
      by (auto simp: store_contents_def)
  qed
qed

lemma lmdb_ingest_store:
  assumes laws: "lmdb_laws api contents"
  shows "ingest_store (lmdb_get_checkpoint api) (lmdb_has_record api) (lmdb_append api)
    (lmdb_checkpoint contents) (lmdb_logged contents)"
proof
  show "c = lmdb_checkpoint contents s h" if get: "lmdb_get_checkpoint api s h = Inr c" for s h c
  proof -
    obtain t where "ingest_begin_txn api s = Inr t" "checkpoint_in_txn api t h = Inr c"
      using get by (auto simp: lmdb_get_checkpoint_def sum_bind_eq_Inr split: if_splits)
    then show ?thesis using ingest_begin_txn_Inr [OF laws, of s t] checkpoint_in_txn_Inr [OF laws, of t h c]
      by (simp add: lmdb_checkpoint_def)
  qed
  show "b = (lmdb_logged contents s h q \<noteq> None)" if has: "lmdb_has_record api s h q = Inr b" for s h q b
  proof -
    have len: "length h \<le> 65535" using has by (auto simp: lmdb_has_record_def split: if_splits)
    obtain t where t: "ingest_begin_txn api s = Inr t"
      using has by (cases "ingest_begin_txn api s") (auto simp: lmdb_has_record_def split: if_splits)
    obtain rc val where g: "lm_get api t kDbIngestLog (make_ingest_key h q) = (rc, val)" by fastforce
    have b: "rc = MDB_NOTFOUND \<and> \<not> b \<or> rc = 0 \<and> b"
      using has t g by (auto simp: lmdb_has_record_def split: if_splits)
    have "b = (contents t kDbIngestLog (make_ingest_key h q) \<noteq> None)"
      using b g lm_get_ok [OF laws, of t kDbIngestLog] lm_get_notfound [OF laws, of t kDbIngestLog] by auto
    then show ?thesis using len ingest_begin_txn_Inr [OF laws t] by (simp add: lmdb_logged_def)
  qed
  show "lmdb_checkpoint contents s' = lmdb_checkpoint contents s \<and> lmdb_logged contents s' = lmdb_logged contents s"
    if "lmdb_append api r s = (Inl e, s')" for r s e s'
    using lmdb_append_contents [OF laws that] by (simp add: lmdb_checkpoint_def lmdb_logged_def fun_eq_iff)
  fix r s u s' assume "lmdb_append api r s = (Inr u, s')"
  then obtain t t' where t: "contents t = store_contents contents s" "append_in_txn api r t = Inr t'"
    "store_contents contents s' = contents t'" and len: "length (il_host_id r) \<le> 65535"
    using lmdb_append_contents [OF laws, of r s "Inr u" s'] by auto
  note app = append_in_txn_Inr [OF laws t(2)]
  let ?cp = "lmdb_checkpoint contents s (il_host_id r)"
  have "lmdb_checkpoint contents s' = (lmdb_checkpoint contents s)(il_host_id r := max ?cp (il_sequence r))"
    unfolding fun_eq_iff lmdb_checkpoint_def t(3) app(2) by (auto simp: t(1) max_def)
  moreover have "lmdb_logged contents s' h q =
      (if h = il_host_id r \<and> q = il_sequence r \<and> lmdb_logged contents s h q = None then Some (il_raw_frame r)
       else lmdb_logged contents s h q)" for h q
    unfolding lmdb_logged_def t(3) app(1) using len by (auto simp: t(1) make_ingest_key_inject)
  ultimately show "lmdb_checkpoint contents s' = (lmdb_checkpoint contents s)(il_host_id r := max ?cp (il_sequence r)) \<and>
    (\<forall>h q. lmdb_logged contents s' h q = (if h = il_host_id r \<and> q = il_sequence r \<and> lmdb_logged contents s h q = None
       then Some (il_raw_frame r) else lmdb_logged contents s h q))" by blast
qed

text \<open>
  C36: the LMDB store of Hugin implements the interface of an ingest store: with the laws of LMDB, its
  checkpoint and its log are those of the two databases, a successful append is the interface's, whatever
  LMDB call fails, and a failed one changes nothing.
\<close>

theorem lmdb_store_implements_interface:
  "lmdb_laws api contents \<Longrightarrow> ingest_store (lmdb_get_checkpoint api) (lmdb_has_record api) (lmdb_append api)
    (lmdb_checkpoint contents) (lmdb_logged contents)"
  by (rule lmdb_ingest_store)

theorem lmdb_store_implements_interface_witness:
  "ingest_store (lmdb_get_checkpoint (faultless_lmdb (\<lambda>_. []))) (lmdb_has_record (faultless_lmdb (\<lambda>_. [])))
    (lmdb_append (faultless_lmdb (\<lambda>_. []))) (lmdb_checkpoint list_contents) (lmdb_logged list_contents)"
  by (rule lmdb_store_implements_interface [OF faultless_lmdb_laws])

end
