(* ===== verification/Ingest.thy ===== *)
theory Ingest imports IngestCoordinator LmdbIngestStore DeltaEngine begin

text \<open>
  The ingest path put together: Muninn's serialiser and frame, Hugin's parser, validator and coordinator,
  over the two ingest stores.  The lemmas about the coordinator hold for every ingest store; the properties
  instantiate them with the store in memory and with the store on LMDB.
\<close>

subsection \<open>What Muninn ships, Hugin decodes\<close>

definition shipped_snapshot :: "u64 \<Rightarrow> snapshot \<Rightarrow> bytes" where
  "shipped_snapshot created_at sn =
    serialize_frame Transport_Snapshot (sn_host_identifier sn) (snapshot_layout sn) created_at"

definition shipped_delta :: "u64 \<Rightarrow> delta_snapshot \<Rightarrow> bytes" where
  "shipped_delta created_at d = serialize_frame Transport_Delta
    (show_word (dl_base_snapshot_id d) @ ''->'' @ show_word (dl_target_snapshot_id d)) (delta_layout d) created_at"

lemma decoded_shipped_snapshot:
  assumes "snapshot_ok sn" "fits_u32 (snapshot_layout sn)" "fits_u32 (sn_host_identifier sn)"
    and "\<not> has_errors (validate_snapshot now sn)"
    and "jb_raw_frame job = shipped_snapshot created_at sn" "jb_host_id job = sn_host_identifier sn"
  shows "\<exists>f. decoded now job = Inr \<lparr>vr_frame = f, vr_snapshot = Some sn, vr_delta = None\<rparr>"
proof -
  let ?f = "\<lparr>mf_type = muninn_record_type.Snapshot, mf_created_at_unix_seconds = created_at,
    mf_routing_key = sn_host_identifier sn, mf_payload = snapshot_layout sn\<rparr>"
  have "parse_muninn_frame (jb_raw_frame job) = Inr ?f"
    using parse_muninn_frame_layout [OF assms(3,2), of muninn_record_type.Snapshot created_at]
    by (simp add: assms(5) shipped_snapshot_def serialize_frame_layout muninn_record_type_byte_def)
  moreover have "validate_and_decode now ?f (jb_host_id job) = Inr \<lparr>vr_frame = ?f, vr_snapshot = Some sn, vr_delta = None\<rparr>"
    using snapshots.rd_enc [OF assms(1), of "[]"] assms(4,6)
    by (simp add: validate_and_decode_snapshot validate_snapshot_errors)
  ultimately show ?thesis by (simp add: decoded_def)
qed

lemma decoded_shipped_delta:
  assumes "delta_ok d" "fits_u32 (delta_layout d)" "\<not> has_errors (validate_delta d None None)"
    and "jb_raw_frame job = shipped_delta created_at d"
    and key: "fits_u32 (show_word (dl_base_snapshot_id d) @ ''->'' @ show_word (dl_target_snapshot_id d))"
  shows "\<exists>f. decoded now job = Inr \<lparr>vr_frame = f, vr_snapshot = None, vr_delta = Some d\<rparr>"
proof -
  let ?key = "show_word (dl_base_snapshot_id d) @ ''->'' @ show_word (dl_target_snapshot_id d)"
  let ?f = "\<lparr>mf_type = muninn_record_type.Delta, mf_created_at_unix_seconds = created_at,
    mf_routing_key = ?key, mf_payload = delta_layout d\<rparr>"
  have "parse_muninn_frame (jb_raw_frame job) = Inr ?f"
    using parse_muninn_frame_layout [OF key assms(2), of muninn_record_type.Delta created_at]
    by (simp add: assms(4) shipped_delta_def serialize_frame_layout muninn_record_type_byte_def)
  moreover have "validate_and_decode now ?f (jb_host_id job) = Inr \<lparr>vr_frame = ?f, vr_snapshot = None, vr_delta = Some d\<rparr>"
    using deltas.rd_enc [OF assms(1), of "[]"] assms(3) routing_key_accepted [of d]
    by (simp add: validate_and_decode_delta validate_delta_errors)
  ultimately show ?thesis by (simp add: decoded_def)
qed

subsection \<open>Frames in sequence are committed\<close>

definition record_of_job :: "ingest_job \<Rightarrow> ingest_log_record" where
  "record_of_job job = \<lparr>il_host_id = jb_host_id job, il_sequence = jb_sequence job,
    il_received_at_unix_seconds = jb_received_at job, il_raw_frame = jb_raw_frame job\<rparr>"

text \<open>No frame is in the log beyond the checkpoint of its host; so it is in a new store.\<close>

definition nothing_beyond :: "('s \<Rightarrow> string \<Rightarrow> u64) \<Rightarrow> ('s \<Rightarrow> string \<Rightarrow> u64 \<Rightarrow> bytes option) \<Rightarrow> 's \<Rightarrow> bool" where
  "nothing_beyond checkpoint logged s \<longleftrightarrow> (\<forall>h q. logged s h q \<noteq> None \<longrightarrow> q \<le> checkpoint s h)"

lemma outcome_keeps_beyond:
  assumes before: "nothing_beyond checkpoint logged (ic_store c)"
    and out: "outcome_ok checkpoint logged sink now job c c' res"
  shows "nothing_beyond checkpoint logged (ic_store c')"
proof (cases "committed_by checkpoint logged sink now job c c'")
  case True
  have up: "checkpoint (ic_store c) h \<le> checkpoint (ic_store c') h" for h
    using True by (auto simp: committed_by_def word_le_nat_alt)
  have "q \<le> checkpoint (ic_store c') h" if q: "logged (ic_store c') h q \<noteq> None" for h q
  proof (cases "logged (ic_store c) h q = None")
    case False
    then show ?thesis using before up [of h] unfolding nothing_beyond_def by (meson order_trans)
  next
    case none: True
    then have "h = jb_host_id job \<and> q = jb_sequence job" using True q unfolding committed_by_def by metis
    then show ?thesis using True by (simp add: committed_by_def)
  qed
  then show ?thesis by (simp add: nothing_beyond_def)
next
  case False
  then have "unchanged checkpoint logged c c'"
    using out by (auto simp: outcome_ok_def split: sum.splits ingest_action.splits)
  then show ?thesis using before by (simp add: unchanged_def nothing_beyond_def)
qed

context ingest_store
begin

lemma ingest_commits:
  assumes sync: "in_sync checkpoint c" and host: "jb_host_id job \<noteq> []"
    and next_q: "unat (jb_sequence job) = Suc (unat (checkpoint (ic_store c) (jb_host_id job)))"
    and dec: "decoded now job = Inr v"
    and get: "get_checkpoint (ic_store c) (jb_host_id job) = Inr cp"
    and app: "append_record (record_of_job job) (ic_store c) = (Inr u, s')"
  shows "\<exists>d c'. ingest ops sink now job c = (Inr d, c') \<and> id_action d = Committed"
proof -
  let ?c = "count (\<lambda>m. m\<lparr>frames_received := frames_received m + 1\<rparr>) c"
  let ?h = "jb_host_id job" and ?q = "jb_sequence job"
  have q: "?q \<noteq> 0" using next_q by auto
  have sync': "in_sync checkpoint ?c" using sync by (simp add: in_sync_def)
  have "\<exists>st c1. load_host_state ops ?h ?c = (Inr st, c1)"
    using get by (auto simp: load_host_state_def Let_def split: option.splits)
  then obtain st c1 where l: "load_host_state ops ?h ?c = (Inr st, c1)" by blast
  note st = load_host_state_sync(2) [OF sync' l, simplified] load_host_state_sync(4) [OF sync' l refl, simplified]
  have "?q = hs_last_committed_sequence st + 1"
    using arg_cong [OF next_q, of "of_nat :: nat \<Rightarrow> u64"] st by (simp add: add.commute)
  then have a: "admit ops job c = (Admitted job, c1)"
    using l host q next_q st by (simp add: admit_def word_le_nat_alt)
  from dec obtain f where f: "parse_muninn_frame (jb_raw_frame job) = Inr f" "validate_and_decode now f ?h = Inr v"
    by (auto simp: decoded_def sum_bind_eq_Inr)
  have lf: "log_frame ops now job c1 = (Logged job v, c1\<lparr>ic_store := s'\<rparr>)"
    using f app st by (simp add: log_frame_def record_of_job_def)
  obtain b c3 where ap: "apply_to_sink sink job v (c1\<lparr>ic_store := s'\<rparr>) = (Applied job b, c3)"
    "ic_host_states c3 = ic_host_states c1"
    using apply_to_sink_result [of sink job v "c1\<lparr>ic_store := s'\<rparr>"] by auto
  obtain d c4 where "conclude ops job b c3 = (Returned job (Inr d), c4)" "id_action d = Committed"
    using conclude_sync [of c3 job st b] ap(2) st next_q by (auto simp: word_less_nat_alt)
  then show ?thesis using a lf ap(1) by (simp add: ingest_def)
qed

lemma ingest_all_keeps:
  "in_sync checkpoint c \<Longrightarrow> nothing_beyond checkpoint logged (ic_store c) \<Longrightarrow> ingest_all ops sink now jobs c = (rs, c') \<Longrightarrow>
    in_sync checkpoint c' \<and> nothing_beyond checkpoint logged (ic_store c')"
proof (induction jobs arbitrary: c rs)
  case (Cons job jobs)
  obtain r c1 where i: "ingest ops sink now job c = (r, c1)" by (cases "ingest ops sink now job c")
  obtain rs1 where rest: "ingest_all ops sink now jobs c1 = (rs1, c')"
    using Cons.prems(3) i by (auto split: prod.splits)
  have "in_sync checkpoint c1" "outcome_ok checkpoint logged sink now job c c1 r"
    using ingest_outcome [OF Cons.prems(1) i] by blast+
  then show ?case using Cons.IH [OF _ _ rest] outcome_keeps_beyond [OF Cons.prems(2)] by blast
qed simp

text \<open>What becomes of the next frame of a host, when it decodes.\<close>

lemma ingest_next_frame:
  assumes sync: "in_sync checkpoint c" and beyond: "nothing_beyond checkpoint logged (ic_store c)"
    and host: "jb_host_id job \<noteq> []"
    and next_q: "unat (jb_sequence job) = Suc (unat (checkpoint (ic_store c) (jb_host_id job)))"
    and dec: "decoded now job = Inr v" and run: "ingest ops sink now job c = (res, c')"
  shows "case res of
      Inr d \<Rightarrow> id_action d = Committed \<and> id_ack_inclusive_sequence d = jb_sequence job \<and>
        checkpoint (ic_store c') (jb_host_id job) = jb_sequence job \<and>
        logged (ic_store c') (jb_host_id job) (jb_sequence job) = Some (jb_raw_frame job) \<and>
        ic_sink c' = snd (sink_result sink job v (ic_sink c))
    | Inl e \<Rightarrow> unchanged checkpoint logged c c' \<and>
        ((\<exists>e. get_checkpoint (ic_store c) (jb_host_id job) = Inl e) \<or>
         (\<exists>e. fst (append_record (record_of_job job) (ic_store c)) = Inl e))"
proof (cases res)
  case (Inl e)
  have "(\<exists>e. get_checkpoint (ic_store c) (jb_host_id job) = Inl e) \<or>
      (\<exists>e. fst (append_record (record_of_job job) (ic_store c)) = Inl e)"
  proof (rule ccontr)
    assume fine: "\<not> ?thesis"
    then obtain cp where get: "get_checkpoint (ic_store c) (jb_host_id job) = Inr cp"
      by (cases "get_checkpoint (ic_store c) (jb_host_id job)") auto
    from fine obtain u s' where app: "append_record (record_of_job job) (ic_store c) = (Inr u, s')"
      by (cases "append_record (record_of_job job) (ic_store c)"; cases "fst (append_record (record_of_job job) (ic_store c))") auto
    from ingest_commits [OF sync host next_q dec get app, of sink] obtain d d' where "ingest ops sink now job c = (Inr d, d')" by blast
    then show False using run Inl by simp
  qed
  then show ?thesis using ingest_outcome [OF sync run] Inl by (simp add: outcome_ok_def)
next
  case (Inr d)
  let ?cp = "checkpoint (ic_store c) (jb_host_id job)"
  have less: "?cp < jb_sequence job" using next_q by (simp add: word_less_nat_alt)
  have "jb_sequence job = ?cp + 1" using arg_cong [OF next_q, of "of_nat :: nat \<Rightarrow> u64"] by (simp add: add.commute)
  then have "committed_by checkpoint logged sink now job c c'" "id_action d = Committed" "id_ack_inclusive_sequence d = jb_sequence job"
    using ingest_outcome [OF sync run] Inr less by (auto simp: outcome_ok_def not_le split: ingest_action.splits)
  moreover have "logged (ic_store c) (jb_host_id job) (jb_sequence job) = None"
    using beyond less unfolding nothing_beyond_def by (meson not_le)
  ultimately show ?thesis using Inr dec by (simp add: committed_by_def)
qed

end

subsection \<open>A call is a run of its thread\<close>

fun phase_job :: "phase \<Rightarrow> ingest_job" where
  "phase_job (Arrived job) = job"
| "phase_job (Admitted job) = job"
| "phase_job (Logged job v) = job"
| "phase_job (Applied job b) = job"
| "phase_job (Returned job r) = job"

lemma advance_job: "advance ops sink now p c = (p', c') \<Longrightarrow> phase_job p' = phase_job p"
  by (cases p) (auto simp: admit_def log_frame_def apply_to_sink_def conclude_def Let_def
      split: if_splits sum.splits prod.splits option.splits)

lemma reachable_run:
  assumes "reachable ops sink now s0 \<lparr>sy_coordinator = c, sy_threads = Map.empty(0 \<mapsto> p)\<rparr>"
    "advance ops sink now p c = (p', c')"
  shows "reachable ops sink now s0 \<lparr>sy_coordinator = c', sy_threads = Map.empty(0 \<mapsto> p')\<rparr>"
  using reachable.step [OF assms(1) system_step.run, of 0 p] assms(2) by simp

lemma ingest_reachable:
  assumes "ingest ops sink now job (make_coordinator s k n) = (Inr d, c')"
  shows "\<exists>y. reachable ops sink now (start_system s k n) y \<and> sy_coordinator y = c' \<and>
    sy_threads y 0 = Some (Returned job (Inr d))"
proof -
  let ?c = "make_coordinator s k n"
  obtain p1 c1 where a1: "advance ops sink now (Arrived job) ?c = (p1, c1)" by (cases "advance ops sink now (Arrived job) ?c")
  obtain p2 c2 where a2: "advance ops sink now p1 c1 = (p2, c2)" by (cases "advance ops sink now p1 c1")
  obtain p3 c3 where a3: "advance ops sink now p2 c2 = (p3, c3)" by (cases "advance ops sink now p2 c2")
  obtain p4 c4 where a4: "advance ops sink now p3 c3 = (p4, c4)" by (cases "advance ops sink now p3 c3")
  have "phase_job p4 = job" using a1 a2 a3 a4 advance_job by (metis phase_job.simps(1))
  moreover have "c4 = c'" "\<exists>j. p4 = Returned j (Inr d)"
    using assms a1 a2 a3 a4 by (auto simp: ingest_def split: phase.splits)
  ultimately have p4: "p4 = Returned job (Inr d)" "c4 = c'" by auto
  have "reachable ops sink now (start_system s k n) \<lparr>sy_coordinator = ?c, sy_threads = Map.empty(0 \<mapsto> Arrived job)\<rparr>"
    using reachable.step [OF reachable.initial system_step.arrive, of "start_system s k n" 0]
    by (simp add: start_system_def)
  from reachable_run [OF reachable_run [OF reachable_run [OF reachable_run [OF this a1] a2] a3] a4]
  show ?thesis unfolding p4 by (intro exI conjI) (assumption, simp_all)
qed

subsection \<open>Properties\<close>

text \<open>The coordinator on each store.\<close>

abbreviation lmdb_ops :: "'e lmdb_api \<Rightarrow> 'e lmdb_handle store_ops" where
  "lmdb_ops api \<equiv> \<lparr>op_get_checkpoint = lmdb_get_checkpoint api, op_append = lmdb_append api\<rparr>"

abbreviation memory_ops :: "memory_store store_ops" where
  "memory_ops \<equiv> \<lparr>op_get_checkpoint = memory_get_checkpoint, op_append = memory_append\<rparr>"

definition quiet_sink :: "nat sink_ops" where
  "quiet_sink = \<lparr>op_apply_snapshot = (\<lambda>_ _ _ k. (Inr (), k + 1)), op_apply_delta = (\<lambda>_ _ _ k. (Inr (), k + 1))\<rparr>"

definition sample_job :: ingest_job where
  "sample_job = \<lparr>jb_host_id = ''h'', jb_sequence = 1,
    jb_raw_frame = shipped_snapshot 9 (example_snapshot 5 []), jb_received_at = 9\<rparr>"

definition empty_memory_store :: memory_store where
  "empty_memory_store = \<lparr>ms_checkpoints = Map.empty, ms_records = Map.empty\<rparr>"

lemma example_snapshot_fits: "snapshot_ok (example_snapshot 5 [])" "fits_u32 (snapshot_layout (example_snapshot 5 []))"
proof -
  show "snapshot_ok (example_snapshot 5 [])"
    by (simp add: snapshot_ok_def example_snapshot_def example_entry_def entry_ok_def string_ok_def
        kMaxStringLength_def kMaxBinaryEntries_def)
  have "length (snapshot_layout (example_snapshot 5 [])) < 500" by code_simp
  then show "fits_u32 (snapshot_layout (example_snapshot 5 []))" by (simp add: fits_u32_def)
qed

lemma sample_job_decoded: "\<exists>v. decoded 0 sample_job = Inr v \<and> vr_snapshot v \<noteq> None"
proof -
  have "fits_u32 (sn_host_identifier (example_snapshot 5 []))" by (simp add: fits_u32_def example_snapshot_def)
  then show ?thesis
    using decoded_shipped_snapshot [OF example_snapshot_fits _ example_snapshots_pass(1), of sample_job 9]
    by (auto simp: sample_job_def example_snapshot_def)
qed

lemma in_sync_start: "in_sync cp (make_coordinator s k n)"
  by (simp add: in_sync_def make_coordinator_def)

lemma sample_job_fields: "jb_host_id sample_job = ''h''" "jb_sequence sample_job = 1"
  by (simp_all add: sample_job_def)


definition sample_handle :: "list_db lmdb_handle" where
  "sample_handle = \<lparr>lh_env = Some (\<lambda>_. []), lh_open = True\<rparr>"

lemma sample_handle_contents:
  "lmdb_checkpoint list_contents sample_handle h = 0"
  "lmdb_get_checkpoint (faultless_lmdb (\<lambda>_. [])) sample_handle ''h'' = Inr 0"
  by (simp_all add: lmdb_checkpoint_def list_contents_def sample_handle_def lmdb_get_checkpoint_def ingest_begin_txn_def
      is_open_def faultless_lmdb_def checkpoint_in_txn_def)

lemma sample_append: "fst (lmdb_append (faultless_lmdb (\<lambda>_. [])) (record_of_job sample_job) sample_handle) = Inr ()"
proof -
  have "length (jb_raw_frame sample_job) < 500" by code_simp
  moreover have "kDbCheckpoints \<noteq> kDbIngestLog" by (simp add: kDbCheckpoints_def kDbIngestLog_def)
  ultimately show ?thesis
    by (simp add: lmdb_append_def sample_handle_def record_of_job_def sample_job_fields ingest_begin_txn_def is_open_def
        append_in_txn_def checkpoint_in_txn_def ingest_put_blob_def Let_def faultless_lmdb_def length_serialize_record_value)
qed


text \<open>
  The store in memory: in any sequence of calls, the sequence numbers of a host that are committed are
  the numbers from the one after its checkpoint to its new checkpoint, in order and without gaps or repetition.
\<close>

lemma commits_are_contiguous:
  assumes "in_sync memory_checkpoint c" and "ingest_all memory_ops sink now jobs c = (rs, c')"
  shows "committed_sequences h jobs rs =
    [Suc (unat (memory_checkpoint (ic_store c) h))..<Suc (unat (memory_checkpoint (ic_store c') h))]"
  using mem.ingest_all_committed [OF assms] by blast

lemma commits_are_contiguous_witness:
  "case ingest_all memory_ops quiet_sink 0 [sample_job, sample_job] (make_coordinator empty_memory_store 0 1) of (rs, c') \<Rightarrow>
    committed_sequences ''h'' [sample_job, sample_job] rs =
      [Suc (unat (memory_checkpoint empty_memory_store ''h''))..<Suc (unat (memory_checkpoint (ic_store c') ''h''))]"
  using commits_are_contiguous [OF in_sync_start, of quiet_sink 0 "[sample_job, sample_job]" empty_memory_store "0 :: nat" 1]
  by (auto simp: make_coordinator_def split: prod.split)

text \<open>
  One uninterrupted call does exactly what its decision says: \<open>Committed\<close> only for the number after the
  checkpoint and a frame that decodes, with the frame logged, the checkpoint advanced to it and the sink called
  once; \<open>Duplicate\<close>, which is acknowledged, for a number up to the checkpoint, and \<open>Gap\<close>, which is not, for
  one beyond the next, both changing neither store nor sink; an error changes neither as well.
\<close>

lemma ingest_does_what_it_decides:
  assumes "in_sync memory_checkpoint c" and "ingest memory_ops sink now job c = (res, c')"
  shows "in_sync memory_checkpoint c' \<and> outcome_ok memory_checkpoint memory_logged sink now job c c' res"
  by (rule mem.ingest_outcome [OF assms])

lemma ingest_does_what_it_decides_witness:
  "case ingest memory_ops quiet_sink 0 sample_job (make_coordinator empty_memory_store 0 1) of (res, c') \<Rightarrow>
    in_sync memory_checkpoint c' \<and> outcome_ok memory_checkpoint memory_logged quiet_sink 0 sample_job
      (make_coordinator empty_memory_store 0 1) c' res"
proof -
  let ?c = "make_coordinator empty_memory_store 0 1"
  obtain res c' where run: "ingest memory_ops quiet_sink 0 sample_job ?c = (res, c')"
    by (cases "ingest memory_ops quiet_sink 0 sample_job ?c")
  show ?thesis unfolding run using ingest_does_what_it_decides [OF in_sync_start run] by simp
qed

text \<open>What Muninn ships is decoded by Hugin, for a snapshot whose frame has room for it.\<close>

lemma shipped_snapshot_decodes:
  assumes "snapshot_ok sn" "fits_u32 (snapshot_layout sn)" "\<not> has_errors (validate_snapshot now sn)"
    and "jb_raw_frame job = shipped_snapshot created_at sn" "jb_host_id job = sn_host_identifier sn"
  shows "\<exists>v. decoded now job = Inr v \<and> vr_snapshot v = Some sn" "jb_host_id job \<noteq> []"
proof -
  have "fits_u32 (sn_host_identifier sn)"
    using assms(1) by (simp add: snapshot_ok_def string_ok_def kMaxStringLength_def fits_u32_def)
  then show "\<exists>v. decoded now job = Inr v \<and> vr_snapshot v = Some sn"
    using decoded_shipped_snapshot [OF assms(1,2) _ assms(3-5)] by fastforce
  show "jb_host_id job \<noteq> []"
    using assms(3,5) by (simp add: validate_snapshot_errors snapshot_acceptable_def)
qed

text \<open>The store in memory, where no call fails.\<close>

lemma shipped_snapshot_is_committed_in_memory:
  assumes sync: "in_sync memory_checkpoint c" "nothing_beyond memory_checkpoint memory_logged (ic_store c)"
    and sn: "snapshot_ok sn" "fits_u32 (snapshot_layout sn)" "\<not> has_errors (validate_snapshot now sn)"
      "jb_raw_frame job = shipped_snapshot created_at sn" "jb_host_id job = sn_host_identifier sn"
    and next_q: "unat (jb_sequence job) = Suc (unat (memory_checkpoint (ic_store c) (jb_host_id job)))"
  shows "\<exists>d c'. ingest memory_ops sink now job c = (Inr d, c') \<and> id_action d = Committed \<and>
    memory_logged (ic_store c') (jb_host_id job) (jb_sequence job) = Some (shipped_snapshot created_at sn)"
proof -
  obtain v where dec: "decoded now job = Inr v" using shipped_snapshot_decodes(1) [OF sn] by blast
  note host = shipped_snapshot_decodes(2) [OF sn]
  have "jb_sequence job \<noteq> 0" using next_q by auto
  then have fine: "fst (memory_append (record_of_job job) (ic_store c)) = Inr ()"
    using memory_append_succeeds [of "record_of_job job" "ic_store c"] host by (simp add: record_of_job_def)
  obtain res c' where run: "ingest memory_ops sink now job c = (res, c')" by fastforce
  from mem.ingest_next_frame [OF sync host next_q dec run] run fine memory_get_checkpoint_succeeds [OF host, of "ic_store c"]
  show ?thesis by (cases res) (auto simp: sn(4))
qed

text \<open>
  C35: from Muninn to Hugin, with the store on LMDB.  A coordinator starts on a store that has nothing logged beyond its
  checkpoints (a new store, say) and handles any calls one after another.  Then a snapshot arrives as Muninn serialises and
  frames it, with the number that is next for its host; it is inside the limits of the format, its layout is below 4
  GiB, and it passes validation.  Either a call of the store fails, and then the call of \<open>ingest\<close> reports an error and
  neither the checkpoints nor the log nor the sink has changed.  Or the frame is committed: the log
  holds exactly the bytes that Muninn sent under that host and number, the checkpoint of the host and the
  number that is acknowledged are the number of the frame, and the sink was given that same snapshot.
\<close>

theorem shipped_snapshot_is_committed:
  assumes laws: "lmdb_laws api contents"
    and start: "nothing_beyond (lmdb_checkpoint contents) (lmdb_logged contents) s"
    and before: "ingest_all (lmdb_ops api) sink earlier jobs (make_coordinator s k n) = (rs, c)"
    and sn: "snapshot_ok sn" "fits_u32 (snapshot_layout sn)" "\<not> has_errors (validate_snapshot now sn)"
      "jb_raw_frame job = shipped_snapshot created_at sn" "jb_host_id job = sn_host_identifier sn"
    and next_q: "unat (jb_sequence job) = Suc (unat (lmdb_checkpoint contents (ic_store c) (jb_host_id job)))"
    and run: "ingest (lmdb_ops api) sink now job c = (res, c')"
  shows "case res of
      Inr d \<Rightarrow> id_action d = Committed \<and> id_ack_inclusive_sequence d = jb_sequence job \<and>
        lmdb_checkpoint contents (ic_store c') (jb_host_id job) = jb_sequence job \<and>
        lmdb_logged contents (ic_store c') (jb_host_id job) (jb_sequence job) = Some (shipped_snapshot created_at sn) \<and>
        ic_sink c' = snd (op_apply_snapshot sink (jb_host_id job) (jb_sequence job) sn (ic_sink c))
    | Inl e \<Rightarrow> unchanged (lmdb_checkpoint contents) (lmdb_logged contents) c c' \<and>
        ((\<exists>e. lmdb_get_checkpoint api (ic_store c) (jb_host_id job) = Inl e) \<or>
         (\<exists>e. fst (lmdb_append api (record_of_job job) (ic_store c)) = Inl e))"
proof -
  note store = lmdb_ingest_store [OF laws]
  obtain v where v: "decoded now job = Inr v" "vr_snapshot v = Some sn" using shipped_snapshot_decodes(1) [OF sn] by blast
  have "nothing_beyond (lmdb_checkpoint contents) (lmdb_logged contents) (ic_store (make_coordinator s k n))"
    using start by (simp add: make_coordinator_def)
  from ingest_store.ingest_all_keeps [OF store in_sync_start this before]
  have c: "in_sync (lmdb_checkpoint contents) c" "nothing_beyond (lmdb_checkpoint contents) (lmdb_logged contents) (ic_store c)"
    by blast+
  from ingest_store.ingest_next_frame [OF store c shipped_snapshot_decodes(2) [OF sn] next_q v(1) run]
  show ?thesis using v(2) by (auto simp: sink_result_def sn(4) split: sum.splits)
qed

theorem shipped_snapshot_is_committed_witness:
  "\<exists>d c'. ingest (lmdb_ops (faultless_lmdb (\<lambda>_. []))) quiet_sink 0 sample_job (make_coordinator sample_handle 0 1) = (Inr d, c') \<and>
    id_action d = Committed \<and> lmdb_checkpoint list_contents (ic_store c') ''h'' = 1 \<and>
    lmdb_logged list_contents (ic_store c') ''h'' 1 = Some (shipped_snapshot 9 (example_snapshot 5 [])) \<and> ic_sink c' = 1"
proof -
  let ?api = "faultless_lmdb (\<lambda>_. [])" and ?sn = "example_snapshot 5 []"
  let ?c = "make_coordinator sample_handle (0 :: nat) 1"
  obtain res c' where run: "ingest (lmdb_ops ?api) quiet_sink 0 sample_job ?c = (res, c')" by fastforce
  have [simp]: "ic_store (make_coordinator x (y :: nat) z) = x" "ic_sink (make_coordinator x y z) = y" for x :: "list_db lmdb_handle" and y z
    by (simp_all add: make_coordinator_def)
  have start: "nothing_beyond (lmdb_checkpoint list_contents) (lmdb_logged list_contents) sample_handle"
    by (simp add: nothing_beyond_def lmdb_logged_def list_contents_def sample_handle_def)
  have sn: "jb_raw_frame sample_job = shipped_snapshot 9 ?sn" "jb_host_id sample_job = sn_host_identifier ?sn"
    "unat (jb_sequence sample_job) = Suc (unat (lmdb_checkpoint list_contents (ic_store ?c) (jb_host_id sample_job)))"
    by (simp_all add: sample_job_def example_snapshot_def sample_handle_contents make_coordinator_def)
  from shipped_snapshot_is_committed [OF faultless_lmdb_laws start _ example_snapshot_fits example_snapshots_pass(1) sn run,
      where jobs = "[]" and earlier = 0 and rs = "[]" and k = 0 and n = 1]
  show ?thesis using run sample_append
    by (cases res) (simp_all add: sample_job_fields sample_handle_contents quiet_sink_def)
qed

definition two :: "phase \<Rightarrow> phase \<Rightarrow> nat \<rightharpoonup> phase" where
  "two p q = Map.empty(0 \<mapsto> p, 1 \<mapsto> q)"

lemma reachable_two:
  assumes "reachable ops sink now s0 \<lparr>sy_coordinator = c, sy_threads = two p q\<rparr>"
  shows "advance ops sink now p c = (p', c') \<Longrightarrow> reachable ops sink now s0 \<lparr>sy_coordinator = c', sy_threads = two p' q\<rparr>"
    "advance ops sink now q c = (q', c') \<Longrightarrow> reachable ops sink now s0 \<lparr>sy_coordinator = c', sy_threads = two p q'\<rparr>"
proof -
  have two: "(two p q)(0 \<mapsto> p') = two p' q" "(two p q)(1 \<mapsto> q') = two p q'" by (auto simp: two_def)
  show "advance ops sink now p c = (p', c') \<Longrightarrow> reachable ops sink now s0 \<lparr>sy_coordinator = c', sy_threads = two p' q\<rparr>"
    using reachable.step [OF assms system_step.run, of 0 p] two by (simp add: two_def)
  show "advance ops sink now q c = (q', c') \<Longrightarrow> reachable ops sink now s0 \<lparr>sy_coordinator = c', sy_threads = two p q'\<rparr>"
    using reachable.step [OF assms system_step.run, of 1 q] two by (simp add: two_def)
qed

lemma reachable_two_start:
  "reachable ops sink now (start_system s k n)
    \<lparr>sy_coordinator = make_coordinator s k n, sy_threads = two (Arrived job) (Arrived job')\<rparr>"
proof -
  let ?y = "\<lparr>sy_coordinator = make_coordinator s k n, sy_threads = Map.empty(0 \<mapsto> Arrived job)\<rparr>"
  have "reachable ops sink now (start_system s k n) ?y"
    using reachable.step [OF reachable.initial system_step.arrive, of "start_system s k n" 0] by (simp add: start_system_def)
  then show ?thesis
    using reachable.step [OF _ system_step.arrive, of ops sink now "start_system s k n" ?y 1 job'] by (simp add: two_def)
qed

text \<open>
  Two calls with the same frame that both pass the first critical section before either has logged it both
  commit, and the sink is applied twice: only the log is protected against the repetition.
\<close>

lemma concurrent_repetition_reaches_the_sink_twice:
  "\<exists>y d d'. reachable memory_ops quiet_sink 0 (start_system empty_memory_store 0 1) y \<and>
    sy_threads y 0 = Some (Returned sample_job (Inr d)) \<and> sy_threads y 1 = Some (Returned sample_job (Inr d')) \<and>
    id_action d = Committed \<and> id_action d' = Committed \<and> ic_sink (sy_coordinator y) = 2"
proof -
  obtain v where dec: "decoded 0 sample_job = Inr v" "vr_snapshot v \<noteq> None"
    using sample_job_decoded by blast
  then obtain f sn where f: "parse_muninn_frame (jb_raw_frame sample_job) = Inr f"
    "validate_and_decode 0 f ''h'' = Inr v" "vr_snapshot v = Some sn"
    by (auto simp: decoded_def sum_bind_eq_Inr sample_job_fields)
  note evaluate = admit_def log_frame_def apply_to_sink_def conclude_def load_host_state_def Let_def count_def f
    make_coordinator_def memory_append_def memory_get_checkpoint_def quiet_sink_def empty_memory_store_def sample_job_fields
  let ?c0 = "make_coordinator empty_memory_store 0 1 :: (memory_store, nat) coordinator"
  note start = reachable_two_start [of memory_ops quiet_sink 0 empty_memory_store "0 :: nat" 1 sample_job sample_job]
  obtain c1 where c1: "advance memory_ops quiet_sink 0 (Arrived sample_job) ?c0 = (Admitted sample_job, c1)"
    "ic_store c1 = empty_memory_store" "ic_sink c1 = 0" "ic_ack_batch_size c1 = 1"
    "ic_host_states c1 ''h'' = Some \<lparr>hs_loaded = True, hs_last_committed_sequence = 0, hs_since_last_ack = 0\<rparr>"
    by (simp add: evaluate)
  obtain c2 where c2: "advance memory_ops quiet_sink 0 (Arrived sample_job) c1 = (Admitted sample_job, c2)"
    "ic_store c2 = empty_memory_store" "ic_sink c2 = 0" "ic_host_states c2 ''h'' = ic_host_states c1 ''h''"
    using c1 by (simp add: evaluate)
  obtain c3 where c3: "advance memory_ops quiet_sink 0 (Admitted sample_job) c2 = (Logged sample_job v, c3)"
    "ic_sink c3 = 0" "ic_host_states c3 = ic_host_states c2"
    using c2 by (simp add: evaluate)
  obtain c4 where c4: "advance memory_ops quiet_sink 0 (Admitted sample_job) c3 = (Logged sample_job v, c4)"
    "ic_sink c4 = 0" "ic_host_states c4 = ic_host_states c3"
    using c3 by (simp add: evaluate)
  obtain c5 where c5: "advance memory_ops quiet_sink 0 (Logged sample_job v) c4 = (Applied sample_job True, c5)"
    "ic_sink c5 = 1" "ic_host_states c5 = ic_host_states c4"
    using c4 by (simp add: evaluate)
  obtain c6 where c6: "advance memory_ops quiet_sink 0 (Logged sample_job v) c5 = (Applied sample_job True, c6)"
    "ic_sink c6 = 2" "ic_host_states c6 = ic_host_states c5"
    using c5 by (simp add: evaluate)
  obtain c7 d where c7: "advance memory_ops quiet_sink 0 (Applied sample_job True) c6 = (Returned sample_job (Inr d), c7)"
    "ic_sink c7 = 2" "id_action d = Committed" "\<exists>st. ic_host_states c7 ''h'' = Some st \<and> hs_loaded st"
    using c6 c5 c4 c3 c2 c1 by (simp add: evaluate)
  obtain c8 d' where c8: "advance memory_ops quiet_sink 0 (Applied sample_job True) c7 = (Returned sample_job (Inr d'), c8)"
    "ic_sink c8 = 2" "id_action d' = Committed"
    using c7 by (auto simp: evaluate)
  note r4 = reachable_two(2) [OF reachable_two(1) [OF reachable_two(2) [OF reachable_two(1) [OF start c1(1)] c2(1)] c3(1)] c4(1)]
  note r8 = reachable_two(2) [OF reachable_two(1) [OF reachable_two(2) [OF reachable_two(1) [OF r4 c5(1)] c6(1)] c7(1)] c8(1)]
  show ?thesis
    by (rule exI, rule exI [of _ d], rule exI [of _ d'], rule conjI, rule r8) (simp add: two_def c7(2,3) c8(2,3))
qed

end
