(* ===== verification/LmdbStore.thy ===== *)
theory LmdbStore imports TransportFrame Lmdb Serialization ValidationGraph Decimal "HOL-Library.Product_Lexorder" begin

text \<open>
  Muninn's store, \<open>src/backend/Muninn/storage/lmdb_store.hpp\<close> and \<open>lmdb_store.cpp\<close>, over the parameter of
  theory Lmdb: snapshots, deltas and the transport outbox with its consumers.  The clocks are arguments:
  \<open>now\<close> is the one that the validator reads, \<open>created_at\<close> what \<open>unix_now_u64()\<close> answers.  An output
  parameter is part of the result of a call that succeeds.  The writing operations run under the writer's
  mutex, so each is one step; those with a loop over a cursor are partial functions, and their termination
  is a theorem.
\<close>

subsection \<open>Databases and errors\<close>

definition kDbMeta :: string where "kDbMeta = ''meta''"
definition kDbSnapshots :: string where "kDbSnapshots = ''snapshots''"
definition kDbDeltas :: string where "kDbDeltas = ''deltas''"
definition kDbTransport :: string where "kDbTransport = ''transport_outbox''"
definition kDbTransportConsumers :: string where "kDbTransportConsumers = ''transport_consumers''"
definition kKeyNextSequence :: string where "kKeyNextSequence = ''next_transport_sequence''"
definition kLegacyTransportConsumerId :: string where
  "kLegacyTransportConsumerId = ''__legacy_global_consumer__''"

record store_stats =
  ss_snapshots_count :: nat
  ss_deltas_count :: nat
  ss_transport_outbox_count :: nat
  ss_transport_consumers_count :: nat
  ss_next_transport_sequence :: u64

text \<open>\<open>RetentionCleanupStats\<close> and \<open>SnapshotDeleteStats\<close> have the same fields.\<close>

record cleanup_stats =
  cs_snapshots_removed :: nat
  cs_deltas_removed :: nat

definition lmdb_error :: "'e lmdb_api \<Rightarrow> int \<Rightarrow> string \<Rightarrow> store_failure" where
  "lmdb_error api rc message = \<lparr>sf_code = LmdbError, sf_lmdb_rc = rc,
    sf_message = message @ '' (rc='' @ show_int rc @ '', detail='' @ lm_strerror api rc @ '')''\<rparr>"

definition not_open :: store_failure where
  "not_open = store_error NotOpen ''LMDB store is not open.''"

definition consumer_id_empty :: store_failure where
  "consumer_id_empty = store_error store_error_code.InvalidArgument ''Consumer id must not be empty.''"

definition validate_snapshot_for_store :: "int \<Rightarrow> snapshot \<Rightarrow> unit store_result" where
  "validate_snapshot_for_store now snapshot =
    (let report = validate_snapshot now snapshot
     in if has_errors report
        then Inl (store_error ValidationFailure
          (''Snapshot validation failed with '' @ show_nat (length report) @ '' issues.''))
        else Inr ())"

definition validate_delta_for_store :: "delta_snapshot \<Rightarrow> snapshot option \<Rightarrow> snapshot option \<Rightarrow> unit store_result" where
  "validate_delta_for_store delta base_snapshot target_snapshot =
    (let report = validate_delta delta base_snapshot target_snapshot
     in if has_errors report
        then Inl (store_error ValidationFailure
          (''Delta validation failed with '' @ show_nat (length report) @ '' issues.''))
        else Inr ())"

fun serialization_code_number :: "serialization_error_code \<Rightarrow> nat" where
  "serialization_code_number NoError = 0"
| "serialization_code_number serialization_error_code.IoFailure = 1"
| "serialization_code_number InvalidMagic = 2"
| "serialization_code_number UnsupportedFormatVersion = 3"
| "serialization_code_number PayloadTruncated = 4"
| "serialization_code_number PayloadOverflow = 5"
| "serialization_code_number InvalidValue = 6"
| "serialization_code_number StringTooLarge = 7"
| "serialization_code_number EntryCountTooLarge = 8"
| "serialization_code_number JsonFieldMissing = 9"
| "serialization_code_number JsonTypeMismatch = 10"

definition serialization_to_store_status :: "string \<Rightarrow> ser_error + 'a \<Rightarrow> 'a store_result" where
  "serialization_to_store_status operation result =
    (case result of
       Inr v \<Rightarrow> Inr v
     | Inl (code, message) \<Rightarrow> Inl (store_error SerializationFailure
         (operation @ '' failed: '' @ message @ '' (serialization_code='' @
          show_nat (serialization_code_number code) @ '')'')))"

subsection \<open>Transactions\<close>

definition store_begin_txn :: "'e lmdb_api \<Rightarrow> 'e lmdb_handle \<Rightarrow> 'e store_result" where
  "store_begin_txn api s =
    (if \<not> is_open s then Inl not_open
     else (let (rc, txn) = lm_begin api (the (lh_env s))
           in if rc \<noteq> 0 then Inl (lmdb_error api rc ''mdb_txn_begin'') else Inr txn))"

definition store_put_blob :: "'e lmdb_api \<Rightarrow> string \<Rightarrow> 'e \<Rightarrow> bytes \<Rightarrow> bytes \<Rightarrow> 'e store_result" where
  "store_put_blob api dbi txn key val =
    (let (rc, txn) = lm_put api txn dbi key val False
     in if rc \<noteq> 0 then Inl (lmdb_error api rc ''mdb_put'') else Inr txn)"

definition store_get_blob :: "'e lmdb_api \<Rightarrow> string \<Rightarrow> 'e \<Rightarrow> bytes \<Rightarrow> bytes store_result" where
  "store_get_blob api dbi txn key =
    (let (rc, val) = lm_get api txn dbi key
     in if rc = MDB_NOTFOUND then Inl (store_error NotFound ''Record not found.'')
        else if rc \<noteq> 0 then Inl (lmdb_error api rc ''mdb_get'')
        else Inr val)"

text \<open>
  The shape of every writing operation: begin, do the work, and commit, or abort when the work fails.  The
  work also says whether there is anything to commit: some operations end with an abort and a success.
\<close>

definition finish_txn ::
  "'e lmdb_api \<Rightarrow> string \<Rightarrow> 'e lmdb_handle \<Rightarrow> ('a \<times> bool \<times> 'e) store_result \<Rightarrow> 'a store_result \<times> 'e lmdb_handle" where
  "finish_txn api commit_message s result =
    (case result of
       Inl e \<Rightarrow> (Inl e, s)
     | Inr (a, to_commit, txn) \<Rightarrow>
         if \<not> to_commit then (Inr a, s)
         else (let (rc, env) = lm_commit api (the (lh_env s)) txn
               in if rc \<noteq> 0 then (Inl (lmdb_error api rc commit_message), s\<lparr>lh_env := Some env\<rparr>)
                  else (Inr a, s\<lparr>lh_env := Some env\<rparr>)))"

definition in_write_txn ::
  "'e lmdb_api \<Rightarrow> string \<Rightarrow> ('e \<Rightarrow> ('a \<times> bool \<times> 'e) store_result) \<Rightarrow> 'e lmdb_handle \<Rightarrow> 'a store_result \<times> 'e lmdb_handle" where
  "in_write_txn api commit_message work s =
    finish_txn api commit_message s (sum_bind (store_begin_txn api s) work)"

text \<open>The same for work with a loop.\<close>

definition in_write_txn_loop ::
  "'e lmdb_api \<Rightarrow> string \<Rightarrow> ('e \<Rightarrow> ('a \<times> bool \<times> 'e) store_result option) \<Rightarrow> 'e lmdb_handle \<Rightarrow>
    ('a store_result \<times> 'e lmdb_handle) option" where
  "in_write_txn_loop api commit_message work s =
    (case store_begin_txn api s of
       Inl e \<Rightarrow> Some (Inl e, s)
     | Inr txn \<Rightarrow> map_option (finish_txn api commit_message s) (work txn))"

text \<open>
  Open a cursor and run a loop over it.  After the loop every code but \<open>MDB_NOTFOUND\<close> is an error, but for
  the \<open>MDB_SUCCESS\<close> of a loop that was left with a break; a loop without a break cannot end with it.
\<close>

definition walk ::
  "'e lmdb_api \<Rightarrow> string \<Rightarrow> cursor_position \<Rightarrow> string \<Rightarrow> string \<Rightarrow>
    (bytes \<Rightarrow> bytes \<Rightarrow> 'e \<Rightarrow> 'a \<Rightarrow> (store_failure, 'e, 'a) loop_step) \<Rightarrow> 'e \<Rightarrow> 'a \<Rightarrow> ('e \<times> 'a) store_result option" where
  "walk api dbi start open_message get_message body txn acc =
    (if lm_cursor_open api txn dbi \<noteq> 0
     then Some (Inl (lmdb_error api (lm_cursor_open api txn dbi) open_message))
     else map_option (\<lambda>result. case result of
           Inl e \<Rightarrow> Inl e
         | Inr (rc, txn, acc) \<Rightarrow>
             if rc \<noteq> 0 \<and> rc \<noteq> MDB_NOTFOUND then Inl (lmdb_error api rc get_message) else Inr (txn, acc))
       (cursor_loop api dbi body (lm_cursor_get api txn dbi start) txn acc))"

subsection \<open>Sequence numbers and consumers\<close>

definition read_next_sequence :: "'e lmdb_api \<Rightarrow> 'e \<Rightarrow> u64 store_result" where
  "read_next_sequence api txn =
    (let (rc, val) = lm_get api txn kDbMeta (string_bytes kKeyNextSequence)
     in if rc = MDB_NOTFOUND then Inl (store_error NotFound ''Next sequence key is not set.'')
        else if rc \<noteq> 0 then Inl (lmdb_error api rc ''mdb_get(next_sequence)'')
        else if length val \<noteq> 8 then Inl (store_error CorruptedPayload ''Invalid next sequence payload size.'')
        else Inr (decode_u64_be val))"

definition write_next_sequence :: "'e lmdb_api \<Rightarrow> 'e \<Rightarrow> u64 \<Rightarrow> 'e store_result" where
  "write_next_sequence api txn next_sequence =
    store_put_blob api kDbMeta txn (string_bytes kKeyNextSequence) (encode_u64_be next_sequence)"

definition read_consumer_ack_sequence :: "'e lmdb_api \<Rightarrow> 'e \<Rightarrow> string \<Rightarrow> u64 store_result" where
  "read_consumer_ack_sequence api txn consumer_id =
    (if consumer_id = [] then Inl consumer_id_empty
     else (let (rc, val) = lm_get api txn kDbTransportConsumers (string_bytes consumer_id)
           in if rc = MDB_NOTFOUND then Inl (store_error NotFound ''Transport consumer is not registered.'')
              else if rc \<noteq> 0 then Inl (lmdb_error api rc ''mdb_get(transport_consumer_ack)'')
              else if length val \<noteq> 8
              then Inl (store_error CorruptedPayload ''Invalid transport consumer ack payload size.'')
              else Inr (decode_u64_be val)))"

definition write_consumer_ack_sequence :: "'e lmdb_api \<Rightarrow> 'e \<Rightarrow> string \<Rightarrow> u64 \<Rightarrow> 'e store_result" where
  "write_consumer_ack_sequence api txn consumer_id sequence =
    (if consumer_id = [] then Inl consumer_id_empty
     else store_put_blob api kDbTransportConsumers txn (string_bytes consumer_id) (encode_u64_be sequence))"

definition reserve_next_sequence :: "'e lmdb_api \<Rightarrow> 'e \<Rightarrow> (u64 \<times> 'e) store_result" where
  "reserve_next_sequence api txn =
    (case read_next_sequence api txn of
       Inl e \<Rightarrow> if sf_code e \<noteq> NotFound then Inl e
         else sum_bind (write_next_sequence api txn (1 + 1)) (\<lambda>txn. Inr (1, txn))
     | Inr next_sequence \<Rightarrow>
         sum_bind (write_next_sequence api txn (next_sequence + 1)) (\<lambda>txn. Inr (next_sequence, txn)))"

definition enqueue_transport_record_in_txn ::
  "'e lmdb_api \<Rightarrow> 'e \<Rightarrow> transport_record_type \<Rightarrow> string \<Rightarrow> bytes \<Rightarrow> u64 \<Rightarrow> (u64 \<times> 'e) store_result" where
  "enqueue_transport_record_in_txn api txn type routing_key payload created_at =
    sum_bind (reserve_next_sequence api txn) (\<lambda>(sequence, txn).
    sum_bind (store_put_blob api kDbTransport txn (encode_u64_be sequence)
        (serialize_frame type routing_key payload created_at)) (\<lambda>txn.
    Inr (sequence, txn)))"

subsection \<open>Opening\<close>

definition store_open_dbi :: "'e lmdb_api \<Rightarrow> 'e \<Rightarrow> string \<Rightarrow> string \<Rightarrow> 'e store_result" where
  "store_open_dbi api txn dbi message =
    (let (rc, txn) = lm_dbi_open api txn dbi
     in if rc \<noteq> 0 then Inl (lmdb_error api rc message) else Inr txn)"

definition store_initialize_dbs :: "'e lmdb_api \<Rightarrow> 'e \<Rightarrow> 'e store_result" where
  "store_initialize_dbs api txn =
    sum_bind (store_open_dbi api txn kDbMeta ''mdb_dbi_open(meta)'') (\<lambda>txn.
    sum_bind (store_open_dbi api txn kDbSnapshots ''mdb_dbi_open(snapshots)'') (\<lambda>txn.
    sum_bind (store_open_dbi api txn kDbDeltas ''mdb_dbi_open(deltas)'') (\<lambda>txn.
    sum_bind (store_open_dbi api txn kDbTransport ''mdb_dbi_open(transport)'') (\<lambda>txn.
    sum_bind (store_open_dbi api txn kDbTransportConsumers ''mdb_dbi_open(transport_consumers)'') (\<lambda>txn.
      case read_next_sequence api txn of
        Inl e \<Rightarrow> if sf_code e \<noteq> NotFound then Inl e else write_next_sequence api txn 1
      | Inr _ \<Rightarrow> Inr txn)))))"

definition store_open :: "'e lmdb_api \<Rightarrow> lmdb_options \<Rightarrow> 'e lmdb_handle \<Rightarrow> unit store_result \<times> 'e lmdb_handle" where
  "store_open api options s =
    (if lh_open s then (Inr (), s)
     else if lo_directory options = []
     then (Inl (store_error store_error_code.InvalidArgument ''LMDB directory must not be empty.''), s)
     else case lm_create_directories api (lo_directory options) of
       Some detail \<Rightarrow> (Inl (store_error store_error_code.IoFailure (''Failed to create LMDB directory: '' @ detail)), s)
     | None \<Rightarrow>
        if lm_env_create api \<noteq> 0 then (Inl (lmdb_error api (lm_env_create api) ''mdb_env_create''), s)
        else if lm_set_mapsize api (lo_map_size_bytes options) \<noteq> 0
        then (Inl (lmdb_error api (lm_set_mapsize api (lo_map_size_bytes options)) ''mdb_env_set_mapsize''), closed_handle)
        else if lm_set_maxdbs api (lo_max_dbs options) \<noteq> 0
        then (Inl (lmdb_error api (lm_set_maxdbs api (lo_max_dbs options)) ''mdb_env_set_maxdbs''), closed_handle)
        else if lm_set_maxreaders api (lo_max_readers options) \<noteq> 0
        then (Inl (lmdb_error api (lm_set_maxreaders api (lo_max_readers options)) ''mdb_env_set_maxreaders''), closed_handle)
        else
          (let (rc, env) = lm_env_open api (lo_directory options) (lo_no_sync options) (lo_write_map options)
           in if rc \<noteq> 0 then (Inl (lmdb_error api rc ''mdb_env_open''), closed_handle)
              else (case sum_bind (store_begin_txn api \<lparr>lh_env = Some env, lh_open = True\<rparr>) (store_initialize_dbs api) of
                  Inl e \<Rightarrow> (Inl e, closed_handle)
                | Inr txn \<Rightarrow>
                    (let (rc, env) = lm_commit api env txn
                     in if rc \<noteq> 0 then (Inl (lmdb_error api rc ''mdb_txn_commit(open)''), closed_handle)
                        else (Inr (), \<lparr>lh_env = Some env, lh_open = True\<rparr>)))))"

text \<open>Moving a store: the new owner, and what is left.\<close>

definition store_move :: "'e lmdb_handle \<Rightarrow> 'e lmdb_handle \<times> 'e lmdb_handle" where
  "store_move other = (other, closed_handle)"

subsection \<open>Snapshots and deltas\<close>

definition prepare_snapshot :: "int \<Rightarrow> bool \<Rightarrow> snapshot \<Rightarrow> bytes store_result" where
  "prepare_snapshot now validate_before_store snapshot =
    sum_bind (if validate_before_store then validate_snapshot_for_store now snapshot else Inr ()) (\<lambda>_.
    serialization_to_store_status ''serialize_snapshot_binary'' (serialize_snapshot_binary snapshot []))"

definition prepare_delta :: "bool \<Rightarrow> delta_snapshot \<Rightarrow> snapshot option \<Rightarrow> snapshot option \<Rightarrow> bytes store_result" where
  "prepare_delta validate_before_store delta base_snapshot target_snapshot =
    sum_bind (if validate_before_store then validate_delta_for_store delta base_snapshot target_snapshot else Inr ()) (\<lambda>_.
    serialization_to_store_status ''serialize_delta_binary'' (serialize_delta_binary delta []))"

definition delta_route :: "delta_snapshot \<Rightarrow> string" where
  "delta_route delta = show_word (dl_base_snapshot_id delta) @ ''->'' @ show_word (dl_target_snapshot_id delta)"

definition put_snapshot ::
  "'e lmdb_api \<Rightarrow> int \<Rightarrow> snapshot \<Rightarrow> bool \<Rightarrow> 'e lmdb_handle \<Rightarrow> unit store_result \<times> 'e lmdb_handle" where
  "put_snapshot api now snapshot validate_before_store s =
    (if \<not> is_open s then (Inl not_open, s)
     else case prepare_snapshot now validate_before_store snapshot of
       Inl e \<Rightarrow> (Inl e, s)
     | Inr payload \<Rightarrow>
         in_write_txn api ''mdb_txn_commit(put_snapshot)'' (\<lambda>txn.
           sum_bind (store_put_blob api kDbSnapshots txn (encode_u64_be (sn_snapshot_id snapshot)) payload) (\<lambda>txn.
           Inr ((), True, txn))) s)"

definition put_snapshot_with_transport ::
  "'e lmdb_api \<Rightarrow> int \<Rightarrow> u64 \<Rightarrow> snapshot \<Rightarrow> bool \<Rightarrow> bool \<Rightarrow> 'e lmdb_handle \<Rightarrow> u64 option store_result \<times> 'e lmdb_handle" where
  "put_snapshot_with_transport api now created_at snapshot enqueue_transport validate_before_store s =
    (if \<not> is_open s then (Inl not_open, s)
     else case prepare_snapshot now validate_before_store snapshot of
       Inl e \<Rightarrow> (Inl e, s)
     | Inr payload \<Rightarrow>
         in_write_txn api ''mdb_txn_commit(put_snapshot_with_transport)'' (\<lambda>txn.
           sum_bind (store_put_blob api kDbSnapshots txn (encode_u64_be (sn_snapshot_id snapshot)) payload) (\<lambda>txn.
           if enqueue_transport
           then sum_bind (enqueue_transport_record_in_txn api txn Transport_Snapshot (sn_host_identifier snapshot)
                  payload created_at) (\<lambda>(sequence, txn). Inr (Some sequence, True, txn))
           else Inr (None, True, txn))) s)"

definition read_snapshot :: "int \<Rightarrow> bool \<Rightarrow> bytes \<Rightarrow> snapshot store_result" where
  "read_snapshot now validate_after_read payload =
    sum_bind (serialization_to_store_status ''deserialize_snapshot_binary'' (deserialize_snapshot_binary payload)) (\<lambda>(snapshot, rest).
    sum_bind (if validate_after_read then validate_snapshot_for_store now snapshot else Inr ()) (\<lambda>_.
    Inr snapshot))"

definition get_snapshot :: "'e lmdb_api \<Rightarrow> int \<Rightarrow> u64 \<Rightarrow> bool \<Rightarrow> 'e lmdb_handle \<Rightarrow> snapshot store_result" where
  "get_snapshot api now snapshot_id validate_after_read s =
    (if \<not> is_open s then Inl not_open
     else sum_bind (store_begin_txn api s) (\<lambda>txn.
       sum_bind (store_get_blob api kDbSnapshots txn (encode_u64_be snapshot_id)) (\<lambda>payload.
       read_snapshot now validate_after_read payload)))"

definition put_delta ::
  "'e lmdb_api \<Rightarrow> delta_snapshot \<Rightarrow> snapshot option \<Rightarrow> snapshot option \<Rightarrow> bool \<Rightarrow> 'e lmdb_handle \<Rightarrow>
    unit store_result \<times> 'e lmdb_handle" where
  "put_delta api delta base_snapshot target_snapshot validate_before_store s =
    (if \<not> is_open s then (Inl not_open, s)
     else case prepare_delta validate_before_store delta base_snapshot target_snapshot of
       Inl e \<Rightarrow> (Inl e, s)
     | Inr payload \<Rightarrow>
         in_write_txn api ''mdb_txn_commit(put_delta)'' (\<lambda>txn.
           sum_bind (store_put_blob api kDbDeltas txn
               (make_delta_key (dl_base_snapshot_id delta) (dl_target_snapshot_id delta)) payload) (\<lambda>txn.
           Inr ((), True, txn))) s)"

text \<open>All validation comes before all serialisation.\<close>

definition prepare_both ::
  "int \<Rightarrow> bool \<Rightarrow> snapshot \<Rightarrow> delta_snapshot \<Rightarrow> snapshot option \<Rightarrow> (bytes \<times> bytes) store_result" where
  "prepare_both now validate_before_store snapshot delta base_snapshot =
    sum_bind (if validate_before_store
        then sum_bind (validate_snapshot_for_store now snapshot) (\<lambda>_.
          validate_delta_for_store delta base_snapshot (Some snapshot))
        else Inr ()) (\<lambda>_.
    sum_bind (prepare_snapshot now False snapshot) (\<lambda>snapshot_payload.
    sum_bind (prepare_delta False delta base_snapshot (Some snapshot)) (\<lambda>delta_payload.
    Inr (snapshot_payload, delta_payload))))"

definition put_snapshot_and_delta_with_transport ::
  "'e lmdb_api \<Rightarrow> int \<Rightarrow> u64 \<Rightarrow> u64 \<Rightarrow> snapshot \<Rightarrow> delta_snapshot \<Rightarrow> snapshot option \<Rightarrow> bool \<Rightarrow> bool \<Rightarrow>
    'e lmdb_handle \<Rightarrow> (u64 \<times> u64) option store_result \<times> 'e lmdb_handle" where
  "put_snapshot_and_delta_with_transport api now created_at created_at' snapshot delta base_snapshot
      enqueue_transport validate_before_store s =
    (if \<not> is_open s then (Inl not_open, s)
     else case prepare_both now validate_before_store snapshot delta base_snapshot of
       Inl e \<Rightarrow> (Inl e, s)
     | Inr (snapshot_payload, delta_payload) \<Rightarrow>
         in_write_txn api ''mdb_txn_commit(put_snapshot_and_delta_with_transport)'' (\<lambda>txn.
           sum_bind (store_put_blob api kDbSnapshots txn (encode_u64_be (sn_snapshot_id snapshot)) snapshot_payload) (\<lambda>txn.
           sum_bind (store_put_blob api kDbDeltas txn
               (make_delta_key (dl_base_snapshot_id delta) (dl_target_snapshot_id delta)) delta_payload) (\<lambda>txn.
           if enqueue_transport
           then sum_bind (enqueue_transport_record_in_txn api txn Transport_Snapshot (sn_host_identifier snapshot)
                  snapshot_payload created_at) (\<lambda>(snapshot_sequence, txn).
                sum_bind (enqueue_transport_record_in_txn api txn Transport_Delta (delta_route delta)
                  delta_payload created_at') (\<lambda>(delta_sequence, txn).
                Inr (Some (snapshot_sequence, delta_sequence), True, txn)))
           else Inr (None, True, txn)))) s)"

definition read_delta :: "bool \<Rightarrow> bytes \<Rightarrow> delta_snapshot store_result" where
  "read_delta validate_after_read payload =
    sum_bind (serialization_to_store_status ''deserialize_delta_binary'' (deserialize_delta_binary payload)) (\<lambda>(delta, rest).
    sum_bind (if validate_after_read then validate_delta_for_store delta None None else Inr ()) (\<lambda>_.
    Inr delta))"

definition get_delta :: "'e lmdb_api \<Rightarrow> u64 \<Rightarrow> u64 \<Rightarrow> bool \<Rightarrow> 'e lmdb_handle \<Rightarrow> delta_snapshot store_result" where
  "get_delta api base_snapshot_id target_snapshot_id validate_after_read s =
    (if \<not> is_open s then Inl not_open
     else sum_bind (store_begin_txn api s) (\<lambda>txn.
       sum_bind (store_get_blob api kDbDeltas txn (make_delta_key base_snapshot_id target_snapshot_id)) (\<lambda>payload.
       read_delta validate_after_read payload)))"

subsection \<open>The outbox\<close>

definition enqueue_transport_record ::
  "'e lmdb_api \<Rightarrow> transport_record_type \<Rightarrow> string \<Rightarrow> bytes \<Rightarrow> u64 \<Rightarrow> 'e lmdb_handle \<Rightarrow> u64 store_result \<times> 'e lmdb_handle" where
  "enqueue_transport_record api type routing_key payload created_at s =
    (if \<not> is_open s then (Inl not_open, s)
     else in_write_txn api ''mdb_txn_commit(enqueue_transport_record)'' (\<lambda>txn.
       sum_bind (enqueue_transport_record_in_txn api txn type routing_key payload created_at) (\<lambda>(sequence, txn).
       Inr (sequence, True, txn))) s)"

definition enqueue_snapshot ::
  "'e lmdb_api \<Rightarrow> int \<Rightarrow> u64 \<Rightarrow> snapshot \<Rightarrow> bool \<Rightarrow> 'e lmdb_handle \<Rightarrow> u64 store_result \<times> 'e lmdb_handle" where
  "enqueue_snapshot api now created_at snapshot validate_before_store s =
    (case prepare_snapshot now validate_before_store snapshot of
       Inl e \<Rightarrow> (Inl e, s)
     | Inr payload \<Rightarrow>
         enqueue_transport_record api Transport_Snapshot (sn_host_identifier snapshot) payload created_at s)"

definition enqueue_delta ::
  "'e lmdb_api \<Rightarrow> u64 \<Rightarrow> delta_snapshot \<Rightarrow> snapshot option \<Rightarrow> snapshot option \<Rightarrow> bool \<Rightarrow> 'e lmdb_handle \<Rightarrow>
    u64 store_result \<times> 'e lmdb_handle" where
  "enqueue_delta api created_at delta base_snapshot target_snapshot validate_before_store s =
    (case prepare_delta validate_before_store delta base_snapshot target_snapshot of
       Inl e \<Rightarrow> (Inl e, s)
     | Inr payload \<Rightarrow> enqueue_transport_record api Transport_Delta (delta_route delta) payload created_at s)"

definition register_transport_consumer ::
  "'e lmdb_api \<Rightarrow> string \<Rightarrow> 'e lmdb_handle \<Rightarrow> unit store_result \<times> 'e lmdb_handle" where
  "register_transport_consumer api consumer_id s =
    (if \<not> is_open s then (Inl not_open, s)
     else if consumer_id = [] then (Inl consumer_id_empty, s)
     else in_write_txn api ''mdb_txn_commit(register_transport_consumer)'' (\<lambda>txn.
       case read_consumer_ack_sequence api txn consumer_id of
         Inl e \<Rightarrow> if sf_code e = NotFound
           then sum_bind (write_consumer_ack_sequence api txn consumer_id 0) (\<lambda>txn. Inr ((), True, txn))
           else Inl e
       | Inr _ \<Rightarrow> Inr ((), False, txn)) s)"

definition ack_transport_until_for_consumer ::
  "'e lmdb_api \<Rightarrow> string \<Rightarrow> u64 \<Rightarrow> 'e lmdb_handle \<Rightarrow> unit store_result \<times> 'e lmdb_handle" where
  "ack_transport_until_for_consumer api consumer_id inclusive_sequence s =
    (if \<not> is_open s then (Inl not_open, s)
     else if consumer_id = [] then (Inl consumer_id_empty, s)
     else in_write_txn api ''mdb_txn_commit(ack_transport_until_for_consumer)'' (\<lambda>txn.
       let status = read_consumer_ack_sequence api txn consumer_id;
           missing = (case status of Inl e \<Rightarrow> sf_code e = NotFound | Inr _ \<Rightarrow> False);
           current_ack = (case status of Inl e \<Rightarrow> 0 | Inr ack \<Rightarrow> ack);
           updated_ack = max current_ack inclusive_sequence
       in case status of
            Inl e \<Rightarrow> if \<not> missing then Inl e
              else sum_bind (write_consumer_ack_sequence api txn consumer_id updated_ack) (\<lambda>txn. Inr ((), True, txn))
          | Inr _ \<Rightarrow> if updated_ack \<noteq> current_ack
              then sum_bind (write_consumer_ack_sequence api txn consumer_id updated_ack) (\<lambda>txn. Inr ((), True, txn))
              else Inr ((), False, txn)) s)"

definition ack_transport_until :: "'e lmdb_api \<Rightarrow> u64 \<Rightarrow> 'e lmdb_handle \<Rightarrow> unit store_result \<times> 'e lmdb_handle" where
  "ack_transport_until api inclusive_sequence s =
    ack_transport_until_for_consumer api kLegacyTransportConsumerId inclusive_sequence s"

text \<open>The body of the loop of \<open>fetch_transport_batch_for_consumer\<close>; it ends when the batch is full.\<close>

definition fetch_record ::
  "nat \<Rightarrow> bytes \<Rightarrow> bytes \<Rightarrow> 'e \<Rightarrow> transport_record list \<Rightarrow> (store_failure, 'e, transport_record list) loop_step" where
  "fetch_record max_items key val txn records =
    (if length records < max_items
     then if length key \<noteq> 8 then Abort (store_error CorruptedPayload ''Invalid transport key size.'')
          else (case parse_frame val \<lparr>tr_sequence = decode_u64_be key, tr_created_at = 0,
                  tr_type = Transport_Snapshot, tr_routing_key = [], tr_payload = []\<rparr> of
              Inl e \<Rightarrow> Abort e
            | Inr record \<Rightarrow> Next txn (records @ [record]))
     else Break txn records)"

definition fetch_transport_batch_for_consumer ::
  "'e lmdb_api \<Rightarrow> string \<Rightarrow> nat \<Rightarrow> 'e lmdb_handle \<Rightarrow> transport_record list store_result option" where
  "fetch_transport_batch_for_consumer api consumer_id max_items s =
    (if \<not> is_open s then Some (Inl not_open)
     else if consumer_id = [] then Some (Inl consumer_id_empty)
     else if max_items = 0 then Some (Inr [])
     else case store_begin_txn api s of
       Inl e \<Rightarrow> Some (Inl e)
     | Inr txn \<Rightarrow>
         (let status = read_consumer_ack_sequence api txn consumer_id
          in case (case status of Inl e \<Rightarrow> if sf_code e \<noteq> NotFound then Inl e else Inr 0 | Inr ack \<Rightarrow> Inr ack) of
               Inl e \<Rightarrow> Some (Inl e)
             | Inr last_acked_sequence \<Rightarrow>
                 map_option (map_sum (\<lambda>e. e) snd)
                   (walk api kDbTransport
                     (if last_acked_sequence = 0 then First else From (encode_u64_be (last_acked_sequence + 1)))
                     ''mdb_cursor_open(transport)'' ''mdb_cursor_get(fetch_transport_batch)''
                     (fetch_record max_items) txn [])))"

definition fetch_transport_batch ::
  "'e lmdb_api \<Rightarrow> nat \<Rightarrow> 'e lmdb_handle \<Rightarrow> transport_record list store_result option" where
  "fetch_transport_batch api max_items s =
    fetch_transport_batch_for_consumer api kLegacyTransportConsumerId max_items s"

text \<open>Compaction: the least acknowledged number of the consumers, and the records up to it.\<close>

definition min_ack_step ::
  "bytes \<Rightarrow> bytes \<Rightarrow> 'e \<Rightarrow> u64 option \<Rightarrow> (store_failure, 'e, u64 option) loop_step" where
  "min_ack_step key val txn min_acked =
    (if length val \<noteq> 8
     then Abort (store_error CorruptedPayload ''Invalid transport consumer ack payload size.'')
     else Next txn (case min_acked of
         None \<Rightarrow> Some (decode_u64_be val)
       | Some m \<Rightarrow> Some (if decode_u64_be val < m then decode_u64_be val else m)))"

text \<open>The deletion of the record that the cursor stands on.\<close>

definition cursor_delete ::
  "'e lmdb_api \<Rightarrow> string \<Rightarrow> string \<Rightarrow> bytes \<Rightarrow> 'e \<Rightarrow> 'a \<Rightarrow> (store_failure, 'e, 'a) loop_step" where
  "cursor_delete api dbi message key txn acc =
    (let (rc, txn) = lm_cursor_del api txn dbi key
     in if rc \<noteq> 0 then Abort (lmdb_error api rc message) else Next txn acc)"

definition compact_record ::
  "'e lmdb_api \<Rightarrow> u64 \<Rightarrow> bytes \<Rightarrow> bytes \<Rightarrow> 'e \<Rightarrow> unit \<Rightarrow> (store_failure, 'e, unit) loop_step" where
  "compact_record api min_acked key val txn acc =
    (if length key \<noteq> 8 then Abort (store_error CorruptedPayload ''Invalid transport key size.'')
     else if decode_u64_be key > min_acked then Break txn acc
     else cursor_delete api kDbTransport ''mdb_cursor_del(compact_transport_records)'' key txn acc)"

definition compact_work :: "'e lmdb_api \<Rightarrow> 'e \<Rightarrow> (unit \<times> bool \<times> 'e) store_result option" where
  "compact_work api txn =
    (if lm_cursor_open api txn kDbTransportConsumers \<noteq> 0
     then Some (Inl (lmdb_error api (lm_cursor_open api txn kDbTransportConsumers)
            ''mdb_cursor_open(compact_transport_consumers)''))
     else let current = lm_cursor_get api txn kDbTransportConsumers First; rc = fst current
       in if rc = MDB_NOTFOUND then Some (Inr ((), False, txn))
          else if rc \<noteq> 0 then Some (Inl (lmdb_error api rc ''mdb_cursor_get(compact_transport_consumers)''))
          else case cursor_loop api kDbTransportConsumers min_ack_step current txn None of
            None \<Rightarrow> None
          | Some (Inl e) \<Rightarrow> Some (Inl e)
          | Some (Inr (rc, txn, min_acked)) \<Rightarrow>
              if rc \<noteq> MDB_NOTFOUND
              then Some (Inl (lmdb_error api rc ''mdb_cursor_get(compact_transport_consumers_next)''))
              else (case min_acked of
                  None \<Rightarrow> Some (Inr ((), False, txn))
                | Some m \<Rightarrow>
                    if m = 0 then Some (Inr ((), False, txn))
                    else map_option (\<lambda>result. sum_bind result (\<lambda>(txn, acc). Inr ((), True, txn)))
                      (walk api kDbTransport First ''mdb_cursor_open(compact_transport_records)''
                        ''mdb_cursor_get(compact_transport_records_next)'' (compact_record api m) txn ())))"

definition compact_transport_up_to_min_acked ::
  "'e lmdb_api \<Rightarrow> 'e lmdb_handle \<Rightarrow> (unit store_result \<times> 'e lmdb_handle) option" where
  "compact_transport_up_to_min_acked api s =
    (if \<not> is_open s then Some (Inl not_open, s)
     else in_write_txn_loop api ''mdb_txn_commit(compact_transport_up_to_min_acked)'' (compact_work api) s)"

subsection \<open>Removing snapshots\<close>

text \<open>A loop body that removes the records with a condition and counts them.\<close>

definition remove_where ::
  "'e lmdb_api \<Rightarrow> string \<Rightarrow> nat \<Rightarrow> string \<Rightarrow> string \<Rightarrow> (bytes \<Rightarrow> bool) \<Rightarrow> bytes \<Rightarrow> bytes \<Rightarrow> 'e \<Rightarrow> nat \<Rightarrow>
    (store_failure, 'e, nat) loop_step" where
  "remove_where api dbi key_size size_message del_message obsolete key val txn removed =
    (if length key \<noteq> key_size then Abort (store_error CorruptedPayload size_message)
     else if obsolete key then cursor_delete api dbi del_message key txn (removed + 1)
     else Next txn removed)"

definition delta_base :: "bytes \<Rightarrow> u64" where "delta_base key = decode_u64_be key"
definition delta_target :: "bytes \<Rightarrow> u64" where "delta_target key = decode_u64_be (drop 8 key)"

definition delete_snapshot_work :: "'e lmdb_api \<Rightarrow> u64 \<Rightarrow> 'e \<Rightarrow> (cleanup_stats \<times> bool \<times> 'e) store_result option" where
  "delete_snapshot_work api snapshot_id txn =
    (let (rc, txn) = lm_del api txn kDbSnapshots (encode_u64_be snapshot_id)
     in if rc = MDB_NOTFOUND then Some (Inl (store_error NotFound ''Snapshot not found.''))
        else if rc \<noteq> 0 then Some (Inl (lmdb_error api rc ''mdb_del(delete_snapshot:snapshot)''))
        else map_option (\<lambda>result. sum_bind result (\<lambda>(txn, deltas_removed).
            Inr (\<lparr>cs_snapshots_removed = 1, cs_deltas_removed = deltas_removed\<rparr>, True, txn)))
          (walk api kDbDeltas First ''mdb_cursor_open(delete_snapshot:deltas)'' ''mdb_cursor_get(delete_snapshot:deltas)''
            (remove_where api kDbDeltas 16 ''Invalid delta key size.'' ''mdb_cursor_del(delete_snapshot:delta)''
              (\<lambda>key. delta_base key = snapshot_id \<or> delta_target key = snapshot_id)) txn 0))"

definition delete_snapshot ::
  "'e lmdb_api \<Rightarrow> u64 \<Rightarrow> 'e lmdb_handle \<Rightarrow> (cleanup_stats store_result \<times> 'e lmdb_handle) option" where
  "delete_snapshot api snapshot_id s =
    (if \<not> is_open s then Some (Inl not_open, s)
     else if snapshot_id = 0
     then Some (Inl (store_error store_error_code.InvalidArgument ''Snapshot id must be non-zero.''), s)
     else in_write_txn_loop api ''mdb_txn_commit(delete_snapshot)'' (delete_snapshot_work api snapshot_id) s)"

record snapshot_retention_item =
  ri_snapshot_id :: u64
  ri_created_at :: i64

definition retention_item ::
  "bytes \<Rightarrow> bytes \<Rightarrow> 'e \<Rightarrow> snapshot_retention_item list \<Rightarrow> (store_failure, 'e, snapshot_retention_item list) loop_step" where
  "retention_item key val txn items =
    (if length key \<noteq> 8 then Abort (store_error CorruptedPayload ''Invalid snapshot key size.'')
     else case serialization_to_store_status ''deserialize_snapshot_binary(apply_snapshot_retention)''
         (deserialize_snapshot_binary val) of
       Inl e \<Rightarrow> Abort e
     | Inr (snapshot, rest) \<Rightarrow>
         Next txn (items @ [\<lparr>ri_snapshot_id = decode_u64_be key, ri_created_at = sn_created_at snapshot\<rparr>]))"

text \<open>
  The order of \<open>std::sort\<close>: later creation first, then the larger identifier.  The identifiers are keys of
  a database and so distinct; that the sort is not stable makes no difference.
\<close>

definition retention_key :: "snapshot_retention_item \<Rightarrow> int \<times> int" where
  "retention_key item = (- sint (ri_created_at item), - uint (ri_snapshot_id item))"

definition retained_ids :: "nat \<Rightarrow> snapshot_retention_item list \<Rightarrow> u64 set" where
  "retained_ids keep_latest_snapshots items =
    set (map ri_snapshot_id (take keep_latest_snapshots (sort_key retention_key items)))"

definition retention_work :: "'e lmdb_api \<Rightarrow> nat \<Rightarrow> 'e \<Rightarrow> (cleanup_stats \<times> bool \<times> 'e) store_result option" where
  "retention_work api keep_latest_snapshots txn =
    (case walk api kDbSnapshots First ''mdb_cursor_open(apply_snapshot_retention:snapshots)''
         ''mdb_cursor_get(apply_snapshot_retention:snapshots)'' retention_item txn [] of
       None \<Rightarrow> None
     | Some (Inl e) \<Rightarrow> Some (Inl e)
     | Some (Inr (txn, items)) \<Rightarrow>
         if length items \<le> keep_latest_snapshots
         then Some (Inr (\<lparr>cs_snapshots_removed = 0, cs_deltas_removed = 0\<rparr>, False, txn))
         else (let retained = retained_ids keep_latest_snapshots items
           in case walk api kDbSnapshots First ''mdb_cursor_open(apply_snapshot_retention:delete_snapshots)''
                ''mdb_cursor_get(apply_snapshot_retention:delete_snapshots)''
                (remove_where api kDbSnapshots 8 ''Invalid snapshot key size.''
                  ''mdb_cursor_del(apply_snapshot_retention:snapshot)'' (\<lambda>key. decode_u64_be key \<notin> retained)) txn 0 of
              None \<Rightarrow> None
            | Some (Inl e) \<Rightarrow> Some (Inl e)
            | Some (Inr (txn, snapshots_removed)) \<Rightarrow>
                map_option (\<lambda>result. sum_bind result (\<lambda>(txn, deltas_removed).
                    Inr (\<lparr>cs_snapshots_removed = snapshots_removed, cs_deltas_removed = deltas_removed\<rparr>, True, txn)))
                  (walk api kDbDeltas First ''mdb_cursor_open(apply_snapshot_retention:deltas)''
                    ''mdb_cursor_get(apply_snapshot_retention:deltas)''
                    (remove_where api kDbDeltas 16 ''Invalid delta key size.''
                      ''mdb_cursor_del(apply_snapshot_retention:delta)''
                      (\<lambda>key. \<not> (delta_base key \<in> retained \<and> delta_target key \<in> retained))) txn 0)))"

definition apply_snapshot_retention ::
  "'e lmdb_api \<Rightarrow> nat \<Rightarrow> 'e lmdb_handle \<Rightarrow> (cleanup_stats store_result \<times> 'e lmdb_handle) option" where
  "apply_snapshot_retention api keep_latest_snapshots s =
    (if \<not> is_open s then Some (Inl not_open, s)
     else in_write_txn_loop api ''mdb_txn_commit(apply_snapshot_retention)'' (retention_work api keep_latest_snapshots) s)"

definition stat_of :: "'e lmdb_api \<Rightarrow> 'e \<Rightarrow> string \<Rightarrow> string \<Rightarrow> nat store_result" where
  "stat_of api txn dbi message =
    (let (rc, entries) = lm_stat api txn dbi in if rc \<noteq> 0 then Inl (lmdb_error api rc message) else Inr entries)"

definition get_stats :: "'e lmdb_api \<Rightarrow> 'e lmdb_handle \<Rightarrow> store_stats store_result" where
  "get_stats api s =
    (if \<not> is_open s then Inl not_open
     else sum_bind (store_begin_txn api s) (\<lambda>txn.
       sum_bind (stat_of api txn kDbSnapshots ''mdb_stat(snapshots)'') (\<lambda>snapshots.
       sum_bind (stat_of api txn kDbDeltas ''mdb_stat(deltas)'') (\<lambda>deltas.
       sum_bind (stat_of api txn kDbTransport ''mdb_stat(transport_outbox)'') (\<lambda>outbox.
       sum_bind (stat_of api txn kDbTransportConsumers ''mdb_stat(transport_consumers)'') (\<lambda>consumers.
       sum_bind (case read_next_sequence api txn of
           Inl e \<Rightarrow> if sf_code e \<noteq> NotFound then Inl e else Inr 1
         | Inr next_sequence \<Rightarrow> Inr next_sequence) (\<lambda>next_sequence.
       Inr \<lparr>ss_snapshots_count = snapshots, ss_deltas_count = deltas, ss_transport_outbox_count = outbox,
         ss_transport_consumers_count = consumers, ss_next_transport_sequence = next_sequence\<rparr>)))))))"

end
