(* ===== verification/StoreContents.thy ===== *)
theory StoreContents imports LmdbStore begin

text \<open>
  What the operations of Muninn's store do to the contents of its databases, with the laws of LMDB: the
  abstract view of the contents, one lemma per step of a transaction, and a rule for whole operations: an
  operation that reports an error has changed nothing, and one that succeeds did what its specification
  says.
\<close>

subsection \<open>The view of the contents\<close>

definition next_sequence :: "contents \<Rightarrow> u64" where
  "next_sequence m = (case m kDbMeta (string_bytes kKeyNextSequence) of None \<Rightarrow> 1 | Some val \<Rightarrow> decode_u64_be val)"

definition acked :: "contents \<Rightarrow> string \<Rightarrow> u64 option" where
  "acked m consumer_id = map_option decode_u64_be (m kDbTransportConsumers (string_bytes consumer_id))"

definition outbox :: "contents \<Rightarrow> u64 \<Rightarrow> bytes option" where
  "outbox m sequence = m kDbTransport (encode_u64_be sequence)"

definition put_record :: "string \<Rightarrow> bytes \<Rightarrow> bytes \<Rightarrow> contents \<Rightarrow> contents" where
  "put_record dbi key val m = m(dbi := (m dbi)(key \<mapsto> val))"

text \<open>The contents after a frame was enqueued.\<close>

definition enqueued :: "bytes \<Rightarrow> contents \<Rightarrow> contents" where
  "enqueued frame m = put_record kDbTransport (encode_u64_be (next_sequence m)) frame
    (put_record kDbMeta (string_bytes kKeyNextSequence) (encode_u64_be (next_sequence m + 1)) m)"

lemma db_names [simp]:
  "kDbMeta \<noteq> kDbSnapshots" "kDbMeta \<noteq> kDbDeltas" "kDbMeta \<noteq> kDbTransport" "kDbMeta \<noteq> kDbTransportConsumers"
  "kDbSnapshots \<noteq> kDbMeta" "kDbSnapshots \<noteq> kDbDeltas" "kDbSnapshots \<noteq> kDbTransport" "kDbSnapshots \<noteq> kDbTransportConsumers"
  "kDbDeltas \<noteq> kDbMeta" "kDbDeltas \<noteq> kDbSnapshots" "kDbDeltas \<noteq> kDbTransport" "kDbDeltas \<noteq> kDbTransportConsumers"
  "kDbTransport \<noteq> kDbMeta" "kDbTransport \<noteq> kDbSnapshots" "kDbTransport \<noteq> kDbDeltas" "kDbTransport \<noteq> kDbTransportConsumers"
  "kDbTransportConsumers \<noteq> kDbMeta" "kDbTransportConsumers \<noteq> kDbSnapshots" "kDbTransportConsumers \<noteq> kDbDeltas"
  "kDbTransportConsumers \<noteq> kDbTransport"
  by (simp_all add: kDbMeta_def kDbSnapshots_def kDbDeltas_def kDbTransport_def kDbTransportConsumers_def)

lemma put_record_apply: "put_record dbi key val m db = (if db = dbi then (m dbi)(key \<mapsto> val) else m db)"
  by (simp add: put_record_def)

lemma put_record_view [simp]:
  "dbi \<noteq> kDbMeta \<Longrightarrow> next_sequence (put_record dbi key val m) = next_sequence m"
  "dbi \<noteq> kDbTransportConsumers \<Longrightarrow> acked (put_record dbi key val m) = acked m"
  "dbi \<noteq> kDbTransport \<Longrightarrow> outbox (put_record dbi key val m) = outbox m"
  by (simp_all add: next_sequence_def acked_def outbox_def put_record_def fun_eq_iff)

lemma decode_encode [simp]: "decode_u64_be (encode_u64_be v) = v"
  using decode_encode_u64_be [of v "[]"] by simp

lemma encode_decode: "length raw = 8 \<Longrightarrow> encode_u64_be (decode_u64_be raw) = raw"
proof -
  assume len: "length raw = 8"
  have "read_u64_be raw 0 = Some (decode_u64_be raw, 8)" using read_u64_decode [of 0 raw] len by simp
  from u64f.get_step [OF this] len show ?thesis by (simp add: encode_u64_be_put)
qed

lemma enqueued_view [simp]:
  "next_sequence (enqueued frame m) = next_sequence m + 1"
  "acked (enqueued frame m) = acked m"
  "outbox (enqueued frame m) = (outbox m)(next_sequence m \<mapsto> frame)"
  by (simp_all add: enqueued_def next_sequence_def put_record_apply acked_def outbox_def fun_eq_iff)

lemma enqueued_apply:
  "enqueued frame m kDbSnapshots = m kDbSnapshots" "enqueued frame m kDbDeltas = m kDbDeltas"
  "enqueued frame m kDbTransportConsumers = m kDbTransportConsumers"
  by (simp_all add: enqueued_def put_record_apply)

subsection \<open>Steps within a transaction\<close>

lemma store_begin_txn_Inr:
  assumes "lmdb_laws api contents" "store_begin_txn api s = Inr txn"
  shows "contents txn = store_contents contents s" "\<exists>e. lh_env s = Some e"
  using assms(2) lm_begin_ok [OF assms(1)]
  by (auto simp: store_begin_txn_def is_open_def store_contents_def split: if_splits prod.splits)

lemma store_put_blob_Inr:
  assumes "lmdb_laws api contents" "store_put_blob api dbi txn key val = Inr txn'"
  shows "contents txn' = put_record dbi key val (contents txn)"
  using assms(2) lm_put_ok [OF assms(1)] by (auto simp: store_put_blob_def put_record_def split: if_splits prod.splits)

lemma store_put_blob_size:
  assumes "lmdb_laws api contents" "store_put_blob api dbi txn key val = Inr txn'"
  shows "length val < 4294967296"
  using assms(2) lm_put_ok [OF assms(1)] by (auto simp: store_put_blob_def split: if_splits prod.splits)

lemma store_get_blob_Inr:
  assumes "lmdb_laws api contents" "store_get_blob api dbi txn key = Inr val"
  shows "contents txn dbi key = Some val"
  using assms(2) lm_get_ok [OF assms(1)] by (auto simp: store_get_blob_def split: if_splits prod.splits)

lemma lmdb_error_code [simp]: "sf_code (lmdb_error api rc message) = LmdbError"
  by (simp add: lmdb_error_def)

lemma store_error_code [simp]: "sf_code (store_error code message) = code"
  by (simp add: store_error_def)

lemma read_next_sequence_result:
  assumes "lmdb_laws api contents"
  shows "read_next_sequence api txn = Inr n \<Longrightarrow> n = next_sequence (contents txn) \<and>
      contents txn kDbMeta (string_bytes kKeyNextSequence) = Some (encode_u64_be n)"
    "read_next_sequence api txn = Inl e \<Longrightarrow> sf_code e = NotFound \<Longrightarrow>
      contents txn kDbMeta (string_bytes kKeyNextSequence) = None \<and> next_sequence (contents txn) = 1"
proof -
  obtain rc val where g: "lm_get api txn kDbMeta (string_bytes kKeyNextSequence) = (rc, val)" by fastforce
  show "read_next_sequence api txn = Inr n \<Longrightarrow> n = next_sequence (contents txn) \<and>
      contents txn kDbMeta (string_bytes kKeyNextSequence) = Some (encode_u64_be n)"
    using g lm_get_ok [OF assms, of txn kDbMeta "string_bytes kKeyNextSequence" val] encode_decode [of val]
    by (auto simp: read_next_sequence_def next_sequence_def split: if_splits)
  show "read_next_sequence api txn = Inl e \<Longrightarrow> sf_code e = NotFound \<Longrightarrow>
      contents txn kDbMeta (string_bytes kKeyNextSequence) = None \<and> next_sequence (contents txn) = 1"
    using g lm_get_notfound [OF assms, of txn kDbMeta "string_bytes kKeyNextSequence" val]
    by (auto simp: read_next_sequence_def next_sequence_def split: if_splits)
qed

lemma reserve_next_sequence_Inr:
  assumes laws: "lmdb_laws api contents" and run: "reserve_next_sequence api txn = Inr (q, txn')"
  shows "q = next_sequence (contents txn)"
    "contents txn' = put_record kDbMeta (string_bytes kKeyNextSequence) (encode_u64_be (q + 1)) (contents txn)"
proof -
  have "q = next_sequence (contents txn) \<and> write_next_sequence api txn (q + 1) = Inr txn'"
  proof (cases "read_next_sequence api txn")
    case (Inl e)
    then show ?thesis using run read_next_sequence_result(2) [OF laws Inl]
      by (auto simp: reserve_next_sequence_def sum_bind_eq_Inr split: if_splits)
  next
    case (Inr n)
    then show ?thesis using run read_next_sequence_result(1) [OF laws Inr]
      by (auto simp: reserve_next_sequence_def sum_bind_eq_Inr)
  qed
  then show "q = next_sequence (contents txn)"
    "contents txn' = put_record kDbMeta (string_bytes kKeyNextSequence) (encode_u64_be (q + 1)) (contents txn)"
    using store_put_blob_Inr [OF laws] unfolding write_next_sequence_def by blast+
qed

text \<open>A frame that was stored has lengths that fit their fields.\<close>

definition frame_fits :: "string \<Rightarrow> bytes \<Rightarrow> bool" where
  "frame_fits route payload \<longleftrightarrow> fits_u32 route \<and> fits_u32 payload"

lemma length_serialize_frame: "length (serialize_frame type route payload created_at) = 17 + length route + length payload"
  by (simp add: serialize_frame_layout frame_layout_def put_string_def codec_width)

lemma enqueue_in_txn_Inr:
  assumes laws: "lmdb_laws api contents"
    and run: "enqueue_transport_record_in_txn api txn type route payload created_at = Inr (q, txn')"
  shows "q = next_sequence (contents txn) \<and>
    contents txn' = enqueued (serialize_frame type route payload created_at) (contents txn) \<and> frame_fits route payload"
proof -
  obtain t where t: "reserve_next_sequence api txn = Inr (q, t)"
    "store_put_blob api kDbTransport t (encode_u64_be q) (serialize_frame type route payload created_at) = Inr txn'"
    using run by (auto simp: enqueue_transport_record_in_txn_def sum_bind_eq_Inr)
  show ?thesis
    using reserve_next_sequence_Inr [OF laws t(1)] store_put_blob_Inr [OF laws t(2)] store_put_blob_size [OF laws t(2)]
    by (simp add: enqueued_def frame_fits_def fits_u32_def length_serialize_frame)
qed

lemma read_consumer_ack_result:
  assumes "lmdb_laws api contents"
  shows "read_consumer_ack_sequence api txn c = Inr n \<Longrightarrow> acked (contents txn) c = Some n"
    "read_consumer_ack_sequence api txn c = Inl e \<Longrightarrow> sf_code e = NotFound \<Longrightarrow> acked (contents txn) c = None"
proof -
  obtain rc val where g: "lm_get api txn kDbTransportConsumers (string_bytes c) = (rc, val)" by fastforce
  show "read_consumer_ack_sequence api txn c = Inr n \<Longrightarrow> acked (contents txn) c = Some n"
    using g lm_get_ok [OF assms, of txn kDbTransportConsumers "string_bytes c" val]
    by (auto simp: read_consumer_ack_sequence_def acked_def split: if_splits)
  show "read_consumer_ack_sequence api txn c = Inl e \<Longrightarrow> sf_code e = NotFound \<Longrightarrow> acked (contents txn) c = None"
    using g lm_get_notfound [OF assms, of txn kDbTransportConsumers "string_bytes c" val]
    by (auto simp: read_consumer_ack_sequence_def acked_def consumer_id_empty_def split: if_splits)
qed

lemma write_consumer_ack_Inr:
  assumes "lmdb_laws api contents" "write_consumer_ack_sequence api txn c q = Inr txn'"
  shows "contents txn' = put_record kDbTransportConsumers (string_bytes c) (encode_u64_be q) (contents txn)"
  using assms(2) store_put_blob_Inr [OF assms(1)] by (auto simp: write_consumer_ack_sequence_def split: if_splits)

subsection \<open>Whole operations\<close>

text \<open>Nothing on an error, and the specification on a success.\<close>

definition store_effect ::
  "('e \<Rightarrow> contents) \<Rightarrow> 'e lmdb_handle \<Rightarrow> 'a store_result \<times> 'e lmdb_handle \<Rightarrow> (contents \<Rightarrow> 'a \<Rightarrow> contents \<Rightarrow> bool) \<Rightarrow> bool" where
  "store_effect contents s outcome spec =
    (case fst outcome of
       Inl e \<Rightarrow> store_contents contents (snd outcome) = store_contents contents s
     | Inr a \<Rightarrow> spec (store_contents contents s) a (store_contents contents (snd outcome)))"

lemma store_effect_refused [simp]: "store_effect contents s (Inl e, s) spec"
  by (simp add: store_effect_def)

lemma finish_txn_effect:
  assumes laws: "lmdb_laws api contents" and env: "lh_env s = Some e"
    and work: "\<And>a b t. result = Inr (a, b, t) \<Longrightarrow>
      spec (store_contents contents s) a (if b then contents t else store_contents contents s)"
  shows "store_effect contents s (finish_txn api message s result) spec"
proof (cases result)
  case (Inl x)
  then show ?thesis by (simp add: finish_txn_def store_effect_def)
next
  case (Inr r)
  then obtain a b t where r: "result = Inr (a, b, t)" by (cases r) auto
  obtain rc e' where c: "lm_commit api e t = (rc, e')" by fastforce
  show ?thesis
    using work [OF r] r c env lm_commit_ok [OF laws, of e t e'] lm_commit_failed [OF laws c]
    by (cases b) (auto simp: finish_txn_def store_effect_def store_contents_def)
qed

lemma in_write_txn_effect:
  assumes laws: "lmdb_laws api contents"
    and work: "\<And>t a b t'. contents t = store_contents contents s \<Longrightarrow> work t = Inr (a, b, t') \<Longrightarrow>
      spec (contents t) a (if b then contents t' else contents t)"
  shows "store_effect contents s (in_write_txn api message work s) spec"
proof (cases "store_begin_txn api s")
  case (Inl e)
  then show ?thesis by (simp add: in_write_txn_def finish_txn_def)
next
  case (Inr t)
  note t = store_begin_txn_Inr [OF laws Inr]
  then obtain e where e: "lh_env s = Some e" by blast
  show ?thesis unfolding in_write_txn_def
  proof (rule finish_txn_effect [OF laws e])
    fix a b t' assume "sum_bind (store_begin_txn api s) work = Inr (a, b, t')"
    then show "spec (store_contents contents s) a (if b then contents t' else store_contents contents s)"
      using work [of t a b t'] t(1) Inr by (cases b) auto
  qed
qed

lemma in_write_txn_loop_effect:
  assumes laws: "lmdb_laws api contents"
    and work: "\<And>t. contents t = store_contents contents s \<Longrightarrow> \<exists>result. work t = Some result \<and>
      (\<forall>a b t'. result = Inr (a, b, t') \<longrightarrow> spec (contents t) a (if b then contents t' else contents t))"
  shows "\<exists>outcome. in_write_txn_loop api message work s = Some outcome \<and> store_effect contents s outcome spec"
proof (cases "store_begin_txn api s")
  case (Inl e)
  then show ?thesis by (simp add: in_write_txn_loop_def)
next
  case (Inr t)
  note t = store_begin_txn_Inr [OF laws Inr]
  then obtain e where e: "lh_env s = Some e" by blast
  from work [OF t(1)] obtain result where r: "work t = Some result"
    "\<And>a b t'. result = Inr (a, b, t') \<Longrightarrow> spec (contents t) a (if b then contents t' else contents t)" by blast
  have "store_effect contents s (finish_txn api message s result) spec"
    by (rule finish_txn_effect [OF laws e]) (use r(2) t(1) in auto)
  then show ?thesis using Inr r(1) by (simp add: in_write_txn_loop_def)
qed

subsection \<open>The effect of each writing operation\<close>

lemma put_snapshot_effect:
  assumes laws: "lmdb_laws api contents"
  shows "store_effect contents s (put_snapshot api now sn validate s) (\<lambda>m a m'.
    \<exists>payload. prepare_snapshot now validate sn = Inr payload \<and>
      m' = put_record kDbSnapshots (encode_u64_be (sn_snapshot_id sn)) payload m)"
proof (cases "is_open s \<and> (\<exists>payload. prepare_snapshot now validate sn = Inr payload)")
  case True
  then obtain payload where p: "prepare_snapshot now validate sn = Inr payload" by blast
  then show ?thesis using True unfolding put_snapshot_def p sum.case
    by (simp, intro in_write_txn_effect [OF laws]) (auto simp: sum_bind_eq_Inr dest: store_put_blob_Inr [OF laws])
next
  case False
  then show ?thesis by (auto simp: put_snapshot_def split: sum.splits)
qed

lemma put_snapshot_with_transport_effect:
  assumes laws: "lmdb_laws api contents"
  shows "store_effect contents s (put_snapshot_with_transport api now created_at sn enqueue validate s) (\<lambda>m a m'.
    \<exists>payload. prepare_snapshot now validate sn = Inr payload \<and>
      (let m1 = put_record kDbSnapshots (encode_u64_be (sn_snapshot_id sn)) payload m
       in if enqueue
          then a = Some (next_sequence m) \<and> frame_fits (sn_host_identifier sn) payload \<and>
            m' = enqueued (serialize_frame Transport_Snapshot (sn_host_identifier sn) payload created_at) m1
          else a = None \<and> m' = m1))"
proof (cases "is_open s \<and> (\<exists>payload. prepare_snapshot now validate sn = Inr payload)")
  case True
  then obtain payload where p: "prepare_snapshot now validate sn = Inr payload" by blast
  then show ?thesis using True unfolding put_snapshot_with_transport_def p sum.case
    by (simp, intro in_write_txn_effect [OF laws])
      (auto simp: sum_bind_eq_Inr split: if_splits dest!: store_put_blob_Inr [OF laws] enqueue_in_txn_Inr [OF laws])
next
  case False
  then show ?thesis by (auto simp: put_snapshot_with_transport_def split: sum.splits)
qed

lemma put_delta_effect:
  assumes laws: "lmdb_laws api contents"
  shows "store_effect contents s (put_delta api d b t validate s) (\<lambda>m a m'.
    \<exists>payload. prepare_delta validate d b t = Inr payload \<and>
      m' = put_record kDbDeltas (make_delta_key (dl_base_snapshot_id d) (dl_target_snapshot_id d)) payload m)"
proof (cases "is_open s \<and> (\<exists>payload. prepare_delta validate d b t = Inr payload)")
  case True
  then obtain payload where p: "prepare_delta validate d b t = Inr payload" by blast
  then show ?thesis using True unfolding put_delta_def p sum.case
    by (simp, intro in_write_txn_effect [OF laws]) (auto simp: sum_bind_eq_Inr dest: store_put_blob_Inr [OF laws])
next
  case False
  then show ?thesis by (auto simp: put_delta_def split: sum.splits)
qed

lemma put_both_effect:
  assumes laws: "lmdb_laws api contents"
  shows "store_effect contents s
    (put_snapshot_and_delta_with_transport api now created_at created_at' sn d base enqueue validate s) (\<lambda>m a m'.
    \<exists>payload payload'. prepare_both now validate sn d base = Inr (payload, payload') \<and>
      (let m1 = put_record kDbDeltas (make_delta_key (dl_base_snapshot_id d) (dl_target_snapshot_id d)) payload'
             (put_record kDbSnapshots (encode_u64_be (sn_snapshot_id sn)) payload m)
       in if enqueue
          then a = Some (next_sequence m, next_sequence m + 1) \<and>
            frame_fits (sn_host_identifier sn) payload \<and> frame_fits (delta_route d) payload' \<and>
            m' = enqueued (serialize_frame Transport_Delta (delta_route d) payload' created_at')
              (enqueued (serialize_frame Transport_Snapshot (sn_host_identifier sn) payload created_at) m1)
          else a = None \<and> m' = m1))"
proof (cases "is_open s \<and> (\<exists>payloads. prepare_both now validate sn d base = Inr payloads)")
  case True
  then obtain payload payload' where p: "prepare_both now validate sn d base = Inr (payload, payload')" by auto
  then show ?thesis using True unfolding put_snapshot_and_delta_with_transport_def p sum.case
    by (simp, intro in_write_txn_effect [OF laws])
      (auto simp: sum_bind_eq_Inr split: if_splits dest!: store_put_blob_Inr [OF laws] enqueue_in_txn_Inr [OF laws])
next
  case False
  then show ?thesis by (auto simp: put_snapshot_and_delta_with_transport_def split: sum.splits)
qed

lemma enqueue_record_effect:
  assumes laws: "lmdb_laws api contents"
  shows "store_effect contents s (enqueue_transport_record api type route payload created_at s) (\<lambda>m a m'.
    a = next_sequence m \<and> frame_fits route payload \<and> m' = enqueued (serialize_frame type route payload created_at) m)"
proof (cases "is_open s")
  case True
  then show ?thesis unfolding enqueue_transport_record_def
    by (simp, intro in_write_txn_effect [OF laws]) (auto simp: sum_bind_eq_Inr dest!: enqueue_in_txn_Inr [OF laws])
next
  case False
  then show ?thesis by (simp add: enqueue_transport_record_def)
qed

lemma register_effect:
  assumes laws: "lmdb_laws api contents"
  shows "store_effect contents s (register_transport_consumer api c s) (\<lambda>m a m'.
    c \<noteq> [] \<and> (if acked m c = None
      then m' = put_record kDbTransportConsumers (string_bytes c) (encode_u64_be 0) m else m' = m))"
proof (cases "is_open s \<and> c \<noteq> []")
  case True
  then show ?thesis unfolding register_transport_consumer_def
    by (simp, intro in_write_txn_effect [OF laws])
      (auto simp: sum_bind_eq_Inr split: sum.splits if_splits dest!: write_consumer_ack_Inr [OF laws]
        dest: read_consumer_ack_result [OF laws])
next
  case False
  then show ?thesis by (auto simp: register_transport_consumer_def)
qed

lemma ack_effect:
  assumes laws: "lmdb_laws api contents"
  shows "store_effect contents s (ack_transport_until_for_consumer api c q s) (\<lambda>m a m'.
    c \<noteq> [] \<and> (let updated = max (case acked m c of None \<Rightarrow> 0 | Some n \<Rightarrow> n) q
      in if acked m c = Some updated then m' = m
         else m' = put_record kDbTransportConsumers (string_bytes c) (encode_u64_be updated) m))"
proof (cases "is_open s \<and> c \<noteq> []")
  case True
  then show ?thesis unfolding ack_transport_until_for_consumer_def
    by (simp, intro in_write_txn_effect [OF laws])
      (auto simp: sum_bind_eq_Inr Let_def split: sum.splits if_splits dest!: write_consumer_ack_Inr [OF laws]
        dest: read_consumer_ack_result [OF laws])
next
  case False
  then show ?thesis by (auto simp: ack_transport_until_for_consumer_def)
qed

subsection \<open>Loops\<close>

text \<open>A loop without a break runs over all records when it succeeds.\<close>

definition steady :: "(bytes \<Rightarrow> bytes \<Rightarrow> 'e \<Rightarrow> 'a \<Rightarrow> ('x, 'e, 'a) loop_step) \<Rightarrow> bool" where
  "steady body \<longleftrightarrow> (\<forall>key val txn acc txn' acc'. body key val txn acc \<noteq> Break txn' acc')"

lemma run_records_steady:
  "steady body \<Longrightarrow> run_records body kvs rc txn acc = Inr (rc', txn', acc') \<Longrightarrow> rc' = rc"
  by (induction kvs arbitrary: txn acc) (auto simp: steady_def split: loop_step.splits)

lemma walk_run:
  assumes laws: "lmdb_laws api contents" and fwd: "forward contents dbi body"
  shows "\<exists>result. walk api dbi start m1 m2 body txn acc = Some result \<and>
    (\<forall>txn' acc'. result = Inr (txn', acc') \<longrightarrow> (\<exists>kvs rest rc rc'.
      records_of (contents txn dbi) start = kvs @ rest \<and> (rc = MDB_NOTFOUND \<longrightarrow> rest = []) \<and> rc \<noteq> 0 \<and>
      run_records body kvs rc txn acc = Inr (rc', txn', acc') \<and> (rc' = 0 \<or> rc' = MDB_NOTFOUND)))"
proof (cases "lm_cursor_open api txn dbi = 0")
  case False
  then show ?thesis by (simp add: walk_def)
next
  case True
  obtain kvs rest rc where l: "records_of (contents txn dbi) start = kvs @ rest" "rc \<noteq> 0"
    "rc = MDB_NOTFOUND \<Longrightarrow> rest = []"
    "cursor_loop api dbi body (lm_cursor_get api txn dbi start) txn acc = Some (run_records body kvs rc txn acc)"
    using cursor_loop_cases [OF laws fwd, of txn start acc] by blast
  show ?thesis
  proof (cases "run_records body kvs rc txn acc")
    case (Inl e)
    then show ?thesis using True l(4) by (simp add: walk_def)
  next
    case (Inr r)
    then obtain rc' txn' acc' where r: "run_records body kvs rc txn acc = Inr (rc', txn', acc')" by (cases r) auto
    then have w: "walk api dbi start m1 m2 body txn acc =
        Some (if rc' \<noteq> 0 \<and> rc' \<noteq> MDB_NOTFOUND then Inl (lmdb_error api rc' m2) else Inr (txn', acc'))"
      using True l(4) by (simp add: walk_def)
    show ?thesis
    proof (cases "rc' \<noteq> 0 \<and> rc' \<noteq> MDB_NOTFOUND")
      case True
      then show ?thesis using w by simp
    next
      case False
      then show ?thesis using w l(1-3) r
        by (intro exI [of _ "Inr (txn', acc')"] conjI allI impI exI [of _ kvs] exI [of _ rest] exI [of _ rc] exI [of _ rc']) auto
    qed
  qed
qed

lemma walk_all:
  assumes laws: "lmdb_laws api contents" and fwd: "forward contents dbi body" and "steady body"
  shows "\<exists>result. walk api dbi start m1 m2 body txn acc = Some result \<and>
    (\<forall>txn' acc'. result = Inr (txn', acc') \<longrightarrow>
      run_records body (records_of (contents txn dbi) start) MDB_NOTFOUND txn acc = Inr (MDB_NOTFOUND, txn', acc'))"
proof -
  obtain result where w: "walk api dbi start m1 m2 body txn acc = Some result"
    "\<And>txn' acc'. result = Inr (txn', acc') \<Longrightarrow> \<exists>kvs rest rc rc'.
      records_of (contents txn dbi) start = kvs @ rest \<and> (rc = MDB_NOTFOUND \<longrightarrow> rest = []) \<and> rc \<noteq> 0 \<and>
      run_records body kvs rc txn acc = Inr (rc', txn', acc') \<and> (rc' = 0 \<or> rc' = MDB_NOTFOUND)"
    using walk_run [OF laws fwd, of start m1 m2 txn acc] by blast
  have "run_records body (records_of (contents txn dbi) start) MDB_NOTFOUND txn acc = Inr (MDB_NOTFOUND, txn', acc')"
    if r: "result = Inr (txn', acc')" for txn' acc'
  proof -
    obtain kvs rest rc rc' where l: "records_of (contents txn dbi) start = kvs @ rest" "rc = MDB_NOTFOUND \<longrightarrow> rest = []"
      "rc \<noteq> 0" "run_records body kvs rc txn acc = Inr (rc', txn', acc')" "rc' = 0 \<or> rc' = MDB_NOTFOUND"
      using w(2) [OF r] by blast
    then have "rc' = rc" using run_records_steady [OF assms(3)] by blast
    then show ?thesis using l by auto
  qed
  then show ?thesis using w(1) by blast
qed

lemma cursor_delete_Next:
  assumes "lmdb_laws api contents" "cursor_delete api dbi message key txn acc = Next txn' acc'"
  shows "contents txn' = (contents txn)(dbi := (contents txn dbi)(key := None)) \<and> acc' = acc"
  using assms(2) lm_cursor_del_ok [OF assms(1)] by (auto simp: cursor_delete_def split: if_splits prod.splits)

lemma cursor_delete_not_Break [simp]: "cursor_delete api dbi message key txn acc \<noteq> Break txn' acc'"
  by (auto simp: cursor_delete_def split: prod.split)

lemma remove_where_facts:
  assumes "lmdb_laws api contents"
  shows "forward contents dbi (remove_where api dbi n m1 m2 obsolete)" "steady (remove_where api dbi n m1 m2 obsolete)"
  by (auto simp: forward_def steady_def remove_where_def split: if_splits dest!: cursor_delete_Next [OF assms])

text \<open>The records with a condition removed.\<close>

definition without :: "string \<Rightarrow> (bytes \<Rightarrow> bool) \<Rightarrow> contents \<Rightarrow> contents" where
  "without dbi gone m = m(dbi := (\<lambda>k. if gone k then None else m dbi k))"

lemma run_remove_where:
  assumes laws: "lmdb_laws api contents"
  shows "run_records (remove_where api dbi n m1 m2 obsolete) kvs rc txn removed = Inr (rc', txn', removed') \<Longrightarrow>
    contents txn' = without dbi (\<lambda>k. k \<in> fst ` set kvs \<and> obsolete k) (contents txn) \<and>
    removed' = removed + length (filter obsolete (map fst kvs)) \<and> list_all (\<lambda>(k, v). length k = n) kvs"
proof (induction kvs arbitrary: txn removed)
  case Nil
  then show ?case by (simp add: without_def)
next
  case (Cons kv kvs)
  obtain k v where kv: "kv = (k, v)" by (cases kv)
  obtain t1 r1 where step: "remove_where api dbi n m1 m2 obsolete k v txn removed = Next t1 r1"
    using Cons.prems remove_where_facts(2) [OF laws, of dbi n m1 m2 obsolete] unfolding kv steady_def
    by (auto split: loop_step.splits)
  then have "run_records (remove_where api dbi n m1 m2 obsolete) kvs rc t1 r1 = Inr (rc', txn', removed')"
    using Cons.prems kv by simp
  note IH = Cons.IH [OF this]
  have one: "length k = n" "contents t1 = (if obsolete k
      then (contents txn)(dbi := (contents txn dbi)(k := None)) else contents txn)" "r1 = (if obsolete k then removed + 1 else removed)"
    using step cursor_delete_Next [OF laws, of dbi m2 k txn "removed + 1" t1 r1]
    by (auto simp: remove_where_def split: if_splits)
  show ?case using IH one by (auto simp: kv without_def fun_eq_iff)
qed

lemma length_filter_records:
  assumes "finite (dom m)"
  shows "length (filter p (map fst (records_of m First))) = card {k. m k \<noteq> None \<and> p k}"
proof -
  have keys: "map fst (records_of m First) = sorted_list_of_set (keys_at m First)"
    by (simp add: records_of_def comp_def)
  have fin: "finite (keys_at m First)" by (rule finite_keys_at [OF assms])
  have "distinct (filter p (map fst (records_of m First)))" unfolding keys by simp
  then have "length (filter p (map fst (records_of m First))) = card (set (filter p (map fst (records_of m First))))"
    by (rule distinct_card [symmetric])
  also have "set (filter p (map fst (records_of m First))) = {k. m k \<noteq> None \<and> p k}"
    unfolding keys using fin by (auto simp: keys_at_def)
  finally show ?thesis .
qed

text \<open>A removing walk: the obsolete records are gone, the count is theirs, and every key had its size.\<close>

lemma walk_remove:
  assumes laws: "lmdb_laws api contents"
  shows "\<exists>result. walk api dbi First m1 m2 (remove_where api dbi n m3 m4 obsolete) txn 0 = Some result \<and>
    (\<forall>txn' removed. result = Inr (txn', removed) \<longrightarrow>
      contents txn' = without dbi obsolete (contents txn) \<and>
      removed = card {k. contents txn dbi k \<noteq> None \<and> obsolete k} \<and>
      (\<forall>k. contents txn dbi k \<noteq> None \<longrightarrow> length k = n))"
proof -
  let ?m = "contents txn dbi"
  have fin: "finite (dom ?m)" by (rule finite_contents [OF laws])
  obtain result where w: "walk api dbi First m1 m2 (remove_where api dbi n m3 m4 obsolete) txn 0 = Some result"
    "\<And>txn' removed. result = Inr (txn', removed) \<Longrightarrow>
      run_records (remove_where api dbi n m3 m4 obsolete) (records_of ?m First) MDB_NOTFOUND txn 0 = Inr (MDB_NOTFOUND, txn', removed)"
    using walk_all [OF laws remove_where_facts [OF laws], of dbi First m1 m2 n m3 m4 obsolete txn 0] by blast
  have "contents txn' = without dbi obsolete (contents txn) \<and> removed = card {k. ?m k \<noteq> None \<and> obsolete k} \<and>
      (\<forall>k. ?m k \<noteq> None \<longrightarrow> length k = n)" if r: "result = Inr (txn', removed)" for txn' removed
  proof -
    note run = run_remove_where [OF laws w(2) [OF r]]
    have keys: "fst ` set (records_of ?m First) = {k. ?m k \<noteq> None}"
      using set_records_of [OF fin, of First] by (force simp: image_iff)
    have "contents txn' = without dbi obsolete (contents txn)"
      using run unfolding keys by (auto simp: without_def fun_eq_iff)
    moreover have "length k = n" if "?m k \<noteq> None" for k
      using run that set_records_of [OF fin, of First] by (auto simp: list_all_iff)
    ultimately show ?thesis using run length_filter_records [OF fin] by simp
  qed
  then show ?thesis using w(1) by blast
qed

end
