(* ===== verification/StoreMaintenance.thy ===== *)
theory StoreMaintenance imports StoreContents begin

text \<open>
  The operations of Muninn's store that walk over a database: reading a batch of the outbox, compaction,
  deletion of a snapshot and retention.  Each returns, and what it returns and leaves is described.
\<close>

subsection \<open>Deleting a snapshot\<close>

definition about_snapshot :: "u64 \<Rightarrow> bytes \<Rightarrow> bool" where
  "about_snapshot i key \<longleftrightarrow> delta_base key = i \<or> delta_target key = i"

lemma without_apply: "without dbi gone m db k = (if db = dbi \<and> gone k then None else m db k)"
  by (simp add: without_def)

lemma without_other: "db \<noteq> dbi \<Longrightarrow> without dbi gone m db = m db"
  by (simp add: without_def)

lemma without_cong: "(\<And>k. m dbi k \<noteq> None \<Longrightarrow> gone k = gone' k) \<Longrightarrow> without dbi gone m = without dbi gone' m"
  unfolding without_def by (intro arg_cong [of _ _ "\<lambda>f. m(dbi := f)"] ext) (metis (full_types))

lemma delete_snapshot_effect:
  assumes laws: "lmdb_laws api contents"
  shows "\<exists>outcome. delete_snapshot api i s = Some outcome \<and> store_effect contents s outcome (\<lambda>m stats m'.
    i \<noteq> 0 \<and> m kDbSnapshots (encode_u64_be i) \<noteq> None \<and>
    m' = without kDbDeltas (about_snapshot i) (without kDbSnapshots (\<lambda>k. k = encode_u64_be i) m) \<and>
    stats = \<lparr>cs_snapshots_removed = 1, cs_deltas_removed = card {k. m kDbDeltas k \<noteq> None \<and> about_snapshot i k}\<rparr>)"
proof (cases "is_open s \<and> i \<noteq> 0")
  case False
  then show ?thesis by (auto simp: delete_snapshot_def)
next
  case True
  have "\<exists>result. delete_snapshot_work api i t = Some result \<and> (\<forall>a b t'. result = Inr (a, b, t') \<longrightarrow>
      i \<noteq> 0 \<and> contents t kDbSnapshots (encode_u64_be i) \<noteq> None \<and>
      (if b then contents t' else contents t) =
        without kDbDeltas (about_snapshot i) (without kDbSnapshots (\<lambda>k. k = encode_u64_be i) (contents t)) \<and>
      a = \<lparr>cs_snapshots_removed = 1, cs_deltas_removed = card {k. contents t kDbDeltas k \<noteq> None \<and> about_snapshot i k}\<rparr>)" for t
  proof -
    obtain rc t1 where d: "lm_del api t kDbSnapshots (encode_u64_be i) = (rc, t1)" by fastforce
    show ?thesis
    proof (cases "rc = 0")
      case False
      then show ?thesis using d by (simp add: delete_snapshot_work_def)
    next
      case rc: True
      then have t1: "contents t1 = without kDbSnapshots (\<lambda>k. k = encode_u64_be i) (contents t)"
        "contents t kDbSnapshots (encode_u64_be i) \<noteq> None"
        using d lm_del_ok [OF laws, of t kDbSnapshots "encode_u64_be i" t1] by (auto simp: without_def fun_eq_iff)
      obtain result where w: "walk api kDbDeltas First ''mdb_cursor_open(delete_snapshot:deltas)'' ''mdb_cursor_get(delete_snapshot:deltas)''
            (remove_where api kDbDeltas 16 ''Invalid delta key size.'' ''mdb_cursor_del(delete_snapshot:delta)'' (about_snapshot i)) t1 0 = Some result"
        "\<And>t2 n. result = Inr (t2, n) \<Longrightarrow> contents t2 = without kDbDeltas (about_snapshot i) (contents t1) \<and>
          n = card {k. contents t1 kDbDeltas k \<noteq> None \<and> about_snapshot i k}"
        using walk_remove [OF laws] by blast
      then have "delete_snapshot_work api i t = Some (sum_bind result (\<lambda>(txn, n).
          Inr (\<lparr>cs_snapshots_removed = 1, cs_deltas_removed = n\<rparr>, True, txn)))"
        using d rc by (simp add: delete_snapshot_work_def about_snapshot_def [abs_def])
      then show ?thesis using w(2) t1 True by (auto simp: sum_bind_eq_Inr without_other)
    qed
  qed
  then have "\<exists>outcome. in_write_txn_loop api ''mdb_txn_commit(delete_snapshot)'' (delete_snapshot_work api i) s = Some outcome \<and>
      store_effect contents s outcome (\<lambda>m stats m'. i \<noteq> 0 \<and> m kDbSnapshots (encode_u64_be i) \<noteq> None \<and>
        m' = without kDbDeltas (about_snapshot i) (without kDbSnapshots (\<lambda>k. k = encode_u64_be i) m) \<and>
        stats = \<lparr>cs_snapshots_removed = 1, cs_deltas_removed = card {k. m kDbDeltas k \<noteq> None \<and> about_snapshot i k}\<rparr>)"
    by (intro in_write_txn_loop_effect [OF laws])
  then show ?thesis using True by (simp only: delete_snapshot_def) simp
qed

subsection \<open>Retention\<close>

definition stored_item :: "bytes \<times> bytes \<Rightarrow> snapshot_retention_item" where
  "stored_item kv = \<lparr>ri_snapshot_id = decode_u64_be (fst kv),
    ri_created_at = sn_created_at (fst (projr (deserialize_snapshot_binary (snd kv))))\<rparr>"

definition stored_items :: "contents \<Rightarrow> snapshot_retention_item list" where
  "stored_items m = map stored_item (records_of (m kDbSnapshots) First)"

lemma retention_item_facts: "forward contents dbi retention_item" "steady retention_item"
  by (auto simp: forward_def steady_def retention_item_def split: if_splits sum.splits)

lemma run_retention_item:
  "run_records retention_item kvs rc txn items = Inr (rc', txn', items') \<Longrightarrow>
    txn' = txn \<and> items' = items @ map stored_item kvs \<and> list_all (\<lambda>(k, v). length k = 8) kvs"
proof (induction kvs arbitrary: items)
  case (Cons kv kvs)
  obtain k v where kv: "kv = (k, v)" by (cases kv)
  obtain sn r where "length k = 8" "deserialize_snapshot_binary v = Inr (sn, r)"
    using Cons.prems by (auto simp: kv retention_item_def serialization_to_store_status_def split: if_splits sum.splits)
  then show ?case using Cons.prems Cons.IH [of "items @ [stored_item kv]"]
    by (auto simp: kv retention_item_def serialization_to_store_status_def stored_item_def)
qed simp

definition retention_spec :: "nat \<Rightarrow> contents \<Rightarrow> cleanup_stats \<Rightarrow> contents \<Rightarrow> bool" where
  "retention_spec keep m stats m' \<longleftrightarrow>
    (let kept = retained_ids keep (stored_items m);
         old = (\<lambda>k. decode_u64_be k \<notin> kept);
         loose = (\<lambda>k. \<not> (delta_base k \<in> kept \<and> delta_target k \<in> kept))
     in (\<forall>k. m kDbSnapshots k \<noteq> None \<longrightarrow> length k = 8) \<and>
        (if length (stored_items m) \<le> keep
        then m' = m \<and> stats = \<lparr>cs_snapshots_removed = 0, cs_deltas_removed = 0\<rparr>
        else m' = without kDbDeltas loose (without kDbSnapshots old m) \<and>
          stats = \<lparr>cs_snapshots_removed = card {k. m kDbSnapshots k \<noteq> None \<and> old k},
            cs_deltas_removed = card {k. m kDbDeltas k \<noteq> None \<and> loose k}\<rparr>))"

lemma retention_work_result:
  assumes laws: "lmdb_laws api contents"
  shows "\<exists>result. retention_work api keep t = Some result \<and> (\<forall>a b t'. result = Inr (a, b, t') \<longrightarrow>
    retention_spec keep (contents t) a (if b then contents t' else contents t))"
proof -
  let ?m1 = "''mdb_cursor_open(apply_snapshot_retention:snapshots)''" and ?m2 = "''mdb_cursor_get(apply_snapshot_retention:snapshots)''"
  obtain r1 where w1: "walk api kDbSnapshots First ?m1 ?m2 retention_item t [] = Some r1"
    "\<And>t' items. r1 = Inr (t', items) \<Longrightarrow> run_records retention_item (records_of (contents t kDbSnapshots) First)
      MDB_NOTFOUND t [] = Inr (MDB_NOTFOUND, t', items)"
    using walk_all [OF laws retention_item_facts] by blast
  show ?thesis
  proof (cases r1)
    case (Inl e)
    then show ?thesis using w1(1) by (simp add: retention_work_def)
  next
    case (Inr p)
    then obtain t' items where "r1 = Inr (t', items)" by (cases p) auto
    from this run_retention_item [OF w1(2) [OF this]] have r1: "r1 = Inr (t, stored_items (contents t))"
      and sizes: "list_all (\<lambda>(k, v). length k = 8) (records_of (contents t kDbSnapshots) First)"
      by (simp_all add: stored_items_def)
    have sizes: "\<forall>k. contents t kDbSnapshots k \<noteq> None \<longrightarrow> length k = 8"
      using sizes set_records_of [OF finite_contents [OF laws], of t kDbSnapshots First] by (auto simp: list_all_iff)
    show ?thesis
    proof (cases "length (stored_items (contents t)) \<le> keep")
      case True
      then show ?thesis using w1(1) r1 sizes by (simp add: retention_work_def retention_spec_def)
    next
      case False
      let ?kept = "retained_ids keep (stored_items (contents t))"
      let ?old = "\<lambda>k. decode_u64_be k \<notin> ?kept" and ?loose = "\<lambda>k. \<not> (delta_base k \<in> ?kept \<and> delta_target k \<in> ?kept)"
      obtain r2 where w2: "walk api kDbSnapshots First ''mdb_cursor_open(apply_snapshot_retention:delete_snapshots)''
          ''mdb_cursor_get(apply_snapshot_retention:delete_snapshots)''
          (remove_where api kDbSnapshots 8 ''Invalid snapshot key size.''
            ''mdb_cursor_del(apply_snapshot_retention:snapshot)'' ?old) t 0 = Some r2"
        "\<And>t2 n. r2 = Inr (t2, n) \<Longrightarrow> contents t2 = without kDbSnapshots ?old (contents t) \<and>
          n = card {k. contents t kDbSnapshots k \<noteq> None \<and> ?old k}"
        using walk_remove [OF laws] by blast
      show ?thesis
      proof (cases r2)
        case (Inl e)
        then show ?thesis using w1(1) r1 w2(1) False by (simp add: retention_work_def Let_def)
      next
        case (Inr p)
        then obtain t2 n where r2: "r2 = Inr (t2, n)" by (cases p) auto
        note t2 = w2(2) [OF r2]
        obtain r3 where w3: "walk api kDbDeltas First ''mdb_cursor_open(apply_snapshot_retention:deltas)''
            ''mdb_cursor_get(apply_snapshot_retention:deltas)''
            (remove_where api kDbDeltas 16 ''Invalid delta key size.''
              ''mdb_cursor_del(apply_snapshot_retention:delta)'' ?loose) t2 0 = Some r3"
          "\<And>t3 n'. r3 = Inr (t3, n') \<Longrightarrow> contents t3 = without kDbDeltas ?loose (contents t2) \<and>
            n' = card {k. contents t2 kDbDeltas k \<noteq> None \<and> ?loose k}"
          using walk_remove [OF laws] by blast
        have "retention_work api keep t = Some (sum_bind r3 (\<lambda>(txn, n').
            Inr (\<lparr>cs_snapshots_removed = n, cs_deltas_removed = n'\<rparr>, True, txn)))"
          using w1(1) r1 w2(1) r2 w3(1) False by (simp add: retention_work_def Let_def)
        then show ?thesis using w3(2) t2 False sizes
          by (auto simp: sum_bind_eq_Inr retention_spec_def Let_def without_other)
      qed
    qed
  qed
qed

lemma retention_effect:
  assumes laws: "lmdb_laws api contents"
  shows "\<exists>outcome. apply_snapshot_retention api keep s = Some outcome \<and> store_effect contents s outcome (retention_spec keep)"
proof (cases "is_open s")
  case True
  have "\<exists>outcome. in_write_txn_loop api ''mdb_txn_commit(apply_snapshot_retention)'' (retention_work api keep) s = Some outcome \<and>
      store_effect contents s outcome (retention_spec keep)"
    by (intro in_write_txn_loop_effect [OF laws] retention_work_result [OF laws])
  then show ?thesis using True by (simp add: apply_snapshot_retention_def)
next
  case False
  then show ?thesis by (simp add: apply_snapshot_retention_def)
qed

subsection \<open>The outbox in order\<close>

text \<open>A database whose keys are encoded numbers is walked in the order of the numbers.\<close>

lemma sorted_list_of_encoded: "finite A \<Longrightarrow> sorted_list_of_set (encode_u64_be ` A) = map encode_u64_be (sorted_list_of_set A)"
proof -
  assume fin: "finite A"
  let ?qs = "sorted_list_of_set A"
  have "sorted (map encode_u64_be ?qs)"
    using sorted_sorted_list_of_set [of A] by (simp add: sorted_map encode_u64_be_le)
  moreover have "distinct (map encode_u64_be ?qs)" by (simp add: distinct_map inj_on_def)
  ultimately have "sorted_list_of_set (set (map encode_u64_be ?qs)) = map encode_u64_be ?qs"
    by (rule sorted_list_of_set.idem_if_sorted_distinct)
  then show ?thesis using fin by simp
qed

lemma records_of_numbers:
  assumes "\<And>k. m k \<noteq> None \<Longrightarrow> \<exists>q. k = encode_u64_be q" "finite (dom m)"
  shows "records_of m pos = map (\<lambda>q. (encode_u64_be q, the (m (encode_u64_be q))))
    (sorted_list_of_set {q. m (encode_u64_be q) \<noteq> None \<and> admits pos (encode_u64_be q)})"
proof -
  let ?A = "{q. m (encode_u64_be q) \<noteq> None \<and> admits pos (encode_u64_be q)}"
  have keys: "keys_at m pos = encode_u64_be ` ?A" using assms(1) by (auto simp: keys_at_def) blast
  have "finite ?A" by (rule finite_subset [of _ UNIV]) simp_all
  then show ?thesis unfolding records_of_def keys by (simp add: sorted_list_of_encoded comp_def)
qed

definition blank_record :: "u64 \<Rightarrow> transport_record" where
  "blank_record q = \<lparr>tr_sequence = q, tr_created_at = 0, tr_type = Transport_Snapshot, tr_routing_key = [], tr_payload = []\<rparr>"

definition stored_frame_ok :: "u64 \<Rightarrow> bytes \<Rightarrow> bool" where
  "stored_frame_ok q raw \<longleftrightarrow> (\<exists>r. parse_frame raw (blank_record q) = Inr r)"

definition record_at :: "contents \<Rightarrow> u64 \<Rightarrow> transport_record" where
  "record_at m q = projr (parse_frame (the (outbox m q)) (blank_record q))"

lemma record_at_sequence: "outbox m q = Some raw \<Longrightarrow> stored_frame_ok q raw \<Longrightarrow> tr_sequence (record_at m q) = q"
  using parse_frame_Inr [of raw "blank_record q"] by (auto simp: stored_frame_ok_def record_at_def blank_record_def)

lemma fetch_record_facts: "forward contents dbi (fetch_record n)"
  by (auto simp: forward_def fetch_record_def split: if_splits sum.splits)

lemma fetch_record_number:
  "fetch_record n (encode_u64_be q) val txn acc =
    (if length acc < n
     then (case parse_frame val (blank_record q) of Inl e \<Rightarrow> Abort e | Inr r \<Rightarrow> Next txn (acc @ [r]))
     else Break txn acc)"
  by (simp add: fetch_record_def blank_record_def)

lemma run_fetch_record:
  "run_records (fetch_record n) (map (\<lambda>q. (encode_u64_be q, raw q)) qs) rc txn acc = Inr (rc', txn', acc') \<Longrightarrow>
    length acc \<le> n \<Longrightarrow>
    acc' = acc @ map (\<lambda>q. projr (parse_frame (raw q) (blank_record q))) (take (n - length acc) qs) \<and>
    (rc' = rc \<and> length qs \<le> n - length acc \<or> rc' = 0 \<and> n - length acc < length qs)"
proof (induction qs arbitrary: acc)
  case (Cons q qs)
  show ?case
  proof (cases "length acc < n")
    case True
    then obtain r where r: "parse_frame (raw q) (blank_record q) = Inr r"
      using Cons.prems(1) by (auto simp: fetch_record_number split: sum.splits)
    have "run_records (fetch_record n) (map (\<lambda>q. (encode_u64_be q, raw q)) qs) rc txn (acc @ [r]) = Inr (rc', txn', acc')"
      using Cons.prems(1) True r by (simp add: fetch_record_number)
    note IH = Cons.IH [OF this]
    have "n - length acc = Suc (n - length (acc @ [r]))" using True by simp
    then show ?thesis using IH True r by auto
  next
    case False
    then show ?thesis using Cons.prems by (simp add: fetch_record_number)
  qed
qed simp

lemma run_fetch_no_corruption:
  "(\<And>q. q \<in> set qs \<Longrightarrow> stored_frame_ok q (raw q)) \<Longrightarrow>
    run_records (fetch_record n) (map (\<lambda>q. (encode_u64_be q, raw q)) qs) rc txn acc \<noteq> Inl e"
proof (induction qs arbitrary: acc)
  case (Cons q qs)
  obtain r where r: "parse_frame (raw q) (blank_record q) = Inr r"
    using Cons.prems [of q] by (auto simp: stored_frame_ok_def)
  then show ?case using Cons.IH [OF Cons.prems] by (simp add: fetch_record_number)
qed simp

definition outbox_ok :: "contents \<Rightarrow> bool" where
  "outbox_ok m \<longleftrightarrow> (\<forall>k raw. m kDbTransport k = Some raw \<longrightarrow>
    (\<exists>q. k = encode_u64_be q \<and> q \<noteq> 0 \<and> q < next_sequence m \<and> stored_frame_ok q raw))"

lemma outbox_okD:
  "outbox_ok m \<Longrightarrow> outbox m q = Some raw \<Longrightarrow> q \<noteq> 0 \<and> q < next_sequence m \<and> stored_frame_ok q raw"
  unfolding outbox_ok_def outbox_def by (metis encode_u64_be_inject)

definition consumers_ok :: "contents \<Rightarrow> bool" where
  "consumers_ok m \<longleftrightarrow> (\<forall>k val. m kDbTransportConsumers k = Some val \<longrightarrow> length val = 8)"

text \<open>The numbers in the outbox that a consumer has not acknowledged.\<close>

definition unacked :: "contents \<Rightarrow> string \<Rightarrow> u64 set" where
  "unacked m c = {q. outbox m q \<noteq> None \<and> (case acked m c of None \<Rightarrow> True | Some a \<Rightarrow> a < q)}"

lemma read_consumer_ack_code:
  assumes "lmdb_laws api contents" "consumers_ok (contents txn)" "c \<noteq> []" "read_consumer_ack_sequence api txn c = Inl e"
  shows "sf_code e = NotFound \<or> sf_code e = LmdbError"
proof -
  obtain rc val where g: "lm_get api txn kDbTransportConsumers (string_bytes c) = (rc, val)" by fastforce
  then have "rc = 0 \<Longrightarrow> length val = 8"
    using lm_get_ok [OF assms(1), of txn kDbTransportConsumers "string_bytes c" val] assms(2) by (auto simp: consumers_ok_def)
  then show ?thesis using assms(3,4) g by (auto simp: read_consumer_ack_sequence_def split: if_splits)
qed

lemma unacked_positions:
  assumes "outbox_ok m" "acked m c \<noteq> Some (- 1)"
  defines "low \<equiv> (case acked m c of None \<Rightarrow> 0 | Some a \<Rightarrow> a)"
  shows "{q. m kDbTransport (encode_u64_be q) \<noteq> None \<and>
      admits (if low = 0 then First else From (encode_u64_be (low + 1))) (encode_u64_be q)} = unacked m c"
proof -
  have pos: "q \<noteq> 0" if "outbox m q \<noteq> None" for q
    using that outbox_okD [OF assms(1), of q] by auto
  have next_le: "a + 1 \<le> q \<longleftrightarrow> a < q" if "a \<noteq> - 1" for a q :: u64
  proof -
    have "a + 1 \<noteq> 0" using that by (metis add.commute add_eq_0_iff)
    then have "unat (a + 1) = Suc (unat a)" by (simp add: unatSuc add.commute)
    then show ?thesis by (simp add: word_le_nat_alt word_less_nat_alt Suc_le_eq)
  qed
  have "0 < q" if "outbox m q \<noteq> None" for q using pos [OF that] by (simp add: word_gt_0)
  then show ?thesis
    using assms(2) pos unfolding unacked_def outbox_def [symmetric] low_def
    by (auto simp: encode_u64_be_le next_le split: option.split)
qed

text \<open>What a batch is, for the set of numbers that the start position of the cursor admits.\<close>

definition fetched :: "contents \<Rightarrow> nat \<Rightarrow> u64 set \<Rightarrow> transport_record list store_result option \<Rightarrow> bool" where
  "fetched m n U result \<longleftrightarrow> (\<exists>r. result = Some r \<and>
    (case r of
       Inl e \<Rightarrow> sf_code e \<in> {NotOpen, store_error_code.InvalidArgument, LmdbError}
     | Inr records \<Rightarrow> records = map (record_at m) (take n (sorted_list_of_set U))))"

lemma fetch_admitted:
  assumes laws: "lmdb_laws api contents" and m_def: "m = store_contents contents s"
    and ok: "outbox_ok m" "consumers_ok m"
    and low_def: "low = (case acked m c of None \<Rightarrow> 0 | Some a \<Rightarrow> a)"
    and U: "{q. m kDbTransport (encode_u64_be q) \<noteq> None \<and>
      admits (if low = 0 then First else From (encode_u64_be (low + 1))) (encode_u64_be q)} = U"
  shows "\<exists>r. fetch_transport_batch_for_consumer api c n s = Some r \<and>
    (case r of
       Inl e \<Rightarrow> sf_code e \<in> {NotOpen, store_error_code.InvalidArgument, LmdbError}
     | Inr records \<Rightarrow> records = map (record_at m) (take n (sorted_list_of_set U)))"
proof (cases "\<not> is_open s \<or> c = [] \<or> n = 0")
  case True
  then show ?thesis
    by (auto simp: fetch_transport_batch_for_consumer_def not_open_def consumer_id_empty_def)
next
  case False
  show ?thesis
  proof (cases "store_begin_txn api s")
    case (Inl e)
    then have "sf_code e = LmdbError" using False by (auto simp: store_begin_txn_def split: if_splits prod.splits)
    then show ?thesis using False Inl by (simp add: fetch_transport_batch_for_consumer_def)
  next
    case (Inr txn)
    have m: "contents txn = m" unfolding m_def by (rule store_begin_txn_Inr(1) [OF laws Inr])
    let ?ack = "read_consumer_ack_sequence api txn c"
    show ?thesis
    proof (cases "\<exists>e. ?ack = Inl e \<and> sf_code e \<noteq> NotFound")
      case True
      then show ?thesis using False Inr read_consumer_ack_code [OF laws, of txn c] ok(2) m
        by (auto simp: fetch_transport_batch_for_consumer_def)
    next
      case no_error: False
      have low: "(case ?ack of Inl e \<Rightarrow> if sf_code e \<noteq> NotFound then Inl e else Inr 0 | Inr ack \<Rightarrow> Inr ack) = Inr low"
        using no_error read_consumer_ack_result [OF laws, of txn c] unfolding m low_def by (auto split: sum.splits)
      let ?pos = "if low = 0 then First else From (encode_u64_be (low + 1))"
      define qs where "qs = sorted_list_of_set U"
      have keys: "\<exists>q. k = encode_u64_be q" if "m kDbTransport k \<noteq> None" for k
        using that ok(1) by (auto simp: outbox_ok_def)
      have records: "records_of (contents txn kDbTransport) ?pos =
          map (\<lambda>q. (encode_u64_be q, the (m kDbTransport (encode_u64_be q)))) qs"
        using records_of_numbers [of "m kDbTransport" ?pos, OF keys] finite_contents [OF laws, of txn kDbTransport]
          U unfolding m qs_def by simp
      let ?raw = "\<lambda>q. the (m kDbTransport (encode_u64_be q))"
      have fin: "finite U" by (rule finite_subset [of _ UNIV]) simp_all
      have frames: "stored_frame_ok q (?raw q)" if "q \<in> set qs" for q
        using that fin outbox_okD [OF ok(1), of q "?raw q"] by (auto simp: qs_def outbox_def U [symmetric])
      obtain kvs rest rc where l: "records_of (contents txn kDbTransport) ?pos = kvs @ rest" "rc \<noteq> 0"
        "rc = MDB_NOTFOUND \<Longrightarrow> rest = []"
        "cursor_loop api kDbTransport (fetch_record n) (lm_cursor_get api txn kDbTransport ?pos) txn [] =
          Some (run_records (fetch_record n) kvs rc txn [])"
        using cursor_loop_cases [OF laws fetch_record_facts, of txn kDbTransport ?pos n "[]"] by blast
      define k where "k = length kvs"
      have kvs: "kvs = map (\<lambda>q. (encode_u64_be q, ?raw q)) (take k qs)" and rest: "rest = [] \<longleftrightarrow> length qs \<le> k"
      proof -
        let ?f = "\<lambda>q. (encode_u64_be q, ?raw q)"
        have "kvs = take k (map ?f qs)" "rest = drop k (map ?f qs)" using l(1) unfolding records k_def by simp_all
        then show "kvs = map ?f (take k qs)" "rest = [] \<longleftrightarrow> length qs \<le> k" by (simp_all add: take_map)
      qed
      obtain rc' txn' acc' where run: "run_records (fetch_record n) kvs rc txn [] = Inr (rc', txn', acc')"
        using run_fetch_no_corruption [of "take k qs" ?raw n rc txn "[]"] frames in_set_takeD unfolding kvs
        by (cases "run_records (fetch_record n) (map (\<lambda>q. (encode_u64_be q, ?raw q)) (take k qs)) rc txn []") (auto, fastforce)
      note acc = run_fetch_record [OF run [unfolded kvs], simplified]
      have batch: "acc' = map (record_at m) (take n qs)" if "rc' = 0 \<or> rc' = MDB_NOTFOUND"
      proof -
        have "take n (take k qs) = take n qs"
          using acc that l(2,3) rest by (auto simp: min_def)
        then show ?thesis using acc by (simp add: record_at_def outbox_def)
      qed
      have fetch: "fetch_transport_batch_for_consumer api c n s = map_option (map_sum (\<lambda>e. e) snd)
          (walk api kDbTransport ?pos ''mdb_cursor_open(transport)'' ''mdb_cursor_get(fetch_transport_batch)''
            (fetch_record n) txn [])"
        using False Inr low by (simp add: fetch_transport_batch_for_consumer_def)
      show ?thesis unfolding fetch walk_def using l(4) run batch
        by (auto simp: qs_def)
    qed
  qed
qed

lemma fetch_result:
  assumes "lmdb_laws api contents" "m = store_contents contents s" "outbox_ok m" "consumers_ok m" "acked m c \<noteq> Some (- 1)"
  shows "fetched m n (unacked m c) (fetch_transport_batch_for_consumer api c n s)"
  unfolding fetched_def by (rule fetch_admitted [OF assms(1-4) refl unacked_positions]) (use assms in auto)

lemma fetch_result_wrapped:
  assumes laws: "lmdb_laws api contents" and "m = store_contents contents s" "outbox_ok m" "consumers_ok m" "acked m c = Some (- 1)"
  shows "fetched m n {q. outbox m q \<noteq> None} (fetch_transport_batch_for_consumer api c n s)"
  unfolding fetched_def by (rule fetch_admitted [OF assms(1-4) refl]) (auto simp: assms(5) outbox_def encode_u64_be_le)

subsection \<open>Compaction\<close>

definition acks_of :: "contents \<Rightarrow> u64 set" where
  "acks_of m = {a. \<exists>c. acked m c = Some a}"

text \<open>Without consumers nothing is removed, else the records up to the least acknowledged number.\<close>

definition compacted :: "contents \<Rightarrow> contents" where
  "compacted m = (if acks_of m = {} then m
    else without kDbTransport (\<lambda>k. decode_u64_be k \<le> Min (acks_of m)) m)"

lemma acks_of_values: "acks_of m = decode_u64_be ` ran (m kDbTransportConsumers)"
proof -
  have "(\<exists>c. acked m c = Some a) \<longleftrightarrow> (\<exists>k val. m kDbTransportConsumers k = Some val \<and> a = decode_u64_be val)" for a
    unfolding acked_def by (metis (no_types, lifting) map_option_eq_Some string_bytes_of_bytes_string)
  then show ?thesis by (auto simp: acks_of_def ran_def)
qed

lemma min_ack_facts: "forward contents dbi min_ack_step" "steady min_ack_step"
  by (auto simp: forward_def steady_def min_ack_step_def split: if_splits)

lemma run_min_ack:
  "run_records min_ack_step kvs rc txn acc = Inr (rc', txn', acc') \<Longrightarrow>
    txn' = txn \<and> acc' = (if kvs = [] then acc
      else Some (Min (set_option acc \<union> decode_u64_be ` set (map snd kvs))))"
proof (induction kvs arbitrary: acc)
  case (Cons kv kvs)
  obtain k v where kv: "kv = (k, v)" by (cases kv)
  let ?d = "decode_u64_be v" and ?S = "decode_u64_be ` set (map snd kvs)"
  let ?acc = "Some (case acc of None \<Rightarrow> ?d | Some m \<Rightarrow> if ?d < m then ?d else m)"
  have acc: "?acc = Some (Min (set_option acc \<union> {?d}))" by (cases acc) (auto simp: min_def)
  have "min_ack_step k v txn acc = (if length v \<noteq> 8
      then Abort (store_error CorruptedPayload ''Invalid transport consumer ack payload size.'') else Next txn ?acc)"
    by (cases acc) (simp_all add: min_ack_step_def)
  then have "run_records min_ack_step kvs rc txn ?acc = Inr (rc', txn', acc')"
    using Cons.prems by (auto simp: kv split: if_splits)
  note IH = Cons.IH [OF this, unfolded acc]
  have "Min ({Min (set_option acc \<union> {?d})} \<union> ?S) = Min (set_option acc \<union> {?d} \<union> ?S)" if "kvs \<noteq> []"
    using that Min_Un [of "set_option acc \<union> {?d}" ?S] Min_Un [of "{Min (set_option acc \<union> {?d})}" ?S] by simp
  then show ?case using IH by (cases "kvs = []") (auto simp: kv insert_commute)
qed simp

lemma compact_record_facts:
  assumes "lmdb_laws api contents" shows "forward contents kDbTransport (compact_record api least)"
  by (auto simp: forward_def compact_record_def split: if_splits dest!: cursor_delete_Next [OF assms])

lemma compact_record_number:
  "compact_record api least (encode_u64_be q) val txn acc =
    (if q > least then Break txn acc
     else cursor_delete api kDbTransport ''mdb_cursor_del(compact_transport_records)'' (encode_u64_be q) txn acc)"
  by (simp add: compact_record_def)

lemma run_compact_record:
  assumes laws: "lmdb_laws api contents"
  shows "run_records (compact_record api least) (map (\<lambda>q. (encode_u64_be q, raw q)) qs) rc txn () = Inr (rc', txn', ()) \<Longrightarrow>
    sorted qs \<Longrightarrow>
    contents txn' = without kDbTransport (\<lambda>k. \<exists>q \<in> set qs. k = encode_u64_be q \<and> q \<le> least) (contents txn) \<and>
    (rc' = rc \<or> rc' = 0 \<and> (\<exists>q \<in> set qs. least < q))"
proof (induction qs arbitrary: txn)
  case Nil
  then show ?case by (simp add: without_def)
next
  case (Cons q qs)
  show ?case
  proof (cases "least < q")
    case True
    then have above: "\<And>p. p \<in> set (q # qs) \<Longrightarrow> \<not> p \<le> least" using Cons.prems(2) by auto
    have "without kDbTransport (\<lambda>k. \<exists>p \<in> set (q # qs). k = encode_u64_be p \<and> p \<le> least) (contents txn) = contents txn"
      using above by (auto simp: without_def fun_eq_iff)
    then show ?thesis using Cons.prems(1) True by (auto simp: compact_record_number)
  next
    case False
    obtain t1 where t1: "cursor_delete api kDbTransport ''mdb_cursor_del(compact_transport_records)'' (encode_u64_be q) txn () = Next t1 ()"
      using Cons.prems(1) False by (auto simp: compact_record_number split: loop_step.splits)
    then have "run_records (compact_record api least) (map (\<lambda>q. (encode_u64_be q, raw q)) qs) rc t1 () = Inr (rc', txn', ())"
      using Cons.prems(1) False by (simp add: compact_record_number)
    from Cons.IH [OF this] Cons.prems(2)
    have IH: "contents txn' = without kDbTransport (\<lambda>k. \<exists>q \<in> set qs. k = encode_u64_be q \<and> q \<le> least) (contents t1)"
      "rc' = rc \<or> rc' = 0 \<and> (\<exists>q \<in> set qs. least < q)" by auto
    then show ?thesis using cursor_delete_Next [OF laws t1] False by (auto simp: without_def fun_eq_iff)
  qed
qed

text \<open>The second loop removes the records up to a number.\<close>

lemma compact_prefix:
  assumes laws: "lmdb_laws api contents" and ok: "outbox_ok (contents t)"
    and split: "records_of (contents t kDbTransport) First = kvs @ rest" and "rc = MDB_NOTFOUND \<longrightarrow> rest = []" "rc \<noteq> 0"
    and run: "run_records (compact_record api least) kvs rc t () = Inr (rc', t', ())" and end_rc: "rc' = 0 \<or> rc' = MDB_NOTFOUND"
  shows "contents t' = without kDbTransport (\<lambda>k. decode_u64_be k \<le> least) (contents t)"
proof -
  let ?m = "contents t"
  define raw where "raw = (\<lambda>q. the (?m kDbTransport (encode_u64_be q)))"
  define qs where "qs = sorted_list_of_set {q. ?m kDbTransport (encode_u64_be q) \<noteq> None}"
  have keys: "\<exists>q. k = encode_u64_be q" if "?m kDbTransport k \<noteq> None" for k
    using that ok by (auto simp: outbox_ok_def)
  have recs: "records_of (?m kDbTransport) First = map (\<lambda>q. (encode_u64_be q, raw q)) qs"
    using records_of_numbers [of "?m kDbTransport" First, OF keys] finite_contents [OF laws, of t kDbTransport]
    by (simp add: qs_def raw_def)
  have qs: "sorted qs" "set qs = {q. ?m kDbTransport (encode_u64_be q) \<noteq> None}"
    using finite_subset [of "{q. ?m kDbTransport (encode_u64_be q) \<noteq> None}" UNIV] by (simp_all add: qs_def)
  define ps rs where "ps = take (length kvs) qs" and "rs = drop (length kvs) qs"
  have parts: "kvs = map (\<lambda>q. (encode_u64_be q, raw q)) ps" "qs = ps @ rs" "rest = map (\<lambda>q. (encode_u64_be q, raw q)) rs"
    using split unfolding recs ps_def rs_def
    by (simp_all add: append_eq_conv_conj take_map [symmetric] drop_map [symmetric])
  have "sorted ps" using qs(1) parts(2) by (simp add: sorted_append)
  note cut = run_compact_record [OF laws run [unfolded parts(1)] this]
  have "least < q" if "q \<in> set rs" "p \<in> set ps" "least < p" for q p
    using that qs(1) parts(2) by (auto simp: sorted_append intro: less_le_trans)
  moreover have "\<exists>p \<in> set ps. least < p" if "rs \<noteq> []"
    using that cut assms(4,5) end_rc parts(3) by auto
  ultimately have beyond: "\<not> q \<le> least" if "q \<in> set rs" for q
    using that by (metis empty_iff list.set(1) not_le)
  have "(\<exists>q \<in> set ps. k = encode_u64_be q \<and> q \<le> least) \<longleftrightarrow> decode_u64_be k \<le> least"
    if present: "?m kDbTransport k \<noteq> None" for k
  proof -
    obtain q where q: "k = encode_u64_be q" using keys [OF present] by blast
    then have "q \<in> set ps \<union> set rs" using present qs(2) parts(2) by auto
    then show ?thesis using q beyond [of q] by auto
  qed
  then have "without kDbTransport (\<lambda>k. \<exists>q \<in> set ps. k = encode_u64_be q \<and> q \<le> least) ?m =
      without kDbTransport (\<lambda>k. decode_u64_be k \<le> least) ?m" by (rule without_cong)
  then show ?thesis using cut by simp
qed

lemma compact_walk:
  assumes laws: "lmdb_laws api contents" and ok: "outbox_ok (contents t)"
  shows "\<exists>result. walk api kDbTransport First m1 m2 (compact_record api least) t () = Some result \<and>
    (\<forall>t' acc. result = Inr (t', acc) \<longrightarrow>
      contents t' = without kDbTransport (\<lambda>k. decode_u64_be k \<le> least) (contents t))"
proof -
  obtain result where w: "walk api kDbTransport First m1 m2 (compact_record api least) t () = Some result"
    "\<And>t' acc. result = Inr (t', acc) \<Longrightarrow> \<exists>kvs rest rc rc'. records_of (contents t kDbTransport) First = kvs @ rest \<and>
      (rc = MDB_NOTFOUND \<longrightarrow> rest = []) \<and> rc \<noteq> 0 \<and>
      run_records (compact_record api least) kvs rc t () = Inr (rc', t', acc) \<and> (rc' = 0 \<or> rc' = MDB_NOTFOUND)"
    using walk_run [OF laws compact_record_facts [OF laws]] by blast
  have "contents t' = without kDbTransport (\<lambda>k. decode_u64_be k \<le> least) (contents t)"
    if r: "result = Inr (t', acc)" for t' acc
  proof -
    obtain kvs rest rc rc' where "records_of (contents t kDbTransport) First = kvs @ rest" "rc = MDB_NOTFOUND \<longrightarrow> rest = []"
      "rc \<noteq> 0" "run_records (compact_record api least) kvs rc t () = Inr (rc', t', ())" "rc' = 0 \<or> rc' = MDB_NOTFOUND"
      using w(2) [OF r] by auto
    then show ?thesis by (rule compact_prefix [OF laws ok])
  qed
  then show ?thesis using w(1) by blast
qed

text \<open>The first loop finds the least acknowledged number.\<close>

lemma min_ack_loop:
  assumes laws: "lmdb_laws api contents" and some: "acks_of (contents t) \<noteq> {}"
  shows "\<exists>result. cursor_loop api kDbTransportConsumers min_ack_step (lm_cursor_get api t kDbTransportConsumers First) t None =
      Some result \<and>
    (\<forall>rc t' least. result = Inr (rc, t', least) \<longrightarrow> rc \<noteq> MDB_NOTFOUND \<or> t' = t \<and> least = Some (Min (acks_of (contents t))))"
proof -
  let ?consumers = "contents t kDbTransportConsumers"
  obtain kvs rest rc where l: "records_of ?consumers First = kvs @ rest" "rc \<noteq> 0" "rc = MDB_NOTFOUND \<Longrightarrow> rest = []"
    "cursor_loop api kDbTransportConsumers min_ack_step (lm_cursor_get api t kDbTransportConsumers First) t None =
      Some (run_records min_ack_step kvs rc t None)"
    using cursor_loop_cases [OF laws min_ack_facts(1), of t kDbTransportConsumers First None] by blast
  have "t' = t \<and> least = Some (Min (acks_of (contents t)))"
    if run: "run_records min_ack_step kvs rc t None = Inr (MDB_NOTFOUND, t', least)" for t' least
  proof -
    have "rc = MDB_NOTFOUND" using run_records_steady [OF min_ack_facts(2) run] by simp
    then have all: "records_of ?consumers First = kvs" using l(1,3) by simp
    have "set (map snd kvs) = ran ?consumers"
      using set_records_of [OF finite_contents [OF laws], of t kDbTransportConsumers First]
      unfolding all by (force simp: ran_def image_iff)
    then have "decode_u64_be ` set (map snd kvs) = acks_of (contents t)" by (simp add: acks_of_values)
    then show ?thesis using run_min_ack [OF run] some by (auto split: if_splits)
  qed
  then show ?thesis using l(4) by blast
qed

lemma compact_work_result:
  assumes laws: "lmdb_laws api contents" and ok: "outbox_ok (contents t)"
  shows "\<exists>result. compact_work api t = Some result \<and>
    (\<forall>a b t'. result = Inr (a, b, t') \<longrightarrow> (if b then contents t' else contents t) = compacted (contents t))"
proof (cases "lm_cursor_open api t kDbTransportConsumers = 0")
  case False
  then show ?thesis by (simp add: compact_work_def)
next
  case opened: True
  let ?m = "contents t"
  obtain rc key val where g: "lm_cursor_get api t kDbTransportConsumers First = (rc, key, val)"
    by (cases "lm_cursor_get api t kDbTransportConsumers First")
  show ?thesis
  proof (cases "rc = 0")
    case False
    have "rc = MDB_NOTFOUND \<Longrightarrow> acks_of ?m = {}"
      using g lm_cursor_get_notfound [OF laws, of t kDbTransportConsumers First key val]
      by (auto simp: acks_of_values no_record_def ran_def)
    then show ?thesis using False opened g by (simp add: compact_work_def compacted_def)
  next
    case rc: True
    then have some: "acks_of ?m \<noteq> {}" using g lm_cursor_get_ok [OF laws, of t kDbTransportConsumers First key val]
      by (auto simp: acks_of_values first_record_def ran_def)
    let ?least = "Min (acks_of ?m)"
    obtain result where loop: "cursor_loop api kDbTransportConsumers min_ack_step (rc, key, val) t None = Some result"
      "\<And>rc t' least. result = Inr (rc, t', least) \<Longrightarrow> rc \<noteq> MDB_NOTFOUND \<or> t' = t \<and> least = Some ?least"
      using min_ack_loop [OF laws some] unfolding g by blast
    show ?thesis
    proof (cases "\<exists>t' least. result = Inr (MDB_NOTFOUND, t', least)")
      case False
      then show ?thesis using opened g rc loop(1)
        by (cases result) (auto simp: compact_work_def split: prod.split)
    next
      case True
      then have least: "result = Inr (MDB_NOTFOUND, t, Some ?least)" using loop(2) by auto
      obtain r where cut: "walk api kDbTransport First ''mdb_cursor_open(compact_transport_records)''
          ''mdb_cursor_get(compact_transport_records_next)'' (compact_record api ?least) t () = Some r"
        "\<And>t' acc. r = Inr (t', acc) \<Longrightarrow> contents t' = without kDbTransport (\<lambda>k. decode_u64_be k \<le> ?least) ?m"
        using compact_walk [OF laws ok] by blast
      have work: "compact_work api t = (if ?least = 0 then Some (Inr ((), False, t))
          else Some (sum_bind r (\<lambda>(txn, acc). Inr ((), True, txn))))"
        using opened g rc loop(1) least cut(1) by (simp add: compact_work_def)
      have none: "?m kDbTransport k = None" if zero: "decode_u64_be k \<le> 0" for k
      proof (rule ccontr)
        assume "?m kDbTransport k \<noteq> None"
        then obtain q where "k = encode_u64_be q" "q \<noteq> 0" using ok by (auto simp: outbox_ok_def)
        then show False using zero by simp
      qed
      have "without kDbTransport (\<lambda>k. decode_u64_be k \<le> 0) ?m = ?m"
        unfolding without_def using none by (simp add: fun_eq_iff)
      then show ?thesis using work cut(2) some
        by (cases "?least = 0") (auto simp: sum_bind_eq_Inr compacted_def)
    qed
  qed
qed

lemma compact_effect:
  assumes laws: "lmdb_laws api contents" and ok: "outbox_ok (store_contents contents s)"
  shows "\<exists>outcome. compact_transport_up_to_min_acked api s = Some outcome \<and>
    store_effect contents s outcome (\<lambda>m a m'. m' = compacted m)"
proof (cases "is_open s")
  case True
  have "\<exists>outcome. in_write_txn_loop api ''mdb_txn_commit(compact_transport_up_to_min_acked)'' (compact_work api) s = Some outcome \<and>
      store_effect contents s outcome (\<lambda>m a m'. m' = compacted m)"
    using compact_work_result [OF laws] ok by (intro in_write_txn_loop_effect [OF laws]) metis
  then show ?thesis using True by (simp add: compact_transport_up_to_min_acked_def)
next
  case False
  then show ?thesis by (simp add: compact_transport_up_to_min_acked_def)
qed

end
