(* ===== verification/MuninnStore.thy ===== *)
theory MuninnStore imports StoreMaintenance begin

text \<open>
  Muninn's store as a whole: any sequence of its writing operations, the invariant they keep, and what they
  promise of snapshots, deltas and the delivery of the outbox.
\<close>

subsection \<open>Calls\<close>

datatype store_call =
    PutSnapshot snapshot bool
  | PutSnapshotWithTransport u64 snapshot bool bool
  | PutDelta delta_snapshot "snapshot option" "snapshot option" bool
  | PutSnapshotAndDelta u64 u64 snapshot delta_snapshot "snapshot option" bool bool
  | EnqueueSnapshot u64 snapshot bool
  | EnqueueDelta u64 delta_snapshot "snapshot option" "snapshot option" bool
  | RegisterConsumer string
  | AckUntil string u64
  | Compact
  | DeleteSnapshot u64
  | Retain nat

text \<open>The store after a call; \<open>None\<close> would be a call that does not return.\<close>

fun run_call :: "'e lmdb_api \<Rightarrow> int \<Rightarrow> store_call \<Rightarrow> 'e lmdb_handle \<Rightarrow> 'e lmdb_handle option" where
  "run_call api now (PutSnapshot sn validate) s = Some (snd (put_snapshot api now sn validate s))"
| "run_call api now (PutSnapshotWithTransport created_at sn enqueue validate) s =
    Some (snd (put_snapshot_with_transport api now created_at sn enqueue validate s))"
| "run_call api now (PutDelta d b t validate) s = Some (snd (put_delta api d b t validate s))"
| "run_call api now (PutSnapshotAndDelta created_at created_at' sn d b enqueue validate) s =
    Some (snd (put_snapshot_and_delta_with_transport api now created_at created_at' sn d b enqueue validate s))"
| "run_call api now (EnqueueSnapshot created_at sn validate) s = Some (snd (enqueue_snapshot api now created_at sn validate s))"
| "run_call api now (EnqueueDelta created_at d b t validate) s = Some (snd (enqueue_delta api created_at d b t validate s))"
| "run_call api now (RegisterConsumer c) s = Some (snd (register_transport_consumer api c s))"
| "run_call api now (AckUntil c q) s = Some (snd (ack_transport_until_for_consumer api c q s))"
| "run_call api now Compact s = map_option snd (compact_transport_up_to_min_acked api s)"
| "run_call api now (DeleteSnapshot i) s = map_option snd (delete_snapshot api i s)"
| "run_call api now (Retain keep) s = map_option snd (apply_snapshot_retention api keep s)"

fun run_calls :: "'e lmdb_api \<Rightarrow> int \<Rightarrow> store_call list \<Rightarrow> 'e lmdb_handle \<Rightarrow> 'e lmdb_handle option" where
  "run_calls api now [] s = Some s"
| "run_calls api now (call # calls) s =
    (case run_call api now call s of None \<Rightarrow> None | Some s' \<Rightarrow> run_calls api now calls s')"

subsection \<open>The invariant\<close>

definition store_ok :: "contents \<Rightarrow> bool" where
  "store_ok m \<longleftrightarrow> outbox_ok m \<and> consumers_ok m \<and> next_sequence m \<noteq> 0"

text \<open>
  From one state of the contents to a later one, for every consumer: its acknowledgement only grows, and a
  record of the outbox stays as it is until it is acknowledged.
\<close>

definition keeps_delivery :: "contents \<Rightarrow> contents \<Rightarrow> bool" where
  "keeps_delivery m m' \<longleftrightarrow> (\<forall>c a. acked m c = Some a \<longrightarrow> (\<exists>a'. acked m' c = Some a' \<and> a \<le> a' \<and>
    (\<forall>q frame. outbox m q = Some frame \<longrightarrow> outbox m' q = Some frame \<or> q \<le> a')))"

definition step_ok :: "contents \<Rightarrow> contents \<Rightarrow> bool" where
  "step_ok m m' \<longleftrightarrow> store_ok m' \<and> keeps_delivery m m' \<and> unat (next_sequence m') \<le> unat (next_sequence m) + 2"

text \<open>Contents that differ in snapshots and deltas only.\<close>

lemma step_ok_same:
  assumes "store_ok m" "m' kDbTransport = m kDbTransport" "m' kDbTransportConsumers = m kDbTransportConsumers"
    "next_sequence m' = next_sequence m"
  shows "step_ok m m'"
  using assms by (auto simp: step_ok_def store_ok_def keeps_delivery_def outbox_ok_def consumers_ok_def outbox_def acked_def)

lemma next_sequence_cong: "m' kDbMeta = m kDbMeta \<Longrightarrow> next_sequence m' = next_sequence m"
  by (simp add: next_sequence_def)

lemma step_ok_refl: "store_ok m \<Longrightarrow> step_ok m m"
  by (rule step_ok_same) simp_all

text \<open>There is room for two more sequence numbers, the most that one call takes.\<close>

definition room :: "nat \<Rightarrow> contents \<Rightarrow> bool" where
  "room n m \<longleftrightarrow> unat (next_sequence m) + 2 * n < 2 ^ 64"

lemma stored_frame_ok_serialize:
  "frame_fits route payload \<Longrightarrow> stored_frame_ok q (serialize_frame type route payload created_at)"
  using parse_frame_layout [of route payload type created_at "blank_record q"]
  by (auto simp: frame_fits_def stored_frame_ok_def serialize_frame_layout)

lemma next_word:
  assumes "unat (n :: u64) + 1 < 2 ^ 64" shows "unat (n + 1) = unat n + 1" "n < n + 1" "n + 1 \<noteq> 0"
proof -
  show n: "unat (n + 1) = unat n + 1" using assms by (simp add: unat_word_ariths)
  then show "n < n + 1" by (simp add: word_less_nat_alt)
  show "n + 1 \<noteq> 0" using n by (metis add_is_0 one_neq_zero unat_0)
qed

lemma step_ok_enqueued:
  assumes ok: "store_ok m" and room: "unat (next_sequence m) + 1 < 2 ^ 64" and frame: "\<And>q. stored_frame_ok q frame"
  shows "store_ok (enqueued frame m)" "keeps_delivery m (enqueued frame m)"
    "unat (next_sequence (enqueued frame m)) = unat (next_sequence m) + 1"
proof -
  note n = next_word [OF room]
  show "unat (next_sequence (enqueued frame m)) = unat (next_sequence m) + 1" using n by simp
  have "outbox_ok (enqueued frame m)"
    unfolding outbox_ok_def
  proof (intro allI impI)
    fix k raw assume k: "enqueued frame m kDbTransport k = Some raw"
    show "\<exists>q. k = encode_u64_be q \<and> q \<noteq> 0 \<and> q < next_sequence (enqueued frame m) \<and> stored_frame_ok q raw"
    proof (cases "k = encode_u64_be (next_sequence m)")
      case True
      then show ?thesis using k ok n frame enqueued_view(1) [of frame m]
        by (auto simp: enqueued_def put_record_apply store_ok_def simp del: put_record_view)
    next
      case False
      then have "m kDbTransport k = Some raw" using k by (simp add: enqueued_def put_record_apply)
      then obtain q where "k = encode_u64_be q" "q \<noteq> 0" "q < next_sequence m" "stored_frame_ok q raw"
        using ok by (auto simp: store_ok_def outbox_ok_def)
      then show ?thesis using less_trans [OF _ n(2)] by auto
    qed
  qed
  then show "store_ok (enqueued frame m)"
    using ok n(3) by (simp add: store_ok_def consumers_ok_def enqueued_apply)
  have "outbox m (next_sequence m) = None"
    using ok outbox_okD [of m "next_sequence m"] by (cases "outbox m (next_sequence m)") (auto simp: store_ok_def)
  then show "keeps_delivery m (enqueued frame m)" by (auto simp: keeps_delivery_def)
qed

lemma keeps_delivery_trans:
  "keeps_delivery m m' \<Longrightarrow> keeps_delivery m' m'' \<Longrightarrow> keeps_delivery m m''"
  unfolding keeps_delivery_def by (meson order_trans)

lemma step_ok_consumer:
  assumes ok: "store_ok m" and ack: "case acked m c of None \<Rightarrow> True | Some a \<Rightarrow> a \<le> q"
  shows "step_ok m (put_record kDbTransportConsumers (string_bytes c) (encode_u64_be q) m)"
proof -
  let ?m = "put_record kDbTransportConsumers (string_bytes c) (encode_u64_be q) m"
  have "acked ?m c' = (if c' = c then Some q else acked m c')" for c'
    by (simp add: acked_def put_record_apply)
  moreover have "consumers_ok ?m" using ok by (simp add: store_ok_def consumers_ok_def put_record_apply)
  moreover have "outbox_ok ?m" using ok by (simp add: store_ok_def outbox_ok_def put_record_apply)
  ultimately show ?thesis using ok ack by (auto simp: step_ok_def store_ok_def keeps_delivery_def split: option.splits)
qed

lemma step_ok_compacted:
  assumes ok: "store_ok m" and fin: "finite (acks_of m)"
  shows "step_ok m (compacted m)"
proof -
  have other: "compacted m db = m db" if "db \<noteq> kDbTransport" for db
    using that by (simp add: compacted_def without_other)
  have "acked (compacted m) = acked m" "next_sequence (compacted m) = next_sequence m"
    "consumers_ok (compacted m) = consumers_ok m"
    by (simp_all add: acked_def fun_eq_iff other next_sequence_cong consumers_ok_def)
  moreover have "outbox_ok (compacted m)"
    using ok calculation(2) by (auto simp: store_ok_def outbox_ok_def compacted_def without_apply split: if_splits)
  moreover have "outbox (compacted m) q = Some frame \<or> q \<le> a"
    if consumer: "acked m c = Some a" and frame: "outbox m q = Some frame" for c a q frame
  proof (cases "q \<le> Min (acks_of m)")
    case True
    have "Min (acks_of m) \<le> a" using consumer fin by (intro Min_le) (auto simp: acks_of_def)
    then show ?thesis using True by (rule order_trans [rotated, THEN disjI2])
  next
    case False
    then show ?thesis using frame unfolding outbox_def compacted_def without_def by (simp del: Min_ge_iff)
  qed
  ultimately show ?thesis using ok by (auto simp: step_ok_def store_ok_def keeps_delivery_def)
qed

lemma finite_acks: "finite (acks_of m)"
  by (rule finite_subset [of _ UNIV]) simp_all

lemma store_effect_step:
  assumes "store_effect contents s outcome spec" "store_ok (store_contents contents s)"
    "\<And>a m'. spec (store_contents contents s) a m' \<Longrightarrow> step_ok (store_contents contents s) m'"
  shows "step_ok (store_contents contents s) (store_contents contents (snd outcome))"
  using assms by (auto simp: store_effect_def step_ok_refl split: sum.splits)

lemma put_record_same:
  assumes "store_ok m" "dbi = kDbSnapshots \<or> dbi = kDbDeltas" shows "step_ok m (put_record dbi key val m)"
  using assms by (intro step_ok_same) (auto simp: put_record_apply)

lemma step_ok_enqueued_after:
  assumes step: "step_ok m m1" "m1 kDbMeta = m kDbMeta" and room: "unat (next_sequence m) + 1 < 2 ^ 64" and fits: "frame_fits route payload"
  shows "step_ok m (enqueued (serialize_frame type route payload created_at) m1)"
proof -
  have n: "next_sequence m1 = next_sequence m" using step(2) by (simp add: next_sequence_def)
  note e = step_ok_enqueued [of m1 "serialize_frame type route payload created_at", OF _ _ stored_frame_ok_serialize [OF fits]]
  show ?thesis using step(1) e room n keeps_delivery_trans [of m m1] by (simp add: step_ok_def)
qed

lemma step_ok_both:
  assumes step: "step_ok m m1" "m1 kDbMeta = m kDbMeta" and room: "room 1 m"
    and fits: "frame_fits route payload" "frame_fits route' payload'"
  shows "step_ok m (enqueued (serialize_frame type' route' payload' created_at')
    (enqueued (serialize_frame type route payload created_at) m1))"
proof -
  let ?f = "serialize_frame type route payload created_at" and ?f' = "serialize_frame type' route' payload' created_at'"
  have n: "next_sequence m1 = next_sequence m" using step(2) by (simp add: next_sequence_def)
  then have "unat (next_sequence m1) + 1 < 2 ^ 64" using room by (simp add: room_def)
  note e = step_ok_enqueued [of m1 ?f, OF _ this stored_frame_ok_serialize [OF fits(1)]]
  have ok: "store_ok m1" using step(1) by (simp add: step_ok_def)
  have "unat (next_sequence (enqueued ?f m1)) + 1 < 2 ^ 64" using e(3) [OF ok] n room by (simp add: room_def)
  note e' = step_ok_enqueued [of "enqueued ?f m1" ?f', OF e(1) [OF ok] this stored_frame_ok_serialize [OF fits(2)]]
  have "keeps_delivery m (enqueued ?f' (enqueued ?f m1))"
    using step(1) e(2) [OF ok] e'(2) keeps_delivery_trans by (metis step_ok_def)
  moreover have "unat (next_sequence (enqueued ?f' (enqueued ?f m1))) = unat (next_sequence m) + 2"
    using e(3) [OF ok] e'(3) n by simp
  ultimately show ?thesis using e'(1) by (simp add: step_ok_def)
qed

lemma room_one: "room 1 m \<Longrightarrow> unat (next_sequence m) + 1 < 2 ^ 64"
  by (simp add: room_def)

lemma step_ok_snapshots_deltas:
  assumes "store_ok m" shows "step_ok m (without kDbDeltas gone (without kDbSnapshots gone' m))"
  using assms by (intro step_ok_same next_sequence_cong) (simp_all add: without_other)

lemma step_ok_retention: "store_ok m \<Longrightarrow> retention_spec keep m stats m' \<Longrightarrow> step_ok m m'"
  by (auto simp: retention_spec_def Let_def step_ok_refl step_ok_snapshots_deltas split: if_splits)

lemma loop_step:
  assumes "\<exists>outcome. run = Some outcome \<and> store_effect contents s outcome spec" "store_ok (store_contents contents s)"
    "\<And>a m'. spec (store_contents contents s) a m' \<Longrightarrow> step_ok (store_contents contents s) m'"
  shows "\<exists>s'. map_option snd run = Some s' \<and> step_ok (store_contents contents s) (store_contents contents s')"
  using assms store_effect_step [of contents s _ spec] by auto

text \<open>Every call returns and is a step.\<close>

lemma run_call_step:
  assumes laws: "lmdb_laws api contents" and ok: "store_ok (store_contents contents s)"
    and room: "room 1 (store_contents contents s)"
  shows "\<exists>s'. run_call api now call s = Some s' \<and> step_ok (store_contents contents s) (store_contents contents s')"
proof -
  let ?m = "store_contents contents s"
  note same = put_record_same [OF ok] and after = step_ok_enqueued_after [OF _ _ room_one [OF room]]
    and consumer = step_ok_consumer [OF ok] and effect = store_effect_step [OF _ ok] and loop = loop_step [OF _ ok]
  have enq: "step_ok ?m (store_contents contents (snd (enqueue_transport_record api type route payload created_at s)))"
    for type route payload created_at
    by (rule effect [OF enqueue_record_effect [OF laws]]) (auto intro: after step_ok_refl [OF ok])
  show ?thesis
  proof (cases call)
    case (PutSnapshot sn validate)
    have "step_ok ?m (store_contents contents (snd (put_snapshot api now sn validate s)))"
      by (rule effect [OF put_snapshot_effect [OF laws]]) (auto intro: same)
    then show ?thesis by (simp add: PutSnapshot)
  next
    case (PutSnapshotWithTransport created_at sn enqueue validate)
    have "step_ok ?m (store_contents contents (snd (put_snapshot_with_transport api now created_at sn enqueue validate s)))"
      by (rule effect [OF put_snapshot_with_transport_effect [OF laws]])
        (auto simp: Let_def put_record_apply split: if_splits intro!: after same)
    then show ?thesis by (simp add: PutSnapshotWithTransport)
  next
    case (PutDelta d b t validate)
    have "step_ok ?m (store_contents contents (snd (put_delta api d b t validate s)))"
      by (rule effect [OF put_delta_effect [OF laws]]) (auto intro: same)
    then show ?thesis by (simp add: PutDelta)
  next
    case (PutSnapshotAndDelta created_at created_at' sn d b enqueue validate)
    have two: "step_ok ?m (put_record kDbDeltas k' v' (put_record kDbSnapshots k v ?m))" for k v k' v'
      using ok by (intro step_ok_same next_sequence_cong) (simp_all add: put_record_apply)
    have "step_ok ?m (store_contents contents (snd
        (put_snapshot_and_delta_with_transport api now created_at created_at' sn d b enqueue validate s)))"
      by (rule effect [OF put_both_effect [OF laws]])
        (auto simp: Let_def put_record_apply split: if_splits intro!: step_ok_both [OF _ _ room] two)
    then show ?thesis by (simp add: PutSnapshotAndDelta)
  next
    case (EnqueueSnapshot created_at sn validate)
    then show ?thesis using enq by (simp add: enqueue_snapshot_def step_ok_refl [OF ok] split: sum.split)
  next
    case (EnqueueDelta created_at d b t validate)
    then show ?thesis using enq by (simp add: enqueue_delta_def step_ok_refl [OF ok] split: sum.split)
  next
    case (RegisterConsumer c)
    have "step_ok ?m (store_contents contents (snd (register_transport_consumer api c s)))"
      by (rule effect [OF register_effect [OF laws]]) (auto intro: consumer step_ok_refl [OF ok] split: if_splits)
    then show ?thesis by (simp add: RegisterConsumer)
  next
    case (AckUntil c q)
    have "step_ok ?m (store_contents contents (snd (ack_transport_until_for_consumer api c q s)))"
      by (rule effect [OF ack_effect [OF laws]])
        (auto simp: Let_def intro!: consumer step_ok_refl [OF ok] split: if_splits option.splits)
    then show ?thesis by (simp add: AckUntil)
  next
    case Compact
    have "outbox_ok ?m" using ok by (simp add: store_ok_def)
    from loop [OF compact_effect [OF laws this]] show ?thesis
      using step_ok_compacted [OF ok finite_acks] by (simp add: Compact)
  next
    case (DeleteSnapshot i)
    from loop [OF delete_snapshot_effect [OF laws]] show ?thesis
      using step_ok_snapshots_deltas [OF ok] by (simp add: DeleteSnapshot)
  next
    case (Retain keep)
    from loop [OF retention_effect [OF laws]] show ?thesis
      using step_ok_retention [OF ok] by (simp add: Retain)
  qed
qed

lemma step_ok_room: "step_ok m m' \<Longrightarrow> room (Suc n) m \<Longrightarrow> room n m'"
  by (simp add: step_ok_def room_def)

lemma run_calls_step:
  assumes laws: "lmdb_laws api contents"
  shows "store_ok (store_contents contents s) \<Longrightarrow> room (length calls) (store_contents contents s) \<Longrightarrow>
    \<exists>s'. run_calls api now calls s = Some s' \<and> store_ok (store_contents contents s') \<and>
      keeps_delivery (store_contents contents s) (store_contents contents s')"
proof (induction calls arbitrary: s)
  case Nil
  then show ?case by (auto simp: keeps_delivery_def)
next
  case (Cons call calls)
  have "room 1 (store_contents contents s)" using Cons.prems(2) by (simp add: room_def)
  then obtain s1 where s1: "run_call api now call s = Some s1" "step_ok (store_contents contents s) (store_contents contents s1)"
    using run_call_step [OF laws Cons.prems(1)] by blast
  moreover have "store_ok (store_contents contents s1)" "room (length calls) (store_contents contents s1)"
    using s1(2) Cons.prems(2) step_ok_room by (auto simp: step_ok_def)
  then obtain s' where "run_calls api now calls s1 = Some s'" "store_ok (store_contents contents s')"
    "keeps_delivery (store_contents contents s1) (store_contents contents s')" using Cons.IH by blast
  ultimately show ?case using keeps_delivery_trans by (auto simp: step_ok_def)
qed

subsection \<open>What is read after a write\<close>

lemma prepare_snapshot_Inr:
  "prepare_snapshot now validate sn = Inr payload \<longleftrightarrow>
    (validate \<longrightarrow> \<not> has_errors (validate_snapshot now sn)) \<and> serialize_snapshot_binary sn [] = Inr payload"
  by (auto simp: prepare_snapshot_def sum_bind_eq_Inr validate_snapshot_for_store_def Let_def
      serialization_to_store_status_def split: sum.splits if_splits)

lemma prepare_delta_Inr:
  "prepare_delta validate d b t = Inr payload \<longleftrightarrow>
    (validate \<longrightarrow> \<not> has_errors (validate_delta d b t)) \<and> serialize_delta_binary d [] = Inr payload"
  by (auto simp: prepare_delta_def sum_bind_eq_Inr validate_delta_for_store_def Let_def
      serialization_to_store_status_def split: sum.splits if_splits)

lemma prepare_both_Inr:
  "prepare_both now validate sn d b = Inr (payload, payload') \<longleftrightarrow>
    prepare_snapshot now validate sn = Inr payload \<and> prepare_delta validate d b (Some sn) = Inr payload'"
  by (auto simp: prepare_both_def sum_bind_eq_Inr prepare_snapshot_Inr prepare_delta_Inr
      validate_snapshot_for_store_def validate_delta_for_store_def Let_def split: if_splits)

lemma in_write_txn_open: "in_write_txn api message work s = (Inr a, s') \<Longrightarrow> is_open s \<Longrightarrow> is_open s'"
  by (auto simp: in_write_txn_def finish_txn_def is_open_def split: sum.splits if_splits prod.splits)

lemma store_begin_txn_Inl: "is_open s \<Longrightarrow> store_begin_txn api s = Inl e \<Longrightarrow> sf_code e = LmdbError"
  by (auto simp: store_begin_txn_def split: if_splits prod.splits)

lemma store_get_blob_present:
  assumes "lmdb_laws api contents" "contents txn dbi key = Some val"
  shows "store_get_blob api dbi txn key = Inr val \<or> (\<exists>e. store_get_blob api dbi txn key = Inl e \<and> sf_code e = LmdbError)"
  using assms(2) lm_get_ok [OF assms(1)] lm_get_notfound [OF assms(1)]
  by (fastforce simp: store_get_blob_def split: if_splits prod.splits)

text \<open>A read of a stored record fails with an error of LMDB only, unless it is validated.\<close>

lemma get_snapshot_stored:
  assumes laws: "lmdb_laws api contents" and "is_open s" and "store_contents contents s kDbSnapshots (encode_u64_be i) = Some payload"
    and "deserialize_snapshot_binary payload = Inr (sn, rest)"
  shows "case get_snapshot api now i check s of
      Inr sn' \<Rightarrow> sn' = sn \<and> \<not> (check \<and> has_errors (validate_snapshot now sn))
    | Inl e \<Rightarrow> sf_code e = LmdbError \<or> sf_code e = ValidationFailure \<and> check \<and> has_errors (validate_snapshot now sn)"
proof (cases "store_begin_txn api s")
  case (Inl e)
  then show ?thesis using store_begin_txn_Inl assms(2) by (auto simp: get_snapshot_def)
next
  case (Inr txn)
  have "store_get_blob api kDbSnapshots txn (encode_u64_be i) = Inr payload \<or>
      (\<exists>e. store_get_blob api kDbSnapshots txn (encode_u64_be i) = Inl e \<and> sf_code e = LmdbError)"
    using store_get_blob_present [OF laws, of txn kDbSnapshots "encode_u64_be i" payload] assms(3)
      store_begin_txn_Inr(1) [OF laws Inr] by auto
  then show ?thesis using Inr assms(2,4)
    by (auto simp: get_snapshot_def read_snapshot_def serialization_to_store_status_def validate_snapshot_for_store_def
        store_error_def Let_def)
qed

lemma get_delta_stored:
  assumes laws: "lmdb_laws api contents" and "is_open s" and "store_contents contents s kDbDeltas (make_delta_key b t) = Some payload"
    and "deserialize_delta_binary payload = Inr (d, rest)"
  shows "case get_delta api b t check s of
      Inr d' \<Rightarrow> d' = d \<and> \<not> (check \<and> has_errors (validate_delta d None None))
    | Inl e \<Rightarrow> sf_code e = LmdbError \<or> sf_code e = ValidationFailure \<and> check \<and> has_errors (validate_delta d None None)"
proof (cases "store_begin_txn api s")
  case (Inl e)
  then show ?thesis using store_begin_txn_Inl assms(2) by (auto simp: get_delta_def)
next
  case (Inr txn)
  have "store_get_blob api kDbDeltas txn (make_delta_key b t) = Inr payload \<or>
      (\<exists>e. store_get_blob api kDbDeltas txn (make_delta_key b t) = Inl e \<and> sf_code e = LmdbError)"
    using store_get_blob_present [OF laws, of txn kDbDeltas "make_delta_key b t" payload] assms(3)
      store_begin_txn_Inr(1) [OF laws Inr] by auto
  then show ?thesis using Inr assms(2,4)
    by (auto simp: get_delta_def read_delta_def serialization_to_store_status_def validate_delta_for_store_def
        store_error_def Let_def)
qed

text \<open>The contents after a snapshot and a delta were put.\<close>

definition both_stored :: "snapshot \<Rightarrow> delta_snapshot \<Rightarrow> u64 \<Rightarrow> u64 \<Rightarrow> bool \<Rightarrow> bytes \<Rightarrow> bytes \<Rightarrow> contents \<Rightarrow> (u64 \<times> u64) option \<Rightarrow> contents \<Rightarrow> bool" where
  "both_stored sn d created_at created_at' enqueue payload payload' m numbers m' \<longleftrightarrow>
    (let m1 = put_record kDbDeltas (make_delta_key (dl_base_snapshot_id d) (dl_target_snapshot_id d)) payload'
           (put_record kDbSnapshots (encode_u64_be (sn_snapshot_id sn)) payload m)
     in if enqueue
        then numbers = Some (next_sequence m, next_sequence m + 1) \<and>
          m' = enqueued (serialize_frame Transport_Delta (delta_route d) payload' created_at')
            (enqueued (serialize_frame Transport_Snapshot (sn_host_identifier sn) payload created_at) m1)
        else numbers = None \<and> m' = m1)"

lemma put_both_result:
  assumes laws: "lmdb_laws api contents"
    and run: "put_snapshot_and_delta_with_transport api now created_at created_at' sn d base enqueue validate s = (result, s')"
  shows "case result of
      Inl e \<Rightarrow> store_contents contents s' = store_contents contents s
    | Inr numbers \<Rightarrow> \<exists>payload payload'. prepare_snapshot now validate sn = Inr payload \<and>
        prepare_delta validate d base (Some sn) = Inr payload' \<and>
        both_stored sn d created_at created_at' enqueue payload payload' (store_contents contents s) numbers (store_contents contents s')"
proof (cases result)
  case (Inl e)
  then show ?thesis using put_both_effect [OF laws] run by (metis (no_types, lifting) fst_conv snd_conv store_effect_def sum.simps(5))
next
  case (Inr numbers)
  have "store_effect contents s (Inr numbers, s') (\<lambda>m a m'. \<exists>payload payload'. prepare_snapshot now validate sn = Inr payload \<and>
      prepare_delta validate d base (Some sn) = Inr payload' \<and>
      both_stored sn d created_at created_at' enqueue payload payload' m a m')"
    using put_both_effect [OF laws, where s = s and now = now and created_at = created_at and created_at' = created_at'
        and sn = sn and d = d and base = base and enqueue = enqueue and validate = validate]
    unfolding run Inr both_stored_def store_effect_def fst_conv sum.case
    by (elim exE conjE) (simp add: Let_def prepare_both_Inr split: if_splits)
  then show ?thesis by (simp add: Inr store_effect_def)
qed

lemma put_record_at:
  "put_record dbi key val m dbi = (m dbi)(key \<mapsto> val)" "db \<noteq> dbi \<Longrightarrow> put_record dbi key val m db = m db"
  by (simp_all add: put_record_def)

lemma both_stored_view:
  assumes "both_stored sn d created_at created_at' enqueue payload payload' m numbers m'"
  shows "m' kDbSnapshots = (m kDbSnapshots)(encode_u64_be (sn_snapshot_id sn) \<mapsto> payload)"
    "m' kDbDeltas = (m kDbDeltas)(make_delta_key (dl_base_snapshot_id d) (dl_target_snapshot_id d) \<mapsto> payload')"
    "acked m' = acked m"
    "if enqueue
     then numbers = Some (next_sequence m, next_sequence m + 1) \<and> next_sequence m' = next_sequence m + 2 \<and>
       outbox m' = (outbox m)
         (next_sequence m \<mapsto> serialize_frame Transport_Snapshot (sn_host_identifier sn) payload created_at,
          next_sequence m + 1 \<mapsto> serialize_frame Transport_Delta (delta_route d) payload' created_at')
     else numbers = None \<and> next_sequence m' = next_sequence m \<and> outbox m' = outbox m"
    by (use assms in \<open>auto simp: both_stored_def Let_def put_record_at enqueued_apply add.assoc split: if_splits\<close>)

lemma put_both_open:
  "put_snapshot_and_delta_with_transport api now created_at created_at' sn d b enqueue validate s = (Inr a, s') \<Longrightarrow> is_open s'"
  by (auto simp: put_snapshot_and_delta_with_transport_def split: if_splits sum.splits prod.splits dest: in_write_txn_open)

subsection \<open>Retention keeps the newest\<close>

definition stored_ids :: "contents \<Rightarrow> u64 set" where
  "stored_ids m = {i. m kDbSnapshots (encode_u64_be i) \<noteq> None}"

definition stored_time :: "contents \<Rightarrow> u64 \<Rightarrow> i64" where
  "stored_time m i = sn_created_at (fst (projr (deserialize_snapshot_binary (the (m kDbSnapshots (encode_u64_be i))))))"

text \<open>\<open>i\<close> is newer than \<open>j\<close>: created later, or at the same time with a larger identifier.\<close>

definition newer :: "contents \<Rightarrow> u64 \<Rightarrow> u64 \<Rightarrow> bool" where
  "newer m i j \<longleftrightarrow> sint (stored_time m j) < sint (stored_time m i) \<or> stored_time m j = stored_time m i \<and> j < i"

definition item_of :: "contents \<Rightarrow> u64 \<Rightarrow> snapshot_retention_item" where
  "item_of m i = \<lparr>ri_snapshot_id = i, ri_created_at = stored_time m i\<rparr>"

lemma finite_stored_ids [simp]: "finite (stored_ids m)"
  by (rule finite_subset [of _ UNIV]) simp_all

lemma stored_items_ids:
  assumes "\<And>k. m kDbSnapshots k \<noteq> None \<Longrightarrow> length k = 8" "finite (dom (m kDbSnapshots))"
  shows "stored_items m = map (item_of m) (sorted_list_of_set (stored_ids m))"
proof -
  have "\<exists>q. k = encode_u64_be q" if "m kDbSnapshots k \<noteq> None" for k
    using encode_decode [OF assms(1) [OF that]] by metis
  from records_of_numbers [of "m kDbSnapshots", OF this assms(2)] show ?thesis
    by (simp add: stored_items_def stored_ids_def stored_item_def item_of_def stored_time_def comp_def)
qed

lemma retention_key_newer: "retention_key (item_of m i) < retention_key (item_of m j) \<longleftrightarrow> newer m i j"
  by (auto simp: retention_key_def item_of_def newer_def less_prod_def word_less_def word_eq_iff_signed [symmetric])

lemma retention_key_inj: "retention_key (item_of m i) = retention_key (item_of m j) \<longleftrightarrow> i = j"
  by (auto simp: retention_key_def item_of_def word_eq_iff_signed [symmetric] word_uint_eq_iff [symmetric])

text \<open>The elements in front of a list sorted by an injective key.\<close>

lemma sort_key_take_drop:
  fixes f :: "'a \<Rightarrow> 'k::linorder"
  assumes "x \<in> set (take n (sort_key f xs))" "y \<in> set (drop n (sort_key f xs))"
  shows "f x \<le> f y"
proof -
  have "sorted (map f (take n (sort_key f xs)) @ map f (drop n (sort_key f xs)))"
    by (simp flip: map_append)
  then show ?thesis using assms unfolding sorted_append by auto
qed

lemma retained_ids_newest:
  defines "xs m \<equiv> map (item_of m) (sorted_list_of_set (stored_ids m))"
  defines "kept m keep \<equiv> retained_ids keep (xs m)"
  shows "kept m keep \<subseteq> stored_ids m" "card (kept m keep) = min keep (card (stored_ids m))"
    "i \<in> kept m keep \<Longrightarrow> j \<in> stored_ids m - kept m keep \<Longrightarrow> newer m i j"
proof -
  let ?ys = "sort_key retention_key (xs m)"
  have kept: "kept m keep = ri_snapshot_id ` set (take keep ?ys)" by (simp add: kept_def retained_ids_def)
  have items: "x \<in> set ?ys \<longleftrightarrow> (\<exists>i \<in> stored_ids m. x = item_of m i)" for x by (auto simp: xs_def)
  have idn: "ri_snapshot_id (item_of m i) = i" for i by (simp add: item_of_def)
  show "kept m keep \<subseteq> stored_ids m"
    unfolding kept using items idn set_take_subset [of keep ?ys] by fastforce
  have "distinct (xs m)" using idn by (auto simp: xs_def distinct_map inj_on_def) (metis idn)
  then have dist: "distinct ?ys" by simp
  have inj: "inj_on ri_snapshot_id (set ?ys)"
    by (rule inj_onI) (use items idn in metis)
  then have "inj_on ri_snapshot_id (set (take keep ?ys))"
    by (rule inj_on_subset) (rule set_take_subset)
  then have "card (kept m keep) = length (take keep ?ys)"
    unfolding kept using dist by (simp only: card_image distinct_card distinct_take)
  then show "card (kept m keep) = min keep (card (stored_ids m))" by (simp add: xs_def)
  assume i: "i \<in> kept m keep" and j: "j \<in> stored_ids m - kept m keep"
  have "item_of m i \<in> set (take keep ?ys)"
    using i items idn set_take_subset [of keep ?ys] unfolding kept by fastforce
  moreover have "item_of m j \<in> set ?ys" "item_of m j \<notin> set (take keep ?ys)"
    using j items idn unfolding kept by (auto, metis image_eqI)
  then have "item_of m j \<in> set (drop keep ?ys)" by (metis Un_iff append_take_drop_id set_append)
  ultimately have "retention_key (item_of m i) \<le> retention_key (item_of m j)" by (rule sort_key_take_drop)
  moreover have "i \<noteq> j" using i j by auto
  ultimately show "newer m i j" using retention_key_newer retention_key_inj by (metis order_le_imp_less_or_eq)
qed

lemma finite_store_contents: "lmdb_laws api contents \<Longrightarrow> finite (dom (store_contents contents s db))"
  using finite_contents by (auto simp: store_contents_def split: option.split)

lemma stored_ids_other: "m' kDbSnapshots = m kDbSnapshots \<Longrightarrow> stored_ids m' = stored_ids m"
  by (simp add: stored_ids_def)

text \<open>The specification of retention, in the terms of the stored identifiers.\<close>

lemma retention_exact:
  assumes spec: "retention_spec keep m stats m'" and fin: "finite (dom (m kDbSnapshots))"
  shows "stored_ids m' \<subseteq> stored_ids m \<and> card (stored_ids m') = min keep (card (stored_ids m)) \<and>
    (\<forall>i \<in> stored_ids m'. \<forall>j \<in> stored_ids m - stored_ids m'. newer m i j) \<and>
    (\<forall>k. m' kDbSnapshots k = (if decode_u64_be k \<in> stored_ids m' then m kDbSnapshots k else None)) \<and>
    (\<forall>k. m' kDbDeltas k = (if stored_ids m' = stored_ids m \<or> delta_base k \<in> stored_ids m' \<and> delta_target k \<in> stored_ids m'
       then m kDbDeltas k else None)) \<and>
    cs_snapshots_removed stats = card (stored_ids m - stored_ids m') \<and>
    cs_deltas_removed stats = card {k. m kDbDeltas k \<noteq> None \<and> m' kDbDeltas k = None}"
proof -
  have sizes: "length k = 8" if "m kDbSnapshots k \<noteq> None" for k
    using that spec by (auto simp: retention_spec_def Let_def)
  have present: "decode_u64_be k \<in> stored_ids m" if "m kDbSnapshots k \<noteq> None" for k
    using that encode_decode [OF sizes [OF that]] by (simp add: stored_ids_def)
  define kept where "kept = retained_ids keep (stored_items m)"
  have items: "stored_items m = map (item_of m) (sorted_list_of_set (stored_ids m))"
    using sizes fin by (rule stored_items_ids)
  note newest = retained_ids_newest [where m = m and keep = keep, folded items, folded kept_def]
  have count: "length (stored_items m) = card (stored_ids m)" by (simp add: items)
  show ?thesis
  proof (cases "card (stored_ids m) \<le> keep")
    case True
    then have "m' = m" "stats = \<lparr>cs_snapshots_removed = 0, cs_deltas_removed = 0\<rparr>"
      using spec count by (simp_all add: retention_spec_def Let_def)
    moreover have "m kDbSnapshots k = None" if "decode_u64_be k \<notin> stored_ids m" for k using that present by blast
    ultimately show ?thesis using True by (auto simp: card_eq_0_iff)
  next
    case False
    then have m': "m' = without kDbDeltas (\<lambda>k. \<not> (delta_base k \<in> kept \<and> delta_target k \<in> kept))
        (without kDbSnapshots (\<lambda>k. decode_u64_be k \<notin> kept) m)"
      and stats: "cs_snapshots_removed stats = card {k. m kDbSnapshots k \<noteq> None \<and> decode_u64_be k \<notin> kept}"
        "cs_deltas_removed stats = card {k. m kDbDeltas k \<noteq> None \<and> \<not> (delta_base k \<in> kept \<and> delta_target k \<in> kept)}"
      using spec count by (simp_all add: retention_spec_def Let_def kept_def)
    have ids: "stored_ids m' = kept"
      using newest(1) by (auto simp: stored_ids_def m' without_apply)
    have "{k. m kDbSnapshots k \<noteq> None \<and> decode_u64_be k \<notin> kept} = encode_u64_be ` (stored_ids m - kept)"
    proof (rule set_eqI, rule iffI)
      fix k assume "k \<in> {k. m kDbSnapshots k \<noteq> None \<and> decode_u64_be k \<notin> kept}"
      then have "k = encode_u64_be (decode_u64_be k)" "decode_u64_be k \<in> stored_ids m - kept"
        using encode_decode [OF sizes] present by auto
      then show "k \<in> encode_u64_be ` (stored_ids m - kept)" by blast
    next
      fix k assume "k \<in> encode_u64_be ` (stored_ids m - kept)"
      then show "k \<in> {k. m kDbSnapshots k \<noteq> None \<and> decode_u64_be k \<notin> kept}" by (auto simp: stored_ids_def)
    qed
    then have removed: "cs_snapshots_removed stats = card (stored_ids m - kept)"
      using stats(1) by (simp add: card_image inj_on_def)
    have some: "kept \<noteq> stored_ids m" using newest(2) False by auto
    have snap: "\<forall>k. m' kDbSnapshots k = (if decode_u64_be k \<in> kept then m kDbSnapshots k else None)"
      by (simp add: m' without_apply)
    have rest: "\<forall>k. m' kDbDeltas k = (if delta_base k \<in> kept \<and> delta_target k \<in> kept then m kDbDeltas k else None)"
      by (simp add: m' without_apply)
    then have "{k. m kDbDeltas k \<noteq> None \<and> m' kDbDeltas k = None} =
        {k. m kDbDeltas k \<noteq> None \<and> \<not> (delta_base k \<in> kept \<and> delta_target k \<in> kept)}" by auto
    then have "cs_deltas_removed stats = card {k. m kDbDeltas k \<noteq> None \<and> m' kDbDeltas k = None}" using stats(2) by simp
    then show ?thesis unfolding ids using newest snap rest some removed by (intro conjI ballI) simp_all
  qed
qed

subsection \<open>Properties\<close>

text \<open>
  \<open>put_snapshot_and_delta_with_transport\<close> is atomic: on an error nothing of the store has changed.  On a
  success the store holds both serialised records under their keys, validated if that was asked for, and,
  if they were to be enqueued, the outbox has exactly two more records, the snapshot's frame and then the
  delta's under the next two sequence numbers, which are the numbers returned.
\<close>

lemma snapshot_and_delta_stored_together:
  assumes laws: "lmdb_laws api contents" and m_def: "m = store_contents contents s"
    and run: "put_snapshot_and_delta_with_transport api now created_at created_at' sn d base enqueue validate s = (result, s')"
    and m'_def: "m' = store_contents contents s'" and n_def: "n = next_sequence m"
  shows "case result of
      Inl e \<Rightarrow> m' = m
    | Inr numbers \<Rightarrow> \<exists>payload payload'.
        serialize_snapshot_binary sn [] = Inr payload \<and> serialize_delta_binary d [] = Inr payload' \<and>
        (validate \<longrightarrow> \<not> has_errors (validate_snapshot now sn) \<and> \<not> has_errors (validate_delta d base (Some sn))) \<and>
        m' kDbSnapshots = (m kDbSnapshots)(encode_u64_be (sn_snapshot_id sn) \<mapsto> payload) \<and>
        m' kDbDeltas = (m kDbDeltas)(make_delta_key (dl_base_snapshot_id d) (dl_target_snapshot_id d) \<mapsto> payload') \<and>
        acked m' = acked m \<and>
        (if enqueue
         then numbers = Some (n, n + 1) \<and> next_sequence m' = n + 2 \<and>
           outbox m' = (outbox m)
             (n \<mapsto> serialize_frame Transport_Snapshot (sn_host_identifier sn) payload created_at,
              n + 1 \<mapsto> serialize_frame Transport_Delta (delta_route d) payload' created_at')
         else numbers = None \<and> next_sequence m' = n \<and> outbox m' = outbox m)"
proof (cases result)
  case (Inl e)
  then show ?thesis using put_both_result [OF laws run] by (simp add: m_def m'_def)
next
  case (Inr numbers)
  then obtain payload payload' where p: "prepare_snapshot now validate sn = Inr payload"
      "prepare_delta validate d base (Some sn) = Inr payload'"
    and after: "both_stored sn d created_at created_at' enqueue payload payload' m numbers m'"
    using put_both_result [OF laws run] by (auto simp: m_def m'_def)
  show ?thesis unfolding Inr sum.case
    by (rule exI [of _ payload], rule exI [of _ payload'])
      (use p both_stored_view [OF after] in \<open>simp add: prepare_snapshot_Inr prepare_delta_Inr n_def\<close>)
qed

text \<open>
  C38: what is put can be got.  After a successful \<open>put_snapshot_and_delta_with_transport\<close>, \<open>get_snapshot\<close> and
  \<open>get_delta\<close> answer exactly the snapshot and the delta that were put, whether they validate what they have read
  (the default, and what every caller asks for) or not.  The only errors they can report are one of LMDB itself and,
  when the reader validates but the writer was told not to, that what was put does not validate.
\<close>

theorem stored_snapshot_and_delta_are_read_back:
  assumes laws: "lmdb_laws api contents"
    and run: "put_snapshot_and_delta_with_transport api now created_at created_at' sn d base enqueue validate s = (Inr numbers, s')"
  shows "(case get_snapshot api now' (sn_snapshot_id sn) check s' of
      Inr sn' \<Rightarrow> sn' = sn
    | Inl e \<Rightarrow> sf_code e = LmdbError \<or>
        sf_code e = ValidationFailure \<and> check \<and> \<not> validate \<and> has_errors (validate_snapshot now' sn)) \<and>
    (case get_delta api (dl_base_snapshot_id d) (dl_target_snapshot_id d) check s' of
      Inr d' \<Rightarrow> d' = d
    | Inl e \<Rightarrow> sf_code e = LmdbError \<or>
        sf_code e = ValidationFailure \<and> check \<and> \<not> validate \<and> has_errors (validate_delta d None None))"
proof -
  let ?m' = "store_contents contents s'"
  obtain payload payload' where q: "prepare_snapshot now validate sn = Inr payload"
      "prepare_delta validate d base (Some sn) = Inr payload'"
    and after: "both_stored sn d created_at created_at' enqueue payload payload' (store_contents contents s) numbers ?m'"
    using put_both_result [OF laws run] by auto
  then have p: "serialize_snapshot_binary sn [] = Inr payload" "serialize_delta_binary d [] = Inr payload'"
    "?m' kDbSnapshots (encode_u64_be (sn_snapshot_id sn)) = Some payload"
    "?m' kDbDeltas (make_delta_key (dl_base_snapshot_id d) (dl_target_snapshot_id d)) = Some payload'"
    by (simp_all add: prepare_snapshot_Inr prepare_delta_Inr both_stored_view)
  have d: "deserialize_snapshot_binary payload = Inr (sn, [])" "deserialize_delta_binary payload' = Inr (d, [])"
    using p(1,2) snapshots.rd_enc_alone deltas.rd_enc_alone by (auto simp: snapshots.wr_Inr_iff deltas.wr_Inr_iff)
  have valid: "\<not> (validate \<and> has_errors (validate_snapshot now' sn))" "\<not> (validate \<and> has_errors (validate_delta d None None))"
    using q by (auto simp: prepare_snapshot_Inr prepare_delta_Inr validate_snapshot_errors validate_delta_errors)
  have "is_open s'" using run by (rule put_both_open)
  then show ?thesis
    using get_snapshot_stored [OF laws _ p(3) d(1), where now = now' and check = check] get_delta_stored [OF laws _ p(4) d(2), where check = check] valid
    by (auto split: sum.splits)
qed

text \<open>
  C37: the outbox delivers: as long as the sequence numbers do not run out, every sequence of calls on a sound
  store returns and leaves a sound store; the acknowledgement of a registered consumer never goes back, and a
  record of the outbox that the consumer has not acknowledged at the end is still there as it was, whatever
  was put, acknowledged by others, compacted, deleted or retained in between.
\<close>

theorem unacknowledged_records_survive:
  assumes "lmdb_laws api contents" "store_ok (store_contents contents s)" "room (length calls) (store_contents contents s)"
  shows "\<exists>s'. run_calls api now calls s = Some s' \<and> store_ok (store_contents contents s') \<and>
    (\<forall>c a. acked (store_contents contents s) c = Some a \<longrightarrow>
      (\<exists>a'. acked (store_contents contents s') c = Some a' \<and> a \<le> a' \<and>
        (\<forall>q frame. outbox (store_contents contents s) q = Some frame \<longrightarrow>
          outbox (store_contents contents s') q = Some frame \<or> q \<le> a')))"
  using run_calls_step [OF assms] unfolding keeps_delivery_def by blast

text \<open>
  A batch for a consumer returns, and it is the records with the least sequence numbers among those that
  the consumer has not acknowledged, in ascending order and at most \<open>max_items\<close> of them, each decoded from
  its stored frame; the only errors are a closed store, an empty consumer identifier and those of LMDB.
\<close>

lemma batch_is_next_unacknowledged:
  assumes "lmdb_laws api contents" "store_ok (store_contents contents s)" "acked (store_contents contents s) c \<noteq> Some (- 1)"
  shows "fetched (store_contents contents s) max_items (unacked (store_contents contents s) c)
    (fetch_transport_batch_for_consumer api c max_items s)"
  using assms fetch_result [OF assms(1) refl] by (simp add: store_ok_def)

text \<open>
  The exception to it: an acknowledgement is not bounded by the numbers that were assigned, and after one
  of the largest number the next start wraps to zero: every batch then begins with the first record of the
  outbox again, acknowledged or not.
\<close>

lemma acknowledging_largest_number_replays_outbox:
  assumes laws: "lmdb_laws api contents" and ok: "store_ok (store_contents contents s)"
    and ack: "ack_transport_until_for_consumer api c (- 1) s = (Inr (), s')"
  shows "fetched (store_contents contents s') max_items {q. outbox (store_contents contents s') q \<noteq> None}
      (fetch_transport_batch_for_consumer api c max_items s') \<and>
    unacked (store_contents contents s') c = {}"
proof -
  let ?m = "store_contents contents s" and ?m' = "store_contents contents s'"
  have "max a (- 1) = (- 1 :: u64)" for a by (simp add: max_def word_order.extremum_unique)
  then have m': "?m' = ?m \<and> acked ?m c = Some (- 1) \<or>
      ?m' = put_record kDbTransportConsumers (string_bytes c) (encode_u64_be (- 1)) ?m"
    using ack_effect [OF laws, of s c "- 1"] unfolding ack by (auto simp: store_effect_def Let_def split: if_splits)
  then have last_ack: "acked ?m' c = Some (- 1)" by (auto simp: acked_def put_record_apply)
  have "step_ok ?m ?m'" using m' step_ok_refl [OF ok] step_ok_consumer [OF ok, where c = c and q = "- 1"] by (auto split: option.splits)
  then have "outbox_ok ?m'" "consumers_ok ?m'" by (simp_all add: step_ok_def store_ok_def)
  then have "fetched ?m' max_items {q. outbox ?m' q \<noteq> None} (fetch_transport_batch_for_consumer api c max_items s')"
    by (intro fetch_result_wrapped [OF laws refl _ _ last_ack])
  moreover have "unacked ?m' c = {}" using last_ack by (simp add: unacked_def not_less)
  ultimately show ?thesis ..
qed

text \<open>
  C39: \<open>apply_snapshot_retention\<close> returns; on an error it has changed nothing; on a success it has kept, as they
  were, exactly the newest snapshots, as many as were asked for or all if there are fewer, and, when it
  removed any, exactly the deltas between kept snapshots; the counts it reports are the numbers of the removed records.
\<close>

theorem retention_keeps_the_newest:
  assumes laws: "lmdb_laws api contents" and m_def: "m = store_contents contents s"
  shows "\<exists>result s' m'. apply_snapshot_retention api keep s = Some (result, s') \<and> m' = store_contents contents s' \<and>
    (case result of
       Inl e \<Rightarrow> m' = m
     | Inr stats \<Rightarrow>
         stored_ids m' \<subseteq> stored_ids m \<and> card (stored_ids m') = min keep (card (stored_ids m)) \<and>
         (\<forall>i \<in> stored_ids m'. \<forall>j \<in> stored_ids m - stored_ids m'. newer m i j) \<and>
         (\<forall>k. m' kDbSnapshots k = (if decode_u64_be k \<in> stored_ids m' then m kDbSnapshots k else None)) \<and>
         (\<forall>k. m' kDbDeltas k = (if stored_ids m' = stored_ids m \<or> delta_base k \<in> stored_ids m' \<and> delta_target k \<in> stored_ids m'
            then m kDbDeltas k else None)) \<and>
         cs_snapshots_removed stats = card (stored_ids m - stored_ids m') \<and>
         cs_deltas_removed stats = card {k. m kDbDeltas k \<noteq> None \<and> m' kDbDeltas k = None})"
proof -
  obtain result s' where run: "apply_snapshot_retention api keep s = Some (result, s')"
    and effect: "store_effect contents s (result, s') (retention_spec keep)"
    using retention_effect [OF laws, of keep s] by auto
  let ?m' = "store_contents contents s'"
  show ?thesis
  proof (cases result)
    case (Inl e)
    then show ?thesis using run effect by (auto simp: store_effect_def m_def)
  next
    case (Inr stats)
    then have spec: "retention_spec keep m stats ?m'" using effect by (simp add: store_effect_def m_def)
    from retention_exact [OF spec] finite_store_contents [OF laws, of s] show ?thesis
      using run Inr by (intro exI [of _ result] exI [of _ s'] exI [of _ ?m']) (simp add: m_def)
  qed
qed

subsection \<open>Witnesses\<close>

text \<open>A store with one record in the outbox, one consumer that has acknowledged nothing, and nothing else.\<close>

definition sample_frame :: bytes where
  "sample_frame = serialize_frame Transport_Snapshot ''h'' [1, 2, 3] 7"

definition sample_db :: list_db where
  "sample_db = (\<lambda>_. [])(kDbMeta := [(string_bytes kKeyNextSequence, encode_u64_be 2)],
    kDbTransport := [(encode_u64_be 1, sample_frame)],
    kDbTransportConsumers := [(string_bytes ''c'', encode_u64_be 0)])"

definition sample_store :: "list_db lmdb_handle" where
  "sample_store = \<lparr>lh_env = Some sample_db, lh_open = True\<rparr>"

lemma sample_contents [simp]: "store_contents list_contents sample_store = list_contents sample_db"
  by (simp add: sample_store_def)

lemma sample_view [simp]:
  "next_sequence (list_contents sample_db) = 2"
  "outbox (list_contents sample_db) q = (if q = 1 then Some sample_frame else None)"
  "acked (list_contents sample_db) c = (if c = ''c'' then Some 0 else None)"
  by (auto simp: next_sequence_def outbox_def acked_def list_contents_def sample_db_def)

lemma sample_store_ok: "store_ok (list_contents sample_db)"
proof -
  have "stored_frame_ok 1 sample_frame"
    unfolding sample_frame_def by (rule stored_frame_ok_serialize) (simp add: frame_fits_def fits_u32_def)
  then have "outbox_ok (list_contents sample_db)"
    unfolding outbox_ok_def sample_view by (auto simp: list_contents_def sample_db_def split: if_splits)
  moreover have "consumers_ok (list_contents sample_db)"
    by (auto simp: consumers_ok_def list_contents_def sample_db_def split: if_splits)
  ultimately show ?thesis by (simp add: store_ok_def)
qed

lemma sample_room: "n < 100 \<Longrightarrow> room n (list_contents sample_db)"
  by (simp add: room_def)

theorem unacknowledged_records_survive_witness:
  "\<exists>s'. run_calls (faultless_lmdb (\<lambda>_. [])) 0 [AckUntil ''d'' 1, Compact, Retain 0] sample_store = Some s' \<and>
    store_ok (store_contents list_contents s') \<and>
    (\<exists>a'. acked (store_contents list_contents s') ''c'' = Some a' \<and>
      (outbox (store_contents list_contents s') 1 = Some sample_frame \<or> 1 \<le> a'))"
proof -
  let ?calls = "[AckUntil ''d'' 1, Compact, Retain 0]"
  obtain s' where s': "run_calls (faultless_lmdb (\<lambda>_. [])) 0 ?calls sample_store = Some s'"
    "store_ok (store_contents list_contents s')"
    "\<forall>c a. acked (list_contents sample_db) c = Some a \<longrightarrow> (\<exists>a'. acked (store_contents list_contents s') c = Some a' \<and> a \<le> a' \<and>
      (\<forall>q frame. outbox (list_contents sample_db) q = Some frame \<longrightarrow>
        outbox (store_contents list_contents s') q = Some frame \<or> q \<le> a'))"
    using unacknowledged_records_survive [OF faultless_lmdb_laws [of "\<lambda>_. []"], where s = sample_store and calls = ?calls and now = 0,
        unfolded sample_contents] sample_store_ok sample_room [of "length ?calls"] by auto
  have "acked (list_contents sample_db) ''c'' = Some 0" "outbox (list_contents sample_db) 1 = Some sample_frame" by simp_all
  then show ?thesis using s' by blast
qed

lemma batch_is_next_unacknowledged_witness:
  "fetched (list_contents sample_db) 5 (unacked (list_contents sample_db) ''c'')
    (fetch_transport_batch_for_consumer (faultless_lmdb (\<lambda>_. [])) ''c'' 5 sample_store)"
  using batch_is_next_unacknowledged [OF faultless_lmdb_laws [of "\<lambda>_. []"], of sample_store "''c''" 5] sample_store_ok by simp

lemma acknowledging_largest_number_replays_outbox_witness:
  "\<exists>s'. ack_transport_until_for_consumer (faultless_lmdb (\<lambda>_. [])) ''c'' (- 1) sample_store = (Inr (), s') \<and>
    unacked (store_contents list_contents s') ''c'' = {} \<and>
    fetched (store_contents list_contents s') 5 {q. outbox (store_contents list_contents s') q \<noteq> None}
      (fetch_transport_batch_for_consumer (faultless_lmdb (\<lambda>_. [])) ''c'' 5 s')"
proof -
  let ?api = "faultless_lmdb (\<lambda>_. [])"
  have "fst (ack_transport_until_for_consumer ?api ''c'' (- 1) sample_store) = Inr ()"
    by (simp add: ack_transport_until_for_consumer_def in_write_txn_def store_begin_txn_def is_open_def sample_store_def
        faultless_lmdb_def read_consumer_ack_sequence_def write_consumer_ack_sequence_def store_put_blob_def sample_db_def
        finish_txn_def Let_def max_def)
  then obtain s' where "ack_transport_until_for_consumer ?api ''c'' (- 1) sample_store = (Inr (), s')"
    by (cases "ack_transport_until_for_consumer ?api ''c'' (- 1) sample_store") auto
  then show ?thesis
    using acknowledging_largest_number_replays_outbox [OF faultless_lmdb_laws [of "\<lambda>_. []"], of sample_store "''c''" s' 5]
      sample_store_ok by simp
qed

theorem retention_keeps_the_newest_witness:
  "\<exists>result s'. apply_snapshot_retention (faultless_lmdb (\<lambda>_. [])) 3 sample_store = Some (result, s') \<and>
    (\<forall>stats. result = Inr stats \<longrightarrow> card (stored_ids (store_contents list_contents s')) = min 3 (card (stored_ids (list_contents sample_db))))"
  using retention_keeps_the_newest [OF faultless_lmdb_laws [of "\<lambda>_. []"] refl, of 3 sample_store] by fastforce

definition sample_delta :: delta_snapshot where
  "sample_delta = \<lparr>dl_schema = kCurrentSchemaHeader, dl_base_snapshot_id = 3, dl_target_snapshot_id = 4,
    dl_added_entries = [], dl_removed_entries = [], dl_modified_entries = [], dl_renamed_entries = []\<rparr>"

abbreviation (input) sample_put :: "(u64 \<times> u64) option store_result \<times> list_db lmdb_handle" where
  "sample_put \<equiv> put_snapshot_and_delta_with_transport (faultless_lmdb (\<lambda>_. [])) 0 5 6 sample_snapshot sample_delta None
    True False sample_store"

lemma sample_put_succeeds: "\<exists>s'. sample_put = (Inr (Some (2, 3)), s')"
proof -
  obtain b where b: "b = snapshot_layout sample_snapshot" by simp
  obtain b' where b': "b' = delta_layout sample_delta" by simp
  have "serialize_snapshot_binary sample_snapshot [] = Inr b" using snapshots.wr_ok [OF sample_snapshot_ok, of "[]"] by (simp add: b)
  moreover have "serialize_delta_binary sample_delta [] = Inr b'"
    using deltas.wr_ok [of sample_delta "[]"] by (simp add: b' sample_delta_def delta_ok_def)
  ultimately have prepared: "prepare_both 0 False sample_snapshot sample_delta None = Inr (b, b')"
    unfolding prepare_both_Inr prepare_snapshot_Inr prepare_delta_Inr by blast
  have "length b < 500" "length b' < 500" unfolding b b' by code_simp+
  moreover have "length (sn_host_identifier sample_snapshot) < 500" "length (delta_route sample_delta) < 500" by code_simp+
  ultimately have "fst sample_put = Inr (Some (2, 3))"
    unfolding put_snapshot_and_delta_with_transport_def prepared sum.case prod.case
    by (simp add: in_write_txn_def store_begin_txn_def is_open_def sample_store_def faultless_lmdb_def store_put_blob_def
        sample_db_def finish_txn_def enqueue_transport_record_in_txn_def reserve_next_sequence_def read_next_sequence_def
        write_next_sequence_def length_serialize_frame)
  then show ?thesis by (cases sample_put) auto
qed

lemma snapshot_and_delta_stored_together_witness:
  "\<exists>s' payload. sample_put = (Inr (Some (2, 3)), s') \<and>
    outbox (store_contents list_contents s') 2 = Some (serialize_frame Transport_Snapshot (sn_host_identifier sample_snapshot) payload 5)"
proof -
  obtain s' where s': "sample_put = (Inr (Some (2, 3)), s')" using sample_put_succeeds by blast
  show ?thesis
    using snapshot_and_delta_stored_together [OF faultless_lmdb_laws [of "\<lambda>_. []"] refl s' refl refl] s' by auto
qed

theorem stored_snapshot_and_delta_are_read_back_witness:
  "\<exists>s'. sample_put = (Inr (Some (2, 3)), s') \<and>
    (case get_snapshot (faultless_lmdb (\<lambda>_. [])) 0 (sn_snapshot_id sample_snapshot) True s' of
       Inr sn \<Rightarrow> sn = sample_snapshot | Inl e \<Rightarrow> sf_code e = LmdbError)"
proof -
  obtain s' where s': "sample_put = (Inr (Some (2, 3)), s')" using sample_put_succeeds by blast
  have "\<not> has_errors (validate_snapshot 0 sample_snapshot)" by code_simp
  then show ?thesis
    using stored_snapshot_and_delta_are_read_back [OF faultless_lmdb_laws [of "\<lambda>_. []"] s', where now' = 0 and check = True] s'
    by (simp split: sum.splits)
qed

end
