(* ===== verification/Materializer.thy ===== *)
theory Materializer imports IngestCoordinator DeltaEngine begin

text \<open>
  Hugin's view of the hosts, \<open>src/backend/Hugin/sinks/materializer_sink.cpp\<close>: the sink of the ingest
  coordinator that keeps, for every host, the entries of its file tree by identifier and the identifiers by
  path, brings them up to date with each snapshot and delta, and answers the listings of the frontend.  Each
  operation holds the sink's mutex and is one step.

  The order in which an \<open>unordered_map\<close> visits its keys is unspecified.  The operations that depend on it
  take it as the argument \<open>order\<close>, a list of the keys.  \<open>root_path\<close> measures the depth of a path by the
  distance of two iterators of different \<open>path\<close> objects, which the language leaves undefined; what it is
  is the argument \<open>depth\<close>.
\<close>

subsection \<open>State\<close>

record host_materialized_state =
  hm_last_sequence :: u64
  hm_last_snapshot_id :: u64
  hm_host_identifier :: string
  hm_entries_by_id :: "entry_id \<rightharpoonup> file_entry"
  hm_id_by_path :: "string \<rightharpoonup> entry_id"

record materializer =
  mz_states :: "string \<rightharpoonup> host_materialized_state"
  mz_last_updated_host_id :: string

definition index_entry :: "file_entry \<Rightarrow> host_materialized_state \<Rightarrow> host_materialized_state" where
  "index_entry entry state = state\<lparr>
    hm_id_by_path := (hm_id_by_path state)(fe_normalized_path entry \<mapsto> fe_id entry),
    hm_entries_by_id := (hm_entries_by_id state)(fe_id entry \<mapsto> entry)\<rparr>"

definition remove_entry :: "file_entry \<Rightarrow> host_materialized_state \<Rightarrow> host_materialized_state" where
  "remove_entry entry state = state\<lparr>
    hm_id_by_path := (hm_id_by_path state)(fe_normalized_path entry := None),
    hm_entries_by_id := (hm_entries_by_id state)(fe_id entry := None)\<rparr>"

subsection \<open>Snapshots\<close>

definition build_from_snapshot :: "snapshot \<Rightarrow> u64 \<Rightarrow> host_materialized_state" where
  "build_from_snapshot snapshot sequence =
    fold index_entry (sn_entries snapshot)
      \<lparr>hm_last_sequence = sequence, hm_last_snapshot_id = sn_snapshot_id snapshot,
       hm_host_identifier = sn_host_identifier snapshot, hm_entries_by_id = Map.empty, hm_id_by_path = Map.empty\<rparr>"

definition mz_apply_snapshot :: "string \<Rightarrow> u64 \<Rightarrow> snapshot \<Rightarrow> materializer \<Rightarrow> unit status_or \<times> materializer" where
  "mz_apply_snapshot host_id sequence snapshot sink =
    (let resolved_host_id = (if host_id = [] then sn_host_identifier snapshot else host_id)
     in if resolved_host_id = [] then (Inl (error_code.InvalidArgument, ''Host id is empty.''), sink)
        else (Inr (), sink\<lparr>mz_states := (mz_states sink)(resolved_host_id \<mapsto> build_from_snapshot snapshot sequence),
          mz_last_updated_host_id := resolved_host_id\<rparr>))"

subsection \<open>Deltas\<close>

text \<open>The loops of \<open>apply_delta\<close>; on an error the state stays as far as they have come.\<close>

fun apply_modified :: "modified_entry list \<Rightarrow> host_materialized_state \<Rightarrow> unit status_or \<times> host_materialized_state" where
  "apply_modified [] state = (Inr (), state)"
| "apply_modified (modified # ms) state =
    (case hm_entries_by_id state (me_entry_id modified) of
       None \<Rightarrow> (Inl (error_code.ValidationError, ''Delta modified entry id is missing in materialized state.''), state)
     | Some entry \<Rightarrow> apply_modified ms (state\<lparr>hm_entries_by_id :=
         (hm_entries_by_id state)(me_entry_id modified \<mapsto> entry\<lparr>fe_metadata := me_after modified\<rparr>)\<rparr>))"

definition rename_to :: "renamed_entry \<Rightarrow> file_entry \<Rightarrow> host_materialized_state \<Rightarrow> host_materialized_state" where
  "rename_to renamed entry state =
    (let normalized_new_path = lexically_normal (re_new_path renamed);
         by_path = (hm_id_by_path state)(fe_normalized_path entry := None);
         by_id = (hm_entries_by_id state)(re_after_entry_id renamed \<mapsto>
           entry\<lparr>fe_id := re_after_entry_id renamed, fe_normalized_path := normalized_new_path\<rparr>);
         by_id = (if re_after_entry_id renamed \<noteq> re_before_entry_id renamed
           then by_id(re_before_entry_id renamed := None) else by_id)
     in state\<lparr>hm_entries_by_id := by_id, hm_id_by_path := by_path(normalized_new_path \<mapsto> re_after_entry_id renamed)\<rparr>)"

fun apply_renamed :: "renamed_entry list \<Rightarrow> host_materialized_state \<Rightarrow> unit status_or \<times> host_materialized_state" where
  "apply_renamed [] state = (Inr (), state)"
| "apply_renamed (renamed # rs) state =
    (case (case hm_entries_by_id state (re_before_entry_id renamed) of
             None \<Rightarrow> hm_entries_by_id state (re_after_entry_id renamed) | Some entry \<Rightarrow> Some entry) of
       None \<Rightarrow> (Inl (error_code.ValidationError, ''Delta renamed entry id is missing in materialized state.''), state)
     | Some entry \<Rightarrow> apply_renamed rs (rename_to renamed entry state))"

definition parent_id_of :: "host_materialized_state \<Rightarrow> string \<Rightarrow> entry_id" where
  "parent_id_of state path =
    (let parent_path = path_parent path
     in if parent_path = [] \<or> parent_path = path then 0
        else case hm_id_by_path state parent_path of None \<Rightarrow> 0 | Some i \<Rightarrow> i)"

fun apply_parents :: "renamed_entry list \<Rightarrow> host_materialized_state \<Rightarrow> unit status_or \<times> host_materialized_state" where
  "apply_parents [] state = (Inr (), state)"
| "apply_parents (renamed # rs) state =
    (case hm_entries_by_id state (re_after_entry_id renamed) of
       None \<Rightarrow> (Inl (error_code.ValidationError, ''Delta renamed entry target id is missing in materialized state.''), state)
     | Some entry \<Rightarrow> apply_parents rs (state\<lparr>hm_entries_by_id :=
         (hm_entries_by_id state)(re_after_entry_id renamed \<mapsto>
           entry\<lparr>fe_name := path_filename (fe_normalized_path entry),
             fe_parent_id := parent_id_of state (fe_normalized_path entry)\<rparr>)\<rparr>))"

definition and_then ::
  "unit status_or \<times> 's \<Rightarrow> ('s \<Rightarrow> unit status_or \<times> 's) \<Rightarrow> unit status_or \<times> 's" where
  "and_then outcome next_step = (case outcome of (Inl e, s) \<Rightarrow> (Inl e, s) | (Inr _, s) \<Rightarrow> next_step s)"

definition delta_on_state :: "delta_snapshot \<Rightarrow> host_materialized_state \<Rightarrow> unit status_or \<times> host_materialized_state" where
  "delta_on_state delta state =
    (let state = fold remove_entry (dl_removed_entries delta) state;
         state = fold index_entry (dl_added_entries delta) state
     in and_then (apply_modified (dl_modified_entries delta) state) (\<lambda>state.
        and_then (apply_renamed (dl_renamed_entries delta) state) (\<lambda>state.
        apply_parents (dl_renamed_entries delta) state)))"

text \<open>The host of a delta: the one named, else the first whose last snapshot is the delta's base.\<close>

definition delta_host :: "string list \<Rightarrow> string \<Rightarrow> delta_snapshot \<Rightarrow> materializer \<Rightarrow> string option" where
  "delta_host order host_id delta sink =
    (if host_id \<noteq> [] \<and> mz_states sink host_id \<noteq> None then Some host_id
     else find (\<lambda>h. case mz_states sink h of
         None \<Rightarrow> False | Some state \<Rightarrow> hm_last_snapshot_id state = dl_base_snapshot_id delta) order)"

definition mz_apply_delta ::
  "string list \<Rightarrow> string \<Rightarrow> u64 \<Rightarrow> delta_snapshot \<Rightarrow> materializer \<Rightarrow> unit status_or \<times> materializer" where
  "mz_apply_delta order host_id sequence delta sink =
    (case delta_host order host_id delta sink of
       None \<Rightarrow> (Inl (error_code.NotFound, ''Cannot apply delta without an existing materialized snapshot state.''), sink)
     | Some host \<Rightarrow>
        (let state = the (mz_states sink host)
         in if hm_last_snapshot_id state \<noteq> dl_base_snapshot_id delta
            then (Inl (error_code.ValidationError, ''Delta base snapshot id does not match current materialized state.''), sink)
            else (case delta_on_state delta state of
                (Inl e, state) \<Rightarrow> (Inl e, sink\<lparr>mz_states := (mz_states sink)(host \<mapsto> state)\<rparr>)
              | (Inr _, state) \<Rightarrow>
                  (Inr (), sink\<lparr>mz_states := (mz_states sink)(host \<mapsto> state\<lparr>
                      hm_last_snapshot_id := dl_target_snapshot_id delta, hm_last_sequence := sequence\<rparr>),
                    mz_last_updated_host_id := host\<rparr>))))"

definition mz_flush :: "materializer \<Rightarrow> unit status_or \<times> materializer" where
  "mz_flush sink = (Inr (), sink)"

definition materializer_sink :: "string list \<Rightarrow> materializer sink_ops" where
  "materializer_sink order = \<lparr>op_apply_snapshot = mz_apply_snapshot, op_apply_delta = mz_apply_delta order\<rparr>"

subsection \<open>Queries\<close>

definition latest_host_id :: "materializer \<Rightarrow> string status_or" where
  "latest_host_id sink =
    (if mz_last_updated_host_id sink = [] \<or> mz_states sink (mz_last_updated_host_id sink) = None
     then Inl (error_code.NotFound, ''Host state not found.'')
     else Inr (mz_last_updated_host_id sink))"

definition host_state_of :: "materializer \<Rightarrow> string \<Rightarrow> host_materialized_state status_or" where
  "host_state_of sink host_id =
    (if host_id = [] then Inl (error_code.InvalidArgument, ''Host id is empty.'')
     else case mz_states sink host_id of
       None \<Rightarrow> Inl (error_code.NotFound, ''Host state not found.'')
     | Some state \<Rightarrow> Inr state)"

definition last_snapshot_id :: "materializer \<Rightarrow> string \<Rightarrow> u64 status_or" where
  "last_snapshot_id sink host_id = map_sum (\<lambda>e. e) hm_last_snapshot_id (host_state_of sink host_id)"

definition last_sequence :: "materializer \<Rightarrow> string \<Rightarrow> u64 status_or" where
  "last_sequence sink host_id = map_sum (\<lambda>e. e) hm_last_sequence (host_state_of sink host_id)"

definition entry_count :: "materializer \<Rightarrow> string \<Rightarrow> nat status_or" where
  "entry_count sink host_id =
    (case mz_states sink host_id of
       None \<Rightarrow> Inl (error_code.NotFound, ''Host state not found.'')
     | Some state \<Rightarrow> Inr (card (dom (hm_entries_by_id state))))"

definition is_root_like :: "host_materialized_state \<Rightarrow> file_entry \<Rightarrow> bool" where
  "is_root_like state entry \<longleftrightarrow>
    fe_type entry = EntryType_Directory \<and> fe_normalized_path entry \<noteq> [] \<and>
    (fe_parent_id entry = 0 \<or> path_parent (fe_normalized_path entry) = [] \<or>
     hm_id_by_path state (path_parent (fe_normalized_path entry)) = None)"

definition root_candidate ::
  "(string \<Rightarrow> u64) \<Rightarrow> host_materialized_state \<Rightarrow> entry_id \<Rightarrow> string \<times> u64 \<Rightarrow> string \<times> u64" where
  "root_candidate depth state entry_id best =
    (case hm_entries_by_id state entry_id of
       None \<Rightarrow> best
     | Some entry \<Rightarrow>
         if is_root_like state entry \<and> depth (fe_normalized_path entry) < snd best
         then (fe_normalized_path entry, depth (fe_normalized_path entry)) else best)"

definition root_path :: "(string \<Rightarrow> u64) \<Rightarrow> entry_id list \<Rightarrow> materializer \<Rightarrow> string \<Rightarrow> string status_or" where
  "root_path depth order sink host_id =
    sum_bind (host_state_of sink host_id) (\<lambda>state.
      let candidate_root = fst (fold (root_candidate depth state) order ([], - 1))
      in if candidate_root \<noteq> [] then Inr candidate_root
         else Inl (error_code.NotFound, ''Root path not found.''))"

definition listing_key :: "file_entry \<Rightarrow> bool \<times> string" where
  "listing_key entry = (fe_type entry \<noteq> EntryType_Directory, fe_name entry)"

definition list_children :: "entry_id list \<Rightarrow> materializer \<Rightarrow> string \<Rightarrow> string \<Rightarrow> file_entry list status_or" where
  "list_children order sink host_id parent_path =
    (let normalized_parent = (if parent_path = [] then ''/'' else lexically_normal parent_path)
     in sum_bind (host_state_of sink host_id) (\<lambda>state.
        case hm_id_by_path state normalized_parent of
          None \<Rightarrow> Inl (error_code.NotFound, ''Parent path not found in materialized state.'')
        | Some parent_id \<Rightarrow>
            (case hm_entries_by_id state parent_id of
               None \<Rightarrow> Inl (error_code.NotFound, ''Parent entry not found in materialized state.'')
             | Some parent_entry \<Rightarrow>
                 if fe_type parent_entry \<noteq> EntryType_Directory
                 then Inl (error_code.ValidationError, ''Parent path is not a directory.'')
                 else Inr (sort_key listing_key (filter (\<lambda>entry. fe_parent_id entry = fe_id parent_entry)
                   (List.map_filter (hm_entries_by_id state) order))))))"

subsection \<open>A tidy state\<close>

text \<open>What a state says of an identifier: its path and its metadata.\<close>

definition view :: "host_materialized_state \<Rightarrow> entry_id \<Rightarrow> (string \<times> file_metadata) option" where
  "view state i = map_option (\<lambda>e. (fe_normalized_path e, fe_metadata e)) (hm_entries_by_id state i)"

text \<open>Entries stand under their own identifiers, and the index of paths is the inverse of their paths.\<close>

definition tidy :: "host_materialized_state \<Rightarrow> bool" where
  "tidy state \<longleftrightarrow> (\<forall>i e. hm_entries_by_id state i = Some e \<longrightarrow> fe_id e = i) \<and>
    (\<forall>p i. hm_id_by_path state p = Some i \<longleftrightarrow> (\<exists>md. view state i = Some (p, md)))"

definition fresh_path :: "host_materialized_state \<Rightarrow> string \<Rightarrow> bool" where
  "fresh_path state p \<longleftrightarrow> (\<forall>i md. view state i \<noteq> Some (p, md))"

abbreviation (input) entry_data :: "file_entry \<Rightarrow> string \<times> file_metadata" where
  "entry_data e \<equiv> (fe_normalized_path e, fe_metadata e)"

lemma tidy_id: "tidy state \<Longrightarrow> hm_entries_by_id state i = Some e \<Longrightarrow> fe_id e = i"
  unfolding tidy_def by blast

lemma tidy_path: "tidy state \<Longrightarrow> hm_id_by_path state p = Some i \<longleftrightarrow> (\<exists>md. view state i = Some (p, md))"
  unfolding tidy_def by blast

lemma tidy_inj: "tidy state \<Longrightarrow> view state i = Some (p, md) \<Longrightarrow> view state j = Some (p, md') \<Longrightarrow> i = j"
  using tidy_path [of state p i] tidy_path [of state p j] by auto

lemma view_present: "view state i \<noteq> None \<longleftrightarrow> hm_entries_by_id state i \<noteq> None"
  by (simp add: view_def)

lemma view_index [simp]: "view (index_entry e state) = (view state)(fe_id e \<mapsto> entry_data e)"
  by (auto simp: view_def index_entry_def fun_eq_iff)

lemma id_by_path_step:
  "hm_id_by_path (index_entry e state) = (hm_id_by_path state)(fe_normalized_path e \<mapsto> fe_id e)"
  "hm_id_by_path (remove_entry e state) = (hm_id_by_path state)(fe_normalized_path e := None)"
  by (simp_all add: index_entry_def remove_entry_def)

lemma tidy_index:
  assumes "tidy state" "view state (fe_id e) = None" "fresh_path state (fe_normalized_path e)"
  shows "tidy (index_entry e state)"
proof -
  have "hm_id_by_path (index_entry e state) p = Some i \<longleftrightarrow> (\<exists>md. view (index_entry e state) i = Some (p, md))" for p i
    using tidy_path [OF assms(1), of p i] assms(2,3) by (auto simp: id_by_path_step fresh_path_def)
  moreover have "fe_id e' = i" if "hm_entries_by_id (index_entry e state) i = Some e'" for i e'
    using that tidy_id [OF assms(1), of i e'] by (auto simp: index_entry_def split: if_splits)
  ultimately show ?thesis unfolding tidy_def by blast
qed

lemma view_remove [simp]: "view (remove_entry e state) = (view state)(fe_id e := None)"
  by (auto simp: view_def remove_entry_def fun_eq_iff)

lemma tidy_remove:
  assumes "tidy state" "view state (fe_id e) = Some (fe_normalized_path e, md)"
  shows "tidy (remove_entry e state)"
proof -
  have "hm_id_by_path (remove_entry e state) p = Some i \<longleftrightarrow> (\<exists>md. view (remove_entry e state) i = Some (p, md))" for p i
  proof (cases "p = fe_normalized_path e")
    case True
    have "i = fe_id e" if "view state i = Some (p, md')" for md'
      using tidy_inj [OF assms(1) that, of "fe_id e"] assms(2) True by simp
    then show ?thesis using True by (auto simp: id_by_path_step)
  next
    case False
    then show ?thesis using tidy_path [OF assms(1), of p i] assms(2) by (simp add: id_by_path_step)
  qed
  moreover have "fe_id e' = i" if "hm_entries_by_id (remove_entry e state) i = Some e'" for i e'
    using that tidy_id [OF assms(1), of i e'] by (auto simp: remove_entry_def split: if_splits)
  ultimately show ?thesis unfolding tidy_def by blast
qed

lemma remove_all:
  "tidy state \<Longrightarrow> distinct (map fe_id es) \<Longrightarrow> (\<And>e. e \<in> set es \<Longrightarrow> \<exists>md. view state (fe_id e) = Some (fe_normalized_path e, md)) \<Longrightarrow>
    tidy (fold remove_entry es state) \<and>
    view (fold remove_entry es state) = (\<lambda>i. if i \<in> fe_id ` set es then None else view state i)"
proof (induction es arbitrary: state)
  case (Cons e es)
  obtain md where md: "view state (fe_id e) = Some (fe_normalized_path e, md)" using Cons.prems(3) by auto
  have "\<exists>md. view (remove_entry e state) (fe_id e') = Some (fe_normalized_path e', md)" if "e' \<in> set es" for e'
    using that Cons.prems by (auto simp: image_iff)
  from Cons.IH [OF tidy_remove [OF Cons.prems(1) md] _ this] Cons.prems(2) show ?case
    by (auto simp: fun_eq_iff)
qed simp

lemma add_all:
  "tidy state \<Longrightarrow> distinct (map fe_id es) \<Longrightarrow> distinct (map fe_normalized_path es) \<Longrightarrow>
    (\<And>e. e \<in> set es \<Longrightarrow> view state (fe_id e) = None \<and> fresh_path state (fe_normalized_path e)) \<Longrightarrow>
    tidy (fold index_entry es state) \<and>
    (\<forall>e \<in> set es. view (fold index_entry es state) (fe_id e) = Some (entry_data e)) \<and>
    (\<forall>i. i \<notin> fe_id ` set es \<longrightarrow> view (fold index_entry es state) i = view state i)"
proof (induction es arbitrary: state)
  case (Cons e es)
  have e: "view state (fe_id e) = None" "fresh_path state (fe_normalized_path e)" using Cons.prems(4) by auto
  have "view (index_entry e state) (fe_id e') = None \<and> fresh_path (index_entry e state) (fe_normalized_path e')"
    if "e' \<in> set es" for e'
    using that Cons.prems by (auto simp: image_iff fresh_path_def)
  from Cons.IH [OF tidy_index [OF Cons.prems(1) e] _ _ this] Cons.prems(2,3) show ?case by auto
qed simp

lemma tidy_same_paths:
  assumes "tidy state" "hm_id_by_path state' = hm_id_by_path state" "\<And>i. map_option fst (view state' i) = map_option fst (view state i)"
    "\<And>i e. hm_entries_by_id state' i = Some e \<Longrightarrow> fe_id e = i"
  shows "tidy state'"
proof -
  have "(\<exists>md. view state' i = Some (p, md)) \<longleftrightarrow> (\<exists>md. view state i = Some (p, md))" for i p
    using assms(3) [of i] by (cases "view state i"; cases "view state' i") auto
  then show ?thesis using assms(1,2,4) by (simp add: tidy_def)
qed

definition metadata_set :: "modified_entry \<Rightarrow> host_materialized_state \<Rightarrow> file_entry \<Rightarrow> host_materialized_state" where
  "metadata_set m state entry = state\<lparr>hm_entries_by_id :=
    (hm_entries_by_id state)(me_entry_id m \<mapsto> entry\<lparr>fe_metadata := me_after m\<rparr>)\<rparr>"

lemma metadata_set_view:
  "hm_entries_by_id state (me_entry_id m) = Some entry \<Longrightarrow>
    view (metadata_set m state entry) = (view state)(me_entry_id m \<mapsto> (fst (the (view state (me_entry_id m))), me_after m))"
  by (auto simp: view_def metadata_set_def fun_eq_iff)

lemma tidy_metadata_set:
  assumes "tidy state" "hm_entries_by_id state (me_entry_id m) = Some entry"
  shows "tidy (metadata_set m state entry)"
proof (rule tidy_same_paths [OF assms(1)])
  show "map_option fst (view (metadata_set m state entry) i) = map_option fst (view state i)" for i
    using assms(2) by (simp add: metadata_set_view [OF assms(2)]) (simp add: view_def)
  show "fe_id e = i" if "hm_entries_by_id (metadata_set m state entry) i = Some e" for i e
    using that tidy_id [OF assms(1)] assms(2) by (auto simp: metadata_set_def split: if_splits)
qed (simp add: metadata_set_def)

lemma modify_all:
  "tidy state \<Longrightarrow> distinct (map me_entry_id ms) \<Longrightarrow> (\<And>m. m \<in> set ms \<Longrightarrow> view state (me_entry_id m) \<noteq> None) \<Longrightarrow>
    \<exists>state'. apply_modified ms state = (Inr (), state') \<and> tidy state' \<and>
      (\<forall>m \<in> set ms. view state' (me_entry_id m) = Some (fst (the (view state (me_entry_id m))), me_after m)) \<and>
      (\<forall>i. i \<notin> me_entry_id ` set ms \<longrightarrow> view state' i = view state i)"
proof (induction ms arbitrary: state)
  case (Cons m ms)
  obtain entry where entry: "hm_entries_by_id state (me_entry_id m) = Some entry"
    using Cons.prems(3) [of m] by (auto simp: view_def)
  let ?s = "metadata_set m state entry"
  note v = metadata_set_view [OF entry]
  have "view ?s (me_entry_id m') \<noteq> None" if "m' \<in> set ms" for m' using Cons.prems(3) that by (auto simp: v)
  from Cons.IH [OF tidy_metadata_set [OF Cons.prems(1) entry] _ this] Cons.prems(2)
  obtain s' where s': "apply_modified ms ?s = (Inr (), s')" "tidy s'"
    "\<forall>m \<in> set ms. view s' (me_entry_id m) = Some (fst (the (view ?s (me_entry_id m))), me_after m)"
    "\<forall>i. i \<notin> me_entry_id ` set ms \<longrightarrow> view s' i = view ?s i" by auto
  have "apply_modified (m # ms) state = (Inr (), s')" using s'(1) entry by (simp add: metadata_set_def)
  moreover have "view s' (me_entry_id k) = Some (fst (the (view state (me_entry_id k))), me_after k)" if "k \<in> set (m # ms)" for k
    using that s'(3,4) Cons.prems(2) by (cases "k \<in> set ms") (auto simp: v image_iff)
  moreover have "view s' i = view state i" if "i \<notin> me_entry_id ` set (m # ms)" for i
    using that s'(4) by (simp add: v)
  ultimately show ?case using s'(2) by blast
qed simp

text \<open>A rename onto a path that no entry has.\<close>

lemma rename_to_view:
  assumes "hm_entries_by_id state (re_before_entry_id r) = Some entry"
  shows "view (rename_to r entry state) = (view state)(re_before_entry_id r := None,
    re_after_entry_id r \<mapsto> (lexically_normal (re_new_path r), fe_metadata entry))"
  by (auto simp: view_def rename_to_def Let_def fun_eq_iff)

lemma rename_to_paths:
  "hm_id_by_path (rename_to r entry state) =
    (hm_id_by_path state)(fe_normalized_path entry := None, lexically_normal (re_new_path r) \<mapsto> re_after_entry_id r)"
  by (simp add: rename_to_def Let_def)

lemma tidy_rename_to:
  assumes tidy: "tidy state" and before: "hm_entries_by_id state (re_before_entry_id r) = Some entry"
    and after: "re_after_entry_id r = re_before_entry_id r \<or> view state (re_after_entry_id r) = None"
    and new: "fresh_path state (lexically_normal (re_new_path r))"
  shows "tidy (rename_to r entry state)"
proof -
  let ?b = "re_before_entry_id r" and ?a = "re_after_entry_id r" and ?q = "lexically_normal (re_new_path r)"
  let ?p = "fe_normalized_path entry"
  have b: "view state ?b = Some (?p, fe_metadata entry)" using before by (simp add: view_def)
  have old: "i = ?b" if "view state i = Some (?p, md)" for i md by (rule tidy_inj [OF tidy that b])
  have neq: "?p \<noteq> ?q" using new b by (auto simp: fresh_path_def)
  have "hm_id_by_path (rename_to r entry state) p = Some i \<longleftrightarrow> (\<exists>md. view (rename_to r entry state) i = Some (p, md))" for p i
  proof (cases "i = ?a")
    case True
    have "hm_id_by_path state p = Some ?a \<longleftrightarrow> ?a = ?b \<and> p = ?p"
      using tidy_path [OF tidy, of p ?a] after b by auto
    then show ?thesis using True neq by (auto simp: rename_to_view [OF before] rename_to_paths)
  next
    case False
    consider "p = ?q" | "p = ?p" | "p \<noteq> ?q" "p \<noteq> ?p" by blast
    then show ?thesis
    proof cases
      case 1
      then show ?thesis using False new by (auto simp: rename_to_view [OF before] rename_to_paths fresh_path_def)
    next
      case 2
      then show ?thesis using False neq old [of i] by (auto simp: rename_to_view [OF before] rename_to_paths)
    next
      case 3
      then show ?thesis using False b tidy_path [OF tidy, of p i]
        by (auto simp: rename_to_view [OF before] rename_to_paths)
    qed
  qed
  moreover have "fe_id e = i" if "hm_entries_by_id (rename_to r entry state) i = Some e" for i e
    using that tidy_id [OF tidy, of i e] by (auto simp: rename_to_def Let_def split: if_splits)
  ultimately show ?thesis unfolding tidy_def by blast
qed

definition renames_ready :: "renamed_entry list \<Rightarrow> host_materialized_state \<Rightarrow> bool" where
  "renames_ready rs state \<longleftrightarrow> distinct (map re_before_entry_id rs) \<and> distinct (map re_after_entry_id rs) \<and>
    distinct (map re_new_path rs) \<and>
    (\<forall>r \<in> set rs. view state (re_before_entry_id r) \<noteq> None \<and> lexically_normal (re_new_path r) = re_new_path r \<and>
      (re_after_entry_id r = re_before_entry_id r \<or> view state (re_after_entry_id r) = None) \<and>
      fresh_path state (re_new_path r))"

lemma renames_ready_step:
  assumes ready: "renames_ready (r # rs) state" and before: "hm_entries_by_id state (re_before_entry_id r) = Some entry"
  shows "renames_ready rs (rename_to r entry state)"
proof -
  note v = rename_to_view [OF before]
  have r: "lexically_normal (re_new_path r) = re_new_path r" using ready by (simp add: renames_ready_def)
  have "view (rename_to r entry state) (re_before_entry_id r') \<noteq> None \<and> lexically_normal (re_new_path r') = re_new_path r' \<and>
      (re_after_entry_id r' = re_before_entry_id r' \<or> view (rename_to r entry state) (re_after_entry_id r') = None) \<and>
      fresh_path (rename_to r entry state) (re_new_path r')" if r': "r' \<in> set rs" for r'
  proof -
    have neq: "re_before_entry_id r' \<noteq> re_before_entry_id r" "re_after_entry_id r' \<noteq> re_after_entry_id r" "re_new_path r' \<noteq> re_new_path r"
      using ready r' unfolding renames_ready_def by (auto simp: image_iff)
    have in_state: "view state (re_before_entry_id r') \<noteq> None" "lexically_normal (re_new_path r') = re_new_path r'"
      "re_after_entry_id r' = re_before_entry_id r' \<or> view state (re_after_entry_id r') = None" "fresh_path state (re_new_path r')"
      using ready r' unfolding renames_ready_def by auto
    have "fresh_path (rename_to r entry state) (re_new_path r')"
      using in_state(4) neq(3) unfolding fresh_path_def v r by simp
    then show ?thesis using in_state neq by (auto simp: v)
  qed
  then show ?thesis using ready unfolding renames_ready_def by simp
qed

text \<open>The view after renames in terms of the view before.\<close>

definition renamed_view ::
  "renamed_entry list \<Rightarrow> (entry_id \<Rightarrow> (string \<times> file_metadata) option) \<Rightarrow> (entry_id \<Rightarrow> (string \<times> file_metadata) option) \<Rightarrow> bool" where
  "renamed_view rs v v' \<longleftrightarrow>
    (\<forall>r \<in> set rs. v' (re_after_entry_id r) = Some (re_new_path r, snd (the (v (re_before_entry_id r))))) \<and>
    (\<forall>i. i \<in> re_before_entry_id ` set rs - re_after_entry_id ` set rs \<longrightarrow> v' i = None) \<and>
    (\<forall>i. i \<notin> re_before_entry_id ` set rs \<union> re_after_entry_id ` set rs \<longrightarrow> v' i = v i)"

lemma renamed_view_Cons:
  assumes v1: "v1 = v(re_before_entry_id r := None, re_after_entry_id r \<mapsto> (re_new_path r, md))"
    and b: "v (re_before_entry_id r) = Some (p, md)"
    and distinct: "re_before_entry_id r \<notin> re_before_entry_id ` set rs" "re_after_entry_id r \<notin> re_after_entry_id ` set rs"
    and apart: "re_after_entry_id r \<notin> re_before_entry_id ` set rs" "re_before_entry_id r \<notin> re_after_entry_id ` set rs"
    and rest: "renamed_view rs v1 v'"
  shows "renamed_view (r # rs) v v'"
proof -
  have r1: "v' (re_after_entry_id k) = Some (re_new_path k, snd (the (v1 (re_before_entry_id k))))" if "k \<in> set rs" for k
    using rest that by (simp add: renamed_view_def)
  have r2: "v' i = None" if "i \<in> re_before_entry_id ` set rs" "i \<notin> re_after_entry_id ` set rs" for i
    using rest that by (simp add: renamed_view_def)
  have r3: "v' i = v1 i" if "i \<notin> re_before_entry_id ` set rs" "i \<notin> re_after_entry_id ` set rs" for i
    using rest that by (simp add: renamed_view_def)
  show ?thesis unfolding renamed_view_def
  proof (intro conjI ballI allI impI)
    fix k assume k: "k \<in> set (r # rs)"
    show "v' (re_after_entry_id k) = Some (re_new_path k, snd (the (v (re_before_entry_id k))))"
    proof (cases "k \<in> set rs")
      case True
      have "re_before_entry_id k \<noteq> re_before_entry_id r" using True distinct(1) by (metis imageI)
      moreover have "re_before_entry_id k \<noteq> re_after_entry_id r" using True apart(1) by (metis imageI)
      ultimately show ?thesis using r1 [OF True] by (simp add: v1)
    next
      case False
      then have "k = r" using k by simp
      then show ?thesis using r3 [OF apart(1) distinct(2)] b by (simp add: v1)
    qed
  next
    fix i assume i: "i \<in> re_before_entry_id ` set (r # rs) - re_after_entry_id ` set (r # rs)"
    show "v' i = None"
    proof (cases "i = re_before_entry_id r")
      case True
      then show ?thesis using i r3 [OF distinct(1) apart(2)] by (simp add: v1)
    next
      case False
      then show ?thesis using i r2 [of i] by simp
    qed
  next
    fix i assume "i \<notin> re_before_entry_id ` set (r # rs) \<union> re_after_entry_id ` set (r # rs)"
    then show "v' i = v i" using r3 [of i] by (simp add: v1)
  qed
qed

lemma rename_all:
  "tidy state \<Longrightarrow> renames_ready rs state \<Longrightarrow>
    \<exists>state'. apply_renamed rs state = (Inr (), state') \<and> tidy state' \<and> renamed_view rs (view state) (view state')"
proof (induction rs arbitrary: state)
  case (Cons r rs)
  have ready: "lexically_normal (re_new_path r) = re_new_path r" "fresh_path state (re_new_path r)"
      "re_after_entry_id r = re_before_entry_id r \<or> view state (re_after_entry_id r) = None"
    and distinct: "re_before_entry_id r \<notin> re_before_entry_id ` set rs" "re_after_entry_id r \<notin> re_after_entry_id ` set rs"
    and later: "\<And>r'. r' \<in> set rs \<Longrightarrow> view state (re_before_entry_id r') \<noteq> None"
      "\<And>r'. r' \<in> set rs \<Longrightarrow> re_after_entry_id r' = re_before_entry_id r' \<or> view state (re_after_entry_id r') = None"
    using Cons.prems(2) by (auto simp: renames_ready_def)
  obtain entry where entry: "hm_entries_by_id state (re_before_entry_id r) = Some entry"
    using Cons.prems(2) by (auto simp: renames_ready_def view_def)
  then have b: "view state (re_before_entry_id r) = Some (entry_data entry)" by (simp add: view_def)
  let ?s = "rename_to r entry state"
  have v: "view ?s = (view state)(re_before_entry_id r := None, re_after_entry_id r \<mapsto> (re_new_path r, fe_metadata entry))"
    using rename_to_view [OF entry] ready(1) by simp
  have "tidy ?s" using Cons.prems(1) entry ready by (intro tidy_rename_to) simp_all
  from Cons.IH [OF this renames_ready_step [OF Cons.prems(2) entry]]
  obtain s' where s': "apply_renamed rs ?s = (Inr (), s')" "tidy s'" "renamed_view rs (view ?s) (view s')" by blast
  have "re_after_entry_id r \<noteq> re_before_entry_id r'" if "r' \<in> set rs" for r'
    using ready(3) later(1) [OF that] distinct(1) that by (metis imageI)
  then have apart1: "re_after_entry_id r \<notin> re_before_entry_id ` set rs" by blast
  have "re_before_entry_id r \<noteq> re_after_entry_id r'" if "r' \<in> set rs" for r'
    using later(2) [OF that] b distinct(1) that by (metis imageI option.distinct(1))
  then have apart2: "re_before_entry_id r \<notin> re_after_entry_id ` set rs" by blast
  have "renamed_view (r # rs) (view state) (view s')"
    by (rule renamed_view_Cons [OF v b distinct apart1 apart2 s'(3)])
  moreover have "apply_renamed (r # rs) state = (Inr (), s')" using s'(1) entry by simp
  ultimately show ?case using s'(2) by blast
qed (simp add: renamed_view_def)

definition parent_set :: "renamed_entry \<Rightarrow> host_materialized_state \<Rightarrow> file_entry \<Rightarrow> host_materialized_state" where
  "parent_set r state entry = state\<lparr>hm_entries_by_id := (hm_entries_by_id state)(re_after_entry_id r \<mapsto>
    entry\<lparr>fe_name := path_filename (fe_normalized_path entry), fe_parent_id := parent_id_of state (fe_normalized_path entry)\<rparr>)\<rparr>"

lemma parent_set_view:
  "hm_entries_by_id state (re_after_entry_id r) = Some entry \<Longrightarrow> view (parent_set r state entry) = view state"
  by (auto simp: view_def parent_set_def fun_eq_iff)

lemma tidy_parent_set:
  assumes "tidy state" "hm_entries_by_id state (re_after_entry_id r) = Some entry"
  shows "tidy (parent_set r state entry)"
proof (rule tidy_same_paths [OF assms(1)])
  show "fe_id e = i" if "hm_entries_by_id (parent_set r state entry) i = Some e" for i e
    using that tidy_id [OF assms(1)] assms(2) by (auto simp: parent_set_def split: if_splits)
qed (simp_all add: parent_set_view [OF assms(2)], simp add: parent_set_def)

lemma parents_all:
  "tidy state \<Longrightarrow> (\<And>r. r \<in> set rs \<Longrightarrow> view state (re_after_entry_id r) \<noteq> None) \<Longrightarrow>
    \<exists>state'. apply_parents rs state = (Inr (), state') \<and> tidy state' \<and> view state' = view state"
proof (induction rs arbitrary: state)
  case (Cons r rs)
  obtain entry where entry: "hm_entries_by_id state (re_after_entry_id r) = Some entry"
    using Cons.prems(2) [of r] by (auto simp: view_def)
  note v = parent_set_view [OF entry]
  have "view (parent_set r state entry) (re_after_entry_id r') \<noteq> None" if "r' \<in> set rs" for r'
    using Cons.prems(2) that by (simp add: v)
  from Cons.IH [OF tidy_parent_set [OF Cons.prems(1) entry] this]
  show ?case using entry v by (auto simp: parent_set_def)
qed simp

end
