(* ===== verification/MaterializerDelta.thy ===== *)
theory MaterializerDelta imports Materializer begin

text \<open>
  The materialised view follows the snapshots: a view that shows the base of a computed delta shows the
  target after the delta, provided that no path is handed over from a renamed entry to another; and the
  listings answered from a view.
\<close>

subsection \<open>What a computed delta says\<close>

definition describes :: "bool \<Rightarrow> snapshot \<Rightarrow> snapshot \<Rightarrow> delta_snapshot \<Rightarrow> bool" where
  "describes heuristic b t d \<longleftrightarrow>
    distinct (map fe_id (dl_removed_entries d)) \<and> (\<forall>e \<in> set (dl_removed_entries d). e \<in> set (sn_entries b) \<and> fe_id e \<notin> ids t) \<and>
    distinct (map fe_id (dl_added_entries d)) \<and> distinct (map fe_normalized_path (dl_added_entries d)) \<and>
    (\<forall>e \<in> set (dl_added_entries d). e \<in> set (sn_entries t) \<and> fe_id e \<notin> ids b) \<and>
    distinct (map me_entry_id (dl_modified_entries d)) \<and>
    (\<forall>m. m \<in> set (dl_modified_entries d) \<longleftrightarrow> (\<exists>e \<in> set (sn_entries b). \<exists>e' \<in> set (sn_entries t). fe_id e' = fe_id e \<and>
      (fe_metadata e \<noteq> fe_metadata e' \<or> fe_type e \<noteq> fe_type e') \<and>
      m = \<lparr>me_entry_id = fe_id e', me_before = fe_metadata e, me_after = fe_metadata e'\<rparr>)) \<and>
    distinct (map re_before_entry_id (dl_renamed_entries d)) \<and> distinct (map re_after_entry_id (dl_renamed_entries d)) \<and>
    distinct (map re_new_path (dl_renamed_entries d)) \<and>
    (\<forall>r \<in> set (dl_renamed_entries d). \<exists>e \<in> set (sn_entries b). \<exists>e' \<in> set (sn_entries t). r = rename_of e e' \<and>
      (fe_id e' = fe_id e \<and> fe_normalized_path e \<noteq> fe_normalized_path e' \<or>
       heuristic \<and> fe_id e \<notin> ids t \<and> fe_id e' \<notin> ids b \<and>
         fe_id e \<notin> fe_id ` set (dl_removed_entries d) \<and> fe_id e' \<notin> fe_id ` set (dl_added_entries d))) \<and>
    (\<forall>e \<in> set (sn_entries b). fe_id e \<notin> ids t \<longrightarrow>
      fe_id e \<in> fe_id ` set (dl_removed_entries d) \<or> fe_id e \<in> re_before_entry_id ` set (dl_renamed_entries d)) \<and>
    (\<forall>e \<in> set (sn_entries t). fe_id e \<notin> ids b \<longrightarrow>
      fe_id e \<in> fe_id ` set (dl_added_entries d) \<or> fe_id e \<in> re_after_entry_id ` set (dl_renamed_entries d)) \<and>
    (\<forall>e \<in> set (sn_entries b). \<forall>e' \<in> set (sn_entries t). fe_id e' = fe_id e \<longrightarrow>
      fe_normalized_path e \<noteq> fe_normalized_path e' \<longrightarrow> rename_of e e' \<in> set (dl_renamed_entries d))"

lemma computed_describes:
  assumes c: "comparable b t"
  shows "describes h b t (compute_delta h b t)"
proof -
  obtain pairs removed added where p: "compute_delta h b t = sort_delta (delta_of_pairs b t pairs removed added)"
    "delta_split b t pairs removed added" and none: "\<not> h \<longrightarrow> pairs = []"
    using compute_delta_parts [of h b t] unfolding delta_split_def by blast
  define d where "d = compute_delta h b t"
  have parts: "dl_removed_entries d = sort_key entry_key removed" "dl_added_entries d = sort_key entry_key added"
    "dl_modified_entries d = sort_key me_entry_id (per_common matched_modification b t)"
    "dl_renamed_entries d = sort_key rename_key (renames_of b t pairs)"
    by (simp_all add: d_def p(1) sort_delta_fields delta_of_pairs_def renames_of_def)
  note r = delta_split_removed [OF p(2) c] and a = delta_split_added [OF p(2) c] and n = distinct_renames [OF p(2) c]
  have dt: "distinct (map fe_id (sn_entries t))" "distinct (map fe_normalized_path (sn_entries t))"
    using c by (simp_all add: comparable_def)
  have removed: "\<forall>e \<in> set removed. e \<in> set (sn_entries b) \<and> fe_id e \<notin> ids t" using r(4) by blast
  have added: "\<forall>e \<in> set added. e \<in> set (sn_entries t) \<and> fe_id e \<notin> ids b" using a(4) by blast
  have "distinct (map fe_normalized_path added)"
  proof -
    have "inj_on fe_normalized_path (set added)"
      using dt(2) added by (auto simp: distinct_map inj_on_def)
    then show ?thesis using a(2) by (simp add: distinct_map)
  qed
  moreover have "\<exists>e \<in> set (sn_entries b). \<exists>e' \<in> set (sn_entries t). x = rename_of e e' \<and>
      (fe_id e' = fe_id e \<and> fe_normalized_path e \<noteq> fe_normalized_path e' \<or>
       h \<and> fe_id e \<notin> ids t \<and> fe_id e' \<notin> ids b \<and> fe_id e \<notin> fe_id ` set removed \<and> fe_id e' \<notin> fe_id ` set added)"
    if x: "x \<in> set (renames_of b t pairs)" for x
    using x [unfolded in_renames_of [OF c]]
  proof (elim disjE)
    assume "\<exists>e\<in>set (sn_entries b). \<exists>e'\<in>set (sn_entries t). fe_id e' = fe_id e \<and>
       fe_normalized_path e \<noteq> fe_normalized_path e' \<and> x = rename_of e e'"
    then show ?thesis by blast
  next
    assume "\<exists>(r, a)\<in>set pairs. x = rename_of r a"
    then obtain e e' where e: "(e, e') \<in> set pairs" "x = rename_of e e'" by blast
    then have "e \<in> fst ` set pairs" "e' \<in> snd ` set pairs" by force+
    then have "fe_id e \<notin> fe_id ` set removed" "fe_id e' \<notin> fe_id ` set added" using r(3) a(3) by blast+
    moreover have "h" using none e(1) by auto
    ultimately show ?thesis using delta_split_pairs [OF p(2) c e(1)] e(2) by blast
  qed
  moreover have "fe_id e \<in> fe_id ` set removed \<or> fe_id e \<in> re_before_entry_id ` set (renames_of b t pairs)"
    if "e \<in> set (sn_entries b)" "fe_id e \<notin> ids t" for e
    using that r(4) unfolding image_renames_pairs by blast
  moreover have "fe_id e \<in> fe_id ` set added \<or> fe_id e \<in> re_after_entry_id ` set (renames_of b t pairs)"
    if "e \<in> set (sn_entries t)" "fe_id e \<notin> ids b" for e
    using that a(4) unfolding image_renames_pairs by blast
  moreover have "rename_of e e' \<in> set (renames_of b t pairs)"
    if "e \<in> set (sn_entries b)" "e' \<in> set (sn_entries t)" "fe_id e' = fe_id e" "fe_normalized_path e \<noteq> fe_normalized_path e'" for e e'
    using that unfolding in_renames_of [OF c] by blast
  moreover have "m \<in> set (per_common matched_modification b t) \<longleftrightarrow> (\<exists>e \<in> set (sn_entries b). \<exists>e' \<in> set (sn_entries t). fe_id e' = fe_id e \<and>
      (fe_metadata e \<noteq> fe_metadata e' \<or> fe_type e \<noteq> fe_type e') \<and>
      m = \<lparr>me_entry_id = fe_id e', me_before = fe_metadata e, me_after = fe_metadata e'\<rparr>)" for m
    unfolding in_per_common [OF dt(1)] in_matched_modification ..
  ultimately show ?thesis
    unfolding describes_def d_def [symmetric] parts
    using removed added r(2) a(2) n common_keys(3) [OF c] by (simp add: distinct_map)
qed

text \<open>The parts of the description, for distinct identifiers.\<close>

lemma describes_parts:
  assumes "describes h b t d"
  shows "distinct (map fe_id (dl_removed_entries d))"
    "\<forall>e \<in> set (dl_removed_entries d). e \<in> set (sn_entries b) \<and> fe_id e \<notin> ids t"
    "distinct (map fe_id (dl_added_entries d))" "distinct (map fe_normalized_path (dl_added_entries d))"
    "\<forall>e \<in> set (dl_added_entries d). e \<in> set (sn_entries t) \<and> fe_id e \<notin> ids b"
    "distinct (map me_entry_id (dl_modified_entries d))"
    "\<forall>m. m \<in> set (dl_modified_entries d) \<longleftrightarrow> (\<exists>e \<in> set (sn_entries b). \<exists>e' \<in> set (sn_entries t). fe_id e' = fe_id e \<and>
      (fe_metadata e \<noteq> fe_metadata e' \<or> fe_type e \<noteq> fe_type e') \<and>
      m = \<lparr>me_entry_id = fe_id e', me_before = fe_metadata e, me_after = fe_metadata e'\<rparr>)"
    "distinct (map re_before_entry_id (dl_renamed_entries d))" "distinct (map re_after_entry_id (dl_renamed_entries d))"
    "distinct (map re_new_path (dl_renamed_entries d))"
    "\<forall>r \<in> set (dl_renamed_entries d). \<exists>e \<in> set (sn_entries b). \<exists>e' \<in> set (sn_entries t). r = rename_of e e' \<and>
      (fe_id e' = fe_id e \<and> fe_normalized_path e \<noteq> fe_normalized_path e' \<or>
       h \<and> fe_id e \<notin> ids t \<and> fe_id e' \<notin> ids b \<and>
         fe_id e \<notin> fe_id ` set (dl_removed_entries d) \<and> fe_id e' \<notin> fe_id ` set (dl_added_entries d))"
    "\<forall>e \<in> set (sn_entries b). fe_id e \<notin> ids t \<longrightarrow>
      fe_id e \<in> fe_id ` set (dl_removed_entries d) \<or> fe_id e \<in> re_before_entry_id ` set (dl_renamed_entries d)"
    "\<forall>e \<in> set (sn_entries t). fe_id e \<notin> ids b \<longrightarrow>
      fe_id e \<in> fe_id ` set (dl_added_entries d) \<or> fe_id e \<in> re_after_entry_id ` set (dl_renamed_entries d)"
    "\<forall>e \<in> set (sn_entries b). \<forall>e' \<in> set (sn_entries t). fe_id e' = fe_id e \<longrightarrow>
      fe_normalized_path e \<noteq> fe_normalized_path e' \<longrightarrow> rename_of e e' \<in> set (dl_renamed_entries d)"
  using assms unfolding describes_def by - (elim conjE, assumption)+

lemmas describesD = describes_parts [rule_format]

subsection \<open>Paths that change hands\<close>

text \<open>No entry of the target stands where a renamed entry stood in the base.\<close>

definition hand_over_free :: "snapshot \<Rightarrow> delta_snapshot \<Rightarrow> bool" where
  "hand_over_free t d \<longleftrightarrow> (\<forall>r \<in> set (dl_renamed_entries d). \<forall>e \<in> set (sn_entries t). fe_normalized_path e \<noteq> re_old_path r)"

lemma same_id: "distinct (map fe_id es) \<Longrightarrow> e \<in> set es \<Longrightarrow> e' \<in> set es \<Longrightarrow> fe_id e = fe_id e' \<Longrightarrow> e = e'"
  using distinct_map_eq [of fe_id es e e'] by blast

lemma same_path: "distinct (map fe_normalized_path es) \<Longrightarrow> e \<in> set es \<Longrightarrow> e' \<in> set es \<Longrightarrow>
    fe_normalized_path e = fe_normalized_path e' \<Longrightarrow> e = e'"
  using distinct_map_eq [of fe_normalized_path es e e'] by blast

lemma comparableD:
  assumes "comparable b t"
  shows "distinct (map fe_id (sn_entries b))" "distinct (map fe_id (sn_entries t))" "distinct (map fe_normalized_path (sn_entries t))"
  using assms by (simp_all add: comparable_def)

text \<open>An entry that is not removed keeps its path or leaves it free.\<close>

lemma occupied:
  assumes c: "comparable b t" and d: "describes h b t d" and free: "hand_over_free t d"
    and e: "e \<in> set (sn_entries b)" "fe_id e \<notin> fe_id ` set (dl_removed_entries d)"
    and x: "x \<in> set (sn_entries t)" "fe_normalized_path x = fe_normalized_path e"
  shows "fe_id x = fe_id e"
proof (cases "fe_id e \<in> ids t")
  case True
  then obtain e' where e': "e' \<in> set (sn_entries t)" "fe_id e' = fe_id e" by (auto simp: ids_def)
  have "fe_normalized_path e = fe_normalized_path e'"
  proof (rule ccontr)
    assume "fe_normalized_path e \<noteq> fe_normalized_path e'"
    from describesD(14) [OF d e(1) e' this] have "fe_normalized_path x \<noteq> fe_normalized_path e"
      using free x(1) unfolding hand_over_free_def by fastforce
    then show False using x(2) by simp
  qed
  then have "x = e'" using same_path [OF comparableD(3) [OF c] x(1) e'(1)] x(2) by simp
  then show ?thesis using e'(2) by simp
next
  case False
  then obtain r where r: "r \<in> set (dl_renamed_entries d)" "re_before_entry_id r = fe_id e"
    using describesD(12) [OF d e(1)] e(2) by auto
  obtain y y' where y: "y \<in> set (sn_entries b)" "r = rename_of y y'" using describesD(11) [OF d r(1)] by blast
  then have "y = e" using same_id [OF comparableD(1) [OF c] y(1) e(1)] r(2) by simp
  then have "re_old_path r = fe_normalized_path e" using y(2) by simp
  then show ?thesis using free r(1) x unfolding hand_over_free_def by metis
qed

subsection \<open>Removals, additions and modifications\<close>

text \<open>The view before the renames.\<close>

definition view_before_renames :: "snapshot \<Rightarrow> snapshot \<Rightarrow> delta_snapshot \<Rightarrow> entry_id \<Rightarrow> (string \<times> file_metadata) option" where
  "view_before_renames b t d i =
    (if i \<in> fe_id ` set (dl_removed_entries d) then None
     else if i \<in> fe_id ` set (dl_added_entries d) then map_option (\<lambda>e. entry_data e) (index_by_id t i)
     else case index_by_id b i of
         None \<Rightarrow> None
       | Some e \<Rightarrow> Some (fe_normalized_path e,
           case index_by_id t i of None \<Rightarrow> fe_metadata e | Some e' \<Rightarrow> fe_metadata e'))"

definition shows_snapshot :: "host_materialized_state \<Rightarrow> snapshot \<Rightarrow> bool" where
  "shows_snapshot state sn \<longleftrightarrow> tidy state \<and> (\<forall>i. view state i = map_option (\<lambda>e. entry_data e) (index_by_id sn i))"

lemma shows_snapshotD:
  assumes "shows_snapshot state sn" "distinct (map fe_id (sn_entries sn))"
  shows "tidy state" "e \<in> set (sn_entries sn) \<Longrightarrow> view state (fe_id e) = Some (entry_data e)"
    "view state i = Some v \<Longrightarrow> \<exists>e \<in> set (sn_entries sn). fe_id e = i \<and> v = entry_data e"
    "i \<notin> ids sn \<Longrightarrow> view state i = None"
  using assms index_by_id_distinct [OF assms(2)] by (auto simp: shows_snapshot_def index_by_id_None ids_def)

lemma before_renames:
  assumes c: "comparable b t" and d: "describes h b t d" and free: "hand_over_free t d" and st: "shows_snapshot state b"
  shows "\<exists>s. apply_modified (dl_modified_entries d) (fold index_entry (dl_added_entries d) (fold remove_entry (dl_removed_entries d) state)) =
      (Inr (), s) \<and> tidy s \<and> (\<forall>i. view s i = view_before_renames b t d i)"
proof -
  let ?R = "fe_id ` set (dl_removed_entries d)" and ?A = "fe_id ` set (dl_added_entries d)"
  note db = comparableD(1) [OF c] and dt = comparableD(2) [OF c] and base = shows_snapshotD [OF st comparableD(1) [OF c]]
  note B = index_by_id_distinct [OF db] and T = index_by_id_distinct [OF dt]
  define s1 where "s1 = fold remove_entry (dl_removed_entries d) state"
  have s1: "tidy s1" "view s1 = (\<lambda>i. if i \<in> ?R then None else view state i)"
    using remove_all [OF base(1) describesD(1) [OF d]] base(2) describesD(2) [OF d] unfolding s1_def by blast+
  define s2 where "s2 = fold index_entry (dl_added_entries d) s1"
  have "view s1 (fe_id e) = None \<and> fresh_path s1 (fe_normalized_path e)" if e: "e \<in> set (dl_added_entries d)" for e
  proof -
    have e': "e \<in> set (sn_entries t)" "fe_id e \<notin> ids b" using describesD(5) [OF d e] by auto
    have "view s1 i \<noteq> Some (fe_normalized_path e, md)" for i md
    proof
      assume v: "view s1 i = Some (fe_normalized_path e, md)"
      then have i: "i \<notin> ?R" "view state i = Some (fe_normalized_path e, md)" by (auto simp: s1(2) split: if_splits)
      obtain x where x: "x \<in> set (sn_entries b)" "fe_id x = i" "fe_normalized_path x = fe_normalized_path e"
        using base(3) [OF i(2)] by auto
      have "fe_id e = fe_id x" using occupied [OF c d free x(1) _ e'(1)] i(1) x by simp
      then show False using e'(2) idsI [OF x(1)] by simp
    qed
    then show ?thesis using base(4) [OF e'(2)] by (simp add: s1(2) fresh_path_def)
  qed
  from add_all [OF s1(1) describesD(3,4) [OF d] this]
  have s2: "tidy s2" "\<And>e. e \<in> set (dl_added_entries d) \<Longrightarrow> view s2 (fe_id e) = Some (entry_data e)"
    "\<And>i. i \<notin> ?A \<Longrightarrow> view s2 i = view s1 i" unfolding s2_def by blast+
  have common: "view s2 (fe_id e) = Some (entry_data e)" if "e \<in> set (sn_entries b)" "fe_id e \<in> ids t" for e
  proof -
    have "fe_id e \<notin> ?R" "fe_id e \<notin> ?A" using that idsI [OF that(1)] describesD(2,5) [OF d] by fastforce+
    then show ?thesis using s2(3) base(2) [OF that(1)] by (simp add: s1(2))
  qed
  have "view s2 (me_entry_id m) \<noteq> None" if "m \<in> set (dl_modified_entries d)" for m
    using that [unfolded describesD(7) [OF d]] common idsI by fastforce
  from modify_all [OF s2(1) describesD(6) [OF d] this] obtain s where
    s: "apply_modified (dl_modified_entries d) s2 = (Inr (), s)" "tidy s"
    "\<And>m. m \<in> set (dl_modified_entries d) \<Longrightarrow> view s (me_entry_id m) = Some (fst (the (view s2 (me_entry_id m))), me_after m)"
    "\<And>i. i \<notin> me_entry_id ` set (dl_modified_entries d) \<Longrightarrow> view s i = view s2 i" by blast
  have "view s i = view_before_renames b t d i" for i
  proof (cases "i \<in> ids b \<and> i \<in> ids t")
    case True
    then obtain e e' where e: "e \<in> set (sn_entries b)" "fe_id e = i" and e': "e' \<in> set (sn_entries t)" "fe_id e' = i"
      by (auto simp: ids_def)
    have "i \<notin> ?R" "i \<notin> ?A" using True describesD(2,5) [OF d] by fastforce+
    then have goal: "view_before_renames b t d i = Some (fe_normalized_path e, fe_metadata e')"
      using B [of i e] T [of i e'] e e' by (simp add: view_before_renames_def)
    have v2: "view s2 i = Some (entry_data e)" using common [OF e(1)] e(2) True by simp
    show ?thesis
    proof (cases "fe_metadata e \<noteq> fe_metadata e' \<or> fe_type e \<noteq> fe_type e'")
      case True
      then have "\<lparr>me_entry_id = fe_id e', me_before = fe_metadata e, me_after = fe_metadata e'\<rparr> \<in> set (dl_modified_entries d)"
        unfolding describesD(7) [OF d] using e e' by (intro bexI [of _ e] bexI [of _ e']) simp_all
      from s(3) [OF this] show ?thesis using v2 goal e'(2) by simp
    next
      case False
      have "i \<notin> me_entry_id ` set (dl_modified_entries d)"
      proof
        assume "i \<in> me_entry_id ` set (dl_modified_entries d)"
        then obtain x x' where "x \<in> set (sn_entries b)" "x' \<in> set (sn_entries t)" "fe_id x' = fe_id x" "fe_id x' = i"
          "fe_metadata x \<noteq> fe_metadata x' \<or> fe_type x \<noteq> fe_type x'" by (auto simp: describesD(7) [OF d])
        then show False using False same_id [OF db _ e(1)] same_id [OF dt _ e'(1)] e(2) e'(2) by metis
      qed
      then show ?thesis using s(4) v2 goal False by simp
    qed
  next
    case False
    have "i \<notin> me_entry_id ` set (dl_modified_entries d)"
      using False idsI by (fastforce simp: describesD(7) [OF d])
    then have v: "view s i = view s2 i" by (rule s(4))
    show ?thesis
    proof (cases "i \<in> ?A")
      case True
      then obtain a where a: "a \<in> set (dl_added_entries d)" "fe_id a = i" by auto
      then have "a \<in> set (sn_entries t)" "i \<notin> ?R" using describesD(2,5) [OF d] idsI by fastforce+
      then show ?thesis using v s2(2) [OF a(1)] a(2) True T [of i a] by (simp add: view_before_renames_def)
    next
      case no_added: False
      then have "view s i = (if i \<in> ?R then None else map_option (\<lambda>e. entry_data e) (index_by_id b i))"
        using v s2(3) st by (simp add: s1(2) shows_snapshot_def)
      moreover have "index_by_id t i = None" if "index_by_id b i \<noteq> None"
        using that False by (simp add: index_by_id_None ids_def)
      ultimately show ?thesis using no_added by (auto simp: view_before_renames_def split: option.split)
    qed
  qed
  then show ?thesis using s(1,2) unfolding s2_def s1_def by blast
qed

subsection \<open>Renames\<close>

lemma view_of_base:
  assumes "comparable b t" "describes h b t d" "e \<in> set (sn_entries b)" "fe_id e \<notin> fe_id ` set (dl_removed_entries d)"
  shows "view_before_renames b t d (fe_id e) = Some (fe_normalized_path e,
    case index_by_id t (fe_id e) of None \<Rightarrow> fe_metadata e | Some e' \<Rightarrow> fe_metadata e')"
proof -
  have "fe_id e \<notin> fe_id ` set (dl_added_entries d)" using describesD(5) [OF assms(2)] idsI [OF assms(3)] by fastforce
  then show ?thesis using assms(3,4) index_by_id_distinct [OF comparableD(1) [OF assms(1)], of "fe_id e" e]
    by (simp add: view_before_renames_def)
qed

lemma view_before_cases:
  assumes c: "comparable b t" and d: "describes h b t d" and v: "view_before_renames b t d i = Some (p, md)"
  obtains (added) a where "a \<in> set (dl_added_entries d)" "fe_id a = i" "p = fe_normalized_path a"
  | (base) e where "e \<in> set (sn_entries b)" "fe_id e = i" "i \<notin> fe_id ` set (dl_removed_entries d)" "p = fe_normalized_path e"
proof (cases "i \<in> fe_id ` set (dl_added_entries d)")
  case True
  then obtain a where a: "a \<in> set (dl_added_entries d)" "fe_id a = i" by auto
  then have "index_by_id t i = Some a"
    using describesD(5) [OF d] index_by_id_distinct [OF comparableD(2) [OF c]] by auto
  then have "p = fe_normalized_path a" using v True by (simp add: view_before_renames_def split: if_splits)
  then show ?thesis using added a by blast
next
  case False
  then obtain e where "index_by_id b i = Some e" "p = fe_normalized_path e" "i \<notin> fe_id ` set (dl_removed_entries d)"
    using v by (auto simp: view_before_renames_def split: if_splits option.splits)
  then show ?thesis using base index_by_id_distinct [OF comparableD(1) [OF c]] by auto
qed

lemma kept_base:
  assumes "describes h b t d" "r \<in> set (dl_renamed_entries d)" "r = rename_of e e'" "e \<in> set (sn_entries b)" "e' \<in> set (sn_entries t)"
    "fe_id e' = fe_id e \<and> fe_normalized_path e \<noteq> fe_normalized_path e' \<or>
       h \<and> fe_id e \<notin> ids t \<and> fe_id e' \<notin> ids b \<and>
         fe_id e \<notin> fe_id ` set (dl_removed_entries d) \<and> fe_id e' \<notin> fe_id ` set (dl_added_entries d)"
  shows "fe_id e \<notin> fe_id ` set (dl_removed_entries d)" "fe_id e' \<notin> fe_id ` set (dl_added_entries d)"
    "fe_id e' \<notin> fe_id ` set (dl_removed_entries d)"
proof -
  have removed: "i \<in> ids b \<and> i \<notin> ids t" if "i \<in> fe_id ` set (dl_removed_entries d)" for i
    using that describesD(2) [OF assms(1)] idsI by fastforce
  have added: "i \<in> ids t \<and> i \<notin> ids b" if "i \<in> fe_id ` set (dl_added_entries d)" for i
    using that describesD(5) [OF assms(1)] idsI by fastforce
  show "fe_id e \<notin> fe_id ` set (dl_removed_entries d)" "fe_id e' \<notin> fe_id ` set (dl_added_entries d)"
    "fe_id e' \<notin> fe_id ` set (dl_removed_entries d)"
    using assms(6) idsI [OF assms(4)] idsI [OF assms(5)] removed added by metis+
qed

lemma renames_are_ready:
  assumes c: "comparable b t" and d: "describes h b t d" and free: "hand_over_free t d"
    and normal: "\<And>e. e \<in> set (sn_entries t) \<Longrightarrow> lexically_normal (fe_normalized_path e) = fe_normalized_path e"
    and v: "\<And>i. view s i = view_before_renames b t d i"
  shows "renames_ready (dl_renamed_entries d) s"
proof -
  note db = comparableD(1) [OF c] and paths = comparableD(3) [OF c]
  have "view s (re_before_entry_id r) \<noteq> None \<and> lexically_normal (re_new_path r) = re_new_path r \<and>
      (re_after_entry_id r = re_before_entry_id r \<or> view s (re_after_entry_id r) = None) \<and> fresh_path s (re_new_path r)"
    if r: "r \<in> set (dl_renamed_entries d)" for r
  proof -
    obtain e e' where e: "r = rename_of e e'" "e \<in> set (sn_entries b)" "e' \<in> set (sn_entries t)"
      and kind: "fe_id e' = fe_id e \<and> fe_normalized_path e \<noteq> fe_normalized_path e' \<or>
       h \<and> fe_id e \<notin> ids t \<and> fe_id e' \<notin> ids b \<and>
         fe_id e \<notin> fe_id ` set (dl_removed_entries d) \<and> fe_id e' \<notin> fe_id ` set (dl_added_entries d)"
      using describesD(11) [OF d r] by blast
    note kept = kept_base [OF d r e kind]
    have "view s (fe_id e) \<noteq> None" using view_of_base [OF c d e(2) kept(1)] by (simp add: v)
    moreover have "fe_id e' = fe_id e \<or> view s (fe_id e') = None"
    proof (cases "fe_id e' = fe_id e")
      case False
      then have "index_by_id b (fe_id e') = None" using kind by (auto simp: index_by_id_None ids_def)
      then show ?thesis using kept by (simp add: v view_before_renames_def)
    qed simp
    moreover have "fresh_path s (fe_normalized_path e')"
      unfolding fresh_path_def
    proof (intro allI notI)
      fix i md assume "view s i = Some (fe_normalized_path e', md)"
      then have "view_before_renames b t d i = Some (fe_normalized_path e', md)" by (simp add: v)
      then show False
      proof (rule view_before_cases [OF c d])
        fix a assume a: "a \<in> set (dl_added_entries d)" "fe_normalized_path e' = fe_normalized_path a"
        then have "a = e'" using same_path [OF paths _ e(3)] describesD(5) [OF d] by metis
        then show False using kept(2) a(1) by blast
      next
        fix x assume x: "x \<in> set (sn_entries b)" "fe_id x = i" "i \<notin> fe_id ` set (dl_removed_entries d)"
          "fe_normalized_path e' = fe_normalized_path x"
        have "fe_id e' = fe_id x" using occupied [OF c d free x(1) _ e(3)] x by simp
        moreover from this have "fe_id e' \<in> ids b" using idsI [OF x(1)] by simp
        then have "fe_id e' = fe_id e" "fe_normalized_path e \<noteq> fe_normalized_path e'" using kind by auto
        moreover from this have "x = e" using same_id [OF db x(1) e(2)] calculation(1) by simp
        ultimately show False using x(4) by simp
      qed
    qed
    ultimately show ?thesis unfolding e(1) rename_of_sel using normal [OF e(3)] by (intro conjI)
  qed
  then have "\<forall>r \<in> set (dl_renamed_entries d). view s (re_before_entry_id r) \<noteq> None \<and> lexically_normal (re_new_path r) = re_new_path r \<and>
      (re_after_entry_id r = re_before_entry_id r \<or> view s (re_after_entry_id r) = None) \<and> fresh_path s (re_new_path r)"
    by (rule ballI)
  then show ?thesis unfolding renames_ready_def by (intro conjI describesD(8-10) [OF d])
qed

lemma after_renames:
  assumes c: "comparable b t" and d: "describes h b t d" and v: "renamed_view (dl_renamed_entries d) (view_before_renames b t d) v'"
  shows "map_option fst (v' i) = map_option fe_normalized_path (index_by_id t i)"
    "\<not> h \<Longrightarrow> v' i = map_option (\<lambda>e. entry_data e) (index_by_id t i)"
proof -
  let ?N = "dl_renamed_entries d" and ?V = "view_before_renames b t d"
  note db = comparableD(1) [OF c] and dt = comparableD(2) [OF c]
  note B = index_by_id_distinct [OF db] and T = index_by_id_distinct [OF dt]
  have v1: "v' (re_after_entry_id r) = Some (re_new_path r, snd (the (?V (re_before_entry_id r))))" if "r \<in> set ?N" for r
    using v that by (simp add: renamed_view_def)
  have v2: "v' j = None" if "j \<in> re_before_entry_id ` set ?N" "j \<notin> re_after_entry_id ` set ?N" for j
    using v that by (simp add: renamed_view_def)
  have v3: "v' j = ?V j" if "j \<notin> re_before_entry_id ` set ?N" "j \<notin> re_after_entry_id ` set ?N" for j
    using v that by (simp add: renamed_view_def)
  have goal: "map_option fst (v' i) = map_option fe_normalized_path (index_by_id t i) \<and>
      (\<not> h \<longrightarrow> v' i = map_option (\<lambda>e. entry_data e) (index_by_id t i))"
  proof (cases "i \<in> re_after_entry_id ` set ?N")
    case True
    then obtain r where r: "r \<in> set ?N" "re_after_entry_id r = i" by auto
    obtain e e' where e: "r = rename_of e e'" "e \<in> set (sn_entries b)" "e' \<in> set (sn_entries t)"
      and kind: "fe_id e' = fe_id e \<and> fe_normalized_path e \<noteq> fe_normalized_path e' \<or>
       h \<and> fe_id e \<notin> ids t \<and> fe_id e' \<notin> ids b \<and>
         fe_id e \<notin> fe_id ` set (dl_removed_entries d) \<and> fe_id e' \<notin> fe_id ` set (dl_added_entries d)"
      using describesD(11) [OF d r(1)] by blast
    have Ti: "index_by_id t i = Some e'" using T e r(2) by simp
    have "snd (the (?V (fe_id e))) = fe_metadata e'" if "\<not> h"
      using that kind view_of_base [OF c d e(2) kept_base(1) [OF d r(1) e kind]] Ti r(2) e(1) by auto
    then show ?thesis using v1 [OF r(1)] r(2) e(1) Ti by simp
  next
    case not_after: False
    show ?thesis
    proof (cases "i \<in> re_before_entry_id ` set ?N")
      case True
      then obtain r where r: "r \<in> set ?N" "re_before_entry_id r = i" by auto
      obtain e e' where e: "r = rename_of e e'" "fe_id e' = fe_id e \<or> fe_id e \<notin> ids t"
        using describesD(11) [OF d r(1)] by blast
      then have "i \<notin> ids t" using r not_after by force
      then show ?thesis using v2 [OF True not_after] by (simp add: index_by_id_None ids_def)
    next
      case not_before: False
      have vi: "v' i = ?V i" by (rule v3 [OF not_before not_after])
      show ?thesis
      proof (cases "i \<in> ids t")
        case False
        have "?V i = None"
        proof (cases "?V i")
          case (Some w)
          then obtain p md where "?V i = Some (p, md)" by (cases w) auto
          then show ?thesis
          proof (rule view_before_cases [OF c d])
            fix a assume a: "a \<in> set (dl_added_entries d)" "fe_id a = i"
            then have "i \<in> ids t" using describesD(5) [OF d a(1)] idsI by blast
            then show ?thesis using False by simp
          next
            fix e assume "e \<in> set (sn_entries b)" "fe_id e = i" "i \<notin> fe_id ` set (dl_removed_entries d)"
            then show ?thesis using describesD(12) [OF d] False not_before by blast
          qed
        qed simp
        then show ?thesis using vi False by (simp add: index_by_id_None ids_def)
      next
        case True
        then obtain e' where e': "e' \<in> set (sn_entries t)" "fe_id e' = i" by (auto simp: ids_def)
        then have Ti: "index_by_id t i = Some e'" using T by simp
        have "?V i = Some (entry_data e')"
        proof (cases "i \<in> ids b")
          case True
          then obtain e where e: "e \<in> set (sn_entries b)" "fe_id e = i" by (auto simp: ids_def)
          have "fe_normalized_path e = fe_normalized_path e'"
          proof (rule ccontr)
            assume "fe_normalized_path e \<noteq> fe_normalized_path e'"
            then have "rename_of e e' \<in> set ?N" using describesD(14) [OF d e(1) e'(1)] e(2) e'(2) by simp
            from imageI [OF this, of re_after_entry_id] show False using not_after e'(2) by simp
          qed
          moreover have "fe_id e \<notin> fe_id ` set (dl_removed_entries d)"
            using describesD(2) [OF d] e(2) e'(2) idsI [OF e'(1)] by fastforce
          ultimately show ?thesis using view_of_base [OF c d e(1)] e(2) Ti by simp
        next
          case False
          then have "i \<in> fe_id ` set (dl_added_entries d)" using describesD(13) [OF d e'(1)] e'(2) not_after by simp
          moreover have "i \<notin> fe_id ` set (dl_removed_entries d)" using False describesD(2) [OF d] idsI by fastforce
          ultimately show ?thesis using Ti by (simp add: view_before_renames_def)
        qed
        then show ?thesis using vi Ti by simp
      qed
    qed
  qed
  show "map_option fst (v' i) = map_option fe_normalized_path (index_by_id t i)" using goal ..
  show "v' i = map_option (\<lambda>e. entry_data e) (index_by_id t i)" if "\<not> h" using goal that by blast
qed

subsection \<open>Whole deltas\<close>

lemma delta_followed:
  assumes c: "comparable b t" and d_def: "d = compute_delta h b t" and free: "hand_over_free t d"
    and normal: "\<And>e. e \<in> set (sn_entries t) \<Longrightarrow> lexically_normal (fe_normalized_path e) = fe_normalized_path e"
    and st: "shows_snapshot state b"
  shows "\<exists>state'. delta_on_state d state = (Inr (), state') \<and> tidy state' \<and>
    (\<forall>i. map_option fst (view state' i) = map_option fe_normalized_path (index_by_id t i)) \<and>
    (\<not> h \<longrightarrow> shows_snapshot state' t)"
proof -
  have d: "describes h b t d" unfolding d_def by (rule computed_describes [OF c])
  let ?N = "dl_renamed_entries d"
  obtain s where s: "apply_modified (dl_modified_entries d)
      (fold index_entry (dl_added_entries d) (fold remove_entry (dl_removed_entries d) state)) = (Inr (), s)"
    "tidy s" "\<And>i. view s i = view_before_renames b t d i"
    using before_renames [OF c d free st] by blast
  obtain s1 where s1: "apply_renamed ?N s = (Inr (), s1)" "tidy s1" "renamed_view ?N (view s) (view s1)"
    using rename_all [OF s(2) renames_are_ready [OF c d free normal s(3)]] by blast
  have "view s1 (re_after_entry_id r) \<noteq> None" if "r \<in> set ?N" for r
    using s1(3) that by (simp add: renamed_view_def)
  from parents_all [OF s1(2) this] obtain s2 where
    s2: "apply_parents ?N s1 = (Inr (), s2)" "tidy s2" "view s2 = view s1" by blast
  have "view s = view_before_renames b t d" using s(3) by (rule ext)
  then have v: "renamed_view ?N (view_before_renames b t d) (view s2)" using s1(3) s2(3) by simp
  note after = after_renames [OF c d v]
  have "delta_on_state d state = (Inr (), s2)" using s(1) s1(1) s2(1) by (simp add: delta_on_state_def and_then_def Let_def)
  then show ?thesis using s2(2) after by (auto simp: shows_snapshot_def)
qed

lemma built_shows_snapshot:
  assumes "distinct (map fe_id (sn_entries sn))" "distinct (map fe_normalized_path (sn_entries sn))"
  shows "shows_snapshot (build_from_snapshot sn sequence) sn"
proof -
  let ?empty = "\<lparr>hm_last_sequence = sequence, hm_last_snapshot_id = sn_snapshot_id sn,
    hm_host_identifier = sn_host_identifier sn, hm_entries_by_id = Map.empty, hm_id_by_path = Map.empty\<rparr>"
  have v: "view ?empty i = None" for i by (simp add: view_def)
  have "tidy ?empty" by (simp add: tidy_def view_def)
  from add_all [OF this assms] have a: "tidy (build_from_snapshot sn sequence)"
    "\<And>e. e \<in> set (sn_entries sn) \<Longrightarrow> view (build_from_snapshot sn sequence) (fe_id e) = Some (entry_data e)"
    "\<And>i. i \<notin> fe_id ` set (sn_entries sn) \<Longrightarrow> view (build_from_snapshot sn sequence) i = None"
    unfolding build_from_snapshot_def by (simp_all add: v fresh_path_def)
  have "view (build_from_snapshot sn sequence) i = map_option (\<lambda>e. entry_data e) (index_by_id sn i)" for i
  proof (cases "index_by_id sn i")
    case None
    then show ?thesis using a(3) by (simp add: index_by_id_None)
  next
    case (Some e)
    then have "e \<in> set (sn_entries sn)" "fe_id e = i" using index_by_id_distinct [OF assms(1)] by blast+
    then show ?thesis using a(2) Some by auto
  qed
  then show ?thesis using a(1) by (simp add: shows_snapshot_def)
qed

subsection \<open>Listings\<close>

lemma built_entries:
  "distinct (map fe_id es) \<Longrightarrow> hm_entries_by_id (fold index_entry es state) i =
    (case find (\<lambda>e. fe_id e = i) es of None \<Rightarrow> hm_entries_by_id state i | Some e \<Rightarrow> Some e)"
proof (induction es arbitrary: state)
  case (Cons e es)
  have "find (\<lambda>x. fe_id x = fe_id e) es = None"
    using Cons.prems by (auto simp: find_None_iff image_iff)
  then show ?case using Cons by (auto simp: index_entry_def split: option.split)
qed simp

lemma built_entries_distinct:
  "distinct (map fe_id (sn_entries sn)) \<Longrightarrow> hm_entries_by_id (build_from_snapshot sn sequence) i = index_by_id sn i"
  by (simp add: build_from_snapshot_def built_entries index_by_id_find split: option.split)

text \<open>The entries met in any order of the identifiers are the entries of the snapshot.\<close>

lemma entries_in_order:
  assumes "distinct (map fe_id es)" "set order = fe_id ` set es" "distinct order"
    and m: "\<And>i e. m i = Some e \<longleftrightarrow> e \<in> set es \<and> fe_id e = i"
  shows "mset (List.map_filter m order) = mset es"
proof -
  have some: "\<exists>e. m i = Some e \<and> e \<in> set es \<and> fe_id e = i" if "i \<in> set order" for i
    using that m unfolding assms(2) by blast
  then have all: "filter (\<lambda>i. m i \<noteq> None) order = order" by (intro filter_True) fastforce
  have "List.map_filter m order = map (the \<circ> m) order" unfolding List.map_filter_def all ..
  moreover have "map fe_id (map (the \<circ> m) order) = order"
    unfolding map_map by (rule map_idI) (use some in fastforce)
  moreover have "set (map (the \<circ> m) order) = set es"
  proof (intro set_eqI iffI)
    fix e assume "e \<in> set (map (the \<circ> m) order)"
    then show "e \<in> set es" using some by fastforce
  next
    fix e assume e: "e \<in> set es"
    then have "fe_id e \<in> set order" "m (fe_id e) = Some e" using assms(2) m by auto
    then have "(the \<circ> m) (fe_id e) \<in> set (map (the \<circ> m) order)" unfolding set_map by (intro imageI)
    then show "e \<in> set (map (the \<circ> m) order)" using \<open>m (fe_id e) = Some e\<close> by simp
  qed
  moreover from calculation(2) assms(3) have "distinct (map (the \<circ> m) order)" by (metis distinct_map)
  moreover have "distinct es" using assms(1) by (simp add: distinct_map)
  ultimately show ?thesis using set_eq_iff_mset_eq_distinct [of "map (the \<circ> m) order" es] by simp
qed

subsection \<open>Properties\<close>

lemma acceptable_paths:
  "snapshot_acceptable sn \<Longrightarrow> e \<in> set (sn_entries sn) \<Longrightarrow> lexically_normal (fe_normalized_path e) = fe_normalized_path e \<and> fe_normalized_path e \<noteq> []"
  by (auto simp: snapshot_acceptable_def list_all_iff path_acceptable_def is_absolute_normalized_path_def split: if_splits)

lemma view_numbers [simp]:
  "tidy (state\<lparr>hm_last_snapshot_id := i, hm_last_sequence := q\<rparr>) = tidy state"
  "view (state\<lparr>hm_last_snapshot_id := i, hm_last_sequence := q\<rparr>) = view state"
  by (simp_all add: tidy_def view_def fun_eq_iff)

text \<open>
  A snapshot that passes validation replaces the view of its host, and afterwards the children listed
  for each of its directories are exactly the entries of the snapshot with that directory as their parent,
  directories first and then by name, in whatever order the unordered map is visited.
\<close>

lemma applied_snapshot_is_listed:
  assumes valid: "\<not> has_errors (validate_snapshot now sn)" and host: "host \<noteq> []"
    and e: "e \<in> set (sn_entries sn)" "fe_type e = EntryType_Directory"
    and order: "set order = fe_id ` set (sn_entries sn)" "distinct order"
  shows "\<exists>sink' children. mz_apply_snapshot host sequence sn sink = (Inr (), sink') \<and>
    list_children order sink' host (fe_normalized_path e) = Inr children \<and>
    mset children = mset (filter (\<lambda>c. fe_parent_id c = fe_id e) (sn_entries sn)) \<and>
    sorted (map listing_key children) \<and> last_sequence sink' host = Inr sequence"
proof -
  have acc: "snapshot_acceptable sn" using valid validate_snapshot_errors by blast
  then have dist: "distinct (map fe_id (sn_entries sn))" "distinct (map fe_normalized_path (sn_entries sn))"
    by (simp_all add: snapshot_acceptable_def directory_tree_def)
  let ?state = "build_from_snapshot sn sequence"
  let ?sink = "sink\<lparr>mz_states := (mz_states sink)(host \<mapsto> ?state), mz_last_updated_host_id := host\<rparr>"
  let ?children = "sort_key listing_key (filter (\<lambda>c. fe_parent_id c = fe_id e) (List.map_filter (hm_entries_by_id ?state) order))"
  have run: "mz_apply_snapshot host sequence sn sink = (Inr (), ?sink)" using host by (simp add: mz_apply_snapshot_def)
  have entries: "hm_entries_by_id ?state i = Some x \<longleftrightarrow> x \<in> set (sn_entries sn) \<and> fe_id x = i" for i x
    using built_entries_distinct [OF dist(1), of sequence i] index_by_id_distinct [OF dist(1)] by simp
  have shown: "shows_snapshot ?state sn" by (rule built_shows_snapshot [OF dist])
  have "hm_id_by_path ?state (fe_normalized_path e) = Some (fe_id e)"
    using tidy_path [OF shows_snapshotD(1) [OF shown dist(1)]] shows_snapshotD(2) [OF shown dist(1) e(1)] by blast
  moreover have "hm_entries_by_id ?state (fe_id e) = Some e" using entries e(1) by blast
  ultimately have list: "list_children order ?sink host (fe_normalized_path e) = Inr ?children"
    using acceptable_paths [OF acc e(1)] host e(2) by (simp add: list_children_def host_state_of_def)
  have "mset ?children = filter_mset (\<lambda>c. fe_parent_id c = fe_id e) (mset (List.map_filter (hm_entries_by_id ?state) order))"
    by simp
  also have "\<dots> = mset (filter (\<lambda>c. fe_parent_id c = fe_id e) (sn_entries sn))"
    unfolding entries_in_order [OF dist(1) order entries] by simp
  finally have "mset ?children = mset (filter (\<lambda>c. fe_parent_id c = fe_id e) (sn_entries sn))" .
  moreover have "last_sequence ?sink host = Inr sequence"
  proof -
    have "hm_last_sequence (fold index_entry es state) = hm_last_sequence state" for es state
      by (induction es arbitrary: state) (simp_all add: index_entry_def)
    then show ?thesis using host by (simp add: last_sequence_def host_state_of_def build_from_snapshot_def)
  qed
  ultimately show ?thesis using run list by (intro exI conjI) (assumption | simp)+
qed

text \<open>
  C40: the view follows the deltas of the delta engine: if it shows the base of a computed delta, both
  snapshots pass validation and no path is handed over from a renamed entry to another entry, then the
  delta is applied without error, the view afterwards holds exactly the identifiers of the target, each with
  its path, with the index of paths exact, and, when the rename heuristic is off, with its metadata; the
  snapshot and sequence numbers are those of the delta.
\<close>

theorem view_follows_computed_delta:
  assumes valid: "\<not> has_errors (validate_snapshot now b)" "\<not> has_errors (validate_snapshot now' t)"
    and d_def: "d = compute_delta h b t" and free: "hand_over_free t d"
    and host: "host \<noteq> []" "mz_states sink host = Some state" "hm_last_snapshot_id state = sn_snapshot_id b"
    and st: "shows_snapshot state b"
  shows "\<exists>state'. mz_apply_delta order host sequence d sink =
      (Inr (), sink\<lparr>mz_states := (mz_states sink)(host \<mapsto> state'), mz_last_updated_host_id := host\<rparr>) \<and>
    hm_last_snapshot_id state' = sn_snapshot_id t \<and> hm_last_sequence state' = sequence \<and> tidy state' \<and>
    (\<forall>i. map_option fst (view state' i) = map_option fe_normalized_path (index_by_id t i)) \<and>
    (\<not> h \<longrightarrow> shows_snapshot state' t)"
proof -
  have acc: "snapshot_acceptable b" "snapshot_acceptable t" using valid validate_snapshot_errors by blast+
  note c = snapshot_acceptable_comparable [OF acc]
  obtain state' where s: "delta_on_state d state = (Inr (), state')" "tidy state'"
    "\<forall>i. map_option fst (view state' i) = map_option fe_normalized_path (index_by_id t i)"
    "\<not> h \<longrightarrow> shows_snapshot state' t"
    using delta_followed [OF c d_def free _ st] acceptable_paths [OF acc(2)] by blast
  obtain pairs removed added where "compute_delta h b t = sort_delta (delta_of_pairs b t pairs removed added)"
    using compute_delta_parts [of h b t] by blast
  then have numbers: "dl_base_snapshot_id d = sn_snapshot_id b" "dl_target_snapshot_id d = sn_snapshot_id t"
    by (simp_all add: d_def sort_delta_def delta_of_pairs_def)
  let ?s = "state'\<lparr>hm_last_snapshot_id := sn_snapshot_id t, hm_last_sequence := sequence\<rparr>"
  have "mz_apply_delta order host sequence d sink =
      (Inr (), sink\<lparr>mz_states := (mz_states sink)(host \<mapsto> ?s), mz_last_updated_host_id := host\<rparr>)"
    using host s(1) numbers by (simp add: mz_apply_delta_def delta_host_def)
  then show ?thesis using s(2-4) by (intro exI [of _ ?s]) (simp add: shows_snapshot_def)
qed

text \<open>
  The exception to it: a directory is renamed and another one is created under its old name.  Both
  snapshots pass validation, and the delta is applied without error, but the rename erases the path that the
  addition has just entered: the new directory is in the view and cannot be listed.
\<close>

lemma handed_over_path_is_lost:
  "let b = example_snapshot 5 [example_entry 2 1 ''/d'' ''d'' EntryType_Directory 0];
       t = example_snapshot 6 [example_entry 3 1 ''/d'' ''d'' EntryType_Directory 0,
             example_entry 2 1 ''/e'' ''e'' EntryType_Directory 0];
       sink = snd (mz_apply_snapshot ''h'' 1 b \<lparr>mz_states = Map.empty, mz_last_updated_host_id = []\<rparr>);
       (status, sink') = mz_apply_delta [] ''h'' 2 (compute_delta True b t) sink
   in \<not> has_errors (validate_snapshot 0 b) \<and> \<not> has_errors (validate_snapshot 0 t) \<and> status = Inr () \<and>
      last_snapshot_id sink' ''h'' = Inr 6 \<and>
      map_option (\<lambda>s. view s 3) (mz_states sink' ''h'') = Some (Some (''/d'', fe_metadata (example_entry 3 1 ''/d'' ''d'' EntryType_Directory 0))) \<and>
      list_children [1, 2, 3] sink' ''h'' ''/d'' = Inl (error_code.NotFound, ''Parent path not found in materialized state.'')"
  by code_simp

theorem view_follows_computed_delta_witness:
  "let b = example_snapshot 5 [example_entry 2 1 ''/a'' ''a'' EntryType_File 0];
       t = example_snapshot 6 [example_entry 2 1 ''/b'' ''b'' EntryType_File 0, example_entry 3 1 ''/c'' ''c'' EntryType_File 0];
       state = build_from_snapshot b 1
   in \<exists>state'. mz_apply_delta [] ''h'' 2 (compute_delta False b t) \<lparr>mz_states = [''h'' \<mapsto> state], mz_last_updated_host_id = ''h''\<rparr> =
       (Inr (), \<lparr>mz_states = [''h'' \<mapsto> state'], mz_last_updated_host_id = ''h''\<rparr>) \<and> shows_snapshot state' t"
proof -
  let ?b = "example_snapshot 5 [example_entry 2 1 ''/a'' ''a'' EntryType_File 0]"
  let ?t = "example_snapshot 6 [example_entry 2 1 ''/b'' ''b'' EntryType_File 0, example_entry 3 1 ''/c'' ''c'' EntryType_File 0]"
  have valid: "\<not> has_errors (validate_snapshot 0 ?b)" "\<not> has_errors (validate_snapshot 0 ?t)" by code_simp+
  have free: "hand_over_free ?t (compute_delta False ?b ?t)" by code_simp
  have shown: "shows_snapshot (build_from_snapshot ?b 1) ?b"
    by (rule built_shows_snapshot) (simp_all add: example_snapshot_def example_entry_def)
  have number: "hm_last_snapshot_id (build_from_snapshot ?b 1) = sn_snapshot_id ?b"
    by (simp add: build_from_snapshot_def example_snapshot_def index_entry_def)
  show ?thesis
    using view_follows_computed_delta [OF valid refl free _ _ number shown,
        where host = "''h''" and sink = "\<lparr>mz_states = [''h'' \<mapsto> build_from_snapshot ?b 1], mz_last_updated_host_id = ''h''\<rparr>"
          and order = "[]" and sequence = 2]
    by (auto simp: Let_def)
qed

end
