(* ===== verification/Pipeline.thy ===== *)
theory Pipeline imports SnapshotBuilder DeltaEngine MuninnStore begin

text \<open>
  Muninn's indexing pipeline, \<open>src/backend/Muninn/api/indexing_pipeline.cpp\<close>: scanner, snapshot builder,
  validator, delta engine and store put together.  The readings of the clocks are arguments; \<open>None\<close> is a
  search for an unused identifier that does not end.
\<close>

subsection \<open>Results\<close>

record pipeline_result =
  pr_raw_scan :: raw_scan_result
  pr_snapshot_build :: build_result
  pr_snapshot_validation :: validation_report
  pr_base_snapshot :: "snapshot option"
  pr_computed_delta :: "delta_snapshot option"
  pr_delta_validation :: validation_report
  pr_snapshot_store_status :: "unit store_result"
  pr_delta_store_status :: "unit store_result"
  pr_transport_snapshot_status :: "unit store_result"
  pr_transport_delta_status :: "unit store_result"

text \<open>What the clocks answer: to the validator of the new snapshot and of the base, and to the outbox.\<close>

record clock_readings =
  ck_validate :: int
  ck_base :: int
  ck_snapshot_record :: u64
  ck_delta_record :: u64

definition status_ok :: "'a store_result \<Rightarrow> bool" where
  "status_ok status = (case status of Inl _ \<Rightarrow> False | Inr _ \<Rightarrow> True)"

definition pipeline_ok :: "pipeline_result \<Rightarrow> bool" where
  "pipeline_ok result \<longleftrightarrow>
    status_ok (pr_snapshot_store_status result) \<and> status_ok (pr_delta_store_status result) \<and>
    status_ok (pr_transport_snapshot_status result) \<and> status_ok (pr_transport_delta_status result) \<and>
    \<not> has_errors (pr_snapshot_validation result) \<and>
    (pr_computed_delta result \<noteq> None \<longrightarrow> \<not> has_errors (pr_delta_validation result))"

definition delta_has_changes :: "delta_snapshot \<Rightarrow> bool" where
  "delta_has_changes delta \<longleftrightarrow> dl_added_entries delta \<noteq> [] \<or> dl_removed_entries delta \<noteq> [] \<or>
    dl_modified_entries delta \<noteq> [] \<or> dl_renamed_entries delta \<noteq> []"

definition default_build_options :: build_options where
  "default_build_options = \<lparr>bo_snapshot_id = 0, bo_created_at = 0\<rparr>"

text \<open>The result as both operations begin it: a scan, what was built of it, and the report on that.\<close>

definition begin_result :: "clock_readings \<Rightarrow> raw_scan_result \<Rightarrow> build_result \<Rightarrow> pipeline_result" where
  "begin_result clock raw b = \<lparr>pr_raw_scan = raw, pr_snapshot_build = b,
    pr_snapshot_validation = validate_snapshot (ck_validate clock) (br_snapshot b), pr_base_snapshot = None,
    pr_computed_delta = None, pr_delta_validation = [], pr_snapshot_store_status = Inr (),
    pr_delta_store_status = Inr (), pr_transport_snapshot_status = Inr (), pr_transport_delta_status = Inr ()\<rparr>"

definition when_enqueued :: "bool \<Rightarrow> store_failure \<Rightarrow> unit store_result" where
  "when_enqueued enqueue_transport e = (if enqueue_transport then Inl e else Inr ())"

subsection \<open>Capturing a snapshot\<close>

definition capture_snapshot ::
  "'e lmdb_api \<Rightarrow> file_system \<Rightarrow> clock_readings \<Rightarrow> string \<Rightarrow> scan_options \<Rightarrow> bool \<Rightarrow> 'e lmdb_handle \<Rightarrow>
    (pipeline_result \<times> 'e lmdb_handle) option" where
  "capture_snapshot api fs clock root_path options enqueue_transport s =
    (let raw = scan fs root_path options
     in case build raw default_build_options of
          None \<Rightarrow> None
        | Some b \<Rightarrow>
            (let result = begin_result clock raw b
             in if has_errors (pr_snapshot_validation result)
                then (let failure = store_error store_error_code.ValidationFailure ''Snapshot validation failed before persistence.''
                  in Some (result\<lparr>pr_snapshot_store_status := Inl failure,
                       pr_transport_snapshot_status := when_enqueued enqueue_transport failure\<rparr>, s))
                else (case put_snapshot_with_transport api (ck_validate clock) (ck_snapshot_record clock) (br_snapshot b)
                        enqueue_transport False s of
                    (Inl e, s') \<Rightarrow> Some (result\<lparr>pr_snapshot_store_status := Inl e,
                       pr_transport_snapshot_status := when_enqueued enqueue_transport e\<rparr>, s')
                  | (Inr _, s') \<Rightarrow> Some (result, s'))))"

subsection \<open>Capturing a snapshot and its delta\<close>

text \<open>The part after the base was read.\<close>

definition store_delta ::
  "'e lmdb_api \<Rightarrow> clock_readings \<Rightarrow> bool \<Rightarrow> snapshot \<Rightarrow> pipeline_result \<Rightarrow> 'e lmdb_handle \<Rightarrow>
    pipeline_result \<times> 'e lmdb_handle" where
  "store_delta api clock enqueue_transport base_snapshot result s =
    (let sn = br_snapshot (pr_snapshot_build result);
         delta = compute_delta True base_snapshot sn;
         result = result\<lparr>pr_base_snapshot := Some base_snapshot, pr_computed_delta := Some delta,
           pr_delta_validation := validate_delta delta (Some base_snapshot) (Some sn)\<rparr>
     in if has_errors (pr_delta_validation result)
        then (let failure = store_error store_error_code.ValidationFailure ''Delta validation failed before persistence.''
          in (result\<lparr>pr_delta_store_status := Inl failure,
                pr_transport_delta_status := when_enqueued enqueue_transport failure\<rparr>, s))
        else if \<not> delta_has_changes delta
        then (let empty = \<lparr>dl_schema = kCurrentSchemaHeader, dl_base_snapshot_id = sn_snapshot_id base_snapshot,
                dl_target_snapshot_id = sn_snapshot_id base_snapshot, dl_added_entries = [], dl_removed_entries = [],
                dl_modified_entries = [], dl_renamed_entries = []\<rparr>
          in (result\<lparr>pr_snapshot_build := (pr_snapshot_build result)\<lparr>br_snapshot := base_snapshot\<rparr>,
                pr_computed_delta := Some empty,
                pr_delta_validation := validate_delta empty (Some base_snapshot) (Some base_snapshot)\<rparr>, s))
        else (case put_snapshot_and_delta_with_transport api (ck_validate clock) (ck_snapshot_record clock)
                (ck_delta_record clock) sn delta (Some base_snapshot) enqueue_transport False s of
            (Inl e, s') \<Rightarrow> (result\<lparr>pr_snapshot_store_status := Inl e, pr_delta_store_status := Inl e,
                pr_transport_snapshot_status := when_enqueued enqueue_transport e,
                pr_transport_delta_status := when_enqueued enqueue_transport e\<rparr>, s')
          | (Inr _, s') \<Rightarrow> (result, s')))"

definition capture_snapshot_and_delta ::
  "'e lmdb_api \<Rightarrow> file_system \<Rightarrow> clock_readings \<Rightarrow> string \<Rightarrow> u64 \<Rightarrow> scan_options \<Rightarrow> bool \<Rightarrow> 'e lmdb_handle \<Rightarrow>
    (pipeline_result \<times> 'e lmdb_handle) option" where
  "capture_snapshot_and_delta api fs clock root_path base_snapshot_id options enqueue_transport s =
    (let raw = scan fs root_path options
     in case build raw default_build_options of
          None \<Rightarrow> None
        | Some b \<Rightarrow>
            (let result = begin_result clock raw b
             in if has_errors (pr_snapshot_validation result)
                then (let failure = store_error store_error_code.ValidationFailure ''Snapshot validation failed before persistence.''
                  in Some (result\<lparr>pr_snapshot_store_status := Inl failure, pr_delta_store_status := Inl failure,
                       pr_transport_snapshot_status := when_enqueued enqueue_transport failure,
                       pr_transport_delta_status := when_enqueued enqueue_transport failure\<rparr>, s))
                else (case get_snapshot api (ck_base clock) base_snapshot_id True s of
                    Inl e \<Rightarrow> Some (result\<lparr>pr_delta_store_status := Inl e,
                       pr_transport_delta_status := when_enqueued enqueue_transport e\<rparr>, s)
                  | Inr base_snapshot \<Rightarrow> Some (store_delta api clock enqueue_transport base_snapshot result s))))"

subsection \<open>What is built validates\<close>

lemma built_validates:
  "scan_tree raw \<Longrightarrow> build raw options = Some b \<Longrightarrow> \<not> has_errors (validate_snapshot now (br_snapshot b))"
proof -
  assume a: "scan_tree raw" "build raw options = Some b"
  obtain s where "add_raw_entries (sort_key rw_normalized_path (rs_entries raw))
      \<lparr>bs_entries = [], bs_path_to_index = Map.empty, bs_used_ids = Map.empty, bs_diagnostics = []\<rparr> = Some s"
    using a(2) unfolding build_def by (auto split: option.splits)
  from build_collected [OF a(1) add_raw_entries_collected [OF a(1) this] this, of options] a(2)
  show ?thesis unfolding validate_snapshot_errors by (metis option.inject)
qed

lemma begin_result_select [simp]:
  "pr_snapshot_build (begin_result clock raw b) = b" "pr_raw_scan (begin_result clock raw b) = raw"
  "pr_snapshot_validation (begin_result clock raw b) = validate_snapshot (ck_validate clock) (br_snapshot b)"
  "pr_computed_delta (begin_result clock raw b) = None" "pr_base_snapshot (begin_result clock raw b) = None"
  "pr_snapshot_store_status (begin_result clock raw b) = Inr ()" "pr_delta_store_status (begin_result clock raw b) = Inr ()"
  "pr_transport_snapshot_status (begin_result clock raw b) = Inr ()" "pr_transport_delta_status (begin_result clock raw b) = Inr ()"
  by (simp_all add: begin_result_def)

lemma status_ok_simps [simp]: "\<not> status_ok (Inl e)" "status_ok (Inr a)"
  by (simp_all add: status_ok_def)

lemma get_snapshot_validated:
  "get_snapshot api now i True s = Inr base \<Longrightarrow> \<not> has_errors (validate_snapshot now base)"
  by (auto simp: get_snapshot_def read_snapshot_def sum_bind_eq_Inr validate_snapshot_for_store_def Let_def split: if_splits)

lemma no_changes: "\<not> delta_has_changes d \<longleftrightarrow> delta_empty d"
  by (auto simp: delta_has_changes_def delta_empty_def)

lemma empty_delta_report:
  assumes "sn_snapshot_id b = i" "snapshot_acceptable b"
  shows "\<not> has_errors (validate_delta \<lparr>dl_schema = kCurrentSchemaHeader, dl_base_snapshot_id = i, dl_target_snapshot_id = i,
    dl_added_entries = [], dl_removed_entries = [], dl_modified_entries = [], dl_renamed_entries = []\<rparr> (Some b) (Some b))"
  using assms by (simp add: validate_delta_errors delta_well_formed_def delta_fits_base_def delta_fits_target_def snapshot_acceptable_def)

subsection \<open>Capturing a snapshot\<close>

definition one_stored :: "snapshot \<Rightarrow> u64 \<Rightarrow> bool \<Rightarrow> bytes \<Rightarrow> contents \<Rightarrow> contents \<Rightarrow> bool" where
  "one_stored sn created_at enqueue payload m m' \<longleftrightarrow>
    (enqueue \<longrightarrow> frame_fits (sn_host_identifier sn) payload) \<and>
    (let m1 = put_record kDbSnapshots (encode_u64_be (sn_snapshot_id sn)) payload m
     in m' = (if enqueue then enqueued (serialize_frame Transport_Snapshot (sn_host_identifier sn) payload created_at) m1 else m1))"

lemma one_stored_view:
  assumes "one_stored sn created_at enqueue payload m m'"
  shows "m' kDbSnapshots = (m kDbSnapshots)(encode_u64_be (sn_snapshot_id sn) \<mapsto> payload)" "m' kDbDeltas = m kDbDeltas"
    "acked m' = acked m"
    "if enqueue
     then next_sequence m' = next_sequence m + 1 \<and> outbox m' = (outbox m)
       (next_sequence m \<mapsto> serialize_frame Transport_Snapshot (sn_host_identifier sn) payload created_at)
     else next_sequence m' = next_sequence m \<and> outbox m' = outbox m"
  by (use assms in \<open>auto simp: one_stored_def Let_def put_record_at enqueued_apply split: if_splits\<close>)

lemma put_one_result:
  assumes laws: "lmdb_laws api contents"
    and run: "put_snapshot_with_transport api now created_at sn enqueue validate s = (status, s')"
  shows "case status of
      Inl e \<Rightarrow> store_contents contents s' = store_contents contents s
    | Inr number \<Rightarrow> \<exists>payload. prepare_snapshot now validate sn = Inr payload \<and>
        one_stored sn created_at enqueue payload (store_contents contents s) (store_contents contents s')"
  using put_snapshot_with_transport_effect [OF laws, of s now created_at sn enqueue validate] run
  by (auto simp: store_effect_def one_stored_def Let_def split: sum.splits if_splits)

text \<open>
  Muninn's \<open>capture_snapshot\<close> of a directory tree either stores the snapshot that it built, which
  passes validation, and with the same transaction puts it into the outbox under the next sequence number,
  or it changes nothing and reports the error of the store; the validation never stands in the way.
\<close>

lemma captured_snapshot_is_stored:
  assumes laws: "lmdb_laws api contents" and tree: "scan_tree (scan fs root_path options)"
    and run: "capture_snapshot api fs clock root_path options enqueue s = Some (r, s')"
    and m: "m = store_contents contents s" "m' = store_contents contents s'" and sn: "sn = br_snapshot (pr_snapshot_build r)"
  shows "\<not> has_errors (validate_snapshot now sn) \<and>
    (if pipeline_ok r
     then \<exists>payload. serialize_snapshot_binary sn [] = Inr payload \<and>
       m' kDbSnapshots = (m kDbSnapshots)(encode_u64_be (sn_snapshot_id sn) \<mapsto> payload) \<and> m' kDbDeltas = m kDbDeltas \<and>
       acked m' = acked m \<and>
       (if enqueue
        then frame_fits (sn_host_identifier sn) payload \<and> next_sequence m' = next_sequence m + 1 \<and> outbox m' = (outbox m)
          (next_sequence m \<mapsto> serialize_frame Transport_Snapshot (sn_host_identifier sn) payload (ck_snapshot_record clock))
        else next_sequence m' = next_sequence m \<and> outbox m' = outbox m)
     else m' = m \<and> (\<exists>e. pr_snapshot_store_status r = Inl e \<and>
       fst (put_snapshot_with_transport api (ck_validate clock) (ck_snapshot_record clock) sn enqueue False s) = Inl e))"
proof -
  obtain b where b: "build (scan fs root_path options) default_build_options = Some b"
    using run by (auto simp: capture_snapshot_def Let_def split: option.splits)
  have valid: "\<not> has_errors (validate_snapshot now' (br_snapshot b))" for now'
    by (rule built_validates [OF tree b])
  let ?put = "put_snapshot_with_transport api (ck_validate clock) (ck_snapshot_record clock) (br_snapshot b) enqueue False s"
  obtain status t where put: "?put = (status, t)" by fastforce
  have r: "pr_snapshot_build r = b" "t = s'" "pr_snapshot_store_status r = map_sum id (\<lambda>_. ()) status"
      "pipeline_ok r \<longleftrightarrow> status_ok status"
    using run b valid put by (auto simp: capture_snapshot_def Let_def pipeline_ok_def when_enqueued_def split: sum.splits)
  show ?thesis
  proof (cases status)
    case (Inl e)
    then show ?thesis using valid r put put_one_result [OF laws put] by (simp add: m sn)
  next
    case (Inr number)
    then obtain payload where p: "serialize_snapshot_binary sn [] = Inr payload"
        and stored: "one_stored sn (ck_snapshot_record clock) enqueue payload m m'"
      using put_one_result [OF laws put] r by (auto simp: m sn prepare_snapshot_Inr)
    then show ?thesis using valid r p one_stored_view [OF stored] stored by (simp add: Inr sn one_stored_def)
  qed
qed

subsection \<open>Capturing a snapshot and its delta\<close>

lemma store_delta_outcome:
  assumes laws: "lmdb_laws api contents" and acc: "snapshot_acceptable base" "snapshot_acceptable sn"
    and start: "pr_snapshot_build result = b" "br_snapshot b = sn" "pr_snapshot_store_status result = Inr ()"
      "pr_delta_store_status result = Inr ()" "pr_transport_snapshot_status result = Inr ()"
      "pr_transport_delta_status result = Inr ()" "\<not> has_errors (pr_snapshot_validation result)"
    and run: "store_delta api clock enqueue base result s = (r, s')"
    and m: "m = store_contents contents s" "m' = store_contents contents s'" and d: "d = compute_delta True base sn"
  shows "if same_view base sn then pipeline_ok r \<and> s' = s \<and> br_snapshot (pr_snapshot_build r) = base
    else if pipeline_ok r then pr_snapshot_build r = b \<and> pr_computed_delta r = Some d \<and>
      (\<exists>payload payload' numbers. serialize_snapshot_binary sn [] = Inr payload \<and> serialize_delta_binary d [] = Inr payload' \<and>
        both_stored sn d (ck_snapshot_record clock) (ck_delta_record clock) enqueue payload payload' m numbers m')
    else m' = m \<and> (\<exists>e. pr_delta_store_status r = Inl e \<and>
      fst (put_snapshot_and_delta_with_transport api (ck_validate clock) (ck_snapshot_record clock) (ck_delta_record clock)
        sn d (Some base) enqueue False s) = Inl e)"
proof -
  have valid: "\<not> has_errors (validate_delta d (Some base) (Some sn))"
    unfolding d using compute_delta_valid [OF snapshot_acceptable_comparable [OF acc]] acc
    by (simp add: snapshot_acceptable_def)
  have same: "\<not> delta_has_changes d \<longleftrightarrow> same_view base sn"
    unfolding no_changes d by (rule compute_delta_empty [OF snapshot_acceptable_comparable [OF acc]])
  show ?thesis
  proof (cases "same_view base sn")
    case True
    then show ?thesis
      using run valid same start empty_delta_report [OF refl acc(1)]
      by (auto simp: store_delta_def Let_def d pipeline_ok_def)
  next
    case False
    let ?put = "put_snapshot_and_delta_with_transport api (ck_validate clock) (ck_snapshot_record clock) (ck_delta_record clock)
        sn d (Some base) enqueue False s"
    obtain status t where put: "?put = (status, t)" by fastforce
    have r: "t = s'" "pr_snapshot_build r = b" "pr_computed_delta r = Some d"
        "pr_delta_store_status r = map_sum id (\<lambda>_. ()) status" "pipeline_ok r \<longleftrightarrow> status_ok status"
      using run valid same False start put
      by (auto simp: store_delta_def Let_def d pipeline_ok_def when_enqueued_def split: sum.splits)
    show ?thesis
      using False r put put_both_result [OF laws put]
      by (cases status) (auto simp: m prepare_snapshot_Inr prepare_delta_Inr)
  qed
qed

lemma bool_status: "fst p = Inl e \<Longrightarrow> \<not> status_ok (fst p)"
  by simp

lemma update_outcome:
  assumes laws: "lmdb_laws api contents" and tree: "scan_tree (scan fs root_path options)"
    and run: "capture_snapshot_and_delta api fs clock root_path base_id options enqueue s = Some (r, s')"
    and m: "m = store_contents contents s" "m' = store_contents contents s'"
  shows "\<exists>b. build (scan fs root_path options) default_build_options = Some b \<and>
    (let sn = br_snapshot b
     in case get_snapshot api (ck_base clock) base_id True s of
          Inl e \<Rightarrow> m' = m \<and> pr_delta_store_status r = Inl e
        | Inr base \<Rightarrow>
            (let d = compute_delta True base sn
             in if same_view base sn then pipeline_ok r \<and> s' = s \<and> br_snapshot (pr_snapshot_build r) = base
                else if pipeline_ok r
                then pr_snapshot_build r = b \<and> pr_computed_delta r = Some d \<and>
                  (\<exists>payload payload' numbers. serialize_snapshot_binary sn [] = Inr payload \<and> serialize_delta_binary d [] = Inr payload' \<and>
                    both_stored sn d (ck_snapshot_record clock) (ck_delta_record clock) enqueue payload payload' m numbers m')
                else m' = m \<and> (\<exists>e. pr_delta_store_status r = Inl e \<and>
                  fst (put_snapshot_and_delta_with_transport api (ck_validate clock) (ck_snapshot_record clock)
                    (ck_delta_record clock) sn d (Some base) enqueue False s) = Inl e)))"
proof -
  obtain b where b: "build (scan fs root_path options) default_build_options = Some b"
    using run by (auto simp: capture_snapshot_and_delta_def Let_def split: option.splits)
  have valid: "\<not> has_errors (validate_snapshot now' (br_snapshot b))" for now'
    by (rule built_validates [OF tree b])
  let ?result = "begin_result clock (scan fs root_path options) b"
  show ?thesis
  proof (cases "get_snapshot api (ck_base clock) base_id True s")
    case (Inl e)
    then show ?thesis using run b valid by (auto simp: capture_snapshot_and_delta_def Let_def m)
  next
    case (Inr base)
    have acc: "snapshot_acceptable base" "snapshot_acceptable (br_snapshot b)"
      using get_snapshot_validated [OF Inr] valid validate_snapshot_errors by blast+
    have "store_delta api clock enqueue base ?result s = (r, s')"
      using run b valid Inr by (simp add: capture_snapshot_and_delta_def Let_def)
    from store_delta_outcome [OF laws acc _ _ _ _ _ _ _ this m refl]
    show ?thesis using Inr b valid by (simp add: Let_def)
  qed
qed

text \<open>
  C6: Muninn's \<open>capture_snapshot_and_delta\<close> of a directory tree ends in one of four ways.  The base cannot be
  read: nothing is changed.  The tree looks as in the base: nothing is changed either, and the result is the
  base.  The store refuses: nothing is changed.  Or the new snapshot and the delta that the delta engine
  computes are both in the store and, with the next two sequence numbers, in the outbox, all in one
  transaction.  No run fails because the snapshot or the delta that Muninn computed does not validate.
\<close>

theorem update_stores_both_or_nothing:
  assumes laws: "lmdb_laws api contents" and tree: "scan_tree (scan fs root_path options)"
    and run: "capture_snapshot_and_delta api fs clock root_path base_id options enqueue s = Some (r, s')"
    and m: "m = store_contents contents s" "m' = store_contents contents s'"
  shows "\<exists>b. build (scan fs root_path options) default_build_options = Some b \<and>
    (let sn = br_snapshot b
     in case get_snapshot api (ck_base clock) base_id True s of
          Inl e \<Rightarrow> m' = m \<and> pr_delta_store_status r = Inl e
        | Inr base \<Rightarrow>
            (let d = compute_delta True base sn
             in if same_view base sn then pipeline_ok r \<and> s' = s \<and> br_snapshot (pr_snapshot_build r) = base
                else if pipeline_ok r
                then pr_snapshot_build r = b \<and> pr_computed_delta r = Some d \<and>
                  (\<exists>payload payload' numbers. serialize_snapshot_binary sn [] = Inr payload \<and> serialize_delta_binary d [] = Inr payload' \<and>
                    both_stored sn d (ck_snapshot_record clock) (ck_delta_record clock) enqueue payload payload' m numbers m')
                else m' = m \<and> (\<exists>e. pr_delta_store_status r = Inl e \<and>
                  fst (put_snapshot_and_delta_with_transport api (ck_validate clock) (ck_snapshot_record clock)
                    (ck_delta_record clock) sn d (Some base) enqueue False s) = Inl e)))"
  by (rule update_outcome [OF assms])

text \<open>Both operations return when the builder does.\<close>

lemma captures_return:
  assumes "build (scan fs root_path options) default_build_options = Some b"
  shows "\<exists>r s'. capture_snapshot api fs clock root_path options enqueue s = Some (r, s')"
    "\<exists>r s'. capture_snapshot_and_delta api fs clock root_path base_id options enqueue s = Some (r, s')"
  using assms by (simp_all add: capture_snapshot_def capture_snapshot_and_delta_def Let_def split: sum.split prod.split)

subsection \<open>Examples\<close>

definition sample_tree :: file_system where
  "sample_tree = (example_fs [''/r''] [] [Visit ''/r/f'' []])\<lparr>fs_lstat := (\<lambda>p. Some \<lparr>st_ino = of_nat (length p), st_dev = 1,
    st_ctime = 0, st_mtime = 0, st_atime = 0, st_mode = 0\<rparr>)\<rparr>"

definition sample_clock :: clock_readings where
  "sample_clock = \<lparr>ck_validate = 0, ck_base = 0, ck_snapshot_record = 5, ck_delta_record = 6\<rparr>"

lemma sample_scan_tree: "scan_tree (scan sample_tree ''/r'' (example_options []))"
  by code_simp

lemma sample_builds: "\<exists>b. build (scan sample_tree ''/r'' (example_options [])) default_build_options = Some b"
proof -
  have "distinct (map first_candidate (rs_entries (scan sample_tree ''/r'' (example_options []))))" by code_simp
  from build_without_collisions [OF sample_scan_tree this, of default_build_options] show ?thesis by blast
qed

theorem update_stores_both_or_nothing_witness:
  "\<exists>r s'. capture_snapshot_and_delta (faultless_lmdb (\<lambda>_. [])) sample_tree sample_clock ''/r'' 99 (example_options []) True sample_store = Some (r, s') \<and>
    (\<exists>e. get_snapshot (faultless_lmdb (\<lambda>_. [])) 0 99 True sample_store = Inl e \<and>
      store_contents list_contents s' = list_contents sample_db \<and> pr_delta_store_status r = Inl e)"
proof -
  let ?api = "faultless_lmdb (\<lambda>_. [])"
  obtain e where e: "get_snapshot ?api 0 99 True sample_store = Inl e"
    by (simp add: get_snapshot_def store_begin_txn_def is_open_def sample_store_def faultless_lmdb_def store_get_blob_def sample_db_def)
  obtain r s' where run: "capture_snapshot_and_delta ?api sample_tree sample_clock ''/r'' 99 (example_options []) True sample_store = Some (r, s')"
    using sample_builds captures_return(2) by meson
  show ?thesis
    using update_stores_both_or_nothing [OF faultless_lmdb_laws sample_scan_tree run refl refl] run e
    by (auto simp: sample_clock_def Let_def)
qed

end
