(* ===== verification/Base64.thy ===== *)
theory Base64 imports Prelude begin

text \<open>
  Base64 as both programs use it for the payloads of transport records and for uploads:
  \<open>base64_encode\<close> and \<open>base64_decode\<close> of \<open>src/backend/shared/crud_protocol.hpp\<close>.  The loops over an index
  that advances by a group are recursion over what is left of the input.
\<close>

subsection \<open>Encoding\<close>

definition base64_alphabet :: string where
  "base64_alphabet = ''ABCDEFGHIJKLMNOPQRSTUVWXYZabcdefghijklmnopqrstuvwxyz0123456789+/''"

text \<open>\<open>alphabet[(chunk >> n) & 0x3F]\<close>.\<close>

definition sextet :: "nat \<Rightarrow> u32 \<Rightarrow> u32" where
  "sextet n chunk = drop_bit n chunk AND 0x3F"

definition alphabet_at :: "u32 \<Rightarrow> char" where
  "alphabet_at v = base64_alphabet ! unat v"

fun base64_encode :: "bytes \<Rightarrow> string" where
  "base64_encode (b0 # b1 # b2 # rest) =
    (let chunk = push_bit 16 (ucast b0) OR push_bit 8 (ucast b1) OR ucast b2
     in [alphabet_at (sextet 18 chunk), alphabet_at (sextet 12 chunk),
         alphabet_at (sextet 6 chunk), alphabet_at (sextet 0 chunk)] @ base64_encode rest)"
| "base64_encode [b0, b1] =
    (let chunk = push_bit 16 (ucast b0) OR push_bit 8 (ucast b1)
     in [alphabet_at (sextet 18 chunk), alphabet_at (sextet 12 chunk), alphabet_at (sextet 6 chunk), CHR ''=''])"
| "base64_encode [b0] =
    (let chunk = push_bit 16 (ucast b0)
     in [alphabet_at (sextet 18 chunk), alphabet_at (sextet 12 chunk), CHR ''='', CHR ''=''])"
| "base64_encode [] = []"

subsection \<open>Decoding\<close>

text \<open>The array \<open>table\<close>, filled with -1 and then with the position of each character of the alphabet.\<close>

definition base64_table :: "byte \<Rightarrow> int" where
  "base64_table = fold (\<lambda>(i, c) table. table(of_char c := int i)) (enumerate 0 base64_alphabet) (\<lambda>_. -1)"

definition table_word :: "char \<Rightarrow> u32" where
  "table_word c = (if c = CHR ''='' then 0 else word_of_int (base64_table (of_char c)))"

fun decode_groups :: "string \<Rightarrow> bytes option" where
  "decode_groups (c0 # c1 # c2 # c3 # rest) =
    (if base64_table (of_char c0) < 0 \<or> base64_table (of_char c1) < 0 then None
     else if c2 \<noteq> CHR ''='' \<and> base64_table (of_char c2) < 0 \<or> c3 \<noteq> CHR ''='' \<and> base64_table (of_char c3) < 0 then None
     else
       let chunk = push_bit 18 (word_of_int (base64_table (of_char c0))) OR
                   push_bit 12 (word_of_int (base64_table (of_char c1))) OR
                   push_bit 6 (table_word c2) OR table_word c3 :: u32;
           out = [byte_at 16 chunk] @ (if c2 \<noteq> CHR ''='' then [byte_at 8 chunk] else []) @
                 (if c3 \<noteq> CHR ''='' then [byte_at 0 chunk] else [])
       in map_option (\<lambda>bs. out @ bs) (decode_groups rest))"
| "decode_groups _ = Some []"

definition base64_decode :: "string \<Rightarrow> bytes option" where
  "base64_decode encoded = (if length encoded mod 4 \<noteq> 0 then None else decode_groups encoded)"

subsection \<open>Characters of the alphabet\<close>

lemma of_char_inject [simp]: "(of_char c :: byte) = of_char d \<longleftrightarrow> c = d"
  by (metis char_of_unat_of_char)

lemma fold_table_other:
  "c \<notin> set xs \<Longrightarrow> fold (\<lambda>(i, c) table. table(of_char c := int i)) (enumerate n xs) t (of_char c :: byte) = t (of_char c)"
  by (induction xs arbitrary: n t) auto

lemma fold_table:
  "distinct xs \<Longrightarrow> i < length xs \<Longrightarrow>
    fold (\<lambda>(i, c) table. table(of_char c := int i)) (enumerate n xs) t (of_char (xs ! i) :: byte) = int (n + i)"
proof (induction xs arbitrary: n t i)
  case (Cons a xs)
  then show ?case
    by (cases i) (auto simp: fold_table_other simp del: fun_upd_apply, simp add: fun_upd_def)
qed simp

lemma alphabet_facts: "distinct base64_alphabet" "length base64_alphabet = 64" "CHR ''='' \<notin> set base64_alphabet"
  by (simp_all add: base64_alphabet_def)

lemma table_of_alphabet: "i < 64 \<Longrightarrow> base64_table (of_char (base64_alphabet ! i)) = int i"
  using fold_table [OF alphabet_facts(1), of i 0 "\<lambda>_. -1"] by (simp add: base64_table_def alphabet_facts)

lemma table_range: "base64_table b < 64"
proof -
  have "length xs + n \<le> 64 \<Longrightarrow> (\<forall>b. t b < 64) \<Longrightarrow>
      fold (\<lambda>(i, c) table. table(of_char c := int i)) (enumerate n xs) t b < 64" for xs n and t :: "byte \<Rightarrow> int"
    by (induction xs arbitrary: n t) auto
  from this [of base64_alphabet 0 "\<lambda>_. -1"] show ?thesis by (simp add: base64_table_def alphabet_facts)
qed

lemma sextet_take_bit: "sextet n chunk = take_bit 6 (drop_bit n chunk)"
  by (simp add: sextet_def take_bit_eq_mask mask_eq_exp_minus_1)

lemma sextet_less: "unat (sextet n chunk) < 64"
  using take_bit_nat_less_exp [of 6 "unat (drop_bit n chunk)"] by (simp add: sextet_take_bit unsigned_take_bit_eq)

lemma table_alphabet_at [simp]:
  "base64_table (of_char (alphabet_at (sextet n chunk))) = uint (sextet n chunk)"
  "alphabet_at (sextet n chunk) \<noteq> CHR ''=''"
  using table_of_alphabet [OF sextet_less [of n chunk]] nth_mem [of "unat (sextet n chunk)" base64_alphabet, unfolded alphabet_facts]
    sextet_less [of n chunk] alphabet_facts by (auto simp: alphabet_at_def simp del: nth_mem)

lemma bit_sextet: "bit (sextet n chunk) m \<longleftrightarrow> m < 6 \<and> bit chunk (n + m)"
  by (auto simp: sextet_take_bit bit_simps)

subsection \<open>Round trip\<close>

text \<open>The chunk of a group is put together again from its sextets, and its bytes are the input.\<close>

lemma bit_push_sextet: "bit (push_bit k (sextet k chunk)) n \<longleftrightarrow> k \<le> n \<and> n < k + 6 \<and> bit chunk n"
  using bit_imp_le_length [of chunk n] by (auto simp: bit_simps bit_sextet)

lemma join_sextets:
  assumes top: "drop_bit 24 chunk = 0"
  shows "push_bit 18 (sextet 18 chunk) OR push_bit 12 (sextet 12 chunk) OR push_bit 6 (sextet 6 chunk) OR sextet 0 chunk = chunk"
proof (rule bit_word_eqI)
  fix n assume "n < LENGTH(32)"
  have "\<not> bit chunk n" if "24 \<le> n"
  proof -
    have "bit (drop_bit 24 chunk) (n - 24) \<longleftrightarrow> bit chunk n" using that by (simp add: bit_drop_bit_eq)
    then show ?thesis by (simp add: top)
  qed
  moreover have "n < 6 \<or> 6 \<le> n \<and> n < 12 \<or> 12 \<le> n \<and> n < 18 \<or> 18 \<le> n \<and> n < 24 \<or> 24 \<le> n" by linarith
  ultimately show "bit (push_bit 18 (sextet 18 chunk) OR push_bit 12 (sextet 12 chunk) OR push_bit 6 (sextet 6 chunk) OR sextet 0 chunk) n = bit chunk n"
    using bit_push_sextet [of 0 chunk n] by (auto simp: bit_or_iff bit_push_sextet)
qed

lemma chunk_top:
  "drop_bit 24 (push_bit 16 (ucast (b0 :: byte)) OR push_bit 8 (ucast (b1 :: byte)) OR ucast (b2 :: byte) :: u32) = 0"
  by (rule bit_word_eqI) (auto simp: bit_simps dest: bit_imp_le_length)

lemma sextet_of_short_chunk:
  "sextet 0 (push_bit 16 (ucast (b0 :: byte)) OR push_bit 8 (ucast (b1 :: byte))) = 0"
  "sextet 6 (push_bit 16 (ucast (b0 :: byte))) = 0" "sextet 0 (push_bit 16 (ucast (b0 :: byte))) = 0"
  by (rule bit_word_eqI; auto simp: bit_simps bit_sextet dest: bit_imp_le_length)+

lemma join_short_chunk:
  "push_bit 18 (sextet 18 (push_bit 16 (ucast b0))) OR push_bit 12 (sextet 12 (push_bit 16 (ucast b0))) = (push_bit 16 (ucast b0) :: u32)"
  "push_bit 18 (sextet 18 (push_bit 16 (ucast b0) OR push_bit 8 (ucast b1))) OR
    push_bit 12 (sextet 12 (push_bit 16 (ucast b0) OR push_bit 8 (ucast b1))) OR
    push_bit 6 (sextet 6 (push_bit 16 (ucast b0) OR push_bit 8 (ucast b1))) = (push_bit 16 (ucast b0) OR push_bit 8 (ucast b1) :: u32)"
  for b0 b1 :: byte
  using join_sextets [OF chunk_top [of b0 0 0]] join_sextets [OF chunk_top [of b0 b1 0]]
  by (simp_all add: sextet_of_short_chunk)

lemma table_word_alphabet [simp]: "table_word (alphabet_at (sextet n chunk)) = sextet n chunk" "table_word CHR ''='' = 0"
  by (simp_all add: table_word_def)

lemma decode_groups_encode: "decode_groups (base64_encode raw) = Some raw"
proof (induction raw rule: base64_encode.induct)
  case (1 b0 b1 b2 rest)
  then show ?case
    by (simp add: Let_def join_sextets [OF chunk_top] del: byte_at_zero_or) simp
next
  case (2 b0 b1)
  then show ?case by (simp add: Let_def join_short_chunk del: byte_at_zero_or) simp
next
  case (3 b0)
  then show ?case by (simp add: Let_def join_short_chunk)
qed simp

lemma length_base64_encode: "length (base64_encode raw) = (length raw + 2) div 3 * 4"
proof (induction raw rule: base64_encode.induct)
  case (1 b0 b1 b2 rest)
  have "(length rest + 2 + 3) div 3 = Suc ((length rest + 2) div 3)" by simp
  then show ?case using 1 by (simp add: Let_def)
qed (simp_all add: Let_def)

text \<open>What \<open>base64_encode\<close> writes \<open>base64_decode\<close> reads back, for every sequence of bytes.\<close>

lemma base64_decode_encode: "base64_decode (base64_encode raw) = Some raw"
  by (simp add: base64_decode_def length_base64_encode decode_groups_encode)

lemma base64_encode_Nil_iff: "base64_encode raw = [] \<longleftrightarrow> raw = []"
  by (metis base64_decode_encode base64_encode.simps(4) option.inject)

end
