(* ===== verification/CrudProtocol.thy ===== *)
theory CrudProtocol imports Base64 "HOL-Library.Monad_Syntax" "HOL-Library.Countable" begin

text \<open>
  The protocol between Hugin and Muninn's WebSocket server, \<open>src/backend/shared/crud_protocol.hpp\<close>: the
  messages, how they become JSON, and the functions that read them from JSON.

  The JSON library is not part of the repository.  It is a parameter, the record \<open>json_api\<close> over an
  unknown type of JSON values, with what the sources call of it; \<open>json_laws\<close> states what its documentation
  says of these calls on the values that the sources build.  \<open>None\<close> is an exception that a call throws
  (\<open>value\<close> on a member of another type, \<open>dump\<close> of a string that is not UTF-8).
\<close>

subsection \<open>The JSON library\<close>

record 'j json_api =
  js_is_object :: "'j \<Rightarrow> bool"
  js_is_array :: "'j \<Rightarrow> bool"
  js_at :: "'j \<Rightarrow> string \<Rightarrow> 'j option"
  js_items :: "'j \<Rightarrow> 'j list"
  js_value_string :: "'j \<Rightarrow> string \<Rightarrow> string \<Rightarrow> string option"
  js_value_bool :: "'j \<Rightarrow> string \<Rightarrow> bool \<Rightarrow> bool option"
  js_value_u64 :: "'j \<Rightarrow> string \<Rightarrow> u64 \<Rightarrow> u64 option"
  js_value_u32 :: "'j \<Rightarrow> string \<Rightarrow> u32 \<Rightarrow> u32 option"
  js_value_u8 :: "'j \<Rightarrow> string \<Rightarrow> byte \<Rightarrow> byte option"
  js_object :: "(string \<times> 'j) list \<Rightarrow> 'j"
  js_array :: "'j list \<Rightarrow> 'j"
  js_string :: "string \<Rightarrow> 'j"
  js_bool :: "bool \<Rightarrow> 'j"
  js_number :: "u64 \<Rightarrow> 'j"
  js_integer :: "i64 \<Rightarrow> 'j"
  js_dump :: "'j \<Rightarrow> string option"
  js_parse :: "string \<Rightarrow> 'j option"

text \<open>
  \<open>contains(key)\<close> asks whether \<open>js_at\<close> has a value.  An object is built from members with different names;
  \<open>value\<close> converts a number to the width of the default by a cast.
\<close>

definition json_laws :: "'j json_api \<Rightarrow> bool" where
  "json_laws js \<longleftrightarrow>
    (\<forall>ms. js_is_object js (js_object js ms)) \<and>
    (\<forall>xs. js_is_array js (js_array js xs) \<and> js_items js (js_array js xs) = xs) \<and>
    (\<forall>ms k. distinct (map fst ms) \<longrightarrow> js_at js (js_object js ms) k = map_of ms k) \<and>
    (\<forall>ms k d s. distinct (map fst ms) \<longrightarrow> map_of ms k = Some (js_string js s) \<longrightarrow> js_value_string js (js_object js ms) k d = Some s) \<and>
    (\<forall>ms k d b. distinct (map fst ms) \<longrightarrow> map_of ms k = Some (js_bool js b) \<longrightarrow> js_value_bool js (js_object js ms) k d = Some b) \<and>
    (\<forall>ms k d n. distinct (map fst ms) \<longrightarrow> map_of ms k = Some (js_number js n) \<longrightarrow> js_value_u64 js (js_object js ms) k d = Some n) \<and>
    (\<forall>ms k d n. distinct (map fst ms) \<longrightarrow> map_of ms k = Some (js_number js n) \<longrightarrow> js_value_u32 js (js_object js ms) k d = Some (ucast n)) \<and>
    (\<forall>ms k d n. distinct (map fst ms) \<longrightarrow> map_of ms k = Some (js_number js n) \<longrightarrow> js_value_u8 js (js_object js ms) k d = Some (ucast n)) \<and>
    (\<forall>ms k d. distinct (map fst ms) \<longrightarrow> map_of ms k = None \<longrightarrow> js_value_string js (js_object js ms) k d = Some d) \<and>
    (\<forall>ms k d n. distinct (map fst ms) \<longrightarrow> map_of ms k = Some (js_number js n) \<longrightarrow> js_value_string js (js_object js ms) k d = None) \<and>
    (\<forall>ms text. js_dump js (js_object js ms) = Some text \<longrightarrow> js_parse js text = Some (js_object js ms))"

text \<open>
  What the sources ask a JSON value with \<open>is_string\<close>, \<open>is_boolean\<close>, \<open>is_number_unsigned\<close>, \<open>is_number_integer\<close> and
  \<open>get\<close>: the value when it is one of that type; an unsigned number is an integer too.  \<open>jv_keys\<close> are the names of
  the members of an object.
\<close>

record 'j json_values =
  jv_string :: "'j \<Rightarrow> string option"
  jv_bool :: "'j \<Rightarrow> bool option"
  jv_unsigned :: "'j \<Rightarrow> u64 option"
  jv_integer :: "'j \<Rightarrow> i64 option"
  jv_keys :: "'j \<Rightarrow> string list"

definition value_laws :: "'j json_api \<Rightarrow> 'j json_values \<Rightarrow> bool" where
  "value_laws js jv \<longleftrightarrow>
    (\<forall>s. jv_string jv (js_string js s) = Some s) \<and>
    (\<forall>n. jv_unsigned jv (js_number js n) = Some n) \<and>
    (\<forall>i. jv_integer jv (js_integer js i) = Some i)"

subsection \<open>Messages\<close>

definition crud_kProtocolVersion :: u32 where "crud_kProtocolVersion = 1"

datatype operation = Create | Read | Update | Delete

record hello_message =
  hm_type :: string
  hm_protocol_version :: u32
  hm_host_id :: string
  hm_client_instance_id :: string
  hm_auth_token :: string

record hello_ack_message =
  ha_type :: string
  ha_protocol_version :: u32
  ha_accepted :: bool
  ha_reason :: string

record crud_command =
  cc_type :: string
  cc_protocol_version :: u32
  cc_request_id :: string
  cc_operation :: operation
  cc_root_path :: string
  cc_snapshot_id :: u64
  cc_base_snapshot_id :: u64
  cc_ack_sequence :: u64
  cc_outbox_batch_size :: u32

record transport_record_message =
  tm_sequence :: u64
  tm_record_type :: byte
  tm_created_at :: u64
  tm_routing_key :: string
  tm_payload_b64 :: string

record crud_result =
  cr_type :: string
  cr_protocol_version :: u32
  cr_request_id :: string
  cr_ok :: bool
  cr_message :: string
  cr_snapshot_id :: u64
  cr_base_snapshot_id :: u64
  cr_target_snapshot_id :: u64
  cr_records :: "transport_record_message list"

record ingest_ack_message =
  ia_type :: string
  ia_protocol_version :: u32
  ia_request_id :: string
  ia_ok :: bool
  ia_ack_sequence :: u64
  ia_message :: string

text \<open>A message as its structure's default member initialisers leave it.\<close>

definition default_hello :: hello_message where
  "default_hello = \<lparr>hm_type = ''hello'', hm_protocol_version = crud_kProtocolVersion, hm_host_id = [],
    hm_client_instance_id = [], hm_auth_token = []\<rparr>"

definition default_hello_ack :: hello_ack_message where
  "default_hello_ack = \<lparr>ha_type = ''hello_ack'', ha_protocol_version = crud_kProtocolVersion, ha_accepted = False, ha_reason = []\<rparr>"

definition default_command :: crud_command where
  "default_command = \<lparr>cc_type = ''crud_command'', cc_protocol_version = crud_kProtocolVersion, cc_request_id = [],
    cc_operation = Read, cc_root_path = [], cc_snapshot_id = 0, cc_base_snapshot_id = 0, cc_ack_sequence = 0,
    cc_outbox_batch_size = 64\<rparr>"

definition default_record :: transport_record_message where
  "default_record = \<lparr>tm_sequence = 0, tm_record_type = 0, tm_created_at = 0, tm_routing_key = [], tm_payload_b64 = []\<rparr>"

definition default_result :: crud_result where
  "default_result = \<lparr>cr_type = ''crud_result'', cr_protocol_version = crud_kProtocolVersion, cr_request_id = [],
    cr_ok = False, cr_message = [], cr_snapshot_id = 0, cr_base_snapshot_id = 0, cr_target_snapshot_id = 0, cr_records = []\<rparr>"

definition default_ingest_ack :: ingest_ack_message where
  "default_ingest_ack = \<lparr>ia_type = ''ingest_ack'', ia_protocol_version = crud_kProtocolVersion, ia_request_id = [],
    ia_ok = True, ia_ack_sequence = 0, ia_message = []\<rparr>"

definition operation_from_string :: "string \<Rightarrow> operation option" where
  "operation_from_string s =
    (if s = ''create'' then Some Create else if s = ''read'' then Some Read
     else if s = ''update'' then Some Update else if s = ''delete'' then Some Delete else None)"

fun operation_to_string :: "operation \<Rightarrow> string" where
  "operation_to_string Create = ''create''"
| "operation_to_string Read = ''read''"
| "operation_to_string Update = ''update''"
| "operation_to_string Delete = ''delete''"

subsection \<open>To JSON\<close>

definition hello_to_json :: "'j json_api \<Rightarrow> hello_message \<Rightarrow> 'j" where
  "hello_to_json js msg = js_object js
    [(''type'', js_string js (hm_type msg)),
     (''protocol_version'', js_number js (ucast (hm_protocol_version msg))),
     (''host_id'', js_string js (hm_host_id msg)),
     (''client_instance_id'', js_string js (hm_client_instance_id msg)),
     (''auth_token'', js_string js (hm_auth_token msg))]"

definition hello_ack_to_json :: "'j json_api \<Rightarrow> hello_ack_message \<Rightarrow> 'j" where
  "hello_ack_to_json js msg = js_object js
    [(''type'', js_string js (ha_type msg)),
     (''protocol_version'', js_number js (ucast (ha_protocol_version msg))),
     (''accepted'', js_bool js (ha_accepted msg)),
     (''reason'', js_string js (ha_reason msg))]"

definition crud_command_to_json :: "'j json_api \<Rightarrow> crud_command \<Rightarrow> 'j" where
  "crud_command_to_json js msg = js_object js
    [(''type'', js_string js (cc_type msg)),
     (''protocol_version'', js_number js (ucast (cc_protocol_version msg))),
     (''request_id'', js_string js (cc_request_id msg)),
     (''operation'', js_string js (operation_to_string (cc_operation msg))),
     (''root_path'', js_string js (cc_root_path msg)),
     (''snapshot_id'', js_number js (cc_snapshot_id msg)),
     (''base_snapshot_id'', js_number js (cc_base_snapshot_id msg)),
     (''ack_sequence'', js_number js (cc_ack_sequence msg)),
     (''outbox_batch_size'', js_number js (ucast (cc_outbox_batch_size msg)))]"

definition transport_record_to_json :: "'j json_api \<Rightarrow> transport_record_message \<Rightarrow> 'j" where
  "transport_record_to_json js msg = js_object js
    [(''sequence'', js_number js (tm_sequence msg)),
     (''record_type'', js_number js (ucast (tm_record_type msg))),
     (''created_at'', js_number js (tm_created_at msg)),
     (''routing_key'', js_string js (tm_routing_key msg)),
     (''payload_b64'', js_string js (tm_payload_b64 msg))]"

definition crud_result_to_json :: "'j json_api \<Rightarrow> crud_result \<Rightarrow> 'j" where
  "crud_result_to_json js msg = js_object js
    [(''type'', js_string js (cr_type msg)),
     (''protocol_version'', js_number js (ucast (cr_protocol_version msg))),
     (''request_id'', js_string js (cr_request_id msg)),
     (''ok'', js_bool js (cr_ok msg)),
     (''message'', js_string js (cr_message msg)),
     (''snapshot_id'', js_number js (cr_snapshot_id msg)),
     (''base_snapshot_id'', js_number js (cr_base_snapshot_id msg)),
     (''target_snapshot_id'', js_number js (cr_target_snapshot_id msg)),
     (''records'', js_array js (map (transport_record_to_json js) (cr_records msg)))]"

definition ingest_ack_to_json :: "'j json_api \<Rightarrow> ingest_ack_message \<Rightarrow> 'j" where
  "ingest_ack_to_json js msg = js_object js
    [(''type'', js_string js (ia_type msg)),
     (''protocol_version'', js_number js (ucast (ia_protocol_version msg))),
     (''request_id'', js_string js (ia_request_id msg)),
     (''ok'', js_bool js (ia_ok msg)),
     (''ack_sequence'', js_number js (ia_ack_sequence msg)),
     (''message'', js_string js (ia_message msg))]"

subsection \<open>From JSON\<close>

text \<open>
  The outer \<^const>\<open>None\<close> is an exception out of the library, the inner one is \<open>std::nullopt\<close>.
  \<open>with_type\<close> is the condition with which every reader starts.
\<close>

definition with_type :: "'j json_api \<Rightarrow> string \<Rightarrow> 'j \<Rightarrow> 'a option option \<Rightarrow> 'a option option" where
  "with_type js ty json body =
    (if \<not> js_is_object js json then Some None
     else do { t \<leftarrow> js_value_string js json ''type'' []; if t \<noteq> ty then Some None else body })"

definition parse_hello :: "'j json_api \<Rightarrow> 'j \<Rightarrow> hello_message option option" where
  "parse_hello js json = with_type js ''hello'' json (do {
    version \<leftarrow> js_value_u32 js json ''protocol_version'' 0;
    host_id \<leftarrow> js_value_string js json ''host_id'' [];
    client_instance_id \<leftarrow> js_value_string js json ''client_instance_id'' [];
    auth_token \<leftarrow> js_value_string js json ''auth_token'' [];
    if version \<noteq> crud_kProtocolVersion \<or> host_id = [] then Some None
    else Some (Some (default_hello\<lparr>hm_protocol_version := version, hm_host_id := host_id,
      hm_client_instance_id := client_instance_id, hm_auth_token := auth_token\<rparr>)) })"

definition parse_hello_ack :: "'j json_api \<Rightarrow> 'j \<Rightarrow> hello_ack_message option option" where
  "parse_hello_ack js json = with_type js ''hello_ack'' json (do {
    version \<leftarrow> js_value_u32 js json ''protocol_version'' 0;
    accepted \<leftarrow> js_value_bool js json ''accepted'' False;
    reason \<leftarrow> js_value_string js json ''reason'' [];
    if version \<noteq> crud_kProtocolVersion then Some None
    else Some (Some (default_hello_ack\<lparr>ha_protocol_version := version, ha_accepted := accepted, ha_reason := reason\<rparr>)) })"

definition parse_crud_command :: "'j json_api \<Rightarrow> 'j \<Rightarrow> crud_command option option" where
  "parse_crud_command js json = with_type js ''crud_command'' json (do {
    version \<leftarrow> js_value_u32 js json ''protocol_version'' 0;
    request_id \<leftarrow> js_value_string js json ''request_id'' [];
    operation \<leftarrow> js_value_string js json ''operation'' [];
    (case operation_from_string operation of
      None \<Rightarrow> Some None
    | Some op \<Rightarrow> do {
        root_path \<leftarrow> js_value_string js json ''root_path'' [];
        snapshot_id \<leftarrow> js_value_u64 js json ''snapshot_id'' 0;
        base_snapshot_id \<leftarrow> js_value_u64 js json ''base_snapshot_id'' 0;
        ack_sequence \<leftarrow> js_value_u64 js json ''ack_sequence'' 0;
        outbox_batch_size \<leftarrow> js_value_u32 js json ''outbox_batch_size'' 64;
        if version \<noteq> crud_kProtocolVersion \<or> request_id = [] then Some None
        else Some (Some (default_command\<lparr>cc_protocol_version := version, cc_request_id := request_id,
          cc_operation := op, cc_root_path := root_path, cc_snapshot_id := snapshot_id,
          cc_base_snapshot_id := base_snapshot_id, cc_ack_sequence := ack_sequence,
          cc_outbox_batch_size := outbox_batch_size\<rparr>)) }) })"

definition parse_transport_record :: "'j json_api \<Rightarrow> 'j \<Rightarrow> transport_record_message option option" where
  "parse_transport_record js json =
    (if \<not> js_is_object js json then Some None
     else do {
       sequence \<leftarrow> js_value_u64 js json ''sequence'' 0;
       record_type \<leftarrow> js_value_u8 js json ''record_type'' 0;
       created_at \<leftarrow> js_value_u64 js json ''created_at'' 0;
       routing_key \<leftarrow> js_value_string js json ''routing_key'' [];
       payload_b64 \<leftarrow> js_value_string js json ''payload_b64'' [];
       if sequence = 0 \<or> payload_b64 = [] then Some None
       else Some (Some \<lparr>tm_sequence = sequence, tm_record_type = record_type, tm_created_at = created_at,
         tm_routing_key = routing_key, tm_payload_b64 = payload_b64\<rparr>) })"

fun parse_records :: "'j json_api \<Rightarrow> 'j list \<Rightarrow> transport_record_message list option option" where
  "parse_records js [] = Some (Some [])"
| "parse_records js (item # items) = do {
    rec \<leftarrow> parse_transport_record js item;
    (case rec of
      None \<Rightarrow> Some None
    | Some r \<Rightarrow> do { rest \<leftarrow> parse_records js items; Some (map_option (\<lambda>rs. r # rs) rest) }) }"

definition parse_crud_result :: "'j json_api \<Rightarrow> 'j \<Rightarrow> crud_result option option" where
  "parse_crud_result js json = with_type js ''crud_result'' json (do {
    version \<leftarrow> js_value_u32 js json ''protocol_version'' 0;
    request_id \<leftarrow> js_value_string js json ''request_id'' [];
    ok \<leftarrow> js_value_bool js json ''ok'' False;
    message \<leftarrow> js_value_string js json ''message'' [];
    snapshot_id \<leftarrow> js_value_u64 js json ''snapshot_id'' 0;
    base_snapshot_id \<leftarrow> js_value_u64 js json ''base_snapshot_id'' 0;
    target_snapshot_id \<leftarrow> js_value_u64 js json ''target_snapshot_id'' 0;
    (case js_at js json ''records'' of
      None \<Rightarrow> Some None
    | Some items \<Rightarrow>
        if \<not> js_is_array js items then Some None
        else do {
          parsed \<leftarrow> parse_records js (js_items js items);
          (case parsed of
            None \<Rightarrow> Some None
          | Some records \<Rightarrow>
              if version \<noteq> crud_kProtocolVersion \<or> request_id = [] then Some None
              else Some (Some (default_result\<lparr>cr_protocol_version := version, cr_request_id := request_id, cr_ok := ok,
                cr_message := message, cr_snapshot_id := snapshot_id, cr_base_snapshot_id := base_snapshot_id,
                cr_target_snapshot_id := target_snapshot_id, cr_records := records\<rparr>))) }) })"

definition parse_ingest_ack :: "'j json_api \<Rightarrow> 'j \<Rightarrow> ingest_ack_message option option" where
  "parse_ingest_ack js json = with_type js ''ingest_ack'' json (do {
    version \<leftarrow> js_value_u32 js json ''protocol_version'' 0;
    request_id \<leftarrow> js_value_string js json ''request_id'' [];
    ok \<leftarrow> js_value_bool js json ''ok'' False;
    ack_sequence \<leftarrow> js_value_u64 js json ''ack_sequence'' 0;
    message \<leftarrow> js_value_string js json ''message'' [];
    if version \<noteq> crud_kProtocolVersion \<or> request_id = [] then Some None
    else Some (Some (default_ingest_ack\<lparr>ia_protocol_version := version, ia_request_id := request_id, ia_ok := ok,
      ia_ack_sequence := ack_sequence, ia_message := message\<rparr>)) })"

text \<open>The text of a frame.  \<open>text_to_json\<close> catches the parser's exceptions.\<close>

definition json_to_text :: "'j json_api \<Rightarrow> 'j \<Rightarrow> string option" where
  "json_to_text js json = js_dump js json"

definition text_to_json :: "'j json_api \<Rightarrow> string \<Rightarrow> 'j option" where
  "text_to_json js text = js_parse js text"

definition json_to_line :: "'j json_api \<Rightarrow> 'j \<Rightarrow> string option" where
  "json_to_line js json = map_option (\<lambda>line. line @ [CHR 0x0A]) (json_to_text js json)"

definition line_to_json :: "'j json_api \<Rightarrow> string \<Rightarrow> 'j option" where
  "line_to_json js line = text_to_json js line"

subsection \<open>Laws of the library\<close>

lemma json_lawsD:
  assumes "json_laws js"
  shows js_is_object_object: "js_is_object js (js_object js ms)"
    and js_is_array_array: "js_is_array js (js_array js xs)" and js_items_array: "js_items js (js_array js xs) = xs"
    and js_at_object: "distinct (map fst ms) \<Longrightarrow> js_at js (js_object js ms) k = map_of ms k"
    and js_value_string_object: "distinct (map fst ms) \<Longrightarrow> map_of ms k = Some (js_string js s) \<Longrightarrow> js_value_string js (js_object js ms) k d = Some s"
    and js_value_bool_object: "distinct (map fst ms) \<Longrightarrow> map_of ms k = Some (js_bool js b) \<Longrightarrow> js_value_bool js (js_object js ms) k e = Some b"
    and js_value_u64_object: "distinct (map fst ms) \<Longrightarrow> map_of ms k = Some (js_number js n) \<Longrightarrow> js_value_u64 js (js_object js ms) k f = Some n"
    and js_value_u32_object: "distinct (map fst ms) \<Longrightarrow> map_of ms k = Some (js_number js n) \<Longrightarrow> js_value_u32 js (js_object js ms) k g = Some (ucast n)"
    and js_value_u8_object: "distinct (map fst ms) \<Longrightarrow> map_of ms k = Some (js_number js n) \<Longrightarrow> js_value_u8 js (js_object js ms) k h = Some (ucast n)"
    and js_value_string_default: "distinct (map fst ms) \<Longrightarrow> map_of ms k = None \<Longrightarrow> js_value_string js (js_object js ms) k d = Some d"
    and js_parse_dump: "js_dump js (js_object js ms) = Some text \<Longrightarrow> js_parse js text = Some (js_object js ms)"
  using assms by (simp_all add: json_laws_def del: map_of_eq_Some_iff)

lemma js_value_string_number:
  "json_laws js \<Longrightarrow> distinct (map fst ms) \<Longrightarrow> map_of ms k = Some (js_number js n) \<Longrightarrow> js_value_string js (js_object js ms) k d = None"
  unfolding json_laws_def by (elim conjE) metis

lemma with_type_object:
  "json_laws js \<Longrightarrow> distinct (map fst ms) \<Longrightarrow> map_of ms ''type'' = Some (js_string js s) \<Longrightarrow>
    with_type js ty (js_object js ms) body = (if s = ty then body else Some None)"
  by (simp add: with_type_def js_is_object_object js_value_string_object [of js ms "''type''" s])

lemma operation_from_to_string [simp]: "operation_from_string (operation_to_string op) = Some op"
  by (cases op) (simp_all add: operation_from_string_def)

lemma ucast_up_down [simp]: "ucast (ucast (v :: u32) :: u64) = v" "ucast (ucast (b :: byte) :: u64) = b"
  by (rule bit_word_eqI; auto simp: bit_simps dest: bit_imp_le_length)+

subsection \<open>Round trips\<close>

definition hello_acceptable :: "hello_message \<Rightarrow> bool" where
  "hello_acceptable msg \<longleftrightarrow> hm_type msg = ''hello'' \<and> hm_protocol_version msg = crud_kProtocolVersion \<and> hm_host_id msg \<noteq> []"

definition hello_ack_acceptable :: "hello_ack_message \<Rightarrow> bool" where
  "hello_ack_acceptable msg \<longleftrightarrow> ha_type msg = ''hello_ack'' \<and> ha_protocol_version msg = crud_kProtocolVersion"

definition command_acceptable :: "crud_command \<Rightarrow> bool" where
  "command_acceptable msg \<longleftrightarrow> cc_type msg = ''crud_command'' \<and> cc_protocol_version msg = crud_kProtocolVersion \<and> cc_request_id msg \<noteq> []"

definition record_acceptable :: "transport_record_message \<Rightarrow> bool" where
  "record_acceptable msg \<longleftrightarrow> tm_sequence msg \<noteq> 0 \<and> tm_payload_b64 msg \<noteq> []"

definition result_acceptable :: "crud_result \<Rightarrow> bool" where
  "result_acceptable msg \<longleftrightarrow> cr_type msg = ''crud_result'' \<and> cr_protocol_version msg = crud_kProtocolVersion \<and>
    cr_request_id msg \<noteq> [] \<and> list_all record_acceptable (cr_records msg)"

definition ingest_ack_acceptable :: "ingest_ack_message \<Rightarrow> bool" where
  "ingest_ack_acceptable msg \<longleftrightarrow> ia_type msg = ''ingest_ack'' \<and> ia_protocol_version msg = crud_kProtocolVersion \<and> ia_request_id msg \<noteq> []"

lemmas object_laws = with_type_object js_at_object js_value_string_object js_value_bool_object js_value_u64_object
  js_value_u32_object js_value_u8_object js_is_object_object js_is_array_array js_items_array

lemma parse_hello_to_json:
  "json_laws js \<Longrightarrow> parse_hello js (hello_to_json js msg) = Some (if hello_acceptable msg then Some msg else None)"
  by (simp add: parse_hello_def hello_to_json_def object_laws hello_acceptable_def default_hello_def)

lemma parse_hello_ack_to_json:
  "json_laws js \<Longrightarrow> parse_hello_ack js (hello_ack_to_json js msg) = Some (if hello_ack_acceptable msg then Some msg else None)"
  by (simp add: parse_hello_ack_def hello_ack_to_json_def object_laws hello_ack_acceptable_def default_hello_ack_def)

lemma parse_crud_command_to_json:
  "json_laws js \<Longrightarrow> parse_crud_command js (crud_command_to_json js msg) = Some (if command_acceptable msg then Some msg else None)"
  by (simp add: parse_crud_command_def crud_command_to_json_def object_laws command_acceptable_def default_command_def)

lemma parse_transport_record_to_json:
  "json_laws js \<Longrightarrow> parse_transport_record js (transport_record_to_json js msg) = Some (if record_acceptable msg then Some msg else None)"
  by (simp add: parse_transport_record_def transport_record_to_json_def object_laws record_acceptable_def)

lemma parse_ingest_ack_to_json:
  "json_laws js \<Longrightarrow> parse_ingest_ack js (ingest_ack_to_json js msg) = Some (if ingest_ack_acceptable msg then Some msg else None)"
  by (simp add: parse_ingest_ack_def ingest_ack_to_json_def object_laws ingest_ack_acceptable_def default_ingest_ack_def)

lemma parse_records_to_json:
  "json_laws js \<Longrightarrow> parse_records js (map (transport_record_to_json js) rs) = Some (if list_all record_acceptable rs then Some rs else None)"
  by (induction rs) (simp_all add: parse_transport_record_to_json)

lemma parse_crud_result_to_json:
  "json_laws js \<Longrightarrow> parse_crud_result js (crud_result_to_json js msg) = Some (if result_acceptable msg then Some msg else None)"
  by (simp add: parse_crud_result_def crud_result_to_json_def object_laws result_acceptable_def default_result_def parse_records_to_json)

subsection \<open>Frames of text\<close>

lemma text_of_object:
  "json_laws js \<Longrightarrow> json_to_text js (js_object js ms) = Some text \<Longrightarrow> text_to_json js text = Some (js_object js ms)"
  by (simp add: json_to_text_def text_to_json_def js_parse_dump)

text \<open>A concrete library, with which the laws hold: JSON values are trees, and the text of a tree is its number.\<close>

datatype json_tree = Object_tree "(string \<times> json_tree) list" | Array_tree "json_tree list"
  | String_tree string | Bool_tree bool | Number_tree u64

instance json_tree :: countable
  by countable_datatype

fun tree_at :: "json_tree \<Rightarrow> string \<Rightarrow> json_tree option" where
  "tree_at (Object_tree ms) k = map_of ms k"
| "tree_at _ k = None"

definition tree_string :: "json_tree \<Rightarrow> string \<Rightarrow> string \<Rightarrow> string option" where
  "tree_string j k d = (case tree_at j k of None \<Rightarrow> Some d | Some (String_tree s) \<Rightarrow> Some s | Some _ \<Rightarrow> None)"

definition tree_bool :: "json_tree \<Rightarrow> string \<Rightarrow> bool \<Rightarrow> bool option" where
  "tree_bool j k d = (case tree_at j k of None \<Rightarrow> Some d | Some (Bool_tree b) \<Rightarrow> Some b | Some _ \<Rightarrow> None)"

definition tree_number :: "json_tree \<Rightarrow> string \<Rightarrow> ('a::len) word \<Rightarrow> 'a word option" where
  "tree_number j k d = (case tree_at j k of None \<Rightarrow> Some d | Some (Number_tree n) \<Rightarrow> Some (ucast n) | Some _ \<Rightarrow> None)"

definition tree_json :: "json_tree json_api" where
  "tree_json = \<lparr>
    js_is_object = (\<lambda>j. case j of Object_tree _ \<Rightarrow> True | _ \<Rightarrow> False),
    js_is_array = (\<lambda>j. case j of Array_tree _ \<Rightarrow> True | _ \<Rightarrow> False),
    js_at = tree_at, js_items = (\<lambda>j. case j of Array_tree xs \<Rightarrow> xs | _ \<Rightarrow> []),
    js_value_string = tree_string, js_value_bool = tree_bool, js_value_u64 = tree_number,
    js_value_u32 = tree_number, js_value_u8 = tree_number,
    js_object = Object_tree, js_array = Array_tree, js_string = String_tree, js_bool = Bool_tree, js_number = Number_tree,
    js_integer = Number_tree,
    js_dump = (\<lambda>j. Some (replicate (to_nat j) CHR ''1'')), js_parse = (\<lambda>text. Some (from_nat (length text)))\<rparr>"

definition sample_values :: "json_tree json_values" where
  "sample_values = \<lparr>
    jv_string = (\<lambda>j. case j of String_tree s \<Rightarrow> Some s | _ \<Rightarrow> None),
    jv_bool = (\<lambda>j. case j of Bool_tree b \<Rightarrow> Some b | _ \<Rightarrow> None),
    jv_unsigned = (\<lambda>j. case j of Number_tree n \<Rightarrow> Some n | _ \<Rightarrow> None),
    jv_integer = (\<lambda>j. case j of Number_tree n \<Rightarrow> Some n | _ \<Rightarrow> None),
    jv_keys = (\<lambda>j. case j of Object_tree ms \<Rightarrow> map fst ms | _ \<Rightarrow> [])\<rparr>"

lemma tree_json_laws: "json_laws tree_json"
  by (simp add: json_laws_def tree_json_def tree_string_def tree_bool_def tree_number_def del: map_of_eq_Some_iff)

lemma sample_value_laws: "value_laws tree_json sample_values"
  by (simp add: value_laws_def tree_json_def sample_values_def)

text \<open>
  C20: a message of either side, turned into JSON and text, is read back by the other side's parser as the
  same message when it has what the parser asks for (the version of the protocol and its identifying
  field; for a result also that every record has a sequence number and a payload), and refused otherwise.
\<close>

theorem messages_survive_the_wire:
  assumes "json_laws js"
  shows "(json_to_text js (hello_to_json js hello) = Some text \<longrightarrow>
      Option.bind (text_to_json js text) (parse_hello js) = Some (if hello_acceptable hello then Some hello else None)) \<and>
    (json_to_text js (hello_ack_to_json js hello_ack) = Some text \<longrightarrow>
      Option.bind (text_to_json js text) (parse_hello_ack js) = Some (if hello_ack_acceptable hello_ack then Some hello_ack else None)) \<and>
    (json_to_text js (crud_command_to_json js command) = Some text \<longrightarrow>
      Option.bind (text_to_json js text) (parse_crud_command js) = Some (if command_acceptable command then Some command else None)) \<and>
    (json_to_text js (crud_result_to_json js result) = Some text \<longrightarrow>
      Option.bind (text_to_json js text) (parse_crud_result js) = Some (if result_acceptable result then Some result else None)) \<and>
    (json_to_text js (ingest_ack_to_json js ack) = Some text \<longrightarrow>
      Option.bind (text_to_json js text) (parse_ingest_ack js) = Some (if ingest_ack_acceptable ack then Some ack else None))"
proof (intro conjI impI)
  note of_text = text_of_object [OF assms]
  show "Option.bind (text_to_json js text) (parse_hello js) = Some (if hello_acceptable hello then Some hello else None)"
    if "json_to_text js (hello_to_json js hello) = Some text"
    using of_text that parse_hello_to_json [OF assms, of hello] by (auto simp: hello_to_json_def)
  show "Option.bind (text_to_json js text) (parse_hello_ack js) = Some (if hello_ack_acceptable hello_ack then Some hello_ack else None)"
    if "json_to_text js (hello_ack_to_json js hello_ack) = Some text"
    using of_text that parse_hello_ack_to_json [OF assms, of hello_ack] by (auto simp: hello_ack_to_json_def)
  show "Option.bind (text_to_json js text) (parse_crud_command js) = Some (if command_acceptable command then Some command else None)"
    if "json_to_text js (crud_command_to_json js command) = Some text"
    using of_text that parse_crud_command_to_json [OF assms, of command] by (auto simp: crud_command_to_json_def)
  show "Option.bind (text_to_json js text) (parse_crud_result js) = Some (if result_acceptable result then Some result else None)"
    if "json_to_text js (crud_result_to_json js result) = Some text"
    using of_text that parse_crud_result_to_json [OF assms, of result] by (auto simp: crud_result_to_json_def)
  show "Option.bind (text_to_json js text) (parse_ingest_ack js) = Some (if ingest_ack_acceptable ack then Some ack else None)"
    if "json_to_text js (ingest_ack_to_json js ack) = Some text"
    using of_text that parse_ingest_ack_to_json [OF assms, of ack] by (auto simp: ingest_ack_to_json_def)
qed

theorem messages_survive_the_wire_witness:
  "\<exists>text. json_to_text tree_json (crud_command_to_json tree_json (default_command\<lparr>cc_request_id := ''read-1'', cc_ack_sequence := 7\<rparr>)) = Some text \<and>
    Option.bind (text_to_json tree_json text) (parse_crud_command tree_json) =
      Some (Some (default_command\<lparr>cc_request_id := ''read-1'', cc_ack_sequence := 7\<rparr>))"
proof -
  let ?c = "default_command\<lparr>cc_request_id := ''read-1'', cc_ack_sequence := 7\<rparr>"
  obtain frame where frame: "json_to_text tree_json (crud_command_to_json tree_json ?c) = Some frame"
    by (simp add: json_to_text_def tree_json_def)
  with messages_survive_the_wire [OF tree_json_laws, of default_hello frame default_hello_ack ?c default_result default_ingest_ack]
  show ?thesis by (auto simp: command_acceptable_def default_command_def)
qed

end
