(* ===== verification/CrudProcessor.thy ===== *)
theory CrudProcessor imports Pipeline CrudProtocol begin

text \<open>
  How Muninn executes a command of the bridge: \<open>src/backend/Muninn/transport/crud_command_processor.cpp\<close>
  and the options of \<open>crud_server.hpp\<close>.  A command runs to its end before the next one of the same session;
  the store operations it is made of are atomic one by one.  Logging is left out.
\<close>

subsection \<open>Options\<close>

datatype crud_transport_kind = WebSocket
datatype transport_security_mode = Dev | Prod

fun crud_transport_kind_name :: "crud_transport_kind \<Rightarrow> string" where
  "crud_transport_kind_name WebSocket = ''websocket''"

record crud_server_options =
  co_transport_kind :: crud_transport_kind
  co_listen_address :: string
  co_port :: u16
  co_websocket_path :: string
  co_health_path :: string
  co_readiness_path :: string
  co_metrics_path :: string
  co_default_root_path :: string
  co_default_outbox_batch_size :: nat
  co_scan_options :: scan_options
  co_retention_keep_latest_snapshots :: nat
  co_security_mode :: transport_security_mode
  co_allow_plain_websocket_in_prod :: bool
  co_allow_remote_mutating_commands :: bool
  co_allowed_client_instance_id :: string
  co_bridge_auth_token :: string

subsection \<open>Parts of a command\<close>

definition resolve_root_path :: "string \<Rightarrow> crud_server_options \<Rightarrow> string option" where
  "resolve_root_path command_root options =
    (if command_root \<noteq> [] then Some command_root
     else if co_default_root_path options \<noteq> [] then Some (co_default_root_path options) else None)"

definition record_message :: "transport_record \<Rightarrow> transport_record_message" where
  "record_message r = \<lparr>tm_sequence = tr_sequence r, tm_record_type = tr_type r, tm_created_at = tr_created_at r,
    tm_routing_key = tr_routing_key r, tm_payload_b64 = base64_encode (tr_payload r)\<rparr>"

definition append_transport_records ::
  "'e lmdb_api \<Rightarrow> string \<Rightarrow> nat \<Rightarrow> 'e lmdb_handle \<Rightarrow> transport_record_message list store_result option" where
  "append_transport_records api consumer_id max_items s =
    map_option (map_sum id (map record_message)) (fetch_transport_batch_for_consumer api consumer_id (max 1 max_items) s)"

definition status_message :: "'a store_result \<Rightarrow> string" where
  "status_message status = (case status of Inl e \<Rightarrow> sf_message e | Inr _ \<Rightarrow> [])"

definition pipeline_error_message :: "pipeline_result \<Rightarrow> string" where
  "pipeline_error_message r =
    (if \<not> status_ok (pr_snapshot_store_status r) then status_message (pr_snapshot_store_status r)
     else if \<not> status_ok (pr_transport_snapshot_status r) then status_message (pr_transport_snapshot_status r)
     else if \<not> status_ok (pr_delta_store_status r) then status_message (pr_delta_store_status r)
     else if \<not> status_ok (pr_transport_delta_status r) then status_message (pr_transport_delta_status r)
     else if has_errors (pr_snapshot_validation r) then ''Snapshot validation failed.''
     else if pr_computed_delta r \<noteq> None \<and> has_errors (pr_delta_validation r) then ''Delta validation failed.''
     else ''Pipeline execution failed.'')"

text \<open>\<^const>\<open>None\<close> when the command is allowed, and the message otherwise.\<close>

definition remote_mutating_commands_allowed :: "crud_server_options \<Rightarrow> crud_command \<Rightarrow> string option" where
  "remote_mutating_commands_allowed options command =
    (if co_allow_remote_mutating_commands options \<or> cc_operation command = Read then None
     else Some (operation_to_string (cc_operation command) @
       '' is disabled on the Muninn bridge. Muninn owns capture and persistence; remote bridge commands are read/ack only by default.''))"

text \<open>The last step of a command: the next batch for the consumer, or the error of fetching it.\<close>

definition answer_batch ::
  "'e lmdb_api \<Rightarrow> string \<Rightarrow> nat \<Rightarrow> string \<Rightarrow> crud_result \<Rightarrow> 'e lmdb_handle \<Rightarrow> (crud_result \<times> 'e lmdb_handle) option" where
  "answer_batch api consumer_id batch_size message result s =
    map_option (\<lambda>fetch. case fetch of
        Inl e \<Rightarrow> (result\<lparr>cr_message := sf_message e\<rparr>, s)
      | Inr records \<Rightarrow> (result\<lparr>cr_records := records, cr_ok := True, cr_message := message\<rparr>, s))
    (append_transport_records api consumer_id batch_size s)"

text \<open>Retention after a capture, when it is configured.\<close>

definition retain_configured ::
  "'e lmdb_api \<Rightarrow> crud_server_options \<Rightarrow> 'e lmdb_handle \<Rightarrow> (unit store_result \<times> 'e lmdb_handle) option" where
  "retain_configured api options s =
    (if co_retention_keep_latest_snapshots options > 0
     then map_option (\<lambda>(status, s). (map_sum id (\<lambda>_. ()) status, s))
       (apply_snapshot_retention api (co_retention_keep_latest_snapshots options) s)
     else Some (Inr (), s))"

subsection \<open>The four operations\<close>

definition process_create ::
  "'e lmdb_api \<Rightarrow> file_system \<Rightarrow> clock_readings \<Rightarrow> crud_server_options \<Rightarrow> crud_command \<Rightarrow> string \<Rightarrow> nat \<Rightarrow>
    crud_result \<Rightarrow> 'e lmdb_handle \<Rightarrow> (crud_result \<times> 'e lmdb_handle) option" where
  "process_create api fs clock options command consumer_id batch_size result s =
    (case resolve_root_path (cc_root_path command) options of
       None \<Rightarrow> Some (result\<lparr>cr_message := ''Create operation requires root_path.''\<rparr>, s)
     | Some root_path \<Rightarrow>
         (case capture_snapshot api fs clock root_path (co_scan_options options) True s of
            None \<Rightarrow> None
          | Some (r, s) \<Rightarrow>
              if \<not> pipeline_ok r \<or> \<not> status_ok (pr_transport_snapshot_status r)
              then Some (result\<lparr>cr_message := pipeline_error_message r\<rparr>, s)
              else (case retain_configured api options s of
                  None \<Rightarrow> None
                | Some (Inl e, s) \<Rightarrow> Some (result\<lparr>cr_message := sf_message e\<rparr>, s)
                | Some (Inr _, s) \<Rightarrow> answer_batch api consumer_id batch_size ''snapshot_created''
                    (result\<lparr>cr_snapshot_id := sn_snapshot_id (br_snapshot (pr_snapshot_build r))\<rparr>) s)))"

definition process_update ::
  "'e lmdb_api \<Rightarrow> file_system \<Rightarrow> clock_readings \<Rightarrow> crud_server_options \<Rightarrow> crud_command \<Rightarrow> string \<Rightarrow> nat \<Rightarrow>
    crud_result \<Rightarrow> 'e lmdb_handle \<Rightarrow> (crud_result \<times> 'e lmdb_handle) option" where
  "process_update api fs clock options command consumer_id batch_size result s =
    (case resolve_root_path (cc_root_path command) options of
       None \<Rightarrow> Some (result\<lparr>cr_message := ''Update operation requires root_path.''\<rparr>, s)
     | Some root_path \<Rightarrow>
         (let base_snapshot = (if cc_base_snapshot_id command \<noteq> 0 then cc_base_snapshot_id command else cc_snapshot_id command)
          in if base_snapshot = 0
             then Some (result\<lparr>cr_message := ''Update operation requires base_snapshot_id (or snapshot_id).''\<rparr>, s)
             else (case capture_snapshot_and_delta api fs clock root_path base_snapshot (co_scan_options options) True s of
                None \<Rightarrow> None
              | Some (r, s) \<Rightarrow>
                  if \<not> pipeline_ok r \<or> \<not> status_ok (pr_transport_snapshot_status r) \<or> \<not> status_ok (pr_transport_delta_status r)
                  then Some (result\<lparr>cr_message := pipeline_error_message r\<rparr>, s)
                  else (case retain_configured api options s of
                      None \<Rightarrow> None
                    | Some (Inl e, s) \<Rightarrow> Some (result\<lparr>cr_message := sf_message e\<rparr>, s)
                    | Some (Inr _, s) \<Rightarrow>
                        (let target = sn_snapshot_id (br_snapshot (pr_snapshot_build r))
                         in answer_batch api consumer_id batch_size ''snapshot_updated''
                              (result\<lparr>cr_base_snapshot_id := base_snapshot, cr_target_snapshot_id := target,
                                cr_snapshot_id := target\<rparr>) s)))))"

definition process_delete ::
  "'e lmdb_api \<Rightarrow> crud_command \<Rightarrow> crud_result \<Rightarrow> 'e lmdb_handle \<Rightarrow> (crud_result \<times> 'e lmdb_handle) option" where
  "process_delete api command result s =
    (if cc_snapshot_id command = 0
     then Some (result\<lparr>cr_message := ''Delete operation requires snapshot_id.''\<rparr>, s)
     else map_option (\<lambda>(status, s). case status of
         Inl e \<Rightarrow> (result\<lparr>cr_message := sf_message e\<rparr>, s)
       | Inr _ \<Rightarrow> (result\<lparr>cr_ok := True, cr_snapshot_id := cc_snapshot_id command, cr_message := ''snapshot_deleted''\<rparr>, s))
       (delete_snapshot api (cc_snapshot_id command) s))"

text \<open>\<open>CrudCommandProcessor::process\<close>: first the acknowledgement that comes with the command, then the policy, then the operation.\<close>

definition batch_size_of :: "crud_server_options \<Rightarrow> crud_command \<Rightarrow> nat" where
  "batch_size_of options command =
    (if cc_outbox_batch_size command = 0 then max 1 (co_default_outbox_batch_size options) else unat (cc_outbox_batch_size command))"

definition ack_of_command ::
  "'e lmdb_api \<Rightarrow> crud_command \<Rightarrow> string \<Rightarrow> 'e lmdb_handle \<Rightarrow> unit store_result \<times> 'e lmdb_handle" where
  "ack_of_command api command consumer_id s =
    (if cc_ack_sequence command > 0 then ack_transport_until_for_consumer api consumer_id (cc_ack_sequence command) s
     else (Inr (), s))"

definition run_operation ::
  "'e lmdb_api \<Rightarrow> file_system \<Rightarrow> clock_readings \<Rightarrow> crud_server_options \<Rightarrow> crud_command \<Rightarrow> string \<Rightarrow>
    crud_result \<Rightarrow> 'e lmdb_handle \<Rightarrow> (crud_result \<times> 'e lmdb_handle) option" where
  "run_operation api fs clock options command consumer_id result s =
    (let batch_size = batch_size_of options command
     in case cc_operation command of
          Read \<Rightarrow> answer_batch api consumer_id batch_size ''ok'' result s
        | Create \<Rightarrow> process_create api fs clock options command consumer_id batch_size result s
        | Update \<Rightarrow> process_update api fs clock options command consumer_id batch_size result s
        | Delete \<Rightarrow> process_delete api command result s)"

definition process ::
  "'e lmdb_api \<Rightarrow> file_system \<Rightarrow> clock_readings \<Rightarrow> crud_server_options \<Rightarrow> crud_command \<Rightarrow> string \<Rightarrow>
    'e lmdb_handle \<Rightarrow> (crud_result \<times> 'e lmdb_handle) option" where
  "process api fs clock options command consumer_id s =
    (let result = default_result\<lparr>cr_request_id := cc_request_id command, cr_ok := False\<rparr>
     in case ack_of_command api command consumer_id s of
          (Inl e, s) \<Rightarrow> Some (result\<lparr>cr_message := sf_message e\<rparr>, s)
        | (Inr _, s) \<Rightarrow>
            (case remote_mutating_commands_allowed options command of
               Some disabled_message \<Rightarrow> Some (result\<lparr>cr_message := disabled_message\<rparr>, s)
             | None \<Rightarrow> run_operation api fs clock options command consumer_id result s))"

subsection \<open>A command is a sequence of store calls\<close>

definition calls_between :: "'e lmdb_api \<Rightarrow> int \<Rightarrow> nat \<Rightarrow> 'e lmdb_handle \<Rightarrow> 'e lmdb_handle \<Rightarrow> bool" where
  "calls_between api now n s s' \<longleftrightarrow> (\<exists>calls. length calls \<le> n \<and> run_calls api now calls s = Some s')"

lemma calls_none [simp]: "calls_between api now n s s"
  unfolding calls_between_def by (rule exI [of _ "[]"]) simp

lemma calls_one: "run_call api now call s = Some s' \<Longrightarrow> calls_between api now (Suc 0) s s'"
  unfolding calls_between_def by (rule exI [of _ "[call]"]) simp

lemma run_calls_append:
  "run_calls api now (xs @ ys) s = (case run_calls api now xs s of None \<Rightarrow> None | Some s' \<Rightarrow> run_calls api now ys s')"
  by (induction xs arbitrary: s) (auto split: option.split)

lemma calls_then: "calls_between api now a s t \<Longrightarrow> calls_between api now b t u \<Longrightarrow> calls_between api now (a + b) s u"
  unfolding calls_between_def
proof (elim exE conjE)
  fix xs ys
  assume "length xs \<le> a" "run_calls api now xs s = Some t" "length ys \<le> b" "run_calls api now ys t = Some u"
  then show "\<exists>calls. length calls \<le> a + b \<and> run_calls api now calls s = Some u"
    by (intro exI [of _ "xs @ ys"]) (simp add: run_calls_append)
qed

lemma calls_more: "calls_between api now a s t \<Longrightarrow> a \<le> b \<Longrightarrow> calls_between api now b s t"
  unfolding calls_between_def by (meson le_trans)

lemma store_call_between:
  "put_snapshot_with_transport api now created_at sn enqueue validate s = (status, s') \<Longrightarrow> calls_between api now (Suc 0) s s'"
  "put_snapshot_and_delta_with_transport api now created_at created_at' sn d base enqueue validate s = (numbers, s') \<Longrightarrow> calls_between api now (Suc 0) s s'"
  "ack_transport_until_for_consumer api c q s = (done, s') \<Longrightarrow> calls_between api now (Suc 0) s s'"
  "register_transport_consumer api c s = (done, s') \<Longrightarrow> calls_between api now (Suc 0) s s'"
  "apply_snapshot_retention api keep s = Some (stats, s') \<Longrightarrow> calls_between api now (Suc 0) s s'"
  "delete_snapshot api i s = Some (stats, s') \<Longrightarrow> calls_between api now (Suc 0) s s'"
  by (rule calls_one [of _ _ "PutSnapshotWithTransport created_at sn enqueue validate"], simp,
      rule calls_one [of _ _ "PutSnapshotAndDelta created_at created_at' sn d base enqueue validate"], simp,
      rule calls_one [of _ _ "AckUntil c q"], simp, rule calls_one [of _ _ "RegisterConsumer c"], simp,
      rule calls_one [of _ _ "Retain keep"], simp, rule calls_one [of _ _ "DeleteSnapshot i"], simp)

lemma capture_snapshot_calls:
  "capture_snapshot api fs clock root_path options enqueue s = Some (r, s') \<Longrightarrow> calls_between api (ck_validate clock) (Suc 0) s s'"
  by (auto simp: capture_snapshot_def Let_def split: option.splits if_splits prod.splits sum.splits dest: store_call_between)

lemma store_delta_calls:
  "store_delta api clock enqueue base result s = (r, s') \<Longrightarrow> calls_between api (ck_validate clock) (Suc 0) s s'"
  by (auto simp: store_delta_def Let_def split: if_splits prod.splits sum.splits dest: store_call_between)

lemma capture_snapshot_and_delta_calls:
  "capture_snapshot_and_delta api fs clock root_path base_id options enqueue s = Some (r, s') \<Longrightarrow>
    calls_between api (ck_validate clock) (Suc 0) s s'"
  by (auto simp: capture_snapshot_and_delta_def Let_def split: option.splits if_splits prod.splits sum.splits
      intro: store_delta_calls)

lemma answer_batch_same: "answer_batch api c n message result s = Some (r, s') \<Longrightarrow> s' = s"
  by (cases "append_transport_records api c n s") (auto simp: answer_batch_def split: sum.splits)

lemma retain_calls: "retain_configured api options s = Some (status, s') \<Longrightarrow> calls_between api now (Suc 0) s s'"
  by (auto simp: retain_configured_def split: if_splits dest: store_call_between)

lemma after_capture:
  "calls_between api now (Suc 0) s t \<Longrightarrow> retain_configured api options t = Some (status, u) \<Longrightarrow> calls_between api now 2 s u"
  using calls_then [OF _ retain_calls, where a = "Suc 0" and now = now] by (simp add: numeral_2_eq_2)

lemma process_create_calls:
  "process_create api fs clock options command c n result s = Some (r, s') \<Longrightarrow> calls_between api (ck_validate clock) 2 s s'"
  by (auto simp: process_create_def split: option.splits if_splits prod.splits sum.splits
      dest!: capture_snapshot_calls answer_batch_same intro: after_capture calls_more [of _ _ "Suc 0" _ _ 2])

lemma process_update_calls:
  "process_update api fs clock options command c n result s = Some (r, s') \<Longrightarrow> calls_between api (ck_validate clock) 2 s s'"
  by (auto simp: process_update_def Let_def split: option.splits if_splits prod.splits sum.splits
      dest!: capture_snapshot_and_delta_calls answer_batch_same intro: after_capture calls_more [of _ _ "Suc 0" _ _ 2])

lemma process_delete_calls:
  "process_delete api command result s = Some (r, s') \<Longrightarrow> calls_between api now 2 s s'"
  by (cases "delete_snapshot api (cc_snapshot_id command) s")
    (auto simp: process_delete_def split: if_splits sum.splits intro: calls_more [of _ _ "Suc 0" _ _ 2] dest!: store_call_between)

lemma run_operation_calls:
  "run_operation api fs clock options command c result s = Some (r, s') \<Longrightarrow> calls_between api (ck_validate clock) 2 s s'"
  by (auto simp: run_operation_def Let_def split: operation.splits
      dest: process_create_calls process_update_calls process_delete_calls answer_batch_same)

lemma ack_of_command_calls:
  "ack_of_command api command c s = (status, s') \<Longrightarrow> calls_between api now (Suc 0) s s'"
  by (auto simp: ack_of_command_def split: if_splits dest: store_call_between)

lemma process_calls:
  assumes "process api fs clock options command c s = Some (r, s')"
  shows "calls_between api (ck_validate clock) 3 s s'"
proof -
  obtain status t where ack: "ack_of_command api command c s = (status, t)" by fastforce
  note first = ack_of_command_calls [OF ack, of "ck_validate clock"]
  have "s' = t \<or> calls_between api (ck_validate clock) 2 t s'"
    using assms ack by (auto simp: process_def Let_def split: sum.splits option.splits dest: run_operation_calls)
  then show ?thesis
    using calls_more [OF first, of 3] calls_then [OF first, of 2 s'] by (auto simp: numeral_3_eq_3 numeral_2_eq_2)
qed

subsection \<open>Reading and acknowledging\<close>

lemma fetch_returns:
  assumes "lmdb_laws api contents" "store_ok (store_contents contents s)"
  shows "\<exists>r. fetch_transport_batch_for_consumer api c n s = Some r"
  using fetch_admitted [OF assms(1) refl _ _ refl refl, of s c n] assms(2) unfolding store_ok_def by blast

lemma answer_batch_returns:
  assumes "lmdb_laws api contents" "store_ok (store_contents contents s)"
  shows "\<exists>r. answer_batch api c n message result s = Some (r, s) \<and> cr_request_id r = cr_request_id result"
proof -
  obtain fetch where "fetch_transport_batch_for_consumer api c (max 1 n) s = Some fetch"
    using fetch_returns [OF assms] by blast
  then show ?thesis by (cases fetch) (simp_all add: answer_batch_def append_transport_records_def)
qed

lemma answer_batch_ok:
  assumes "answer_batch api c n message result s = Some (r, t)" "cr_ok r" "\<not> cr_ok result"
  shows "\<exists>records. fetch_transport_batch_for_consumer api c (max 1 n) s = Some (Inr records) \<and>
    r = result\<lparr>cr_records := map record_message records, cr_ok := True, cr_message := message\<rparr>"
proof (cases "fetch_transport_batch_for_consumer api c (max 1 n) s")
  case (Some fetch)
  then show ?thesis using assms by (cases fetch) (auto simp: answer_batch_def append_transport_records_def)
qed (use assms in \<open>simp add: answer_batch_def append_transport_records_def\<close>)

text \<open>An acknowledgement touches one consumer only.\<close>

definition acked_only :: "string \<Rightarrow> u64 \<Rightarrow> contents \<Rightarrow> contents \<Rightarrow> bool" where
  "acked_only c q m m' \<longleftrightarrow> (\<forall>db. db \<noteq> kDbTransportConsumers \<longrightarrow> m' db = m db) \<and>
    (\<forall>c'. c' \<noteq> c \<longrightarrow> acked m' c' = acked m c') \<and>
    (acked m' c = acked m c \<or> acked m' c = Some (max (case acked m c of None \<Rightarrow> 0 | Some a \<Rightarrow> a) q))"

lemma acked_only_refl [simp]: "acked_only c q m m"
  by (simp add: acked_only_def)

lemma acked_put:
  "acked (put_record kDbTransportConsumers (string_bytes c) (encode_u64_be q) m) c' = (if c' = c then Some q else acked m c')"
  by (auto simp: acked_def put_record_apply)

lemma ack_of_command_effect:
  assumes laws: "lmdb_laws api contents" and run: "ack_of_command api command c s = (status, s')"
  shows "acked_only c (cc_ack_sequence command) (store_contents contents s) (store_contents contents s')"
    "status_ok status \<Longrightarrow> cc_ack_sequence command > 0 \<Longrightarrow> acked (store_contents contents s') c =
      Some (max (case acked (store_contents contents s) c of None \<Rightarrow> 0 | Some a \<Rightarrow> a) (cc_ack_sequence command))"
  using run ack_effect [OF laws, of s c "cc_ack_sequence command"]
  by (auto simp: ack_of_command_def store_effect_def Let_def acked_only_def acked_put put_record_apply status_ok_def
      split: if_splits sum.splits)

lemma between_ok:
  assumes laws: "lmdb_laws api contents" and ok: "store_ok (store_contents contents s)" and room: "room k (store_contents contents s)"
    and n: "n \<le> k" and run: "calls_between api now n s t"
  shows "store_ok (store_contents contents t) \<and> keeps_delivery (store_contents contents s) (store_contents contents t)"
proof -
  obtain calls where calls: "length calls \<le> n" "run_calls api now calls s = Some t"
    using run by (auto simp: calls_between_def)
  then have "room (length calls) (store_contents contents s)" using room n by (simp add: room_def)
  then show ?thesis using run_calls_step [OF laws ok, of calls now] calls(2) by force
qed

lemma retain_returns:
  "lmdb_laws api contents \<Longrightarrow> \<exists>status s'. retain_configured api options s = Some (status, s')"
  using retention_effect [of api contents "co_retention_keep_latest_snapshots options" s]
  by (auto simp: retain_configured_def)

text \<open>What follows a capture in a command returns.\<close>

lemma after_capture_returns:
  assumes laws: "lmdb_laws api contents" and ok: "store_ok (store_contents contents s)" and room: "room 3 (store_contents contents s)"
    and run: "calls_between api now 2 s u" and retain: "retain_configured api options u = Some (status, v)"
  shows "\<exists>p. answer_batch api c n message result v = Some p"
proof -
  have "calls_between api now 3 s v"
    using calls_then [OF run retain_calls [OF retain]] by (simp add: numeral_3_eq_3)
  then have "store_ok (store_contents contents v)" using between_ok [OF laws ok room] by blast
  then show ?thesis using answer_batch_returns [OF laws] by blast
qed

lemma captured_commands_return:
  assumes laws: "lmdb_laws api contents" and ok: "store_ok (store_contents contents s)" and room: "room 3 (store_contents contents s)"
    and first: "calls_between api (ck_validate clock) (Suc 0) s t"
    and builds: "\<And>root. resolve_root_path (cc_root_path command) options = Some root \<Longrightarrow>
      \<exists>b. build (scan fs root (co_scan_options options)) default_build_options = Some b"
  shows "\<exists>p. process_create api fs clock options command c n result t = Some p"
    and "\<exists>p. process_update api fs clock options command c n result t = Some p"
proof -
  have then_calls: "calls_between api (ck_validate clock) 2 s u" if "calls_between api (ck_validate clock) (Suc 0) t u" for u
    using calls_then [OF first that] by (simp add: numeral_2_eq_2)
  have continue: "\<exists>p. (case retain_configured api options u of
        None \<Rightarrow> None
      | Some (Inl e, v) \<Rightarrow> Some (result\<lparr>cr_message := sf_message e\<rparr>, v)
      | Some (Inr _, v) \<Rightarrow> answer_batch api c n message result' v) = Some p"
    if u: "calls_between api (ck_validate clock) (Suc 0) t u" for u message result'
  proof -
    obtain status v where retain: "retain_configured api options u = Some (status, v)" using retain_returns [OF laws] by blast
    then show ?thesis using after_capture_returns [OF laws ok room then_calls [OF u] retain] by (auto split: sum.split)
  qed
  show "\<exists>p. process_create api fs clock options command c n result t = Some p"
  proof (cases "resolve_root_path (cc_root_path command) options")
    case (Some root)
    obtain r u where capture: "capture_snapshot api fs clock root (co_scan_options options) True t = Some (r, u)"
      using captures_return(1) builds [OF Some] by blast
    show ?thesis using Some capture continue [OF capture_snapshot_calls [OF capture]] by (simp add: process_create_def)
  qed (simp add: process_create_def)
  show "\<exists>p. process_update api fs clock options command c n result t = Some p"
  proof (cases "resolve_root_path (cc_root_path command) options")
    case (Some root)
    obtain r u where capture: "capture_snapshot_and_delta api fs clock root
        (if cc_base_snapshot_id command \<noteq> 0 then cc_base_snapshot_id command else cc_snapshot_id command)
        (co_scan_options options) True t = Some (r, u)"
      using captures_return(2) builds [OF Some] by blast
    show ?thesis unfolding process_update_def Let_def
      using Some capture continue [OF capture_snapshot_and_delta_calls [OF capture]] by simp
  qed (simp add: process_update_def)
qed

lemma process_returns:
  assumes laws: "lmdb_laws api contents" and ok: "store_ok (store_contents contents s)" and room: "room 3 (store_contents contents s)"
    and builds: "\<And>root. resolve_root_path (cc_root_path command) options = Some root \<Longrightarrow>
      \<exists>b. build (scan fs root (co_scan_options options)) default_build_options = Some b"
  shows "\<exists>p. process api fs clock options command c s = Some p"
proof -
  obtain status t where ack: "ack_of_command api command c s = (status, t)" by fastforce
  note first = ack_of_command_calls [OF ack, of "ck_validate clock"]
  have t: "store_ok (store_contents contents t)" using between_ok [OF laws ok room _ first] by simp
  have "\<exists>p. process_delete api command result t = Some p" for result
    using delete_snapshot_effect [OF laws, of "cc_snapshot_id command" t] by (auto simp: process_delete_def)
  then have "\<exists>p. run_operation api fs clock options command c result t = Some p" for result
    using answer_batch_returns [OF laws t] captured_commands_return [OF laws ok room first builds]
    by (cases "cc_operation command") (simp_all add: run_operation_def Let_def, blast)
  then show ?thesis using ack by (auto simp: process_def Let_def split: sum.split option.split)
qed

lemma ack_keeps_ok:
  assumes laws: "lmdb_laws api contents" and ok: "store_ok (store_contents contents s)"
    and run: "run_call api now (AckUntil c q) s = Some t"
  shows "store_ok (store_contents contents t)"
  using run ack_effect [OF laws, of s c q] ok
    step_ok_consumer [OF ok, where c = c and q = "max (case acked (store_contents contents s) c of None \<Rightarrow> 0 | Some n \<Rightarrow> n) q"]
  by (cases "acked (store_contents contents s) c") (auto simp: store_effect_def step_ok_def Let_def split: sum.splits if_splits)

subsection \<open>Properties\<close>

text \<open>
  C4: by default the bridge reads and acknowledges only: when remote mutating commands are not allowed, a
  command returns, every command but a read is refused without records, and nothing of the store changes
  but the acknowledgement of the consumer that sent it, which stays or grows to the number it named.
\<close>

theorem bridge_is_read_only:
  assumes laws: "lmdb_laws api contents" and ok: "store_ok (store_contents contents s)"
    and denied: "\<not> co_allow_remote_mutating_commands options"
  shows "\<exists>r s'. process api fs clock options command c s = Some (r, s') \<and> cr_request_id r = cc_request_id command \<and>
    (cc_operation command \<noteq> Read \<longrightarrow> \<not> cr_ok r \<and> cr_records r = []) \<and>
    acked_only c (cc_ack_sequence command) (store_contents contents s) (store_contents contents s')"
proof -
  obtain status t where ack: "ack_of_command api command c s = (status, t)" by fastforce
  note effect = ack_of_command_effect(1) [OF laws ack]
  have t: "store_ok (store_contents contents t)"
  proof (cases "cc_ack_sequence command > 0")
    case True
    then have "run_call api 0 (AckUntil c (cc_ack_sequence command)) s = Some t" using ack by (simp add: ack_of_command_def)
    then show ?thesis using ack_keeps_ok [OF laws ok] by blast
  qed (use ack ok in \<open>simp add: ack_of_command_def\<close>)
  let ?start = "default_result\<lparr>cr_request_id := cc_request_id command, cr_ok := False\<rparr>"
  obtain r where r: "answer_batch api c (batch_size_of options command) ''ok'' ?start t = Some (r, t)"
    "cr_request_id r = cc_request_id command"
    using answer_batch_returns [OF laws t, of c _ _ ?start] by auto
  show ?thesis
    using ack effect r denied
    by (cases status; cases "cc_operation command")
      (auto simp: process_def Let_def remote_mutating_commands_allowed_def run_operation_def default_result_def)
qed

text \<open>
  What a fetch for a consumer starts from: the records it has not acknowledged; after an acknowledgement of
  the greatest number the start key wraps around to zero, and it is the whole outbox.
\<close>

definition to_fetch :: "contents \<Rightarrow> string \<Rightarrow> u64 set" where
  "to_fetch m c = (if acked m c = Some (- 1) then {q. outbox m q \<noteq> None} else unacked m c)"

lemma fetch_from:
  assumes "lmdb_laws api contents" "m = store_contents contents s" "store_ok m"
  shows "fetched m n (to_fetch m c) (fetch_transport_batch_for_consumer api c n s)"
  using fetch_result [OF assms(1,2), of c n] fetch_result_wrapped [OF assms(1,2), of c n] assms(3)
  by (simp add: to_fetch_def store_ok_def)

lemma batch_size_of_pos: "1 \<le> batch_size_of options command"
  by (simp add: batch_size_of_def unat_gt_0 Suc_le_eq less_max_iff_disj)

text \<open>The whole answer to a read that succeeds, and the store after it.\<close>

lemma read_answer_any:
  assumes laws: "lmdb_laws api contents" and ok: "store_ok (store_contents contents s)"
    and read: "cc_operation command = Read"
    and run: "process api fs clock options command c s = Some (r, s')" and m': "m' = store_contents contents s'"
    and fine: "cr_ok r"
  shows "r = default_result\<lparr>cr_request_id := cc_request_id command, cr_ok := True, cr_message := ''ok'',
      cr_records := map (\<lambda>q. record_message (record_at m' q))
        (take (batch_size_of options command) (sorted_list_of_set (to_fetch m' c)))\<rparr>"
    "store_ok m'" "acked_only c (cc_ack_sequence command) (store_contents contents s) m'"
    "cc_ack_sequence command > 0 \<Longrightarrow> acked m' c =
      Some (max (case acked (store_contents contents s) c of None \<Rightarrow> 0 | Some a \<Rightarrow> a) (cc_ack_sequence command))"
proof -
  obtain status where ack: "ack_of_command api command c s = (status, s')" "status_ok status"
    and answer: "answer_batch api c (batch_size_of options command) ''ok''
      (default_result\<lparr>cr_request_id := cc_request_id command, cr_ok := False\<rparr>) s' = Some (r, s')"
    using run read fine
    by (auto simp: process_def Let_def remote_mutating_commands_allowed_def run_operation_def default_result_def
        split: prod.splits sum.splits dest: answer_batch_same)
  show t: "store_ok m'"
  proof (cases "cc_ack_sequence command > 0")
    case True
    then have "run_call api 0 (AckUntil c (cc_ack_sequence command)) s = Some s'" using ack by (simp add: ack_of_command_def)
    then show ?thesis using ack_keeps_ok [OF laws ok] m' by blast
  qed (use ack ok m' in \<open>simp add: ack_of_command_def\<close>)
  let ?n = "max 1 (batch_size_of options command)"
  have n: "?n = batch_size_of options command" using batch_size_of_pos [of options command] by simp
  obtain records where fetch: "fetch_transport_batch_for_consumer api c ?n s' = Some (Inr records)"
    and r: "r = default_result\<lparr>cr_request_id := cc_request_id command, cr_ok := False, cr_records := map record_message records,
      cr_ok := True, cr_message := ''ok''\<rparr>"
    using answer_batch_ok [OF answer fine] by (auto simp: default_result_def)
  have "records = map (record_at m') (take ?n (sorted_list_of_set (to_fetch m' c)))"
    using fetch_from [OF laws m' t, of ?n c] fetch by (simp add: fetched_def)
  then show "r = default_result\<lparr>cr_request_id := cc_request_id command, cr_ok := True, cr_message := ''ok'',
      cr_records := map (\<lambda>q. record_message (record_at m' q))
        (take (batch_size_of options command) (sorted_list_of_set (to_fetch m' c)))\<rparr>"
    using r n by simp
  show "acked_only c (cc_ack_sequence command) (store_contents contents s) m'"
    unfolding m' by (rule ack_of_command_effect(1) [OF laws ack(1)])
  show "acked m' c = Some (max (case acked (store_contents contents s) c of None \<Rightarrow> 0 | Some a \<Rightarrow> a) (cc_ack_sequence command))"
    if "cc_ack_sequence command > 0"
    unfolding m' by (rule ack_of_command_effect(2) [OF laws ack that])
qed

lemma read_answer:
  assumes laws: "lmdb_laws api contents" and ok: "store_ok (store_contents contents s)"
    and read: "cc_operation command = Read" "cc_outbox_batch_size command > 0"
    and run: "process api fs clock options command c s = Some (r, s')" and m': "m' = store_contents contents s'"
    and no_wrap: "acked m' c \<noteq> Some (- 1)" and fine: "cr_ok r"
  shows "r = default_result\<lparr>cr_request_id := cc_request_id command, cr_ok := True, cr_message := ''ok'',
      cr_records := map (\<lambda>q. record_message (record_at m' q))
        (take (unat (cc_outbox_batch_size command)) (sorted_list_of_set (unacked m' c)))\<rparr>"
    "store_ok m'" "acked_only c (cc_ack_sequence command) (store_contents contents s) m'"
    "cc_ack_sequence command > 0 \<Longrightarrow> acked m' c =
      Some (max (case acked (store_contents contents s) c of None \<Rightarrow> 0 | Some a \<Rightarrow> a) (cc_ack_sequence command))"
  using read_answer_any [OF laws ok read(1) run m' fine] no_wrap read(2)
  by (auto simp: to_fetch_def batch_size_of_def)

text \<open>
  C5: a read on a well-formed store answers the next batch.  When the answer is ok, the store's acknowledgement of this
  consumer has become the greater of what it was and what the command acknowledges (a command that acknowledges nothing
  changes nothing), and the answer's records are, in ascending order, those with the least numbers among the records that the
  consumer has not acknowledged then, each with a payload that decodes to the stored one: as many as the command
  asks for, or, when it names no size (zero), as many as the options say, and at least one.  There is one exception,
  which the theorem states: a consumer whose acknowledgement is the greatest 64-bit number is sent the outbox from its beginning.
\<close>

theorem read_answers_next_batch:
  assumes laws: "lmdb_laws api contents" and ok: "store_ok (store_contents contents s)"
    and read: "cc_operation command = Read"
    and run: "process api fs clock options command c s = Some (r, s')" and m': "m' = store_contents contents s'"
    and fine: "cr_ok r"
  shows "cr_records r = map (\<lambda>q. record_message (record_at m' q))
      (take (if cc_outbox_batch_size command = 0 then max 1 (co_default_outbox_batch_size options)
          else unat (cc_outbox_batch_size command))
        (sorted_list_of_set (if acked m' c = Some (- 1) then {q. outbox m' q \<noteq> None} else unacked m' c))) \<and>
    (\<forall>q. base64_decode (tm_payload_b64 (record_message (record_at m' q))) = Some (tr_payload (record_at m' q))) \<and>
    (if cc_ack_sequence command > 0
     then acked m' c = Some (max (case acked (store_contents contents s) c of None \<Rightarrow> 0 | Some a \<Rightarrow> a) (cc_ack_sequence command))
     else m' = store_contents contents s)"
proof -
  have "m' = store_contents contents s" if "\<not> cc_ack_sequence command > 0"
    using run that read fine unfolding m'
    by (auto simp: process_def Let_def ack_of_command_def remote_mutating_commands_allowed_def run_operation_def
        dest: answer_batch_same)
  then show ?thesis
    using read_answer_any [OF laws ok read run m' fine]
    by (simp add: record_message_def base64_decode_encode to_fetch_def batch_size_of_def)
qed

text \<open>
  Whatever a command does, captures, retention and deletion included: it returns (provided that a scan of
  the root it names can be given identifiers), it leaves a sound store, and for every consumer the
  acknowledgement does not go back and the records it has not acknowledged are kept.
\<close>

lemma commands_keep_the_outbox:
  assumes laws: "lmdb_laws api contents" and ok: "store_ok (store_contents contents s)" and room: "room 3 (store_contents contents s)"
    and builds: "\<And>root. resolve_root_path (cc_root_path command) options = Some root \<Longrightarrow>
      \<exists>b. build (scan fs root (co_scan_options options)) default_build_options = Some b"
  shows "\<exists>r s'. process api fs clock options command c s = Some (r, s') \<and>
    store_ok (store_contents contents s') \<and> keeps_delivery (store_contents contents s) (store_contents contents s')"
proof -
  have "\<exists>r s'. process api fs clock options command c s = Some (r, s')"
    using process_returns [OF laws ok room, of command options fs clock c] builds by auto
  then show ?thesis using between_ok [OF laws ok room _ process_calls] by blast
qed

subsection \<open>Examples\<close>

definition sample_options :: crud_server_options where
  "sample_options = \<lparr>co_transport_kind = WebSocket, co_listen_address = ''0.0.0.0'', co_port = 9460, co_websocket_path = ''/muninn'',
    co_health_path = ''/healthz'', co_readiness_path = ''/readyz'', co_metrics_path = ''/metrics'', co_default_root_path = [],
    co_default_outbox_batch_size = 64, co_scan_options = example_options [], co_retention_keep_latest_snapshots = 0,
    co_security_mode = Dev, co_allow_plain_websocket_in_prod = False, co_allow_remote_mutating_commands = False,
    co_allowed_client_instance_id = ''hugin-*'', co_bridge_auth_token = []\<rparr>"

theorem bridge_is_read_only_witness:
  "\<exists>r s'. process (faultless_lmdb (\<lambda>_. [])) sample_tree sample_clock sample_options
      (default_command\<lparr>cc_request_id := ''q'', cc_operation := Delete, cc_snapshot_id := 3\<rparr>) ''c'' sample_store = Some (r, s') \<and>
    \<not> cr_ok r \<and> store_contents list_contents s' kDbSnapshots = list_contents sample_db kDbSnapshots"
proof -
  let ?command = "default_command\<lparr>cc_request_id := ''q'', cc_operation := Delete, cc_snapshot_id := 3\<rparr>"
  have "\<not> co_allow_remote_mutating_commands sample_options" by (simp add: sample_options_def)
  then obtain r s' where "process (faultless_lmdb (\<lambda>_. [])) sample_tree sample_clock sample_options ?command ''c'' sample_store = Some (r, s')"
    "\<not> cr_ok r" and only: "acked_only ''c'' (cc_ack_sequence ?command) (list_contents sample_db) (store_contents list_contents s')"
    using bridge_is_read_only [OF faultless_lmdb_laws [of "\<lambda>_. []"], of sample_store sample_options sample_tree sample_clock ?command "''c''"]
      sample_store_ok by auto
  moreover have "store_contents list_contents s' kDbSnapshots = list_contents sample_db kDbSnapshots"
    using only unfolding acked_only_def by (metis db_names(8))
  ultimately show ?thesis by blast
qed

lemma sample_read:
  "case process (faultless_lmdb (\<lambda>_. [])) sample_tree sample_clock sample_options
      (default_command\<lparr>cc_request_id := ''q''\<rparr>) ''c'' sample_store of None \<Rightarrow> False | Some (r, s') \<Rightarrow> cr_ok r"
  by code_simp

theorem read_answers_next_batch_witness:
  "\<exists>r s'. process (faultless_lmdb (\<lambda>_. [])) sample_tree sample_clock sample_options
      (default_command\<lparr>cc_request_id := ''q''\<rparr>) ''c'' sample_store = Some (r, s') \<and> cr_ok r \<and>
    cr_records r = [record_message (record_at (list_contents sample_db) 1)]"
proof -
  let ?command = "default_command\<lparr>cc_request_id := ''q''\<rparr>"
  obtain r s' where run: "process (faultless_lmdb (\<lambda>_. [])) sample_tree sample_clock sample_options ?command ''c'' sample_store = Some (r, s')"
    "cr_ok r" using sample_read by (auto split: option.splits)
  have s': "s' = sample_store"
    using run(1) by (auto simp: process_def Let_def ack_of_command_def default_command_def run_operation_def
        remote_mutating_commands_allowed_def dest: answer_batch_same)
  have "unacked (list_contents sample_db) ''c'' = {1}"
    by (auto simp: unacked_def)
  then show ?thesis
    using read_answers_next_batch [OF faultless_lmdb_laws [of "\<lambda>_. []"] _ _ run(1) refl run(2)] run sample_store_ok
    by (simp add: s' default_command_def)
qed

lemma commands_keep_the_outbox_witness:
  "\<exists>r s'. process (faultless_lmdb (\<lambda>_. [])) sample_tree sample_clock (sample_options\<lparr>co_allow_remote_mutating_commands := True\<rparr>)
      (default_command\<lparr>cc_request_id := ''q'', cc_operation := Create, cc_root_path := ''/r'', cc_ack_sequence := 1\<rparr>) ''d'' sample_store = Some (r, s') \<and>
    store_ok (store_contents list_contents s') \<and> (\<exists>a'. acked (store_contents list_contents s') ''c'' = Some a' \<and>
      (outbox (store_contents list_contents s') 1 = Some sample_frame \<or> 1 \<le> a'))"
proof -
  let ?command = "default_command\<lparr>cc_request_id := ''q'', cc_operation := Create, cc_root_path := ''/r'', cc_ack_sequence := 1\<rparr>"
  let ?options = "sample_options\<lparr>co_allow_remote_mutating_commands := True\<rparr>"
  have "\<exists>b. build (scan sample_tree root (co_scan_options ?options)) default_build_options = Some b"
    if "resolve_root_path (cc_root_path ?command) ?options = Some root" for root
    using that sample_builds by (simp add: resolve_root_path_def sample_options_def)
  then obtain r s' where run: "process (faultless_lmdb (\<lambda>_. [])) sample_tree sample_clock ?options ?command ''d'' sample_store = Some (r, s')"
    "store_ok (store_contents list_contents s')" "keeps_delivery (list_contents sample_db) (store_contents list_contents s')"
    using commands_keep_the_outbox [OF faultless_lmdb_laws [of "\<lambda>_. []"], of sample_store ?command ?options sample_tree sample_clock "''d''"]
      sample_store_ok sample_room [of 3] by auto
  have "acked (list_contents sample_db) ''c'' = Some 0" "outbox (list_contents sample_db) 1 = Some sample_frame" by simp_all
  then show ?thesis using run unfolding keeps_delivery_def by blast
qed

end
