(* ===== verification/WsSession.thy ===== *)
theory WsSession imports CrudProcessor begin

text \<open>
  Muninn's WebSocket server, \<open>src/backend/Muninn/transport/ws_crud_server.cpp\<close>: which HTTP requests it
  answers or upgrades, and the session of one connection: the hello with its checks, acknowledgements,
  commands, and the queue of outgoing frames.

  The networking library is a parameter where it answers questions (whether a request is an upgrade, which
  step of listening fails); what it is asked to write is recorded in the session.  A callback runs to its
  end before the next one of its session.  An exception that leaves a callback is the outcome
  \<open>Exception\<close>; nothing in the program catches it.
\<close>

subsection \<open>Outcomes of a callback\<close>

datatype 'a outcome = Exception | Endless | Returned 'a

definition or_throw :: "'a option \<Rightarrow> ('a \<Rightarrow> 'b outcome) \<Rightarrow> 'b outcome" where
  "or_throw x f = (case x of None \<Rightarrow> Exception | Some a \<Rightarrow> f a)"

lemma or_throw_simps [simp]: "or_throw None f = Exception" "or_throw (Some a) f = f a"
  by (simp_all add: or_throw_def)

lemma or_throw_Returned: "or_throw x f = Returned r \<longleftrightarrow> (\<exists>a. x = Some a \<and> f a = Returned r)"
  by (cases x) simp_all

subsection \<open>Checks\<close>

definition client_instance_allowed :: "string \<Rightarrow> string \<Rightarrow> bool" where
  "client_instance_allowed configured_pattern client_instance_id =
    (if configured_pattern = [] then True
     else if last configured_pattern = CHR ''*''
     then (let prefix = take (length configured_pattern - 1) configured_pattern
       in length client_instance_id \<ge> length prefix \<and> take (length prefix) client_instance_id = prefix)
     else client_instance_id = configured_pattern)"

definition validate_bridge_auth_token :: "hello_message \<Rightarrow> crud_server_options \<Rightarrow> string option" where
  "validate_bridge_auth_token hello options =
    (if co_security_mode options = Prod \<and> co_bridge_auth_token options = []
     then Some ''server bridge auth token is not configured.''
     else if co_security_mode options = Prod \<and> hm_auth_token hello = []
     then Some ''bridge auth token is required in production mode.''
     else if co_bridge_auth_token options \<noteq> [] \<and> hm_auth_token hello \<noteq> co_bridge_auth_token options
     then Some ''bridge auth token mismatch.''
     else None)"

definition make_error_result :: "string \<Rightarrow> string \<Rightarrow> crud_result" where
  "make_error_result request_id message = default_result\<lparr>cr_request_id := request_id, cr_ok := False, cr_message := message\<rparr>"

definition request_path_from_target :: "string \<Rightarrow> string" where
  "request_path_from_target target = takeWhile (\<lambda>c. c \<noteq> CHR ''?'') target"

subsection \<open>HTTP requests\<close>

record http_response =
  hr_status :: nat
  hr_content_type :: string
  hr_body :: string

datatype upgrade_decision = Ignore | Respond http_response | Accept

definition newline :: string where "newline = [CHR 0x0A]"

definition metrics_body :: "store_stats \<Rightarrow> string" where
  "metrics_body stats =
    ''# HELP muninn_metrics_up Whether Muninn metrics are available.'' @ newline @
    ''# TYPE muninn_metrics_up gauge'' @ newline @
    ''muninn_metrics_up 1'' @ newline @
    ''# TYPE muninn_snapshots_count gauge'' @ newline @
    ''muninn_snapshots_count '' @ show_nat (ss_snapshots_count stats) @ newline @
    ''# TYPE muninn_deltas_count gauge'' @ newline @
    ''muninn_deltas_count '' @ show_nat (ss_deltas_count stats) @ newline @
    ''# TYPE muninn_transport_outbox_count gauge'' @ newline @
    ''muninn_transport_outbox_count '' @ show_nat (ss_transport_outbox_count stats) @ newline @
    ''# TYPE muninn_transport_consumers_count gauge'' @ newline @
    ''muninn_transport_consumers_count '' @ show_nat (ss_transport_consumers_count stats) @ newline @
    ''# TYPE muninn_next_transport_sequence gauge'' @ newline @
    ''muninn_next_transport_sequence '' @ show_word (ss_next_transport_sequence stats) @ newline"

definition readiness_json :: "'j json_api \<Rightarrow> store_stats store_result \<Rightarrow> 'j" where
  "readiness_json js stats_status =
    (case stats_status of
       Inl e \<Rightarrow> js_object js
         [(''service'', js_string js ''muninn''), (''ready'', js_bool js False), (''error'', js_string js (sf_message e))]
     | Inr stats \<Rightarrow> js_object js
         [(''service'', js_string js ''muninn''), (''ready'', js_bool js True),
          (''snapshots_count'', js_number js (of_nat (ss_snapshots_count stats))),
          (''deltas_count'', js_number js (of_nat (ss_deltas_count stats))),
          (''transport_outbox_count'', js_number js (of_nat (ss_transport_outbox_count stats))),
          (''transport_consumers_count'', js_number js (of_nat (ss_transport_consumers_count stats))),
          (''next_transport_sequence'', js_number js (ss_next_transport_sequence stats))])"

definition path_matches :: "string \<Rightarrow> string \<Rightarrow> bool" where
  "path_matches requested_path configured_path \<longleftrightarrow> configured_path \<noteq> [] \<and> requested_path = configured_path"

definition json_type :: string where "json_type = ''application/json; charset=utf-8''"
definition metrics_type :: string where "metrics_type = ''text/plain; version=0.0.4; charset=utf-8''"

definition handle_operational_http_request ::
  "'j json_api \<Rightarrow> 'e lmdb_api \<Rightarrow> crud_server_options \<Rightarrow> bool \<Rightarrow> string \<Rightarrow> 'e lmdb_handle \<Rightarrow> http_response option outcome" where
  "handle_operational_http_request js api options is_get target h =
    (let requested_path = request_path_from_target target; stats_status = get_stats api h
     in if \<not> is_get then Returned None
        else if path_matches requested_path (co_health_path options)
        then or_throw (json_to_text js (js_object js
            [(''service'', js_string js ''muninn''), (''status'', js_string js ''ok''), (''mode'', js_string js ''live'')]))
          (\<lambda>body. Returned (Some \<lparr>hr_status = 200, hr_content_type = json_type, hr_body = body\<rparr>))
        else if path_matches requested_path (co_readiness_path options)
        then or_throw (json_to_text js (readiness_json js stats_status))
          (\<lambda>body. Returned (Some \<lparr>hr_status = (if status_ok stats_status then 200 else 503), hr_content_type = json_type, hr_body = body\<rparr>))
        else if path_matches requested_path (co_metrics_path options)
        then Returned (Some (case stats_status of
            Inl _ \<Rightarrow> \<lparr>hr_status = 503, hr_content_type = metrics_type,
              hr_body = ''# muninn metrics unavailable'' @ newline @ ''muninn_metrics_up 0'' @ newline\<rparr>
          | Inr stats \<Rightarrow> \<lparr>hr_status = 200, hr_content_type = metrics_type, hr_body = metrics_body stats\<rparr>))
        else Returned None)"

definition reject_upgrade :: "nat \<Rightarrow> string \<Rightarrow> upgrade_decision" where
  "reject_upgrade status message = Respond \<lparr>hr_status = status, hr_content_type = ''text/plain; charset=utf-8'', hr_body = message\<rparr>"

definition on_upgrade_request ::
  "'j json_api \<Rightarrow> 'e lmdb_api \<Rightarrow> crud_server_options \<Rightarrow> bool \<Rightarrow> bool \<Rightarrow> bool \<Rightarrow> string \<Rightarrow> 'e lmdb_handle \<Rightarrow> upgrade_decision outcome" where
  "on_upgrade_request js api options error is_upgrade is_get target h =
    (if error then Returned Ignore
     else if \<not> is_upgrade
     then (case handle_operational_http_request js api options is_get target h of
         Exception \<Rightarrow> Exception
       | Endless \<Rightarrow> Endless
       | Returned (Some response) \<Rightarrow> Returned (Respond response)
       | Returned None \<Rightarrow> Returned (reject_upgrade 400 ''WebSocket upgrade is required.''))
     else if co_websocket_path options \<noteq> [] \<and> request_path_from_target target \<noteq> co_websocket_path options
     then Returned (reject_upgrade 404 ''WebSocket path not found.'')
     else Returned Accept)"

subsection \<open>The queue of outgoing frames\<close>

text \<open>\<open>ws_started\<close> records, in order, the frames that were given to \<open>async_write\<close>.\<close>

record ws_session =
  ws_hello_accepted :: bool
  ws_peer_host_id :: string
  ws_peer_client_instance_id :: string
  ws_consumer_id :: string
  ws_write_queue :: "string list"
  ws_started :: "string list"

definition fresh_session :: ws_session where
  "fresh_session = \<lparr>ws_hello_accepted = False, ws_peer_host_id = [], ws_peer_client_instance_id = [],
    ws_consumer_id = [], ws_write_queue = [], ws_started = []\<rparr>"

definition ws_do_write :: "ws_session \<Rightarrow> ws_session" where
  "ws_do_write s = (if ws_write_queue s = [] then s else s\<lparr>ws_started := ws_started s @ [hd (ws_write_queue s)]\<rparr>)"

definition ws_enqueue_text :: "string \<Rightarrow> ws_session \<Rightarrow> ws_session" where
  "ws_enqueue_text payload s =
    (let idle = (ws_write_queue s = []); s = s\<lparr>ws_write_queue := ws_write_queue s @ [payload]\<rparr>
     in if idle then ws_do_write s else s)"

definition ws_on_write :: "bool \<Rightarrow> ws_session \<Rightarrow> ws_session" where
  "ws_on_write error s =
    (if error then s
     else (let s = s\<lparr>ws_write_queue := tl (ws_write_queue s)\<rparr>
       in if ws_write_queue s \<noteq> [] then ws_do_write s else s))"

definition enqueue_json :: "'j json_api \<Rightarrow> 'j \<Rightarrow> ws_session \<times> 'e lmdb_handle \<Rightarrow> (ws_session \<times> 'e lmdb_handle) outcome" where
  "enqueue_json js payload c = or_throw (json_to_text js payload) (\<lambda>text. Returned (ws_enqueue_text text (fst c), snd c))"

definition enqueue_result :: "'j json_api \<Rightarrow> crud_result \<Rightarrow> ws_session \<times> 'e lmdb_handle \<Rightarrow> (ws_session \<times> 'e lmdb_handle) outcome" where
  "enqueue_result js r c = enqueue_json js (crud_result_to_json js r) c"

subsection \<open>Messages\<close>

text \<open>The reason for which a hello is refused before the store is asked, if any.\<close>

definition hello_refusal :: "crud_server_options \<Rightarrow> hello_message \<Rightarrow> string option" where
  "hello_refusal options hello =
    (if hm_client_instance_id hello = [] then Some ''client_instance_id is required.''
     else if \<not> client_instance_allowed (co_allowed_client_instance_id options) (hm_client_instance_id hello)
     then Some ''client_instance_id is not allowed.''
     else validate_bridge_auth_token hello options)"

definition handle_hello ::
  "'j json_api \<Rightarrow> 'e lmdb_api \<Rightarrow> crud_server_options \<Rightarrow> 'j \<Rightarrow> ws_session \<times> 'e lmdb_handle \<Rightarrow>
    (ws_session \<times> 'e lmdb_handle) outcome" where
  "handle_hello js api options payload c =
    (let refuse = (\<lambda>reason h. enqueue_json js
           (hello_ack_to_json js (default_hello_ack\<lparr>ha_accepted := False, ha_reason := reason\<rparr>)) (fst c, h))
     in or_throw (parse_hello js payload) (\<lambda>parsed. case parsed of
       None \<Rightarrow> refuse ''Invalid hello payload.'' (snd c)
     | Some hello \<Rightarrow> (case hello_refusal options hello of
         Some reason \<Rightarrow> refuse reason (snd c)
       | None \<Rightarrow>
           (let consumer_id = hm_client_instance_id hello @ '':'' @ hm_host_id hello
            in case register_transport_consumer api consumer_id (snd c) of
                 (Inl e, h) \<Rightarrow> refuse ''failed to initialize transport consumer state.'' h
               | (Inr _, h) \<Rightarrow> enqueue_json js
                   (hello_ack_to_json js (default_hello_ack\<lparr>ha_accepted := True, ha_reason := []\<rparr>))
                   ((fst c)\<lparr>ws_hello_accepted := True, ws_peer_host_id := hm_host_id hello,
                      ws_peer_client_instance_id := hm_client_instance_id hello, ws_consumer_id := consumer_id\<rparr>, h)))))"

definition handle_ingest_ack ::
  "'j json_api \<Rightarrow> 'e lmdb_api \<Rightarrow> 'j \<Rightarrow> ws_session \<times> 'e lmdb_handle \<Rightarrow> (ws_session \<times> 'e lmdb_handle) outcome" where
  "handle_ingest_ack js api payload c =
    or_throw (parse_ingest_ack js payload) (\<lambda>parsed. case parsed of
      None \<Rightarrow> enqueue_result js (make_error_result [] ''Invalid ingest_ack payload.'') c
    | Some ack \<Rightarrow>
        if \<not> ia_ok ack \<or> ia_ack_sequence ack = 0 then Returned c
        else (case ack_transport_until_for_consumer api (ws_consumer_id (fst c)) (ia_ack_sequence ack) (snd c) of
            (Inl e, h) \<Rightarrow> enqueue_result js (make_error_result (ia_request_id ack) (sf_message e)) (fst c, h)
          | (Inr _, h) \<Rightarrow> Returned (fst c, h)))"

definition handle_command ::
  "'j json_api \<Rightarrow> 'e lmdb_api \<Rightarrow> file_system \<Rightarrow> clock_readings \<Rightarrow> crud_server_options \<Rightarrow> 'j \<Rightarrow> ws_session \<times> 'e lmdb_handle \<Rightarrow>
    (ws_session \<times> 'e lmdb_handle) outcome" where
  "handle_command js api fs clock options payload c =
    or_throw (parse_crud_command js payload) (\<lambda>parsed. case parsed of
      None \<Rightarrow> enqueue_result js (make_error_result [] ''Invalid crud_command payload.'') c
    | Some command \<Rightarrow>
        (case process api fs clock options command (ws_consumer_id (fst c)) (snd c) of
           None \<Rightarrow> Endless
         | Some (r, h) \<Rightarrow> enqueue_result js r (fst c, h)))"

text \<open>Messages that need an accepted hello are answered with an error before it.\<close>

definition before_hello :: "'j json_api \<Rightarrow> string \<Rightarrow> 'j \<Rightarrow> ws_session \<times> 'e lmdb_handle \<Rightarrow> (ws_session \<times> 'e lmdb_handle) outcome" where
  "before_hello js message payload c =
    or_throw (js_value_string js payload ''request_id'' []) (\<lambda>request_id. enqueue_result js (make_error_result request_id message) c)"

definition ws_handle_message ::
  "'j json_api \<Rightarrow> 'e lmdb_api \<Rightarrow> file_system \<Rightarrow> clock_readings \<Rightarrow> crud_server_options \<Rightarrow> string \<Rightarrow> ws_session \<times> 'e lmdb_handle \<Rightarrow>
    (ws_session \<times> 'e lmdb_handle) outcome" where
  "ws_handle_message js api fs clock options payload c =
    (case text_to_json js payload of
       None \<Rightarrow> enqueue_result js (make_error_result [] ''Malformed JSON message.'') c
     | Some json \<Rightarrow>
         if \<not> js_is_object js json then enqueue_result js (make_error_result [] ''Malformed JSON message.'') c
         else or_throw (js_value_string js json ''type'' []) (\<lambda>type.
           if type = ''hello'' then handle_hello js api options json c
           else if type = ''ingest_ack''
           then (if \<not> ws_hello_accepted (fst c) then before_hello js ''hello must be completed before ingest_ack.'' json c
                 else handle_ingest_ack js api json c)
           else if type = ''crud_command''
           then (if \<not> ws_hello_accepted (fst c) then before_hello js ''hello must be completed before crud_command.'' json c
                 else handle_command js api fs clock options json c)
           else enqueue_result js (make_error_result [] ''Unsupported message type.'') c))"

text \<open>What a connection does: messages that arrive, and writes that complete.\<close>

datatype ws_event = Message string clock_readings | Written bool

fun ws_handle_event :: "'j json_api \<Rightarrow> 'e lmdb_api \<Rightarrow> file_system \<Rightarrow> crud_server_options \<Rightarrow> ws_event \<Rightarrow> ws_session \<times> 'e lmdb_handle \<Rightarrow>
    (ws_session \<times> 'e lmdb_handle) outcome" where
  "ws_handle_event js api fs options (Message payload clock) c = ws_handle_message js api fs clock options payload c"
| "ws_handle_event js api fs options (Written error) c = Returned (ws_on_write error (fst c), snd c)"

fun ws_run :: "'j json_api \<Rightarrow> 'e lmdb_api \<Rightarrow> file_system \<Rightarrow> crud_server_options \<Rightarrow> ws_event list \<Rightarrow> ws_session \<times> 'e lmdb_handle \<Rightarrow>
    (ws_session \<times> 'e lmdb_handle) outcome" where
  "ws_run js api fs options [] c = Returned c"
| "ws_run js api fs options (e # es) c =
    (case ws_handle_event js api fs options e c of
       Exception \<Rightarrow> Exception
     | Endless \<Rightarrow> Endless
     | Returned c \<Rightarrow> ws_run js api fs options es c)"

subsection \<open>Listening\<close>

record acceptor_api =
  ac_make_address :: "string \<Rightarrow> (string \<times> int) option"
  ac_open :: "(string \<times> int) option"
  ac_set_option :: "(string \<times> int) option"
  ac_bind :: "u16 \<Rightarrow> (string \<times> int) option"
  ac_listen :: "(string \<times> int) option"

definition io_failure :: "string \<Rightarrow> string \<times> int \<Rightarrow> store_failure" where
  "io_failure context error = store_error store_error_code.IoFailure
    (context @ '' failed: '' @ fst error @ '' (code='' @ show_int (snd error) @ '')'')"

definition ws_step :: "string \<Rightarrow> (string \<times> int) option \<Rightarrow> unit store_result" where
  "ws_step context error = (case error of None \<Rightarrow> Inr () | Some e \<Rightarrow> Inl (io_failure context e))"

definition ws_start :: "acceptor_api \<Rightarrow> crud_server_options \<Rightarrow> bool \<Rightarrow> unit store_result \<times> bool" where
  "ws_start acceptor options running =
    (if running then (Inr (), True)
     else if co_security_mode options = Prod \<and> co_bridge_auth_token options = []
     then (Inl (store_error store_error_code.InvalidArgument ''bridge_auth_token is required when security mode is prod.''), False)
     else if co_security_mode options = Prod \<and> \<not> co_allow_plain_websocket_in_prod options
     then (Inl (store_error store_error_code.InvalidArgument
       ''allow_plain_websocket_in_prod must be explicitly enabled in prod mode when TLS is terminated externally.''), False)
     else (case sum_bind (ws_step ''make_address'' (ac_make_address acceptor (co_listen_address options))) (\<lambda>_.
         sum_bind (ws_step ''acceptor.open'' (ac_open acceptor)) (\<lambda>_.
         sum_bind (ws_step ''acceptor.set_option'' (ac_set_option acceptor)) (\<lambda>_.
         sum_bind (ws_step ''acceptor.bind'' (ac_bind acceptor (co_port options))) (\<lambda>_.
         ws_step ''acceptor.listen'' (ac_listen acceptor))))) of
         Inl e \<Rightarrow> (Inl e, False)
       | Inr _ \<Rightarrow> (Inr (), True)))"

subsection \<open>Frames go out in order\<close>

text \<open>The frames of a session, written or waiting, in the order in which they were enqueued.\<close>

definition ws_frames :: "ws_session \<Rightarrow> string list" where
  "ws_frames s = ws_started s @ drop 1 (ws_write_queue s)"

lemma ws_frames_enqueue [simp]: "ws_frames (ws_enqueue_text text s) = ws_frames s @ [text]"
  by (cases "ws_write_queue s") (simp_all add: ws_frames_def ws_enqueue_text_def ws_do_write_def)

lemma ws_frames_on_write [simp]: "ws_frames (ws_on_write error s) = ws_frames s"
  by (cases "ws_write_queue s"; cases "tl (ws_write_queue s)") (simp_all add: ws_frames_def ws_on_write_def ws_do_write_def Let_def)

lemma ws_enqueue_select [simp]:
  "ws_hello_accepted (ws_enqueue_text text s) = ws_hello_accepted s" "ws_consumer_id (ws_enqueue_text text s) = ws_consumer_id s"
  "ws_hello_accepted (ws_on_write error s) = ws_hello_accepted s" "ws_consumer_id (ws_on_write error s) = ws_consumer_id s"
  by (simp_all add: ws_enqueue_text_def ws_on_write_def ws_do_write_def Let_def)

lemma enqueue_json_Returned:
  "enqueue_json js payload c = Returned c' \<Longrightarrow>
    \<exists>text. json_to_text js payload = Some text \<and> c' = (ws_enqueue_text text (fst c), snd c)"
  by (auto simp: enqueue_json_def or_throw_Returned)

text \<open>After a frame was enqueued the rest of the connection is as before.\<close>

definition only_wrote :: "ws_session \<times> 'e lmdb_handle \<Rightarrow> ws_session \<times> 'e lmdb_handle \<Rightarrow> bool" where
  "only_wrote c c' \<longleftrightarrow> snd c' = snd c \<and> ws_hello_accepted (fst c') = ws_hello_accepted (fst c) \<and>
    ws_consumer_id (fst c') = ws_consumer_id (fst c) \<and> (\<exists>texts. ws_frames (fst c') = ws_frames (fst c) @ texts)"

lemma enqueue_only_wrote: "enqueue_json js payload c = Returned c' \<Longrightarrow> only_wrote c c'"
  by (auto simp: only_wrote_def dest!: enqueue_json_Returned)

lemma enqueue_result_only_wrote: "enqueue_result js r c = Returned c' \<Longrightarrow> only_wrote c c'"
  by (auto simp: enqueue_result_def intro: enqueue_only_wrote)

lemma only_wrote_refl [simp]: "only_wrote c c"
  by (simp add: only_wrote_def)

lemma before_hello_only_wrote: "before_hello js message payload c = Returned c' \<Longrightarrow> only_wrote c c'"
  by (auto simp: before_hello_def or_throw_Returned intro: enqueue_result_only_wrote)

subsection \<open>A peer without a valid hello\<close>

text \<open>The hello that a payload carries, if it carries one.\<close>

definition hello_in :: "'j json_api \<Rightarrow> string \<Rightarrow> hello_message option" where
  "hello_in js payload = (case text_to_json js payload of None \<Rightarrow> None
    | Some json \<Rightarrow> (case parse_hello js json of Some (Some hello) \<Rightarrow> Some hello | _ \<Rightarrow> None))"

definition unauthenticated :: "'j json_api \<Rightarrow> crud_server_options \<Rightarrow> ws_event \<Rightarrow> bool" where
  "unauthenticated js options event = (case event of Written _ \<Rightarrow> True
    | Message payload _ \<Rightarrow> (case hello_in js payload of None \<Rightarrow> True | Some hello \<Rightarrow> hello_refusal options hello \<noteq> None))"

lemma refused_hello_only_wrote:
  assumes "handle_hello js api options json c = Returned c'"
    and "case parse_hello js json of Some (Some hello) \<Rightarrow> hello_refusal options hello \<noteq> None | _ \<Rightarrow> True"
  shows "only_wrote c c'"
  using assms by (cases "parse_hello js json")
    (auto simp: handle_hello_def Let_def split: option.splits dest!: enqueue_only_wrote)

lemma unauthenticated_event:
  assumes "unauthenticated js options event" "\<not> ws_hello_accepted (fst c)"
    and run: "ws_handle_event js api fs options event c = Returned c'"
  shows "only_wrote c c'"
proof (cases event)
  case (Written error)
  then show ?thesis using run by (auto simp: only_wrote_def)
next
  case (Message payload clock)
  then have run': "ws_handle_message js api fs clock options payload c = Returned c'" using run by simp
  show ?thesis
  proof (cases "text_to_json js payload")
    case None
    then show ?thesis using run' by (auto simp: ws_handle_message_def intro: enqueue_result_only_wrote)
  next
    case (Some json)
    have "case parse_hello js json of Some (Some hello) \<Rightarrow> hello_refusal options hello \<noteq> None | _ \<Rightarrow> True"
      using assms(1) Some by (auto simp: unauthenticated_def hello_in_def Message split: option.splits)
    then show ?thesis
      using run' assms(2) Some
      by (auto simp: ws_handle_message_def or_throw_Returned split: if_splits
          dest: refused_hello_only_wrote enqueue_result_only_wrote before_hello_only_wrote)
  qed
qed

lemma only_wrote_trans: "only_wrote a b \<Longrightarrow> only_wrote b c \<Longrightarrow> only_wrote a c"
  by (auto simp: only_wrote_def)

lemma unauthenticated_run:
  "list_all (unauthenticated js options) events \<Longrightarrow> \<not> ws_hello_accepted (fst c) \<Longrightarrow>
    ws_run js api fs options events c = Returned c' \<Longrightarrow> only_wrote c c'"
proof (induction events arbitrary: c)
  case (Cons event events)
  then obtain d where d: "ws_handle_event js api fs options event c = Returned d" "ws_run js api fs options events d = Returned c'"
    by (auto split: outcome.splits)
  then have "only_wrote c d" using unauthenticated_event Cons.prems(1,2) by fastforce
  moreover have "only_wrote d c'"
    using Cons.IH [OF _ _ d(2)] Cons.prems(1,2) calculation by (auto simp: only_wrote_def)
  ultimately show ?case by (rule only_wrote_trans)
qed simp

subsection \<open>A session and the store\<close>

lemma enqueue_result_store: "enqueue_result js r c = Returned c' \<Longrightarrow> snd c' = snd c"
  using enqueue_result_only_wrote [of js r c c'] by (simp add: only_wrote_def)

lemma enqueue_json_store: "enqueue_json js payload c = Returned c' \<Longrightarrow> snd c' = snd c"
  using enqueue_only_wrote [of js payload c c'] by (simp add: only_wrote_def)

lemma handle_hello_cases:
  assumes run: "handle_hello js api options json c = Returned c'"
  shows "only_wrote c c' \<or> (\<exists>cid h e. register_transport_consumer api cid (snd c) = (Inl e, h) \<and> only_wrote (fst c, h) c') \<or>
    (\<exists>hello h. hello_refusal options hello = None \<and>
      register_transport_consumer api (hm_client_instance_id hello @ '':'' @ hm_host_id hello) (snd c) = (Inr (), h) \<and>
      only_wrote ((fst c)\<lparr>ws_hello_accepted := True, ws_peer_host_id := hm_host_id hello,
        ws_peer_client_instance_id := hm_client_instance_id hello,
        ws_consumer_id := hm_client_instance_id hello @ '':'' @ hm_host_id hello\<rparr>, h) c')"
proof -
  obtain parsed where parsed: "parse_hello js json = Some parsed" using run by (auto simp: handle_hello_def Let_def or_throw_Returned)
  show ?thesis
  proof (cases parsed)
    case None
    then show ?thesis using run parsed by (auto simp: handle_hello_def Let_def dest: enqueue_only_wrote)
  next
    case (Some hello)
    obtain status h where reg: "register_transport_consumer api (hm_client_instance_id hello @ '':'' @ hm_host_id hello) (snd c) = (status, h)"
      by fastforce
    show ?thesis
    proof (cases "hello_refusal options hello")
      case None
      show ?thesis
      proof (cases status)
        case (Inl e)
        then have "only_wrote (fst c, h) c'"
          using run parsed Some reg None by (auto simp: handle_hello_def Let_def dest: enqueue_only_wrote)
        then show ?thesis using reg Inl by blast
      next
        case (Inr u)
        then have "enqueue_json js (hello_ack_to_json js (default_hello_ack\<lparr>ha_accepted := True, ha_reason := []\<rparr>))
            ((fst c)\<lparr>ws_hello_accepted := True, ws_peer_host_id := hm_host_id hello,
              ws_peer_client_instance_id := hm_client_instance_id hello,
              ws_consumer_id := hm_client_instance_id hello @ '':'' @ hm_host_id hello\<rparr>, h) = Returned c'"
          using run parsed Some reg None by (auto simp: handle_hello_def Let_def)
        moreover have "register_transport_consumer api (hm_client_instance_id hello @ '':'' @ hm_host_id hello) (snd c) = (Inr (), h)"
          using reg Inr by simp
        ultimately show ?thesis using None by - (rule disjI2, rule disjI2, blast intro: enqueue_only_wrote)
      qed
    next
      case refused: (Some reason)
      then show ?thesis using run parsed Some by (auto simp: handle_hello_def Let_def dest: enqueue_only_wrote)
    qed
  qed
qed

lemma handle_ingest_ack_cases:
  assumes run: "handle_ingest_ack js api json c = Returned c'"
  shows "only_wrote c c' \<or> (\<exists>q status h. ack_transport_until_for_consumer api (ws_consumer_id (fst c)) q (snd c) = (status, h) \<and>
    only_wrote (fst c, h) c')"
proof -
  obtain parsed where parsed: "parse_ingest_ack js json = Some parsed" using run by (auto simp: handle_ingest_ack_def or_throw_Returned)
  show ?thesis
  proof (cases parsed)
    case None
    then show ?thesis using run parsed by (auto simp: handle_ingest_ack_def dest: enqueue_result_only_wrote)
  next
    case (Some ack)
    obtain status h where "ack_transport_until_for_consumer api (ws_consumer_id (fst c)) (ia_ack_sequence ack) (snd c) = (status, h)"
      by fastforce
    then have "only_wrote c c' \<or> only_wrote (fst c, h) c'" using run parsed Some
      by (cases status) (auto simp: handle_ingest_ack_def split: if_splits dest: enqueue_result_only_wrote)
    then show ?thesis
      using \<open>ack_transport_until_for_consumer api (ws_consumer_id (fst c)) (ia_ack_sequence ack) (snd c) = (status, h)\<close> by blast
  qed
qed

lemma handle_command_cases:
  assumes run: "handle_command js api fs clock options json c = Returned c'"
  shows "only_wrote c c' \<or> (\<exists>command r h. parse_crud_command js json = Some (Some command) \<and>
    process api fs clock options command (ws_consumer_id (fst c)) (snd c) = Some (r, h) \<and> only_wrote (fst c, h) c')"
proof -
  obtain parsed where parsed: "parse_crud_command js json = Some parsed" using run by (auto simp: handle_command_def or_throw_Returned)
  show ?thesis
  proof (cases parsed)
    case None
    then show ?thesis using run parsed by (auto simp: handle_command_def dest: enqueue_result_only_wrote)
  next
    case (Some command)
    then show ?thesis using run parsed
      by (cases "process api fs clock options command (ws_consumer_id (fst c)) (snd c)")
        (auto simp: handle_command_def dest: enqueue_result_only_wrote)
  qed
qed

text \<open>What one message does to the store and to the identity of the session.\<close>

lemma message_effect:
  assumes run: "ws_handle_message js api fs clock options payload c = Returned c'"
  shows "calls_between api (ck_validate clock) 3 (snd c) (snd c') \<and>
    (ws_hello_accepted (fst c') = ws_hello_accepted (fst c) \<and> ws_consumer_id (fst c') = ws_consumer_id (fst c) \<or>
     (\<exists>hello. hello_refusal options hello = None \<and> ws_consumer_id (fst c') = hm_client_instance_id hello @ '':'' @ hm_host_id hello \<and>
       register_transport_consumer api (ws_consumer_id (fst c')) (snd c) = (Inr (), snd c')))"
proof (cases "text_to_json js payload")
  case None
  then show ?thesis using run by (auto simp: ws_handle_message_def only_wrote_def dest!: enqueue_result_only_wrote)
next
  case (Some json)
  note one = calls_more [of api "ck_validate clock" "Suc 0" _ _ 3]
  consider "only_wrote c c'" | "handle_hello js api options json c = Returned c'"
    | "handle_ingest_ack js api json c = Returned c'" | "handle_command js api fs clock options json c = Returned c'"
    using run Some by (auto simp: ws_handle_message_def or_throw_Returned split: if_splits
        dest: enqueue_result_only_wrote before_hello_only_wrote)
  then show ?thesis
  proof cases
    case 1
    then show ?thesis by (auto simp: only_wrote_def)
  next
    case 2
    from handle_hello_cases [OF 2] show ?thesis by (auto simp: only_wrote_def intro: one dest: store_call_between(4))
  next
    case 3
    from handle_ingest_ack_cases [OF 3] show ?thesis by (auto simp: only_wrote_def intro: one dest: store_call_between(3))
  next
    case 4
    from handle_command_cases [OF 4] show ?thesis by (auto simp: only_wrote_def dest: process_calls)
  qed
qed

lemma calls_room:
  assumes laws: "lmdb_laws api contents"
  shows "store_ok (store_contents contents s) \<Longrightarrow> room (length calls + k) (store_contents contents s) \<Longrightarrow>
    run_calls api now calls s = Some t \<Longrightarrow> room k (store_contents contents t)"
proof (induction calls arbitrary: s)
  case (Cons call calls)
  have "room 1 (store_contents contents s)" using Cons.prems(2) by (simp add: room_def)
  then obtain u where u: "run_call api now call s = Some u" "step_ok (store_contents contents s) (store_contents contents u)"
    using run_call_step [OF laws Cons.prems(1)] by blast
  moreover have "store_ok (store_contents contents u)" using u(2) by (simp add: step_ok_def)
  moreover have "room (length calls + k) (store_contents contents u)" using step_ok_room [OF u(2)] Cons.prems(2) by simp
  ultimately show ?case using Cons.IH Cons.prems(3) by simp
qed simp

lemma between_room:
  assumes laws: "lmdb_laws api contents" and ok: "store_ok (store_contents contents s)" and room: "room (n + k) (store_contents contents s)"
    and run: "calls_between api now n s t"
  shows "room k (store_contents contents t)"
proof -
  obtain calls where calls: "length calls \<le> n" "run_calls api now calls s = Some t" using run by (auto simp: calls_between_def)
  then have "room (length calls + k) (store_contents contents s)" using room by (simp add: room_def)
  then show ?thesis using calls_room [OF laws ok _ calls(2)] by blast
qed

text \<open>What an accepted session rests on.\<close>

definition session_ok :: "crud_server_options \<Rightarrow> contents \<Rightarrow> ws_session \<Rightarrow> bool" where
  "session_ok options m s \<longleftrightarrow> (ws_hello_accepted s \<longrightarrow> (\<exists>hello. hello_refusal options hello = None \<and>
    ws_consumer_id s = hm_client_instance_id hello @ '':'' @ hm_host_id hello \<and> acked m (ws_consumer_id s) \<noteq> None))"

lemma session_ok_later:
  "session_ok options m s \<Longrightarrow> keeps_delivery m m' \<Longrightarrow> ws_hello_accepted s' = ws_hello_accepted s \<Longrightarrow>
    ws_consumer_id s' = ws_consumer_id s \<Longrightarrow> session_ok options m' s'"
  unfolding session_ok_def keeps_delivery_def by (metis option.distinct(1) option.exhaust)

lemma registered:
  assumes laws: "lmdb_laws api contents" and run: "register_transport_consumer api c h = (Inr (), h')"
  shows "acked (store_contents contents h') c \<noteq> None"
  using register_effect [OF laws, of h c] run by (auto simp: store_effect_def acked_put split: if_splits)

lemma event_keeps_session:
  assumes laws: "lmdb_laws api contents" and run: "ws_handle_event js api fs options event c = Returned c'"
    and ok: "store_ok (store_contents contents (snd c))" "room (3 + k) (store_contents contents (snd c))"
    and session: "session_ok options (store_contents contents (snd c)) (fst c)"
  shows "store_ok (store_contents contents (snd c')) \<and> room k (store_contents contents (snd c')) \<and>
    keeps_delivery (store_contents contents (snd c)) (store_contents contents (snd c')) \<and>
    session_ok options (store_contents contents (snd c')) (fst c')"
proof (cases event)
  case (Written error)
  then show ?thesis using run ok session by (auto simp: session_ok_def room_def keeps_delivery_def)
next
  case (Message payload clock)
  then have "ws_handle_message js api fs clock options payload c = Returned c'" using run by simp
  note effect = message_effect [OF this]
  then have calls: "calls_between api (ck_validate clock) 3 (snd c) (snd c')" by blast
  note kept = between_ok [OF laws ok(1) ok(2) _ calls, simplified] between_room [OF laws ok calls]
  moreover have "session_ok options (store_contents contents (snd c')) (fst c')"
    using effect session_ok_later [OF session] kept registered [OF laws] unfolding session_ok_def by blast
  ultimately show ?thesis by blast
qed

lemma keeps_delivery_refl: "keeps_delivery m m"
  by (auto simp: keeps_delivery_def)

lemma run_keeps_session:
  assumes laws: "lmdb_laws api contents"
  shows "ws_run js api fs options events c = Returned c' \<Longrightarrow> store_ok (store_contents contents (snd c)) \<Longrightarrow>
    room (3 * length events) (store_contents contents (snd c)) \<Longrightarrow> session_ok options (store_contents contents (snd c)) (fst c) \<Longrightarrow>
    store_ok (store_contents contents (snd c')) \<and>
    keeps_delivery (store_contents contents (snd c)) (store_contents contents (snd c')) \<and>
    session_ok options (store_contents contents (snd c')) (fst c')"
proof (induction events arbitrary: c)
  case (Cons event events)
  then obtain d where d: "ws_handle_event js api fs options event c = Returned d" "ws_run js api fs options events d = Returned c'"
    by (auto split: outcome.splits)
  have "room (3 + 3 * length events) (store_contents contents (snd c))" using Cons.prems(3) by simp
  note step = event_keeps_session [OF laws d(1) Cons.prems(2) this Cons.prems(4)]
  then show ?case using Cons.IH [OF d(2)] keeps_delivery_trans by blast
qed (simp add: keeps_delivery_refl)

subsection \<open>Properties\<close>

lemma hello_refusal_None:
  "hello_refusal options hello = None \<longleftrightarrow> hm_client_instance_id hello \<noteq> [] \<and>
    client_instance_allowed (co_allowed_client_instance_id options) (hm_client_instance_id hello) \<and>
    (co_bridge_auth_token options \<noteq> [] \<longrightarrow> hm_auth_token hello = co_bridge_auth_token options) \<and>
    (co_security_mode options = Prod \<longrightarrow> co_bridge_auth_token options \<noteq> [])"
  by (auto simp: hello_refusal_def validate_bridge_auth_token_def)

text \<open>
  C2: a peer that has not sent an acceptable hello changes nothing: whatever messages it sends and however
  writes complete, the store stays as it is and the session is not opened.  A hello is acceptable exactly
  when its client instance is named, matches the configured pattern and gives the configured token; in
  production mode there is no way in without a configured token.
\<close>

theorem unauthenticated_peer_changes_nothing:
  assumes "list_all (unauthenticated js options) events"
    and "ws_run js api fs options events (fresh_session, h) = Returned (s, h')"
  shows "h' = h \<and> \<not> ws_hello_accepted s \<and>
    (\<forall>hello. hello_refusal options hello = None \<longleftrightarrow> hm_client_instance_id hello \<noteq> [] \<and>
      client_instance_allowed (co_allowed_client_instance_id options) (hm_client_instance_id hello) \<and>
      (co_bridge_auth_token options \<noteq> [] \<longrightarrow> hm_auth_token hello = co_bridge_auth_token options) \<and>
      (co_security_mode options = Prod \<longrightarrow> co_bridge_auth_token options \<noteq> []))"
  using unauthenticated_run [OF assms(1) _ assms(2)] hello_refusal_None by (simp add: only_wrote_def fresh_session_def)

text \<open>
  C3: a session, whatever arrives on it, leaves a sound store: for every consumer the acknowledgement does
  not go back and unacknowledged records are kept; and when the session is open, it acts for the consumer
  that an acceptable hello named and that is registered in the store.
\<close>

theorem session_keeps_the_outbox:
  assumes "lmdb_laws api contents" and "store_ok (store_contents contents h)"
    and "room (3 * length events) (store_contents contents h)"
    and "ws_run js api fs options events (fresh_session, h) = Returned (s, h')"
  shows "store_ok (store_contents contents h') \<and>
    keeps_delivery (store_contents contents h) (store_contents contents h') \<and>
    (ws_hello_accepted s \<longrightarrow> (\<exists>hello. hello_refusal options hello = None \<and>
      ws_consumer_id s = hm_client_instance_id hello @ '':'' @ hm_host_id hello \<and>
      acked (store_contents contents h') (ws_consumer_id s) \<noteq> None))"
  using run_keeps_session [OF assms(1) assms(4)] assms(2,3) by (simp add: session_ok_def fresh_session_def)

text \<open>
  A message whose \<open>type\<close> is a number throws out of the callback, also on a connection that has said no
  hello; nothing in the program catches the exception, so it ends the service.
\<close>

lemma wrongly_typed_message_throws:
  assumes "json_laws js" and "json_to_text js (js_object js [(''type'', js_number js n)]) = Some payload"
  shows "ws_handle_message js api fs clock options payload c = Exception"
  using text_of_object [OF assms] assms(1)
  by (simp add: ws_handle_message_def js_is_object_object js_value_string_number [of js _ "''type''" n])

subsection \<open>Examples\<close>

definition tree_text :: "json_tree \<Rightarrow> string" where
  "tree_text j = replicate (to_nat j) CHR ''1''"

lemma tree_text_json [simp]:
  "text_to_json tree_json (tree_text j) = Some j" "json_to_text tree_json j = Some (tree_text j)"
  by (simp_all add: tree_text_def text_to_json_def json_to_text_def tree_json_def)

lemma wrongly_typed_message_throws_witness:
  "ws_handle_message tree_json (faultless_lmdb (\<lambda>_. [])) sample_tree sample_clock sample_options
    (tree_text (Object_tree [(''type'', Number_tree 7)])) (fresh_session, sample_store) = Exception"
  by (rule wrongly_typed_message_throws [OF tree_json_laws, of 7]) (simp add: tree_json_def tree_text_def json_to_text_def)

theorem unauthenticated_peer_changes_nothing_witness:
  "\<exists>s. ws_run tree_json (faultless_lmdb (\<lambda>_. [])) sample_tree sample_options
      [Message (tree_text (crud_command_to_json tree_json (default_command\<lparr>cc_ack_sequence := 1\<rparr>))) sample_clock, Written False]
      (fresh_session, sample_store) = Returned (s, sample_store) \<and> \<not> ws_hello_accepted s"
proof -
  let ?json = "crud_command_to_json tree_json (default_command\<lparr>cc_ack_sequence := 1\<rparr>)"
  let ?events = "[Message (tree_text ?json) sample_clock, Written False]"
  have type: "js_is_object tree_json ?json" "js_value_string tree_json ?json ''type'' [] = Some ''crud_command''"
    "\<exists>i. js_value_string tree_json ?json ''request_id'' [] = Some i"
    by (simp_all add: crud_command_to_json_def tree_json_def tree_string_def default_command_def)
  then obtain s h where run: "ws_run tree_json (faultless_lmdb (\<lambda>_. [])) sample_tree sample_options ?events (fresh_session, sample_store) = Returned (s, h)"
    by (auto simp: ws_handle_message_def before_hello_def enqueue_result_def enqueue_json_def fresh_session_def)
  have "list_all (unauthenticated tree_json sample_options) ?events"
    using type by (simp add: unauthenticated_def hello_in_def parse_hello_def with_type_def)
  from unauthenticated_peer_changes_nothing [OF this run] show ?thesis using run by blast
qed

theorem session_keeps_the_outbox_witness:
  "\<exists>s h. ws_run tree_json (faultless_lmdb (\<lambda>_. [])) sample_tree sample_options
      [Message (tree_text (hello_to_json tree_json (default_hello\<lparr>hm_host_id := ''h'', hm_client_instance_id := ''hugin-1''\<rparr>))) sample_clock]
      (fresh_session, sample_store) = Returned (s, h) \<and> ws_hello_accepted s \<and>
    acked (store_contents list_contents h) (ws_consumer_id s) \<noteq> None"
proof -
  let ?hello = "default_hello\<lparr>hm_host_id := ''h'', hm_client_instance_id := ''hugin-1''\<rparr>"
  let ?api = "faultless_lmdb (\<lambda>_. [])"
  let ?events = "[Message (tree_text (hello_to_json tree_json ?hello)) sample_clock]"
  have type: "js_is_object tree_json (hello_to_json tree_json ?hello)"
    "js_value_string tree_json (hello_to_json tree_json ?hello) ''type'' [] = Some ''hello''"
    by (simp_all add: hello_to_json_def tree_json_def tree_string_def default_hello_def)
  have parse: "parse_hello tree_json (hello_to_json tree_json ?hello) = Some (Some ?hello)"
    using parse_hello_to_json [OF tree_json_laws, of ?hello] by (simp add: hello_acceptable_def default_hello_def)
  have allowed: "hello_refusal sample_options ?hello = None"
    by (simp add: hello_refusal_None sample_options_def client_instance_allowed_def default_hello_def)
  obtain h where reg: "register_transport_consumer ?api (hm_client_instance_id ?hello @ '':'' @ hm_host_id ?hello) sample_store = (Inr (), h)"
    by (simp add: register_transport_consumer_def in_write_txn_def store_begin_txn_def is_open_def sample_store_def
        faultless_lmdb_def read_consumer_ack_sequence_def write_consumer_ack_sequence_def store_put_blob_def sample_db_def
        finish_txn_def Let_def store_error_def default_hello_def string_bytes_def)
  obtain s where run: "ws_run tree_json ?api sample_tree sample_options ?events (fresh_session, sample_store) = Returned (s, h)"
    "ws_hello_accepted s"
    using type parse allowed reg by (auto simp: ws_handle_message_def handle_hello_def enqueue_json_def Let_def)
  show ?thesis
    using session_keeps_the_outbox [OF faultless_lmdb_laws [of "\<lambda>_. []"] _ _ run(1)] sample_store_ok sample_room [of 3] run by auto
qed

end
