(* ===== verification/MuninnClient.thy ===== *)
theory MuninnClient imports WsSession begin

text \<open>
  Hugin's end of the bridge, \<open>src/backend/Hugin/net/muninn_client.cpp\<close>: connecting and reconnecting with a
  growing delay, the hello, pulling records and acknowledging them, and the queue of outgoing frames.

  Each callback of the networking library is one operation on the state \<open>client\<close>.  What the library is asked
  to do is recorded there: the frames given to \<open>async_write\<close>, the delays of the timers, whether a socket is
  there; so are the calls of \<open>on_result\<close> and \<open>on_connection_state\<close>, in order.  The random generator is the
  argument \<open>rng\<close>, which takes the bound of the distribution.
\<close>

subsection \<open>Options\<close>

record muninn_client_options =
  mo_remote_host :: string
  mo_remote_port :: u16
  mo_websocket_path :: string
  mo_host_id :: string
  mo_client_instance_id :: string
  mo_auth_token :: string
  mo_auto_pull_enabled :: bool
  mo_outbox_batch_size :: nat
  mo_idle_pull_interval :: i64
  mo_hot_pull_interval :: i64
  mo_reconnect_delay :: i64
  mo_reconnect_max_delay :: i64
  mo_reconnect_backoff_factor :: u32
  mo_reconnect_jitter_percent :: u32

text \<open>The constructor brings the options into their ranges.\<close>

definition clamp_options :: "muninn_client_options \<Rightarrow> muninn_client_options" where
  "clamp_options options =
    (let options = (if sint (mo_reconnect_delay options) \<le> 0 then options\<lparr>mo_reconnect_delay := 250\<rparr> else options);
         options = (if sint (mo_reconnect_max_delay options) < sint (mo_reconnect_delay options)
           then options\<lparr>mo_reconnect_max_delay := mo_reconnect_delay options\<rparr> else options);
         options = (if mo_reconnect_backoff_factor options < 1 then options\<lparr>mo_reconnect_backoff_factor := 1\<rparr> else options)
     in if mo_reconnect_jitter_percent options > 100 then options\<lparr>mo_reconnect_jitter_percent := 100\<rparr> else options)"

subsection \<open>The delay before a reconnect\<close>

text \<open>The loop runs \<open>reconnect_attempt_ - 1\<close> times at most.\<close>

fun backoff_loop :: "nat \<Rightarrow> u32 \<Rightarrow> u64 \<Rightarrow> u64 \<Rightarrow> u64" where
  "backoff_loop 0 factor max_delay_ms delay_ms = delay_ms"
| "backoff_loop (Suc n) factor max_delay_ms delay_ms =
    (if factor \<le> 1 then delay_ms
     else if delay_ms \<ge> max_delay_ms then max_delay_ms
     else if delay_ms > (- 1) div ucast factor then max_delay_ms
     else let delay_ms = delay_ms * ucast factor
          in if delay_ms > max_delay_ms then max_delay_ms else backoff_loop n factor max_delay_ms delay_ms)"

definition initial_delay_ms :: "muninn_client_options \<Rightarrow> u64" where
  "initial_delay_ms options = word_of_int (max 1 (sint (mo_reconnect_delay options)))"

definition max_delay_ms :: "muninn_client_options \<Rightarrow> u64" where
  "max_delay_ms options = word_of_int (max (sint (initial_delay_ms options)) (sint (mo_reconnect_max_delay options)))"

definition compute_reconnect_delay :: "muninn_client_options \<Rightarrow> u32 \<Rightarrow> (int \<Rightarrow> int) \<Rightarrow> i64" where
  "compute_reconnect_delay options reconnect_attempt rng =
    (let delay_ms = backoff_loop (unat reconnect_attempt - 1) (mo_reconnect_backoff_factor options) (max_delay_ms options)
           (initial_delay_ms options)
     in if mo_reconnect_jitter_percent options = 0 \<or> delay_ms = 0 then delay_ms
        else let jitter_span = (delay_ms * ucast (mo_reconnect_jitter_percent options)) div 100
             in if jitter_span = 0 then delay_ms
                else let jittered = sint delay_ms + rng (sint jitter_span)
                     in if jittered \<le> 0 then 1 else word_of_int jittered)"

lemma backoff_loop_exact:
  assumes "1 \<le> unat factor" "0 < unat delay" "unat delay \<le> unat upper"
  shows "unat (backoff_loop n factor upper delay) = min (unat upper) (unat delay * unat factor ^ n)"
  using assms(2,3)
proof (induction n arbitrary: delay)
  case 0
  then show ?case by (simp add: min_absorb2)
next
  case (Suc n)
  let ?f = "unat factor"
  consider "?f = 1" | "1 < ?f" "unat upper \<le> unat delay" | "1 < ?f" "unat delay < unat upper" using assms(1) by linarith
  then show ?case
  proof cases
    case 1
    then have "factor = 1" by (simp add: word_unat_eq_iff)
    then show ?thesis using Suc.prems by (simp add: min_absorb2)
  next
    case 2
    have "unat delay * 1 \<le> unat delay * ?f ^ Suc n" using 2(1) by (intro mult_le_mono2) simp
    then show ?thesis using 2 Suc.prems by (simp add: word_le_nat_alt min_absorb1)
  next
    case 3
    have f: "unat (ucast factor :: u64) = ?f"
      using unsigned_less [of factor, where ?'a = nat] by (simp add: unsigned_ucast_eq take_bit_nat_eq_self)
    have power: "unat delay * ?f \<le> unat delay * ?f ^ Suc n"
      using 3(1) by (intro mult_le_mono2) (simp add: self_le_power)
    have step: "\<not> factor \<le> 1" "\<not> delay \<ge> upper" using 3 by (simp_all add: word_le_nat_alt)
    have limit: "delay > (- 1) div ucast factor \<longleftrightarrow> 2 ^ 64 - 1 < unat delay * ?f"
    proof -
      have "unat ((- 1 :: u64) div ucast factor) = (2 ^ 64 - 1) div ?f"
        by (simp add: unat_div_distrib f unsigned_minus_1_eq_mask mask_eq_exp_minus_1)
      then show ?thesis using 3(1) by (simp add: word_less_nat_alt div_less_iff_less_mult)
    qed
    have upper: "unat upper \<le> 2 ^ 64 - 1" using unsigned_less [of upper, where ?'a = nat] by simp
    show ?thesis
    proof (cases "2 ^ 64 - 1 < unat delay * ?f")
      case True
      then have "unat upper \<le> unat delay * ?f ^ Suc n" using power upper by linarith
      then show ?thesis using True step limit by (simp add: min_absorb1)
    next
      case False
      have product: "unat (delay * ucast factor) = unat delay * ?f"
        using False f by (simp add: unat_mult_lem [THEN iffD1])
      show ?thesis
      proof (cases "unat upper < unat delay * ?f")
        case True
        then have "unat upper \<le> unat delay * ?f ^ Suc n" using power by linarith
        then show ?thesis using True step limit False product by (simp add: word_less_nat_alt min_absorb1 Let_def)
      next
        case le: False
        have "0 < unat (delay * ucast factor)" using product Suc.prems(1) 3(1) by simp
        from Suc.IH [OF this] show ?thesis
          using step limit False le product by (simp add: word_less_nat_alt Let_def mult.assoc)
      qed
    qed
  qed
qed

lemma unat_word_of_int_small: "0 \<le> i \<Longrightarrow> i < 2 ^ 64 \<Longrightarrow> unat (word_of_int i :: u64) = nat i"
  by (simp add: unsigned_of_int take_bit_int_eq_self)

lemma unat_of_sint: "0 \<le> sint w \<Longrightarrow> unat w = nat (sint w)" for w :: i64
  using unat_word_of_int_small [of "sint w"] sint_lt [of w] by simp

lemma sint_word_of_int_small: "- 9223372036854775808 \<le> i \<Longrightarrow> i < 9223372036854775808 \<Longrightarrow> sint (word_of_int i :: i64) = i"
  by (simp add: signed_of_int signed_take_bit_int_eq_self)

lemma sint_small: "uint w < 9223372036854775808 \<Longrightarrow> sint w = uint w" for w :: u64
  using sint_word_of_int_small [of "uint w"] by (simp add: order_trans [of _ 0])

lemma clamped:
  assumes "options' = clamp_options options"
  shows "0 < sint (mo_reconnect_delay options')" "sint (mo_reconnect_delay options') \<le> sint (mo_reconnect_max_delay options')"
    "1 \<le> unat (mo_reconnect_backoff_factor options')" "unat (mo_reconnect_jitter_percent options') \<le> 100"
  using assms by (auto simp: clamp_options_def Let_def word_less_nat_alt not_less split: if_splits)

lemma base_delay:
  assumes "options' = clamp_options options"
  shows "int (unat (backoff_loop n (mo_reconnect_backoff_factor options') (max_delay_ms options') (initial_delay_ms options'))) =
    min (sint (mo_reconnect_max_delay options')) (sint (mo_reconnect_delay options') * int (unat (mo_reconnect_backoff_factor options')) ^ n)"
proof -
  note c = clamped [OF assms]
  let ?D = "sint (mo_reconnect_delay options')" and ?T = "sint (mo_reconnect_max_delay options')"
  have range: "?D < 2 ^ 63" "?T < 2 ^ 63" using sint_lt [of "mo_reconnect_delay options'"] sint_lt [of "mo_reconnect_max_delay options'"] by simp_all
  have i: "initial_delay_ms options' = word_of_int ?D" using c(1) by (simp add: initial_delay_ms_def max_def)
  have D: "unat (initial_delay_ms options') = nat ?D" unfolding i using c(1) range by (intro unat_word_of_int_small) simp_all
  have "sint (initial_delay_ms options') = ?D" unfolding i using c(1) range by (intro sint_word_of_int_small) simp_all
  then have "max_delay_ms options' = word_of_int ?T" using c(2) by (simp add: max_delay_ms_def max_def)
  then have T: "unat (max_delay_ms options') = nat ?T" using c by (simp add: unat_of_sint)
  show ?thesis
    using backoff_loop_exact [OF c(3), of "initial_delay_ms options'" "max_delay_ms options'" n] c D T
    by (simp add: nat_mono min_def nat_le_iff split: if_splits)
qed

text \<open>
  The delay before a reconnect doubles (or what the factor is) with every attempt from the configured
  delay up to the configured maximum, and the jitter moves it by at most its percentage of that, in either
  direction, but never below one millisecond.  So it can exceed the maximum, by that percentage.
\<close>

lemma reconnect_delay_bounds:
  assumes "options' = clamp_options options" and rng: "\<And>n. 0 \<le> n \<Longrightarrow> - n \<le> rng n \<and> rng n \<le> n"
    and small: "sint (mo_reconnect_max_delay options') < 2 ^ 56"
  shows "let base = min (sint (mo_reconnect_max_delay options'))
            (sint (mo_reconnect_delay options') * int (unat (mo_reconnect_backoff_factor options')) ^ (unat attempt - 1));
          span = base * int (unat (mo_reconnect_jitter_percent options')) div 100;
          delay = sint (compute_reconnect_delay options' attempt rng)
      in 1 \<le> delay \<and> base - span \<le> delay \<and> delay \<le> base + span"
proof -
  note c = clamped [OF assms(1)]
  define p where "p = unat (mo_reconnect_jitter_percent options')"
  define d where "d = backoff_loop (unat attempt - 1) (mo_reconnect_backoff_factor options') (max_delay_ms options') (initial_delay_ms options')"
  define base where "base = min (sint (mo_reconnect_max_delay options'))
      (sint (mo_reconnect_delay options') * int (unat (mo_reconnect_backoff_factor options')) ^ (unat attempt - 1))"
  have d: "int (unat d) = base" unfolding d_def base_def by (rule base_delay [OF assms(1)])
  then have uint_d: "uint d = base" by simp
  have "0 < int (unat (mo_reconnect_backoff_factor options')) ^ (unat attempt - 1)" using c(3) by (intro zero_less_power) linarith
  then have "0 < sint (mo_reconnect_delay options') * int (unat (mo_reconnect_backoff_factor options')) ^ (unat attempt - 1)"
    by (rule mult_pos_pos [OF c(1)])
  then have base: "1 \<le> base" "base < 2 ^ 56" using c(1,2) small unfolding base_def by linarith+
  let ?span = "(d * ucast (mo_reconnect_jitter_percent options')) div 100"
  have p: "p \<le> 100" "unat (ucast (mo_reconnect_jitter_percent options') :: u64) = p"
    using c(4) unsigned_less [of "mo_reconnect_jitter_percent options'", where ?'a = nat]
    by (simp_all add: p_def unsigned_ucast_eq take_bit_nat_eq_self)
  have le: "base * int p \<le> base * 100" using p(1) base by simp
  have "base < 72057594037927936" using base(2) by simp
  then have "base * int p < 18446744073709551616" using le base(1) by linarith
  then have "int (unat d * p) < int (2 ^ 64)" by (simp add: uint_d)
  then have "unat d * p < 2 ^ 64" by (simp only: of_nat_less_iff)
  then have "unat (d * ucast (mo_reconnect_jitter_percent options')) = unat d * p"
    using p(2) unat_mult_lem [THEN iffD1, of d "ucast (mo_reconnect_jitter_percent options')"] by simp
  then have span: "int (unat ?span) = base * int p div 100" by (simp add: unat_div zdiv_int uint_d)
  have le_span: "0 \<le> base * int p div 100" "base * int p div 100 \<le> base"
    using zdiv_mono1 [OF le, of 100] base by (simp_all add: pos_imp_zdiv_nonneg_iff)
  have "uint ?span = base * int p div 100" using span by simp
  moreover have "base < 72057594037927936" using base(2) by simp
  ultimately have s: "sint ?span = base * int p div 100" "sint d = base"
    using sint_small [of ?span] sint_small [of d] uint_d le_span by linarith+
  have r: "- (base * int p div 100) \<le> rng (base * int p div 100)" "rng (base * int p div 100) \<le> base * int p div 100"
    using rng [OF le_span(1)] by simp_all
  have "base < 72057594037927936" using base(2) by simp
  then have moved: "sint (word_of_int (base + rng (base * int p div 100)) :: i64) = base + rng (base * int p div 100)"
    using r le_span base(1) by (intro sint_word_of_int_small) linarith+
  have zero: "d \<noteq> 0" "mo_reconnect_jitter_percent options' = 0 \<longleftrightarrow> p = 0" "?span = 0 \<longleftrightarrow> base * int p div 100 = 0"
    using uint_d base(1) span by (auto simp: p_def unat_eq_zero word_uint_eq_iff [of ?span])
  have "sint (compute_reconnect_delay options' attempt rng) =
      (if p = 0 \<or> base * int p div 100 = 0 then base
       else if base + rng (base * int p div 100) \<le> 0 then 1 else base + rng (base * int p div 100))"
    unfolding compute_reconnect_delay_def Let_def d_def [symmetric] using zero s moved by simp
  then show ?thesis using r le_span base(1) unfolding Let_def base_def [symmetric] p_def [symmetric] by (auto split: if_splits)
qed

subsection \<open>The state of the client\<close>

text \<open>
  \<open>mc_socket\<close>: whether there is a WebSocket; \<open>mc_started\<close>: the frames given to \<open>async_write\<close>; \<open>mc_posted\<close>: commands
  posted to the event loop; \<open>mc_pull_timer\<close>, \<open>mc_reconnect_timer\<close>: the delay of a pending timer.
\<close>

record client =
  mc_options :: muninn_client_options
  mc_running :: bool
  mc_handshake_complete :: bool
  mc_hello_complete :: bool
  mc_socket :: bool
  mc_write_queue :: "string list"
  mc_started :: "string list"
  mc_pending_after_hello :: "string list"
  mc_posted :: "crud_command list"
  mc_request_sequence :: u64
  mc_last_ack_sequence :: u64
  mc_reconnect_events_total :: u64
  mc_reconnect_recoveries_total :: u64
  mc_reconnect_reason_counts :: "string \<rightharpoonup> u64"
  mc_reconnect_attempt :: u32
  mc_pull_timer :: "i64 option"
  mc_reconnect_timer :: "i64 option"
  mc_results :: "crud_result list"
  mc_states :: "(bool \<times> string) list"

definition new_client :: "muninn_client_options \<Rightarrow> client" where
  "new_client options = \<lparr>mc_options = clamp_options options, mc_running = False, mc_handshake_complete = False,
    mc_hello_complete = False, mc_socket = False, mc_write_queue = [], mc_started = [], mc_pending_after_hello = [],
    mc_posted = [], mc_request_sequence = 0, mc_last_ack_sequence = 0, mc_reconnect_events_total = 0,
    mc_reconnect_recoveries_total = 0, mc_reconnect_reason_counts = Map.empty, mc_reconnect_attempt = 0,
    mc_pull_timer = None, mc_reconnect_timer = None, mc_results = [], mc_states = []\<rparr>"

definition connected :: "client \<Rightarrow> bool" where
  "connected c \<longleftrightarrow> mc_running c \<and> mc_handshake_complete c \<and> mc_hello_complete c"

subsection \<open>Outgoing frames\<close>

definition mc_do_write :: "client \<Rightarrow> client" where
  "mc_do_write c =
    (if \<not> mc_running c \<or> \<not> mc_handshake_complete c \<or> \<not> mc_socket c \<or> mc_write_queue c = [] then c
     else c\<lparr>mc_started := mc_started c @ [hd (mc_write_queue c)]\<rparr>)"

definition mc_enqueue_text :: "string \<Rightarrow> client \<Rightarrow> client" where
  "mc_enqueue_text payload c =
    (let idle = (mc_write_queue c = []); c = c\<lparr>mc_write_queue := mc_write_queue c @ [payload]\<rparr>
     in if idle then mc_do_write c else c)"

definition mc_enqueue_json :: "'j json_api \<Rightarrow> 'j \<Rightarrow> client \<Rightarrow> client outcome" where
  "mc_enqueue_json js payload c = or_throw (json_to_text js payload) (\<lambda>text. Returned (mc_enqueue_text text c))"

definition send_hello :: "'j json_api \<Rightarrow> client \<Rightarrow> client outcome" where
  "send_hello js c = mc_enqueue_json js (hello_to_json js (default_hello\<lparr>hm_host_id := mo_host_id (mc_options c),
    hm_client_instance_id := mo_client_instance_id (mc_options c), hm_auth_token := mo_auth_token (mc_options c)\<rparr>)) c"

definition flush_pending_commands :: "client \<Rightarrow> client" where
  "flush_pending_commands c = fold mc_enqueue_text (mc_pending_after_hello c) (c\<lparr>mc_pending_after_hello := []\<rparr>)"

definition next_request_id :: "string \<Rightarrow> client \<Rightarrow> string \<times> client" where
  "next_request_id pre c =
    (pre @ ''-'' @ show_word (mc_request_sequence c + 1), c\<lparr>mc_request_sequence := mc_request_sequence c + 1\<rparr>)"

subsection \<open>Connecting\<close>

definition notify_connection_state :: "bool \<Rightarrow> string \<Rightarrow> client \<Rightarrow> client" where
  "notify_connection_state connected_state message c = c\<lparr>mc_states := mc_states c @ [(connected_state, message)]\<rparr>"

definition start_connect :: "client \<Rightarrow> client" where
  "start_connect c =
    (if \<not> mc_running c then c
     else c\<lparr>mc_handshake_complete := False, mc_hello_complete := False, mc_write_queue := [], mc_socket := True\<rparr>)"

definition client_start :: "client \<Rightarrow> client" where
  "client_start c =
    (if mc_running c then c
     else start_connect (c\<lparr>mc_running := True, mc_request_sequence := 0, mc_last_ack_sequence := 0, mc_reconnect_attempt := 0,
       mc_reconnect_events_total := 0, mc_reconnect_recoveries_total := 0, mc_reconnect_reason_counts := Map.empty\<rparr>))"

definition client_stop :: "client \<Rightarrow> client" where
  "client_stop c = c\<lparr>mc_running := False, mc_handshake_complete := False, mc_hello_complete := False, mc_write_queue := [],
    mc_pending_after_hello := [], mc_pull_timer := None, mc_reconnect_timer := None, mc_socket := False\<rparr>"

definition schedule_reconnect :: "(int \<Rightarrow> int) \<Rightarrow> string \<Rightarrow> client \<Rightarrow> client" where
  "schedule_reconnect rng reason c =
    (if \<not> mc_running c then c
     else
       let c = c\<lparr>mc_handshake_complete := False, mc_hello_complete := False,
             mc_reconnect_events_total := mc_reconnect_events_total c + 1,
             mc_reconnect_reason_counts := (mc_reconnect_reason_counts c)
               (reason \<mapsto> (case mc_reconnect_reason_counts c reason of None \<Rightarrow> 0 | Some n \<Rightarrow> n) + 1),
             mc_reconnect_attempt := mc_reconnect_attempt c + 1\<rparr>;
           delay = compute_reconnect_delay (mc_options c) (mc_reconnect_attempt c) rng;
           c = notify_connection_state False reason c
       in c\<lparr>mc_pull_timer := None, mc_socket := False, mc_reconnect_timer := Some delay\<rparr>)"

text \<open>The timer of a reconnect went off, or (\<open>error\<close>) an earlier wait was cancelled.\<close>

definition on_reconnect_timer :: "bool \<Rightarrow> client \<Rightarrow> client" where
  "on_reconnect_timer error c =
    (if error then c
     else (let c = c\<lparr>mc_reconnect_timer := None\<rparr> in if \<not> mc_running c then c else start_connect c))"

definition on_resolve :: "(int \<Rightarrow> int) \<Rightarrow> bool \<Rightarrow> client \<Rightarrow> client" where
  "on_resolve rng error c =
    (if \<not> mc_running c then c else if error then schedule_reconnect rng ''resolve_failed'' c else c)"

definition on_connect :: "(int \<Rightarrow> int) \<Rightarrow> bool \<Rightarrow> client \<Rightarrow> client" where
  "on_connect rng error c =
    (if \<not> mc_running c then c else if error then schedule_reconnect rng ''connect_failed'' c else c)"

definition on_handshake :: "'j json_api \<Rightarrow> (int \<Rightarrow> int) \<Rightarrow> bool \<Rightarrow> client \<Rightarrow> client outcome" where
  "on_handshake js rng error c =
    (if \<not> mc_running c then Returned c
     else if error then Returned (schedule_reconnect rng ''handshake_failed'' c)
     else send_hello js (c\<lparr>mc_handshake_complete := True\<rparr>))"

definition mc_on_write :: "(int \<Rightarrow> int) \<Rightarrow> bool \<Rightarrow> client \<Rightarrow> client" where
  "mc_on_write rng error c =
    (if \<not> mc_running c then c
     else if error then schedule_reconnect rng ''write_failed'' c
     else (let c = c\<lparr>mc_write_queue := tl (mc_write_queue c)\<rparr>
       in if mc_write_queue c \<noteq> [] then mc_do_write c else c))"

subsection \<open>Commands\<close>

definition submit_command :: "crud_command \<Rightarrow> client \<Rightarrow> (status_error + unit) \<times> client" where
  "submit_command command c =
    (if \<not> mc_running c then (Inl (error_code.Internal, ''Muninn client is not running.''), c)
     else if \<not> connected c then (Inl (error_code.Internal, ''Muninn bridge is not connected.''), c)
     else (let command = (if cc_outbox_batch_size command = 0
             then command\<lparr>cc_outbox_batch_size := of_nat (max 1 (mo_outbox_batch_size (mc_options c)))\<rparr> else command)
       in (Inr (), c\<lparr>mc_posted := mc_posted c @ [command]\<rparr>)))"

text \<open>The event loop runs the first posted command.\<close>

definition run_posted :: "'j json_api \<Rightarrow> client \<Rightarrow> client outcome" where
  "run_posted js c =
    (case mc_posted c of
       [] \<Rightarrow> Returned c
     | command # rest \<Rightarrow>
         (let c = c\<lparr>mc_posted := rest\<rparr>;
              (request_id, c) = (if cc_request_id command = [] then next_request_id ''cmd'' c else (cc_request_id command, c))
          in or_throw (json_to_text js (crud_command_to_json js (command\<lparr>cc_request_id := request_id\<rparr>)))
               (\<lambda>payload. Returned (if \<not> mc_hello_complete c then c else mc_enqueue_text payload c))))"

definition request_read :: "u64 \<Rightarrow> client \<Rightarrow> (status_error + unit) \<times> client" where
  "request_read ack_sequence c =
    (let (request_id, c) = next_request_id ''read'' c
     in submit_command (default_command\<lparr>cc_request_id := request_id, cc_operation := Read, cc_ack_sequence := ack_sequence,
          cc_outbox_batch_size := of_nat (max 1 (mo_outbox_batch_size (mc_options c)))\<rparr>) c)"

definition schedule_next_pull :: "bool \<Rightarrow> client \<Rightarrow> client" where
  "schedule_next_pull had_records c =
    (if \<not> mc_running c \<or> \<not> mc_hello_complete c \<or> \<not> mo_auto_pull_enabled (mc_options c) then c
     else c\<lparr>mc_pull_timer := Some (if had_records then mo_hot_pull_interval (mc_options c) else mo_idle_pull_interval (mc_options c))\<rparr>)"

definition on_pull_timer :: "bool \<Rightarrow> client \<Rightarrow> client" where
  "on_pull_timer error c =
    (if error then c
     else let c = c\<lparr>mc_pull_timer := None\<rparr>
     in if \<not> mc_running c \<or> \<not> mc_hello_complete c \<or> \<not> mo_auto_pull_enabled (mc_options c) then c
        else snd (request_read (mc_last_ack_sequence c) c))"

subsection \<open>Messages\<close>

definition send_ingest_ack :: "'j json_api \<Rightarrow> u64 \<Rightarrow> string \<Rightarrow> client \<Rightarrow> client outcome" where
  "send_ingest_ack js ack_sequence request_id c =
    mc_enqueue_json js (ingest_ack_to_json js (default_ingest_ack\<lparr>ia_request_id := request_id, ia_ok := True,
      ia_ack_sequence := ack_sequence, ia_message := ''ok''\<rparr>)) c"

definition apply_crud_result :: "'j json_api \<Rightarrow> crud_result \<Rightarrow> client \<Rightarrow> client outcome" where
  "apply_crud_result js result c =
    (let c = c\<lparr>mc_results := mc_results c @ [result]\<rparr>;
         max_sequence = fold (\<lambda>record m. max m (tm_sequence record)) (cr_records result) (mc_last_ack_sequence c)
     in case (if max_sequence > mc_last_ack_sequence c
          then (case send_ingest_ack js max_sequence (cr_request_id result) c of
              Returned c \<Rightarrow> Returned (c\<lparr>mc_last_ack_sequence := max_sequence\<rparr>) | other \<Rightarrow> other)
          else Returned c) of
        Returned c \<Rightarrow> Returned (schedule_next_pull (cr_records result \<noteq> []) c)
      | other \<Rightarrow> other)"

definition mc_handle_message :: "'j json_api \<Rightarrow> (int \<Rightarrow> int) \<Rightarrow> string \<Rightarrow> client \<Rightarrow> client outcome" where
  "mc_handle_message js rng payload c =
    (case text_to_json js payload of
       None \<Rightarrow> Returned c
     | Some json \<Rightarrow>
         if \<not> js_is_object js json then Returned c
         else or_throw (js_value_string js json ''type'' []) (\<lambda>type.
           if type = ''hello_ack''
           then or_throw (parse_hello_ack js json) (\<lambda>hello_ack.
             if (case hello_ack of None \<Rightarrow> True | Some ack \<Rightarrow> \<not> ha_accepted ack)
             then Returned (schedule_reconnect rng ''hello_rejected'' c)
             else (let c = c\<lparr>mc_hello_complete := True\<rparr>;
                       c = (if mc_reconnect_attempt c > 0
                         then c\<lparr>mc_reconnect_recoveries_total := mc_reconnect_recoveries_total c + 1\<rparr> else c);
                       c = notify_connection_state True ''connected'' (c\<lparr>mc_reconnect_attempt := 0\<rparr>);
                       c = flush_pending_commands c
               in Returned (if mo_auto_pull_enabled (mc_options c) then schedule_next_pull False c else c)))
           else if type = ''crud_result''
           then or_throw (parse_crud_result js json) (\<lambda>result. case result of
               None \<Rightarrow> Returned c
             | Some r \<Rightarrow> apply_crud_result js r c)
           else Returned c))"

datatype read_error = No_error | Closed | Failed

definition mc_on_read :: "'j json_api \<Rightarrow> (int \<Rightarrow> int) \<Rightarrow> read_error \<Rightarrow> string \<Rightarrow> client \<Rightarrow> client outcome" where
  "mc_on_read js rng error payload c =
    (if \<not> mc_running c then Returned c
     else if error = Closed then Returned (schedule_reconnect rng ''remote_closed'' c)
     else if error = Failed then Returned (schedule_reconnect rng ''read_failed'' c)
     else mc_handle_message js rng payload c)"

subsection \<open>Events\<close>

datatype client_event =
    Start | Stop | Resolved bool | Connected bool | Handshaken bool | Received read_error string | Wrote bool
  | Pull_timer bool | Reconnect_timer bool | Run_posted | Submit crud_command | Request_read u64

fun client_step :: "'j json_api \<Rightarrow> (int \<Rightarrow> int) \<Rightarrow> client_event \<Rightarrow> client \<Rightarrow> client outcome" where
  "client_step js rng Start c = Returned (client_start c)"
| "client_step js rng Stop c = Returned (client_stop c)"
| "client_step js rng (Resolved error) c = Returned (on_resolve rng error c)"
| "client_step js rng (Connected error) c = Returned (on_connect rng error c)"
| "client_step js rng (Handshaken error) c = on_handshake js rng error c"
| "client_step js rng (Received error payload) c = mc_on_read js rng error payload c"
| "client_step js rng (Wrote error) c = Returned (mc_on_write rng error c)"
| "client_step js rng (Pull_timer error) c = Returned (on_pull_timer error c)"
| "client_step js rng (Reconnect_timer error) c = Returned (on_reconnect_timer error c)"
| "client_step js rng Run_posted c = run_posted js c"
| "client_step js rng (Submit command) c = Returned (snd (submit_command command c))"
| "client_step js rng (Request_read ack_sequence) c = Returned (snd (request_read ack_sequence c))"

text \<open>
  What the rest of Hugin has asked the client to send: the commands given to \<open>submit_command\<close> and the reads asked
  for with \<open>request_read\<close>, whose request identifier and size are left to the client.
\<close>

definition read_command :: "u64 \<Rightarrow> crud_command" where
  "read_command ack_sequence = default_command\<lparr>cc_operation := Read, cc_ack_sequence := ack_sequence, cc_outbox_batch_size := 0\<rparr>"

fun asked_by :: "client_event \<Rightarrow> crud_command list" where
  "asked_by (Submit command) = [command]"
| "asked_by (Request_read ack_sequence) = [read_command ack_sequence]"
| "asked_by event = []"

text \<open>The states that a client can come to, with what it has been asked to send on the way.\<close>

inductive reachable_client :: "'j json_api \<Rightarrow> muninn_client_options \<Rightarrow> crud_command list \<Rightarrow> client \<Rightarrow> bool" for js options where
  created: "reachable_client js options [] (new_client options)"
| stepped: "reachable_client js options asked c \<Longrightarrow> client_step js rng event c = Returned c' \<Longrightarrow>
    reachable_client js options (asked @ asked_by event) c'"

text \<open>The numbers of the records that were handed to \<open>on_result\<close>.\<close>

definition delivered :: "client \<Rightarrow> u64 set" where
  "delivered c = (\<Union>r \<in> set (mc_results c). tm_sequence ` set (cr_records r))"

text \<open>A command as it was wanted, where an empty request identifier and a size of zero may be filled in.\<close>

definition completes :: "crud_command \<Rightarrow> crud_command \<Rightarrow> bool" where
  "completes wanted sent \<longleftrightarrow> sent = wanted\<lparr>
    cc_request_id := (if cc_request_id wanted = [] then cc_request_id sent else cc_request_id wanted),
    cc_outbox_batch_size := (if cc_outbox_batch_size wanted = 0 then cc_outbox_batch_size sent else cc_outbox_batch_size wanted)\<rparr>"

text \<open>
  A command of the client: one that it was asked to send, or a pull of its own, which acknowledges nothing or a
  record that was handed on.
\<close>

definition command_of_client :: "crud_command list \<Rightarrow> u64 set \<Rightarrow> crud_command \<Rightarrow> bool" where
  "command_of_client asked given command \<longleftrightarrow>
    (\<exists>wanted \<in> set asked \<union> read_command ` insert 0 given. completes wanted command)"

definition hello_of :: "muninn_client_options \<Rightarrow> hello_message" where
  "hello_of options = default_hello\<lparr>hm_host_id := mo_host_id options,
    hm_client_instance_id := mo_client_instance_id options, hm_auth_token := mo_auth_token options\<rparr>"

text \<open>A frame of the client: its hello, one of its commands, or the acknowledgement of a record that was handed on.\<close>

definition frame_of_client :: "'j json_api \<Rightarrow> muninn_client_options \<Rightarrow> crud_command list \<Rightarrow> u64 set \<Rightarrow> string \<Rightarrow> bool" where
  "frame_of_client js options asked given frame \<longleftrightarrow>
    json_to_text js (hello_to_json js (hello_of options)) = Some frame \<or>
    (\<exists>command. json_to_text js (crud_command_to_json js command) = Some frame \<and> command_of_client asked given command) \<or>
    (\<exists>ack. json_to_text js (ingest_ack_to_json js ack) = Some frame \<and> ia_ok ack \<and> ia_ack_sequence ack \<in> given)"

definition client_ok :: "'j json_api \<Rightarrow> muninn_client_options \<Rightarrow> crud_command list \<Rightarrow> client \<Rightarrow> bool" where
  "client_ok js options asked c \<longleftrightarrow> mc_options c = clamp_options options \<and>
    (mc_last_ack_sequence c = 0 \<or> mc_last_ack_sequence c \<in> delivered c) \<and>
    (\<forall>frame \<in> set (mc_started c) \<union> set (mc_write_queue c) \<union> set (mc_pending_after_hello c).
      frame_of_client js options asked (delivered c) frame) \<and>
    (\<forall>command \<in> set (mc_posted c). command_of_client asked (delivered c) command) \<and>
    (mc_running c \<longrightarrow> mc_socket c \<or> mc_reconnect_timer c \<noteq> None)"

lemma completes_filled:
  "completes wanted sent \<Longrightarrow> cc_request_id sent = [] \<Longrightarrow> completes wanted (sent\<lparr>cc_request_id := request_id\<rparr>)"
  "completes wanted sent \<Longrightarrow> cc_outbox_batch_size sent = 0 \<Longrightarrow> completes wanted (sent\<lparr>cc_outbox_batch_size := items\<rparr>)"
  by (cases wanted; cases sent; simp add: completes_def split: if_splits)+

lemma command_of_client_filled:
  assumes "command_of_client asked given command"
  shows "cc_request_id command = [] \<Longrightarrow> command_of_client asked given (command\<lparr>cc_request_id := request_id\<rparr>)"
    "cc_outbox_batch_size command = 0 \<Longrightarrow> command_of_client asked given (command\<lparr>cc_outbox_batch_size := items\<rparr>)"
  using assms completes_filled unfolding command_of_client_def by blast+

lemma command_of_client_mono:
  "command_of_client asked given command \<Longrightarrow> set asked \<subseteq> set asked' \<Longrightarrow> given \<subseteq> given' \<Longrightarrow> command_of_client asked' given' command"
  unfolding command_of_client_def by blast

lemma clamp_options_keeps [simp]: "hello_of (clamp_options options) = hello_of options"
  by (simp add: clamp_options_def hello_of_def Let_def)

lemma frame_of_client_mono:
  "frame_of_client js options asked given frame \<Longrightarrow> set asked \<subseteq> set asked' \<Longrightarrow> given \<subseteq> given' \<Longrightarrow>
    frame_of_client js options asked' given' frame"
  unfolding frame_of_client_def using command_of_client_mono by blast

lemma client_ok_mono: "client_ok js options asked c \<Longrightarrow> set asked \<subseteq> set asked' \<Longrightarrow> client_ok js options asked' c"
  by (auto simp: client_ok_def intro: frame_of_client_mono [OF _ _ subset_refl] command_of_client_mono [OF _ _ subset_refl])

lemma new_client_ok: "client_ok js options [] (new_client options)"
  by (simp add: client_ok_def new_client_def)

lemma enqueue_ok:
  assumes "client_ok js options asked c" "frame_of_client js options asked (delivered c) frame"
  shows "client_ok js options asked (mc_enqueue_text frame c)" "delivered (mc_enqueue_text frame c) = delivered c"
    "mc_last_ack_sequence (mc_enqueue_text frame c) = mc_last_ack_sequence c"
  using assms by (auto simp: client_ok_def mc_enqueue_text_def mc_do_write_def Let_def delivered_def)

text \<open>A state that differs in what the invariant does not look at, or has less to send.\<close>

lemma client_ok_less:
  assumes "client_ok js options asked c" "delivered c \<subseteq> delivered c'" "mc_last_ack_sequence c' = mc_last_ack_sequence c \<or> mc_last_ack_sequence c' = 0"
    "set (mc_started c') \<subseteq> set (mc_started c) \<union> set (mc_write_queue c)"
    "set (mc_write_queue c') \<subseteq> set (mc_write_queue c)"
    "set (mc_pending_after_hello c') \<subseteq> set (mc_pending_after_hello c)"
    "mc_running c' \<Longrightarrow> mc_socket c' \<or> mc_reconnect_timer c' \<noteq> None"
    "mc_options c' = mc_options c" "set (mc_posted c') \<subseteq> set (mc_posted c)"
  shows "client_ok js options asked c'"
  unfolding client_ok_def
proof (intro conjI ballI)
  show "mc_last_ack_sequence c' = 0 \<or> mc_last_ack_sequence c' \<in> delivered c'"
    using assms(1-3) by (auto simp: client_ok_def)
  show "frame_of_client js options asked (delivered c') frame" if "frame \<in> set (mc_started c') \<union> set (mc_write_queue c') \<union> set (mc_pending_after_hello c')" for frame
  proof -
    have "frame \<in> set (mc_started c) \<union> set (mc_write_queue c) \<union> set (mc_pending_after_hello c)" using that assms(4-6) by blast
    then have "frame_of_client js options asked (delivered c) frame" using assms(1) by (simp add: client_ok_def)
    then show ?thesis using subset_refl assms(2) by (rule frame_of_client_mono)
  qed
  show "mc_options c' = clamp_options options" using assms(1,8) by (simp add: client_ok_def)
  show "command_of_client asked (delivered c') command" if "command \<in> set (mc_posted c')" for command
  proof -
    have "command_of_client asked (delivered c) command" using that assms(1,9) by (auto simp: client_ok_def)
    then show ?thesis using subset_refl assms(2) by (rule command_of_client_mono)
  qed
  show "mc_running c' \<longrightarrow> mc_socket c' \<or> mc_reconnect_timer c' \<noteq> None" using assms(7) by blast
qed

lemma client_ok_runs: "client_ok js options asked c \<Longrightarrow> mc_running c \<Longrightarrow> mc_socket c \<or> mc_reconnect_timer c \<noteq> None"
  by (simp add: client_ok_def)

lemma schedule_reconnect_ok: "client_ok js options asked c \<Longrightarrow> client_ok js options asked (schedule_reconnect rng reason c)"
  by (rule client_ok_less, assumption)
    (auto simp: schedule_reconnect_def notify_connection_state_def Let_def delivered_def dest: client_ok_runs)

lemma start_connect_ok: "client_ok js options asked (c\<lparr>mc_socket := True\<rparr>) \<Longrightarrow> client_ok js options asked (start_connect c)"
  by (rule client_ok_less, assumption) (auto simp: start_connect_def delivered_def)

lemma client_start_ok: "client_ok js options asked c \<Longrightarrow> client_ok js options asked (client_start c)"
  by (rule client_ok_less, assumption) (auto simp: client_start_def start_connect_def delivered_def dest: client_ok_runs)

lemma client_stop_ok: "client_ok js options asked c \<Longrightarrow> client_ok js options asked (client_stop c)"
  by (rule client_ok_less, assumption) (auto simp: client_stop_def delivered_def)

lemma do_write_ok: "client_ok js options asked c \<Longrightarrow> client_ok js options asked (mc_do_write c)"
  by (rule client_ok_less, assumption) (auto simp: mc_do_write_def delivered_def dest: client_ok_runs)

lemma set_tl: "set (tl xs) \<subseteq> set xs"
  by (cases xs) auto

lemma on_write_ok: "client_ok js options asked c \<Longrightarrow> client_ok js options asked (mc_on_write rng error c)"
proof -
  assume ok: "client_ok js options asked c"
  have "client_ok js options asked (c\<lparr>mc_write_queue := tl (mc_write_queue c)\<rparr>)"
    by (rule client_ok_less [OF ok]) (use set_tl [of "mc_write_queue c"] in \<open>auto simp: delivered_def dest: client_ok_runs [OF ok]\<close>)
  then show ?thesis
    using ok by (auto simp: mc_on_write_def Let_def intro: schedule_reconnect_ok do_write_ok)
qed

lemma client_ok_update [simp]:
  "client_ok js options asked (c\<lparr>mc_pull_timer := timer\<rparr>) = client_ok js options asked c"
  "client_ok js options asked (c\<lparr>mc_request_sequence := n\<rparr>) = client_ok js options asked c" "client_ok js options asked (c\<lparr>mc_handshake_complete := h\<rparr>) = client_ok js options asked c"
  "client_ok js options asked (c\<lparr>mc_hello_complete := h\<rparr>) = client_ok js options asked c" "client_ok js options asked (c\<lparr>mc_states := states\<rparr>) = client_ok js options asked c"
  "client_ok js options asked (c\<lparr>mc_reconnect_attempt := attempt\<rparr>) = client_ok js options asked c"
  "client_ok js options asked (c\<lparr>mc_reconnect_recoveries_total := recoveries\<rparr>) = client_ok js options asked c"
  by (simp_all add: client_ok_def delivered_def)

lemma submit_ok:
  assumes "client_ok js options asked c" "command_of_client asked (delivered c) command"
  shows "client_ok js options asked (snd (submit_command command c))"
proof -
  let ?sent = "if cc_outbox_batch_size command = 0
    then command\<lparr>cc_outbox_batch_size := of_nat (max 1 (mo_outbox_batch_size (mc_options c)))\<rparr> else command"
  have "command_of_client asked (delivered c) ?sent" using command_of_client_filled(2) [OF assms(2)] assms(2) by simp
  moreover have "snd (submit_command command c) = c \<or>
      snd (submit_command command c) = c\<lparr>mc_posted := mc_posted c @ [?sent]\<rparr>"
    by (simp add: submit_command_def Let_def)
  moreover have "client_ok js options asked (c\<lparr>mc_posted := mc_posted c @ [sent]\<rparr>)"
    if "command_of_client asked (delivered c) sent" for sent
    using that assms(1) by (simp add: client_ok_def delivered_def ball_Un)
  ultimately show ?thesis using assms(1) by metis
qed

lemma request_read_ok:
  assumes "client_ok js options asked c" "read_command q \<in> set asked \<or> q \<in> insert 0 (delivered c)"
  shows "client_ok js options asked (snd (request_read q c))"
proof -
  have "completes (read_command q) (default_command\<lparr>cc_request_id := i, cc_operation := Read, cc_ack_sequence := q,
      cc_outbox_batch_size := items\<rparr>)" for i items
    by (simp add: completes_def read_command_def default_command_def)
  moreover have "read_command q \<in> set asked \<union> read_command ` insert 0 (delivered c)" using assms(2) by blast
  ultimately have "command_of_client asked (delivered c) (default_command\<lparr>cc_request_id := i, cc_operation := Read,
      cc_ack_sequence := q, cc_outbox_batch_size := items\<rparr>)" for i items
    unfolding command_of_client_def by blast
  with assms(1) show ?thesis
    by (auto simp: request_read_def next_request_id_def Let_def delivered_def intro!: submit_ok)
qed

lemma timers_ok:
  "client_ok js options asked c \<Longrightarrow> client_ok js options asked (on_pull_timer error c)"
  "client_ok js options asked c \<Longrightarrow> client_ok js options asked (schedule_next_pull had_records c)"
proof -
  assume ok: "client_ok js options asked c"
  then have "mc_last_ack_sequence c \<in> insert 0 (delivered (c\<lparr>mc_pull_timer := None\<rparr>))"
    by (auto simp: client_ok_def delivered_def)
  then show "client_ok js options asked (on_pull_timer error c)"
    using ok request_read_ok [of js options asked "c\<lparr>mc_pull_timer := None\<rparr>" "mc_last_ack_sequence c"]
    by (simp add: on_pull_timer_def Let_def)
qed (simp add: schedule_next_pull_def)

lemma on_reconnect_timer_ok: "client_ok js options asked c \<Longrightarrow> client_ok js options asked (on_reconnect_timer error c)"
  by (rule client_ok_less, assumption) (auto simp: on_reconnect_timer_def start_connect_def Let_def delivered_def dest: client_ok_runs)

lemma enqueue_json_ok:
  assumes run: "mc_enqueue_json js payload c = Returned c'" and ok: "client_ok js options asked c"
    and frame: "\<And>frame. json_to_text js payload = Some frame \<Longrightarrow> frame_of_client js options asked (delivered c) frame"
  shows "client_ok js options asked c'" "delivered c' = delivered c" "mc_last_ack_sequence c' = mc_last_ack_sequence c"
proof -
  obtain f where f: "json_to_text js payload = Some f" "c' = mc_enqueue_text f c"
    using run by (auto simp: mc_enqueue_json_def or_throw_Returned)
  from enqueue_ok [OF ok frame [OF f(1)]] show "client_ok js options asked c'" "delivered c' = delivered c" "mc_last_ack_sequence c' = mc_last_ack_sequence c"
    by (simp_all add: f(2))
qed

lemma send_hello_ok:
  assumes run: "send_hello js c = Returned c'" and ok: "client_ok js options asked c"
  shows "client_ok js options asked c'"
proof -
  have "mc_options c = clamp_options options" using ok by (simp add: client_ok_def)
  then have "mc_enqueue_json js (hello_to_json js (hello_of options)) c = Returned c'"
    using run clamp_options_keeps [of options] by (simp only: send_hello_def hello_of_def)
  from enqueue_json_ok(1) [OF this ok] show ?thesis by (simp add: frame_of_client_def)
qed

lemma handshake_ok:
  assumes run: "on_handshake js rng error c = Returned c'" and ok: "client_ok js options asked c" shows "client_ok js options asked c'"
proof -
  show ?thesis
  proof (cases "mc_running c \<and> \<not> error")
    case True
    then have "send_hello js (c\<lparr>mc_handshake_complete := True\<rparr>) = Returned c'" using run by (simp add: on_handshake_def)
    then show ?thesis by (rule send_hello_ok) (simp add: ok)
  next
    case False
    then have "c' = c \<or> c' = schedule_reconnect rng ''handshake_failed'' c"
      using run by (cases "mc_running c") (simp_all add: on_handshake_def)
    then show ?thesis by (elim disjE) (simp_all add: ok schedule_reconnect_ok)
  qed
qed

lemma posted_ok:
  assumes run: "run_posted js c = Returned c'" and ok: "client_ok js options asked c" shows "client_ok js options asked c'"
proof (cases "mc_posted c")
  case Nil
  then show ?thesis using run ok by (simp add: run_posted_def)
next
  case (Cons command rest)
  define q where "q = (if cc_request_id command = [] then next_request_id ''cmd'' (c\<lparr>mc_posted := rest\<rparr>)
    else (cc_request_id command, c\<lparr>mc_posted := rest\<rparr>))"
  have "client_ok js options asked (c\<lparr>mc_posted := rest\<rparr>)"
    by (rule client_ok_less [OF ok]) (auto simp: delivered_def Cons dest: client_ok_runs [OF ok])
  then have d: "client_ok js options asked (snd q)" "delivered (snd q) = delivered c"
    "cc_request_id command \<noteq> [] \<Longrightarrow> fst q = cc_request_id command"
    by (simp_all add: q_def next_request_id_def delivered_def)
  have "command_of_client asked (delivered c) command" using ok Cons by (simp add: client_ok_def)
  then have sent: "command_of_client asked (delivered (snd q)) (command\<lparr>cc_request_id := fst q\<rparr>)"
    unfolding d(2) using command_of_client_filled(1) d(3) by (cases "cc_request_id command = []") simp_all
  have "run_posted js c = or_throw (json_to_text js (crud_command_to_json js (command\<lparr>cc_request_id := fst q\<rparr>)))
      (\<lambda>payload. Returned (if \<not> mc_hello_complete (snd q) then snd q else mc_enqueue_text payload (snd q)))"
    by (simp only: run_posted_def Cons list.case Let_def q_def [symmetric] case_prod_unfold)
  from trans [OF sym [OF this] run, unfolded or_throw_Returned outcome.inject]
  obtain frame where f: "json_to_text js (crud_command_to_json js (command\<lparr>cc_request_id := fst q\<rparr>)) = Some frame"
    "c' = (if \<not> mc_hello_complete (snd q) then snd q else mc_enqueue_text frame (snd q))"
    by blast
  have "frame_of_client js options asked (delivered (snd q)) frame"
    unfolding frame_of_client_def using f(1) sent by blast
  then show ?thesis using enqueue_ok(1) [OF d(1)] d(1) by (simp add: f(2))
qed

lemma flush_ok:
  assumes "client_ok js options asked c" shows "client_ok js options asked (flush_pending_commands c)"
proof -
  have frames: "frame_of_client js options asked (delivered c) frame" if "frame \<in> set (mc_pending_after_hello c)" for frame
    using assms that by (simp add: client_ok_def)
  have fold: "client_ok js options asked d \<Longrightarrow> delivered d = delivered c \<Longrightarrow> set frames \<subseteq> set (mc_pending_after_hello c) \<Longrightarrow>
      client_ok js options asked (fold mc_enqueue_text frames d)" for frames d
    by (induction frames arbitrary: d) (use frames in \<open>auto simp: enqueue_ok\<close>)
  have "client_ok js options asked (c\<lparr>mc_pending_after_hello := []\<rparr>)"
    by (rule client_ok_less [OF assms]) (auto simp: delivered_def dest: client_ok_runs [OF assms])
  then show ?thesis unfolding flush_pending_commands_def by (rule fold) (simp_all add: delivered_def)
qed

lemma max_sequence:
  "fold (\<lambda>record m. max m (tm_sequence record)) records m = m \<or>
    fold (\<lambda>record m. max m (tm_sequence record)) records m \<in> tm_sequence ` set records"
  by (induction records arbitrary: m) (simp, fastforce simp: max_def)

lemma apply_ok:
  assumes run: "apply_crud_result js r c = Returned c'" and ok: "client_ok js options asked c"
  shows "client_ok js options asked c'"
proof -
  let ?c = "c\<lparr>mc_results := mc_results c @ [r]\<rparr>"
  let ?m = "fold (\<lambda>record m. max m (tm_sequence record)) (cr_records r) (mc_last_ack_sequence c)"
  have c: "client_ok js options asked ?c" by (rule client_ok_less [OF ok]) (auto simp: delivered_def dest: client_ok_runs [OF ok])
  have given: "?m \<in> delivered ?c" if "?m > mc_last_ack_sequence c"
    using max_sequence [of "cr_records r" "mc_last_ack_sequence c"] that by (auto simp: delivered_def)
  show ?thesis
  proof (cases "?m > mc_last_ack_sequence c")
    case True
    obtain d where d: "send_ingest_ack js ?m (cr_request_id r) ?c = Returned d"
      "c' = schedule_next_pull (cr_records r \<noteq> []) (d\<lparr>mc_last_ack_sequence := ?m\<rparr>)"
      using run True by (auto simp: apply_crud_result_def Let_def split: outcome.splits)
    have "frame_of_client js options asked (delivered ?c) frame"
      if "json_to_text js (ingest_ack_to_json js (default_ingest_ack\<lparr>ia_request_id := cr_request_id r, ia_ok := True,
        ia_ack_sequence := ?m, ia_message := ''ok''\<rparr>)) = Some frame" for frame
      unfolding frame_of_client_def using that given [OF True]
      by (intro disjI2 exI [of _ "default_ingest_ack\<lparr>ia_request_id := cr_request_id r, ia_ok := True,
        ia_ack_sequence := ?m, ia_message := ''ok''\<rparr>"]) simp
    from enqueue_json_ok [OF d(1) [unfolded send_ingest_ack_def] c this]
    have "client_ok js options asked d" "delivered d = delivered ?c" by simp_all
    then have "client_ok js options asked (d\<lparr>mc_last_ack_sequence := ?m\<rparr>)"
      using given [OF True] by (auto simp: client_ok_def delivered_def)
    then show ?thesis unfolding d(2) by (rule timers_ok)
  next
    case False
    then have "c' = schedule_next_pull (cr_records r \<noteq> []) ?c"
      using run by (simp add: apply_crud_result_def Let_def)
    then show ?thesis using timers_ok(2) [OF c] by simp
  qed
qed

lemma message_ok: "mc_handle_message js rng payload c = Returned c' \<Longrightarrow> client_ok js options asked c \<Longrightarrow> client_ok js options asked c'"
  by (auto simp: mc_handle_message_def or_throw_Returned notify_connection_state_def Let_def split: option.splits if_splits
      intro!: schedule_reconnect_ok timers_ok flush_ok intro: apply_ok)

lemma result_type:
  assumes "json_laws js" "cr_type r = ''crud_result''"
  shows "js_value_string js (crud_result_to_json js r) ''type'' [] = Some ''crud_result''"
  using assms by (simp add: crud_result_to_json_def object_laws)

lemma received_result:
  assumes js: "json_laws js" and r: "result_acceptable r" and frame: "json_to_text js (crud_result_to_json js r) = Some frame"
  shows "mc_handle_message js rng frame c = apply_crud_result js r c"
proof -
  have "text_to_json js frame = Some (crud_result_to_json js r)"
    using text_of_object [OF js] frame by (auto simp: crud_result_to_json_def)
  moreover have "js_is_object js (crud_result_to_json js r)" using js by (simp add: crud_result_to_json_def object_laws)
  moreover have "cr_type r = ''crud_result''" using r by (simp add: result_acceptable_def)
  moreover have "parse_crud_result js (crud_result_to_json js r) = Some (Some r)"
    using parse_crud_result_to_json [OF js, of r] r by simp
  ultimately show ?thesis using result_type [OF js] by (simp add: mc_handle_message_def)
qed

lemma received_hello_ack:
  assumes js: "json_laws js" and ack: "hello_ack_acceptable ack" "ha_accepted ack"
    and frame: "json_to_text js (hello_ack_to_json js ack) = Some frame"
    and c: "mc_reconnect_attempt c = 0" "mc_pending_after_hello c = []"
  shows "mc_handle_message js rng frame c = Returned (let d = notify_connection_state True ''connected'' (c\<lparr>mc_hello_complete := True, mc_reconnect_attempt := 0\<rparr>)
    in if mo_auto_pull_enabled (mc_options c) then schedule_next_pull False d else d)"
proof -
  have "text_to_json js frame = Some (hello_ack_to_json js ack)"
    using text_of_object [OF js] frame by (auto simp: hello_ack_to_json_def)
  moreover have "js_is_object js (hello_ack_to_json js ack)" "js_value_string js (hello_ack_to_json js ack) ''type'' [] = Some (ha_type ack)"
    using js by (simp_all add: hello_ack_to_json_def object_laws)
  moreover have "ha_type ack = ''hello_ack''" using ack by (simp add: hello_ack_acceptable_def)
  moreover have "parse_hello_ack js (hello_ack_to_json js ack) = Some (Some ack)"
    using parse_hello_ack_to_json [OF js, of ack] ack by simp
  moreover have "flush_pending_commands d = d" if "mc_pending_after_hello d = []" for d
    using that by (cases d) (simp add: flush_pending_commands_def)
  ultimately show ?thesis using ack c by (simp add: mc_handle_message_def notify_connection_state_def Let_def)
qed

lemma step_ok_client:
  assumes run: "client_step js rng event c = Returned c'" and before: "client_ok js options asked c"
  shows "client_ok js options (asked @ asked_by event) c'"
proof -
  have ok: "client_ok js options (asked @ asked_by event) c" by (rule client_ok_mono [OF before]) simp
  show ?thesis
  proof (cases event)
    case (Received error payload)
    then show ?thesis using run ok by (auto simp: mc_on_read_def split: if_splits intro: schedule_reconnect_ok message_ok)
  next
    case (Resolved error)
    then show ?thesis using run ok by (auto simp: on_resolve_def schedule_reconnect_ok)
  next
    case (Connected error)
    then show ?thesis using run ok by (auto simp: on_connect_def schedule_reconnect_ok)
  next
    case (Submit command)
    have "completes command command" by (simp add: completes_def)
    then have "command_of_client (asked @ [command]) (delivered c) command" by (auto simp: command_of_client_def)
    then show ?thesis using run ok Submit submit_ok [of js options "asked @ [command]" c command] by simp
  next
    case (Request_read q)
    then show ?thesis using run ok request_read_ok [of js options "asked @ [read_command q]" c q] by simp
  qed (use run ok in \<open>auto simp: client_start_ok client_stop_ok handshake_ok on_write_ok timers_ok on_reconnect_timer_ok posted_ok\<close>)
qed

lemma reachable_client_ok: "reachable_client js options asked c \<Longrightarrow> client_ok js options asked c"
  by (induction rule: reachable_client.induct) (auto intro: new_client_ok step_ok_client)

text \<open>
  C10: whatever happens to a client, in any order, of its own accord it acknowledges only records it was given.  The number it
  pulls from is zero or the number of a record handed to \<open>on_result\<close>.  Every frame it wrote or means to write is one of
  these: the hello of its options; an acknowledgement of a record that was handed to \<open>on_result\<close>; a pull, whose
  acknowledgement is zero or the number of such a record; or a command that another part of Hugin has asked it to
  send (\<open>submit_command\<close>, \<open>request_read\<close>), which is sent as it is but for a request identifier or a batch size
  that was missing.  Such a command carries whatever acknowledgement its sender has put there: the client
  adds none of its own and does not check it.  And a running client never idles without a connection:
  there is a socket, or the timer of the next attempt is set.
\<close>

theorem client_acknowledges_what_it_was_given:
  assumes "reachable_client js options asked c"
  shows "(mc_last_ack_sequence c = 0 \<or> mc_last_ack_sequence c \<in> delivered c) \<and>
    (\<forall>frame \<in> set (mc_started c) \<union> set (mc_write_queue c). frame_of_client js options asked (delivered c) frame) \<and>
    (mc_running c \<longrightarrow> mc_socket c \<or> mc_reconnect_timer c \<noteq> None)"
  using reachable_client_ok [OF assms] by (auto simp: client_ok_def)

definition sample_client_options :: muninn_client_options where
  "sample_client_options = \<lparr>mo_remote_host = ''muninn'', mo_remote_port = 7000, mo_websocket_path = ''/ws'',
    mo_host_id = ''h'', mo_client_instance_id = ''hugin-1'', mo_auth_token = [], mo_auto_pull_enabled = True,
    mo_outbox_batch_size = 64, mo_idle_pull_interval = 1000, mo_hot_pull_interval = 50, mo_reconnect_delay = 250,
    mo_reconnect_max_delay = 10000, mo_reconnect_backoff_factor = 2, mo_reconnect_jitter_percent = 20\<rparr>"

lemma reconnect_delay_bounds_witness:
  "12000 = sint (compute_reconnect_delay (clamp_options sample_client_options) 9 (\<lambda>n. n)) \<and>
    sint (compute_reconnect_delay (clamp_options sample_client_options) 9 (\<lambda>n. n)) \<le> 10000 + 10000 * 20 div 100"
proof -
  have options: "clamp_options sample_client_options = sample_client_options"
    by (simp add: clamp_options_def sample_client_options_def)
  have delay: "sint (compute_reconnect_delay sample_client_options 9 (\<lambda>n. n)) = 12000" by code_simp
  have fields: "mo_reconnect_max_delay sample_client_options = 10000" "mo_reconnect_delay sample_client_options = 250"
    "mo_reconnect_backoff_factor sample_client_options = 2" "mo_reconnect_jitter_percent sample_client_options = 20"
    by (simp_all add: sample_client_options_def)
  from reconnect_delay_bounds [OF refl, of "\<lambda>n. n" sample_client_options 9, unfolded options fields]
  show ?thesis using delay by (simp add: options Let_def)
qed

text \<open>A client connects, is accepted, gets a record, acknowledges it and pulls from there.\<close>

definition sample_delivery :: crud_result where
  "sample_delivery = default_result\<lparr>cr_request_id := ''read-1'', cr_ok := True, cr_message := ''ok'',
    cr_records := [default_record\<lparr>tm_sequence := 5, tm_record_type := 1, tm_payload_b64 := ''AA==''\<rparr>]\<rparr>"

lemma sample_greeted:
  "\<exists>c. reachable_client tree_json sample_client_options [] c \<and> connected c \<and> mc_socket c \<and> mc_last_ack_sequence c = 0 \<and>
    mc_results c = [] \<and> mc_posted c = [] \<and> mc_write_queue c \<noteq> [] \<and> mo_auto_pull_enabled (mc_options c)"
proof -
  let ?step = "client_step tree_json (\<lambda>n. n)"
  let ?c1 = "client_start (new_client sample_client_options)"
  have r1: "reachable_client tree_json sample_client_options [] ?c1"
    using stepped [OF created, of tree_json "\<lambda>n. n" Start] by simp
  obtain c2 where c2: "?step (Handshaken False) ?c1 = Returned c2"
    and fields: "mc_running c2" "mc_handshake_complete c2" "mc_socket c2" "mc_last_ack_sequence c2 = 0" "mc_results c2 = []"
      "mc_posted c2 = []" "mc_write_queue c2 \<noteq> []" "mc_reconnect_attempt c2 = 0" "mc_pending_after_hello c2 = []"
      "mo_auto_pull_enabled (mc_options c2)"
    by (simp add: on_handshake_def send_hello_def mc_enqueue_json_def or_throw_def mc_enqueue_text_def mc_do_write_def
        client_start_def start_connect_def new_client_def clamp_options_def sample_client_options_def Let_def)
  let ?ack = "default_hello_ack\<lparr>ha_accepted := True\<rparr>"
  have "hello_ack_acceptable ?ack" by (simp add: hello_ack_acceptable_def default_hello_ack_def)
  from received_hello_ack [OF tree_json_laws this _ tree_text_json(2) fields(8,9), of "\<lambda>n. n"] fields
  obtain c3 where c3: "?step (Received No_error (tree_text (hello_ack_to_json tree_json ?ack))) c2 = Returned c3"
    "connected c3" "mc_socket c3" "mc_last_ack_sequence c3 = 0" "mc_results c3 = []" "mc_posted c3 = []" "mc_write_queue c3 \<noteq> []"
    "mo_auto_pull_enabled (mc_options c3)"
    by (simp add: mc_on_read_def schedule_next_pull_def notify_connection_state_def connected_def Let_def)
  from stepped [OF stepped [OF r1 c2] c3(1)] c3 show ?thesis by auto
qed

lemma sample_pulled:
  "\<exists>c frame pull. reachable_client tree_json sample_client_options [] c \<and> mc_running c \<and> mc_last_ack_sequence c = 5 \<and>
    frame \<in> set (mc_write_queue c) \<and> json_to_text tree_json (crud_command_to_json tree_json pull) = Some frame \<and>
    cc_ack_sequence pull = 5"
proof -
  let ?step = "client_step tree_json (\<lambda>n. n)"
  obtain c where r: "reachable_client tree_json sample_client_options [] c" and c: "connected c" "mc_socket c"
    "mc_last_ack_sequence c = 0" "mc_results c = []" "mc_posted c = []" "mc_write_queue c \<noteq> []" "mo_auto_pull_enabled (mc_options c)"
    using sample_greeted by blast
  have "result_acceptable sample_delivery"
    by (simp add: result_acceptable_def sample_delivery_def default_result_def default_record_def record_acceptable_def)
  from received_result [OF tree_json_laws this tree_text_json(2), of "\<lambda>n. n" c] c
  obtain c1 where c1: "?step (Received No_error (tree_text (crud_result_to_json tree_json sample_delivery))) c = Returned c1"
    "connected c1" "mc_last_ack_sequence c1 = 5" "mc_posted c1 = []" "mc_write_queue c1 \<noteq> []" "mo_auto_pull_enabled (mc_options c1)"
    by (simp add: mc_on_read_def apply_crud_result_def sample_delivery_def default_record_def default_result_def
        send_ingest_ack_def mc_enqueue_json_def or_throw_def mc_enqueue_text_def schedule_next_pull_def
        connected_def Let_def)
  obtain c2 command where c2: "?step (Pull_timer False) c1 = Returned c2" "connected c2" "mc_last_ack_sequence c2 = 5"
      "mc_posted c2 = [command]" "cc_ack_sequence command = 5" "mc_write_queue c2 \<noteq> []"
    using c1 by (simp add: on_pull_timer_def request_read_def next_request_id_def submit_command_def connected_def Let_def)
  let ?pull = "command\<lparr>cc_request_id := if cc_request_id command = [] then ''cmd-'' @ show_word (mc_request_sequence c2 + 1) else cc_request_id command\<rparr>"
  obtain c3 where c3: "?step Run_posted c2 = Returned c3" "mc_running c3" "mc_last_ack_sequence c3 = 5"
      "tree_text (crud_command_to_json tree_json ?pull) \<in> set (mc_write_queue c3)"
    using c2 by (cases "cc_request_id command = []")
      (simp_all add: run_posted_def next_request_id_def or_throw_def mc_enqueue_text_def connected_def Let_def)
  have "reachable_client tree_json sample_client_options [] c3"
    using stepped [OF stepped [OF stepped [OF r c1(1)] c2(1)] c3(1)] by simp
  then show ?thesis using c3 c2(5)
    by (intro exI [of _ c3] exI [of _ "tree_text (crud_command_to_json tree_json ?pull)"] exI [of _ ?pull])
      simp
qed

theorem client_acknowledges_what_it_was_given_witness:
  "\<exists>c frame pull. reachable_client tree_json sample_client_options [] c \<and> mc_running c \<and>
    (mc_socket c \<or> mc_reconnect_timer c \<noteq> None) \<and> mc_last_ack_sequence c = 5 \<and> 5 \<in> delivered c \<and>
    frame \<in> set (mc_write_queue c) \<and> json_to_text tree_json (crud_command_to_json tree_json pull) = Some frame \<and>
    cc_ack_sequence pull = 5 \<and> frame_of_client tree_json sample_client_options [] (delivered c) frame"
proof -
  obtain c frame pull where c: "reachable_client tree_json sample_client_options [] c" "mc_running c" "mc_last_ack_sequence c = 5"
    "frame \<in> set (mc_write_queue c)" "json_to_text tree_json (crud_command_to_json tree_json pull) = Some frame" "cc_ack_sequence pull = 5"
    using sample_pulled by blast
  show ?thesis
    by (intro exI [of _ c] exI [of _ frame] exI [of _ pull])
      (use client_acknowledges_what_it_was_given [OF c(1)] c in simp)
qed

end
