(* ===== verification/Bridge.thy ===== *)
theory Bridge imports MuninnClient MaterializerDelta begin

text \<open>
  How Hugin puts its parts together, \<open>src/backend/Hugin/main.cpp\<close>: what it does with the records of each answer
  of Muninn (\<open>on_crud_result\<close>), and how it answers the frontend's questions for the tree and for a summary
  of a host (\<open>realtime_tree_handler\<close>, \<open>realtime_snapshot_handler\<close>).

  The theorem at the end goes through the whole system: a snapshot that Muninn captures is, after one read over the
  bridge, the tree that Hugin lists.
\<close>

subsection \<open>Records of an answer\<close>

text \<open>What became of a record; the sources only print it.\<close>

datatype record_outcome = Skipped | Undecodable | Refused status_error | Materialized "unit status_or"

text \<open>\<open>order\<close> is the order in which the unordered map of the sink is visited.\<close>

definition apply_record ::
  "int \<Rightarrow> (materializer \<Rightarrow> string list) \<Rightarrow> transport_record_message \<Rightarrow> materializer \<Rightarrow> record_outcome \<times> materializer" where
  "apply_record now order message sink =
    (case (if tm_record_type message = 1 then Some muninn_record_type.Snapshot
           else if tm_record_type message = 2 then Some muninn_record_type.Delta else None) of
       None \<Rightarrow> (Skipped, sink)
     | Some type \<Rightarrow>
         (case base64_decode (tm_payload_b64 message) of
            None \<Rightarrow> (Undecodable, sink)
          | Some payload \<Rightarrow>
              (case validate_and_decode now \<lparr>mf_type = type, mf_created_at_unix_seconds = tm_created_at message,
                   mf_routing_key = tm_routing_key message, mf_payload = payload\<rparr> [] of
                 Inl e \<Rightarrow> (Refused e, sink)
               | Inr validated \<Rightarrow>
                   (case vr_snapshot validated of
                      Some sn \<Rightarrow> apfst Materialized (mz_apply_snapshot (sn_host_identifier sn) (tm_sequence message) sn sink)
                    | None \<Rightarrow>
                        (case vr_delta validated of
                           Some delta \<Rightarrow> apfst Materialized (mz_apply_delta (order sink) [] (tm_sequence message) delta sink)
                         | None \<Rightarrow> (Materialized (Inr ()), sink))))))"

definition on_crud_result ::
  "int \<Rightarrow> (materializer \<Rightarrow> string list) \<Rightarrow> crud_result \<Rightarrow> materializer \<Rightarrow> materializer" where
  "on_crud_result now order result sink = fold (\<lambda>message sink. snd (apply_record now order message sink)) (cr_records result) sink"

subsection \<open>Answers for the frontend\<close>

definition entry_type_text :: "entry_type \<Rightarrow> string" where
  "entry_type_text type =
    (if type = EntryType_File then ''file'' else if type = EntryType_Directory then ''directory''
     else if type = EntryType_Symlink then ''symlink'' else ''special'')"

definition entry_json :: "'j json_api \<Rightarrow> file_entry \<Rightarrow> 'j" where
  "entry_json js entry = js_object js
    [(''id'', js_number js (fe_id entry)),
     (''parent_id'', js_number js (fe_parent_id entry)),
     (''path'', js_string js (fe_normalized_path entry)),
     (''name'', js_string js (fe_name entry)),
     (''type'', js_string js (entry_type_text (fe_type entry))),
     (''size_bytes'', js_number js (md_size_bytes (fe_metadata entry))),
     (''created_at'', js_integer js (md_created_at (fe_metadata entry))),
     (''modified_at'', js_integer js (md_modified_at (fe_metadata entry))),
     (''accessed_at'', js_integer js (md_accessed_at (fe_metadata entry))),
     (''permissions'', js_number js (ucast (md_permissions (fe_metadata entry))))]"

text \<open>The host asked for, or the one that changed last; the path asked for, or the root of the host.\<close>

definition requested_or_latest_host :: "materializer \<Rightarrow> string \<Rightarrow> string status_or" where
  "requested_or_latest_host sink requested_host = (if requested_host = [] then latest_host_id sink else Inr requested_host)"

definition requested_or_root_path ::
  "(string \<Rightarrow> u64) \<Rightarrow> entry_id list \<Rightarrow> materializer \<Rightarrow> string \<Rightarrow> string \<Rightarrow> string status_or" where
  "requested_or_root_path depth order sink host_id requested_path =
    (if requested_path = [] then root_path depth order sink host_id else Inr requested_path)"

definition realtime_tree_handler ::
  "'j json_api \<Rightarrow> (string \<Rightarrow> u64) \<Rightarrow> (string \<Rightarrow> entry_id list) \<Rightarrow> materializer \<Rightarrow> string \<Rightarrow> string \<Rightarrow> 'j status_or" where
  "realtime_tree_handler js depth order sink requested_host requested_path =
    sum_bind (requested_or_latest_host sink requested_host) (\<lambda>host_id.
    sum_bind (requested_or_root_path depth (order host_id) sink host_id requested_path) (\<lambda>path.
    sum_bind (list_children (order host_id) sink host_id path) (\<lambda>children.
    sum_bind (last_snapshot_id sink host_id) (\<lambda>snapshot_id.
    Inr (js_object js
      [(''ok'', js_bool js True), (''host_id'', js_string js host_id), (''path'', js_string js path),
       (''snapshot_id'', js_number js snapshot_id), (''entries'', js_array js (map (entry_json js) children))])))))"

definition realtime_snapshot_handler ::
  "'j json_api \<Rightarrow> (string \<Rightarrow> u64) \<Rightarrow> (string \<Rightarrow> entry_id list) \<Rightarrow> materializer \<Rightarrow> string \<Rightarrow> string \<Rightarrow> bool \<Rightarrow> 'j status_or" where
  "realtime_snapshot_handler js depth order sink requested_host requested_path include_entries =
    sum_bind (requested_or_latest_host sink requested_host) (\<lambda>host_id.
    sum_bind (last_snapshot_id sink host_id) (\<lambda>snapshot_id.
    sum_bind (last_sequence sink host_id) (\<lambda>sequence.
    sum_bind (entry_count sink host_id) (\<lambda>count.
    sum_bind (requested_or_root_path depth (order host_id) sink host_id requested_path) (\<lambda>path.
    let response =
      [(''ok'', js_bool js True), (''host_id'', js_string js host_id), (''snapshot_id'', js_number js snapshot_id),
       (''last_sequence'', js_number js sequence), (''entry_count'', js_number js (of_nat count)),
       (''path'', js_string js path), (''include_entries'', js_bool js include_entries)]
    in if \<not> include_entries then Inr (js_object js response)
       else sum_bind (list_children (order host_id) sink host_id path) (\<lambda>children.
         Inr (js_object js (response @ [(''entries'', js_array js (map (entry_json js) children))]))))))))"

text \<open>The log of the bridge's state is written when it changes: \<open>last_connected\<close> and whether to print.\<close>

definition on_connection_state :: "bool \<Rightarrow> bool option \<Rightarrow> bool option \<times> bool" where
  "on_connection_state is_connected last_connected =
    (if last_connected = Some is_connected then (last_connected, False) else (Some is_connected, True))"

subsection \<open>A snapshot in the records\<close>

lemma apply_record_snapshot:
  assumes "tm_record_type message = 1" "base64_decode (tm_payload_b64 message) = Some payload"
    "deserialize_snapshot_binary payload = Inr (sn, rest)" "snapshot_acceptable sn" "tm_routing_key message = sn_host_identifier sn"
  shows "apply_record now order message sink =
    apfst Materialized (mz_apply_snapshot (sn_host_identifier sn) (tm_sequence message) sn sink)"
proof -
  let ?frame = "\<lparr>mf_type = muninn_record_type.Snapshot, mf_created_at_unix_seconds = tm_created_at message,
    mf_routing_key = tm_routing_key message, mf_payload = payload\<rparr>"
  have "validate_and_decode now ?frame [] = Inr \<lparr>vr_frame = ?frame, vr_snapshot = Some sn, vr_delta = None\<rparr>"
    using assms by (subst validate_and_decode_snapshot) auto
  then show ?thesis using assms(1,2) by (simp add: apply_record_def)
qed

lemma on_crud_result_last:
  "cr_records result = messages @ [message] \<Longrightarrow> on_crud_result now order result sink =
    snd (apply_record now order message (fold (\<lambda>message sink. snd (apply_record now order message sink)) messages sink))"
  by (simp add: on_crud_result_def)

subsection \<open>The client's end\<close>

lemma enqueued_frame_results: "mc_enqueue_json js payload c = outcome.Returned c' \<Longrightarrow> mc_results c' = mc_results c"
  by (auto simp: mc_enqueue_json_def or_throw_Returned mc_enqueue_text_def mc_do_write_def Let_def)

lemma pulled_select [simp]:
  "mc_results (schedule_next_pull had_records c) = mc_results c"
  "mc_last_ack_sequence (schedule_next_pull had_records c) = mc_last_ack_sequence c"
  by (simp_all add: schedule_next_pull_def)

lemma fold_max_start: "a \<le> fold (\<lambda>record m. max m (f record)) records (a :: u64)"
proof (induction records arbitrary: a)
  case (Cons y ys)
  have "a \<le> max a (f y)" by simp
  also have "\<dots> \<le> fold (\<lambda>record m. max m (f record)) ys (max a (f y))" by (rule Cons.IH)
  finally show ?case by simp
qed simp

lemma fold_max_member: "x \<in> set records \<Longrightarrow> f x \<le> fold (\<lambda>record m. max m (f record)) records (a :: u64)"
proof (induction records arbitrary: a)
  case (Cons y ys)
  show ?case
  proof (cases "x \<in> set ys")
    case True
    then show ?thesis using Cons.IH [of "max a (f y)"] by simp
  next
    case False
    have "f x \<le> max a (f y)" using Cons.prems False by simp
    also have "\<dots> \<le> fold (\<lambda>record m. max m (f record)) ys (max a (f y))" by (rule fold_max_start)
    finally show ?thesis by simp
  qed
qed simp

lemma apply_crud_result_given:
  assumes "apply_crud_result js r c = outcome.Returned c'"
  shows "mc_results c' = mc_results c @ [r]" "message \<in> set (cr_records r) \<Longrightarrow> tm_sequence message \<le> mc_last_ack_sequence c'"
proof -
  let ?m = "fold (\<lambda>record m. max m (tm_sequence record)) (cr_records r) (mc_last_ack_sequence c)"
  have "mc_results c' = mc_results c @ [r] \<and> ?m \<le> mc_last_ack_sequence c'"
  proof (cases "?m > mc_last_ack_sequence c")
    case True
    then obtain d where d: "send_ingest_ack js ?m (cr_request_id r) (c\<lparr>mc_results := mc_results c @ [r]\<rparr>) = outcome.Returned d"
      "c' = schedule_next_pull (cr_records r \<noteq> []) (d\<lparr>mc_last_ack_sequence := ?m\<rparr>)"
      using assms by (auto simp: apply_crud_result_def Let_def split: outcome.splits)
    show ?thesis using enqueued_frame_results [OF d(1) [unfolded send_ingest_ack_def]] by (simp add: d(2))
  next
    case False
    then show ?thesis using assms by (auto simp: apply_crud_result_def Let_def)
  qed
  then show "mc_results c' = mc_results c @ [r]" "message \<in> set (cr_records r) \<Longrightarrow> tm_sequence message \<le> mc_last_ack_sequence c'"
    using fold_max_member [of message "cr_records r" tm_sequence "mc_last_ack_sequence c"] by auto
qed

subsection \<open>From the capture to the listing\<close>

lemma sorted_list_with_last:
  assumes "finite U" "q \<in> U" "\<And>x. x \<in> U \<Longrightarrow> x \<le> (q :: 'a :: linorder)"
  shows "sorted_list_of_set U = sorted_list_of_set (U - {q}) @ [q]"
proof (rule sorted_distinct_set_unique)
  show "sorted (sorted_list_of_set (U - {q}) @ [q])" using assms by (auto simp: sorted_append)
  show "set (sorted_list_of_set U) = set (sorted_list_of_set (U - {q}) @ [q])" using assms by auto
qed (use assms in auto)

text \<open>The record that a capture leaves in the outbox.\<close>

lemma captured_record:
  assumes laws: "lmdb_laws api contents" and ok: "store_ok (store_contents contents s)" "room 1 (store_contents contents s)"
    and tree: "scan_tree (scan fs root options)"
    and capture: "capture_snapshot api fs clock root options True s = Some (r, s1)" "pipeline_ok r"
    and sn: "sn = br_snapshot (pr_snapshot_build r)" and q: "q = next_sequence (store_contents contents s)"
    and m1: "m1 = store_contents contents s1"
  shows "store_ok m1" "snapshot_acceptable sn" "\<exists>payload. payload \<noteq> [] \<and> deserialize_snapshot_binary payload = Inr (sn, []) \<and>
      record_at m1 q = \<lparr>tr_sequence = q, tr_created_at = ck_snapshot_record clock, tr_type = Transport_Snapshot,
        tr_routing_key = sn_host_identifier sn, tr_payload = payload\<rparr>"
    "outbox m1 q \<noteq> None" "\<forall>p. outbox m1 p \<noteq> None \<longrightarrow> p \<le> q \<and> p \<noteq> 0"
proof -
  have stored: "\<not> has_errors (validate_snapshot 0 sn) \<and> (\<exists>payload. serialize_snapshot_binary sn [] = Inr payload \<and>
      frame_fits (sn_host_identifier sn) payload \<and> outbox m1 = (outbox (store_contents contents s))
        (q \<mapsto> serialize_frame Transport_Snapshot (sn_host_identifier sn) payload (ck_snapshot_record clock)))"
    using captured_snapshot_is_stored [OF laws tree capture(1) refl m1 sn, of 0] capture(2) q by auto
  then obtain payload where p: "serialize_snapshot_binary sn [] = Inr payload" "frame_fits (sn_host_identifier sn) payload"
    and outbox: "outbox m1 = (outbox (store_contents contents s))
        (q \<mapsto> serialize_frame Transport_Snapshot (sn_host_identifier sn) payload (ck_snapshot_record clock))" by blast
  show "store_ok m1"
    using between_ok [OF laws ok(1) ok(2) _ capture_snapshot_calls [OF capture(1)]] m1 by simp
  show "snapshot_acceptable sn" using stored validate_snapshot_errors by blast
  have "snapshot_ok sn" "payload = snapshot_layout sn"
    using p(1) by (simp_all add: snapshots.wr_Inr_iff)
  then have "payload \<noteq> []" "deserialize_snapshot_binary payload = Inr (sn, [])"
    by (simp_all add: snapshot_layout_not_Nil snapshots.rd_enc_alone)
  moreover have "record_at m1 q = \<lparr>tr_sequence = q, tr_created_at = ck_snapshot_record clock, tr_type = Transport_Snapshot,
      tr_routing_key = sn_host_identifier sn, tr_payload = payload\<rparr>"
    using p(2) by (simp add: record_at_def outbox serialize_frame_layout frame_fits_def parse_frame_layout blank_record_def)
  ultimately show "\<exists>payload. payload \<noteq> [] \<and> deserialize_snapshot_binary payload = Inr (sn, []) \<and>
      record_at m1 q = \<lparr>tr_sequence = q, tr_created_at = ck_snapshot_record clock, tr_type = Transport_Snapshot,
        tr_routing_key = sn_host_identifier sn, tr_payload = payload\<rparr>" by blast
  show "outbox m1 q \<noteq> None" by (simp add: outbox)
  have "p \<le> q \<and> p \<noteq> 0" if "outbox m1 p \<noteq> None" for p
  proof (cases "p = q")
    case True
    then show ?thesis using ok(1) q by (simp add: store_ok_def)
  next
    case False
    then have "outbox (store_contents contents s) p \<noteq> None" using that by (simp add: outbox)
    then obtain raw where "outbox (store_contents contents s) p = Some raw" by blast
    from outbox_okD [OF _ this] show ?thesis using ok(1) q by (auto simp: store_ok_def)
  qed
  then show "\<forall>p. outbox m1 p \<noteq> None \<longrightarrow> p \<le> q \<and> p \<noteq> 0" by blast
qed

text \<open>The read after it: the captured record is the last one of the answer.\<close>

lemma read_after_capture:
  assumes laws: "lmdb_laws api contents" and ok: "store_ok m1" and m1: "m1 = store_contents contents s1"
    and top: "outbox m1 q \<noteq> None" "\<forall>p. outbox m1 p \<noteq> None \<longrightarrow> p \<le> q \<and> p \<noteq> 0"
    and new: "\<forall>a. acked m1 c = Some a \<longrightarrow> a < q" "cc_ack_sequence command < q"
    and batch: "card (unacked m1 c) \<le> unat (cc_outbox_batch_size command)"
    and payloads: "\<forall>p \<in> unacked m1 c. tr_payload (record_at m1 p) \<noteq> []"
    and read: "cc_operation command = Read" "cc_request_id command \<noteq> []"
    and run: "process api fs clock options command c s1 = Some (result, s2)" "cr_ok result"
  shows "result_acceptable result" "\<exists>messages. cr_records result = messages @ [record_message (record_at m1 q)]"
proof -
  define m2 where "m2 = store_contents contents s2"
  have fin: "finite A" for A :: "u64 set" by simp
  have q: "q \<in> unacked m1 c" using top(1) new(1) by (auto simp: unacked_def split: option.split)
  then have "0 < card (unacked m1 c)" using fin by (auto simp: card_gt_0_iff)
  then have size: "cc_outbox_batch_size command > 0" using batch by (simp add: word_less_nat_alt)
  have acked2: "acked_only c (cc_ack_sequence command) m1 m2"
  proof -
    obtain status where "ack_of_command api command c s1 = (status, s2)"
      using run read by (auto simp: process_def Let_def remote_mutating_commands_allowed_def run_operation_def default_result_def
          split: prod.splits sum.splits dest: answer_batch_same)
    from ack_of_command_effect(1) [OF laws this] show ?thesis by (simp add: m1 m2_def)
  qed
  have low: "a < q" if "acked m2 c = Some a" for a
    using acked2 that new by (cases "acked m1 c") (auto simp: acked_only_def max_def split: if_splits)
  have same: "outbox m2 = outbox m1" "record_at m2 = record_at m1"
    using acked2 by (auto simp: acked_only_def outbox_def record_at_def fun_eq_iff)
  note answer = read_answer [OF laws ok [unfolded m1] read(1) size run(1) m2_def _ run(2)]
  have no_wrap: "acked m2 c \<noteq> Some (- 1)"
  proof
    assume "acked m2 c = Some (- 1)"
    from low [OF this] show False by (simp add: word_less_nat_alt unsigned_minus_1_eq_mask mask_eq_exp_minus_1)
      (use unsigned_less [of q, where ?'a = nat] in simp)
  qed
  note r = answer(1) [OF no_wrap, unfolded same]
  have sub: "unacked m2 c \<subseteq> unacked m1 c"
    using acked2 by (auto simp: unacked_def same acked_only_def max_def split: option.splits if_splits)
  have q2: "q \<in> unacked m2 c" using top(1) low by (auto simp: unacked_def same split: option.split)
  have le: "x \<le> q" if "x \<in> unacked m2 c" for x using that top(2) by (auto simp: unacked_def same)
  have "card (unacked m2 c) \<le> unat (cc_outbox_batch_size command)" using card_mono [OF fin sub] batch by simp
  then have all: "take (unat (cc_outbox_batch_size command)) (sorted_list_of_set (unacked m2 c)) =
      sorted_list_of_set (unacked m2 c - {q}) @ [q]"
    using take_all [of "sorted_list_of_set (unacked m2 c)"] sorted_list_with_last [OF fin q2 le] by (metis length_sorted_list_of_set)
  then show "\<exists>messages. cr_records result = messages @ [record_message (record_at m1 q)]"
    by (subst r) simp
  have "record_acceptable (record_message (record_at m1 p))" if "p \<in> unacked m2 c" for p
  proof -
    have p: "p \<in> unacked m1 c" using that sub by blast
    then have "outbox m1 p \<noteq> None" by (simp add: unacked_def)
    then obtain raw where "outbox m1 p = Some raw" by blast
    moreover from this have "stored_frame_ok p raw" using outbox_okD [OF _ \<open>outbox m1 p = Some raw\<close>] ok by (simp add: store_ok_def)
    ultimately have "tr_sequence (record_at m1 p) = p" by (rule record_at_sequence)
    then show ?thesis using top(2) [rule_format, of p] \<open>outbox m1 p = Some raw\<close> payloads p
      by (auto simp: record_acceptable_def record_message_def base64_encode_Nil_iff)
  qed
  then show "result_acceptable result"
    by (subst r) (auto simp: result_acceptable_def default_result_def read(2) list_all_iff dest!: in_set_takeD)
qed

lemma built_snapshot_id: "hm_last_snapshot_id (build_from_snapshot sn q) = sn_snapshot_id sn"
proof -
  have "hm_last_snapshot_id (fold index_entry es state) = hm_last_snapshot_id state" for es state
    by (induction es arbitrary: state) (simp_all add: index_entry_def)
  then show ?thesis by (simp add: build_from_snapshot_def)
qed

text \<open>
  C1: the system from end to end.  Muninn captures a directory tree; a client of the bridge that has not acknowledged
  what does not exist yet reads, with a batch that has room for what it is owed; the answer is sent as text
  and handled by the client.  Then the client has been given exactly that answer and acknowledges at least up
  to the new snapshot, and whatever Hugin showed before, its tree handler now answers for every directory of
  the captured tree, for the host by name or as the latest one, with exactly the entries captured there,
  directories first and then by name.
\<close>

theorem captured_snapshot_reaches_the_frontend:
  assumes js: "json_laws js" and laws: "lmdb_laws api contents"
    and ok: "store_ok (store_contents contents s)" "room 1 (store_contents contents s)"
    and tree: "scan_tree (scan fs root options)"
    and capture: "capture_snapshot api fs clock root options True s = Some (r, s1)" "pipeline_ok r"
    and sn: "sn = br_snapshot (pr_snapshot_build r)" and q: "q = next_sequence (store_contents contents s)"
    and m1: "m1 = store_contents contents s1"
    and new: "\<forall>a. acked m1 c = Some a \<longrightarrow> a < q" "cc_ack_sequence command < q"
    and batch: "card (unacked m1 c) \<le> unat (cc_outbox_batch_size command)"
    and payloads: "\<forall>p \<in> unacked m1 c. tr_payload (record_at m1 p) \<noteq> []"
    and read: "cc_operation command = Read" "cc_request_id command \<noteq> []"
    and run: "process api fs' clock' server_options command c s1 = Some (result, s2)" "cr_ok result"
    and frame: "json_to_text js (crud_result_to_json js result) = Some frame"
    and client: "mc_handle_message js rng frame cl = outcome.Returned cl'"
    and e: "e \<in> set (sn_entries sn)" "fe_type e = EntryType_Directory"
    and order: "set order = fe_id ` set (sn_entries sn)" "distinct order"
    and host: "host = sn_host_identifier sn" "requested = [] \<or> requested = host"
  shows "mc_results cl' = mc_results cl @ [result] \<and> q \<le> mc_last_ack_sequence cl' \<and>
    (\<exists>children. mset children = mset (filter (\<lambda>c. fe_parent_id c = fe_id e) (sn_entries sn)) \<and>
      sorted (map listing_key children) \<and>
      realtime_tree_handler js depth (\<lambda>_. order) (on_crud_result now orders result sink) requested (fe_normalized_path e) =
        Inr (js_object js [(''ok'', js_bool js True), (''host_id'', js_string js host),
          (''path'', js_string js (fe_normalized_path e)), (''snapshot_id'', js_number js (sn_snapshot_id sn)),
          (''entries'', js_array js (map (entry_json js) children))]))"
proof -
  note captured = captured_record [OF laws ok tree capture sn q m1]
  obtain payload where payload: "deserialize_snapshot_binary payload = Inr (sn, [])"
    "record_at m1 q = \<lparr>tr_sequence = q, tr_created_at = ck_snapshot_record clock, tr_type = Transport_Snapshot,
      tr_routing_key = sn_host_identifier sn, tr_payload = payload\<rparr>" using captured(3) by blast
  note answer = read_after_capture [OF laws captured(1) m1 captured(4,5) new batch payloads read run]
  obtain messages where messages: "cr_records result = messages @ [record_message (record_at m1 q)]" using answer(2) by blast
  let ?message = "record_message (record_at m1 q)"
  let ?sink = "fold (\<lambda>message sink. snd (apply_record now orders message sink)) messages sink"
  have applied: "on_crud_result now orders result sink = snd (mz_apply_snapshot host q sn ?sink)"
    using on_crud_result_last [OF messages] apply_record_snapshot [OF _ _ payload(1) captured(2), of ?message now orders ?sink]
    by (simp add: payload(2) record_message_def base64_decode_encode host(1))
  note given = apply_crud_result_given [OF client [unfolded received_result [OF js answer(1) frame]]]
  have "?message \<in> set (cr_records result)" by (simp add: messages)
  from given(2) [OF this] have acked: "q \<le> mc_last_ack_sequence cl'" by (simp add: record_message_def payload(2))
  have valid: "\<not> has_errors (validate_snapshot 0 sn)" using captured(2) validate_snapshot_errors by blast
  have "host \<noteq> []" using captured(2) host(1) by (simp add: snapshot_acceptable_def)
  from applied_snapshot_is_listed [OF valid this e order, of q ?sink]
  obtain sink' children where listed: "mz_apply_snapshot host q sn ?sink = (Inr (), sink')"
    "list_children order sink' host (fe_normalized_path e) = Inr children"
    "mset children = mset (filter (\<lambda>c. fe_parent_id c = fe_id e) (sn_entries sn))" "sorted (map listing_key children)" by blast
  have sink': "mz_states sink' host = Some (build_from_snapshot sn q)" "mz_last_updated_host_id sink' = host"
    using listed(1) \<open>host \<noteq> []\<close> by (auto simp: mz_apply_snapshot_def Let_def split: if_splits)
  have "requested_or_latest_host sink' requested = Inr host"
    using sink' host(2) \<open>host \<noteq> []\<close> by (auto simp: requested_or_latest_host_def latest_host_id_def)
  moreover have "fe_normalized_path e \<noteq> []" using acceptable_paths [OF captured(2) e(1)] by simp
  moreover have "last_snapshot_id sink' host = Inr (sn_snapshot_id sn)"
    using sink'(1) \<open>host \<noteq> []\<close> by (simp add: last_snapshot_id_def host_state_of_def built_snapshot_id)
  ultimately have "realtime_tree_handler js depth (\<lambda>_. order) sink' requested (fe_normalized_path e) =
      Inr (js_object js [(''ok'', js_bool js True), (''host_id'', js_string js host),
        (''path'', js_string js (fe_normalized_path e)), (''snapshot_id'', js_number js (sn_snapshot_id sn)),
        (''entries'', js_array js (map (entry_json js) children))])"
    by (simp add: realtime_tree_handler_def requested_or_root_path_def listed(2))
  then show ?thesis using given(1) acked listed(3,4) by (auto simp: applied listed(1))
qed

subsection \<open>Example\<close>

text \<open>A root directory without entries, captured into an empty database.\<close>

definition small_tree :: file_system where
  "small_tree = example_fs [''/r''] [] []"

definition small_scan :: raw_scan_result where
  "small_scan = \<lparr>rs_host_identifier = ''h'', rs_root_path = ''/r'', rs_scanned_at = 0,
    rs_entries = [\<lparr>rw_normalized_path = ''/r'', rw_parent_path = [], rw_name = ''r'', rw_type = EntryType_Directory,
      rw_metadata = \<lparr>md_size_bytes = 0, md_created_at = 0, md_modified_at = 0, md_accessed_at = 0, md_permissions = 0,
        md_file_id = 0, md_device_id = 0, md_content_hash = None\<rparr>\<rparr>],
    rs_diagnostics = []\<rparr>"

lemma scan_small: "scan small_tree ''/r'' (example_options []) = small_scan"
  by code_simp

lemma small_scan_tree: "scan_tree small_scan"
  by code_simp

definition small_snapshot :: "entry_id \<Rightarrow> snapshot_id \<Rightarrow> snapshot" where
  "small_snapshot i j = \<lparr>sn_schema = kCurrentSchemaHeader, sn_snapshot_id = j, sn_created_at = 0, sn_host_identifier = ''h'',
    sn_root_entry_id = i, sn_entries = [\<lparr>fe_id = i, fe_parent_id = 0, fe_normalized_path = ''/r'', fe_name = ''r'',
      fe_type = EntryType_Directory, fe_metadata = rw_metadata (hd (rs_entries small_scan))\<rparr>]\<rparr>"

lemma build_small: "\<exists>b i j. build small_scan default_build_options = Some b \<and> br_snapshot b = small_snapshot i j"
proof -
  let ?e = "hd (rs_entries small_scan)"
  let ?i = "candidate_id (make_base_stable_key ?e ''/r'')"
  have path: "normalize_path_lexical ''/r'' = ''/r''" by code_simp
  have "build small_scan default_build_options = Some \<lparr>br_snapshot = small_snapshot ?i (compute_snapshot_id (small_snapshot ?i 0)),
      br_diagnostics = []\<rparr>"
    by (simp add: build_def small_scan_def path add_raw_entry_def generate_stable_id_def stable_id_loop_free
        default_build_options_def fallback_root_def small_snapshot_def Let_def)
  then show ?thesis by (intro exI conjI) (assumption, simp)
qed

lemma small_snapshot_ok: "snapshot_ok (small_snapshot i j)"
  by (simp add: snapshot_ok_def small_snapshot_def entry_ok_def string_ok_def kMaxStringLength_def kMaxBinaryEntries_def)

lemma length_small_layout: "length (snapshot_layout (small_snapshot i j)) < 1000"
  by (simp add: snapshot_layout_def small_snapshot_def header_layout_def schema_layout_def entry_layout_def string_layout_def
      metadata_layout_def small_scan_def)


definition empty_store :: "list_db lmdb_handle" where
  "empty_store = \<lparr>lh_env = Some (\<lambda>_. []), lh_open = True\<rparr>"

definition small_frame :: "entry_id \<Rightarrow> snapshot_id \<Rightarrow> bytes" where
  "small_frame i j = serialize_frame Transport_Snapshot ''h'' (snapshot_layout (small_snapshot i j)) 5"

definition small_store :: "entry_id \<Rightarrow> snapshot_id \<Rightarrow> list_db lmdb_handle" where
  "small_store i j = \<lparr>lh_env = Some ((\<lambda>_. [])
      (kDbSnapshots := [(encode_u64_be j, snapshot_layout (small_snapshot i j))],
       kDbMeta := [(string_bytes kKeyNextSequence, encode_u64_be 2)],
       kDbTransport := [(encode_u64_be 1, small_frame i j)])), lh_open = True\<rparr>"

lemma length_small_frame: "length (small_frame i j) < 2000"
  using length_small_layout [of i j] by (simp add: small_frame_def length_serialize_frame)

lemma put_small:
  "put_snapshot_with_transport (faultless_lmdb f) now 5 (small_snapshot i j) True False empty_store = (Inr (Some 1), small_store i j)"
proof -
  have p: "prepare_snapshot now False (small_snapshot i j) = Inr (snapshot_layout (small_snapshot i j))"
    using serialize_snapshot_ok [OF small_snapshot_ok, of i j "[]"] by (simp add: prepare_snapshot_Inr)
  have host: "sn_host_identifier (small_snapshot i j) = ''h''" "sn_snapshot_id (small_snapshot i j) = j" by (simp_all add: small_snapshot_def)
  show ?thesis
    using length_small_layout [of i j] length_small_frame [of i j]
    by (simp add: put_snapshot_with_transport_def p host in_write_txn_def finish_txn_def store_begin_txn_def store_put_blob_def
        enqueue_transport_record_in_txn_def reserve_next_sequence_def read_next_sequence_def write_next_sequence_def
        is_open_def empty_store_def faultless_lmdb_def small_store_def small_frame_def)
qed


lemma small_capture:
  "\<exists>r i j. capture_snapshot (faultless_lmdb (\<lambda>_. [])) small_tree sample_clock ''/r'' (example_options []) True empty_store =
    Some (r, small_store i j) \<and> pipeline_ok r \<and> br_snapshot (pr_snapshot_build r) = small_snapshot i j"
proof -
  obtain b i j where b: "build small_scan default_build_options = Some b" "br_snapshot b = small_snapshot i j"
    using build_small by blast
  have valid: "\<not> has_errors (validate_snapshot now (small_snapshot i j))" for now
    using built_validates [OF small_scan_tree b(1)] by (simp add: b(2))
  let ?r = "begin_result sample_clock small_scan b"
  have "capture_snapshot (faultless_lmdb (\<lambda>_. [])) small_tree sample_clock ''/r'' (example_options []) True empty_store =
      Some (?r, small_store i j)"
    using put_small [of "\<lambda>_. []" 0 i j] by (simp add: capture_snapshot_def scan_small b valid sample_clock_def Let_def)
  moreover have "pipeline_ok ?r" by (simp add: pipeline_ok_def b valid)
  ultimately show ?thesis using b(2) by (intro exI conjI) (assumption | simp)+
qed

lemma small_frame_parsed: "parse_frame (small_frame i j) out = Inr (out\<lparr>tr_type := Transport_Snapshot, tr_created_at := 5,
    tr_routing_key := ''h'', tr_payload := snapshot_layout (small_snapshot i j)\<rparr>)"
  using length_small_layout [of i j] by (simp add: small_frame_def serialize_frame_layout parse_frame_layout fits_u32_def)

lemma small_read:
  "\<exists>result. process (faultless_lmdb (\<lambda>_. [])) fs clock sample_options (default_command\<lparr>cc_request_id := ''q''\<rparr>) ''c'' (small_store i j) =
    Some (result, small_store i j) \<and> cr_ok result"
proof -
  have "\<exists>records. fetch_transport_batch_for_consumer (faultless_lmdb (\<lambda>_. [])) ''c'' 64 (small_store i j) = Some (Inr records)"
    by (simp add: fetch_transport_batch_for_consumer_def small_store_def is_open_def store_begin_txn_def faultless_lmdb_def
        read_consumer_ack_sequence_def store_error_def walk_def cursor_loop.simps least_record_def fetch_record_def
        small_frame_parsed)
  then show ?thesis
    by (auto simp: process_def Let_def ack_of_command_def default_command_def run_operation_def
        remote_mutating_commands_allowed_def answer_batch_def append_transport_records_def batch_size_of_def)
qed


lemma small_contents:
  assumes "m = store_contents list_contents (small_store i j)"
  shows "unacked m c = {1}" "tr_payload (record_at m 1) = snapshot_layout (small_snapshot i j)" "acked m c = None" "outbox m 1 \<noteq> None"
    "\<forall>p. outbox m p \<noteq> None \<longrightarrow> p \<le> 1 \<and> p \<noteq> 0"
proof -
  have o: "outbox m p = (if p = 1 then Some (small_frame i j) else None)" for p
    by (simp add: assms small_store_def outbox_def list_contents_def)
  show a: "acked m c = None" by (simp add: assms small_store_def acked_def list_contents_def)
  show "unacked m c = {1}" by (auto simp: unacked_def o a)
  show "tr_payload (record_at m 1) = snapshot_layout (small_snapshot i j)" by (simp add: record_at_def o small_frame_parsed)
  show "outbox m 1 \<noteq> None" "\<forall>p. outbox m p \<noteq> None \<longrightarrow> p \<le> 1 \<and> p \<noteq> 0" by (auto simp: o)
qed

lemma empty_contents: "store_ok (store_contents list_contents empty_store)" "next_sequence (store_contents list_contents empty_store) = 1"
proof -
  show n: "next_sequence (store_contents list_contents empty_store) = 1"
    by (simp add: empty_store_def next_sequence_def list_contents_def)
  then show "store_ok (store_contents list_contents empty_store)"
    by (simp add: store_ok_def outbox_ok_def consumers_ok_def empty_store_def list_contents_def)
qed

lemma tree_client_returns: "\<exists>c'. apply_crud_result tree_json r c = outcome.Returned c'"
  by (simp add: apply_crud_result_def send_ingest_ack_def mc_enqueue_json_def json_to_text_def tree_json_def Let_def)

theorem captured_snapshot_reaches_the_frontend_witness:
  "\<exists>r result i j (cl' :: client). pipeline_ok r \<and> cr_ok result \<and>
    mc_results cl' = [result] \<and> 1 \<le> mc_last_ack_sequence cl' \<and>
    (\<exists>children. realtime_tree_handler tree_json (\<lambda>_. 0) (\<lambda>_. [i])
        (on_crud_result 0 (\<lambda>_. []) result \<lparr>mz_states = Map.empty, mz_last_updated_host_id = []\<rparr>) [] ''/r'' =
      Inr (js_object tree_json [(''ok'', js_bool tree_json True), (''host_id'', js_string tree_json ''h''),
        (''path'', js_string tree_json ''/r''), (''snapshot_id'', js_number tree_json j),
        (''entries'', js_array tree_json (map (entry_json tree_json) children))]))"
proof -
  let ?api = "faultless_lmdb (\<lambda>_. [])" and ?command = "default_command\<lparr>cc_request_id := ''q''\<rparr>"
  let ?cl = "new_client sample_client_options"
  obtain r i j where capture: "capture_snapshot ?api small_tree sample_clock ''/r'' (example_options []) True empty_store =
      Some (r, small_store i j)" "pipeline_ok r" and sn: "small_snapshot i j = br_snapshot (pr_snapshot_build r)"
    using small_capture by metis
  obtain result where run: "process ?api small_tree sample_clock sample_options ?command ''c'' (small_store i j) =
      Some (result, small_store i j)" "cr_ok result" using small_read by blast
  obtain frame where frame: "json_to_text tree_json (crud_result_to_json tree_json result) = Some frame"
    by (simp add: json_to_text_def tree_json_def)
  note m = small_contents [OF refl, of i j]
  have command: "cc_ack_sequence ?command = 0" "cc_operation ?command = Read" "cc_request_id ?command = ''q''"
    "cc_outbox_batch_size ?command = 64" by (simp_all add: default_command_def)
  have tree: "scan_tree (scan small_tree ''/r'' (example_options []))" by (simp add: scan_small small_scan_tree)
  have room: "room 1 (store_contents list_contents empty_store)" by (simp add: room_def empty_contents)
  have ok: "store_ok (store_contents list_contents (small_store i j))"
    using between_ok [OF faultless_lmdb_laws empty_contents(1) room _ capture_snapshot_calls [OF capture(1)]] by simp
  have new: "\<forall>a. acked (store_contents list_contents (small_store i j)) ''c'' = Some a \<longrightarrow> a < 1" by (simp add: m)
  have "result_acceptable result"
    by (rule read_after_capture(1) [OF faultless_lmdb_laws ok refl m(4,5) new _ _ _ _ _ run])
      (simp_all add: command m snapshot_layout_not_Nil)
  then obtain cl' where client: "mc_handle_message tree_json (\<lambda>n. n) frame ?cl = outcome.Returned cl'"
    using received_result [OF tree_json_laws _ frame] tree_client_returns by metis
  let ?e = "hd (sn_entries (small_snapshot i j))"
  have small: "sn_entries (small_snapshot i j) = [?e]" "fe_type ?e = EntryType_Directory" "fe_id ?e = i" "fe_normalized_path ?e = ''/r''"
    "sn_host_identifier (small_snapshot i j) = ''h''" "sn_snapshot_id (small_snapshot i j) = j" by (simp_all add: small_snapshot_def)
  have e: "?e \<in> set (sn_entries (small_snapshot i j))" "set [i] = fe_id ` set (sn_entries (small_snapshot i j))" "distinct [i]"
    using small(1,3) by (metis list.set_intros(1), metis image_insert image_empty list.simps(15) set_empty2, simp)
  from captured_snapshot_reaches_the_frontend [OF tree_json_laws faultless_lmdb_laws empty_contents(1) room tree capture sn
      empty_contents(2) [symmetric] refl new _ _ _ _ _ run frame client e(1) small(2) e(2,3) refl, of "[]" "\<lambda>_. 0" 0 "\<lambda>_. []"
      "\<lparr>mz_states = Map.empty, mz_last_updated_host_id = []\<rparr>"]
  have "mc_results cl' = mc_results ?cl @ [result] \<and> 1 \<le> mc_last_ack_sequence cl' \<and>
      (\<exists>children. realtime_tree_handler tree_json (\<lambda>_. 0) (\<lambda>_. [i])
        (on_crud_result 0 (\<lambda>_. []) result \<lparr>mz_states = Map.empty, mz_last_updated_host_id = []\<rparr>) [] ''/r'' =
      Inr (js_object tree_json [(''ok'', js_bool tree_json True), (''host_id'', js_string tree_json ''h''),
        (''path'', js_string tree_json ''/r''), (''snapshot_id'', js_number tree_json j),
        (''entries'', js_array tree_json (map (entry_json tree_json) children))]))"
    by (auto simp: command m snapshot_layout_not_Nil small(4-6))
  moreover have "mc_results ?cl = []" by (simp add: new_client_def)
  ultimately show ?thesis using capture(2) run(2) by (simp only: append_Nil) blast
qed

end
