(* ===== verification/SerializationJson.thy ===== *)
theory SerializationJson imports Serialization CrudProtocol begin

text \<open>
  The JSON form of snapshots and deltas, the second half of
  \<open>src/backend/Muninn/domain/serialization/serialization.cpp\<close>, over the JSON library of \<open>json_api\<close> and
  \<open>json_values\<close>.  A reader gives an error or the structure; what it has put into its output parameter
  before an error is left out.
\<close>

subsection \<open>Fields\<close>

definition missing_field :: "string \<Rightarrow> ser_error" where
  "missing_field key = (JsonFieldMissing, ''Missing JSON field: '' @ key)"

definition wrong_type :: "string \<Rightarrow> ser_error" where
  "wrong_type key = (JsonTypeMismatch, ''Field has wrong type: '' @ key)"

text \<open>\<open>extract_required_numeric\<close> for an unsigned type, which \<open>get\<close> casts to its width, and for a signed one.\<close>

definition extract_unsigned :: "'j json_api \<Rightarrow> 'j json_values \<Rightarrow> 'j \<Rightarrow> string \<Rightarrow> ser_error + ('w :: len) word" where
  "extract_unsigned js jv json key =
    (case js_at js json key of
       None \<Rightarrow> Inl (missing_field key)
     | Some field \<Rightarrow> (case jv_unsigned jv field of None \<Rightarrow> Inl (wrong_type key) | Some n \<Rightarrow> Inr (ucast n)))"

definition extract_signed :: "'j json_api \<Rightarrow> 'j json_values \<Rightarrow> 'j \<Rightarrow> string \<Rightarrow> ser_error + i64" where
  "extract_signed js jv json key =
    (case js_at js json key of
       None \<Rightarrow> Inl (missing_field key)
     | Some field \<Rightarrow> (case jv_integer jv field of None \<Rightarrow> Inl (wrong_type key) | Some i \<Rightarrow> Inr i))"

definition extract_required_string :: "'j json_api \<Rightarrow> 'j json_values \<Rightarrow> 'j \<Rightarrow> string \<Rightarrow> ser_error + string" where
  "extract_required_string js jv json key =
    (case js_at js json key of
       None \<Rightarrow> Inl (missing_field key)
     | Some field \<Rightarrow> (case jv_string jv field of None \<Rightarrow> Inl (wrong_type key) | Some s \<Rightarrow> Inr s))"

definition object_member :: "'j json_api \<Rightarrow> 'j \<Rightarrow> string \<Rightarrow> 'j option" where
  "object_member js json key =
    (case js_at js json key of None \<Rightarrow> None | Some member \<Rightarrow> if js_is_object js member then Some member else None)"

definition array_member :: "'j json_api \<Rightarrow> 'j \<Rightarrow> string \<Rightarrow> 'j list option" where
  "array_member js json key =
    (case js_at js json key of None \<Rightarrow> None | Some member \<Rightarrow> if js_is_array js member then Some (js_items js member) else None)"

text \<open>A loop that stops at the first item that cannot be read.\<close>

fun each_item :: "('j \<Rightarrow> 'e + 'a) \<Rightarrow> 'j list \<Rightarrow> 'e + 'a list" where
  "each_item read [] = Inr []"
| "each_item read (item # items) = sum_bind (read item) (\<lambda>x. sum_bind (each_item read items) (\<lambda>xs. Inr (x # xs)))"

subsection \<open>Entries\<close>

definition entry_type_to_string :: "entry_type \<Rightarrow> string" where
  "entry_type_to_string ty =
    (if ty = EntryType_File then ''file'' else if ty = EntryType_Directory then ''directory''
     else if ty = EntryType_Symlink then ''symlink'' else ''special'')"

definition parse_entry_type :: "string \<Rightarrow> entry_type option" where
  "parse_entry_type val =
    (if val = ''file'' then Some EntryType_File else if val = ''directory'' then Some EntryType_Directory
     else if val = ''symlink'' then Some EntryType_Symlink else if val = ''special'' then Some EntryType_Special else None)"

definition metadata_to_json :: "'j json_api \<Rightarrow> file_metadata \<Rightarrow> 'j" where
  "metadata_to_json js metadata = js_object js
    ([(''size_bytes'', js_number js (md_size_bytes metadata)), (''created_at'', js_integer js (md_created_at metadata)),
      (''modified_at'', js_integer js (md_modified_at metadata)), (''accessed_at'', js_integer js (md_accessed_at metadata)),
      (''permissions'', js_number js (ucast (md_permissions metadata))), (''file_id'', js_number js (md_file_id metadata)),
      (''device_id'', js_number js (md_device_id metadata))] @
     (case md_content_hash metadata of None \<Rightarrow> [] | Some hash \<Rightarrow> [(''content_hash'', js_number js hash)]))"

definition metadata_from_json :: "'j json_api \<Rightarrow> 'j json_values \<Rightarrow> 'j \<Rightarrow> ser_error + file_metadata" where
  "metadata_from_json js jv j =
    sum_bind (extract_unsigned js jv j ''size_bytes'') (\<lambda>size_bytes.
    sum_bind (extract_signed js jv j ''created_at'') (\<lambda>created_at.
    sum_bind (extract_signed js jv j ''modified_at'') (\<lambda>modified_at.
    sum_bind (extract_signed js jv j ''accessed_at'') (\<lambda>accessed_at.
    sum_bind (extract_unsigned js jv j ''permissions'') (\<lambda>permissions.
    sum_bind (extract_unsigned js jv j ''file_id'') (\<lambda>file_id.
    sum_bind (extract_unsigned js jv j ''device_id'') (\<lambda>device_id.
    sum_bind (case js_at js j ''content_hash'' of
        None \<Rightarrow> Inr None
      | Some field \<Rightarrow>
          (case jv_unsigned jv field of None \<Rightarrow> Inl (wrong_type ''content_hash'') | Some hash \<Rightarrow> Inr (Some hash))) (\<lambda>content_hash.
    Inr \<lparr>md_size_bytes = size_bytes, md_created_at = created_at, md_modified_at = modified_at, md_accessed_at = accessed_at,
      md_permissions = permissions, md_file_id = file_id, md_device_id = device_id, md_content_hash = content_hash\<rparr>))))))))"

definition entry_to_json :: "'j json_api \<Rightarrow> file_entry \<Rightarrow> 'j" where
  "entry_to_json js entry = js_object js
    [(''id'', js_number js (fe_id entry)), (''parent_id'', js_number js (fe_parent_id entry)),
     (''path'', js_string js (fe_normalized_path entry)), (''name'', js_string js (fe_name entry)),
     (''type'', js_string js (entry_type_to_string (fe_type entry))), (''metadata'', metadata_to_json js (fe_metadata entry))]"

definition entry_from_json :: "'j json_api \<Rightarrow> 'j json_values \<Rightarrow> 'j \<Rightarrow> ser_error + file_entry" where
  "entry_from_json js jv j =
    sum_bind (extract_unsigned js jv j ''id'') (\<lambda>entry_id.
    sum_bind (extract_unsigned js jv j ''parent_id'') (\<lambda>parent_id.
    sum_bind (extract_required_string js jv j ''path'') (\<lambda>path.
    sum_bind (extract_required_string js jv j ''name'') (\<lambda>name.
    sum_bind (extract_required_string js jv j ''type'') (\<lambda>type_string.
    case parse_entry_type type_string of
      None \<Rightarrow> Inl (InvalidValue, ''Invalid entry type value.'')
    | Some ty \<Rightarrow>
        (case object_member js j ''metadata'' of
           None \<Rightarrow> Inl (JsonFieldMissing, ''Missing or invalid JSON field: metadata'')
         | Some m \<Rightarrow> sum_bind (metadata_from_json js jv m) (\<lambda>metadata.
             Inr \<lparr>fe_id = entry_id, fe_parent_id = parent_id, fe_normalized_path = path, fe_name = name, fe_type = ty,
               fe_metadata = metadata\<rparr>)))))))"

subsection \<open>Schema and container\<close>

definition schema_to_json :: "'j json_api \<Rightarrow> schema_header \<Rightarrow> 'j" where
  "schema_to_json js schema = js_object js
    [(''major'', js_number js (ucast (sc_major schema))), (''minor'', js_number js (ucast (sc_minor schema))),
     (''patch'', js_number js (ucast (sc_patch schema))), (''min_reader_major'', js_number js (ucast (sc_min_reader_major schema)))]"

definition schema_from_json :: "'j json_api \<Rightarrow> 'j json_values \<Rightarrow> 'j \<Rightarrow> ser_error + schema_header" where
  "schema_from_json js jv j =
    sum_bind (extract_unsigned js jv j ''major'') (\<lambda>major.
    sum_bind (extract_unsigned js jv j ''minor'') (\<lambda>minor.
    sum_bind (extract_unsigned js jv j ''patch'') (\<lambda>patch.
    sum_bind (extract_unsigned js jv j ''min_reader_major'') (\<lambda>min_reader_major.
    Inr \<lparr>sc_major = major, sc_minor = minor, sc_patch = patch, sc_min_reader_major = min_reader_major\<rparr>))))"

definition container_version_json :: "'j json_api \<Rightarrow> 'j" where
  "container_version_json js = js_object js
    [(''major'', js_number js (ucast kBinaryFormatMajor)), (''minor'', js_number js (ucast kBinaryFormatMinor))]"

definition validate_container_version :: "'j json_api \<Rightarrow> 'j json_values \<Rightarrow> 'j \<Rightarrow> ser_error + unit" where
  "validate_container_version js jv json =
    (case js_at js json ''container_version'' of
       None \<Rightarrow> Inr ()
     | Some container \<Rightarrow>
         if \<not> js_is_object js container then Inl (JsonTypeMismatch, ''container_version must be an object.'')
         else sum_bind (extract_unsigned js jv container ''major'') (\<lambda>major :: u16.
           sum_bind (extract_unsigned js jv container ''minor'') (\<lambda>minor :: u16.
           if major \<noteq> kBinaryFormatMajor \<or> minor \<noteq> kBinaryFormatMinor
           then Inl (UnsupportedFormatVersion, ''Unsupported container version.'') else Inr ())))"

text \<open>The beginning that both readers share.\<close>

definition read_head :: "'j json_api \<Rightarrow> 'j json_values \<Rightarrow> 'j \<Rightarrow> ser_error + schema_header" where
  "read_head js jv json =
    sum_bind (validate_container_version js jv json) (\<lambda>_.
    case object_member js json ''schema'' of
      None \<Rightarrow> Inl (JsonFieldMissing, ''Missing or invalid schema object.'')
    | Some schema \<Rightarrow> schema_from_json js jv schema)"

subsection \<open>Snapshots\<close>

definition snapshot_to_json :: "'j json_api \<Rightarrow> snapshot \<Rightarrow> 'j" where
  "snapshot_to_json js snapshot = js_object js
    [(''container_version'', container_version_json js), (''schema'', schema_to_json js (sn_schema snapshot)),
     (''snapshot_id'', js_number js (sn_snapshot_id snapshot)), (''created_at'', js_integer js (sn_created_at snapshot)),
     (''host_identifier'', js_string js (sn_host_identifier snapshot)),
     (''root_entry_id'', js_number js (sn_root_entry_id snapshot)),
     (''entries'', js_array js (map (entry_to_json js) (sn_entries snapshot)))]"

definition snapshot_entry_from_json :: "'j json_api \<Rightarrow> 'j json_values \<Rightarrow> 'j \<Rightarrow> ser_error + file_entry" where
  "snapshot_entry_from_json js jv entry_json =
    (if \<not> js_is_object js entry_json then Inl (JsonTypeMismatch, ''Snapshot entry must be an object.'')
     else entry_from_json js jv entry_json)"

definition snapshot_from_json :: "'j json_api \<Rightarrow> 'j json_values \<Rightarrow> 'j \<Rightarrow> ser_error + snapshot" where
  "snapshot_from_json js jv json =
    (if \<not> js_is_object js json then Inl (JsonTypeMismatch, ''Snapshot JSON must be an object.'')
     else sum_bind (read_head js jv json) (\<lambda>schema.
       sum_bind (extract_unsigned js jv json ''snapshot_id'') (\<lambda>snapshot_id.
       sum_bind (extract_signed js jv json ''created_at'') (\<lambda>created_at.
       sum_bind (extract_required_string js jv json ''host_identifier'') (\<lambda>host_identifier.
       sum_bind (extract_unsigned js jv json ''root_entry_id'') (\<lambda>root_entry_id.
       case array_member js json ''entries'' of
         None \<Rightarrow> Inl (JsonFieldMissing, ''Missing entries array.'')
       | Some entries \<Rightarrow>
           if length entries > kMaxBinaryEntries
           then Inl (EntryCountTooLarge, ''Snapshot JSON entries exceed supported limit.'')
           else sum_bind (each_item (snapshot_entry_from_json js jv) entries) (\<lambda>entries.
             Inr \<lparr>sn_schema = schema, sn_snapshot_id = snapshot_id, sn_created_at = created_at,
               sn_host_identifier = host_identifier, sn_root_entry_id = root_entry_id, sn_entries = entries\<rparr>)))))))"

subsection \<open>Deltas\<close>

definition modified_to_json :: "'j json_api \<Rightarrow> modified_entry \<Rightarrow> 'j" where
  "modified_to_json js m = js_object js
    [(''entry_id'', js_number js (me_entry_id m)), (''before'', metadata_to_json js (me_before m)),
     (''after'', metadata_to_json js (me_after m))]"

definition renamed_to_json :: "'j json_api \<Rightarrow> renamed_entry \<Rightarrow> 'j" where
  "renamed_to_json js r = js_object js
    [(''before_entry_id'', js_number js (re_before_entry_id r)), (''after_entry_id'', js_number js (re_after_entry_id r)),
     (''old_path'', js_string js (re_old_path r)), (''new_path'', js_string js (re_new_path r))]"

definition delta_to_json :: "'j json_api \<Rightarrow> delta_snapshot \<Rightarrow> 'j" where
  "delta_to_json js delta = js_object js
    [(''container_version'', container_version_json js), (''schema'', schema_to_json js (dl_schema delta)),
     (''base_snapshot_id'', js_number js (dl_base_snapshot_id delta)),
     (''target_snapshot_id'', js_number js (dl_target_snapshot_id delta)),
     (''added'', js_array js (map (entry_to_json js) (dl_added_entries delta))),
     (''removed'', js_array js (map (entry_to_json js) (dl_removed_entries delta))),
     (''modified'', js_array js (map (modified_to_json js) (dl_modified_entries delta))),
     (''renamed'', js_array js (map (renamed_to_json js) (dl_renamed_entries delta)))]"

definition required_array_field :: "'j json_api \<Rightarrow> 'j \<Rightarrow> string \<Rightarrow> ser_error + 'j list" where
  "required_array_field js json key =
    (case array_member js json key of None \<Rightarrow> Inl (JsonFieldMissing, ''Missing array field: '' @ key) | Some items \<Rightarrow> Inr items)"

definition modified_from_json :: "'j json_api \<Rightarrow> 'j json_values \<Rightarrow> 'j \<Rightarrow> ser_error + modified_entry" where
  "modified_from_json js jv item =
    (if \<not> js_is_object js item then Inl (JsonTypeMismatch, ''Delta modified item must be an object.'')
     else sum_bind (extract_unsigned js jv item ''entry_id'') (\<lambda>entry_id.
       case (object_member js item ''before'', object_member js item ''after'') of
         (Some before, Some after) \<Rightarrow>
           sum_bind (metadata_from_json js jv before) (\<lambda>before.
           sum_bind (metadata_from_json js jv after) (\<lambda>after.
           Inr \<lparr>me_entry_id = entry_id, me_before = before, me_after = after\<rparr>))
       | _ \<Rightarrow> Inl (JsonFieldMissing, ''Delta modified item must contain before and after metadata objects.'')))"

definition renamed_from_json :: "'j json_api \<Rightarrow> 'j json_values \<Rightarrow> 'j \<Rightarrow> ser_error + renamed_entry" where
  "renamed_from_json js jv item =
    (if \<not> js_is_object js item then Inl (JsonTypeMismatch, ''Delta renamed item must be an object.'')
     else sum_bind (extract_unsigned js jv item ''before_entry_id'') (\<lambda>before_entry_id.
       sum_bind (extract_unsigned js jv item ''after_entry_id'') (\<lambda>after_entry_id.
       sum_bind (extract_required_string js jv item ''old_path'') (\<lambda>old_path.
       sum_bind (extract_required_string js jv item ''new_path'') (\<lambda>new_path.
       Inr \<lparr>re_before_entry_id = before_entry_id, re_after_entry_id = after_entry_id, re_old_path = old_path,
         re_new_path = new_path\<rparr>)))))"

definition delta_from_json :: "'j json_api \<Rightarrow> 'j json_values \<Rightarrow> 'j \<Rightarrow> ser_error + delta_snapshot" where
  "delta_from_json js jv json =
    (if \<not> js_is_object js json then Inl (JsonTypeMismatch, ''Delta JSON must be an object.'')
     else sum_bind (read_head js jv json) (\<lambda>schema.
       sum_bind (extract_unsigned js jv json ''base_snapshot_id'') (\<lambda>base_snapshot_id.
       sum_bind (extract_unsigned js jv json ''target_snapshot_id'') (\<lambda>target_snapshot_id.
       sum_bind (required_array_field js json ''added'') (\<lambda>added.
       sum_bind (required_array_field js json ''removed'') (\<lambda>removed.
       sum_bind (required_array_field js json ''modified'') (\<lambda>modified.
       sum_bind (required_array_field js json ''renamed'') (\<lambda>renamed.
       sum_bind (each_item (entry_from_json js jv) added) (\<lambda>added.
       sum_bind (each_item (entry_from_json js jv) removed) (\<lambda>removed.
       sum_bind (each_item (modified_from_json js jv) modified) (\<lambda>modified.
       sum_bind (each_item (renamed_from_json js jv) renamed) (\<lambda>renamed.
       Inr \<lparr>dl_schema = schema, dl_base_snapshot_id = base_snapshot_id, dl_target_snapshot_id = target_snapshot_id,
         dl_added_entries = added, dl_removed_entries = removed, dl_modified_entries = modified, dl_renamed_entries = renamed\<rparr>))))))))))))"

subsection \<open>What is written is read\<close>

text \<open>The reader knows four types of entries; any other is written as the last of them.\<close>

definition json_type :: "entry_type \<Rightarrow> entry_type" where
  "json_type ty = (if ty \<in> {EntryType_File, EntryType_Directory, EntryType_Symlink} then ty else EntryType_Special)"

definition json_entry :: "file_entry \<Rightarrow> file_entry" where
  "json_entry entry = entry\<lparr>fe_type := json_type (fe_type entry)\<rparr>"

lemma parse_entry_type_to_string: "parse_entry_type (entry_type_to_string ty) = Some (json_type ty)"
  by (simp add: parse_entry_type_def entry_type_to_string_def json_type_def)

lemma extract_unsigned_object:
  assumes "json_laws js" "value_laws js jv" "distinct (map fst ms)" "map_of ms key = Some (js_number js n)"
  shows "extract_unsigned js jv (js_object js ms) key = Inr (ucast n)"
  using assms by (simp add: extract_unsigned_def js_at_object value_laws_def)

lemma extract_signed_object:
  assumes "json_laws js" "value_laws js jv" "distinct (map fst ms)" "map_of ms key = Some (js_integer js i)"
  shows "extract_signed js jv (js_object js ms) key = Inr i"
  using assms by (simp add: extract_signed_def js_at_object value_laws_def)

lemma extract_string_object:
  assumes "json_laws js" "value_laws js jv" "distinct (map fst ms)" "map_of ms key = Some (js_string js s)"
  shows "extract_required_string js jv (js_object js ms) key = Inr s"
  using assms by (simp add: extract_required_string_def js_at_object value_laws_def)

lemma object_member_object:
  assumes "json_laws js" "distinct (map fst ms)" "map_of ms key = Some (js_object js ns)"
  shows "object_member js (js_object js ms) key = Some (js_object js ns)"
  using assms by (simp add: object_member_def js_at_object js_is_object_object)

lemma array_member_object:
  assumes "json_laws js" "distinct (map fst ms)" "map_of ms key = Some (js_array js xs)"
  shows "array_member js (js_object js ms) key = Some xs"
  using assms by (simp add: array_member_def js_at_object js_is_array_array js_items_array)

lemmas member_of_object =
  extract_unsigned_object extract_signed_object extract_string_object object_member_object array_member_object js_at_object

lemma each_item_map:
  assumes "\<forall>x. read (f x) = Inr (g x)"
  shows "each_item read (map f xs) = Inr (map g xs)"
  using assms by (induction xs) simp_all

lemma ucast_down [simp]: "ucast (ucast (w :: u16) :: u64) = w"
  by (rule bit_word_eqI) (auto simp: bit_simps dest: bit_imp_le_length)

lemma value_lawsD:
  assumes "value_laws js jv"
  shows "jv_unsigned jv (js_number js n) = Some n" "jv_integer jv (js_integer js i) = Some i" "jv_string jv (js_string js s) = Some s"
  using assms by (simp_all add: value_laws_def)

lemmas json_reading = member_of_object value_lawsD js_is_object_object js_is_array_array js_items_array

lemma metadata_round_trip:
  assumes laws: "json_laws js" "value_laws js jv"
  shows "metadata_from_json js jv (metadata_to_json js m) = Inr m"
  by (cases "md_content_hash m") (simp_all add: metadata_from_json_def metadata_to_json_def json_reading laws)

lemma metadata_is_object: "json_laws js \<Longrightarrow> js_is_object js (metadata_to_json js m)"
  by (simp add: metadata_to_json_def js_is_object_object)

lemma object_member_metadata:
  "json_laws js \<Longrightarrow> distinct (map fst ms) \<Longrightarrow> map_of ms key = Some (metadata_to_json js m) \<Longrightarrow>
    object_member js (js_object js ms) key = Some (metadata_to_json js m)"
  by (simp add: metadata_to_json_def object_member_object)

lemma entry_round_trip:
  assumes laws: "json_laws js" "value_laws js jv"
  shows "entry_from_json js jv (entry_to_json js entry) = Inr (json_entry entry)"
  by (simp add: entry_from_json_def entry_to_json_def json_reading laws parse_entry_type_to_string object_member_metadata
      metadata_round_trip json_entry_def)

lemma head_round_trip:
  assumes laws: "json_laws js" "value_laws js jv" and ms: "distinct (map fst ms)"
    "map_of ms ''container_version'' = Some (container_version_json js)" "map_of ms ''schema'' = Some (schema_to_json js schema)"
  shows "read_head js jv (js_object js ms) = Inr schema"
  using ms by (simp add: read_head_def validate_container_version_def schema_from_json_def container_version_json_def
      schema_to_json_def json_reading laws)

lemma modified_round_trip:
  assumes laws: "json_laws js" "value_laws js jv"
  shows "modified_from_json js jv (modified_to_json js m) = Inr m"
  by (simp add: modified_from_json_def modified_to_json_def json_reading laws object_member_metadata metadata_round_trip)

lemma renamed_round_trip:
  assumes laws: "json_laws js" "value_laws js jv"
  shows "renamed_from_json js jv (renamed_to_json js r) = Inr r"
  by (simp add: renamed_from_json_def renamed_to_json_def json_reading laws)

lemma snapshot_entries_round_trip:
  assumes laws: "json_laws js" "value_laws js jv"
  shows "each_item (snapshot_entry_from_json js jv) (map (entry_to_json js) entries) = Inr (map json_entry entries)"
  by (rule each_item_map) (simp add: snapshot_entry_from_json_def entry_round_trip [OF laws], simp add: entry_to_json_def json_reading laws)

lemma snapshot_json_read:
  assumes laws: "json_laws js" "value_laws js jv"
  shows "snapshot_from_json js jv (snapshot_to_json js snapshot) =
    (if length (sn_entries snapshot) \<le> kMaxBinaryEntries
     then Inr (snapshot\<lparr>sn_entries := map json_entry (sn_entries snapshot)\<rparr>)
     else Inl (EntryCountTooLarge, ''Snapshot JSON entries exceed supported limit.''))"
  by (simp add: snapshot_from_json_def snapshot_to_json_def json_reading laws head_round_trip [OF laws]
      snapshot_entries_round_trip)

lemma delta_json_read:
  assumes laws: "json_laws js" "value_laws js jv"
  shows "delta_from_json js jv (delta_to_json js delta) =
    Inr (delta\<lparr>dl_added_entries := map json_entry (dl_added_entries delta),
      dl_removed_entries := map json_entry (dl_removed_entries delta)\<rparr>)"
proof -
  have "each_item (entry_from_json js jv) (map (entry_to_json js) xs) = Inr (map json_entry xs)" for xs
    by (rule each_item_map) (simp add: entry_round_trip [OF laws])
  moreover have "each_item (modified_from_json js jv) (map (modified_to_json js) ms) = Inr (map (\<lambda>m. m) ms)" for ms
    by (rule each_item_map) (simp add: modified_round_trip [OF laws])
  moreover have "each_item (renamed_from_json js jv) (map (renamed_to_json js) rs) = Inr (map (\<lambda>r. r) rs)" for rs
    by (rule each_item_map) (simp add: renamed_round_trip [OF laws])
  ultimately show ?thesis
    by (simp add: delta_from_json_def delta_to_json_def json_reading laws head_round_trip [OF laws] required_array_field_def)
qed

text \<open>
  C16: the text of the JSON of a snapshot is read back as the snapshot when it has at most as many entries as the
  format allows, with types that the enumeration does not have replaced by \<open>special\<close>, and is an error
  otherwise; the text of the JSON of a delta is read back in every case.
\<close>

theorem json_text_round_trip:
  assumes laws: "json_laws js" "value_laws js jv"
    and texts: "js_dump js (snapshot_to_json js snapshot) = Some snapshot_text" "js_dump js (delta_to_json js delta) = Some delta_text"
  shows "map_option (snapshot_from_json js jv) (js_parse js snapshot_text) =
      Some (if length (sn_entries snapshot) \<le> kMaxBinaryEntries
       then Inr (snapshot\<lparr>sn_entries := map json_entry (sn_entries snapshot)\<rparr>)
       else Inl (EntryCountTooLarge, ''Snapshot JSON entries exceed supported limit.'')) \<and>
    map_option (delta_from_json js jv) (js_parse js delta_text) =
      Some (Inr (delta\<lparr>dl_added_entries := map json_entry (dl_added_entries delta),
        dl_removed_entries := map json_entry (dl_removed_entries delta)\<rparr>))"
proof -
  have "js_parse js snapshot_text = Some (snapshot_to_json js snapshot)" "js_parse js delta_text = Some (delta_to_json js delta)"
    using laws(1) texts by (auto simp: json_laws_def snapshot_to_json_def delta_to_json_def)
  then show ?thesis by (simp add: snapshot_json_read [OF laws] delta_json_read [OF laws])
qed

definition sample_json_metadata :: file_metadata where
  "sample_json_metadata = \<lparr>md_size_bytes = 5, md_created_at = -1, md_modified_at = 1700000000, md_accessed_at = 0,
    md_permissions = 420, md_file_id = 18446744073709551615, md_device_id = 1, md_content_hash = Some 7\<rparr>"

definition sample_json_snapshot :: snapshot where
  "sample_json_snapshot = \<lparr>sn_schema = kCurrentSchemaHeader, sn_snapshot_id = 9, sn_created_at = -2, sn_host_identifier = ''h'',
    sn_root_entry_id = 1, sn_entries = [\<lparr>fe_id = 1, fe_parent_id = 0, fe_normalized_path = ''/d'', fe_name = ''d'', fe_type = 7,
      fe_metadata = sample_json_metadata\<rparr>]\<rparr>"

definition sample_json_delta :: delta_snapshot where
  "sample_json_delta = \<lparr>dl_schema = kCurrentSchemaHeader, dl_base_snapshot_id = 9, dl_target_snapshot_id = 10, dl_added_entries = [],
    dl_removed_entries = [], dl_modified_entries = [\<lparr>me_entry_id = 1, me_before = sample_json_metadata,
      me_after = sample_json_metadata\<lparr>md_size_bytes := 6\<rparr>\<rparr>], dl_renamed_entries = []\<rparr>"

theorem json_text_round_trip_witness:
  "\<exists>t. map_option (delta_from_json tree_json sample_values) (js_parse tree_json t) = Some (Inr sample_json_delta)"
proof -
  obtain s t where texts: "js_dump tree_json (snapshot_to_json tree_json sample_json_snapshot) = Some s"
    "js_dump tree_json (delta_to_json tree_json sample_json_delta) = Some t" by (simp add: tree_json_def)
  have "sample_json_delta\<lparr>dl_added_entries := map json_entry (dl_added_entries sample_json_delta),
      dl_removed_entries := map json_entry (dl_removed_entries sample_json_delta)\<rparr> = sample_json_delta"
    by (simp add: sample_json_delta_def)
  then show ?thesis using json_text_round_trip [OF tree_json_laws sample_value_laws texts] by metis
qed

end
