(* ===== verification/FrontendAuth.thy ===== *)
theory FrontendAuth imports CrudProtocol ByteCodec Paths Decimal begin

text \<open>
  Who may use Hugin's frontend API: the options of \<open>src/backend/Hugin/api/frontend_api_server.hpp\<close>, the check of
  a bearer token (\<open>jwt_auth.cpp\<close>) and \<open>parse_target\<close>, \<open>authorize_request\<close> and \<open>status_from_error\<close> of
  \<open>frontend_api_server.cpp\<close>.

  The JWT library is the parameter \<open>jwt_api\<close>: decoding, which may throw, whether the token says when it
  expires, the verification, which may throw or report an error, and the claims.
\<close>

subsection \<open>Options\<close>

datatype backpressure_policy = DropOldest | DropNewest | Disconnect

record frontend_options =
  fo_listen_address :: string
  fo_port :: u16
  fo_health_path :: string
  fo_command_path :: string
  fo_stream_path :: string
  fo_openapi_path :: string
  fo_docs_path :: string
  fo_realtime_tree_path :: string
  fo_realtime_snapshot_path :: string
  fo_file_download_path :: string
  fo_file_upload_path :: string
  fo_directory_upload_path :: string
  fo_allowed_read_root :: string
  fo_allowed_write_root :: string
  fo_max_upload_file_bytes :: u64
  fo_max_upload_directory_files :: u64
  fo_max_upload_total_decoded_bytes :: u64
  fo_directory_upload_threads :: u64
  fo_require_jwt :: bool
  fo_jwt_secret :: string
  fo_jwt_issuer :: string
  fo_jwt_audience :: string
  fo_jwt_clock_skew_seconds :: u64
  fo_jwt_require_exp_claim :: bool
  fo_local_access_token :: string
  fo_max_http_request_body_bytes :: u64
  fo_ws_max_pending_messages :: u64
  fo_ws_max_pending_bytes :: u64
  fo_ws_backpressure_policy :: backpressure_policy
  fo_command_worker_threads :: u64
  fo_command_max_queue_per_worker :: u64
  fo_command_execution_timeout :: i64

definition parse_backpressure_policy :: "string \<Rightarrow> backpressure_policy option" where
  "parse_backpressure_policy val =
    (if val = ''drop_oldest'' then Some DropOldest
     else if val = ''drop_newest'' then Some DropNewest
     else if val = ''disconnect'' then Some Disconnect else None)"

subsection \<open>The target of a request\<close>

record parsed_target =
  pt_path :: string
  pt_query :: string
  pt_access_token :: "string option"

text \<open>\<open>find\<close> of a text: the rest after its first occurrence.\<close>

fun after_first :: "string \<Rightarrow> string \<Rightarrow> string option" where
  "after_first key s =
    (if take (length key) s = key then Some (drop (length key) s)
     else case s of [] \<Rightarrow> None | c # s' \<Rightarrow> after_first key s')"

definition parse_target :: "string \<Rightarrow> parsed_target" where
  "parse_target target =
    (case dropWhile (\<lambda>c. c \<noteq> CHR ''?'') target of
       [] \<Rightarrow> \<lparr>pt_path = target, pt_query = [], pt_access_token = None\<rparr>
     | _ # query \<Rightarrow>
         \<lparr>pt_path = takeWhile (\<lambda>c. c \<noteq> CHR ''?'') target, pt_query = query,
          pt_access_token =
            (case after_first ''access_token='' query of
               None \<Rightarrow> None
             | Some rest \<Rightarrow>
                 (let val = takeWhile (\<lambda>c. c \<noteq> CHR ''&'') rest in if val \<noteq> [] then Some val else None))\<rparr>)"

subsection \<open>Tokens\<close>

record ('t, 'j) jwt_api =
  jw_decode :: "string \<Rightarrow> string + 't"
  jw_has_expires_at :: "'t \<Rightarrow> bool"
  jw_verify :: "string \<Rightarrow> u64 \<Rightarrow> string option \<Rightarrow> string option \<Rightarrow> 't \<Rightarrow> string + string option"
  jw_payload :: "'t \<Rightarrow> 'j"

record jwt_validation_options =
  jo_secret :: string
  jo_expected_issuer :: string
  jo_expected_audience :: string
  jo_clock_skew_seconds :: u64
  jo_require_exp_claim :: bool

definition jwt_validation_failure :: "string \<Rightarrow> status_error" where
  "jwt_validation_failure message = (ValidationError, message)"

text \<open>The secret, the leeway, and the issuer and the audience when they are set, go to the verifier.\<close>

definition validate_jwt_token :: "('t, 'j) jwt_api \<Rightarrow> string \<Rightarrow> jwt_validation_options \<Rightarrow> 'j status_or" where
  "validate_jwt_token jwt token options =
    (if jo_secret options = [] then Inl (error_code.InvalidArgument, ''JWT secret is not configured.'')
     else case jw_decode jwt token of
       Inl what \<Rightarrow> Inl (jwt_validation_failure (''JWT parsing failed: '' @ what))
     | Inr decoded \<Rightarrow>
         if jo_require_exp_claim options \<and> \<not> jw_has_expires_at jwt decoded
         then Inl (jwt_validation_failure ''JWT exp claim is required.'')
         else (case jw_verify jwt (jo_secret options) (jo_clock_skew_seconds options)
             (if jo_expected_issuer options = [] then None else Some (jo_expected_issuer options))
             (if jo_expected_audience options = [] then None else Some (jo_expected_audience options)) decoded of
             Inl what \<Rightarrow> Inl (jwt_validation_failure (''JWT parsing failed: '' @ what))
           | Inr (Some verify_error) \<Rightarrow> Inl (jwt_validation_failure (''JWT verification failed: '' @ verify_error))
           | Inr None \<Rightarrow> Inr (jw_payload jwt decoded)))"

definition extract_bearer_token :: "string \<Rightarrow> string option" where
  "extract_bearer_token authorization_header =
    (if length authorization_header \<le> 7 then None
     else if take 7 authorization_header \<noteq> ''Bearer '' then None
     else (let token = drop 7 authorization_header in if token = [] then None else Some token))"

subsection \<open>Authorisation\<close>

text \<open>\<open>auth_header\<close> is empty when the request has none.\<close>

definition authorize_request ::
  "'j json_api \<Rightarrow> ('t, 'j) jwt_api \<Rightarrow> string \<Rightarrow> frontend_options \<Rightarrow> string option \<Rightarrow> 'j status_or" where
  "authorize_request js jwt auth_header options query_token =
    (if \<not> fo_require_jwt options then Inr (js_object js [])
     else (let token = (if auth_header \<noteq> [] then extract_bearer_token auth_header else None);
               token = (if token = None \<and> query_token \<noteq> None then query_token else token)
       in case token of
            None \<Rightarrow> Inl (ValidationError, ''Authorization Bearer token is required.'')
          | Some t \<Rightarrow>
              if fo_local_access_token options \<noteq> [] \<and> t = fo_local_access_token options
              then Inr (js_object js [(''sub'', js_string js ''local-web-user''), (''auth_type'', js_string js ''local_bearer'')])
              else validate_jwt_token jwt t \<lparr>jo_secret = fo_jwt_secret options, jo_expected_issuer = fo_jwt_issuer options,
                jo_expected_audience = fo_jwt_audience options, jo_clock_skew_seconds = fo_jwt_clock_skew_seconds options,
                jo_require_exp_claim = fo_jwt_require_exp_claim options\<rparr>))"

definition authorized :: "'j json_api \<Rightarrow> ('t, 'j) jwt_api \<Rightarrow> string \<Rightarrow> frontend_options \<Rightarrow> string option \<Rightarrow> bool" where
  "authorized js jwt auth_header options query_token \<longleftrightarrow>
    (\<exists>claims. authorize_request js jwt auth_header options query_token = Inr claims)"

fun status_from_error :: "error_code \<Rightarrow> nat" where
  "status_from_error error_code.InvalidArgument = 400"
| "status_from_error ParseError = 400"
| "status_from_error ValidationError = 400"
| "status_from_error NotFound = 404"
| "status_from_error StorageError = 500"
| "status_from_error Internal = 503"
| "status_from_error Ok = 422"
| "status_from_error UnsupportedVersion = 422"
| "status_from_error Duplicate = 422"
| "status_from_error Gap = 422"

subsection \<open>Who is admitted\<close>

text \<open>The token that a request presents: that of its header, else that of its query.\<close>

definition presented_token :: "string \<Rightarrow> string option \<Rightarrow> string option" where
  "presented_token auth_header query_token =
    (if 7 < length auth_header \<and> take 7 auth_header = ''Bearer '' then Some (drop 7 auth_header) else query_token)"

lemma extract_bearer_token_eq:
  "extract_bearer_token h = (if 7 < length h \<and> take 7 h = ''Bearer '' then Some (drop 7 h) else None)"
  by (auto simp: extract_bearer_token_def Let_def)

lemma token_presented:
  "(let token = (if h \<noteq> [] then extract_bearer_token h else None)
    in if token = None \<and> q \<noteq> None then q else token) = presented_token h q"
  by (auto simp: presented_token_def extract_bearer_token_eq Let_def)

text \<open>
  With the check switched on a request is admitted in exactly two ways: it presents the configured local
  token, which is not empty, or it presents a token that the library decodes and verifies with the
  configured secret, which is not empty, and that says when it expires if that is asked for.
\<close>

lemma admitted_exactly:
  assumes "fo_require_jwt options"
  shows "authorized js jwt auth_header options query_token \<longleftrightarrow>
    (\<exists>t. presented_token auth_header query_token = Some t \<and>
      (fo_local_access_token options \<noteq> [] \<and> t = fo_local_access_token options \<or>
       fo_jwt_secret options \<noteq> [] \<and>
       (\<exists>decoded. jw_decode jwt t = Inr decoded \<and>
         (fo_jwt_require_exp_claim options \<longrightarrow> jw_has_expires_at jwt decoded) \<and>
         jw_verify jwt (fo_jwt_secret options) (fo_jwt_clock_skew_seconds options)
           (if fo_jwt_issuer options = [] then None else Some (fo_jwt_issuer options))
           (if fo_jwt_audience options = [] then None else Some (fo_jwt_audience options)) decoded = Inr None)))"
proof -
  have "authorize_request js jwt auth_header options query_token =
    (case presented_token auth_header query_token of
       None \<Rightarrow> Inl (ValidationError, ''Authorization Bearer token is required.'')
     | Some t \<Rightarrow> if fo_local_access_token options \<noteq> [] \<and> t = fo_local_access_token options
         then Inr (js_object js [(''sub'', js_string js ''local-web-user''), (''auth_type'', js_string js ''local_bearer'')])
         else validate_jwt_token jwt t \<lparr>jo_secret = fo_jwt_secret options, jo_expected_issuer = fo_jwt_issuer options,
           jo_expected_audience = fo_jwt_audience options, jo_clock_skew_seconds = fo_jwt_clock_skew_seconds options,
           jo_require_exp_claim = fo_jwt_require_exp_claim options\<rparr>)"
    using assms unfolding token_presented [symmetric] by (simp add: authorize_request_def Let_def)
  then show ?thesis
    by (auto simp: authorized_def validate_jwt_token_def split: option.splits sum.splits if_splits)
qed

subsection \<open>Examples\<close>

definition sample_frontend :: frontend_options where
  "sample_frontend = \<lparr>fo_listen_address = ''0.0.0.0'', fo_port = 8080, fo_health_path = ''/health'', fo_command_path = ''/commands'',
    fo_stream_path = ''/stream'', fo_openapi_path = ''/openapi.json'', fo_docs_path = ''/docs'', fo_realtime_tree_path = ''/tree'',
    fo_realtime_snapshot_path = ''/snapshot'', fo_file_download_path = ''/download'', fo_file_upload_path = ''/upload'',
    fo_directory_upload_path = ''/upload-directory'', fo_allowed_read_root = ''/data'', fo_allowed_write_root = ''/data'',
    fo_max_upload_file_bytes = 16, fo_max_upload_directory_files = 4, fo_max_upload_total_decoded_bytes = 64,
    fo_directory_upload_threads = 4, fo_require_jwt = True, fo_jwt_secret = ''s'', fo_jwt_issuer = [], fo_jwt_audience = [],
    fo_jwt_clock_skew_seconds = 30, fo_jwt_require_exp_claim = True, fo_local_access_token = ''t'',
    fo_max_http_request_body_bytes = 1024, fo_ws_max_pending_messages = 1, fo_ws_max_pending_bytes = 8,
    fo_ws_backpressure_policy = DropOldest, fo_command_worker_threads = 4, fo_command_max_queue_per_worker = 8,
    fo_command_execution_timeout = 1500\<rparr>"

definition sample_jwt :: "(string, json_tree) jwt_api" where
  "sample_jwt = \<lparr>jw_decode = Inr, jw_has_expires_at = (\<lambda>_. True),
    jw_verify = (\<lambda>secret leeway issuer audience t. Inr (if t = secret @ ''!'' then None else Some ''bad signature'')),
    jw_payload = String_tree\<rparr>"

lemma admitted_exactly_witness:
  "authorized tree_json sample_jwt ''Bearer s!'' sample_frontend None \<and>
    \<not> authorized tree_json sample_jwt ''Bearer s?'' sample_frontend None \<and>
    \<not> authorized tree_json sample_jwt [] sample_frontend None"
  using admitted_exactly [of sample_frontend tree_json sample_jwt _ None]
  by (simp add: presented_token_def sample_frontend_def sample_jwt_def)

end
