(* ===== verification/CommandBalancer.thy ===== *)
theory CommandBalancer imports FrontendAuth begin

text \<open>
  The threads that run the commands of the frontend, \<open>src/backend/Hugin/api/command_load_balancer.cpp\<close>: a bounded
  queue for each worker, commands dealt out in turn, and callers that wait for the answer for a limited time.

  A step is what happens under one lock or between two.  A command carries the number of its call, which the source does
  not have: it tells commands apart.  \<open>lb_accepted\<close> and \<open>lb_executed\<close> record, for each worker, what was put into its queue and
  what its handler has run.
\<close>

subsection \<open>State\<close>

record load_balancer_options =
  bo_worker_threads :: u64
  bo_max_queue_per_worker :: u64
  bo_execution_timeout :: i64

definition normal_options :: "load_balancer_options \<Rightarrow> load_balancer_options" where
  "normal_options o1 =
    \<lparr>bo_worker_threads = (if bo_worker_threads o1 = 0 then 1 else bo_worker_threads o1),
     bo_max_queue_per_worker = (if bo_max_queue_per_worker o1 = 0 then 1 else bo_max_queue_per_worker o1),
     bo_execution_timeout = (if sint (bo_execution_timeout o1) \<le> 0 then 1500 else bo_execution_timeout o1)\<rparr>"

type_synonym task = "nat \<times> crud_command"

record balancer_worker =
  bw_queue :: "task list"
  bw_running :: "task option"
  bw_stop :: bool
  bw_exited :: bool
  bw_accepted :: "task list"
  bw_executed :: "task list"

record load_balancer =
  lb_next_worker :: u64
  lb_calls :: nat
  lb_workers :: "balancer_worker list"
  lb_answers :: "nat \<Rightarrow> unit status_or option"
  lb_reported :: "nat \<Rightarrow> unit status_or option"

definition new_worker :: balancer_worker where
  "new_worker = \<lparr>bw_queue = [], bw_running = None, bw_stop = False, bw_exited = False, bw_accepted = [], bw_executed = []\<rparr>"

definition new_balancer :: "load_balancer_options \<Rightarrow> load_balancer" where
  "new_balancer bo = \<lparr>lb_next_worker = 0, lb_calls = 0,
    lb_workers = replicate (unat (bo_worker_threads (normal_options bo))) new_worker, lb_answers = (\<lambda>_. None), lb_reported = (\<lambda>_. None)\<rparr>"

subsection \<open>Operations\<close>

text \<open>\<open>execute\<close> up to the queue; the caller then waits, unless the status is known at once.  \<open>configured\<close>: there is a handler.\<close>

definition lb_report :: "nat \<Rightarrow> unit status_or \<Rightarrow> load_balancer \<Rightarrow> load_balancer" where
  "lb_report call status lb = lb\<lparr>lb_reported := (lb_reported lb)(call := Some status)\<rparr>"

definition lb_set_worker :: "nat \<Rightarrow> balancer_worker \<Rightarrow> load_balancer \<Rightarrow> load_balancer" where
  "lb_set_worker i w lb = lb\<lparr>lb_workers := (lb_workers lb)[i := w]\<rparr>"

definition lb_execute :: "load_balancer_options \<Rightarrow> bool \<Rightarrow> crud_command \<Rightarrow> load_balancer \<Rightarrow> load_balancer" where
  "lb_execute bo configured command lb0 =
    (let call = lb_calls lb0; lb = lb0\<lparr>lb_calls := call + 1\<rparr>
     in if \<not> configured then lb_report call (Inl (Internal, ''Command handler is not configured.'')) lb
        else if lb_workers lb = [] then lb_report call (Inl (Internal, ''No command workers are available.'')) lb
        else (let index = unat (lb_next_worker lb) mod length (lb_workers lb);
                  lb = lb\<lparr>lb_next_worker := lb_next_worker lb + 1\<rparr>;
                  worker = lb_workers lb ! index
          in if length (bw_queue worker) \<ge> unat (bo_max_queue_per_worker (normal_options bo))
             then lb_report call (Inl (Internal, ''Command queue is full on selected worker.'')) lb
             else lb_set_worker index (worker\<lparr>bw_queue := bw_queue worker @ [(call, command)],
               bw_accepted := bw_accepted worker @ [(call, command)]\<rparr>) lb))"

text \<open>The caller stops waiting: with the answer when there is one, else because its time is over.\<close>

definition lb_wait :: "nat \<Rightarrow> load_balancer \<Rightarrow> load_balancer" where
  "lb_wait call lb =
    (case lb_answers lb call of
       None \<Rightarrow> lb_report call (Inl (Internal, ''Command dispatch timed out.'')) lb
     | Some status \<Rightarrow> lb_report call status lb)"

text \<open>A worker takes a command, or leaves its loop when it was stopped and has nothing more to do.\<close>

definition worker_take :: "nat \<Rightarrow> load_balancer \<Rightarrow> load_balancer" where
  "worker_take i lb =
    (let worker = lb_workers lb ! i
     in case bw_queue worker of
       [] \<Rightarrow> if bw_stop worker then lb_set_worker i (worker\<lparr>bw_exited := True\<rparr>) lb else lb
     | t # queue \<Rightarrow> lb_set_worker i (worker\<lparr>bw_queue := queue, bw_running := Some t\<rparr>) lb)"

definition worker_finish :: "nat \<Rightarrow> unit status_or \<Rightarrow> load_balancer \<Rightarrow> load_balancer" where
  "worker_finish i status lb =
    (let worker = lb_workers lb ! i
     in case bw_running worker of
       None \<Rightarrow> lb
     | Some t \<Rightarrow> (lb_set_worker i (worker\<lparr>bw_running := None, bw_executed := bw_executed worker @ [t]\<rparr>) lb)
         \<lparr>lb_answers := (lb_answers lb)(fst t := Some status)\<rparr>)"

text \<open>The destructor sets \<open>stop\<close> for one worker after the other.\<close>

definition lb_stop :: "nat \<Rightarrow> load_balancer \<Rightarrow> load_balancer" where
  "lb_stop i lb = lb_set_worker i ((lb_workers lb ! i)\<lparr>bw_stop := True\<rparr>) lb"

datatype balancer_event = Execute crud_command | Wait_ends nat | Take nat | Finish nat "unit status_or" | Stop nat

fun lb_step :: "load_balancer_options \<Rightarrow> bool \<Rightarrow> balancer_event \<Rightarrow> load_balancer \<Rightarrow> load_balancer" where
  "lb_step bo configured (Execute command) lb = lb_execute bo configured command lb"
| "lb_step bo configured (Wait_ends call) lb = lb_wait call lb"
| "lb_step bo configured (Take i) lb = worker_take i lb"
| "lb_step bo configured (Finish i status) lb = worker_finish i status lb"
| "lb_step bo configured (Stop i) lb = lb_stop i lb"

text \<open>When a step can happen: a call waits once, a worker in its loop takes when it is not running a command.\<close>

fun lb_enabled :: "balancer_event \<Rightarrow> load_balancer \<Rightarrow> bool" where
  "lb_enabled (Execute command) lb = True"
| "lb_enabled (Wait_ends call) lb = (call < lb_calls lb \<and> lb_reported lb call = None)"
| "lb_enabled (Take i) lb = (i < length (lb_workers lb) \<and> bw_running (lb_workers lb ! i) = None \<and> \<not> bw_exited (lb_workers lb ! i))"
| "lb_enabled (Finish i status) lb = (i < length (lb_workers lb) \<and> bw_running (lb_workers lb ! i) \<noteq> None)"
| "lb_enabled (Stop i) lb = (i < length (lb_workers lb))"

inductive reachable_balancer :: "load_balancer_options \<Rightarrow> bool \<Rightarrow> load_balancer \<Rightarrow> bool" for bo configured where
  created: "reachable_balancer bo configured (new_balancer bo)"
| stepped: "reachable_balancer bo configured lb \<Longrightarrow> lb_enabled e lb \<Longrightarrow> reachable_balancer bo configured (lb_step bo configured e lb)"

subsection \<open>What becomes of a command\<close>

definition in_hand :: "balancer_worker \<Rightarrow> task list" where
  "in_hand w = (case bw_running w of None \<Rightarrow> [] | Some t \<Rightarrow> [t])"

definition worker_ok :: "load_balancer_options \<Rightarrow> balancer_worker \<Rightarrow> bool" where
  "worker_ok bo w \<longleftrightarrow> bw_accepted w = bw_executed w @ in_hand w @ bw_queue w \<and>
    length (bw_queue w) \<le> unat (bo_max_queue_per_worker (normal_options bo))"

definition calls_of :: "task list \<Rightarrow> nat set" where
  "calls_of ts = fst ` set ts"

definition calls_ok :: "load_balancer \<Rightarrow> bool" where
  "calls_ok lb \<longleftrightarrow>
    (\<forall>i < length (lb_workers lb). distinct (map fst (bw_accepted (lb_workers lb ! i))) \<and>
      (\<forall>c \<in> calls_of (bw_accepted (lb_workers lb ! i)). c < lb_calls lb)) \<and>
    (\<forall>i < length (lb_workers lb). \<forall>j < length (lb_workers lb). i \<noteq> j \<longrightarrow>
      calls_of (bw_accepted (lb_workers lb ! i)) \<inter> calls_of (bw_accepted (lb_workers lb ! j)) = {})"

definition executed_call :: "load_balancer \<Rightarrow> nat \<Rightarrow> bool" where
  "executed_call lb c \<longleftrightarrow> (\<exists>i < length (lb_workers lb). c \<in> calls_of (bw_executed (lb_workers lb ! i)))"

definition balancer_inv :: "load_balancer_options \<Rightarrow> load_balancer \<Rightarrow> bool" where
  "balancer_inv bo lb \<longleftrightarrow> (\<forall>w \<in> set (lb_workers lb). worker_ok bo w) \<and> calls_ok lb \<and>
    (\<forall>c. lb_answers lb c \<noteq> None \<longrightarrow> executed_call lb c) \<and> (\<forall>c. lb_reported lb c = Some (Inr ()) \<longrightarrow> executed_call lb c)"

lemma calls_of_simps [simp]: "calls_of [] = {}" "calls_of (t # ts) = insert (fst t) (calls_of ts)"
  "calls_of (ts @ us) = calls_of ts \<union> calls_of us"
  by (auto simp: calls_of_def)

lemma lb_report_select [simp]:
  "lb_workers (lb_report c status lb) = lb_workers lb" "lb_calls (lb_report c status lb) = lb_calls lb"
  "lb_answers (lb_report c status lb) = lb_answers lb" "lb_reported (lb_report c status lb) = (lb_reported lb)(c := Some status)"
  by (simp_all add: lb_report_def)

lemma lb_set_worker_select [simp]:
  "lb_workers (lb_set_worker i w lb) = (lb_workers lb)[i := w]" "lb_calls (lb_set_worker i w lb) = lb_calls lb"
  "lb_answers (lb_set_worker i w lb) = lb_answers lb" "lb_reported (lb_set_worker i w lb) = lb_reported lb"
  by (simp_all add: lb_set_worker_def)

text \<open>A step that changes one worker, which keeps what it has accepted and executed.\<close>

lemma set_worker_inv:
  assumes inv: "balancer_inv bo lb" and i: "i < length (lb_workers lb)" and ok: "worker_ok bo w"
    and same: "bw_accepted w = bw_accepted (lb_workers lb ! i)"
    and executed: "calls_of (bw_executed (lb_workers lb ! i)) \<subseteq> calls_of (bw_executed w)"
  shows "balancer_inv bo (lb_set_worker i w lb)"
proof -
  have "executed_call (lb_set_worker i w lb) c" if "executed_call lb c" for c
    using that executed i by (fastforce simp: executed_call_def nth_list_update)
  moreover have "calls_ok (lb_set_worker i w lb)"
    using inv same i by (auto simp: balancer_inv_def calls_ok_def nth_list_update)
  ultimately show ?thesis
    using inv ok set_update_subset_insert [of "lb_workers lb" i w] by (auto simp: balancer_inv_def)
qed

lemma report_inv:
  assumes "balancer_inv bo lb" "status = Inr () \<Longrightarrow> executed_call lb c"
  shows "balancer_inv bo (lb_report c status lb)"
  using assms by (auto simp: balancer_inv_def calls_ok_def executed_call_def)

lemma failure_inv: "balancer_inv bo lb \<Longrightarrow> balancer_inv bo (lb_report c (Inl e) lb)"
  by (rule report_inv) simp_all

lemma answered_inv:
  "balancer_inv bo lb \<Longrightarrow> executed_call lb c \<Longrightarrow> balancer_inv bo (lb\<lparr>lb_answers := (lb_answers lb)(c := Some status)\<rparr>)"
  by (simp add: balancer_inv_def calls_ok_def executed_call_def)

lemma more_calls_inv: "balancer_inv bo lb \<Longrightarrow> balancer_inv bo (lb\<lparr>lb_calls := lb_calls lb + n\<rparr>)"
  by (fastforce simp: balancer_inv_def calls_ok_def executed_call_def)

lemma next_worker_inv: "balancer_inv bo (lb\<lparr>lb_next_worker := n\<rparr>) = balancer_inv bo lb"
  by (simp add: balancer_inv_def calls_ok_def executed_call_def)

lemma accept_inv:
  assumes inv: "balancer_inv bo lb" and i: "i < length (lb_workers lb)" and fresh: "call < lb_calls lb"
    "\<forall>j < length (lb_workers lb). call \<notin> calls_of (bw_accepted (lb_workers lb ! j))"
    and room: "length (bw_queue (lb_workers lb ! i)) < unat (bo_max_queue_per_worker (normal_options bo))"
  shows "balancer_inv bo (lb_set_worker i ((lb_workers lb ! i)\<lparr>bw_queue := bw_queue (lb_workers lb ! i) @ [(call, command)],
    bw_accepted := bw_accepted (lb_workers lb ! i) @ [(call, command)]\<rparr>) lb)"
proof -
  let ?w = "(lb_workers lb ! i)\<lparr>bw_queue := bw_queue (lb_workers lb ! i) @ [(call, command)],
    bw_accepted := bw_accepted (lb_workers lb ! i) @ [(call, command)]\<rparr>"
  have old: "worker_ok bo (lb_workers lb ! i)" using inv i by (simp add: balancer_inv_def)
  then have ok: "worker_ok bo ?w" using room by (simp add: worker_ok_def in_hand_def)
  have calls: "calls_ok lb" using inv by (simp add: balancer_inv_def)
  have "call \<notin> fst ` set (bw_accepted (lb_workers lb ! i))" using fresh(2) i by (simp add: calls_of_def)
  then have "calls_ok (lb_set_worker i ?w lb)"
    using calls i fresh by (auto simp: calls_ok_def nth_list_update)
  moreover have "executed_call (lb_set_worker i ?w lb) c" if "executed_call lb c" for c
    using that i by (fastforce simp: executed_call_def nth_list_update)
  ultimately show ?thesis
    using inv ok set_update_subset_insert [of "lb_workers lb" i ?w] by (auto simp: balancer_inv_def)
qed

lemma execute_inv:
  assumes "balancer_inv bo lb"
  shows "balancer_inv bo (lb_execute bo configured command lb)"
proof -
  define lb1 where "lb1 = lb\<lparr>lb_calls := lb_calls lb + 1\<rparr>"
  define i where "i = unat (lb_next_worker lb) mod length (lb_workers lb)"
  define lb2 where "lb2 = lb1\<lparr>lb_next_worker := lb_next_worker lb + 1\<rparr>"
  have inv1: "balancer_inv bo lb1" using more_calls_inv [OF assms, of 1] by (simp add: lb1_def)
  then have inv2: "balancer_inv bo lb2" by (simp add: lb2_def next_worker_inv)
  have select: "lb_workers lb2 = lb_workers lb" "lb_workers lb1 = lb_workers lb" "lb_calls lb2 = lb_calls lb + 1"
    by (simp_all add: lb1_def lb2_def)
  have fresh: "\<forall>j < length (lb_workers lb2). lb_calls lb \<notin> calls_of (bw_accepted (lb_workers lb2 ! j))"
    using assms by (fastforce simp: balancer_inv_def calls_ok_def select)
  show ?thesis
  proof (cases "configured \<and> lb_workers lb \<noteq> []")
    case True
    then have i: "i < length (lb_workers lb2)" by (simp add: i_def select)
    have eq: "lb_execute bo configured command lb =
      (if length (bw_queue (lb_workers lb2 ! i)) \<ge> unat (bo_max_queue_per_worker (normal_options bo))
       then lb_report (lb_calls lb) (Inl (Internal, ''Command queue is full on selected worker.'')) lb2
       else lb_set_worker i ((lb_workers lb2 ! i)\<lparr>bw_queue := bw_queue (lb_workers lb2 ! i) @ [(lb_calls lb, command)],
         bw_accepted := bw_accepted (lb_workers lb2 ! i) @ [(lb_calls lb, command)]\<rparr>) lb2)"
      using True by (simp add: lb_execute_def Let_def lb1_def lb2_def i_def)
    show ?thesis unfolding eq
      using failure_inv [OF inv2] accept_inv [OF inv2 i _ fresh] select(3) by (simp add: not_le)
  next
    case False
    then show ?thesis using failure_inv [OF inv1] by (auto simp: lb_execute_def Let_def lb1_def)
  qed
qed

lemma finish_inv:
  assumes inv: "balancer_inv bo lb" and i: "i < length (lb_workers lb)"
  shows "balancer_inv bo (worker_finish i status lb)"
proof (cases "bw_running (lb_workers lb ! i)")
  case None
  then show ?thesis using inv by (simp add: worker_finish_def)
next
  case (Some t)
  let ?w = "(lb_workers lb ! i)\<lparr>bw_running := None, bw_executed := bw_executed (lb_workers lb ! i) @ [t]\<rparr>"
  have "worker_ok bo (lb_workers lb ! i)" using inv i by (simp add: balancer_inv_def)
  then have "worker_ok bo ?w" using Some by (simp add: worker_ok_def in_hand_def)
  then have set: "balancer_inv bo (lb_set_worker i ?w lb)" by (intro set_worker_inv [OF inv i]) auto
  have "executed_call (lb_set_worker i ?w lb) (fst t)"
    using i by (auto simp: executed_call_def intro!: exI [of _ i])
  then show ?thesis using answered_inv [OF set] Some by (simp add: worker_finish_def Let_def)
qed

lemma take_inv:
  assumes inv: "balancer_inv bo lb" and i: "i < length (lb_workers lb)" and idle: "bw_running (lb_workers lb ! i) = None"
  shows "balancer_inv bo (worker_take i lb)"
proof -
  have "worker_ok bo (lb_workers lb ! i)" using inv i by (simp add: balancer_inv_def)
  then show ?thesis
    using inv idle by (cases "bw_queue (lb_workers lb ! i)")
      (auto simp: worker_take_def Let_def worker_ok_def in_hand_def intro!: set_worker_inv [OF inv i])
qed

lemma balancer_step_inv:
  assumes "balancer_inv bo lb" "lb_enabled e lb"
  shows "balancer_inv bo (lb_step bo configured e lb)"
proof (cases e)
  case (Wait_ends call)
  have "balancer_inv bo (lb_wait call lb)"
  proof (cases "lb_answers lb call")
    case (Some status)
    then have "executed_call lb call" using assms(1) by (simp add: balancer_inv_def)
    then show ?thesis using report_inv [OF assms(1)] Some by (simp add: lb_wait_def)
  qed (simp add: lb_wait_def failure_inv [OF assms(1)])
  then show ?thesis using Wait_ends by simp
next
  case (Stop i)
  then have "worker_ok bo (lb_workers lb ! i)" using assms by (simp add: balancer_inv_def)
  then show ?thesis using Stop assms by (auto simp: lb_stop_def worker_ok_def in_hand_def intro!: set_worker_inv)
qed (use assms execute_inv finish_inv take_inv in auto)

lemma reachable_balancer_inv: "reachable_balancer bo configured lb \<Longrightarrow> balancer_inv bo lb"
proof (induction rule: reachable_balancer.induct)
  case created
  then show ?case
    by (simp add: balancer_inv_def new_balancer_def calls_ok_def executed_call_def worker_ok_def new_worker_def in_hand_def)
qed (rule balancer_step_inv)

text \<open>
  C15: whatever callers, workers and the destructor do, in any order, a command is accepted by at most one worker, each worker
  executes what it has accepted once and in the order of acceptance (accepted are those executed, the one being run and those
  in the queue, in this order), its queue stays within its limit, and success is reported only for a command that was
  executed.
\<close>

theorem commands_run_once_in_order:
  assumes "reachable_balancer bo configured lb"
  shows "(\<forall>w \<in> set (lb_workers lb).
      bw_accepted w = bw_executed w @ (case bw_running w of None \<Rightarrow> [] | Some t \<Rightarrow> [t]) @ bw_queue w \<and>
      distinct (map fst (bw_accepted w)) \<and> length (bw_queue w) \<le> unat (bo_max_queue_per_worker (normal_options bo))) \<and>
    (\<forall>i < length (lb_workers lb). \<forall>j < length (lb_workers lb). i \<noteq> j \<longrightarrow>
      fst ` set (bw_accepted (lb_workers lb ! i)) \<inter> fst ` set (bw_accepted (lb_workers lb ! j)) = {}) \<and>
    (\<forall>call. lb_reported lb call = Some (Inr ()) \<longrightarrow> (\<exists>w \<in> set (lb_workers lb). call \<in> fst ` set (bw_executed w)))"
proof -
  have inv: "balancer_inv bo lb" by (rule reachable_balancer_inv [OF assms])
  have ok: "\<forall>w \<in> set (lb_workers lb).
      bw_accepted w = bw_executed w @ (case bw_running w of None \<Rightarrow> [] | Some t \<Rightarrow> [t]) @ bw_queue w \<and>
      length (bw_queue w) \<le> unat (bo_max_queue_per_worker (normal_options bo))"
    using inv unfolding balancer_inv_def worker_ok_def in_hand_def by blast
  have dist: "\<forall>w \<in> set (lb_workers lb). distinct (map fst (bw_accepted w))"
    using inv by (auto simp: balancer_inv_def calls_ok_def in_set_conv_nth)
  have disjoint: "\<forall>i < length (lb_workers lb). \<forall>j < length (lb_workers lb). i \<noteq> j \<longrightarrow>
      fst ` set (bw_accepted (lb_workers lb ! i)) \<inter> fst ` set (bw_accepted (lb_workers lb ! j)) = {}"
    using inv unfolding balancer_inv_def calls_ok_def calls_of_def by blast
  have "\<forall>call. lb_reported lb call = Some (Inr ()) \<longrightarrow> (\<exists>w \<in> set (lb_workers lb). call \<in> fst ` set (bw_executed w))"
    using inv unfolding balancer_inv_def executed_call_def calls_of_def by (meson nth_mem)
  then show ?thesis using ok dist disjoint by blast
qed

subsection \<open>A call that is over before its command is executed\<close>

definition sample_balancer :: load_balancer_options where
  "sample_balancer = \<lparr>bo_worker_threads = 0, bo_max_queue_per_worker = 1, bo_execution_timeout = 0\<rparr>"

definition late_events :: "balancer_event list" where
  "late_events = [Execute default_command, Wait_ends 0, Take 0, Finish 0 (Inr ())]"

definition late_balancer :: load_balancer where
  "late_balancer = fold (lb_step sample_balancer True) late_events (new_balancer sample_balancer)"

lemma late_reachable: "reachable_balancer sample_balancer True late_balancer"
proof -
  let ?step = "lb_step sample_balancer True" and ?new = "new_balancer sample_balancer"
  let ?lb1 = "?step (Execute default_command) ?new"
  let ?lb2 = "?step (Wait_ends 0) ?lb1"
  let ?lb3 = "?step (Take 0) ?lb2"
  note eval = new_balancer_def new_worker_def normal_options_def sample_balancer_def lb_execute_def lb_set_worker_def Let_def
    lb_wait_def lb_report_def worker_take_def
  have "reachable_balancer sample_balancer True ?lb1"
    by (rule reachable_balancer.stepped [OF reachable_balancer.created]) simp
  moreover have "lb_enabled (Wait_ends 0) ?lb1" by (simp add: eval)
  ultimately have "reachable_balancer sample_balancer True ?lb2" by (rule reachable_balancer.stepped)
  moreover have "lb_enabled (Take 0) ?lb2" by (simp add: eval)
  ultimately have "reachable_balancer sample_balancer True ?lb3" by (rule reachable_balancer.stepped)
  moreover have "lb_enabled (Finish 0 (Inr ())) ?lb3" by (simp add: eval)
  ultimately have "reachable_balancer sample_balancer True (?step (Finish 0 (Inr ())) ?lb3)" by (rule reachable_balancer.stepped)
  then show ?thesis by (simp only: late_balancer_def late_events_def fold_simps)
qed

text \<open>The caller was told that the dispatch timed out, and the command has been executed.\<close>

lemma late_balancer_executes:
  "lb_reported late_balancer 0 = Some (Inl (Internal, ''Command dispatch timed out.''))"
  "map bw_executed (lb_workers late_balancer) = [[(0, default_command)]]"
  by (simp_all add: late_balancer_def late_events_def new_balancer_def normal_options_def sample_balancer_def new_worker_def
      lb_execute_def lb_set_worker_def Let_def lb_wait_def lb_report_def worker_take_def worker_finish_def)

theorem commands_run_once_in_order_witness:
  "list_all (\<lambda>w. distinct (map fst (bw_accepted w)) \<and> bw_accepted w = bw_executed w @
    (case bw_running w of None \<Rightarrow> [] | Some t \<Rightarrow> [t]) @ bw_queue w) (lb_workers late_balancer)"
  unfolding list_all_iff using commands_run_once_in_order [OF late_reachable] by blast

end
