(* ===== verification/CommandLine.thy ===== *)
theory CommandLine imports Decimal begin

text \<open>
  What the two programs share in reading their environment and their command line, \<open>src/backend/Muninn/main.cpp\<close>
  and \<open>src/backend/Hugin/main.cpp\<close>: a step over one variable of the environment, and the loop over the arguments.
  Both give the settings or the exit code.
\<close>

text \<open>A variable of the environment that is set to the empty text counts as not set.\<close>

definition from_env ::
  "(string \<Rightarrow> string option) \<Rightarrow> string \<Rightarrow> (string \<Rightarrow> 'a option) \<Rightarrow> ('a \<Rightarrow> 's \<Rightarrow> 's) \<Rightarrow>
    's \<Rightarrow> int + 's" where
  "from_env env name parse apply_value st =
    (case env name of
       None \<Rightarrow> Inr st
     | Some text_of \<Rightarrow>
         if text_of = [] then Inr st
         else (case parse text_of of None \<Rightarrow> Inl 1 | Some parsed \<Rightarrow> Inr (apply_value parsed st)))"

text \<open>
  The loop over the arguments after the program's name.  An option is one without a value or one that takes the
  next argument as its value (\<^const>\<open>None\<close> of its function is a value that is refused); the last parameter
  says what is done with any other argument.
\<close>

fun parse_options ::
  "(string \<Rightarrow> ('s \<Rightarrow> 's) option) \<Rightarrow> (string \<Rightarrow> (string \<Rightarrow> ('s \<Rightarrow> 's) option) option) \<Rightarrow> (string \<Rightarrow> 's \<Rightarrow> int + 's) \<Rightarrow>
    string list \<Rightarrow> 's \<Rightarrow> int + 's" where
  "parse_options flags valued other [] st = Inr st"
| "parse_options flags valued other (arg # rest) st =
    (case flags arg of
       Some apply_flag \<Rightarrow> parse_options flags valued other rest (apply_flag st)
     | None \<Rightarrow>
         (case valued arg of
            Some apply_value \<Rightarrow>
              (case rest of
                 [] \<Rightarrow> Inl 1
               | v # rest' \<Rightarrow>
                   (case apply_value v of None \<Rightarrow> Inl 1 | Some f \<Rightarrow> parse_options flags valued other rest' (f st)))
          | None \<Rightarrow> (case other arg st of Inl code \<Rightarrow> Inl code | Inr st \<Rightarrow> parse_options flags valued other rest st)))"

subsection \<open>What every step keeps, the whole keeps\<close>

lemma parse_options_keeps:
  assumes "parse_options flags valued other args st = Inr st'" "P st"
    and "\<And>arg f st. arg \<in> set args \<Longrightarrow> flags arg = Some f \<Longrightarrow> P st \<Longrightarrow> P (f st)"
    and "\<And>arg apply_value v f st. valued arg = Some apply_value \<Longrightarrow> apply_value v = Some f \<Longrightarrow> P st \<Longrightarrow> P (f st)"
    and "\<And>arg st st'. other arg st = Inr st' \<Longrightarrow> P st \<Longrightarrow> P st'"
  shows "P st'"
  using assms
proof (induction flags valued other args st rule: parse_options.induct)
  case (2 flags valued other arg rest st)
  have rest: "\<And>arg f st. arg \<in> set rest \<Longrightarrow> flags arg = Some f \<Longrightarrow> P st \<Longrightarrow> P (f st)"
    "\<And>v rest' arg f st. rest = v # rest' \<Longrightarrow> arg \<in> set rest' \<Longrightarrow> flags arg = Some f \<Longrightarrow> P st \<Longrightarrow> P (f st)"
    using "2.prems"(3) by auto
  show ?case
  proof (cases "flags arg")
    case (Some f)
    have "P (f st)" using "2.prems"(3) [OF _ Some "2.prems"(2)] by simp
    then show ?thesis using 2 Some rest by simp
  next
    case flag: None
    show ?thesis
    proof (cases "valued arg")
      case (Some apply_value)
      with "2.prems"(1) flag obtain v rest' f where v: "rest = v # rest'" "apply_value v = Some f"
        "parse_options flags valued other rest' (f st) = Inr st'"
        by (auto split: list.splits option.splits)
      have "P (f st)" by (rule "2.prems"(4) [OF Some v(2) "2.prems"(2)])
      then show ?thesis using 2 flag Some v rest by simp
    next
      case None
      with "2.prems"(1) flag obtain st1 where st1: "other arg st = Inr st1" "parse_options flags valued other rest st1 = Inr st'"
        by (auto split: sum.splits)
      have "P st1" by (rule "2.prems"(5) [OF st1(1) "2.prems"(2)])
      then show ?thesis using 2 flag None st1 rest by simp
    qed
  qed
qed simp

lemma from_env_cases:
  assumes "from_env env name parse apply_value st = Inr st'"
  obtains "st' = st" | t v where "env name = Some t" "parse t = Some v" "st' = apply_value v st"
  using assms by (auto simp: from_env_def split: option.splits if_splits)

lemma from_env_keeps:
  assumes "from_env env name parse apply_value st = Inr st'" "\<And>v st. g (apply_value v st) = g st"
  shows "g st' = g st"
  using from_env_cases [OF assms(1)] assms(2) by metis

lemma from_env_holds:
  assumes "from_env env name parse apply_value st = Inr st'" "P st"
    and "\<And>t v st. parse t = Some v \<Longrightarrow> P st \<Longrightarrow> P (apply_value v st)"
  shows "P st'"
  using from_env_cases [OF assms(1)] assms(2,3) by metis

end
