(* ===== verification/MuninnOptions.thy ===== *)
theory MuninnOptions imports CrudProcessor CommandLine begin

text \<open>
  What Muninn reads from its environment and its command line, \<open>src/backend/Muninn/main.cpp\<close>, and what it
  decides from that: which of its three programs runs, with which options, or that it ends at once with an
  exit code.  The environment is a function from names to values, the number of processors an argument.
  What is printed is left out.
\<close>

subsection \<open>Values\<close>

text \<open>\<open>std::from_chars\<close> of an unsigned 64-bit number, where the whole text has to be the number.\<close>

definition parse_u64_arg :: "string \<Rightarrow> u64 option" where
  "parse_u64_arg text_of =
    (let ds = takeWhile is_digit text_of
     in if ds = [] \<or> digits_value ds \<ge> 2 ^ 64 \<or> ds \<noteq> text_of then None else Some (of_nat (digits_value ds)))"

definition parse_u16_arg :: "string \<Rightarrow> u16 option" where
  "parse_u16_arg text_of =
    (case parse_u64_arg text_of of
       None \<Rightarrow> None
     | Some parsed \<Rightarrow> if parsed > 65535 then None else Some (ucast parsed))"

text \<open>\<open>std::size_t\<close> has 64 bits, so its range test never fails.\<close>

definition parse_size_arg :: "string \<Rightarrow> nat option" where
  "parse_size_arg text_of = map_option unat (parse_u64_arg text_of)"

definition parse_security_mode_arg :: "string \<Rightarrow> transport_security_mode option" where
  "parse_security_mode_arg text_of =
    (if text_of = ''dev'' then Some Dev else if text_of = ''prod'' then Some Prod else None)"

fun security_mode_to_string :: "transport_security_mode \<Rightarrow> string" where
  "security_mode_to_string Dev = ''dev''"
| "security_mode_to_string Prod = ''prod''"

definition parse_bool_env :: "string \<Rightarrow> bool option" where
  "parse_bool_env text_of =
    (if text_of \<in> set [''1'', ''true'', ''TRUE'', ''yes'', ''YES''] then Some True
     else if text_of \<in> set [''0'', ''false'', ''FALSE'', ''no'', ''NO''] then Some False else None)"

subsection \<open>Settings\<close>

record muninn_settings =
  ms_positional_args :: "string list"
  ms_db_path :: "string option"
  ms_default_root_path :: "string option"
  ms_serve_mode :: bool
  ms_core_debug_mode :: bool
  ms_listen_address :: string
  ms_listen_port :: u16
  ms_websocket_path :: string
  ms_io_threads :: nat
  ms_outbox_batch_size :: nat
  ms_metrics_log_interval_seconds :: nat
  ms_watch_interval_seconds :: nat
  ms_stop_after_watch_cycles :: nat
  ms_watch_interval_explicitly_set :: bool
  ms_scan_follow_symlinks :: bool
  ms_scan_max_entries :: nat
  ms_scan_include_globs :: "string list"
  ms_scan_exclude_globs :: "string list"
  ms_retention_keep_latest_snapshots :: nat
  ms_bootstrap_create :: bool
  ms_security_mode :: transport_security_mode
  ms_allow_plain_websocket_in_prod :: bool
  ms_allow_remote_mutating_commands :: bool
  ms_allowed_client_instance_id :: string
  ms_bridge_auth_token :: string

definition initial_settings :: "nat \<Rightarrow> muninn_settings" where
  "initial_settings hardware_concurrency = \<lparr>ms_positional_args = [], ms_db_path = None, ms_default_root_path = None,
    ms_serve_mode = False, ms_core_debug_mode = False, ms_listen_address = ''0.0.0.0'', ms_listen_port = 9460,
    ms_websocket_path = ''/muninn'', ms_io_threads = max 2 hardware_concurrency, ms_outbox_batch_size = 64,
    ms_metrics_log_interval_seconds = 0, ms_watch_interval_seconds = 0, ms_stop_after_watch_cycles = 0,
    ms_watch_interval_explicitly_set = False, ms_scan_follow_symlinks = False, ms_scan_max_entries = 5000000,
    ms_scan_include_globs = [], ms_scan_exclude_globs = [], ms_retention_keep_latest_snapshots = 0,
    ms_bootstrap_create = True, ms_security_mode = Dev, ms_allow_plain_websocket_in_prod = False,
    ms_allow_remote_mutating_commands = False, ms_allowed_client_instance_id = ''hugin-gateway-1'',
    ms_bridge_auth_token = []\<rparr>"

definition read_environment :: "(string \<Rightarrow> string option) \<Rightarrow> muninn_settings \<Rightarrow> int + muninn_settings" where
  "read_environment env st =
    sum_bind (from_env env ''MUNINN_SECURITY_MODE'' parse_security_mode_arg (\<lambda>v. ms_security_mode_update (\<lambda>_. v)) st) (\<lambda>st.
    sum_bind (from_env env ''MUNINN_ALLOW_PLAIN_WEBSOCKET_IN_PROD'' parse_bool_env
      (\<lambda>v. ms_allow_plain_websocket_in_prod_update (\<lambda>_. v)) st) (\<lambda>st.
    sum_bind (from_env env ''MUNINN_ALLOW_REMOTE_MUTATING_COMMANDS'' parse_bool_env
      (\<lambda>v. ms_allow_remote_mutating_commands_update (\<lambda>_. v)) st) (\<lambda>st.
    sum_bind (from_env env ''MUNINN_RETENTION_KEEP_SNAPSHOTS'' parse_size_arg
      (\<lambda>v. ms_retention_keep_latest_snapshots_update (\<lambda>_. v)) st) (\<lambda>st.
    sum_bind (from_env env ''MUNINN_METRICS_LOG_INTERVAL_SECONDS'' parse_size_arg
      (\<lambda>v. ms_metrics_log_interval_seconds_update (\<lambda>_. v)) st) (\<lambda>st.
    sum_bind (from_env env ''MUNINN_WATCH_INTERVAL_SECONDS'' parse_size_arg
      (\<lambda>v st. st\<lparr>ms_watch_interval_seconds := v, ms_watch_interval_explicitly_set := True\<rparr>) st) (\<lambda>st.
    sum_bind (from_env env ''MUNINN_ALLOWED_CLIENT_INSTANCE_ID'' Some
      (\<lambda>v. ms_allowed_client_instance_id_update (\<lambda>_. v)) st) (\<lambda>st.
    from_env env ''MUNINN_BRIDGE_AUTH_TOKEN'' Some (\<lambda>v. ms_bridge_auth_token_update (\<lambda>_. v)) st)))))))"

subsection \<open>The command line\<close>

text \<open>An option without a value.\<close>

definition flag_option :: "string \<Rightarrow> (muninn_settings \<Rightarrow> muninn_settings) option" where
  "flag_option arg = map_of
    [(''--serve'', ms_serve_mode_update (\<lambda>_. True)),
     (''--core-debug'', ms_core_debug_mode_update (\<lambda>_. True)),
     (''--scan-follow-symlinks'', ms_scan_follow_symlinks_update (\<lambda>_. True)),
     (''--allow-plain-websocket-in-prod'', ms_allow_plain_websocket_in_prod_update (\<lambda>_. True)),
     (''--allow-remote-mutating-commands'', ms_allow_remote_mutating_commands_update (\<lambda>_. True)),
     (''--bootstrap-create'', ms_bootstrap_create_update (\<lambda>_. True)),
     (''--disable-bootstrap-create'', ms_bootstrap_create_update (\<lambda>_. False))] arg"

text \<open>An option with a value; the inner function gives \<^const>\<open>None\<close> for a value that is refused.\<close>

definition value_option :: "string \<Rightarrow> (string \<Rightarrow> (muninn_settings \<Rightarrow> muninn_settings) option) option" where
  "value_option arg = map_of
    [(''--db'', \<lambda>v. Some (ms_db_path_update (\<lambda>_. Some v))),
     (''--listen-address'', \<lambda>v. Some (ms_listen_address_update (\<lambda>_. v))),
     (''--listen-port'', \<lambda>v. map_option (\<lambda>n. ms_listen_port_update (\<lambda>_. n)) (parse_u16_arg v)),
     (''--ws-path'', \<lambda>v. Some (ms_websocket_path_update (\<lambda>_. v))),
     (''--default-root'', \<lambda>v. Some (ms_default_root_path_update (\<lambda>_. Some v))),
     (''--io-threads'', \<lambda>v. map_option (\<lambda>n. ms_io_threads_update (\<lambda>_. max 1 n)) (parse_size_arg v)),
     (''--outbox-batch'', \<lambda>v. map_option (\<lambda>n. ms_outbox_batch_size_update (\<lambda>_. max 1 n)) (parse_size_arg v)),
     (''--metrics-log-interval-seconds'',
       \<lambda>v. map_option (\<lambda>n. ms_metrics_log_interval_seconds_update (\<lambda>_. n)) (parse_size_arg v)),
     (''--watch-interval-seconds'',
       \<lambda>v. map_option (\<lambda>n st. st\<lparr>ms_watch_interval_seconds := n, ms_watch_interval_explicitly_set := True\<rparr>) (parse_size_arg v)),
     (''--stop-after-watch-cycles'', \<lambda>v. map_option (\<lambda>n. ms_stop_after_watch_cycles_update (\<lambda>_. n)) (parse_size_arg v)),
     (''--scan-max-entries'', \<lambda>v. map_option (\<lambda>n. ms_scan_max_entries_update (\<lambda>_. max 1 n)) (parse_size_arg v)),
     (''--scan-include'', \<lambda>v. Some (ms_scan_include_globs_update (\<lambda>globs. globs @ [v]))),
     (''--scan-exclude'', \<lambda>v. Some (ms_scan_exclude_globs_update (\<lambda>globs. globs @ [v]))),
     (''--retention-keep-snapshots'',
       \<lambda>v. map_option (\<lambda>n. ms_retention_keep_latest_snapshots_update (\<lambda>_. n)) (parse_size_arg v)),
     (''--security-mode'', \<lambda>v. map_option (\<lambda>mode. ms_security_mode_update (\<lambda>_. mode)) (parse_security_mode_arg v)),
     (''--allowed-client-instance-id'', \<lambda>v. Some (ms_allowed_client_instance_id_update (\<lambda>_. v))),
     (''--bridge-auth-token'', \<lambda>v. Some (ms_bridge_auth_token_update (\<lambda>_. v)))] arg"

text \<open>Any other argument: a call for help, an option that is not known, or a path.\<close>

definition other_argument :: "string \<Rightarrow> muninn_settings \<Rightarrow> int + muninn_settings" where
  "other_argument arg st =
    (if arg = ''--help'' \<or> arg = ''-h'' then Inl 0
     else if arg \<noteq> [] \<and> hd arg = CHR ''-'' then Inl 1
     else Inr (ms_positional_args_update (\<lambda>args. args @ [arg]) st))"

definition parse_arguments :: "string list \<Rightarrow> muninn_settings \<Rightarrow> int + muninn_settings" where
  "parse_arguments = parse_options flag_option value_option other_argument"

subsection \<open>Which program runs\<close>

definition scan_options_of :: "muninn_settings \<Rightarrow> scan_options" where
  "scan_options_of st = \<lparr>so_follow_symlinks = ms_scan_follow_symlinks st, so_max_entries = ms_scan_max_entries st,
    so_include_globs = ms_scan_include_globs st, so_exclude_globs = ms_scan_exclude_globs st,
    so_case_sensitive_globs = False\<rparr>"

definition default_watch_interval :: "muninn_settings \<Rightarrow> muninn_settings" where
  "default_watch_interval st =
    (if \<not> ms_watch_interval_explicitly_set st \<and> ms_default_root_path st \<noteq> None
     then st\<lparr>ms_watch_interval_seconds := 2\<rparr> else st)"

definition lmdb_options_of :: "string \<Rightarrow> lmdb_options" where
  "lmdb_options_of db_path = \<lparr>lo_directory = db_path, lo_map_size_bytes = 4 * 1024 * 1024 * 1024, lo_max_dbs = 16,
    lo_max_readers = 4096, lo_no_sync = False, lo_write_map = False\<rparr>"

definition server_options_of :: "muninn_settings \<Rightarrow> crud_server_options" where
  "server_options_of st = \<lparr>co_transport_kind = WebSocket, co_listen_address = ms_listen_address st,
    co_port = ms_listen_port st, co_websocket_path = ms_websocket_path st, co_health_path = ''/healthz'',
    co_readiness_path = ''/readyz'', co_metrics_path = ''/metrics'',
    co_default_root_path = (case ms_default_root_path st of Some root \<Rightarrow> root | None \<Rightarrow> []),
    co_default_outbox_batch_size = ms_outbox_batch_size st, co_scan_options = scan_options_of st,
    co_retention_keep_latest_snapshots = ms_retention_keep_latest_snapshots st,
    co_security_mode = ms_security_mode st,
    co_allow_plain_websocket_in_prod = ms_allow_plain_websocket_in_prod st,
    co_allow_remote_mutating_commands = ms_allow_remote_mutating_commands st,
    co_allowed_client_instance_id = ms_allowed_client_instance_id st,
    co_bridge_auth_token = ms_bridge_auth_token st\<rparr>"

text \<open>Core debugging with its store and root, serving with its store, or one run over the given paths.\<close>

datatype muninn_program = CoreDebug string string | Serve string | OneShot

definition choose_program :: "muninn_settings \<Rightarrow> int + muninn_program" where
  "choose_program st =
    (if ms_serve_mode st \<and> ms_core_debug_mode st then Inl 1
     else if ms_core_debug_mode st
     then (case ms_db_path st of
         None \<Rightarrow> Inl 1
       | Some db_path \<Rightarrow> (case ms_default_root_path st of None \<Rightarrow> Inl 1 | Some root \<Rightarrow> Inr (CoreDebug db_path root)))
     else if ms_serve_mode st
     then (case ms_db_path st of
         None \<Rightarrow> Inl 1
       | Some db_path \<Rightarrow>
           if ms_security_mode st = Prod \<and> ms_bridge_auth_token st = [] then Inl 1
           else if ms_security_mode st = Prod \<and> \<not> ms_allow_plain_websocket_in_prod st then Inl 1
           else Inr (Serve db_path))
     else Inr OneShot)"

definition read_settings :: "nat \<Rightarrow> (string \<Rightarrow> string option) \<Rightarrow> string list \<Rightarrow> int + muninn_settings" where
  "read_settings hardware_concurrency env args =
    sum_bind (read_environment env (initial_settings hardware_concurrency)) (\<lambda>st.
    sum_bind (parse_arguments args st) (\<lambda>st. Inr (default_watch_interval st)))"

definition muninn_configure ::
  "nat \<Rightarrow> (string \<Rightarrow> string option) \<Rightarrow> string list \<Rightarrow> int + muninn_settings \<times> muninn_program" where
  "muninn_configure hardware_concurrency env args =
    sum_bind (read_settings hardware_concurrency env args) (\<lambda>st.
    sum_bind (choose_program st) (\<lambda>program. Inr (st, program)))"

subsection \<open>Numbers are read as they are written\<close>

lemma parse_u64_arg_show [simp]: "parse_u64_arg (show_word w) = Some w"
proof -
  have all_digits: "takeWhile is_digit (show_word w) = show_word w"
    unfolding takeWhile_eq_all_conv using show_word_digits(1) [of w] by (simp add: list_all_iff)
  have "digits_value (show_word w) = unat w" using show_nat_digits by (simp add: show_word_def)
  moreover have "unat w < 2 ^ 64" by (rule order_less_le_trans [OF unsigned_less]) simp
  ultimately show ?thesis unfolding parse_u64_arg_def all_digits Let_def using show_word_digits(2) [of w] by simp
qed

subsection \<open>What every configuration keeps\<close>

definition settings_ok :: "muninn_settings \<Rightarrow> bool" where
  "settings_ok st \<longleftrightarrow> 1 \<le> ms_io_threads st \<and> 1 \<le> ms_outbox_batch_size st \<and> 1 \<le> ms_scan_max_entries st"

definition remote_asked :: "(string \<Rightarrow> string option) \<Rightarrow> bool" where
  "remote_asked env \<longleftrightarrow> env ''MUNINN_ALLOW_REMOTE_MUTATING_COMMANDS'' \<in> Some ` set [''1'', ''true'', ''TRUE'', ''yes'', ''YES'']"

lemma flag_option_keeps:
  assumes "flag_option arg = Some f"
  shows "settings_ok (f st) \<longleftrightarrow> settings_ok st"
    "ms_allow_remote_mutating_commands (f st) \<Longrightarrow> ms_allow_remote_mutating_commands st \<or> arg = ''--allow-remote-mutating-commands''"
  using assms by (auto simp: flag_option_def settings_ok_def split: if_splits)

lemma value_option_keeps:
  assumes "value_option arg = Some apply_value" "apply_value v = Some f"
  shows "settings_ok st \<Longrightarrow> settings_ok (f st)"
    "ms_allow_remote_mutating_commands (f st) \<longleftrightarrow> ms_allow_remote_mutating_commands st"
  using assms by (auto simp: value_option_def settings_ok_def split: if_splits)

lemma parse_arguments_keeps:
  assumes "parse_arguments args st = Inr st'"
  shows "settings_ok st \<Longrightarrow> settings_ok st'"
    and "ms_allow_remote_mutating_commands st' \<Longrightarrow>
      ms_allow_remote_mutating_commands st \<or> ''--allow-remote-mutating-commands'' \<in> set args"
proof -
  note kept = parse_options_keeps [OF assms [unfolded parse_arguments_def]]
  have other: "settings_ok t' = settings_ok t \<and> ms_allow_remote_mutating_commands t' = ms_allow_remote_mutating_commands t"
    if "other_argument arg t = Inr t'" for arg t t'
    using that by (auto simp: other_argument_def settings_ok_def split: if_splits)
  show "settings_ok st'" if "settings_ok st"
    by (rule kept [where P = settings_ok, OF that]) (use flag_option_keeps value_option_keeps other in blast)+
  have "ms_allow_remote_mutating_commands st' \<longrightarrow>
      ms_allow_remote_mutating_commands st \<or> ''--allow-remote-mutating-commands'' \<in> set args"
    by (rule kept [where P = "\<lambda>t. ms_allow_remote_mutating_commands t \<longrightarrow>
        ms_allow_remote_mutating_commands st \<or> ''--allow-remote-mutating-commands'' \<in> set args"])
      (use flag_option_keeps value_option_keeps other in blast)+
  then show "ms_allow_remote_mutating_commands st \<or> ''--allow-remote-mutating-commands'' \<in> set args"
    if "ms_allow_remote_mutating_commands st'" using that by blast
qed

lemma parse_bool_env_True: "parse_bool_env t = Some True \<Longrightarrow> t \<in> set [''1'', ''true'', ''TRUE'', ''yes'', ''YES'']"
  unfolding parse_bool_env_def by (metis option.distinct(1) option.inject)

lemma from_env_remote:
  assumes "from_env env ''MUNINN_ALLOW_REMOTE_MUTATING_COMMANDS'' parse_bool_env
      (\<lambda>v. ms_allow_remote_mutating_commands_update (\<lambda>_. v)) st = Inr st'"
  shows "settings_ok st' = settings_ok st"
    "ms_allow_remote_mutating_commands st' \<Longrightarrow> ms_allow_remote_mutating_commands st \<or> remote_asked env"
proof -
  show "settings_ok st' = settings_ok st"
    by (rule from_env_keeps [OF assms]) (simp add: settings_ok_def)
  assume on: "ms_allow_remote_mutating_commands st'"
  show "ms_allow_remote_mutating_commands st \<or> remote_asked env"
  proof (rule from_env_cases [OF assms])
    fix t v
    assume env: "env ''MUNINN_ALLOW_REMOTE_MUTATING_COMMANDS'' = Some t" and t: "parse_bool_env t = Some v"
      and st': "st' = ms_allow_remote_mutating_commands_update (\<lambda>_. v) st"
    have "v" using on unfolding st' by simp
    then have "parse_bool_env t = Some True" using t by simp
    then show ?thesis unfolding remote_asked_def env using parse_bool_env_True by blast
  qed (use on in simp)
qed

definition kept_by_env :: "muninn_settings \<Rightarrow> bool \<times> bool" where
  "kept_by_env st = (settings_ok st, ms_allow_remote_mutating_commands st)"

lemma read_environment_keeps:
  assumes "read_environment env st = Inr st'"
  shows "settings_ok st' = settings_ok st"
    "ms_allow_remote_mutating_commands st' \<Longrightarrow> ms_allow_remote_mutating_commands st \<or> remote_asked env"
proof -
  note kept = from_env_keeps [where g = kept_by_env]
  obtain s1 s2 s3 s4 s5 s6 s7 where steps:
      "from_env env ''MUNINN_SECURITY_MODE'' parse_security_mode_arg (\<lambda>v. ms_security_mode_update (\<lambda>_. v)) st = Inr s1"
      "from_env env ''MUNINN_ALLOW_PLAIN_WEBSOCKET_IN_PROD'' parse_bool_env
        (\<lambda>v. ms_allow_plain_websocket_in_prod_update (\<lambda>_. v)) s1 = Inr s2"
    and remote: "from_env env ''MUNINN_ALLOW_REMOTE_MUTATING_COMMANDS'' parse_bool_env
        (\<lambda>v. ms_allow_remote_mutating_commands_update (\<lambda>_. v)) s2 = Inr s3"
    and steps': "from_env env ''MUNINN_RETENTION_KEEP_SNAPSHOTS'' parse_size_arg
        (\<lambda>v. ms_retention_keep_latest_snapshots_update (\<lambda>_. v)) s3 = Inr s4"
      "from_env env ''MUNINN_METRICS_LOG_INTERVAL_SECONDS'' parse_size_arg
        (\<lambda>v. ms_metrics_log_interval_seconds_update (\<lambda>_. v)) s4 = Inr s5"
      "from_env env ''MUNINN_WATCH_INTERVAL_SECONDS'' parse_size_arg
        (\<lambda>v st. st\<lparr>ms_watch_interval_seconds := v, ms_watch_interval_explicitly_set := True\<rparr>) s5 = Inr s6"
      "from_env env ''MUNINN_ALLOWED_CLIENT_INSTANCE_ID'' Some (\<lambda>v. ms_allowed_client_instance_id_update (\<lambda>_. v)) s6 = Inr s7"
      "from_env env ''MUNINN_BRIDGE_AUTH_TOKEN'' Some (\<lambda>v. ms_bridge_auth_token_update (\<lambda>_. v)) s7 = Inr st'"
    using assms unfolding read_environment_def sum_bind_eq_Inr by blast
  have "kept_by_env s1 = kept_by_env st" "kept_by_env s2 = kept_by_env s1"
    using kept [OF steps(1)] kept [OF steps(2)] by (simp_all add: kept_by_env_def settings_ok_def)
  moreover have "kept_by_env s4 = kept_by_env s3" "kept_by_env s5 = kept_by_env s4" "kept_by_env s6 = kept_by_env s5"
      "kept_by_env s7 = kept_by_env s6" "kept_by_env st' = kept_by_env s7"
    using kept [OF steps'(1)] kept [OF steps'(2)] kept [OF steps'(3)] kept [OF steps'(4)] kept [OF steps'(5)]
    by (simp_all add: kept_by_env_def settings_ok_def)
  ultimately show "settings_ok st' = settings_ok st"
    "ms_allow_remote_mutating_commands st' \<Longrightarrow> ms_allow_remote_mutating_commands st \<or> remote_asked env"
    using from_env_remote [OF remote] by (simp_all add: kept_by_env_def)
qed

lemma read_settings_keeps:
  assumes "read_settings hardware_concurrency env args = Inr st"
  shows "settings_ok st"
    "ms_allow_remote_mutating_commands st \<Longrightarrow> ''--allow-remote-mutating-commands'' \<in> set args \<or> remote_asked env"
proof -
  obtain a b where a: "read_environment env (initial_settings hardware_concurrency) = Inr a"
    and b: "parse_arguments args a = Inr b" and st: "st = default_watch_interval b"
    using assms by (auto simp: read_settings_def sum_bind_eq_Inr)
  have "settings_ok (initial_settings hardware_concurrency)"
    by (simp add: settings_ok_def initial_settings_def max_def)
  then have "settings_ok a" using read_environment_keeps(1) [OF a] by simp
  then have "settings_ok b" by (rule parse_arguments_keeps(1) [OF b])
  then show "settings_ok st" by (simp add: st default_watch_interval_def settings_ok_def)
  assume "ms_allow_remote_mutating_commands st"
  then have "ms_allow_remote_mutating_commands b" by (simp add: st default_watch_interval_def split: if_splits)
  then show "''--allow-remote-mutating-commands'' \<in> set args \<or> remote_asked env"
    using parse_arguments_keeps(2) [OF b] read_environment_keeps(2) [OF a] by (auto simp: initial_settings_def)
qed

text \<open>
  Whatever stands in the environment and on the command line, Muninn serves only with a store to serve
  from, with at least one thread and batches and scans of at least one record; in production mode only with
  a token for the bridge and after plain WebSockets were allowed explicitly; and commands from outside
  that change the store are accepted only when the command line or the environment says so.
\<close>

lemma served_configuration_is_safe:
  assumes "muninn_configure hardware_concurrency env args = Inr (st, Serve db_path)"
  shows "ms_db_path st = Some db_path \<and> \<not> ms_core_debug_mode st \<and>
    1 \<le> ms_io_threads st \<and> 1 \<le> co_default_outbox_batch_size (server_options_of st) \<and> 1 \<le> so_max_entries (scan_options_of st) \<and>
    (co_security_mode (server_options_of st) = Prod \<longrightarrow>
      co_bridge_auth_token (server_options_of st) \<noteq> [] \<and> co_allow_plain_websocket_in_prod (server_options_of st)) \<and>
    (co_allow_remote_mutating_commands (server_options_of st) \<longrightarrow>
      ''--allow-remote-mutating-commands'' \<in> set args \<or> remote_asked env)"
proof -
  have st: "read_settings hardware_concurrency env args = Inr st" and program: "choose_program st = Inr (Serve db_path)"
    using assms by (auto simp: muninn_configure_def sum_bind_eq_Inr)
  have "ms_db_path st = Some db_path \<and> \<not> ms_core_debug_mode st \<and>
      (ms_security_mode st = Prod \<longrightarrow> ms_bridge_auth_token st \<noteq> [] \<and> ms_allow_plain_websocket_in_prod st)"
    using program by (auto simp: choose_program_def split: if_splits option.splits)
  then show ?thesis
    using read_settings_keeps [OF st] by (simp add: settings_ok_def server_options_of_def scan_options_of_def)
qed

text \<open>A command line as a system service would have it.\<close>

definition sample_arguments :: "string list" where
  "sample_arguments = [''--serve'', ''--db'', ''/var/lib/muninn'', ''--default-root'', ''/srv'', ''--io-threads'', ''0'',
    ''--listen-port'', ''9460'', ''--security-mode'', ''prod'', ''--allow-plain-websocket-in-prod'']"

definition sample_environment :: "string \<Rightarrow> string option" where
  "sample_environment name = (if name = ''MUNINN_BRIDGE_AUTH_TOKEN'' then Some ''secret'' else None)"

lemma sample_configures:
  "case muninn_configure 4 sample_environment sample_arguments of
     Inr (st, program) \<Rightarrow> program = Serve ''/var/lib/muninn'' \<and> ms_io_threads st = 1 \<and> ms_watch_interval_seconds st = 2
   | Inl _ \<Rightarrow> False"
  by (simp add: muninn_configure_def read_settings_def read_environment_def from_env_def sample_environment_def
      sample_arguments_def parse_arguments_def flag_option_def value_option_def initial_settings_def default_watch_interval_def choose_program_def
      parse_size_arg_def parse_u16_arg_def parse_u64_arg_def parse_security_mode_arg_def is_digit_def digits_value_def)

lemma served_configuration_is_safe_witness:
  "\<exists>st. muninn_configure 4 sample_environment sample_arguments = Inr (st, Serve ''/var/lib/muninn'') \<and>
    1 \<le> ms_io_threads st \<and> \<not> co_allow_remote_mutating_commands (server_options_of st)"
proof -
  obtain st where run: "muninn_configure 4 sample_environment sample_arguments = Inr (st, Serve ''/var/lib/muninn'')"
    using sample_configures by (auto split: sum.splits)
  have "\<not> remote_asked sample_environment" by (auto simp: remote_asked_def sample_environment_def)
  moreover have "''--allow-remote-mutating-commands'' \<notin> set sample_arguments" by (simp add: sample_arguments_def)
  ultimately show ?thesis using served_configuration_is_safe [OF run] run by blast
qed

end
