(* ===== verification/WatchLoop.thy ===== *)
theory WatchLoop imports MuninnOptions WsSession begin

text \<open>
  Muninn's three programs, \<open>src/backend/Muninn/main.cpp\<close>: core debugging and serving, each with its
  bootstrap, its clean-up and its watch loop, and the run over one or two paths.

  A turn of a watch loop is one iteration of its \<open>while\<close>: the turn holds what the clock answers (in
  nanoseconds), the file tree as it is then, and the clock readings of the pipeline.  The list of turns ends
  when a signal asks the loop to stop.  While Muninn serves, the sessions work on the same store from other
  threads; their store calls stand between the turns.  \<open>None\<close> is an operation that does not end.  Text
  that is printed is a report.  Intervals are assumed to fit in the nanoseconds of the clock.
\<close>

subsection \<open>Reports\<close>

definition describe_pipeline_failure :: "pipeline_result \<Rightarrow> string" where
  "describe_pipeline_failure r =
    (if \<not> status_ok (pr_snapshot_store_status r) then status_message (pr_snapshot_store_status r)
     else if \<not> status_ok (pr_transport_snapshot_status r) then status_message (pr_transport_snapshot_status r)
     else if \<not> status_ok (pr_delta_store_status r) then status_message (pr_delta_store_status r)
     else if \<not> status_ok (pr_transport_delta_status r) then status_message (pr_transport_delta_status r)
     else if has_errors (pr_snapshot_validation r) then ''Snapshot validation failed.''
     else if pr_computed_delta r \<noteq> None \<and> has_errors (pr_delta_validation r) then ''Delta validation failed.''
     else ''Pipeline execution failed.'')"

definition count_delta_changes :: "delta_snapshot option \<Rightarrow> nat" where
  "count_delta_changes delta =
    (case delta of
       None \<Rightarrow> 0
     | Some d \<Rightarrow> length (dl_added_entries d) + length (dl_removed_entries d) + length (dl_modified_entries d) +
         length (dl_renamed_entries d))"

datatype watch_report =
    FullCaptured u64
  | FullFailed string
  | IncrementalCaptured u64 u64 nat
  | IncrementalFailed u64 string
  | BaseLost
  | RetentionFailed string
  | MetricsLogged store_stats
  | MetricsFailed string
  | StopReached nat

subsection \<open>A cycle of the watch\<close>

record 'e watch_state =
  wt_base :: u64
  wt_last_watch :: int
  wt_last_metrics :: int
  wt_cycles :: nat
  wt_store :: "'e lmdb_handle"
  wt_log :: "watch_report list"

record turn =
  tn_now :: int
  tn_tree :: file_system
  tn_clock :: clock_readings

text \<open>
  Serving differs from core debugging in that snapshots and deltas also go to the outbox, and in that their
  statuses are tested once more.
\<close>

definition accepts_full :: "bool \<Rightarrow> pipeline_result \<Rightarrow> bool" where
  "accepts_full serving r \<longleftrightarrow> pipeline_ok r \<and> (serving \<longrightarrow> status_ok (pr_transport_snapshot_status r))"

definition accepts_incremental :: "bool \<Rightarrow> pipeline_result \<Rightarrow> bool" where
  "accepts_incremental serving r \<longleftrightarrow> pipeline_ok r \<and>
    (serving \<longrightarrow> status_ok (pr_transport_snapshot_status r) \<and> status_ok (pr_transport_delta_status r))"

definition base_not_found :: "pipeline_result \<Rightarrow> bool" where
  "base_not_found r = (case pr_delta_store_status r of Inl e \<Rightarrow> sf_code e = NotFound | Inr _ \<Rightarrow> False)"

text \<open>The new base, whether something was captured, the reports, and the store.\<close>

definition watch_full ::
  "'e lmdb_api \<Rightarrow> turn \<Rightarrow> string \<Rightarrow> scan_options \<Rightarrow> bool \<Rightarrow> 'e lmdb_handle \<Rightarrow>
    (u64 \<times> bool \<times> watch_report list \<times> 'e lmdb_handle) option" where
  "watch_full api t root options serving s =
    (case capture_snapshot api (tn_tree t) (tn_clock t) root options serving s of
       None \<Rightarrow> None
     | Some (r, s) \<Rightarrow>
         if accepts_full serving r
         then (let new_base = sn_snapshot_id (br_snapshot (pr_snapshot_build r)) in Some (new_base, True, [FullCaptured new_base], s))
         else Some (0, False, [FullFailed (describe_pipeline_failure r)], s))"

definition watch_incremental ::
  "'e lmdb_api \<Rightarrow> turn \<Rightarrow> string \<Rightarrow> scan_options \<Rightarrow> bool \<Rightarrow> u64 \<Rightarrow> 'e lmdb_handle \<Rightarrow>
    (u64 \<times> bool \<times> watch_report list \<times> 'e lmdb_handle) option" where
  "watch_incremental api t root options serving base s =
    (case capture_snapshot_and_delta api (tn_tree t) (tn_clock t) root base options serving s of
       None \<Rightarrow> None
     | Some (r, s) \<Rightarrow>
         if accepts_incremental serving r
         then (let new_base = sn_snapshot_id (br_snapshot (pr_snapshot_build r));
                   changes = count_delta_changes (pr_computed_delta r)
               in Some (new_base, True,
                    if changes > 0 \<or> new_base \<noteq> base then [IncrementalCaptured base new_base changes] else [], s))
         else if base_not_found r
         then Some (0, False, [IncrementalFailed base (describe_pipeline_failure r), BaseLost], s)
         else Some (base, False, [IncrementalFailed base (describe_pipeline_failure r)], s))"

definition watch_capture ::
  "'e lmdb_api \<Rightarrow> turn \<Rightarrow> string \<Rightarrow> scan_options \<Rightarrow> bool \<Rightarrow> u64 \<Rightarrow> 'e lmdb_handle \<Rightarrow>
    (u64 \<times> bool \<times> watch_report list \<times> 'e lmdb_handle) option" where
  "watch_capture api t root options serving base s =
    (if base = 0 then watch_full api t root options serving s
     else watch_incremental api t root options serving base s)"

definition watch_retention ::
  "'e lmdb_api \<Rightarrow> nat \<Rightarrow> bool \<Rightarrow> 'e lmdb_handle \<Rightarrow> (watch_report list \<times> 'e lmdb_handle) option" where
  "watch_retention api keep captured s =
    (if captured \<and> keep > 0
     then (case apply_snapshot_retention api keep s of
         None \<Rightarrow> None
       | Some (Inl e, s) \<Rightarrow> Some ([RetentionFailed (sf_message e)], s)
       | Some (Inr _, s) \<Rightarrow> Some ([], s))
     else Some ([], s))"

definition watch_cycle ::
  "'e lmdb_api \<Rightarrow> muninn_settings \<Rightarrow> string \<Rightarrow> bool \<Rightarrow> turn \<Rightarrow> 'e watch_state \<Rightarrow> 'e watch_state option" where
  "watch_cycle api st root serving t w =
    (case watch_capture api t root (scan_options_of st) serving (wt_base w) (wt_store w) of
       None \<Rightarrow> None
     | Some (base, captured, reports, s) \<Rightarrow>
         (case watch_retention api (ms_retention_keep_latest_snapshots st) captured s of
            None \<Rightarrow> None
          | Some (reports', s) \<Rightarrow>
              Some (w\<lparr>wt_base := base, wt_last_watch := tn_now t, wt_store := s, wt_log := wt_log w @ reports @ reports'\<rparr>)))"

subsection \<open>The loops\<close>

text \<open>At least the given number of seconds has passed.\<close>

definition due :: "int \<Rightarrow> int \<Rightarrow> nat \<Rightarrow> bool" where
  "due now since seconds \<longleftrightarrow> now - since \<ge> 1000000000 * int seconds"

definition log_metrics :: "'e lmdb_api \<Rightarrow> muninn_settings \<Rightarrow> int \<Rightarrow> 'e watch_state \<Rightarrow> 'e watch_state" where
  "log_metrics api st now w =
    (if ms_metrics_log_interval_seconds st > 0 \<and> due now (wt_last_metrics w) (ms_metrics_log_interval_seconds st)
     then w\<lparr>wt_last_metrics := now, wt_log := wt_log w @
       [case get_stats api (wt_store w) of Inl e \<Rightarrow> MetricsFailed (sf_message e) | Inr stats \<Rightarrow> MetricsLogged stats]\<rparr>
     else w)"

text \<open>A turn of core debugging also says whether it was the last one.\<close>

definition core_turn ::
  "'e lmdb_api \<Rightarrow> muninn_settings \<Rightarrow> string \<Rightarrow> turn \<Rightarrow> 'e watch_state \<Rightarrow> (bool \<times> 'e watch_state) option" where
  "core_turn api st root t w =
    (if due (tn_now t) (wt_last_watch w) (ms_watch_interval_seconds st)
     then (case watch_cycle api st root False t w of
         None \<Rightarrow> None
       | Some w \<Rightarrow>
           (let cycles = (wt_cycles w + 1) mod 2 ^ 64; w = w\<lparr>wt_cycles := cycles\<rparr>
            in if ms_stop_after_watch_cycles st > 0 \<and> cycles \<ge> ms_stop_after_watch_cycles st
               then Some (True, w\<lparr>wt_log := wt_log w @ [StopReached cycles]\<rparr>)
               else Some (False, log_metrics api st (tn_now t) w)))
     else Some (False, log_metrics api st (tn_now t) w))"

fun core_loop :: "'e lmdb_api \<Rightarrow> muninn_settings \<Rightarrow> string \<Rightarrow> turn list \<Rightarrow> 'e watch_state \<Rightarrow> 'e watch_state option" where
  "core_loop api st root [] w = Some w"
| "core_loop api st root (t # turns) w =
    (case core_turn api st root t w of
       None \<Rightarrow> None
     | Some (stopped, w) \<Rightarrow> if stopped then Some w else core_loop api st root turns w)"

definition watch_enabled :: "muninn_settings \<Rightarrow> bool" where
  "watch_enabled st \<longleftrightarrow> ms_watch_interval_seconds st > 0 \<and> ms_default_root_path st \<noteq> None"

definition serve_turn :: "'e lmdb_api \<Rightarrow> muninn_settings \<Rightarrow> turn \<Rightarrow> 'e watch_state \<Rightarrow> 'e watch_state option" where
  "serve_turn api st t w =
    (case (if watch_enabled st \<and> due (tn_now t) (wt_last_watch w) (ms_watch_interval_seconds st)
           then watch_cycle api st (the (ms_default_root_path st)) True t w else Some w) of
       None \<Rightarrow> None
     | Some w \<Rightarrow> Some (log_metrics api st (tn_now t) w))"

datatype serve_event = Turn turn | Sessions int "store_call list"

fun serve_loop :: "'e lmdb_api \<Rightarrow> muninn_settings \<Rightarrow> serve_event list \<Rightarrow> 'e watch_state \<Rightarrow> 'e watch_state option" where
  "serve_loop api st [] w = Some w"
| "serve_loop api st (Turn t # events) w =
    (case serve_turn api st t w of None \<Rightarrow> None | Some w \<Rightarrow> serve_loop api st events w)"
| "serve_loop api st (Sessions now calls # events) w =
    (case run_calls api now calls (wt_store w) of None \<Rightarrow> None | Some s \<Rightarrow> serve_loop api st events (w\<lparr>wt_store := s\<rparr>))"

subsection \<open>The programs\<close>

text \<open>Whether the bootstrap went well, and the base of the watch.\<close>

definition bootstrap ::
  "'e lmdb_api \<Rightarrow> muninn_settings \<Rightarrow> bool \<Rightarrow> turn \<Rightarrow> 'e lmdb_handle \<Rightarrow> (bool \<times> u64 \<times> 'e lmdb_handle) option" where
  "bootstrap api st serving t s =
    (if \<not> ms_bootstrap_create st then Some (True, 0, s)
     else (case ms_default_root_path st of
         None \<Rightarrow> Some (True, 0, s)
       | Some root \<Rightarrow>
           (case capture_snapshot api (tn_tree t) (tn_clock t) root (scan_options_of st) serving s of
              None \<Rightarrow> None
            | Some (r, s) \<Rightarrow>
                if accepts_full serving r then Some (True, sn_snapshot_id (br_snapshot (pr_snapshot_build r)), s)
                else Some (False, 0, s))))"

definition initial_retention ::
  "'e lmdb_api \<Rightarrow> muninn_settings \<Rightarrow> 'e lmdb_handle \<Rightarrow> (cleanup_stats store_result \<times> 'e lmdb_handle) option" where
  "initial_retention api st s =
    (if ms_retention_keep_latest_snapshots st > 0
     then apply_snapshot_retention api (ms_retention_keep_latest_snapshots st) s
     else Some (Inr \<lparr>cs_snapshots_removed = 0, cs_deltas_removed = 0\<rparr>, s))"

text \<open>Without a base the first cycle is due at once.\<close>

definition start_watching :: "muninn_settings \<Rightarrow> bool \<Rightarrow> u64 \<Rightarrow> int \<Rightarrow> 'e lmdb_handle \<Rightarrow> 'e watch_state" where
  "start_watching st enabled base now s = \<lparr>wt_base = base,
    wt_last_watch = (if enabled \<and> base = 0 then now - 1000000000 * int (ms_watch_interval_seconds st) else now),
    wt_last_metrics = now, wt_cycles = 0, wt_store = s, wt_log = []\<rparr>"

text \<open>The exit code, and the store as it is when it is closed.\<close>

definition run_core_debug ::
  "'e lmdb_api \<Rightarrow> muninn_settings \<Rightarrow> string \<Rightarrow> string \<Rightarrow> turn \<Rightarrow> turn list \<Rightarrow> (int \<times> 'e lmdb_handle) option" where
  "run_core_debug api st db_path root t turns =
    (case store_open api (lmdb_options_of db_path) closed_handle of
       (Inl _, s) \<Rightarrow> Some (1, s)
     | (Inr _, s) \<Rightarrow>
         (case bootstrap api st False t s of
            None \<Rightarrow> None
          | Some (bootstrap_ok, base, s) \<Rightarrow>
              (case initial_retention api st s of
                 None \<Rightarrow> None
               | Some (Inl _, s) \<Rightarrow> Some (1, s)
               | Some (Inr _, s) \<Rightarrow>
                   if ms_watch_interval_seconds st = 0 then Some (if bootstrap_ok then 0 else 1, s)
                   else (case core_loop api st root turns (start_watching st True base (tn_now t) s) of
                       None \<Rightarrow> None
                     | Some w \<Rightarrow> Some (if bootstrap_ok then 0 else 1, wt_store w)))))"

definition run_serve ::
  "'e lmdb_api \<Rightarrow> acceptor_api \<Rightarrow> muninn_settings \<Rightarrow> string \<Rightarrow> turn \<Rightarrow> serve_event list \<Rightarrow> (int \<times> 'e lmdb_handle) option" where
  "run_serve api acceptor st db_path t events =
    (case store_open api (lmdb_options_of db_path) closed_handle of
       (Inl _, s) \<Rightarrow> Some (1, s)
     | (Inr _, s) \<Rightarrow>
         (case bootstrap api st True t s of
            None \<Rightarrow> None
          | Some (_, base, s) \<Rightarrow>
              (case initial_retention api st s of
                 None \<Rightarrow> None
               | Some (Inl _, s) \<Rightarrow> Some (1, s)
               | Some (Inr _, s) \<Rightarrow>
                   (case ws_start acceptor (server_options_of st) False of
                      (Inl _, _) \<Rightarrow> Some (1, s)
                    | (Inr _, _) \<Rightarrow>
                        (case serve_loop api st events (start_watching st (watch_enabled st) base (tn_now t) s) of
                           None \<Rightarrow> None
                         | Some w \<Rightarrow> Some (0, wt_store w))))))"

text \<open>Without either: one or two paths, compared, or stored when a store is given.\<close>

definition base_path_of :: "muninn_settings \<Rightarrow> string \<Rightarrow> string" where
  "base_path_of st current_path = (case ms_positional_args st of [] \<Rightarrow> current_path | path # _ \<Rightarrow> path)"

definition target_path_of :: "muninn_settings \<Rightarrow> string option" where
  "target_path_of st = (case ms_positional_args st of _ # path # _ \<Rightarrow> Some path | _ \<Rightarrow> None)"

definition store_paths ::
  "'e lmdb_api \<Rightarrow> muninn_settings \<Rightarrow> string \<Rightarrow> turn \<Rightarrow> turn \<Rightarrow> 'e lmdb_handle \<Rightarrow> (int \<times> 'e lmdb_handle) option" where
  "store_paths api st base_path t t' s =
    (case capture_snapshot api (tn_tree t) (tn_clock t) base_path (scan_options_of st) True s of
       None \<Rightarrow> None
     | Some (persisted_base, s) \<Rightarrow>
         (case (case target_path_of st of
                 None \<Rightarrow> Some (pipeline_ok persisted_base, s)
               | Some target_path \<Rightarrow>
                   map_option (\<lambda>(persisted_target, s). (pipeline_ok persisted_base \<and> pipeline_ok persisted_target, s))
                     (capture_snapshot_and_delta api (tn_tree t') (tn_clock t') target_path
                       (sn_snapshot_id (br_snapshot (pr_snapshot_build persisted_base))) (scan_options_of st) True s)) of
            None \<Rightarrow> None
          | Some (persistence_ok, s) \<Rightarrow>
              (case initial_retention api st s of
                 None \<Rightarrow> None
               | Some (status, s) \<Rightarrow> Some (if persistence_ok \<and> status_ok status then 0 else 1, s))))"

definition built_at :: "muninn_settings \<Rightarrow> turn \<Rightarrow> string \<Rightarrow> snapshot option" where
  "built_at st t path = map_option br_snapshot (build (scan (tn_tree t) path (scan_options_of st)) default_build_options)"

definition compare_paths :: "muninn_settings \<Rightarrow> snapshot \<Rightarrow> turn \<Rightarrow> turn \<Rightarrow> int option" where
  "compare_paths st base t t' =
    (let base_errors = has_errors (validate_snapshot (ck_validate (tn_clock t)) base)
     in case target_path_of st of
          None \<Rightarrow> Some (if base_errors then 1 else 0)
        | Some target_path \<Rightarrow>
            map_option (\<lambda>target.
              (let delta = compute_delta True base target
               in if base_errors \<or> has_errors (validate_snapshot (ck_validate (tn_clock t')) target) \<or>
                    has_errors (validate_delta delta (Some base) (Some target))
                  then 1 else 0)) (built_at st t' target_path))"

text \<open>
  The first path is scanned once for what is printed and, when there is a store, once more for what is
  stored: the turns are those of the first scan, of the second, and of the other path.
\<close>

definition run_one_shot ::
  "'e lmdb_api \<Rightarrow> muninn_settings \<Rightarrow> string \<Rightarrow> turn \<Rightarrow> turn \<Rightarrow> turn \<Rightarrow> (int \<times> 'e lmdb_handle) option" where
  "run_one_shot api st current_path t t' t'' =
    (case built_at st t (base_path_of st current_path) of
       None \<Rightarrow> None
     | Some base \<Rightarrow>
         (case ms_db_path st of
            None \<Rightarrow> map_option (\<lambda>code. (code, closed_handle)) (compare_paths st base t t'')
          | Some db_path \<Rightarrow>
              (case store_open api (lmdb_options_of db_path) closed_handle of
                 (Inl _, s) \<Rightarrow> Some (1, s)
               | (Inr _, s) \<Rightarrow> store_paths api st (base_path_of st current_path) t' t'' s)))"

subsection \<open>Store calls and the room they need\<close>

lemma run_calls_room:
  assumes laws: "lmdb_laws api contents"
  shows "run_calls api now calls s = Some s' \<Longrightarrow> store_ok (store_contents contents s) \<Longrightarrow>
    room (length calls + k) (store_contents contents s) \<Longrightarrow> room k (store_contents contents s')"
proof (induction calls arbitrary: s)
  case (Cons call calls)
  have "room 1 (store_contents contents s)" using Cons.prems(3) by (simp add: room_def)
  then obtain s1 where s1: "run_call api now call s = Some s1" "step_ok (store_contents contents s) (store_contents contents s1)"
    using run_call_step [OF laws Cons.prems(2)] by blast
  then have "room (length calls + k) (store_contents contents s1)"
    using Cons.prems(3) step_ok_room [of _ _ "length calls + k"] by simp
  then show ?case using Cons s1 by (simp add: step_ok_def)
qed simp

text \<open>What every stretch of the watch and of the sessions guarantees, with room left for \<open>k\<close> more calls.\<close>

definition safe_until :: "('e \<Rightarrow> contents) \<Rightarrow> nat \<Rightarrow> 'e lmdb_handle \<Rightarrow> 'e lmdb_handle \<Rightarrow> bool" where
  "safe_until contents k s s' \<longleftrightarrow> store_ok (store_contents contents s') \<and>
    keeps_delivery (store_contents contents s) (store_contents contents s') \<and> room k (store_contents contents s')"

lemma room_less: "room (n + k) m \<Longrightarrow> n' \<le> n \<Longrightarrow> room (n' + k) m"
  by (simp add: room_def)

lemma safe_between:
  assumes laws: "lmdb_laws api contents" and ok: "store_ok (store_contents contents s)"
    and room: "room (n + k) (store_contents contents s)" and run: "calls_between api now n s t"
  shows "safe_until contents k s t"
proof -
  obtain calls where calls: "length calls \<le> n" "run_calls api now calls s = Some t"
    using run by (auto simp: calls_between_def)
  have room': "room (length calls + k) (store_contents contents s)" by (rule room_less [OF room calls(1)])
  have "room k (store_contents contents t)" by (rule run_calls_room [OF laws calls(2) ok room'])
  moreover have "room n (store_contents contents s)" using room by (simp add: room_def)
  then have "store_ok (store_contents contents t) \<and> keeps_delivery (store_contents contents s) (store_contents contents t)"
    by (rule between_ok [OF laws ok _ le_refl run])
  ultimately show ?thesis by (simp add: safe_until_def)
qed

lemma safe_refl: "store_ok (store_contents contents s) \<Longrightarrow> room k (store_contents contents s) \<Longrightarrow> safe_until contents k s s"
  by (auto simp: safe_until_def keeps_delivery_def)

lemma safe_trans: "safe_until contents j s t \<Longrightarrow> safe_until contents k t u \<Longrightarrow> safe_until contents k s u"
  using keeps_delivery_trans by (auto simp: safe_until_def)

subsection \<open>One cycle\<close>

lemma accepts_pipeline_ok [simp]: "accepts_full serving r = pipeline_ok r" "accepts_incremental serving r = pipeline_ok r"
  by (auto simp: accepts_full_def accepts_incremental_def pipeline_ok_def)

text \<open>
  The builder's search for an identifier ends when the candidates of a path are not used up: here, when
  every path of the turn's tree has at least as many candidates as the tree has entries.
\<close>

definition turn_ends :: "muninn_settings \<Rightarrow> string \<Rightarrow> turn \<Rightarrow> bool" where
  "turn_ends st root t \<longleftrightarrow> enough_candidates (scan (tn_tree t) root (scan_options_of st))"

lemma watch_capture_calls:
  "watch_capture api t root options serving base s = Some (base', captured, reports, s') \<Longrightarrow>
    calls_between api (ck_validate (tn_clock t)) (Suc 0) s s'"
  by (auto simp: watch_capture_def watch_full_def watch_incremental_def Let_def split: if_splits option.splits prod.splits
      dest: capture_snapshot_calls capture_snapshot_and_delta_calls)

lemma watch_retention_calls:
  "watch_retention api keep captured s = Some (reports, s') \<Longrightarrow> calls_between api now (Suc 0) s s'"
  by (auto simp: watch_retention_def split: if_splits option.splits sum.splits prod.splits dest: store_call_between)

lemma watch_capture_returns:
  assumes "turn_ends st root t"
  shows "\<exists>result. watch_capture api t root (scan_options_of st) serving base s = Some result"
proof -
  obtain b where b: "build (scan (tn_tree t) root (scan_options_of st)) default_build_options = Some b"
    using build_ends assms by (auto simp: turn_ends_def)
  show ?thesis
    using captures_return(1) [OF b, of api "tn_clock t" serving s] captures_return(2) [OF b, of api "tn_clock t" base serving s]
    by (auto simp: watch_capture_def watch_full_def watch_incremental_def Let_def)
qed

lemma watch_retention_returns:
  "lmdb_laws api contents \<Longrightarrow> \<exists>reports s'. watch_retention api keep captured s = Some (reports, s')"
  using retention_effect [of api contents keep s] by (auto simp: watch_retention_def split: sum.split)

lemma watch_cycle_safe:
  assumes laws: "lmdb_laws api contents" and ok: "store_ok (store_contents contents (wt_store w))"
    and room: "room (2 + k) (store_contents contents (wt_store w))" and builds: "turn_ends st root t"
  shows "\<exists>w'. watch_cycle api st root serving t w = Some w' \<and> wt_last_watch w' = tn_now t \<and>
    safe_until contents k (wt_store w) (wt_store w')"
proof -
  obtain base captured reports s where capture:
      "watch_capture api t root (scan_options_of st) serving (wt_base w) (wt_store w) = Some (base, captured, reports, s)"
    using watch_capture_returns [OF builds] by (metis prod_cases4)
  obtain reports' s' where retain:
      "watch_retention api (ms_retention_keep_latest_snapshots st) captured s = Some (reports', s')"
    using watch_retention_returns [OF laws] by blast
  have "calls_between api (ck_validate (tn_clock t)) 2 (wt_store w) s'"
    using calls_then [OF watch_capture_calls [OF capture] watch_retention_calls [OF retain]] by (simp add: numeral_2_eq_2)
  then show ?thesis using safe_between [OF laws ok room] by (simp add: watch_cycle_def capture retain)
qed

lemma log_metrics_select [simp]:
  "wt_store (log_metrics api st now w) = wt_store w" "wt_base (log_metrics api st now w) = wt_base w"
  "wt_last_watch (log_metrics api st now w) = wt_last_watch w"
  by (simp_all add: log_metrics_def)

subsection \<open>Serving keeps what is to be delivered\<close>

text \<open>How many store calls an event makes at most, and that the tree of a turn has enough candidates for identifiers.\<close>

fun event_calls :: "serve_event \<Rightarrow> nat" where
  "event_calls (Turn t) = 2"
| "event_calls (Sessions now calls) = length calls"

fun event_ends :: "muninn_settings \<Rightarrow> serve_event \<Rightarrow> bool" where
  "event_ends st (Turn t) = (case ms_default_root_path st of None \<Rightarrow> True | Some root \<Rightarrow> turn_ends st root t)"
| "event_ends st (Sessions now calls) = True"

lemma serve_turn_safe:
  assumes laws: "lmdb_laws api contents" and ok: "store_ok (store_contents contents (wt_store w))"
    and room: "room (2 + k) (store_contents contents (wt_store w))" and builds: "event_ends st (Turn t)"
  shows "\<exists>w'. serve_turn api st t w = Some w' \<and> safe_until contents k (wt_store w) (wt_store w')"
proof (cases "watch_enabled st \<and> due (tn_now t) (wt_last_watch w) (ms_watch_interval_seconds st)")
  case True
  then obtain root where root: "ms_default_root_path st = Some root" by (auto simp: watch_enabled_def)
  then have "turn_ends st root t" using builds by simp
  from watch_cycle_safe [OF laws ok room this, of True] True root show ?thesis by (auto simp: serve_turn_def)
next
  case False
  then have "serve_turn api st t w = Some (log_metrics api st (tn_now t) w)"
    by (simp only: serve_turn_def if_False option.case)
  moreover have "room k (store_contents contents (wt_store w))" using room by (simp add: room_def)
  ultimately show ?thesis using safe_refl [OF ok] by simp
qed

lemma serve_loop_safe:
  assumes laws: "lmdb_laws api contents"
  shows "store_ok (store_contents contents (wt_store w)) \<Longrightarrow>
    room (sum_list (map event_calls events) + k) (store_contents contents (wt_store w)) \<Longrightarrow>
    list_all (event_ends st) events \<Longrightarrow>
    \<exists>w'. serve_loop api st events w = Some w' \<and> safe_until contents k (wt_store w) (wt_store w')"
proof (induction events arbitrary: w)
  case Nil
  then show ?case using safe_refl by auto
next
  case (Cons event events)
  let ?left = "sum_list (map event_calls events) + k"
  have room: "room (event_calls event + ?left) (store_contents contents (wt_store w))"
    using Cons.prems(2) by (simp add: add.assoc)
  have continue: ?case
    if "serve_loop api st (event # events) w = serve_loop api st events w1" "safe_until contents ?left (wt_store w) (wt_store w1)" for w1
    using Cons.IH [of w1] Cons.prems(3) that safe_trans [OF that(2)] by (auto simp: safe_until_def)
  show ?case
  proof (cases event)
    case (Turn t)
    obtain w1 where "serve_turn api st t w = Some w1" "safe_until contents ?left (wt_store w) (wt_store w1)"
      using serve_turn_safe [OF laws Cons.prems(1), of ?left st t] room Cons.prems(3) Turn by auto
    then show ?thesis using continue [of w1] Turn by simp
  next
    case (Sessions now calls)
    have "room (length calls) (store_contents contents (wt_store w))" using room Sessions by (simp add: room_def)
    then obtain s where s: "run_calls api now calls (wt_store w) = Some s"
      using run_calls_step [OF laws Cons.prems(1)] by blast
    then have "calls_between api now (length calls) (wt_store w) s" by (auto simp: calls_between_def)
    then have "safe_until contents ?left (wt_store w) s"
      using safe_between [OF laws Cons.prems(1), of "length calls" ?left] room Sessions by simp
    then show ?thesis using continue [of "w\<lparr>wt_store := s\<rparr>"] Sessions s by simp
  qed
qed

subsection \<open>What a cycle does to the base\<close>

lemma built_id: "scan_tree raw \<Longrightarrow> build raw options = Some b \<Longrightarrow> sn_snapshot_id (br_snapshot b) \<noteq> 0"
  using built_validates [of raw options b 0] by (simp add: validate_snapshot_errors snapshot_acceptable_def)

lemma watch_full_cases:
  assumes tree: "scan_tree (scan (tn_tree t) root options)"
    and b: "build (scan (tn_tree t) root options) default_build_options = Some b"
    and put: "put_snapshot_with_transport api (ck_validate (tn_clock t)) (ck_snapshot_record (tn_clock t)) (br_snapshot b)
      serving False s = (status, s')"
  shows "\<exists>reports. watch_full api t root options serving s =
    Some (if status_ok status then sn_snapshot_id (br_snapshot b) else 0, status_ok status, reports, s')"
  using built_validates [OF tree b] b put
  by (auto simp: watch_full_def capture_snapshot_def Let_def pipeline_ok_def split: sum.splits)

lemma watch_incremental_unread:
  assumes tree: "scan_tree (scan (tn_tree t) root options)"
    and b: "build (scan (tn_tree t) root options) default_build_options = Some b"
    and unread: "get_snapshot api (ck_base (tn_clock t)) base True s = Inl e"
  shows "\<exists>reports. watch_incremental api t root options serving base s =
    Some (if sf_code e = NotFound then 0 else base, False, reports, s)"
  using built_validates [OF tree b] b unread
  by (auto simp: watch_incremental_def capture_snapshot_and_delta_def Let_def pipeline_ok_def base_not_found_def)

lemma serve_turn_capture:
  assumes "ms_default_root_path st = Some root" "ms_watch_interval_seconds st > 0"
    "due (tn_now t) (wt_last_watch w) (ms_watch_interval_seconds st)"
    and "watch_capture api t root (scan_options_of st) True (wt_base w) (wt_store w) = Some (base, captured, reports, s)"
    and "watch_retention api (ms_retention_keep_latest_snapshots st) captured s = Some (reports', s')"
  shows "\<exists>w'. serve_turn api st t w = Some w' \<and> wt_base w' = base \<and> wt_store w' = s' \<and> wt_last_watch w' = tn_now t"
  using assms by (simp add: serve_turn_def watch_enabled_def watch_cycle_def)

lemma nothing_to_clean [simp]: "watch_retention api keep False s = Some ([], s)"
  by (simp add: watch_retention_def)

text \<open>
  C8: when the snapshot from which the watch computes its deltas is no longer in the store (a command or
  the clean-up has deleted it, and reading it gives \<open>NotFound\<close>), the next cycle that is due changes nothing and
  gives the base up, and the next one that is due after it, with no call of a session in between, captures the tree anew: unless the
  store refuses it, the watch then stands on the snapshot of the tree as it is.  Both cycles end.  This is for a watch
  with a root and an interval, for LMDB as its laws describe it
  and for two scans that describe directory trees (\<open>scan_tree\<close>) in which every path has at least as many candidates
  for its identifier as the tree has entries, so that the builder's search for identifiers cannot go on for ever.
\<close>

theorem lost_base_is_recovered:
  assumes laws: "lmdb_laws api contents"
    and watching: "ms_default_root_path st = Some root" "ms_watch_interval_seconds st > 0"
    and due: "due (tn_now t) (wt_last_watch w) (ms_watch_interval_seconds st)" "due (tn_now t') (tn_now t) (ms_watch_interval_seconds st)"
    and trees: "scan_tree (scan (tn_tree t) root (scan_options_of st))" "scan_tree (scan (tn_tree t') root (scan_options_of st))"
    and builds: "turn_ends st root t" "turn_ends st root t'"
    and lost: "wt_base w \<noteq> 0" "get_snapshot api (ck_base (tn_clock t)) (wt_base w) True (wt_store w) = Inl e" "sf_code e = NotFound"
  shows "\<exists>w1 w2 b. serve_turn api st t w = Some w1 \<and> wt_base w1 = 0 \<and> wt_store w1 = wt_store w \<and>
    serve_turn api st t' w1 = Some w2 \<and>
    build (scan (tn_tree t') root (scan_options_of st)) default_build_options = Some b \<and>
    (case put_snapshot_with_transport api (ck_validate (tn_clock t')) (ck_snapshot_record (tn_clock t')) (br_snapshot b) True False (wt_store w) of
       (Inl _, s') \<Rightarrow> wt_base w2 = 0 \<and> wt_store w2 = s'
     | (Inr _, _) \<Rightarrow> wt_base w2 = sn_snapshot_id (br_snapshot b) \<and> wt_base w2 \<noteq> 0)"
proof -
  obtain b1 b where b1: "build (scan (tn_tree t) root (scan_options_of st)) default_build_options = Some b1"
    and b: "build (scan (tn_tree t') root (scan_options_of st)) default_build_options = Some b"
    using build_ends builds by (meson turn_ends_def)
  obtain reports where "watch_capture api t root (scan_options_of st) True (wt_base w) (wt_store w) = Some (0, False, reports, wt_store w)"
    using watch_incremental_unread [OF trees(1) b1 lost(2), of True] lost by (auto simp: watch_capture_def)
  then obtain w1 where w1: "serve_turn api st t w = Some w1" "wt_base w1 = 0" "wt_store w1 = wt_store w" "wt_last_watch w1 = tn_now t"
    using serve_turn_capture [OF watching due(1)] nothing_to_clean by blast
  let ?put = "put_snapshot_with_transport api (ck_validate (tn_clock t')) (ck_snapshot_record (tn_clock t')) (br_snapshot b) True False (wt_store w)"
  obtain status s where put: "?put = (status, s)" by fastforce
  obtain reports where full: "watch_capture api t' root (scan_options_of st) True (wt_base w1) (wt_store w1) =
      Some (if status_ok status then sn_snapshot_id (br_snapshot b) else 0, status_ok status, reports, s)"
    using watch_full_cases [OF trees(2) b put] w1 by (auto simp: watch_capture_def)
  obtain reports' s' where clean: "watch_retention api (ms_retention_keep_latest_snapshots st) (status_ok status) s = Some (reports', s')"
    using watch_retention_returns [OF laws] by blast
  obtain w2 where "serve_turn api st t' w1 = Some w2" "wt_store w2 = s'"
      "wt_base w2 = (if status_ok status then sn_snapshot_id (br_snapshot b) else 0)"
    using serve_turn_capture [OF watching _ full clean] due(2) w1(4) by auto
  then show ?thesis using w1 b put clean built_id [OF trees(2) b] by (cases status) auto
qed

text \<open>The store refuses to read the base, or to write the new snapshot and its delta, with the given error code.\<close>

definition refused_with ::
  "store_error_code \<Rightarrow> 'e lmdb_api \<Rightarrow> clock_readings \<Rightarrow> u64 \<Rightarrow> snapshot \<Rightarrow> bool \<Rightarrow> 'e lmdb_handle \<Rightarrow> bool" where
  "refused_with code api clock base sn serving s =
    (case get_snapshot api (ck_base clock) base True s of
       Inl e \<Rightarrow> sf_code e = code
     | Inr old \<Rightarrow>
         (case fst (put_snapshot_and_delta_with_transport api (ck_validate clock) (ck_snapshot_record clock)
             (ck_delta_record clock) sn (compute_delta True old sn) (Some old) serving False s) of
            Inl e \<Rightarrow> sf_code e = code
          | Inr _ \<Rightarrow> False))"

text \<open>A full capture and an incremental one.\<close>

lemma watch_full_outcome:
  assumes laws: "lmdb_laws api contents" and tree: "scan_tree (scan (tn_tree t) root options)"
    and run: "watch_full api t root options serving s = Some (base', captured, reports, s')"
  shows "\<exists>b. build (scan (tn_tree t) root options) default_build_options = Some b \<and>
    (if captured
     then base' \<noteq> 0 \<and> base' = sn_snapshot_id (br_snapshot b) \<and>
       (\<exists>payload. serialize_snapshot_binary (br_snapshot b) [] = Inr payload \<and>
         store_contents contents s' kDbSnapshots (encode_u64_be base') = Some payload)
     else store_contents contents s' = store_contents contents s \<and> base' = 0)"
proof -
  obtain r where capture: "capture_snapshot api (tn_tree t) (tn_clock t) root options serving s = Some (r, s')"
    and result: "captured = pipeline_ok r" "base' = (if pipeline_ok r then sn_snapshot_id (br_snapshot (pr_snapshot_build r)) else 0)"
    using run by (auto simp: watch_full_def Let_def split: option.splits if_splits)
  obtain b where b: "build (scan (tn_tree t) root options) default_build_options = Some b"
    using capture by (auto simp: capture_snapshot_def Let_def split: option.splits)
  have "pr_snapshot_build r = b"
    using capture b by (auto simp: capture_snapshot_def Let_def split: if_splits sum.splits prod.splits)
  note stored = captured_snapshot_is_stored [OF laws tree capture refl refl refl, of 0]
  show ?thesis
  proof (cases captured)
    case True
    then obtain payload where "serialize_snapshot_binary (br_snapshot b) [] = Inr payload"
        "store_contents contents s' kDbSnapshots =
          (store_contents contents s kDbSnapshots)(encode_u64_be (sn_snapshot_id (br_snapshot b)) \<mapsto> payload)"
      using stored result(1) \<open>pr_snapshot_build r = b\<close> by auto
    then show ?thesis using True result \<open>pr_snapshot_build r = b\<close> b built_id [OF tree b] by simp
  next
    case False
    then show ?thesis using stored result b by simp
  qed
qed

lemma watch_incremental_outcome:
  assumes laws: "lmdb_laws api contents" and tree: "scan_tree (scan (tn_tree t) root options)"
    and run: "watch_incremental api t root options serving base s = Some (base', captured, reports, s')"
  shows "\<exists>b. build (scan (tn_tree t) root options) default_build_options = Some b \<and>
    (if captured
     then base' \<noteq> 0 \<and>
       ((\<exists>payload. base' = sn_snapshot_id (br_snapshot b) \<and> serialize_snapshot_binary (br_snapshot b) [] = Inr payload \<and>
           store_contents contents s' kDbSnapshots (encode_u64_be base') = Some payload) \<or>
        (\<exists>old. s' = s \<and> get_snapshot api (ck_base (tn_clock t)) base True s = Inr old \<and>
           base' = sn_snapshot_id old \<and> same_view old (br_snapshot b)))
     else store_contents contents s' = store_contents contents s \<and>
       base' = (if refused_with NotFound api (tn_clock t) base (br_snapshot b) serving s then 0 else base))"
proof -
  obtain r where capture: "capture_snapshot_and_delta api (tn_tree t) (tn_clock t) root base options serving s = Some (r, s')"
    and result: "captured = pipeline_ok r" "captured \<Longrightarrow> base' = sn_snapshot_id (br_snapshot (pr_snapshot_build r))"
      "\<not> captured \<Longrightarrow> base' = (if base_not_found r then 0 else base)"
    using run by (auto simp: watch_incremental_def Let_def split: option.splits if_splits)
  obtain b where b: "build (scan (tn_tree t) root options) default_build_options = Some b"
    using capture by (auto simp: capture_snapshot_and_delta_def Let_def split: option.splits)
  note outcome = update_outcome [OF laws tree capture refl refl, unfolded b]
  show ?thesis
  proof (cases "get_snapshot api (ck_base (tn_clock t)) base True s")
    case (Inl e)
    then have "store_contents contents s' = store_contents contents s" "pr_delta_store_status r = Inl e"
      using outcome by auto
    then show ?thesis using b result Inl by (simp add: pipeline_ok_def base_not_found_def refused_with_def)
  next
    case (Inr old)
    have ids: "sn_snapshot_id old \<noteq> 0" "sn_snapshot_id (br_snapshot b) \<noteq> 0"
      using get_snapshot_validated [OF Inr] built_id [OF tree b] by (simp_all add: validate_snapshot_errors snapshot_acceptable_def)
    have cases: "if same_view old (br_snapshot b) then pipeline_ok r \<and> s' = s \<and> br_snapshot (pr_snapshot_build r) = old
        else if pipeline_ok r then pr_snapshot_build r = b \<and>
          (\<exists>payload payload' numbers. serialize_snapshot_binary (br_snapshot b) [] = Inr payload \<and>
            both_stored (br_snapshot b) (compute_delta True old (br_snapshot b)) (ck_snapshot_record (tn_clock t))
              (ck_delta_record (tn_clock t)) serving payload payload' (store_contents contents s) numbers (store_contents contents s'))
        else store_contents contents s' = store_contents contents s \<and>
          base_not_found r = refused_with NotFound api (tn_clock t) base (br_snapshot b) serving s"
      using outcome Inr by (auto simp: Let_def base_not_found_def refused_with_def split: if_splits)
    show ?thesis
    proof (cases "pipeline_ok r \<and> \<not> same_view old (br_snapshot b)")
      case True
      then obtain payload payload' numbers where payload: "serialize_snapshot_binary (br_snapshot b) [] = Inr payload"
        and stored: "both_stored (br_snapshot b) (compute_delta True old (br_snapshot b)) (ck_snapshot_record (tn_clock t))
            (ck_delta_record (tn_clock t)) serving payload payload' (store_contents contents s) numbers (store_contents contents s')"
        and r: "pr_snapshot_build r = b"
        using cases by auto
      then show ?thesis using True b result ids both_stored_view(1) [OF stored] by simp
    next
      case False
      then show ?thesis using cases b result ids Inr by (auto split: if_splits)
    qed
  qed
qed


text \<open>
  C7: while Muninn serves, however its watch and its clean-up alternate with the store calls of the
  sessions, every turn ends, the store stays well formed, no acknowledgement is lost or taken back, and
  every record of the outbox that a consumer has not acknowledged is still there for it.  The conditions: LMDB
  behaves as its laws say, the store is well formed at the start, its sequence numbers do not run out (two store calls
  for a turn and those of the sessions), and in every tree that a turn scans each path has at least as many candidates
  for its identifier as the tree has entries, since the builder's search for identifiers is the one loop that could go
  on for ever.
\<close>

theorem serving_keeps_the_outbox:
  assumes laws: "lmdb_laws api contents" and ok: "store_ok (store_contents contents (wt_store w))"
    and room: "room (sum_list (map event_calls events)) (store_contents contents (wt_store w))"
    and builds: "list_all (event_ends st) events"
  shows "\<exists>w'. serve_loop api st events w = Some w' \<and> store_ok (store_contents contents (wt_store w')) \<and>
    keeps_delivery (store_contents contents (wt_store w)) (store_contents contents (wt_store w'))"
  using serve_loop_safe [OF laws ok _ builds, of 0] room by (auto simp: safe_until_def)

subsection \<open>Core debugging\<close>

lemma core_loop_safe:
  assumes laws: "lmdb_laws api contents"
  shows "store_ok (store_contents contents (wt_store w)) \<Longrightarrow>
    room (2 * length turns + k) (store_contents contents (wt_store w)) \<Longrightarrow> list_all (turn_ends st root) turns \<Longrightarrow>
    \<exists>w'. core_loop api st root turns w = Some w' \<and> safe_until contents k (wt_store w) (wt_store w')"
proof (induction turns arbitrary: w)
  case Nil
  then show ?case using safe_refl by auto
next
  case (Cons t turns)
  let ?left = "2 * length turns + k"
  have room: "room (2 + ?left) (store_contents contents (wt_store w))" using Cons.prems(2) by simp
  have "\<exists>stopped w1. core_turn api st root t w = Some (stopped, w1) \<and> safe_until contents ?left (wt_store w) (wt_store w1)"
  proof (cases "due (tn_now t) (wt_last_watch w) (ms_watch_interval_seconds st)")
    case True
    then show ?thesis using watch_cycle_safe [OF laws Cons.prems(1) room, of st root t False] Cons.prems(3)
      by (auto simp: core_turn_def Let_def)
  next
    case False
    have "room ?left (store_contents contents (wt_store w))" using room by (simp add: room_def)
    then show ?thesis using False safe_refl [OF Cons.prems(1)] by (auto simp: core_turn_def)
  qed
  then obtain stopped w1 where w1: "core_turn api st root t w = Some (stopped, w1)"
    "safe_until contents ?left (wt_store w) (wt_store w1)" by blast
  have "safe_until contents k (wt_store w) (wt_store w1)" using w1(2) by (simp add: safe_until_def room_def)
  moreover obtain w' where "core_loop api st root turns w1 = Some w'" "safe_until contents k (wt_store w1) (wt_store w')"
    using Cons.IH [of w1] Cons.prems(3) w1(2) by (auto simp: safe_until_def)
  ultimately show ?case using w1 safe_trans [OF w1(2)] by (cases stopped) auto
qed

text \<open>The loop ends after the cycles that were asked for, if it is not stopped before.\<close>

lemma core_turn_counts:
  assumes "core_turn api st root t w = Some (stopped, w')" "ms_stop_after_watch_cycles st > 0"
    "wt_cycles w < ms_stop_after_watch_cycles st" "ms_stop_after_watch_cycles st < 2 ^ 64"
  shows "if stopped then wt_cycles w' = ms_stop_after_watch_cycles st
    else wt_cycles w' < ms_stop_after_watch_cycles st \<and>
      wt_cycles w' = wt_cycles w + (if due (tn_now t) (wt_last_watch w) (ms_watch_interval_seconds st) then 1 else 0)"
proof -
  have same: "wt_cycles (log_metrics api st now v) = wt_cycles v" for now v by (simp add: log_metrics_def)
  have cycle: "wt_cycles v = wt_cycles w" if "watch_cycle api st root False t w = Some v" for v
    using that by (auto simp: watch_cycle_def split: option.splits)
  have "(wt_cycles w + 1) mod 2 ^ 64 = wt_cycles w + 1" using assms(3,4) by simp
  then show ?thesis using assms(1,3) cycle
    by (auto simp: core_turn_def Let_def same split: if_splits option.splits)
qed

subsection \<open>Examples\<close>

definition sample_scan :: scan_options where
  "sample_scan = \<lparr>so_follow_symlinks = False, so_max_entries = 10, so_include_globs = [], so_exclude_globs = [],
    so_case_sensitive_globs = False\<rparr>"

definition sample_settings :: muninn_settings where
  "sample_settings = (initial_settings 2)\<lparr>ms_default_root_path := Some ''/r'', ms_watch_interval_seconds := 2,
    ms_scan_max_entries := 10, ms_retention_keep_latest_snapshots := 3\<rparr>"

definition sample_turn :: "int \<Rightarrow> turn" where
  "sample_turn now = \<lparr>tn_now = now, tn_tree = sample_tree, tn_clock = sample_clock\<rparr>"

lemma sample_settings_select [simp]:
  "ms_default_root_path sample_settings = Some ''/r''" "ms_watch_interval_seconds sample_settings = 2"
  "scan_options_of sample_settings = sample_scan"
  by (simp_all add: sample_settings_def initial_settings_def scan_options_of_def sample_scan_def)

lemma sample_turn_select [simp]: "tn_now (sample_turn now) = now" "tn_tree (sample_turn now) = sample_tree"
  "tn_clock (sample_turn now) = sample_clock"
  by (simp_all add: sample_turn_def)

lemma sample_turn_tree: "scan_tree (scan sample_tree ''/r'' sample_scan)"
  by code_simp

lemma sample_turn_ends: "turn_ends sample_settings ''/r'' (sample_turn now)"
proof -
  have "length (rs_entries (scan sample_tree ''/r'' sample_scan)) \<le> 9" by code_simp
  from small_scan_enough [OF this] show ?thesis by (simp add: turn_ends_def)
qed

definition sample_watch :: "u64 \<Rightarrow> list_db watch_state" where
  "sample_watch base = start_watching sample_settings True base 0 sample_store"

lemma sample_watch_select [simp]: "wt_store (sample_watch base) = sample_store" "wt_base (sample_watch base) = base"
  "wt_last_watch (sample_watch base) = (if base = 0 then - 2000000000 else 0)"
  by (simp_all add: sample_watch_def start_watching_def)

theorem serving_keeps_the_outbox_witness:
  "\<exists>w'. serve_loop (faultless_lmdb (\<lambda>_. [])) sample_settings
      [Turn (sample_turn 200000000), Sessions 0 [RegisterConsumer ''d'', DeleteSnapshot 7], Turn (sample_turn 2500000000)]
      (sample_watch 0) = Some w' \<and>
    store_ok (store_contents list_contents (wt_store w')) \<and>
    (\<exists>a'. acked (store_contents list_contents (wt_store w')) ''c'' = Some a' \<and>
      (outbox (store_contents list_contents (wt_store w')) 1 = Some sample_frame \<or> 1 \<le> a'))"
proof -
  let ?events = "[Turn (sample_turn 200000000), Sessions 0 [RegisterConsumer ''d'', DeleteSnapshot 7], Turn (sample_turn 2500000000)]"
  obtain w' where run: "serve_loop (faultless_lmdb (\<lambda>_. [])) sample_settings ?events (sample_watch 0) = Some w'"
    "store_ok (store_contents list_contents (wt_store w'))"
    "keeps_delivery (list_contents sample_db) (store_contents list_contents (wt_store w'))"
    using serving_keeps_the_outbox [OF faultless_lmdb_laws [of "\<lambda>_. []"], of "sample_watch 0" ?events sample_settings]
      sample_store_ok sample_room [of 6] sample_turn_ends by auto
  have "acked (list_contents sample_db) ''c'' = Some 0" "outbox (list_contents sample_db) 1 = Some sample_frame" by simp_all
  then show ?thesis using run unfolding keeps_delivery_def by blast
qed

lemma sample_lost:
  "\<exists>e. get_snapshot (faultless_lmdb (\<lambda>_. [])) 0 99 True sample_store = Inl e \<and> sf_code e = NotFound"
  by (simp add: get_snapshot_def store_begin_txn_def is_open_def sample_store_def faultless_lmdb_def store_get_blob_def
      sample_db_def store_error_def)

theorem lost_base_is_recovered_witness:
  "\<exists>w1 w2. serve_turn (faultless_lmdb (\<lambda>_. [])) sample_settings (sample_turn 2000000000) (sample_watch 99) = Some w1 \<and>
    wt_base w1 = 0 \<and> serve_turn (faultless_lmdb (\<lambda>_. [])) sample_settings (sample_turn 4000000000) w1 = Some w2"
proof -
  obtain e where e: "get_snapshot (faultless_lmdb (\<lambda>_. [])) 0 99 True sample_store = Inl e" "sf_code e = NotFound"
    using sample_lost by blast
  show ?thesis
    using lost_base_is_recovered [OF faultless_lmdb_laws [of "\<lambda>_. []"], of sample_settings "''/r''" "sample_turn 2000000000"
        "sample_watch 99" "sample_turn 4000000000" e] e sample_turn_tree sample_turn_ends
    by (auto simp: due_def sample_clock_def)
qed


end
