(* ===== verification/StreamSession.thy ===== *)
theory StreamSession imports FrontendAuth begin

text \<open>
  A WebSocket connection of the frontend, \<open>WebsocketSession\<close> of
  \<open>src/backend/Hugin/api/frontend_api_server.cpp\<close>: the queue of outgoing frames with its limits and what happens
  when a frame is over them.

  \<open>ss_started\<close> are the frames given to \<open>async_write\<close>, in order, and \<open>ss_outstanding\<close> counts the writes that
  have not completed.  The library allows one at a time.
\<close>

record stream_session =
  ss_write_queue :: "string list"
  ss_pending_bytes :: u64
  ss_started :: "string list"
  ss_outstanding :: nat
  ss_closed :: bool

definition fresh_stream :: stream_session where
  "fresh_stream = \<lparr>ss_write_queue = [], ss_pending_bytes = 0, ss_started = [], ss_outstanding = 0, ss_closed = False\<rparr>"

definition frame_size :: "string \<Rightarrow> u64" where
  "frame_size payload = of_nat (length payload)"

definition over_limit :: "frontend_options \<Rightarrow> u64 \<Rightarrow> string list \<Rightarrow> u64 \<Rightarrow> bool" where
  "over_limit options payload_size queue pending_bytes \<longleftrightarrow>
    length queue \<ge> unat (fo_ws_max_pending_messages options) \<or>
    pending_bytes + payload_size > fo_ws_max_pending_bytes options"

text \<open>The loop that drops from the front.\<close>

fun drop_oldest :: "frontend_options \<Rightarrow> u64 \<Rightarrow> string list \<Rightarrow> u64 \<Rightarrow> string list \<times> u64" where
  "drop_oldest options payload_size [] pending_bytes = ([], pending_bytes)"
| "drop_oldest options payload_size (frame # queue) pending_bytes =
    (if over_limit options payload_size (frame # queue) pending_bytes
     then drop_oldest options payload_size queue (pending_bytes - frame_size frame)
     else (frame # queue, pending_bytes))"

definition ss_do_write :: "stream_session \<Rightarrow> stream_session" where
  "ss_do_write s =
    (if ss_write_queue s = [] then s
     else s\<lparr>ss_started := ss_started s @ [hd (ss_write_queue s)], ss_outstanding := ss_outstanding s + 1\<rparr>)"

definition ss_enqueue :: "string \<Rightarrow> stream_session \<Rightarrow> stream_session" where
  "ss_enqueue payload s =
    (let idle = (ss_write_queue s = []);
         s = s\<lparr>ss_pending_bytes := ss_pending_bytes s + frame_size payload, ss_write_queue := ss_write_queue s @ [payload]\<rparr>
     in if idle then ss_do_write s else s)"

definition stream_send :: "frontend_options \<Rightarrow> string \<Rightarrow> stream_session \<Rightarrow> stream_session" where
  "stream_send options payload s =
    (let payload_size = frame_size payload
     in if over_limit options payload_size (ss_write_queue s) (ss_pending_bytes s)
        then (case fo_ws_backpressure_policy options of
            DropNewest \<Rightarrow> s
          | DropOldest \<Rightarrow>
              (case drop_oldest options payload_size (ss_write_queue s) (ss_pending_bytes s) of (queue, pending_bytes) \<Rightarrow>
                let s = s\<lparr>ss_write_queue := queue, ss_pending_bytes := pending_bytes\<rparr>
                in if over_limit options payload_size queue pending_bytes then s else ss_enqueue payload s)
          | Disconnect \<Rightarrow> s\<lparr>ss_closed := True\<rparr>)
        else ss_enqueue payload s)"

text \<open>A write completes.\<close>

definition ss_on_write :: "bool \<Rightarrow> stream_session \<Rightarrow> stream_session" where
  "ss_on_write error s =
    (let s = s\<lparr>ss_outstanding := ss_outstanding s - 1\<rparr>
     in if error then s
        else (let s = (if ss_write_queue s \<noteq> []
              then s\<lparr>ss_pending_bytes := ss_pending_bytes s - frame_size (hd (ss_write_queue s)), ss_write_queue := tl (ss_write_queue s)\<rparr>
              else s)
          in if ss_write_queue s \<noteq> [] then ss_do_write s else s))"

datatype stream_event = Send string | Completed bool

fun stream_step :: "frontend_options \<Rightarrow> stream_event \<Rightarrow> stream_session \<Rightarrow> stream_session" where
  "stream_step options (Send payload) s = stream_send options payload s"
| "stream_step options (Completed error) s = ss_on_write error s"

text \<open>The states that a session can come to; only an outstanding write completes.\<close>

inductive reachable_stream :: "frontend_options \<Rightarrow> stream_session \<Rightarrow> bool" for options where
  started: "reachable_stream options fresh_stream"
| sent: "reachable_stream options s \<Longrightarrow> length payload < 2 ^ 63 \<Longrightarrow> reachable_stream options (stream_step options (Send payload) s)"
| completed: "reachable_stream options s \<Longrightarrow> 0 < ss_outstanding s \<Longrightarrow> reachable_stream options (stream_step options (Completed error) s)"

subsection \<open>Bounds of the queue\<close>

definition queue_bytes :: "string list \<Rightarrow> nat" where
  "queue_bytes queue = sum_list (map length queue)"

lemma queue_bytes_simps [simp]:
  "queue_bytes [] = 0" "queue_bytes (f # q) = length f + queue_bytes q" "queue_bytes (q @ q') = queue_bytes q + queue_bytes q'"
  by (simp_all add: queue_bytes_def)

definition within_limits :: "frontend_options \<Rightarrow> string list \<Rightarrow> u64 \<Rightarrow> bool" where
  "within_limits options queue pending_bytes \<longleftrightarrow> unat pending_bytes = queue_bytes queue \<and>
    queue_bytes queue \<le> unat (fo_ws_max_pending_bytes options) \<and> length queue \<le> unat (fo_ws_max_pending_messages options)"

lemma frame_size_small: "length f < 2 ^ 64 \<Longrightarrow> unat (frame_size f) = length f"
  by (simp add: frame_size_def unsigned_of_nat take_bit_nat_eq_self)

lemma within_limits_Cons:
  assumes "within_limits options (f # queue) pending"
  shows "within_limits options queue (pending - frame_size f)"
proof -
  have "length f \<le> unat pending" using assms by (simp add: within_limits_def)
  then have f: "unat (frame_size f) = length f" using unsigned_less [of pending, where ?'a = nat] by (intro frame_size_small) simp
  then have "frame_size f \<le> pending" using \<open>length f \<le> unat pending\<close> by (simp add: word_le_nat_alt)
  then show ?thesis using assms f by (simp add: within_limits_def unat_sub)
qed

lemma drop_oldest_limits:
  "within_limits options queue pending \<Longrightarrow> drop_oldest options n queue pending = (queue', pending') \<Longrightarrow> within_limits options queue' pending'"
  by (induction options n queue pending rule: drop_oldest.induct) (auto split: if_splits dest: within_limits_Cons)

lemma enqueue_limits:
  assumes w: "within_limits options queue pending" and fits: "\<not> over_limit options (frame_size payload) queue pending"
    and small: "length payload < 2 ^ 63" "unat (fo_ws_max_pending_bytes options) < 2 ^ 63"
  shows "within_limits options (queue @ [payload]) (pending + frame_size payload)"
proof -
  have f: "unat (frame_size payload) = length payload" using small(1) by (intro frame_size_small) simp
  have "unat pending + length payload < 2 ^ 64" using w small by (simp add: within_limits_def)
  then have "unat (pending + frame_size payload) = unat pending + length payload"
    using f by (simp add: unat_add_lem [THEN iffD1])
  then show ?thesis using w fits by (auto simp: within_limits_def over_limit_def not_le not_less word_le_nat_alt)
qed

lemma do_write_select [simp]: "ss_write_queue (ss_do_write s) = ss_write_queue s" "ss_pending_bytes (ss_do_write s) = ss_pending_bytes s"
  by (simp_all add: ss_do_write_def)

lemma enqueue_select [simp]:
  "ss_write_queue (ss_enqueue payload s) = ss_write_queue s @ [payload]"
  "ss_pending_bytes (ss_enqueue payload s) = ss_pending_bytes s + frame_size payload"
  by (simp_all add: ss_enqueue_def Let_def)

lemma reachable_within_limits:
  assumes "reachable_stream options s" and small: "unat (fo_ws_max_pending_bytes options) < 2 ^ 63"
  shows "within_limits options (ss_write_queue s) (ss_pending_bytes s)"
  using assms(1)
proof induction
  case started
  then show ?case by (simp add: fresh_stream_def within_limits_def)
next
  case (sent s payload)
  note enqueue = enqueue_limits [OF _ _ sent.hyps(2) small]
  show ?case
  proof (cases "over_limit options (frame_size payload) (ss_write_queue s) (ss_pending_bytes s)")
    case True
    obtain queue pending where d: "drop_oldest options (frame_size payload) (ss_write_queue s) (ss_pending_bytes s) = (queue, pending)"
      by fastforce
    from drop_oldest_limits [OF sent.IH d] True d sent.IH enqueue show ?thesis
      by (cases "fo_ws_backpressure_policy options") (auto simp: stream_send_def Let_def)
  next
    case False
    then show ?thesis using sent.IH enqueue by (simp add: stream_send_def)
  qed
next
  case (completed s error)
  show ?case
  proof (cases "ss_write_queue s")
    case (Cons f queue)
    then show ?thesis using completed.IH within_limits_Cons [of options f queue "ss_pending_bytes s"] by (auto simp: ss_on_write_def Let_def)
  qed (use completed.IH in \<open>simp add: ss_on_write_def Let_def\<close>)
qed

text \<open>
  The queue of a frontend connection stays inside its limits, whatever is sent and whenever writes complete,
  under each of the three policies: no more frames than allowed, no more bytes than allowed, and the
  counter of bytes is exactly what the queue holds.
\<close>

lemma outbound_queue_is_bounded:
  assumes "reachable_stream options s" and "unat (fo_ws_max_pending_bytes options) < 2 ^ 63"
  shows "length (ss_write_queue s) \<le> unat (fo_ws_max_pending_messages options) \<and>
    unat (ss_pending_bytes s) = sum_list (map length (ss_write_queue s)) \<and>
    unat (ss_pending_bytes s) \<le> unat (fo_ws_max_pending_bytes options)"
  using reachable_within_limits [OF assms] by (simp add: within_limits_def queue_bytes_def)

subsection \<open>One write at a time\<close>

definition one_write :: "stream_session \<Rightarrow> bool" where
  "one_write s \<longleftrightarrow> ss_outstanding s \<le> 1 \<and>
    (ss_outstanding s = 1 \<longrightarrow> ss_write_queue s \<noteq> [] \<and> ss_started s \<noteq> [] \<and> last (ss_started s) = hd (ss_write_queue s)) \<and>
    (ss_write_queue s = [] \<longrightarrow> ss_outstanding s = 0)"

lemma enqueue_one_write: "one_write s \<Longrightarrow> one_write (ss_enqueue payload s)"
  by (auto simp: one_write_def ss_enqueue_def ss_do_write_def Let_def)

lemma on_write_one_write: "one_write s \<Longrightarrow> 0 < ss_outstanding s \<Longrightarrow> one_write (ss_on_write error s)"
  by (auto simp: one_write_def ss_on_write_def ss_do_write_def Let_def)

lemma reachable_one_write:
  assumes "reachable_stream options s" and "fo_ws_backpressure_policy options \<noteq> DropOldest"
  shows "one_write s"
  using assms(1)
proof induction
  case started
  then show ?case by (simp add: fresh_stream_def one_write_def)
next
  case (sent s payload)
  have closed: "one_write (s\<lparr>ss_closed := True\<rparr>)" using sent.IH by (simp add: one_write_def)
  show ?case using sent.IH closed assms(2) enqueue_one_write [OF sent.IH]
    by (cases "fo_ws_backpressure_policy options") (auto simp: stream_send_def Let_def)
next
  case (completed s error)
  then show ?case by (simp add: on_write_one_write)
qed

lemma dropped_front_overlaps:
  assumes "fo_ws_backpressure_policy options = DropOldest" "fo_ws_max_pending_messages options = 1"
    and "length a \<le> unat (fo_ws_max_pending_bytes options)" "length b \<le> unat (fo_ws_max_pending_bytes options)"
  shows "stream_send options b (stream_send options a fresh_stream) =
    \<lparr>ss_write_queue = [b], ss_pending_bytes = frame_size b, ss_started = [a, b], ss_outstanding = 2, ss_closed = False\<rparr>"
proof -
  have bytes: "unat (fo_ws_max_pending_bytes options) < 2 ^ 64"
    using unsigned_less [of "fo_ws_max_pending_bytes options", where ?'a = nat] by simp
  have size: "frame_size f \<le> fo_ws_max_pending_bytes options" if "length f \<le> unat (fo_ws_max_pending_bytes options)" for f
    using that bytes by (simp add: word_le_nat_alt frame_size_small)
  show ?thesis
    using assms size [OF assms(3)] size [OF assms(4)]
    by (simp add: stream_send_def fresh_stream_def over_limit_def ss_enqueue_def ss_do_write_def Let_def not_less)
qed

text \<open>
  When frames are refused or the connection is closed at the limit, at most one write is outstanding, as
  the library demands, and it writes the frame at the head of the queue.  With \<open>drop_oldest\<close> the frame that is
  being written is dropped from the queue like any other, and a second write is started beside it.
\<close>

lemma only_drop_oldest_overlaps_writes:
  assumes "reachable_stream options s"
  shows "(fo_ws_backpressure_policy options \<noteq> DropOldest \<longrightarrow> ss_outstanding s \<le> 1 \<and>
      (ss_outstanding s = 1 \<longrightarrow> ss_write_queue s \<noteq> [] \<and> ss_started s \<noteq> [] \<and> last (ss_started s) = hd (ss_write_queue s))) \<and>
    (fo_ws_backpressure_policy options = DropOldest \<and> fo_ws_max_pending_messages options = 1 \<and>
      length a \<le> unat (fo_ws_max_pending_bytes options) \<and> length b \<le> unat (fo_ws_max_pending_bytes options) \<longrightarrow>
      ss_outstanding (stream_send options b (stream_send options a fresh_stream)) = 2)"
  using reachable_one_write [OF assms] by (simp add: one_write_def dropped_front_overlaps)

subsection \<open>Examples\<close>

lemma outbound_queue_is_bounded_witness:
  "let s = stream_send sample_frontend ''cd'' (stream_send sample_frontend ''ab'' fresh_stream)
   in ss_write_queue s = [''cd''] \<and> length (ss_write_queue s) \<le> unat (fo_ws_max_pending_messages sample_frontend) \<and> unat (ss_pending_bytes s) = 2"
proof -
  let ?s = "stream_send sample_frontend ''cd'' (stream_send sample_frontend ''ab'' fresh_stream)"
  have s: "?s = \<lparr>ss_write_queue = [''cd''], ss_pending_bytes = frame_size ''cd'', ss_started = [''ab'', ''cd''], ss_outstanding = 2,
      ss_closed = False\<rparr>"
    by (rule dropped_front_overlaps) (simp_all add: sample_frontend_def)
  have "reachable_stream sample_frontend ?s"
    using sent [OF sent [OF started, of "''ab''" sample_frontend], of "''cd''"] by simp
  moreover have "fo_ws_max_pending_messages sample_frontend = 1" "fo_ws_max_pending_bytes sample_frontend = 8"
    by (simp_all add: sample_frontend_def)
  ultimately show ?thesis using outbound_queue_is_bounded [of sample_frontend ?s] by (simp add: s)
qed

lemma only_drop_oldest_overlaps_writes_witness:
  "ss_outstanding (stream_send sample_frontend ''cd'' (stream_send sample_frontend ''ab'' fresh_stream)) = 2"
  using only_drop_oldest_overlaps_writes [OF started, of sample_frontend "''ab''" "''cd''"] by (simp add: sample_frontend_def)

end
