(* ===== verification/FrontendDto.thy ===== *)
theory FrontendDto imports FrontendAuth begin

text \<open>
  The commands of the frontend, \<open>src/backend/Hugin/api/frontend_dto.cpp\<close>: the strict reading of a command from
  JSON, the command of the bridge that is made of it, and the events of the stream.
\<close>

subsection \<open>Reading a command\<close>

datatype frontend_operation = FCreate | FRead | FUpdate | FDelete

record frontend_command_request =
  fd_request_id :: string
  fd_operation :: frontend_operation
  fd_root_path :: string
  fd_snapshot_id :: u64
  fd_base_snapshot_id :: u64
  fd_ack_sequence :: u64
  fd_outbox_batch_size :: u32

record frontend_command_response =
  fp_ok :: bool
  fp_request_id :: string
  fp_message :: string

definition default_request :: frontend_command_request where
  "default_request = \<lparr>fd_request_id = [], fd_operation = FRead, fd_root_path = [], fd_snapshot_id = 0,
    fd_base_snapshot_id = 0, fd_ack_sequence = 0, fd_outbox_batch_size = 128\<rparr>"

definition kAllowedCommandKeys :: "string list" where
  "kAllowedCommandKeys = [''request_id'', ''operation'', ''root_path'', ''snapshot_id'', ''base_snapshot_id'',
    ''ack_sequence'', ''outbox_batch_size'']"

definition is_allowed_key :: "string \<Rightarrow> bool" where
  "is_allowed_key key \<longleftrightarrow> key \<in> set kAllowedCommandKeys"

definition parse_operation :: "string \<Rightarrow> frontend_operation option" where
  "parse_operation t =
    (if t = ''create'' then Some FCreate else if t = ''read'' then Some FRead
     else if t = ''update'' then Some FUpdate else if t = ''delete'' then Some FDelete else None)"

fun to_crud_operation :: "frontend_operation \<Rightarrow> operation" where
  "to_crud_operation FCreate = Create"
| "to_crud_operation FRead = Read"
| "to_crud_operation FUpdate = Update"
| "to_crud_operation FDelete = Delete"

definition record_kind_text :: "byte \<Rightarrow> string" where
  "record_kind_text record_type = (if record_type = 1 then ''snapshot'' else if record_type = 2 then ''delta'' else ''unknown'')"

text \<open>An optional member that must be a text.\<close>

definition optional_string :: "'j json_api \<Rightarrow> 'j json_values \<Rightarrow> 'j \<Rightarrow> string \<Rightarrow> string \<Rightarrow> string status_or" where
  "optional_string js jv json field unless =
    (case js_at js json field of
       None \<Rightarrow> Inr unless
     | Some v \<Rightarrow> (case jv_string jv v of
         None \<Rightarrow> Inl (ValidationError, field @ '' must be a string.'') | Some s \<Rightarrow> Inr s))"

text \<open>\<open>read_u64\<close>: \<^const>\<open>None\<close> when the member is not a number that is not negative.\<close>

definition read_u64 :: "'j json_api \<Rightarrow> 'j json_values \<Rightarrow> 'j \<Rightarrow> string \<Rightarrow> u64 \<Rightarrow> u64 option" where
  "read_u64 js jv json field unless =
    (case js_at js json field of
       None \<Rightarrow> Some unless
     | Some v \<Rightarrow> (case jv_unsigned jv v of
         Some n \<Rightarrow> Some n
       | None \<Rightarrow> (case jv_integer jv v of
           None \<Rightarrow> None | Some i \<Rightarrow> if sint i < 0 then None else Some (ucast i))))"

definition read_batch_size :: "'j json_api \<Rightarrow> 'j json_values \<Rightarrow> 'j \<Rightarrow> u32 \<Rightarrow> u32 status_or" where
  "read_batch_size js jv json unless =
    (case js_at js json ''outbox_batch_size'' of
       None \<Rightarrow> Inr unless
     | Some v \<Rightarrow>
         (if jv_unsigned jv v = None \<and> jv_integer jv v = None
          then Inl (ValidationError, ''outbox_batch_size must be a positive integer.'')
          else case (case jv_unsigned jv v of
              Some n \<Rightarrow> Some n
            | None \<Rightarrow> (let i = the (jv_integer jv v) in if sint i \<le> 0 then None else Some (ucast i))) of
            None \<Rightarrow> Inl (ValidationError, ''outbox_batch_size is out of range.'')
          | Some n \<Rightarrow>
              if n = 0 \<or> n > 4294967295 then Inl (ValidationError, ''outbox_batch_size is out of range.'')
              else Inr (ucast n)))"

definition parse_frontend_command_request :: "'j json_api \<Rightarrow> 'j json_values \<Rightarrow> 'j \<Rightarrow> frontend_command_request status_or" where
  "parse_frontend_command_request js jv json =
    (if \<not> js_is_object js json then Inl (ParseError, ''Command payload must be a JSON object.'')
     else case find (\<lambda>key. \<not> is_allowed_key key) (jv_keys jv json) of
       Some key \<Rightarrow> Inl (ValidationError, ''Unknown command field: '' @ key)
     | None \<Rightarrow>
         (case Option.bind (js_at js json ''operation'') (jv_string jv) of
            None \<Rightarrow> Inl (ValidationError, ''operation is required and must be a string.'')
          | Some t \<Rightarrow>
              (case parse_operation t of
                 None \<Rightarrow> Inl (ValidationError, ''operation must be one of create/read/update/delete.'')
               | Some op \<Rightarrow>
                   sum_bind (optional_string js jv json ''request_id'' (fd_request_id default_request)) (\<lambda>request_id.
                   sum_bind (optional_string js jv json ''root_path'' (fd_root_path default_request)) (\<lambda>root_path.
                   case (read_u64 js jv json ''snapshot_id'' 0, read_u64 js jv json ''base_snapshot_id'' 0,
                         read_u64 js jv json ''ack_sequence'' 0) of
                     (Some snapshot_id, Some base_snapshot_id, Some ack_sequence) \<Rightarrow>
                       sum_bind (read_batch_size js jv json (fd_outbox_batch_size default_request)) (\<lambda>batch_size.
                       Inr \<lparr>fd_request_id = request_id, fd_operation = op, fd_root_path = root_path, fd_snapshot_id = snapshot_id,
                         fd_base_snapshot_id = base_snapshot_id, fd_ack_sequence = ack_sequence, fd_outbox_batch_size = batch_size\<rparr>)
                   | _ \<Rightarrow> Inl (ValidationError, ''snapshot_id/base_snapshot_id/ack_sequence must be non-negative integers.''))))))"

subsection \<open>What is made of it\<close>

definition to_crud_command :: "frontend_command_request \<Rightarrow> crud_command" where
  "to_crud_command dto = default_command\<lparr>cc_request_id := fd_request_id dto, cc_operation := to_crud_operation (fd_operation dto),
    cc_root_path := fd_root_path dto, cc_snapshot_id := fd_snapshot_id dto, cc_base_snapshot_id := fd_base_snapshot_id dto,
    cc_ack_sequence := fd_ack_sequence dto, cc_outbox_batch_size := fd_outbox_batch_size dto\<rparr>"

definition to_frontend_command_response_json :: "'j json_api \<Rightarrow> frontend_command_response \<Rightarrow> 'j" where
  "to_frontend_command_response_json js dto = js_object js
    [(''ok'', js_bool js (fp_ok dto)), (''request_id'', js_string js (fp_request_id dto)), (''message'', js_string js (fp_message dto))]"

definition to_frontend_stream_event_json :: "'j json_api \<Rightarrow> crud_result \<Rightarrow> 'j" where
  "to_frontend_stream_event_json js result = js_object js
    [(''event_type'', js_string js ''crud_result''), (''request_id'', js_string js (cr_request_id result)),
     (''ok'', js_bool js (cr_ok result)), (''message'', js_string js (cr_message result)),
     (''snapshot'', js_object js
       [(''snapshot_id'', js_number js (cr_snapshot_id result)), (''base_snapshot_id'', js_number js (cr_base_snapshot_id result)),
        (''target_snapshot_id'', js_number js (cr_target_snapshot_id result))]),
     (''records'', js_array js (map (\<lambda>message. js_object js
       [(''sequence'', js_number js (tm_sequence message)), (''record_type'', js_number js (ucast (tm_record_type message))),
        (''kind'', js_string js (record_kind_text (tm_record_type message))), (''created_at'', js_number js (tm_created_at message)),
        (''routing_key'', js_string js (tm_routing_key message)), (''payload_b64'', js_string js (tm_payload_b64 message))])
       (cr_records result)))]"

subsection \<open>What is accepted\<close>

lemma read_batch_size_range: "read_batch_size js jv json d = Inr n \<Longrightarrow> d \<noteq> 0 \<Longrightarrow> n \<noteq> 0"
proof -
  assume a: "read_batch_size js jv json d = Inr n" "d \<noteq> 0"
  have c: "ucast m \<noteq> (0 :: u32)" if "m \<noteq> 0" "\<not> 4294967295 < m" for m :: u64
  proof
    assume "ucast m = (0 :: u32)"
    then have "unat (ucast m :: u32) = 0" by simp
    moreover have "unat m < 2 ^ 32" using that(2) by (simp add: word_less_nat_alt)
    ultimately have "unat m = 0" by (simp add: unsigned_ucast_eq take_bit_nat_eq_self)
    then show False using that(1) by (simp add: unat_eq_zero)
  qed
  show ?thesis using a by (auto simp: read_batch_size_def Let_def c split: option.splits if_splits)
qed

text \<open>
  A command of the frontend that is accepted has no member that the gateway does not know, names one of
  the four operations, and becomes a command that Muninn's parser accepts as soon as it has a request
  identifier, with a batch size that is not zero.
\<close>

lemma accepted_commands_are_well_formed:
  assumes "parse_frontend_command_request js jv json = Inr dto"
  shows "set (jv_keys jv json) \<subseteq> set kAllowedCommandKeys \<and>
    (\<exists>v t. js_at js json ''operation'' = Some v \<and> jv_string jv v = Some t \<and>
      operation_from_string t = Some (cc_operation (to_crud_command dto))) \<and>
    cc_outbox_batch_size (to_crud_command dto) \<noteq> 0 \<and>
    (request_id \<noteq> [] \<longrightarrow> command_acceptable ((to_crud_command dto)\<lparr>cc_request_id := request_id\<rparr>))"
proof -
  obtain t op where op: "Option.bind (js_at js json ''operation'') (jv_string jv) = Some t" "parse_operation t = Some op" "fd_operation dto = op"
    and keys: "find (\<lambda>key. \<not> is_allowed_key key) (jv_keys jv json) = None"
    and size: "read_batch_size js jv json 128 = Inr (fd_outbox_batch_size dto)"
    using assms
    by (cases "read_u64 js jv json ''snapshot_id'' 0"; cases "read_u64 js jv json ''base_snapshot_id'' 0";
        cases "read_u64 js jv json ''ack_sequence'' 0")
      (auto simp: parse_frontend_command_request_def sum_bind_eq_Inr default_request_def split: if_splits option.splits)
  have "fd_outbox_batch_size dto \<noteq> 0" using read_batch_size_range [OF size] by simp
  moreover have "operation_from_string t = Some (to_crud_operation op)"
    using op(2) by (auto simp: parse_operation_def operation_from_string_def split: if_splits)
  ultimately show ?thesis
    using op keys by (auto simp: to_crud_command_def find_None_iff is_allowed_key_def command_acceptable_def default_command_def
        bind_eq_Some_conv)
qed

subsection \<open>Examples\<close>

definition sample_request :: json_tree where
  "sample_request = Object_tree [(''operation'', String_tree ''read''), (''outbox_batch_size'', Number_tree 4294967295)]"

lemma sample_request_read:
  "parse_frontend_command_request tree_json sample_values sample_request =
    Inr (default_request\<lparr>fd_operation := FRead, fd_outbox_batch_size := 4294967295\<rparr>)"
  by code_simp

lemma accepted_commands_are_well_formed_witness:
  "command_acceptable ((to_crud_command (default_request\<lparr>fd_operation := FRead, fd_outbox_batch_size := 4294967295\<rparr>))
    \<lparr>cc_request_id := ''frontend-1''\<rparr>)"
  using accepted_commands_are_well_formed [OF sample_request_read, of "''frontend-1''"] by simp

end
