(* ===== verification/FrontendFiles.thy ===== *)
theory FrontendFiles imports FrontendDto Base64 begin

text \<open>
  The file operations of Hugin's frontend API, \<open>src/backend/Hugin/api/frontend_api_server.cpp\<close>: the checks of
  paths and sizes, the download and the upload of one file, and the upload of a directory by several threads.

  The file system is the parameter \<open>file_answers\<close>.  Each answer may depend on the list of operations that the
  request has performed before.  What a handler does is that list and its reply; \<^const>\<open>None\<close> for a reply
  is an exception, which the caller turns into an error of the server.
\<close>

subsection \<open>Replies\<close>

record http_reply =
  re_status :: nat
  re_content_type :: string
  re_body :: string

definition send_json :: "nat \<Rightarrow> string \<Rightarrow> http_reply" where
  "send_json status body = \<lparr>re_status = status, re_content_type = ''application/json'', re_body = body\<rparr>"

text \<open>The literal \<open>R"({"ok":false,"message":"..."})"\<close>.\<close>

definition refusal :: "nat \<Rightarrow> string \<Rightarrow> http_reply" where
  "refusal status message = send_json status (''{\"ok\":false,\"message\":\"'' @ message @ ''\"}'')"

definition dumped :: "'j json_api \<Rightarrow> nat \<Rightarrow> 'j \<Rightarrow> http_reply option" where
  "dumped js status json = map_option (send_json status) (js_dump js json)"

subsection \<open>Paths\<close>

text \<open>The elements that iterating over a \<open>path\<close> gives.\<close>

definition path_elements :: "string \<Rightarrow> string list" where
  "path_elements p = (if path_is_absolute p then [''/''] else []) @ path_names p @
    (if path_has_trailing p \<and> path_names p \<noteq> [] then [[]] else [])"

definition has_parent_traversal :: "string \<Rightarrow> bool" where
  "has_parent_traversal p \<longleftrightarrow> list_ex (\<lambda>part. part = ''..'') (path_elements p)"

fun components_within :: "string list \<Rightarrow> string list \<Rightarrow> bool" where
  "components_within candidate [] = True"
| "components_within [] (r # root) = False"
| "components_within (c # candidate) (r # root) = (r = c \<and> components_within candidate root)"

definition is_path_within_root :: "string \<Rightarrow> string \<Rightarrow> bool" where
  "is_path_within_root candidate root = components_within (path_elements candidate) (path_elements root)"

text \<open>\<open>operator/\<close>.\<close>

definition path_join :: "string \<Rightarrow> string \<Rightarrow> string" where
  "path_join p q =
    (if path_is_absolute q then q
     else if p \<noteq> [] \<and> \<not> path_has_trailing p then p @ ''/'' @ q else p @ q)"

subsection \<open>Sizes\<close>

definition estimate_base64_decoded_size :: "string \<Rightarrow> nat option" where
  "estimate_base64_decoded_size encoded =
    (if encoded = [] then Some 0
     else let len = length encoded
       in if len mod 4 \<noteq> 0 then None
          else (let padding = (if len \<ge> 1 \<and> encoded ! (len - 1) = CHR ''='' then 1 else 0) +
                    (if len \<ge> 2 \<and> encoded ! (len - 2) = CHR ''='' then 1 else 0)
            in Some (len div 4 * 3 - padding)))"

text \<open>Each group of four characters but the last gives at most three bytes, and the last one as many as estimated.\<close>

lemma decode_groups_length:
  "decode_groups s = Some bs \<Longrightarrow> length s mod 4 = 0 \<Longrightarrow> s \<noteq> [] \<Longrightarrow>
    length bs + (if s ! (length s - 1) = CHR ''='' then 1 else 0) + (if s ! (length s - 2) = CHR ''='' then 1 else 0) \<le> length s div 4 * 3"
proof (induction s arbitrary: bs rule: decode_groups.induct)
  case (1 c0 c1 c2 c3 rest)
  obtain tl where d: "decode_groups rest = Some tl"
    "length bs = 1 + (if c2 \<noteq> CHR ''='' then 1 else 0) + (if c3 \<noteq> CHR ''='' then 1 else 0) + length tl"
    using 1(2) by (auto simp: Let_def split: if_splits)
  show ?case
  proof (cases rest)
    case Nil
    then show ?thesis using d by simp
  next
    case (Cons a list)
    have mod: "length rest mod 4 = 0" using 1(3) by simp
    then have "4 \<le> length rest" using Cons by (cases "length rest < 4") auto
    then obtain n where "length rest = n + 4" using le_Suc_ex [of 4 "length rest"] by (auto simp: add.commute)
    then have last: "(c0 # c1 # c2 # c3 # rest) ! (length (c0 # c1 # c2 # c3 # rest) - 1) = rest ! (length rest - 1)"
      "(c0 # c1 # c2 # c3 # rest) ! (length (c0 # c1 # c2 # c3 # rest) - 2) = rest ! (length rest - 2)"
      by (simp_all add: nth_Cons numeral_eq_Suc)
    have "length tl + (if rest ! (length rest - 1) = CHR ''='' then 1 else 0) +
        (if rest ! (length rest - 2) = CHR ''='' then 1 else 0) \<le> length rest div 4 * 3"
      using 1(1) d(1) mod Cons 1(2) by (auto simp: Let_def split: if_splits)
    then show ?thesis unfolding last using d(2) by (simp split: if_splits)
  qed
qed simp_all

lemma estimate_bounds_decoded:
  assumes "base64_decode s = Some bs"
  shows "\<exists>n. estimate_base64_decoded_size s = Some n \<and> length bs \<le> n"
proof (cases "s = []")
  case True
  then show ?thesis using assms by (simp add: base64_decode_def estimate_base64_decoded_size_def)
next
  case False
  have s: "decode_groups s = Some bs" "length s mod 4 = 0" using assms by (simp_all add: base64_decode_def split: if_splits)
  then have "4 \<le> length s" using False by (cases "length s < 4") auto
  then show ?thesis
    using decode_groups_length [OF s False] s(2) False by (auto simp: estimate_base64_decoded_size_def Let_def)
qed

subsection \<open>The file system\<close>

datatype file_op = Make_directories string | Open_truncate string | Write_bytes string bytes

text \<open>
  \<open>fw_exists\<close> and \<open>fw_is_regular_file\<close> are false when the call reports an error, the canonical paths are
  \<^const>\<open>None\<close> then.  \<open>fw_read\<close> opens and reads a file.  The last three say whether an operation succeeds, the
  operations before it given.
\<close>

record file_answers =
  fw_exists :: "file_op list \<Rightarrow> string \<Rightarrow> bool"
  fw_is_regular_file :: "file_op list \<Rightarrow> string \<Rightarrow> bool"
  fw_is_directory :: "file_op list \<Rightarrow> string \<Rightarrow> bool"
  canonicalize_existing_path :: "file_op list \<Rightarrow> string \<Rightarrow> string option"
  canonicalize_weak_path :: "file_op list \<Rightarrow> string \<Rightarrow> string option"
  fw_read :: "file_op list \<Rightarrow> string \<Rightarrow> bytes option"
  fw_succeeds :: "file_op list \<Rightarrow> file_op \<Rightarrow> bool"

text \<open>A text member of the body of a request, \<^const>\<open>None\<close> when it is missing or not a text.\<close>

definition string_member :: "'j json_api \<Rightarrow> 'j json_values \<Rightarrow> 'j \<Rightarrow> string \<Rightarrow> string option" where
  "string_member js jv body key = Option.bind (js_at js body key) (jv_string jv)"

subsection \<open>The options\<close>

text \<open>The checks with which \<open>FrontendApiServer::start\<close> begins.\<close>

definition root_usable :: "file_answers \<Rightarrow> string \<Rightarrow> bool" where
  "root_usable fw root \<longleftrightarrow> root = [] \<or> fw_exists fw [] root \<and> fw_is_directory fw [] root"

definition check_api_options :: "frontend_options \<Rightarrow> file_answers \<Rightarrow> unit status_or" where
  "check_api_options fo fw =
    (if fo_require_jwt fo \<and> fo_jwt_secret fo = []
     then Inl (error_code.InvalidArgument, ''JWT is required but jwt_secret is empty.'')
     else if \<not> root_usable fw (fo_allowed_read_root fo)
     then Inl (error_code.InvalidArgument, ''allowed_read_root must exist and be a directory.'')
     else if \<not> root_usable fw (fo_allowed_write_root fo)
     then Inl (error_code.InvalidArgument, ''allowed_write_root must exist and be a directory.'')
     else if fo_max_upload_file_bytes fo = 0 \<or> fo_max_upload_directory_files fo = 0 \<or> fo_max_upload_total_decoded_bytes fo = 0
     then Inl (error_code.InvalidArgument, ''Upload limits must be positive values.'')
     else if fo_max_upload_file_bytes fo > fo_max_upload_total_decoded_bytes fo
     then Inl (error_code.InvalidArgument, ''max_upload_file_bytes must not exceed max_upload_total_decoded_bytes.'')
     else Inr ())"

lemma checked_limits: "check_api_options fo fw = Inr u \<Longrightarrow> fo_max_upload_file_bytes fo \<le> fo_max_upload_total_decoded_bytes fo"
  by (simp add: check_api_options_def split: if_splits)

subsection \<open>Download\<close>

text \<open>The check that a file is below the root that may be read; the reply when it is not.\<close>

definition refused_read :: "frontend_options \<Rightarrow> file_answers \<Rightarrow> string \<Rightarrow> http_reply option" where
  "refused_read fo fw file_path =
    (if fo_allowed_read_root fo = [] then None
     else case canonicalize_existing_path fw [] (fo_allowed_read_root fo) of
       None \<Rightarrow> Some (refusal 503 ''read root is misconfigured'')
     | Some allowed_root \<Rightarrow>
         (case canonicalize_existing_path fw [] file_path of
            None \<Rightarrow> Some (refusal 400 ''path is invalid'')
          | Some canonical_file \<Rightarrow>
              if \<not> is_path_within_root canonical_file allowed_root
              then Some (refusal 403 ''path is outside allowed_read_root'') else None))"

definition download_file ::
  "'j json_api \<Rightarrow> 'j json_values \<Rightarrow> frontend_options \<Rightarrow> file_answers \<Rightarrow> 'j \<Rightarrow> http_reply option" where
  "download_file js jv fo fw body =
    (case string_member js jv body ''path'' of
       None \<Rightarrow> Some (refusal 400 ''path is required'')
     | Some file_path \<Rightarrow>
         if \<not> fw_exists fw [] file_path \<or> \<not> fw_is_regular_file fw [] file_path
         then Some (refusal 404 ''file not found'')
         else (case refused_read fo fw file_path of
           Some reply \<Rightarrow> Some reply
         | None \<Rightarrow>
             (case fw_read fw [] file_path of
                None \<Rightarrow> Some (refusal 500 ''failed to open file'')
              | Some bytes \<Rightarrow> dumped js 200 (js_object js
                  [(''ok'', js_bool js True), (''path'', js_string js file_path),
                   (''size_bytes'', js_number js (of_nat (length bytes))),
                   (''content_b64'', js_string js (base64_encode bytes))]))))"

subsection \<open>Upload of one file\<close>

definition refused_write :: "frontend_options \<Rightarrow> file_answers \<Rightarrow> string \<Rightarrow> http_reply option" where
  "refused_write fo fw target_path =
    (if fo_allowed_write_root fo = [] then None
     else case canonicalize_existing_path fw [] (fo_allowed_write_root fo) of
       None \<Rightarrow> Some (refusal 503 ''write root is misconfigured'')
     | Some allowed_root \<Rightarrow>
         (case canonicalize_weak_path fw [] target_path of
            None \<Rightarrow> Some (refusal 400 ''target path is invalid'')
          | Some canonical_target \<Rightarrow>
              if \<not> is_path_within_root canonical_target allowed_root
              then Some (refusal 403 ''target path is outside allowed_write_root'') else None))"

text \<open>The steps on the file system: make the directory, open the file, write it.\<close>

definition store_file :: "file_answers \<Rightarrow> string \<Rightarrow> bytes \<Rightarrow> string option \<times> file_op list" where
  "store_file fw target_path decoded =
    (let make = Make_directories (path_parent target_path);
         opening = Open_truncate target_path;
         writing = Write_bytes target_path decoded
     in if \<not> fw_succeeds fw [] make then (Some ''failed to create directory'', [make])
        else if \<not> fw_succeeds fw [make] opening then (Some ''failed to create file'', [make, opening])
        else if \<not> fw_succeeds fw [make, opening] writing then (Some ''failed to write file'', [make, opening, writing])
        else (None, [make, opening, writing]))"

definition upload_file ::
  "'j json_api \<Rightarrow> 'j json_values \<Rightarrow> frontend_options \<Rightarrow> file_answers \<Rightarrow> 'j \<Rightarrow> http_reply option \<times> file_op list" where
  "upload_file js jv fo fw body =
    (case (string_member js jv body ''destination_dir'', string_member js jv body ''file_name'',
           string_member js jv body ''content_b64'') of
       (Some destination_dir, Some file_name, Some content_b64) \<Rightarrow>
         if file_name = [] \<or> path_parent file_name \<noteq> []
         then (Some (refusal 400 ''file_name must be a single filename''), [])
         else (case base64_decode content_b64 of
           None \<Rightarrow> (Some (refusal 400 ''content_b64 is invalid''), [])
         | Some decoded \<Rightarrow>
             if length decoded > unat (fo_max_upload_file_bytes fo)
             then (Some (refusal 413 ''upload exceeds max_upload_file_bytes''), [])
             else if length decoded > unat (fo_max_upload_total_decoded_bytes fo)
             then (Some (refusal 413 ''upload exceeds max_upload_total_decoded_bytes''), [])
             else (let target_path = path_join destination_dir file_name
               in case refused_write fo fw target_path of
                 Some reply \<Rightarrow> (Some reply, [])
               | None \<Rightarrow>
                   (case store_file fw target_path decoded of
                      (Some message, ops) \<Rightarrow> (Some (refusal 500 message), ops)
                    | (None, ops) \<Rightarrow>
                        (dumped js 200 (js_object js
                           [(''ok'', js_bool js True), (''path'', js_string js target_path),
                            (''size_bytes'', js_number js (of_nat (length decoded)))]), ops))))
     | _ \<Rightarrow> (Some (refusal 400 ''destination_dir, file_name, content_b64 are required''), []))"

subsection \<open>Upload of a directory: the request\<close>

text \<open>\<open>generic_string\<close>: the elements, joined by single separators.\<close>

definition generic_string :: "string \<Rightarrow> string" where
  "generic_string p = (if path_is_absolute p then ''/'' else []) @
    join_slash (path_names p @ (if path_has_trailing p \<and> path_names p \<noteq> [] then [[]] else []))"

type_synonym upload_item = "string \<times> string"

text \<open>The check of the items one after the other, with the sum of the sizes so far in a \<open>size_t\<close>.\<close>

fun read_items ::
  "'j json_api \<Rightarrow> 'j json_values \<Rightarrow> frontend_options \<Rightarrow> u64 \<Rightarrow> 'j list \<Rightarrow> http_reply + upload_item list" where
  "read_items js jv fo summed [] = Inr []"
| "read_items js jv fo summed (item # rest) =
    (if \<not> js_is_object js item then Inl (refusal 400 ''files[] items require relative_path and content_b64'')
     else case (string_member js jv item ''relative_path'', string_member js jv item ''content_b64'') of
       (Some relative, Some content_b64) \<Rightarrow>
         if relative = [] \<or> path_is_absolute relative \<or> has_parent_traversal relative
         then Inl (refusal 400 ''relative_path is invalid'')
         else (case estimate_base64_decoded_size content_b64 of
           None \<Rightarrow> Inl (refusal 400 ''content_b64 has invalid length'')
         | Some estimated \<Rightarrow>
             (let estimated_size = of_nat estimated :: u64
              in if estimated_size > fo_max_upload_file_bytes fo
                 then Inl (refusal 413 ''one file exceeds max_upload_file_bytes'')
                 else if summed > fo_max_upload_total_decoded_bytes fo - estimated_size
                 then Inl (refusal 413 ''request exceeds max_upload_total_decoded_bytes'')
                 else sum_bind (read_items js jv fo (summed + estimated_size) rest)
                   (\<lambda>items. Inr ((generic_string relative, content_b64) # items))))
     | _ \<Rightarrow> Inl (refusal 400 ''files[] items require relative_path and content_b64''))"

definition upload_worker_count :: "'j json_api \<Rightarrow> 'j json_values \<Rightarrow> frontend_options \<Rightarrow> 'j \<Rightarrow> http_reply + u64" where
  "upload_worker_count js jv fo body =
    (let most = max 1 (fo_directory_upload_threads fo)
     in case js_at js body ''threads'' of
       None \<Rightarrow> Inr most
     | Some v \<Rightarrow>
         (case jv_integer jv v of
            None \<Rightarrow> Inl (refusal 400 ''threads must be a number'')
          | Some requested \<Rightarrow>
              if sint requested \<le> 0 then Inl (refusal 400 ''threads must be positive'')
              else Inr (min (ucast requested) most)))"

record upload_plan =
  ul_items :: "upload_item list"
  ul_destination :: string
  ul_root :: "string option"
  ul_workers :: u64

definition plan_upload ::
  "'j json_api \<Rightarrow> 'j json_values \<Rightarrow> frontend_options \<Rightarrow> file_answers \<Rightarrow> 'j \<Rightarrow> http_reply + upload_plan" where
  "plan_upload js jv fo fw body =
    (case (string_member js jv body ''destination_dir'', js_at js body ''files'') of
       (Some destination_dir, Some files) \<Rightarrow>
         if \<not> js_is_array js files then Inl (refusal 400 ''destination_dir and files[] are required'')
         else if length (js_items js files) > unat (fo_max_upload_directory_files fo)
         then Inl (refusal 413 ''files count exceeds max_upload_directory_files'')
         else sum_bind (read_items js jv fo 0 (js_items js files)) (\<lambda>items.
           sum_bind (if fo_allowed_write_root fo = [] then Inr None
             else case canonicalize_existing_path fw [] (fo_allowed_write_root fo) of
               None \<Rightarrow> Inl (refusal 503 ''write root is misconfigured'')
             | Some allowed_write_root \<Rightarrow> Inr (Some allowed_write_root)) (\<lambda>allowed_write_root.
           sum_bind (upload_worker_count js jv fo body) (\<lambda>worker_count.
           Inr \<lparr>ul_items = items, ul_destination = destination_dir, ul_root = allowed_write_root, ul_workers = worker_count\<rparr>)))
     | _ \<Rightarrow> Inl (refusal 400 ''destination_dir and files[] are required''))"

end
