(* ===== verification/FrontendUpload.thy ===== *)
theory FrontendUpload imports FrontendFiles begin

text \<open>
  The threads of a directory upload, \<open>src/backend/Hugin/api/frontend_api_server.cpp\<close>: the function \<open>worker\<close> of
  \<open>handle_http_request\<close>, several threads of it over shared counters, and the reply when all have been joined.

  A step of a thread is what it does between two points where another thread may come in: an access to an
  atomic counter or to the file system.  A schedule names the thread of each step.
\<close>

subsection \<open>A worker\<close>

datatype upload_phase = Ready | Taken nat | Counted nat bytes u64 | Checked nat bytes | Made nat bytes | Opened nat bytes | Joined

record upload_state =
  up_next_index :: nat
  up_success_count :: nat
  up_total_decoded_bytes :: u64
  up_failures :: "(string \<times> string) list"
  up_workers :: "upload_phase list"
  up_ops :: "file_op list"

definition item_target :: "upload_plan \<Rightarrow> nat \<Rightarrow> string" where
  "item_target plan index = path_join (ul_destination plan) (fst (ul_items plan ! index))"

definition upload_failed :: "upload_plan \<Rightarrow> nat \<Rightarrow> string \<Rightarrow> upload_state \<Rightarrow> upload_state" where
  "upload_failed plan index message s = s\<lparr>up_failures := up_failures s @ [(fst (ul_items plan ! index), message)]\<rparr>"

text \<open>The check of the target against the root that may be written, with the file system as it is now.\<close>

definition target_allowed :: "file_answers \<Rightarrow> file_op list \<Rightarrow> upload_plan \<Rightarrow> nat \<Rightarrow> bool" where
  "target_allowed fw ops plan index =
    (case ul_root plan of
       None \<Rightarrow> True
     | Some allowed_write_root \<Rightarrow>
         (case canonicalize_weak_path fw ops (item_target plan index) of
            None \<Rightarrow> False
          | Some canonical_target \<Rightarrow> is_path_within_root canonical_target allowed_write_root))"

fun upload_worker ::
  "frontend_options \<Rightarrow> file_answers \<Rightarrow> upload_plan \<Rightarrow> upload_phase \<Rightarrow> upload_state \<Rightarrow> upload_phase \<times> upload_state" where
  "upload_worker fo fw plan Ready s =
    (let index = up_next_index s
     in (if index \<ge> length (ul_items plan) then Joined else Taken index, s\<lparr>up_next_index := index + 1\<rparr>))"
| "upload_worker fo fw plan (Taken index) s =
    (case base64_decode (snd (ul_items plan ! index)) of
       None \<Rightarrow> (Ready, upload_failed plan index ''content_b64 is invalid'' s)
     | Some decoded \<Rightarrow>
         if length decoded > unat (fo_max_upload_file_bytes fo)
         then (Ready, upload_failed plan index ''decoded file exceeds max_upload_file_bytes'' s)
         else (Counted index decoded (up_total_decoded_bytes s),
           s\<lparr>up_total_decoded_bytes := up_total_decoded_bytes s + of_nat (length decoded)\<rparr>))"
| "upload_worker fo fw plan (Counted index decoded previous_total) s =
    (if previous_total > fo_max_upload_total_decoded_bytes fo \<or>
        length decoded > unat (fo_max_upload_total_decoded_bytes fo - previous_total)
     then (Ready, upload_failed plan index ''request exceeds max_upload_total_decoded_bytes'' s)
     else if \<not> target_allowed fw (up_ops s) plan index
     then (Ready, upload_failed plan index ''target path is outside allowed_write_root'' s)
     else (Checked index decoded, s))"
| "upload_worker fo fw plan (Checked index decoded) s =
    (let make = Make_directories (path_parent (item_target plan index)); ok = fw_succeeds fw (up_ops s) make;
         s = s\<lparr>up_ops := up_ops s @ [make]\<rparr>
     in if ok then (Made index decoded, s) else (Ready, upload_failed plan index ''failed to create directory'' s))"
| "upload_worker fo fw plan (Made index decoded) s =
    (let opening = Open_truncate (item_target plan index); ok = fw_succeeds fw (up_ops s) opening;
         s = s\<lparr>up_ops := up_ops s @ [opening]\<rparr>
     in if ok then (Opened index decoded, s) else (Ready, upload_failed plan index ''failed to create file'' s))"
| "upload_worker fo fw plan (Opened index decoded) s =
    (let writing = Write_bytes (item_target plan index) decoded; ok = fw_succeeds fw (up_ops s) writing;
         s = s\<lparr>up_ops := up_ops s @ [writing]\<rparr>
     in if ok then (Ready, s\<lparr>up_success_count := up_success_count s + 1\<rparr>)
        else (Ready, upload_failed plan index ''failed to write file'' s))"
| "upload_worker fo fw plan Joined s = (Joined, s)"

subsection \<open>The threads\<close>

definition upload_start :: "upload_plan \<Rightarrow> upload_state" where
  "upload_start plan = \<lparr>up_next_index = 0, up_success_count = 0, up_total_decoded_bytes = 0, up_failures = [],
    up_workers = replicate (unat (ul_workers plan)) Ready, up_ops = []\<rparr>"

definition upload_step :: "frontend_options \<Rightarrow> file_answers \<Rightarrow> upload_plan \<Rightarrow> nat \<Rightarrow> upload_state \<Rightarrow> upload_state" where
  "upload_step fo fw plan w s =
    (case upload_worker fo fw plan (up_workers s ! w) s of (phase, s') \<Rightarrow> s'\<lparr>up_workers := (up_workers s)[w := phase]\<rparr>)"

text \<open>A schedule only names threads that have not ended.\<close>

fun upload_run :: "frontend_options \<Rightarrow> file_answers \<Rightarrow> upload_plan \<Rightarrow> nat list \<Rightarrow> upload_state \<Rightarrow> upload_state option" where
  "upload_run fo fw plan [] s = Some s"
| "upload_run fo fw plan (w # schedule) s =
    (if w < length (up_workers s) \<and> up_workers s ! w \<noteq> Joined
     then upload_run fo fw plan schedule (upload_step fo fw plan w s) else None)"

definition all_joined :: "upload_state \<Rightarrow> bool" where
  "all_joined s \<longleftrightarrow> list_all (\<lambda>phase. phase = Joined) (up_workers s)"

definition failure_json :: "'j json_api \<Rightarrow> string \<times> string \<Rightarrow> 'j" where
  "failure_json js failure = js_object js
    [(''relative_path'', js_string js (fst failure)), (''message'', js_string js (snd failure))]"

definition upload_reply :: "'j json_api \<Rightarrow> upload_plan \<Rightarrow> upload_state \<Rightarrow> http_reply option" where
  "upload_reply js plan s = dumped js 200 (js_object js
    ([(''ok'', js_bool js (up_failures s = [])), (''destination_dir'', js_string js (ul_destination plan)),
      (''threads_used'', js_number js (ul_workers plan)),
      (''total_files'', js_number js (of_nat (length (ul_items plan)))),
      (''uploaded_files'', js_number js (of_nat (up_success_count s))),
      (''failed_files'', js_number js (of_nat (length (up_failures s)))),
      (''total_decoded_bytes'', js_number js (up_total_decoded_bytes s))] @
     (if up_failures s = [] then [] else [(''failures'', js_array js (map (failure_json js) (up_failures s)))])))"

subsection \<open>Induction over schedules\<close>

lemma upload_run_invariant:
  assumes "upload_run fo fw plan schedule s = Some s'" "P s"
    and "\<And>s w. P s \<Longrightarrow> w < length (up_workers s) \<Longrightarrow> up_workers s ! w \<noteq> Joined \<Longrightarrow> P (upload_step fo fw plan w s)"
  shows "P s'"
  using assms(1,2)
proof (induction schedule arbitrary: s)
  case (Cons w schedule)
  then show ?case using assms(3) by (auto split: if_splits)
qed simp

lemma sum_list_update_add:
  "i < length xs \<Longrightarrow> sum_list (map f (xs[i := x])) + f (xs ! i) = sum_list (map f xs) + (f x :: 'b::comm_monoid_add)"
  by (induction xs arbitrary: i) (auto simp: ac_simps split: nat.splits)

subsection \<open>They end\<close>

text \<open>How many steps a thread may take before it is back at \<^const>\<open>Ready\<close>, and what the items left may cost.\<close>

fun phase_rank :: "upload_phase \<Rightarrow> nat" where
  "phase_rank Ready = 1"
| "phase_rank (Taken _) = 6"
| "phase_rank (Counted _ _ _) = 5"
| "phase_rank (Checked _ _) = 4"
| "phase_rank (Made _ _) = 3"
| "phase_rank (Opened _ _) = 2"
| "phase_rank Joined = 0"

definition upload_rank :: "upload_plan \<Rightarrow> upload_state \<Rightarrow> nat" where
  "upload_rank plan s = 6 * (length (ul_items plan) - up_next_index s) + sum_list (map phase_rank (up_workers s))"

lemma upload_worker_rank:
  assumes "phase \<noteq> Joined" "upload_worker fo fw plan phase s = (phase', s')"
  shows "6 * (length (ul_items plan) - up_next_index s') + phase_rank phase' <
    6 * (length (ul_items plan) - up_next_index s) + phase_rank phase"
  using assms by (cases phase) (auto simp: Let_def upload_failed_def split: option.splits if_splits)

lemma upload_step_rank:
  assumes "w < length (up_workers s)" "up_workers s ! w \<noteq> Joined"
  shows "upload_rank plan (upload_step fo fw plan w s) < upload_rank plan s"
proof -
  obtain phase' s' where w: "upload_worker fo fw plan (up_workers s ! w) s = (phase', s')" by fastforce
  show ?thesis
    using upload_worker_rank [OF assms(2) w] sum_list_update_add [OF assms(1), of phase_rank phase']
    by (simp add: upload_rank_def upload_step_def w)
qed

lemma upload_run_rank: "upload_run fo fw plan schedule s = Some s' \<Longrightarrow> length schedule + upload_rank plan s' \<le> upload_rank plan s"
proof (induction schedule arbitrary: s)
  case (Cons w schedule)
  then have "upload_run fo fw plan schedule (upload_step fo fw plan w s) = Some s'"
    "upload_rank plan (upload_step fo fw plan w s) < upload_rank plan s"
    using upload_step_rank by (auto split: if_splits)
  then show ?case using Cons.IH by fastforce
qed simp

lemma upload_run_append:
  "upload_run fo fw plan (a @ b) s = Option.bind (upload_run fo fw plan a s) (upload_run fo fw plan b)"
  by (induction a arbitrary: s) auto

lemma upload_step_workers: "length (up_workers (upload_step fo fw plan w s)) = length (up_workers s)"
  by (simp add: upload_step_def split: prod.splits)

lemma upload_can_join: "\<exists>more s'. upload_run fo fw plan more s = Some s' \<and> all_joined s'"
proof (induction "upload_rank plan s" arbitrary: s rule: less_induct)
  case less
  show ?case
  proof (cases "all_joined s")
    case True
    then show ?thesis by (intro exI [of _ "[]"]) simp
  next
    case False
    then obtain w where w: "w < length (up_workers s)" "up_workers s ! w \<noteq> Joined"
      by (auto simp: all_joined_def list_all_length)
    then obtain more s' where "upload_run fo fw plan more (upload_step fo fw plan w s) = Some s'" "all_joined s'"
      using less upload_step_rank by blast
    then show ?thesis using w by (intro exI [of _ "w # more"]) auto
  qed
qed

lemma upload_rank_start: "upload_rank plan (upload_start plan) = 6 * length (ul_items plan) + unat (ul_workers plan)"
  by (simp add: upload_rank_def upload_start_def sum_list_replicate)

text \<open>
  However the threads of a directory upload are scheduled, they take at most six steps for each file and one
  for each thread, and from every state they reach they can go on to the state in which all have ended, where
  the request is answered.
\<close>

lemma upload_threads_end:
  assumes "upload_run fo fw plan schedule (upload_start plan) = Some s"
  shows "length schedule \<le> 6 * length (ul_items plan) + unat (ul_workers plan) \<and>
    (\<exists>more s'. upload_run fo fw plan (schedule @ more) (upload_start plan) = Some s' \<and> all_joined s')"
  using upload_run_rank [OF assms] upload_can_join [of fo fw plan s] assms
  by (auto simp: upload_rank_start upload_run_append)

subsection \<open>Every file is written or reported\<close>

fun busy :: "upload_phase \<Rightarrow> nat option" where
  "busy Ready = None"
| "busy (Taken index) = Some index"
| "busy (Counted index _ _) = Some index"
| "busy (Checked index _) = Some index"
| "busy (Made index _) = Some index"
| "busy (Opened index _) = Some index"
| "busy Joined = None"

fun decoded_of :: "upload_phase \<Rightarrow> bytes option" where
  "decoded_of (Counted _ decoded _) = Some decoded"
| "decoded_of (Checked _ decoded) = Some decoded"
| "decoded_of (Made _ decoded) = Some decoded"
| "decoded_of (Opened _ decoded) = Some decoded"
| "decoded_of _ = None"

text \<open>What a thread works on is an item with its bytes.\<close>

definition phase_ok :: "upload_plan \<Rightarrow> upload_phase \<Rightarrow> bool" where
  "phase_ok plan phase \<longleftrightarrow>
    (\<forall>index. busy phase = Some index \<longrightarrow> index < length (ul_items plan) \<and>
      (\<forall>decoded. decoded_of phase = Some decoded \<longrightarrow> base64_decode (snd (ul_items plan ! index)) = Some decoded))"

text \<open>The operation that was performed at position \<open>k\<close>, and succeeded there.\<close>

definition succeeded_at :: "file_answers \<Rightarrow> file_op list \<Rightarrow> nat \<Rightarrow> file_op \<Rightarrow> bool" where
  "succeeded_at fw ops k op \<longleftrightarrow> k < length ops \<and> ops ! k = op \<and> fw_succeeds fw (take k ops) op"

definition directory_made :: "file_answers \<Rightarrow> upload_plan \<Rightarrow> file_op list \<Rightarrow> nat \<Rightarrow> nat \<Rightarrow> bool" where
  "directory_made fw plan ops index i \<longleftrightarrow> succeeded_at fw ops i (Make_directories (path_parent (item_target plan index)))"

definition file_opened :: "file_answers \<Rightarrow> upload_plan \<Rightarrow> file_op list \<Rightarrow> nat \<Rightarrow> nat \<Rightarrow> bool" where
  "file_opened fw plan ops index j \<longleftrightarrow> (\<exists>i < j. directory_made fw plan ops index i) \<and>
    succeeded_at fw ops j (Open_truncate (item_target plan index))"

text \<open>
  A file is written: its directory was made, then the file was opened, then all its bytes were written to it,
  and each of the three operations succeeded.
\<close>

definition written :: "file_answers \<Rightarrow> upload_plan \<Rightarrow> file_op list \<Rightarrow> nat \<Rightarrow> bool" where
  "written fw plan ops index \<longleftrightarrow> (\<exists>decoded j k. base64_decode (snd (ul_items plan ! index)) = Some decoded \<and>
    j < k \<and> file_opened fw plan ops index j \<and> succeeded_at fw ops k (Write_bytes (item_target plan index) decoded))"

lemma succeeded_at_later: "succeeded_at fw ops k op \<Longrightarrow> succeeded_at fw (ops @ added) k op"
  by (simp add: succeeded_at_def nth_append)

lemma succeeded_at_now: "fw_succeeds fw ops op \<Longrightarrow> succeeded_at fw (ops @ [op]) (length ops) op"
  by (simp add: succeeded_at_def)

lemma succeeded_at_less: "succeeded_at fw ops k op \<Longrightarrow> k < length ops"
  by (simp add: succeeded_at_def)

lemma directory_made_later: "directory_made fw plan ops index i \<Longrightarrow> directory_made fw plan (ops @ added) index i"
  unfolding directory_made_def by (rule succeeded_at_later)

lemma file_opened_later: "file_opened fw plan ops index j \<Longrightarrow> file_opened fw plan (ops @ added) index j"
  by (auto simp: file_opened_def intro: succeeded_at_later directory_made_later)

lemma written_later: "written fw plan ops index \<Longrightarrow> written fw plan (ops @ added) index"
  by (auto simp: written_def intro: succeeded_at_later file_opened_later)

text \<open>How far a thread has come with its file.\<close>

fun phase_done :: "file_answers \<Rightarrow> upload_plan \<Rightarrow> file_op list \<Rightarrow> upload_phase \<Rightarrow> bool" where
  "phase_done fw plan ops (Made index _) \<longleftrightarrow> (\<exists>i. directory_made fw plan ops index i)"
| "phase_done fw plan ops (Opened index _) \<longleftrightarrow> (\<exists>j. file_opened fw plan ops index j)"
| "phase_done fw plan ops _ \<longleftrightarrow> True"

lemma phase_done_later: "phase_done fw plan ops phase \<Longrightarrow> phase_done fw plan (ops @ added) phase"
  by (cases phase) (auto intro: directory_made_later file_opened_later)

lemma upload_worker_phase:
  assumes "upload_worker fo fw plan phase s = (phase', s')" "phase_ok plan phase"
  shows "phase_ok plan phase'" "\<exists>added. up_ops s' = up_ops s @ added"
    "phase' = Joined \<and> phase \<noteq> Joined \<longrightarrow> length (ul_items plan) \<le> up_next_index s'" "up_next_index s \<le> up_next_index s'"
proof -
  show "phase_ok plan phase'"
    using assms by (cases phase) (auto simp: phase_ok_def Let_def split: option.splits if_splits)
  show "\<exists>added. up_ops s' = up_ops s @ added" "phase' = Joined \<and> phase \<noteq> Joined \<longrightarrow> length (ul_items plan) \<le> up_next_index s'"
    "up_next_index s \<le> up_next_index s'"
    using assms(1) by (cases phase; auto simp: Let_def upload_failed_def split: option.splits if_splits)+
qed

lemma upload_worker_done:
  assumes "upload_worker fo fw plan phase s = (phase', s')" "phase_done fw plan (up_ops s) phase"
  shows "phase_done fw plan (up_ops s') phase'"
proof (cases phase)
  case (Checked index decoded)
  let ?make = "Make_directories (path_parent (item_target plan index))"
  have "directory_made fw plan (up_ops s @ [?make]) index (length (up_ops s))" if "fw_succeeds fw (up_ops s) ?make"
    using succeeded_at_now [OF that] by (simp add: directory_made_def)
  then show ?thesis using assms(1) Checked by (cases "fw_succeeds fw (up_ops s) ?make") (auto simp: Let_def)
next
  case (Made index decoded)
  then obtain i where i: "directory_made fw plan (up_ops s) index i" using assms(2) by auto
  then have "i < length (up_ops s)" by (auto simp: directory_made_def dest: succeeded_at_less)
  let ?opening = "Open_truncate (item_target plan index)"
  have "file_opened fw plan (up_ops s @ [?opening]) index (length (up_ops s))" if "fw_succeeds fw (up_ops s) ?opening"
    using succeeded_at_now [OF that] directory_made_later [OF i] \<open>i < length (up_ops s)\<close> by (auto simp: file_opened_def)
  then show ?thesis using assms(1) Made by (cases "fw_succeeds fw (up_ops s) ?opening") (auto simp: Let_def)
qed (use assms(1) in \<open>auto simp: Let_def upload_failed_def split: option.splits if_splits\<close>)

text \<open>What a step does to the accounts: nothing, a new item is taken, an item is written, or an item is reported.\<close>

lemma upload_worker_accounts:
  assumes run: "upload_worker fo fw plan phase s = (phase', s')" and ok: "phase_ok plan phase" "phase_done fw plan (up_ops s) phase"
  obtains
    (on) "busy phase' = busy phase" "up_next_index s' = up_next_index s" "up_success_count s' = up_success_count s"
      "up_failures s' = up_failures s"
  | (taken) "busy phase = None" "busy phase' = (if up_next_index s < length (ul_items plan) then Some (up_next_index s) else None)"
      "up_next_index s' = up_next_index s + 1" "up_success_count s' = up_success_count s" "up_failures s' = up_failures s"
  | (uploaded) index where "busy phase = Some index" "busy phase' = None" "up_next_index s' = up_next_index s"
      "up_success_count s' = up_success_count s + 1" "up_failures s' = up_failures s" "written fw plan (up_ops s') index"
  | (reported) index message where "busy phase = Some index" "busy phase' = None" "up_next_index s' = up_next_index s"
      "up_success_count s' = up_success_count s" "up_failures s' = up_failures s @ [(fst (ul_items plan ! index), message)]"
proof (cases phase)
  case (Opened index decoded)
  then obtain j where j: "file_opened fw plan (up_ops s) index j" using ok(2) by auto
  have less: "j < length (up_ops s)" using j by (auto simp: file_opened_def dest: succeeded_at_less)
  let ?writing = "Write_bytes (item_target plan index) decoded"
  show thesis
  proof (cases "fw_succeeds fw (up_ops s) ?writing")
    case True
    have "base64_decode (snd (ul_items plan ! index)) = Some decoded" using ok(1) Opened by (simp add: phase_ok_def)
    then have "written fw plan (up_ops s @ [?writing]) index"
      unfolding written_def using less file_opened_later [OF j] succeeded_at_now [OF True] by blast
    then show thesis using run Opened True by (intro uploaded [of index]) (auto simp: Let_def)
  next
    case False
    then show thesis using run Opened by (intro reported [of index]) (auto simp: Let_def upload_failed_def)
  qed
next
  case Ready
  then show thesis using run by (intro taken) (auto simp: Let_def split: if_splits)
next
  case (Taken index)
  then show thesis using run on reported [of index]
    by (auto simp: upload_failed_def split: option.splits if_splits)
next
  case (Counted index decoded previous)
  then show thesis using run on reported [of index] by (auto simp: upload_failed_def split: if_splits)
next
  case (Checked index decoded)
  then show thesis using run on reported [of index] by (auto simp: Let_def upload_failed_def split: if_splits)
next
  case (Made index decoded)
  then show thesis using run on reported [of index] by (auto simp: Let_def upload_failed_def split: if_splits)
next
  case Joined
  then show thesis using run on by simp
qed

text \<open>
  The accounts: the items taken so far are those that were uploaded, those that were reported and those in work,
  each once.
\<close>

definition in_work :: "upload_phase \<Rightarrow> nat multiset" where
  "in_work phase = (case busy phase of None \<Rightarrow> {#} | Some index \<Rightarrow> {#index#})"

definition accounts :: "file_answers \<Rightarrow> upload_plan \<Rightarrow> upload_state \<Rightarrow> nat list \<Rightarrow> nat list \<Rightarrow> bool" where
  "accounts fw plan s uploaded failed \<longleftrightarrow>
    mset uploaded + mset failed + sum_list (map in_work (up_workers s)) = mset [0..<min (up_next_index s) (length (ul_items plan))] \<and>
    length uploaded = up_success_count s \<and> map (\<lambda>index. fst (ul_items plan ! index)) failed = map fst (up_failures s) \<and>
    (\<forall>index \<in> set uploaded. written fw plan (up_ops s) index)"

definition upload_inv :: "file_answers \<Rightarrow> upload_plan \<Rightarrow> upload_state \<Rightarrow> bool" where
  "upload_inv fw plan s \<longleftrightarrow>
    (\<forall>phase \<in> set (up_workers s). phase_ok plan phase \<and> phase_done fw plan (up_ops s) phase) \<and>
    (Joined \<in> set (up_workers s) \<longrightarrow> length (ul_items plan) \<le> up_next_index s) \<and>
    (\<exists>uploaded failed. accounts fw plan s uploaded failed)"

lemma idle_threads: "\<forall>phase \<in> set phases. busy phase = None \<Longrightarrow> sum_list (map in_work phases) = {#}"
  by (induction phases) (simp_all add: in_work_def)

lemma idle_replicate: "sum_list (replicate n (in_work Ready)) = {#}"
  by (induction n) (simp_all add: in_work_def)

lemma mset_upt_next:
  "mset [0..<min (Suc n) k] = mset [0..<min n k] + (case if n < k then Some n else None of None \<Rightarrow> {#} | Some index \<Rightarrow> {#index#})"
  by (cases "n < k") (simp_all add: min_def del: mset_upt)

lemma upload_step_accounts:
  assumes acc: "accounts fw plan s uploaded failed" and w: "w < length (up_workers s)"
    and run: "upload_worker fo fw plan (up_workers s ! w) s = (phase', s')"
    and ok: "phase_ok plan (up_workers s ! w)" "phase_done fw plan (up_ops s) (up_workers s ! w)"
  shows "\<exists>uploaded failed. accounts fw plan (s'\<lparr>up_workers := (up_workers s)[w := phase']\<rparr>) uploaded failed"
proof -
  let ?n = "length (ul_items plan)" and ?name = "\<lambda>index. fst (ul_items plan ! index)"
  let ?rest = "sum_list (map in_work ((up_workers s)[w := phase']))"
  have moved: "?rest + in_work (up_workers s ! w) = sum_list (map in_work (up_workers s)) + in_work phase'"
    by (rule sum_list_update_add [OF w])
  have all: "mset uploaded + mset failed + ?rest + in_work (up_workers s ! w) =
      mset [0..<min (up_next_index s) ?n] + in_work phase'"
    using acc unfolding accounts_def add.assoc moved by (simp add: ac_simps)
  obtain added where added: "up_ops s' = up_ops s @ added" using upload_worker_phase(2) [OF run ok(1)] by blast
  have kept: "length uploaded = up_success_count s" "map ?name failed = map fst (up_failures s)"
    "\<forall>index \<in> set uploaded. written fw plan (up_ops s') index"
    using acc written_later unfolding accounts_def added by blast+
  from run ok show ?thesis
  proof (cases rule: upload_worker_accounts)
    case on
    then have "accounts fw plan (s'\<lparr>up_workers := (up_workers s)[w := phase']\<rparr>) uploaded failed"
      using all kept by (simp add: accounts_def in_work_def)
    then show ?thesis by blast
  next
    case taken
    then have "accounts fw plan (s'\<lparr>up_workers := (up_workers s)[w := phase']\<rparr>) uploaded failed"
      using all kept unfolding accounts_def in_work_def by (simp add: mset_upt_next del: mset_upt)
    then show ?thesis by blast
  next
    case (uploaded index)
    then have "accounts fw plan (s'\<lparr>up_workers := (up_workers s)[w := phase']\<rparr>) (index # uploaded) failed"
      using all kept by (simp add: accounts_def in_work_def)
    then show ?thesis by blast
  next
    case (reported index message)
    then have "accounts fw plan (s'\<lparr>up_workers := (up_workers s)[w := phase']\<rparr>) uploaded (failed @ [index])"
      using all kept by (simp add: accounts_def in_work_def)
    then show ?thesis by blast
  qed
qed

lemma upload_step_inv:
  assumes inv: "upload_inv fw plan s" and w: "w < length (up_workers s)" "up_workers s ! w \<noteq> Joined"
  shows "upload_inv fw plan (upload_step fo fw plan w s)"
proof -
  obtain phase' s' where run: "upload_worker fo fw plan (up_workers s ! w) s = (phase', s')" by fastforce
  let ?t = "upload_step fo fw plan w s"
  have t: "?t = s'\<lparr>up_workers := (up_workers s)[w := phase']\<rparr>" by (simp add: upload_step_def run)
  have ok: "phase_ok plan (up_workers s ! w)" "phase_done fw plan (up_ops s) (up_workers s ! w)"
    using inv w(1) by (simp_all add: upload_inv_def)
  note facts = upload_worker_phase [OF run ok(1)]
  obtain added where added: "up_ops s' = up_ops s @ added" using facts(2) by blast
  have sub: "set (up_workers ?t) \<subseteq> insert phase' (set (up_workers s))" by (simp add: t set_update_subset_insert)
  have "phase_ok plan phase'" "phase_done fw plan (up_ops s') phase'"
    using facts(1) upload_worker_done [OF run ok(2)] by simp_all
  then have "\<forall>phase \<in> set (up_workers ?t). phase_ok plan phase \<and> phase_done fw plan (up_ops ?t) phase"
    using sub inv phase_done_later [of fw plan "up_ops s" _ added] by (auto simp: upload_inv_def t added)
  moreover have "Joined \<in> set (up_workers ?t) \<longrightarrow> length (ul_items plan) \<le> up_next_index ?t"
    using sub facts(3,4) w(2) inv by (fastforce simp: upload_inv_def t)
  moreover obtain uploaded failed where "accounts fw plan s uploaded failed" using inv by (auto simp: upload_inv_def)
  then have "\<exists>uploaded failed. accounts fw plan ?t uploaded failed"
    unfolding t by (rule upload_step_accounts [OF _ w(1) run ok])
  ultimately show ?thesis unfolding upload_inv_def by blast
qed

lemma upload_run_inv:
  assumes "upload_run fo fw plan schedule (upload_start plan) = Some s"
  shows "upload_inv fw plan s"
proof (rule upload_run_invariant [OF assms, where P = "upload_inv fw plan"])
  show "upload_inv fw plan (upload_start plan)"
    by (auto simp: upload_inv_def upload_start_def phase_ok_def accounts_def idle_replicate intro!: exI [of _ "[]"])
qed (rule upload_step_inv)

lemma run_keeps_workers:
  assumes "upload_run fo fw plan schedule s = Some s'"
  shows "length (up_workers s') = length (up_workers s)"
  by (rule upload_run_invariant [OF assms, where P = "\<lambda>t. length (up_workers t) = length (up_workers s)"])
    (auto simp: upload_step_workers)

text \<open>
  C18: when the threads of a directory upload have ended, each file of the request has been counted exactly once: the
  request's files are the uploaded ones, as many as the counter says, and the failed ones, which are those named in the
  list of failures.  For each uploaded file the directory of its place below the destination was made, the
  place was opened as a file and the bytes that the file's text encodes were written to it, in that order and
  each with success.  The answer, when the JSON library gives its text, has status 200, and its \<open>ok\<close> is true exactly when all
  files of the request were uploaded.  (An upload has at least one thread.)
\<close>

theorem every_file_is_written_or_reported:
  assumes "upload_run fo fw plan schedule (upload_start plan) = Some s" "all_joined s" "ul_workers plan \<noteq> 0"
  shows "(\<exists>uploaded failed. mset (uploaded @ failed) = mset [0..<length (ul_items plan)] \<and>
      length uploaded = up_success_count s \<and> map (\<lambda>index. fst (ul_items plan ! index)) failed = map fst (up_failures s) \<and>
      list_all (written fw plan (up_ops s)) uploaded) \<and>
    (\<exists>fields. upload_reply js plan s =
      dumped js 200 (js_object js ((''ok'', js_bool js (up_success_count s = length (ul_items plan))) # fields)))"
proof -
  have "up_workers s \<noteq> []"
    using run_keeps_workers [OF assms(1)] assms(3) by (auto simp: upload_start_def unat_eq_zero)
  then have "Joined \<in> set (up_workers s)" using assms(2) by (cases "up_workers s") (auto simp: all_joined_def)
  then have min: "min (up_next_index s) (length (ul_items plan)) = length (ul_items plan)"
    using upload_run_inv [OF assms(1)] by (simp add: upload_inv_def)
  have idle: "sum_list (map in_work (up_workers s)) = {#}"
    using assms(2) by (intro idle_threads) (auto simp: all_joined_def list_all_iff)
  obtain uploaded failed where acc: "accounts fw plan s uploaded failed"
    using upload_run_inv [OF assms(1)] by (auto simp: upload_inv_def)
  then have parts: "mset (uploaded @ failed) = mset [0..<length (ul_items plan)]" "length uploaded = up_success_count s"
    "map (\<lambda>index. fst (ul_items plan ! index)) failed = map fst (up_failures s)" "list_all (written fw plan (up_ops s)) uploaded"
    unfolding accounts_def min idle by (auto simp: list_all_iff)
  have "length failed = length (up_failures s)" using parts(3) map_eq_imp_length_eq by blast
  moreover have "length uploaded + length failed = length (ul_items plan)" using arg_cong [OF parts(1), of size] by simp
  ultimately have ok: "up_failures s = [] \<longleftrightarrow> up_success_count s = length (ul_items plan)" using parts(2) by auto
  have "\<exists>fields. upload_reply js plan s =
      dumped js 200 (js_object js ((''ok'', js_bool js (up_success_count s = length (ul_items plan))) # fields))"
    unfolding upload_reply_def append_Cons ok by (rule exI, rule refl)
  then show ?thesis using parts by blast
qed

subsection \<open>Uploads stay below the root\<close>

text \<open>A target that was allowed by what the file system said at some moment of the upload.\<close>

definition was_allowed :: "file_answers \<Rightarrow> upload_plan \<Rightarrow> file_op list \<Rightarrow> nat \<Rightarrow> bool" where
  "was_allowed fw plan ops index \<longleftrightarrow> (\<exists>n. target_allowed fw (take n ops) plan index)"

lemma was_allowed_now: "target_allowed fw ops plan index \<Longrightarrow> was_allowed fw plan ops index"
  unfolding was_allowed_def by (rule exI [of _ "length ops"]) simp

lemma was_allowed_later:
  assumes "was_allowed fw plan ops index"
  shows "was_allowed fw plan (ops @ added) index"
proof -
  obtain n where n: "target_allowed fw (take n ops) plan index" using assms by (auto simp: was_allowed_def)
  then have "target_allowed fw (take (min n (length ops)) (ops @ added)) plan index"
    by (cases "n \<le> length ops") (simp_all add: min_def)
  then show ?thesis unfolding was_allowed_def by blast
qed

definition op_allowed :: "file_answers \<Rightarrow> upload_plan \<Rightarrow> file_op list \<Rightarrow> file_op \<Rightarrow> bool" where
  "op_allowed fw plan ops op \<longleftrightarrow>
    (\<exists>index < length (ul_items plan). was_allowed fw plan ops index \<and>
      op \<in> {Make_directories (path_parent (item_target plan index)), Open_truncate (item_target plan index),
        Write_bytes (item_target plan index) (the (base64_decode (snd (ul_items plan ! index))))})"

lemma op_allowed_later: "op_allowed fw plan ops op \<Longrightarrow> op_allowed fw plan (ops @ added) op"
  unfolding op_allowed_def using was_allowed_later by blast

fun phase_checked :: "upload_phase \<Rightarrow> bool" where
  "phase_checked (Checked _ _) = True"
| "phase_checked (Made _ _) = True"
| "phase_checked (Opened _ _) = True"
| "phase_checked _ = False"

definition ops_inv :: "file_answers \<Rightarrow> upload_plan \<Rightarrow> upload_state \<Rightarrow> bool" where
  "ops_inv fw plan s \<longleftrightarrow>
    (\<forall>phase \<in> set (up_workers s). phase_ok plan phase \<and>
      (phase_checked phase \<longrightarrow> was_allowed fw plan (up_ops s) (the (busy phase)))) \<and>
    (\<forall>op \<in> set (up_ops s). op_allowed fw plan (up_ops s) op)"

lemma upload_worker_ops:
  assumes "upload_worker fo fw plan phase s = (phase', s')" "phase_ok plan phase"
    "phase_checked phase \<Longrightarrow> was_allowed fw plan (up_ops s) (the (busy phase))"
  shows "\<exists>added. up_ops s' = up_ops s @ added \<and> (\<forall>op \<in> set added. op_allowed fw plan (up_ops s') op)"
    "phase_checked phase' \<longrightarrow> was_allowed fw plan (up_ops s') (the (busy phase'))"
proof -
  show "\<exists>added. up_ops s' = up_ops s @ added \<and> (\<forall>op \<in> set added. op_allowed fw plan (up_ops s') op)"
    using assms
    by (cases phase) (auto simp: Let_def upload_failed_def op_allowed_def phase_ok_def was_allowed_later
        intro!: exI [of _ index for index] split: option.splits if_splits)
  show "phase_checked phase' \<longrightarrow> was_allowed fw plan (up_ops s') (the (busy phase'))"
    using assms(1,3)
    by (cases phase) (auto simp: Let_def upload_failed_def was_allowed_later was_allowed_now split: option.splits if_splits)
qed

lemma upload_step_ops:
  assumes inv: "ops_inv fw plan s" and w: "w < length (up_workers s)" "up_workers s ! w \<noteq> Joined"
  shows "ops_inv fw plan (upload_step fo fw plan w s)"
proof -
  obtain phase' s' where run: "upload_worker fo fw plan (up_workers s ! w) s = (phase', s')" by fastforce
  let ?t = "upload_step fo fw plan w s"
  have t: "?t = s'\<lparr>up_workers := (up_workers s)[w := phase']\<rparr>" by (simp add: upload_step_def run)
  have ok: "phase_ok plan (up_workers s ! w)"
    "phase_checked (up_workers s ! w) \<Longrightarrow> was_allowed fw plan (up_ops s) (the (busy (up_workers s ! w)))"
    using inv w(1) by (simp_all add: ops_inv_def)
  obtain added where added: "up_ops s' = up_ops s @ added" "\<forall>op \<in> set added. op_allowed fw plan (up_ops s') op"
    using upload_worker_ops(1) [OF run ok] by blast
  have sub: "set (up_workers ?t) \<subseteq> insert phase' (set (up_workers s))" by (simp add: t set_update_subset_insert)
  have "\<forall>op \<in> set (up_ops ?t). op_allowed fw plan (up_ops ?t) op"
    using inv added by (auto simp: t ops_inv_def intro: op_allowed_later)
  moreover have "phase_ok plan phase" if "phase \<in> set (up_workers ?t)" for phase
    using that sub upload_worker_phase(1) [OF run ok(1)] inv by (auto simp: ops_inv_def)
  moreover have "was_allowed fw plan (up_ops ?t) (the (busy phase))"
    if p: "phase \<in> set (up_workers ?t)" "phase_checked phase" for phase
  proof (cases "phase = phase'")
    case True
    then show ?thesis using upload_worker_ops(2) [OF run ok] p(2) by (simp add: t)
  next
    case False
    then have "was_allowed fw plan (up_ops s) (the (busy phase))"
      using sub p inv by (auto simp: ops_inv_def)
    then show ?thesis using was_allowed_later added(1) by (simp add: t)
  qed
  ultimately show ?thesis unfolding ops_inv_def by blast
qed

text \<open>
  C17: with a root for writing configured, every operation that a directory upload performs on the file system is for a
  file of the request: it makes the directory of the file's target, opens the target or writes the bytes of
  the file to it, and only after the canonical form of that target has been found below the canonical root.
\<close>

theorem uploads_stay_below_the_root:
  assumes "plan_upload js jv fo fw body = Inr plan" "fo_allowed_write_root fo \<noteq> []"
    "upload_run fo fw plan schedule (upload_start plan) = Some s" "op \<in> set (up_ops s)"
  shows "\<exists>allowed_root index n canonical_target.
    canonicalize_existing_path fw [] (fo_allowed_write_root fo) = Some allowed_root \<and>
    index < length (ul_items plan) \<and>
    canonicalize_weak_path fw (take n (up_ops s)) (item_target plan index) = Some canonical_target \<and>
    is_path_within_root canonical_target allowed_root \<and>
    op \<in> {Make_directories (path_parent (item_target plan index)), Open_truncate (item_target plan index),
      Write_bytes (item_target plan index) (the (base64_decode (snd (ul_items plan ! index))))}"
proof -
  have "ops_inv fw plan s"
  proof (rule upload_run_invariant [OF assms(3), where P = "ops_inv fw plan"])
    show "ops_inv fw plan (upload_start plan)" by (simp add: ops_inv_def upload_start_def phase_ok_def)
  qed (rule upload_step_ops)
  then have "op_allowed fw plan (up_ops s) op" using assms(4) by (simp add: ops_inv_def)
  moreover obtain allowed_root where "ul_root plan = Some allowed_root"
    "canonicalize_existing_path fw [] (fo_allowed_write_root fo) = Some allowed_root"
    using assms(1,2) by (auto simp: plan_upload_def sum_bind_eq_Inr split: option.splits if_splits)
  ultimately show ?thesis
    by (auto simp: op_allowed_def was_allowed_def target_allowed_def split: option.splits; blast)
qed

subsection \<open>The sum of the sizes\<close>

text \<open>What a file was estimated to need when the request was read.\<close>

definition estimated_item :: "upload_item \<Rightarrow> nat" where
  "estimated_item item = (case estimate_base64_decoded_size (snd item) of None \<Rightarrow> 0 | Some n \<Rightarrow> n)"

lemma estimate_less: "estimate_base64_decoded_size c = Some n \<Longrightarrow> n \<le> length c"
  by (auto simp: estimate_base64_decoded_size_def Let_def split: if_splits)

lemma add_below_limit:
  fixes limit :: u64
  assumes "n \<le> limit" "\<not> summed > limit - n"
  shows "unat (summed + n) = unat summed + unat n" "unat summed + unat n \<le> unat limit"
proof -
  show 2: "unat summed + unat n \<le> unat limit"
    using assms by (simp add: word_less_nat_alt word_le_nat_alt unat_sub)
  show "unat (summed + n) = unat summed + unat n"
    using 2 unsigned_less [of limit, where ?'a = nat] by (simp add: unat_add_lem [THEN iffD1] unat_word_ariths)
qed

lemma read_items_total:
  assumes "read_items js jv fo summed objects = Inr items" "fo_max_upload_file_bytes fo \<le> fo_max_upload_total_decoded_bytes fo"
    "unat summed \<le> unat (fo_max_upload_total_decoded_bytes fo)" "\<forall>item \<in> set items. length (snd item) < 2 ^ 64"
  shows "unat summed + sum_list (map estimated_item items) \<le> unat (fo_max_upload_total_decoded_bytes fo)"
  using assms
proof (induction objects arbitrary: summed items)
  case (Cons object objects)
  obtain relative content n rest where o:
    "estimate_base64_decoded_size content = Some n" "\<not> of_nat n > fo_max_upload_file_bytes fo"
    "\<not> summed > fo_max_upload_total_decoded_bytes fo - of_nat n"
    "read_items js jv fo (summed + of_nat n) objects = Inr rest" "items = (generic_string relative, content) # rest"
    using Cons.prems(1) by (auto simp: Let_def sum_bind_eq_Inr split: if_splits option.splits)
  have fits: "unat (of_nat n :: u64) = n"
    using estimate_less [OF o(1)] Cons.prems(4) o(5) by (simp add: unsigned_of_nat take_bit_nat_eq_self)
  have "(of_nat n :: u64) \<le> fo_max_upload_total_decoded_bytes fo" using o(2) Cons.prems(2) by simp
  note sums = add_below_limit [OF this o(3)]
  have "unat (summed + of_nat n) + sum_list (map estimated_item rest) \<le> unat (fo_max_upload_total_decoded_bytes fo)"
    using Cons.IH [OF o(4) Cons.prems(2)] sums Cons.prems(4) o(5) by simp
  moreover have "estimated_item (generic_string relative, content) = n" using o(1) by (simp add: estimated_item_def)
  ultimately show ?case using sums(1) fits o(5) by simp
qed simp

text \<open>The estimates of the items that have not been counted yet.\<close>

fun uncounted :: "upload_plan \<Rightarrow> upload_phase \<Rightarrow> nat" where
  "uncounted plan (Taken index) = estimated_item (ul_items plan ! index)"
| "uncounted plan _ = 0"

definition items_left :: "upload_plan \<Rightarrow> nat \<Rightarrow> nat" where
  "items_left plan n = sum_list (map estimated_item (drop n (ul_items plan)))"

lemma items_left_step:
  "n < length (ul_items plan) \<Longrightarrow> items_left plan n = estimated_item (ul_items plan ! n) + items_left plan (Suc n)"
  by (simp add: items_left_def Cons_nth_drop_Suc [symmetric])

definition too_much :: string where
  "too_much = ''request exceeds max_upload_total_decoded_bytes''"

definition total_inv :: "frontend_options \<Rightarrow> upload_plan \<Rightarrow> upload_state \<Rightarrow> bool" where
  "total_inv fo plan s \<longleftrightarrow>
    unat (up_total_decoded_bytes s) + items_left plan (up_next_index s) + sum_list (map (uncounted plan) (up_workers s))
      \<le> unat (fo_max_upload_total_decoded_bytes fo) \<and>
    (\<forall>index decoded previous. Counted index decoded previous \<in> set (up_workers s) \<longrightarrow>
      unat previous + length decoded \<le> unat (fo_max_upload_total_decoded_bytes fo)) \<and>
    too_much \<notin> snd ` set (up_failures s)"

lemma unat_add_small:
  fixes a :: u64
  assumes "unat a + n \<le> unat (limit :: u64)"
  shows "unat (a + of_nat n) = unat a + n"
proof -
  have "unat a + n < 2 ^ 64" using assms unsigned_less [of limit, where ?'a = nat] by simp
  then show ?thesis by (simp add: unat_word_ariths unsigned_of_nat take_bit_nat_eq_self)
qed

lemma upload_worker_total:
  assumes "upload_worker fo fw plan phase s = (phase', s')"
    "unat (up_total_decoded_bytes s) + uncounted plan phase \<le> unat (fo_max_upload_total_decoded_bytes fo)"
    "\<forall>index decoded previous. phase = Counted index decoded previous \<longrightarrow>
      unat previous + length decoded \<le> unat (fo_max_upload_total_decoded_bytes fo)"
    "too_much \<notin> snd ` set (up_failures s)"
  shows "unat (up_total_decoded_bytes s') + items_left plan (up_next_index s') + uncounted plan phase' \<le>
      unat (up_total_decoded_bytes s) + items_left plan (up_next_index s) + uncounted plan phase"
    "\<forall>index decoded previous. phase' = Counted index decoded previous \<longrightarrow>
      unat previous + length decoded \<le> unat (fo_max_upload_total_decoded_bytes fo)"
    "too_much \<notin> snd ` set (up_failures s')"
proof -
  have size: "length decoded \<le> estimated_item (ul_items plan ! index)"
    if "base64_decode (snd (ul_items plan ! index)) = Some decoded" for index decoded
    using estimate_bounds_decoded [OF that] by (auto simp: estimated_item_def)
  have sum: "unat (up_total_decoded_bytes s) + length decoded \<le> unat (fo_max_upload_total_decoded_bytes fo)"
    "unat (up_total_decoded_bytes s + of_nat (length decoded)) = unat (up_total_decoded_bytes s) + length decoded"
    if "base64_decode (snd (ul_items plan ! index)) = Some decoded" "phase = Taken index" for index decoded
  proof -
    show le: "unat (up_total_decoded_bytes s) + length decoded \<le> unat (fo_max_upload_total_decoded_bytes fo)"
      using size [OF that(1)] that(2) assms(2) by simp
    show "unat (up_total_decoded_bytes s + of_nat (length decoded)) = unat (up_total_decoded_bytes s) + length decoded"
      by (rule unat_add_small [OF le])
  qed
  have fine: "\<not> previous > limit \<and> \<not> length decoded > unat (limit - previous)"
    if "unat previous + length decoded \<le> unat limit" for previous limit :: u64 and decoded :: bytes
    using that by (simp add: word_less_nat_alt word_le_nat_alt unat_sub)
  show "unat (up_total_decoded_bytes s') + items_left plan (up_next_index s') + uncounted plan phase' \<le>
      unat (up_total_decoded_bytes s) + items_left plan (up_next_index s) + uncounted plan phase"
  proof (cases phase)
    case Ready
    then show ?thesis using assms(1) by (auto simp: Let_def items_left_step split: if_splits) (simp add: items_left_def)
  next
    case (Taken index)
    then show ?thesis using assms(1) sum(2) size by (auto simp: upload_failed_def split: option.splits if_splits)
  qed (use assms(1) in \<open>auto simp: Let_def upload_failed_def split: if_splits\<close>)
  show "\<forall>index decoded previous. phase' = Counted index decoded previous \<longrightarrow>
      unat previous + length decoded \<le> unat (fo_max_upload_total_decoded_bytes fo)"
    using assms(1) sum(1) by (cases phase) (auto simp: Let_def split: option.splits if_splits)
  show "too_much \<notin> snd ` set (up_failures s')"
  proof (cases phase)
    case (Counted index decoded previous)
    then show ?thesis using assms(1,3,4) fine [of previous decoded "fo_max_upload_total_decoded_bytes fo"]
      by (auto simp: upload_failed_def too_much_def split: if_splits)
  qed (use assms(1,4) in \<open>auto simp: Let_def upload_failed_def too_much_def split: option.splits if_splits\<close>)
qed

lemma upload_step_total:
  assumes inv: "total_inv fo plan s" and w: "w < length (up_workers s)" "up_workers s ! w \<noteq> Joined"
  shows "total_inv fo plan (upload_step fo fw plan w s)"
proof -
  obtain phase' s' where run: "upload_worker fo fw plan (up_workers s ! w) s = (phase', s')" by fastforce
  let ?t = "upload_step fo fw plan w s" and ?limit = "unat (fo_max_upload_total_decoded_bytes fo)"
  have t: "?t = s'\<lparr>up_workers := (up_workers s)[w := phase']\<rparr>" by (simp add: upload_step_def run)
  have bound: "unat (up_total_decoded_bytes s) + items_left plan (up_next_index s) + sum_list (map (uncounted plan) (up_workers s)) \<le> ?limit"
    and counted: "\<forall>index decoded previous. Counted index decoded previous \<in> set (up_workers s) \<longrightarrow> unat previous + length decoded \<le> ?limit"
    and failures: "too_much \<notin> snd ` set (up_failures s)"
    using inv by (simp_all add: total_inv_def)
  have others: "uncounted plan (up_workers s ! w) \<le> sum_list (map (uncounted plan) (up_workers s))"
    using w(1) by (simp add: member_le_sum_list)
  then have small: "unat (up_total_decoded_bytes s) + uncounted plan (up_workers s ! w) \<le> ?limit" using bound by simp
  have prev: "\<forall>index decoded previous. up_workers s ! w = Counted index decoded previous \<longrightarrow> unat previous + length decoded \<le> ?limit"
    using counted w(1) by (metis nth_mem)
  note facts = upload_worker_total [OF run small prev failures]
  have "unat (up_total_decoded_bytes ?t) + items_left plan (up_next_index ?t) + sum_list (map (uncounted plan) (up_workers ?t)) \<le> ?limit"
    using facts(1) sum_list_update_add [OF w(1), of "uncounted plan" phase'] bound by (simp add: t)
  moreover have "Counted index decoded previous \<in> set (up_workers ?t) \<longrightarrow> unat previous + length decoded \<le> ?limit"
    for index decoded previous
    using facts(2) counted set_update_subset_insert [of "up_workers s" w phase'] by (auto simp: t)
  moreover have "too_much \<notin> snd ` set (up_failures ?t)" using facts(3) by (simp add: t)
  ultimately show ?thesis unfolding total_inv_def by blast
qed

text \<open>
  C19: with options that \<open>start\<close> accepts, a directory upload whose request was accepted stays
  within the limit on the bytes of one request: the counter that the threads share does not wrap and never passes the
  limit, and the second check, after decoding, refuses no file.
\<close>

theorem accepted_uploads_fit_the_limit:
  assumes "check_api_options fo fw0 = Inr u"
    "plan_upload js jv fo fw body = Inr plan" "\<forall>item \<in> set (ul_items plan). length (snd item) < 2 ^ 64"
    "upload_run fo fw plan schedule (upload_start plan) = Some s"
  shows "up_total_decoded_bytes s \<le> fo_max_upload_total_decoded_bytes fo \<and>
    ''request exceeds max_upload_total_decoded_bytes'' \<notin> snd ` set (up_failures s)"
proof -
  obtain objects where "read_items js jv fo 0 objects = Inr (ul_items plan)"
    using assms(2) by (auto simp: plan_upload_def sum_bind_eq_Inr split: option.splits if_splits)
  then have "sum_list (map estimated_item (ul_items plan)) \<le> unat (fo_max_upload_total_decoded_bytes fo)"
    using read_items_total checked_limits [OF assms(1)] assms(3) by fastforce
  then have "total_inv fo plan (upload_start plan)"
    by (simp add: total_inv_def upload_start_def items_left_def sum_list_replicate)
  then have "total_inv fo plan s"
    using upload_run_invariant [OF assms(4), where P = "total_inv fo plan"] upload_step_total by blast
  then show ?thesis by (auto simp: total_inv_def too_much_def word_le_nat_alt)
qed

subsection \<open>An upload of two files by two threads\<close>

definition sample_files :: file_answers where
  "sample_files = \<lparr>fw_exists = (\<lambda>_ _. True), fw_is_regular_file = (\<lambda>_ _. True), fw_is_directory = (\<lambda>_ _. True),
    canonicalize_existing_path = (\<lambda>_ p. Some p), canonicalize_weak_path = (\<lambda>_ p. Some p), fw_read = (\<lambda>_ _. Some []),
    fw_succeeds = (\<lambda>_ _. True)\<rparr>"

definition sample_upload :: json_tree where
  "sample_upload = Object_tree [(''destination_dir'', String_tree ''/data''),
    (''files'', Array_tree
      [Object_tree [(''relative_path'', String_tree ''a''), (''content_b64'', String_tree ''AAAA'')],
       Object_tree [(''relative_path'', String_tree ''b''), (''content_b64'', String_tree ''AA=='')]]),
    (''threads'', Number_tree 2)]"

definition sample_plan :: upload_plan where
  "sample_plan = \<lparr>ul_items = [(''a'', ''AAAA''), (''b'', ''AA=='')], ul_destination = ''/data'', ul_root = Some ''/data'', ul_workers = 2\<rparr>"

definition sample_schedule :: "nat list" where
  "sample_schedule = [0, 1, 0, 1, 1, 0, 0, 1, 1, 0, 0, 1, 0, 1]"

lemma sample_plan_read: "plan_upload tree_json sample_values sample_frontend sample_files sample_upload = Inr sample_plan"
  by code_simp

definition sample_end :: upload_state where
  "sample_end = \<lparr>up_next_index = 4, up_success_count = 2, up_total_decoded_bytes = 4, up_failures = [],
    up_workers = [Joined, Joined],
    up_ops = [Make_directories ''/data'', Make_directories ''/data'', Open_truncate ''/data/b'', Open_truncate ''/data/a'',
      Write_bytes ''/data/a'' [0, 0, 0], Write_bytes ''/data/b'' [0]]\<rparr>"

lemma sample_run: "upload_run sample_frontend sample_files sample_plan sample_schedule (upload_start sample_plan) = Some sample_end"
  by code_simp

lemma sample_facts:
  "fo_allowed_write_root sample_frontend = ''/data''" "check_api_options sample_frontend sample_files = Inr ()"
  "ul_items sample_plan = [(''a'', ''AAAA''), (''b'', ''AA=='')]" "ul_workers sample_plan = 2" "all_joined sample_end"
  "up_failures sample_end = []" "Write_bytes ''/data/b'' [0] \<in> set (up_ops sample_end)"
  by (simp_all add: sample_frontend_def sample_plan_def sample_end_def all_joined_def check_api_options_def root_usable_def
      sample_files_def)

lemma upload_threads_end_witness: "length sample_schedule \<le> 6 * 2 + 2"
  using upload_threads_end [OF sample_run] by (simp add: sample_facts)

theorem every_file_is_written_or_reported_witness:
  "\<exists>uploaded. set uploaded = {0, 1} \<and> list_all (written sample_files sample_plan (up_ops sample_end)) uploaded"
proof -
  have "ul_workers sample_plan \<noteq> 0" by (simp add: sample_facts)
  from every_file_is_written_or_reported [OF sample_run sample_facts(5) this, of tree_json]
  obtain uploaded failed where parts: "mset (uploaded @ failed) = mset [0..<length (ul_items sample_plan)]"
    "map (\<lambda>index. fst (ul_items sample_plan ! index)) failed = map fst (up_failures sample_end)"
    "list_all (written sample_files sample_plan (up_ops sample_end)) uploaded" by blast
  then have "failed = []" by (simp add: sample_facts)
  then have "set uploaded = set [0..<length (ul_items sample_plan)]" using mset_eq_setD [OF parts(1)] by simp
  then show ?thesis using parts(3) by (auto simp: sample_facts)
qed

theorem uploads_stay_below_the_root_witness:
  "\<exists>index n canonical_target. canonicalize_weak_path sample_files (take n (up_ops sample_end)) (item_target sample_plan index) =
    Some canonical_target \<and> is_path_within_root canonical_target ''/data''"
proof -
  have root: "canonicalize_existing_path sample_files [] ''/data'' = Some ''/data''" by (simp add: sample_files_def)
  show ?thesis
    using uploads_stay_below_the_root [OF sample_plan_read _ sample_run sample_facts(7)] root
    unfolding sample_facts by (metis list.discI option.inject)
qed

theorem accepted_uploads_fit_the_limit_witness: "up_total_decoded_bytes sample_end \<le> 64"
  using accepted_uploads_fit_the_limit [OF sample_facts(2) sample_plan_read _ sample_run]
  by (simp add: sample_facts) (simp add: sample_frontend_def)

end
