(* ===== verification/FrontendApi.thy ===== *)
theory FrontendApi imports StreamSession FrontendUpload "HOL-Library.AList" begin

text \<open>
  The frontend's HTTP interface, \<open>src/backend/Hugin/api/frontend_api_server.cpp\<close>: what \<open>HttpSession\<close> does with a
  request, the description of the interface it serves, and starting and broadcasting of \<open>FrontendApiServer\<close>.

  A handler gives what becomes of the request, what it has asked of the rest of the program and of the file
  system, in order, and the counter of requests.  Reading the request and writing the reply is the library's; logging is
  left out.  The threads of a directory upload are those of \<open>FrontendUpload\<close>: the handler gives their plan.
\<close>

subsection \<open>Requests and what becomes of them\<close>

datatype http_method = Get | Post | Other_method string

record http_request =
  rq_method :: http_method
  rq_target :: string
  rq_upgrade :: bool
  rq_authorization :: string
  rq_body :: string

datatype api_effect = Dispatched crud_command | Asked_tree string string | Asked_snapshot string string bool
  | Examined string | Changed file_op

text \<open>\<^term>\<open>Answered None\<close> is an exception.  \<open>Upgraded\<close> hands the connection over to a \<open>WebsocketSession\<close>.\<close>

datatype api_outcome = Answered "http_reply option" | Uploading upload_plan | Upgraded | Closed | Dropped

record api_result =
  ar_outcome :: api_outcome
  ar_effects :: "api_effect list"
  ar_counter :: u64

text \<open>The callbacks that the server was made with; the two for the view may be empty.\<close>

record 'j api_handlers =
  ah_command :: "crud_command \<Rightarrow> unit status_or"
  ah_realtime_tree :: "(string \<Rightarrow> string \<Rightarrow> 'j status_or) option"
  ah_realtime_snapshot :: "(string \<Rightarrow> string \<Rightarrow> bool \<Rightarrow> 'j status_or) option"

definition query_realtime_tree :: "'j api_handlers \<Rightarrow> string \<Rightarrow> string \<Rightarrow> 'j status_or" where
  "query_realtime_tree ah host_id path =
    (case ah_realtime_tree ah of
       None \<Rightarrow> Inl (NotFound, ''Realtime tree view is not configured.'')
     | Some handler \<Rightarrow> handler host_id path)"

definition query_realtime_snapshot :: "'j api_handlers \<Rightarrow> string \<Rightarrow> string \<Rightarrow> bool \<Rightarrow> 'j status_or" where
  "query_realtime_snapshot ah host_id path include_entries =
    (case ah_realtime_snapshot ah of
       None \<Rightarrow> Inl (NotFound, ''Realtime snapshot view is not configured.'')
     | Some handler \<Rightarrow> handler host_id path include_entries)"

definition api_next_request_id :: "u64 \<Rightarrow> string \<times> u64" where
  "api_next_request_id counter = (''frontend-'' @ show_word (counter + 1), counter + 1)"

definition parse_json_object_body :: "'j json_api \<Rightarrow> string \<Rightarrow> 'j status_or" where
  "parse_json_object_body js body =
    (case text_to_json js body of
       None \<Rightarrow> Inl (ParseError, ''Request body must be a JSON object.'')
     | Some parsed \<Rightarrow>
         if js_is_object js parsed then Inr parsed else Inl (ParseError, ''Request body must be a JSON object.''))"

definition error_json :: "'j json_api \<Rightarrow> string \<Rightarrow> 'j" where
  "error_json js message = js_object js [(''ok'', js_bool js False), (''message'', js_string js message)]"

definition answer :: "http_reply option \<Rightarrow> api_effect list \<Rightarrow> u64 \<Rightarrow> api_result" where
  "answer reply effects counter = \<lparr>ar_outcome = Answered reply, ar_effects = effects, ar_counter = counter\<rparr>"

subsection \<open>The routes with a body\<close>

definition handle_command_request ::
  "'j json_api \<Rightarrow> 'j json_values \<Rightarrow> 'j api_handlers \<Rightarrow> u64 \<Rightarrow> 'j \<Rightarrow> api_result" where
  "handle_command_request js jv ah counter body =
    (case parse_frontend_command_request js jv body of
       Inl status \<Rightarrow> answer (dumped js 400 (error_json js (snd status))) [] counter
     | Inr dto \<Rightarrow>
         (let (request_id, counter) =
                (if fd_request_id dto = [] then api_next_request_id counter else (fd_request_id dto, counter));
              command = (to_crud_command dto)\<lparr>cc_request_id := request_id\<rparr>
          in case ah_command ah command of
            Inr _ \<Rightarrow> answer (dumped js 202 (to_frontend_command_response_json js
                \<lparr>fp_ok = True, fp_request_id = request_id, fp_message = []\<rparr>)) [Dispatched command] counter
          | Inl status \<Rightarrow> answer (dumped js 503 (to_frontend_command_response_json js
                \<lparr>fp_ok = False, fp_request_id = request_id, fp_message = snd status\<rparr>)) [Dispatched command] counter))"

text \<open>An optional member that must be a text; the reply when it is something else.\<close>

definition text_member :: "'j json_api \<Rightarrow> 'j json_values \<Rightarrow> 'j \<Rightarrow> string \<Rightarrow> http_reply + string" where
  "text_member js jv body key =
    (case js_at js body key of
       None \<Rightarrow> Inr []
     | Some v \<Rightarrow> (case jv_string jv v of None \<Rightarrow> Inl (refusal 400 (key @ '' must be a string'')) | Some s \<Rightarrow> Inr s))"

definition answer_query :: "'j json_api \<Rightarrow> 'j status_or \<Rightarrow> http_reply option" where
  "answer_query js result =
    (case result of
       Inl status \<Rightarrow> dumped js (status_from_error (fst status)) (error_json js (snd status))
     | Inr val \<Rightarrow> dumped js 200 val)"

definition handle_tree_request ::
  "'j json_api \<Rightarrow> 'j json_values \<Rightarrow> 'j api_handlers \<Rightarrow> u64 \<Rightarrow> 'j \<Rightarrow> api_result" where
  "handle_tree_request js jv ah counter body =
    (case sum_bind (text_member js jv body ''host_id'') (\<lambda>host_id.
          sum_bind (text_member js jv body ''path'') (\<lambda>path. Inr (host_id, path))) of
       Inl reply \<Rightarrow> answer (Some reply) [] counter
     | Inr (host_id, path) \<Rightarrow>
         answer (answer_query js (query_realtime_tree ah host_id path)) [Asked_tree host_id path] counter)"

definition handle_snapshot_request ::
  "'j json_api \<Rightarrow> 'j json_values \<Rightarrow> 'j api_handlers \<Rightarrow> u64 \<Rightarrow> 'j \<Rightarrow> api_result" where
  "handle_snapshot_request js jv ah counter body =
    (case sum_bind (text_member js jv body ''host_id'') (\<lambda>host_id.
          sum_bind (text_member js jv body ''path'') (\<lambda>path.
          sum_bind (case js_at js body ''include_entries'' of
              None \<Rightarrow> Inr False
            | Some v \<Rightarrow>
                (case jv_bool jv v of None \<Rightarrow> Inl (refusal 400 ''include_entries must be boolean'') | Some b \<Rightarrow> Inr b))
            (\<lambda>include_entries. Inr (host_id, path, include_entries)))) of
       Inl reply \<Rightarrow> answer (Some reply) [] counter
     | Inr (host_id, path, include_entries) \<Rightarrow>
         answer (answer_query js (query_realtime_snapshot ah host_id path include_entries))
           [Asked_snapshot host_id path include_entries] counter)"

definition handle_download_request ::
  "'j json_api \<Rightarrow> 'j json_values \<Rightarrow> frontend_options \<Rightarrow> file_answers \<Rightarrow> u64 \<Rightarrow> 'j \<Rightarrow> api_result" where
  "handle_download_request js jv fo fw counter body =
    answer (download_file js jv fo fw body)
      (case string_member js jv body ''path'' of None \<Rightarrow> [] | Some path \<Rightarrow> [Examined path]) counter"

definition handle_upload_request ::
  "'j json_api \<Rightarrow> 'j json_values \<Rightarrow> frontend_options \<Rightarrow> file_answers \<Rightarrow> u64 \<Rightarrow> 'j \<Rightarrow> api_result" where
  "handle_upload_request js jv fo fw counter body =
    (case upload_file js jv fo fw body of (reply, ops) \<Rightarrow> answer reply (map Changed ops) counter)"

definition handle_directory_request ::
  "'j json_api \<Rightarrow> 'j json_values \<Rightarrow> frontend_options \<Rightarrow> file_answers \<Rightarrow> u64 \<Rightarrow> 'j \<Rightarrow> api_result" where
  "handle_directory_request js jv fo fw counter body =
    (case plan_upload js jv fo fw body of
       Inl reply \<Rightarrow> answer (Some reply) [] counter
     | Inr plan \<Rightarrow> \<lparr>ar_outcome = Uploading plan, ar_effects = [], ar_counter = counter\<rparr>)"

text \<open>\<open>require_auth\<close> and \<open>parse_json_or_respond\<close> with which every such route begins; a token of the query does not count.\<close>

definition with_body ::
  "'j json_api \<Rightarrow> ('t, 'j) jwt_api \<Rightarrow> frontend_options \<Rightarrow> http_request \<Rightarrow> u64 \<Rightarrow> ('j \<Rightarrow> api_result) \<Rightarrow> api_result" where
  "with_body js jwt fo rq counter handle =
    (if \<not> authorized js jwt (rq_authorization rq) fo None then answer (Some (refusal 401 ''unauthorized'')) [] counter
     else case parse_json_object_body js (rq_body rq) of
       Inl _ \<Rightarrow> answer (Some (refusal 400 ''invalid_json'')) [] counter
     | Inr body \<Rightarrow> handle body)"

subsection \<open>The description of the interface\<close>

definition openapi_described :: "'j json_api \<Rightarrow> string \<Rightarrow> string \<times> string \<Rightarrow> string \<times> 'j" where
  "openapi_described js key response = (fst response, js_object js [(key, js_string js (snd response))])"

definition openapi_security :: "'j json_api \<Rightarrow> string \<times> 'j" where
  "openapi_security js = (''security'', js_array js [js_object js [(''bearerAuth'', js_array js [])]])"

definition openapi_responses :: "'j json_api \<Rightarrow> (string \<times> string) list \<Rightarrow> string \<times> 'j" where
  "openapi_responses js rs = (''responses'', js_object js (map (openapi_described js ''description'') rs))"

definition openapi_get :: "'j json_api \<Rightarrow> string \<Rightarrow> string \<Rightarrow> 'j" where
  "openapi_get js summary ok = js_object js [(''get'', js_object js
    [(''summary'', js_string js summary), openapi_responses js [(''200'', ok)]])]"

definition openapi_post :: "'j json_api \<Rightarrow> string \<Rightarrow> (string \<times> string) list \<Rightarrow> 'j" where
  "openapi_post js summary rs = js_object js [(''post'', js_object js
    [(''summary'', js_string js summary), openapi_security js, openapi_responses js rs])]"

definition openapi_schema_ref :: "'j json_api \<Rightarrow> string \<Rightarrow> string \<times> 'j" where
  "openapi_schema_ref js name = (''content'', js_object js [(''application/json'', js_object js
    [(''schema'', js_object js [(''$ref'', js_string js (''#/components/schemas/'' @ name))])])])"

definition openapi_command :: "'j json_api \<Rightarrow> 'j" where
  "openapi_command js = js_object js [(''post'', js_object js
    [(''summary'', js_string js ''Submit strict CRUD command DTO''), openapi_security js,
     (''requestBody'', js_object js [(''required'', js_bool js True), openapi_schema_ref js ''FrontendCommandRequest'']),
     (''responses'', js_object js
       ((''202'', js_object js [(''description'', js_string js ''Accepted''), openapi_schema_ref js ''FrontendCommandResponse'']) #
        map (openapi_described js ''description'')
          [(''400'', ''Validation error''), (''401'', ''Unauthorized''), (''503'', ''Bridge unavailable'')]))])]"

definition openapi_paths :: "'j json_api \<Rightarrow> frontend_options \<Rightarrow> (string \<times> 'j) list" where
  "openapi_paths js fo =
    (let invalid = (''400'', ''Validation error''); unauthorized = (''401'', ''Unauthorized'');
         unknown = (''404'', ''Host or path not found'')
     in [(fo_health_path fo, openapi_get js ''Gateway health'' ''OK''),
       (fo_command_path fo, openapi_command js),
       (fo_stream_path fo, js_object js [(''get'', js_object js
         [(''summary'', js_string js ''WebSocket stream for command results''),
          (''description'', js_string js
            ''Upgrade to WebSocket. JWT required in Authorization header or access_token query parameter.'')])]),
       (fo_realtime_tree_path fo, openapi_post js ''Get materialized children for a path''
         [(''200'', ''Realtime tree response''), invalid, unauthorized, unknown]),
       (fo_realtime_snapshot_path fo, openapi_post js ''Get realtime snapshot metadata with optional path entries''
         [(''200'', ''Realtime snapshot response''), invalid, unauthorized, unknown]),
       (fo_file_download_path fo, openapi_post js ''Download file bytes as base64''
         [(''200'', ''File payload''), invalid, unauthorized, (''404'', ''File not found'')]),
       (fo_file_upload_path fo, openapi_post js ''Upload a single file'' [(''200'', ''Upload result''), invalid, unauthorized]),
       (fo_directory_upload_path fo, openapi_post js ''Upload directory payload in parallel''
         [(''200'', ''Upload result''), invalid, unauthorized]),
       (fo_openapi_path fo, openapi_get js ''OpenAPI document'' ''OpenAPI JSON''),
       (fo_docs_path fo, openapi_get js ''Swagger UI'' ''Swagger UI HTML'')])"

definition openapi_schemas :: "'j json_api \<Rightarrow> 'j" where
  "openapi_schemas js =
    (let typed = (\<lambda>ty. js_object js [(''type'', js_string js ty)]);
         formatted = (\<lambda>format more. js_object js ([(''type'', js_string js ''integer''), (''format'', js_string js format)] @ more));
         texts = (\<lambda>xs. js_array js (map (js_string js) xs))
     in js_object js
       [(''FrontendCommandRequest'', js_object js
          [(''type'', js_string js ''object''), (''additionalProperties'', js_bool js False), (''required'', texts [''operation'']),
           (''properties'', js_object js
             [(''request_id'', typed ''string''),
              (''operation'', js_object js
                [(''type'', js_string js ''string''), (''enum'', texts [''create'', ''read'', ''update'', ''delete''])]),
              (''root_path'', typed ''string''), (''snapshot_id'', formatted ''uint64'' []),
              (''base_snapshot_id'', formatted ''uint64'' []), (''ack_sequence'', formatted ''uint64'' []),
              (''outbox_batch_size'', formatted ''uint32'' [(''minimum'', js_integer js 1)])])]),
        (''FrontendCommandResponse'', js_object js
          [(''type'', js_string js ''object''), (''required'', texts [''ok'', ''request_id'', ''message'']),
           (''properties'', js_object js
             [(''ok'', typed ''boolean''), (''request_id'', typed ''string''), (''message'', typed ''string'')])])])"

text \<open>An assignment to a path that is there already replaces what was there.\<close>

definition build_openapi_json :: "'j json_api \<Rightarrow> frontend_options \<Rightarrow> 'j" where
  "build_openapi_json js fo = js_object js
    [(''openapi'', js_string js ''3.0.3''),
     (''info'', js_object js
       [(''title'', js_string js ''Hugin Gateway API''), (''version'', js_string js ''1.0.0''),
        (''description'', js_string js
          ''Frontend gateway API for forwarding CRUD commands to Muninn and streaming validated results.'')]),
     (''servers'', js_array js [js_object js [(''url'', js_string js (''http://localhost:'' @ show_word (fo_port fo)))]]),
     (''paths'', js_object js (fold (\<lambda>(path, item) paths. AList.update path item paths) (openapi_paths js fo) [])),
     (''components'', js_object js
       [(''securitySchemes'', js_object js
          [(''bearerAuth'', js_object js [(''type'', js_string js ''http''), (''scheme'', js_string js ''bearer''),
            (''bearerFormat'', js_string js ''JWT'')])]),
        (''schemas'', openapi_schemas js)])]"

definition html_lines :: "string list \<Rightarrow> string" where
  "html_lines ls = concat (map (\<lambda>l. l @ [CHR 0x0A]) ls)"

definition build_swagger_html :: "string \<Rightarrow> string" where
  "build_swagger_html openapi_path =
    html_lines
      [''<!DOCTYPE html>'', ''<html lang=\"en\">'', ''<head>'', ''  <meta charset=\"UTF-8\">'',
       ''  <meta name=\"viewport\" content=\"width=device-width, initial-scale=1.0\">'', ''  <title>Hugin API Docs</title>'',
       ''  <link rel=\"stylesheet\" href=\"https://unpkg.com/swagger-ui-dist@5/swagger-ui.css\" />'', ''</head>'', ''<body>'',
       ''  <div id=\"swagger-ui\"></div>'', ''  <script src=\"https://unpkg.com/swagger-ui-dist@5/swagger-ui-bundle.js\"></script>'',
       ''  <script>'', ''    window.onload = function () {'', ''      window.ui = SwaggerUIBundle({''] @
    ''        url: '' @ [CHR 39] @ [CHR 39] @ openapi_path @ [CHR 39] @
    html_lines
      ['','', ''        dom_id: '' @ [CHR 39] @ ''#swagger-ui'' @ [CHR 39] @ '','', ''        deepLinking: true,'',
       ''        presets: [SwaggerUIBundle.presets.apis]'', ''      });'', ''    };'', ''  </script>'', ''</body>''] @
    ''</html>''"

definition send_html :: "nat \<Rightarrow> string \<Rightarrow> http_reply" where
  "send_html status body = \<lparr>re_status = status, re_content_type = ''text/html; charset=utf-8'', re_body = body\<rparr>"

subsection \<open>A request\<close>

definition handle_http_request ::
  "'j json_api \<Rightarrow> 'j json_values \<Rightarrow> ('t, 'j) jwt_api \<Rightarrow> frontend_options \<Rightarrow> file_answers \<Rightarrow> 'j api_handlers \<Rightarrow>
    http_request \<Rightarrow> parsed_target \<Rightarrow> u64 \<Rightarrow> api_result" where
  "handle_http_request js jv jwt fo fw ah rq target counter =
    (let path = pt_path target; get = (rq_method rq = Get); post = (rq_method rq = Post);
         route = with_body js jwt fo rq counter
     in if get \<and> path = fo_health_path fo
        then answer (dumped js 200 (js_object js
          [(''ok'', js_bool js True), (''service'', js_string js ''hugin-api-gateway'')])) [] counter
        else if get \<and> path = fo_openapi_path fo then answer (dumped js 200 (build_openapi_json js fo)) [] counter
        else if get \<and> path = fo_docs_path fo then answer (Some (send_html 200 (build_swagger_html (fo_openapi_path fo)))) [] counter
        else if post \<and> path = fo_command_path fo then route (handle_command_request js jv ah counter)
        else if post \<and> path = fo_realtime_tree_path fo then route (handle_tree_request js jv ah counter)
        else if post \<and> path = fo_realtime_snapshot_path fo then route (handle_snapshot_request js jv ah counter)
        else if post \<and> path = fo_file_download_path fo then route (handle_download_request js jv fo fw counter)
        else if post \<and> path = fo_file_upload_path fo then route (handle_upload_request js jv fo fw counter)
        else if post \<and> path = fo_directory_upload_path fo then route (handle_directory_request js jv fo fw counter)
        else answer (Some (refusal 404 ''not_found'')) [] counter)"

text \<open>The \<open>catch\<close> around it: an exception is answered, what was done before it stays done.\<close>

definition caught :: "api_result \<Rightarrow> api_result" where
  "caught r = (if ar_outcome r = Answered None then r\<lparr>ar_outcome := Answered (Some (refusal 500 ''internal_error''))\<rparr> else r)"

datatype read_outcome = Read_ok http_request | End_of_stream | Body_limit | Read_failed

definition api_on_read ::
  "'j json_api \<Rightarrow> 'j json_values \<Rightarrow> ('t, 'j) jwt_api \<Rightarrow> frontend_options \<Rightarrow> file_answers \<Rightarrow> 'j api_handlers \<Rightarrow>
    read_outcome \<Rightarrow> u64 \<Rightarrow> api_result" where
  "api_on_read js jv jwt fo fw ah read counter =
    (case read of
       End_of_stream \<Rightarrow> \<lparr>ar_outcome = Closed, ar_effects = [], ar_counter = counter\<rparr>
     | Body_limit \<Rightarrow> answer (Some (refusal 413 ''request body too large'')) [] counter
     | Read_failed \<Rightarrow> \<lparr>ar_outcome = Dropped, ar_effects = [], ar_counter = counter\<rparr>
     | Read_ok rq \<Rightarrow>
         (let target = parse_target (rq_target rq)
          in if rq_upgrade rq \<and> pt_path target = fo_stream_path fo
             then (if \<not> authorized js jwt (rq_authorization rq) fo (pt_access_token target)
               then answer (Some (refusal 401 ''unauthorized'')) [] counter
               else \<lparr>ar_outcome = Upgraded, ar_effects = [], ar_counter = counter\<rparr>)
             else caught (handle_http_request js jv jwt fo fw ah rq target counter)))"

subsection \<open>The server\<close>

text \<open>The steps of listening, each with the message of its error if it fails.\<close>

record listener_answers =
  ln_make_address :: "string \<Rightarrow> string option"
  ln_open :: "string option"
  ln_set_option :: "string option"
  ln_bind :: "u16 \<Rightarrow> string option"
  ln_listen :: "string option"

definition api_io_failure :: "string \<Rightarrow> string option \<Rightarrow> unit status_or" where
  "api_io_failure ctxt error =
    (case error of None \<Rightarrow> Inr () | Some message \<Rightarrow> Inl (Internal, ctxt @ '' failed: '' @ message))"

definition api_start ::
  "listener_answers \<Rightarrow> frontend_options \<Rightarrow> file_answers \<Rightarrow> bool \<Rightarrow> unit status_or \<times> bool" where
  "api_start ln fo fw running =
    (if running then (Inr (), running)
     else case sum_bind (check_api_options fo fw) (\<lambda>_.
         sum_bind (api_io_failure ''make_address'' (ln_make_address ln (fo_listen_address fo))) (\<lambda>_.
         sum_bind (api_io_failure ''acceptor.open'' (ln_open ln)) (\<lambda>_.
         sum_bind (api_io_failure ''acceptor.set_option'' (ln_set_option ln)) (\<lambda>_.
         sum_bind (api_io_failure ''acceptor.bind'' (ln_bind ln (fo_port fo))) (\<lambda>_.
         api_io_failure ''acceptor.listen'' (ln_listen ln)))))) of
       Inl status \<Rightarrow> (Inl status, running)
     | Inr _ \<Rightarrow> (Inr (), True))"

text \<open>
  The sessions of the shared state, each with whether it still exists: those that do not are forgotten, the others
  get the payload.
\<close>

definition api_join :: "stream_session \<Rightarrow> (bool \<times> stream_session) list \<Rightarrow> (bool \<times> stream_session) list" where
  "api_join session sessions = sessions @ [(True, session)]"

definition api_broadcast :: "frontend_options \<Rightarrow> string \<Rightarrow> (bool \<times> stream_session) list \<Rightarrow> (bool \<times> stream_session) list" where
  "api_broadcast fo payload sessions = map (\<lambda>(alive, session). (alive, stream_send fo payload session)) (filter fst sessions)"

definition broadcast_crud_result ::
  "'j json_api \<Rightarrow> frontend_options \<Rightarrow> crud_result \<Rightarrow> (bool \<times> stream_session) list \<Rightarrow> (bool \<times> stream_session) list option" where
  "broadcast_crud_result js fo result sessions =
    map_option (\<lambda>payload. api_broadcast fo payload sessions) (js_dump js (to_frontend_stream_event_json js result))"

subsection \<open>Who is let in\<close>

lemma answer_select [simp]:
  "ar_outcome (answer reply effects counter) = Answered reply" "ar_effects (answer reply effects counter) = effects"
  "ar_counter (answer reply effects counter) = counter"
  by (simp_all add: answer_def)

lemma caught_select [simp]: "ar_effects (caught r) = ar_effects r" "ar_counter (caught r) = ar_counter r"
  by (simp_all add: caught_def)

lemma caught_outcome: "ar_outcome (caught r) = (if ar_outcome r = Answered None then Answered (Some (refusal 500 ''internal_error'')) else ar_outcome r)"
  by (simp add: caught_def)

lemma refusal_status [simp]: "re_status (refusal status message) = status"
  by (simp add: refusal_def send_json_def)

lemma dumped_status: "dumped js status json = Some reply \<Longrightarrow> re_status reply = status"
  by (auto simp: dumped_def send_json_def)

text \<open>
  C11: a request whose header does not authorise it does nothing: no command is dispatched, no view is asked, no file
  is examined or changed, no directory upload begins, and no number of a request is used.  It is answered with
  success only on the three public routes, and a connection is handed over to the stream only on its route and
  with a token in the query that authorises it.
\<close>

theorem unauthorized_requests_do_nothing:
  assumes "\<not> authorized js jwt (rq_authorization rq) fo None"
  shows "let r = api_on_read js jv jwt fo fw ah (Read_ok rq) counter; target = parse_target (rq_target rq)
    in ar_effects r = [] \<and> ar_counter r = counter \<and>
      (case ar_outcome r of
         Answered reply \<Rightarrow> \<exists>answered. reply = Some answered \<and>
           (re_status answered < 300 \<longrightarrow>
             rq_method rq = Get \<and> pt_path target \<in> {fo_health_path fo, fo_openapi_path fo, fo_docs_path fo})
       | Upgraded \<Rightarrow> rq_upgrade rq \<and> pt_path target = fo_stream_path fo \<and>
           authorized js jwt (rq_authorization rq) fo (pt_access_token target)
       | _ \<Rightarrow> False)"
  using assms
  by (auto simp: api_on_read_def handle_http_request_def Let_def with_body_def caught_outcome)

lemma with_body_effects:
  "e \<in> set (ar_effects (with_body js jwt fo rq counter handle)) \<Longrightarrow>
    authorized js jwt (rq_authorization rq) fo None \<and>
    (\<exists>body. parse_json_object_body js (rq_body rq) = Inr body \<and> e \<in> set (ar_effects (handle body)))"
  by (auto simp: with_body_def split: if_splits sum.splits)

lemma tree_effects: "e \<in> set (ar_effects (handle_tree_request js jv ah counter body)) \<Longrightarrow> \<exists>h p. e = Asked_tree h p"
  by (auto simp: handle_tree_request_def split: sum.splits prod.splits)

lemma snapshot_effects: "e \<in> set (ar_effects (handle_snapshot_request js jv ah counter body)) \<Longrightarrow> \<exists>h p i. e = Asked_snapshot h p i"
  by (auto simp: handle_snapshot_request_def split: sum.splits prod.splits)

lemma download_effects: "e \<in> set (ar_effects (handle_download_request js jv fo fw counter body)) \<Longrightarrow> \<exists>p. e = Examined p"
  by (auto simp: handle_download_request_def split: option.splits)

lemma upload_effects:
  "e \<in> set (ar_effects (handle_upload_request js jv fo fw counter body)) \<Longrightarrow> \<exists>op \<in> set (snd (upload_file js jv fo fw body)). e = Changed op"
  by (auto simp: handle_upload_request_def split: prod.splits)

lemma directory_effects: "ar_effects (handle_directory_request js jv fo fw counter body) = []"
  by (simp add: handle_directory_request_def split: sum.splits)

lemma command_effects:
  "e \<in> set (ar_effects (handle_command_request js jv ah counter body)) \<Longrightarrow>
    \<exists>dto request_id. parse_frontend_command_request js jv body = Inr dto \<and> request_id \<noteq> [] \<and>
      (fd_request_id dto \<noteq> [] \<longrightarrow> request_id = fd_request_id dto) \<and>
      e = Dispatched ((to_crud_command dto)\<lparr>cc_request_id := request_id\<rparr>) \<and>
      ar_effects (handle_command_request js jv ah counter body) = [e]"
  by (auto simp: handle_command_request_def api_next_request_id_def Let_def split: sum.splits if_splits)

text \<open>The requests by their effects.\<close>

definition body_routes ::
  "'j json_api \<Rightarrow> 'j json_values \<Rightarrow> frontend_options \<Rightarrow> file_answers \<Rightarrow> 'j api_handlers \<Rightarrow> u64 \<Rightarrow> ('j \<Rightarrow> api_result) set" where
  "body_routes js jv fo fw ah counter =
    {handle_command_request js jv ah counter, handle_tree_request js jv ah counter,
     handle_snapshot_request js jv ah counter, handle_download_request js jv fo fw counter,
     handle_upload_request js jv fo fw counter, handle_directory_request js jv fo fw counter}"

lemma http_request_route:
  "ar_effects (handle_http_request js jv jwt fo fw ah rq target counter) = [] \<or>
    (\<exists>handle \<in> body_routes js jv fo fw ah counter.
      handle_http_request js jv jwt fo fw ah rq target counter = with_body js jwt fo rq counter handle)"
  by (simp add: handle_http_request_def Let_def body_routes_def)

lemma on_read_effects:
  "ar_effects (api_on_read js jv jwt fo fw ah (Read_ok rq) counter) = [] \<or>
    ar_effects (api_on_read js jv jwt fo fw ah (Read_ok rq) counter) =
      ar_effects (handle_http_request js jv jwt fo fw ah rq (parse_target (rq_target rq)) counter)"
  by (simp add: api_on_read_def Let_def)

lemma effect_cases:
  assumes "e \<in> set (ar_effects (api_on_read js jv jwt fo fw ah (Read_ok rq) counter))"
  obtains body where "authorized js jwt (rq_authorization rq) fo None" "parse_json_object_body js (rq_body rq) = Inr body"
    "e \<in> set (ar_effects (handle_command_request js jv ah counter body)) \<and>
       ar_effects (api_on_read js jv jwt fo fw ah (Read_ok rq) counter) = ar_effects (handle_command_request js jv ah counter body) \<or>
     (\<exists>h p. e = Asked_tree h p) \<or> (\<exists>h p i. e = Asked_snapshot h p i) \<or> (\<exists>p. e = Examined p) \<or>
     (\<exists>op \<in> set (snd (upload_file js jv fo fw body)). e = Changed op)"
proof -
  let ?effects = "ar_effects (api_on_read js jv jwt fo fw ah (Read_ok rq) counter)"
  have some: "?effects \<noteq> []" using assms by auto
  then have same: "?effects = ar_effects (handle_http_request js jv jwt fo fw ah rq (parse_target (rq_target rq)) counter)"
    using on_read_effects by blast
  have "\<exists>handle \<in> body_routes js jv fo fw ah counter.
      handle_http_request js jv jwt fo fw ah rq (parse_target (rq_target rq)) counter = with_body js jwt fo rq counter handle"
    using http_request_route some unfolding same by blast
  then obtain handle where handle: "handle \<in> body_routes js jv fo fw ah counter"
    "handle_http_request js jv jwt fo fw ah rq (parse_target (rq_target rq)) counter = with_body js jwt fo rq counter handle"
    by (elim bexE)
  have h: "?effects = ar_effects (with_body js jwt fo rq counter handle)" unfolding same handle(2) by (rule refl)
  obtain body where b: "authorized js jwt (rq_authorization rq) fo None" "parse_json_object_body js (rq_body rq) = Inr body"
    "e \<in> set (ar_effects (handle body))"
    using with_body_effects assms unfolding h by blast
  have effects: "?effects = ar_effects (handle body)" unfolding h using b(1,2) by (simp add: with_body_def)
  show ?thesis
  proof (rule that [OF b(1,2)], goal_cases)
    case 1
    from handle(1) show ?case
      unfolding body_routes_def insert_iff empty_iff
      by (elim disjE FalseE)
        (use b(3) effects in \<open>simp_all add: directory_effects\<close>,
         use b(3) tree_effects snapshot_effects download_effects upload_effects in \<open>fast+\<close>)
  qed
qed

text \<open>
  C12: a command that a request dispatches is the only thing the request does. It comes from an authorised request whose
  body names it, it carries a request identifier and a batch size that are not empty, and Muninn reads from its text the same
  command.
\<close>

theorem dispatched_commands_are_read_by_muninn:
  assumes "json_laws js" "Dispatched command \<in> set (ar_effects (api_on_read js jv jwt fo fw ah (Read_ok rq) counter))"
  shows "authorized js jwt (rq_authorization rq) fo None \<and>
    ar_effects (api_on_read js jv jwt fo fw ah (Read_ok rq) counter) = [Dispatched command] \<and>
    (\<exists>body v t. parse_json_object_body js (rq_body rq) = Inr body \<and> set (jv_keys jv body) \<subseteq> set kAllowedCommandKeys \<and>
      js_at js body ''operation'' = Some v \<and> jv_string jv v = Some t \<and> operation_from_string t = Some (cc_operation command)) \<and>
    cc_request_id command \<noteq> [] \<and> cc_outbox_batch_size command \<noteq> 0 \<and>
    (\<forall>frame. json_to_text js (crud_command_to_json js command) = Some frame \<longrightarrow>
      Option.bind (text_to_json js frame) (parse_crud_command js) = Some (Some command))"
proof -
  obtain body where b: "authorized js jwt (rq_authorization rq) fo None" "parse_json_object_body js (rq_body rq) = Inr body"
    "Dispatched command \<in> set (ar_effects (handle_command_request js jv ah counter body))"
    "ar_effects (api_on_read js jv jwt fo fw ah (Read_ok rq) counter) = ar_effects (handle_command_request js jv ah counter body)"
    by (rule effect_cases [OF assms(2)]) auto
  obtain dto request_id where dto: "parse_frontend_command_request js jv body = Inr dto" "request_id \<noteq> []"
    "command = (to_crud_command dto)\<lparr>cc_request_id := request_id\<rparr>"
    "ar_effects (handle_command_request js jv ah counter body) = [Dispatched command]"
    using command_effects [OF b(3)] by blast
  note formed = accepted_commands_are_well_formed [OF dto(1), of request_id]
  have "command_acceptable command" using formed dto(2,3) by simp
  moreover have "text_to_json js frame = Some (crud_command_to_json js command)"
    if "json_to_text js (crud_command_to_json js command) = Some frame" for frame
    using text_of_object [OF assms(1)] that by (simp add: crud_command_to_json_def)
  ultimately show ?thesis using b dto formed parse_crud_command_to_json [OF assms(1), of command] by auto
qed

subsection \<open>Files\<close>

lemma store_file_ops:
  "op \<in> set (snd (store_file fw target decoded)) \<Longrightarrow>
    op \<in> {Make_directories (path_parent target), Open_truncate target, Write_bytes target decoded}"
  by (auto simp: store_file_def Let_def split: if_splits)

lemma refused_write_None:
  "refused_write fo fw target = None \<Longrightarrow> fo_allowed_write_root fo \<noteq> [] \<Longrightarrow>
    \<exists>allowed_root canonical_target. canonicalize_existing_path fw [] (fo_allowed_write_root fo) = Some allowed_root \<and>
      canonicalize_weak_path fw [] target = Some canonical_target \<and> is_path_within_root canonical_target allowed_root"
  by (auto simp: refused_write_def split: option.splits if_splits)

lemma upload_file_ops:
  assumes "op \<in> set (snd (upload_file js jv fo fw body))"
  shows "\<exists>destination_dir file_name decoded. string_member js jv body ''destination_dir'' = Some destination_dir \<and>
    string_member js jv body ''file_name'' = Some file_name \<and> file_name \<noteq> [] \<and> path_parent file_name = [] \<and>
    length decoded \<le> unat (fo_max_upload_file_bytes fo) \<and>
    refused_write fo fw (path_join destination_dir file_name) = None \<and>
    op \<in> set (snd (store_file fw (path_join destination_dir file_name) decoded))"
  using assms by (auto simp: upload_file_def Let_def not_less split: option.splits prod.splits if_splits)

text \<open>
  C13: outside of directory uploads, a request changes a file only when it is authorised, and only the file with the name and in the
  directory it asks for, the name being one without a directory: it makes the directory, opens the
  file or writes at most as many bytes as one file may have, and, with a root for writing configured, only after the
  canonical form of the file has been found below the canonical root.
\<close>

theorem requests_change_files_only_below_the_root:
  assumes "Changed op \<in> set (ar_effects (api_on_read js jv jwt fo fw ah (Read_ok rq) counter))"
  shows "authorized js jwt (rq_authorization rq) fo None \<and>
    (\<exists>body destination_dir file_name decoded. parse_json_object_body js (rq_body rq) = Inr body \<and>
      string_member js jv body ''destination_dir'' = Some destination_dir \<and>
      string_member js jv body ''file_name'' = Some file_name \<and> file_name \<noteq> [] \<and> path_parent file_name = [] \<and>
      length decoded \<le> unat (fo_max_upload_file_bytes fo) \<and>
      op \<in> {Make_directories (path_parent (path_join destination_dir file_name)),
        Open_truncate (path_join destination_dir file_name), Write_bytes (path_join destination_dir file_name) decoded} \<and>
      (fo_allowed_write_root fo \<noteq> [] \<longrightarrow> (\<exists>allowed_root canonical_target.
        canonicalize_existing_path fw [] (fo_allowed_write_root fo) = Some allowed_root \<and>
        canonicalize_weak_path fw [] (path_join destination_dir file_name) = Some canonical_target \<and>
        is_path_within_root canonical_target allowed_root)))"
proof -
  obtain body where b: "authorized js jwt (rq_authorization rq) fo None" "parse_json_object_body js (rq_body rq) = Inr body"
    "op \<in> set (snd (upload_file js jv fo fw body))"
    by (rule effect_cases [OF assms]) (auto dest: command_effects)
  obtain destination_dir file_name decoded where u: "string_member js jv body ''destination_dir'' = Some destination_dir"
    "string_member js jv body ''file_name'' = Some file_name" "file_name \<noteq> []" "path_parent file_name = []"
    "length decoded \<le> unat (fo_max_upload_file_bytes fo)" "refused_write fo fw (path_join destination_dir file_name) = None"
    "op \<in> set (snd (store_file fw (path_join destination_dir file_name) decoded))"
    using upload_file_ops [OF b(3)] by (elim exE conjE) simp
  note op = store_file_ops [OF u(7)] and root = refused_write_None [OF u(6)]
  show ?thesis
    by (rule conjI [OF b(1)], rule exI [of _ body], rule exI [of _ destination_dir], rule exI [of _ file_name],
        rule exI [of _ decoded]) (intro conjI b(2) u(1-5) op impI root)
qed

subsection \<open>Examples\<close>

definition sample_handlers :: "json_tree api_handlers" where
  "sample_handlers = \<lparr>ah_command = (\<lambda>_. Inr ()), ah_realtime_tree = None, ah_realtime_snapshot = None\<rparr>"

definition sample_http :: "string \<Rightarrow> string \<Rightarrow> string \<Rightarrow> http_request" where
  "sample_http target token body = \<lparr>rq_method = Post, rq_target = target, rq_upgrade = False, rq_authorization = token, rq_body = body\<rparr>"

definition sample_command :: crud_command where
  "sample_command = (to_crud_command (default_request\<lparr>fd_operation := FRead, fd_outbox_batch_size := 4294967295\<rparr>))
    \<lparr>cc_request_id := ''frontend-1''\<rparr>"

definition sample_single_upload :: json_tree where
  "sample_single_upload = Object_tree [(''destination_dir'', String_tree ''/data''), (''file_name'', String_tree ''a''),
    (''content_b64'', String_tree ''AAAA'')]"

lemma sample_body: "\<exists>t. js_parse tree_json t = Some json"
  by (rule exI [of _ "replicate (to_nat json) CHR ''1''"]) (simp add: tree_json_def)

lemma sample_target: "parse_target ''/commands'' = \<lparr>pt_path = ''/commands'', pt_query = [], pt_access_token = None\<rparr>"
  "parse_target ''/upload'' = \<lparr>pt_path = ''/upload'', pt_query = [], pt_access_token = None\<rparr>"
  by code_simp+

lemma sample_token: "authorized tree_json sample_jwt ''Bearer s!'' sample_frontend None"
  "\<not> authorized tree_json sample_jwt [] sample_frontend None"
  using admitted_exactly_witness by simp_all

lemma sample_objects: "js_is_object tree_json sample_request" "js_is_object tree_json sample_single_upload"
  by (simp_all add: sample_request_def sample_single_upload_def tree_json_def)

lemma sample_paths:
  "fo_health_path sample_frontend = ''/health''" "fo_openapi_path sample_frontend = ''/openapi.json''"
  "fo_docs_path sample_frontend = ''/docs''" "fo_command_path sample_frontend = ''/commands''"
  "fo_realtime_tree_path sample_frontend = ''/tree''" "fo_realtime_snapshot_path sample_frontend = ''/snapshot''"
  "fo_file_download_path sample_frontend = ''/download''" "fo_file_upload_path sample_frontend = ''/upload''"
  by (simp_all add: sample_frontend_def)

lemma sample_dispatch:
  assumes "js_parse tree_json t = Some sample_request"
  shows "ar_effects (api_on_read tree_json sample_values sample_jwt sample_frontend sample_files sample_handlers
    (Read_ok (sample_http ''/commands'' ''Bearer s!'' t)) 0) = [Dispatched sample_command]"
proof -
  have "show_word (1 :: u64) = ''1''" by code_simp
  then have "ar_effects (handle_command_request tree_json sample_values sample_handlers 0 sample_request) = [Dispatched sample_command]"
    by (simp add: handle_command_request_def sample_request_read default_request_def api_next_request_id_def sample_handlers_def
        sample_command_def)
  moreover have "parse_json_object_body tree_json t = Inr sample_request"
    using assms sample_objects by (simp add: parse_json_object_body_def text_to_json_def)
  ultimately show ?thesis
    by (simp add: api_on_read_def handle_http_request_def with_body_def sample_http_def sample_target sample_token sample_paths Let_def)
qed

lemma sample_change:
  assumes "js_parse tree_json t = Some sample_single_upload"
  shows "Changed (Write_bytes ''/data/a'' [0, 0, 0]) \<in> set (ar_effects (api_on_read tree_json sample_values sample_jwt sample_frontend
    sample_files sample_handlers (Read_ok (sample_http ''/upload'' ''Bearer s!'' t)) 0))"
proof -
  have "snd (upload_file tree_json sample_values sample_frontend sample_files sample_single_upload) =
    [Make_directories ''/data'', Open_truncate ''/data/a'', Write_bytes ''/data/a'' [0, 0, 0]]" by code_simp
  then have "Changed (Write_bytes ''/data/a'' [0, 0, 0]) \<in> set (ar_effects
      (handle_upload_request tree_json sample_values sample_frontend sample_files 0 sample_single_upload))"
    by (cases "upload_file tree_json sample_values sample_frontend sample_files sample_single_upload")
      (simp add: handle_upload_request_def)
  moreover have "parse_json_object_body tree_json t = Inr sample_single_upload"
    using assms sample_objects by (simp add: parse_json_object_body_def text_to_json_def)
  ultimately show ?thesis
    by (simp add: api_on_read_def handle_http_request_def with_body_def sample_http_def sample_target sample_token sample_paths Let_def)
qed

theorem unauthorized_requests_do_nothing_witness:
  "ar_effects (api_on_read tree_json sample_values sample_jwt sample_frontend sample_files sample_handlers
    (Read_ok (sample_http ''/commands'' [] ''{}'')) 0) = []"
  using unauthorized_requests_do_nothing [of tree_json sample_jwt "sample_http ''/commands'' [] ''{}''" sample_frontend
      sample_values sample_files sample_handlers 0] sample_token(2)
  by (simp add: sample_http_def Let_def)

theorem dispatched_commands_are_read_by_muninn_witness:
  "\<exists>frame. Option.bind (text_to_json tree_json frame) (parse_crud_command tree_json) = Some (Some sample_command)"
proof -
  obtain t where t: "js_parse tree_json t = Some sample_request" using sample_body by blast
  have "Dispatched sample_command \<in> set (ar_effects (api_on_read tree_json sample_values sample_jwt sample_frontend sample_files
      sample_handlers (Read_ok (sample_http ''/commands'' ''Bearer s!'' t)) 0))"
    using sample_dispatch [OF t] by simp
  note read = dispatched_commands_are_read_by_muninn [OF tree_json_laws this]
  obtain frame where "json_to_text tree_json (crud_command_to_json tree_json sample_command) = Some frame"
    by (simp add: json_to_text_def tree_json_def)
  then show ?thesis using read by blast
qed

theorem requests_change_files_only_below_the_root_witness:
  "\<exists>canonical_target. canonicalize_weak_path sample_files [] ''/data/a'' = Some canonical_target \<and>
    is_path_within_root canonical_target ''/data''"
proof -
  obtain t where t: "js_parse tree_json t = Some sample_single_upload" using sample_body by blast
  have body: "parse_json_object_body tree_json t = Inr sample_single_upload"
    using t sample_objects by (simp add: parse_json_object_body_def text_to_json_def)
  have members: "string_member tree_json sample_values sample_single_upload ''destination_dir'' = Some ''/data''"
    "string_member tree_json sample_values sample_single_upload ''file_name'' = Some ''a''" "path_join ''/data'' ''a'' = ''/data/a''"
    by code_simp+
  have root: "fo_allowed_write_root sample_frontend = ''/data''" "canonicalize_existing_path sample_files [] ''/data'' = Some ''/data''"
    by (simp_all add: sample_frontend_def sample_files_def)
  show ?thesis
    using requests_change_files_only_below_the_root [OF sample_change [OF t]] body members root
    by (simp add: sample_http_def)
qed

end
