(* ===== verification/HuginOptions.thy ===== *)
theory HuginOptions imports CommandLine FrontendApi MuninnClient begin

text \<open>
  What Hugin reads from its environment and its command line, and how it starts and stops its client and its
  API server: \<open>src/backend/Hugin/main.cpp\<close>.  The environment is a function from names to values, the
  number of processors an argument.  Printing and the threads that run the event loop are left out.
\<close>

subsection \<open>Values\<close>

definition detect_host_id :: "(string \<Rightarrow> string option) \<Rightarrow> string" where
  "detect_host_id env =
    (case env ''HOSTNAME'' of
       Some (c # hostname) \<Rightarrow> c # hostname
     | _ \<Rightarrow> (case env ''COMPUTERNAME'' of Some (c # computer_name) \<Rightarrow> c # computer_name | _ \<Rightarrow> ''unknown-host''))"

text \<open>\<open>std::stoull\<close>, which has to have read the whole text.\<close>

definition stoull_rest :: "string \<Rightarrow> string" where
  "stoull_rest s =
    (let s = dropWhile is_space s; s = (if s \<noteq> [] \<and> (hd s = CHR ''-'' \<or> hd s = CHR ''+'') then tl s else s)
     in dropWhile is_digit s)"

definition hugin_u64_arg :: "string \<Rightarrow> u64 option" where
  "hugin_u64_arg text_of =
    (case stoull text_of of None \<Rightarrow> None | Some parsed \<Rightarrow> if stoull_rest text_of \<noteq> [] then None else Some parsed)"

definition hugin_u16_arg :: "string \<Rightarrow> u16 option" where
  "hugin_u16_arg text_of =
    (case hugin_u64_arg text_of of
       None \<Rightarrow> None
     | Some parsed \<Rightarrow> if parsed > 65535 then None else Some (ucast parsed))"

text \<open>\<open>std::size_t\<close> has 64 bits.\<close>

definition hugin_size_arg :: "string \<Rightarrow> u64 option" where
  "hugin_size_arg text_of = hugin_u64_arg text_of"

definition backoff_factor_arg :: "string \<Rightarrow> u32 option" where
  "backoff_factor_arg text_of =
    (case hugin_u64_arg text_of of
       None \<Rightarrow> None
     | Some parsed \<Rightarrow> if parsed > 4294967295 then None else Some (ucast parsed))"

definition jitter_percent_arg :: "string \<Rightarrow> u32 option" where
  "jitter_percent_arg text_of =
    (case hugin_u64_arg text_of of
       None \<Rightarrow> None
     | Some parsed \<Rightarrow> if parsed > 100 then None else Some (ucast parsed))"

subsection \<open>Settings\<close>

record hugin_settings =
  hs_io_threads :: nat
  hs_muninn :: muninn_client_options
  hs_api :: frontend_options
  hs_start_muninn_client :: bool

definition default_client_options :: muninn_client_options where
  "default_client_options = \<lparr>mo_remote_host = ''muninn'', mo_remote_port = 9460, mo_websocket_path = ''/muninn'',
    mo_host_id = [], mo_client_instance_id = ''hugin-1'', mo_auth_token = [], mo_auto_pull_enabled = True,
    mo_outbox_batch_size = 256, mo_idle_pull_interval = 250, mo_hot_pull_interval = 10, mo_reconnect_delay = 1500,
    mo_reconnect_max_delay = 30000, mo_reconnect_backoff_factor = 2, mo_reconnect_jitter_percent = 20\<rparr>"

definition default_frontend_options :: frontend_options where
  "default_frontend_options = \<lparr>fo_listen_address = ''0.0.0.0'', fo_port = 8080, fo_health_path = ''/api/v1/health'',
    fo_command_path = ''/api/v1/commands'', fo_stream_path = ''/api/v1/stream'', fo_openapi_path = ''/api/v1/openapi.json'',
    fo_docs_path = ''/api/v1/docs'', fo_realtime_tree_path = ''/api/v1/realtime/tree'',
    fo_realtime_snapshot_path = ''/api/v1/realtime/snapshot'', fo_file_download_path = ''/api/v1/files/download'',
    fo_file_upload_path = ''/api/v1/files/upload'', fo_directory_upload_path = ''/api/v1/files/upload-directory'',
    fo_allowed_read_root = [], fo_allowed_write_root = [], fo_max_upload_file_bytes = 16777216,
    fo_max_upload_directory_files = 1024, fo_max_upload_total_decoded_bytes = 67108864, fo_directory_upload_threads = 4,
    fo_require_jwt = True, fo_jwt_secret = [], fo_jwt_issuer = [], fo_jwt_audience = [], fo_jwt_clock_skew_seconds = 30,
    fo_jwt_require_exp_claim = True, fo_local_access_token = [], fo_max_http_request_body_bytes = 8388608,
    fo_ws_max_pending_messages = 1024, fo_ws_max_pending_bytes = 8388608, fo_ws_backpressure_policy = DropOldest,
    fo_command_worker_threads = 4, fo_command_max_queue_per_worker = 1024, fo_command_execution_timeout = 1500\<rparr>"

definition initial_hugin :: "nat \<Rightarrow> (string \<Rightarrow> string option) \<Rightarrow> hugin_settings" where
  "initial_hugin hardware_concurrency env = \<lparr>hs_io_threads = max 2 hardware_concurrency,
    hs_muninn = default_client_options\<lparr>mo_host_id := detect_host_id env, mo_client_instance_id := ''hugin-gateway-1''\<rparr>,
    hs_api = default_frontend_options, hs_start_muninn_client = True\<rparr>"

definition hugin_environment :: "(string \<Rightarrow> string option) \<Rightarrow> hugin_settings \<Rightarrow> int + hugin_settings" where
  "hugin_environment env st =
    sum_bind (from_env env ''MUNINN_BRIDGE_AUTH_TOKEN'' Some (\<lambda>v. hs_muninn_update (mo_auth_token_update (\<lambda>_. v))) st) (\<lambda>st.
    sum_bind (from_env env ''HUGIN_RECONNECT_MAX_MS'' hugin_u64_arg
      (\<lambda>v. hs_muninn_update (mo_reconnect_max_delay_update (\<lambda>_. v))) st) (\<lambda>st.
    sum_bind (from_env env ''HUGIN_RECONNECT_BACKOFF_FACTOR'' backoff_factor_arg
      (\<lambda>v. hs_muninn_update (mo_reconnect_backoff_factor_update (\<lambda>_. v))) st) (\<lambda>st.
    sum_bind (from_env env ''HUGIN_RECONNECT_JITTER_PERCENT'' jitter_percent_arg
      (\<lambda>v. hs_muninn_update (mo_reconnect_jitter_percent_update (\<lambda>_. v))) st) (\<lambda>st.
    sum_bind (from_env env ''HUGIN_JWT_SECRET'' Some (\<lambda>v. hs_api_update (fo_jwt_secret_update (\<lambda>_. v))) st) (\<lambda>st.
    sum_bind (from_env env ''HUGIN_JWT_ISSUER'' Some (\<lambda>v. hs_api_update (fo_jwt_issuer_update (\<lambda>_. v))) st) (\<lambda>st.
    sum_bind (from_env env ''HUGIN_JWT_AUDIENCE'' Some (\<lambda>v. hs_api_update (fo_jwt_audience_update (\<lambda>_. v))) st) (\<lambda>st.
    sum_bind (from_env env ''HUGIN_LOCAL_ACCESS_TOKEN'' Some
      (\<lambda>v. hs_api_update (fo_local_access_token_update (\<lambda>_. v))) st) (\<lambda>st.
    sum_bind (from_env env ''HUGIN_MAX_HTTP_REQUEST_BODY_BYTES'' hugin_size_arg
      (\<lambda>v. hs_api_update (fo_max_http_request_body_bytes_update (\<lambda>_. v))) st) (\<lambda>st.
    sum_bind (from_env env ''HUGIN_ALLOWED_READ_ROOT'' Some
      (\<lambda>v. hs_api_update (fo_allowed_read_root_update (\<lambda>_. v))) st) (\<lambda>st.
    sum_bind (from_env env ''HUGIN_ALLOWED_WRITE_ROOT'' Some
      (\<lambda>v. hs_api_update (fo_allowed_write_root_update (\<lambda>_. v))) st) (\<lambda>st.
    sum_bind (from_env env ''HUGIN_MAX_UPLOAD_FILE_BYTES'' hugin_size_arg
      (\<lambda>v. hs_api_update (fo_max_upload_file_bytes_update (\<lambda>_. v))) st) (\<lambda>st.
    sum_bind (from_env env ''HUGIN_MAX_UPLOAD_DIRECTORY_FILES'' hugin_size_arg
      (\<lambda>v. hs_api_update (fo_max_upload_directory_files_update (\<lambda>_. v))) st) (\<lambda>st.
    from_env env ''HUGIN_MAX_UPLOAD_TOTAL_DECODED_BYTES'' hugin_size_arg
      (\<lambda>v. hs_api_update (fo_max_upload_total_decoded_bytes_update (\<lambda>_. v))) st)))))))))))))"

subsection \<open>The command line\<close>

definition hugin_flag :: "string \<Rightarrow> (hugin_settings \<Rightarrow> hugin_settings) option" where
  "hugin_flag arg = map_of
    [(''--disable-muninn-client'', hs_start_muninn_client_update (\<lambda>_. False)),
     (''--disable-auto-pull'', hs_muninn_update (mo_auto_pull_enabled_update (\<lambda>_. False))),
     (''--disable-jwt'', hs_api_update (fo_require_jwt_update (\<lambda>_. False))),
     (''--enable-jwt'', hs_api_update (fo_require_jwt_update (\<lambda>_. True))),
     (''--jwt-no-exp-required'', hs_api_update (fo_jwt_require_exp_claim_update (\<lambda>_. False))),
     (''--jwt-exp-required'', hs_api_update (fo_jwt_require_exp_claim_update (\<lambda>_. True)))] arg"

text \<open>The options of the client, and those of the API server; an option changes one of the two or the number of threads.\<close>

definition client_option :: "string \<Rightarrow> (string \<Rightarrow> (muninn_client_options \<Rightarrow> muninn_client_options) option) option" where
  "client_option arg = map_of
    [(''--host-id'', \<lambda>v. Some (mo_host_id_update (\<lambda>_. v))),
     (''--client-instance-id'', \<lambda>v. Some (mo_client_instance_id_update (\<lambda>_. v))),
     (''--muninn-host'', \<lambda>v. Some (mo_remote_host_update (\<lambda>_. v))),
     (''--muninn-port'', \<lambda>v. map_option (\<lambda>n. mo_remote_port_update (\<lambda>_. n)) (hugin_u16_arg v)),
     (''--muninn-path'', \<lambda>v. Some (mo_websocket_path_update (\<lambda>_. v))),
     (''--muninn-auth-token'', \<lambda>v. Some (mo_auth_token_update (\<lambda>_. v))),
     (''--poll-ms'', \<lambda>v. map_option (\<lambda>n. mo_idle_pull_interval_update (\<lambda>_. n)) (hugin_u64_arg v)),
     (''--hot-poll-ms'', \<lambda>v. map_option (\<lambda>n. mo_hot_pull_interval_update (\<lambda>_. n)) (hugin_u64_arg v)),
     (''--reconnect-ms'', \<lambda>v. map_option (\<lambda>n. mo_reconnect_delay_update (\<lambda>_. n)) (hugin_u64_arg v)),
     (''--reconnect-max-ms'', \<lambda>v. map_option (\<lambda>n. mo_reconnect_max_delay_update (\<lambda>_. n)) (hugin_u64_arg v)),
     (''--reconnect-backoff-factor'', \<lambda>v. map_option (\<lambda>n. mo_reconnect_backoff_factor_update (\<lambda>_. n)) (backoff_factor_arg v)),
     (''--reconnect-jitter-percent'', \<lambda>v. map_option (\<lambda>n. mo_reconnect_jitter_percent_update (\<lambda>_. n)) (jitter_percent_arg v)),
     (''--outbox-batch'', \<lambda>v. map_option (\<lambda>n. mo_outbox_batch_size_update (\<lambda>_. max 1 (unat n))) (hugin_size_arg v))] arg"

type_synonym api_option = "string \<times> (string \<Rightarrow> (frontend_options \<Rightarrow> frontend_options) option)"

definition access_options :: "api_option list" where
  "access_options =
    [(''--api-address'', \<lambda>v. Some (fo_listen_address_update (\<lambda>_. v))),
     (''--api-port'', \<lambda>v. map_option (\<lambda>n. fo_port_update (\<lambda>_. n)) (hugin_u16_arg v)),
     (''--api-health-path'', \<lambda>v. Some (fo_health_path_update (\<lambda>_. v))),
     (''--api-command-path'', \<lambda>v. Some (fo_command_path_update (\<lambda>_. v))),
     (''--api-stream-path'', \<lambda>v. Some (fo_stream_path_update (\<lambda>_. v))),
     (''--api-openapi-path'', \<lambda>v. Some (fo_openapi_path_update (\<lambda>_. v))),
     (''--api-docs-path'', \<lambda>v. Some (fo_docs_path_update (\<lambda>_. v))),
     (''--local-access-token'', \<lambda>v. Some (fo_local_access_token_update (\<lambda>_. v))),
     (''--max-http-request-body-bytes'', \<lambda>v. map_option (\<lambda>n. fo_max_http_request_body_bytes_update (\<lambda>_. n)) (hugin_size_arg v)),
     (''--api-realtime-tree-path'', \<lambda>v. Some (fo_realtime_tree_path_update (\<lambda>_. v))),
     (''--api-realtime-snapshot-path'', \<lambda>v. Some (fo_realtime_snapshot_path_update (\<lambda>_. v))),
     (''--api-file-download-path'', \<lambda>v. Some (fo_file_download_path_update (\<lambda>_. v))),
     (''--api-file-upload-path'', \<lambda>v. Some (fo_file_upload_path_update (\<lambda>_. v))),
     (''--api-directory-upload-path'', \<lambda>v. Some (fo_directory_upload_path_update (\<lambda>_. v))),
     (''--allowed-read-root'', \<lambda>v. Some (fo_allowed_read_root_update (\<lambda>_. v))),
     (''--allowed-write-root'', \<lambda>v. Some (fo_allowed_write_root_update (\<lambda>_. v)))]"

definition upload_options :: "api_option list" where
  "upload_options =
    [(''--directory-upload-threads'', \<lambda>v. map_option (\<lambda>n. fo_directory_upload_threads_update (\<lambda>_. min 4 (max 1 n))) (hugin_size_arg v)),
     (''--max-upload-file-bytes'', \<lambda>v. map_option (\<lambda>n. fo_max_upload_file_bytes_update (\<lambda>_. n)) (hugin_size_arg v)),
     (''--max-upload-directory-files'', \<lambda>v. map_option (\<lambda>n. fo_max_upload_directory_files_update (\<lambda>_. n)) (hugin_size_arg v)),
     (''--max-upload-total-decoded-bytes'', \<lambda>v. map_option (\<lambda>n. fo_max_upload_total_decoded_bytes_update (\<lambda>_. n)) (hugin_size_arg v))]"

definition jwt_options :: "api_option list" where
  "jwt_options =
    [(''--jwt-secret'', \<lambda>v. Some (fo_jwt_secret_update (\<lambda>_. v))),
     (''--jwt-issuer'', \<lambda>v. Some (fo_jwt_issuer_update (\<lambda>_. v))),
     (''--jwt-audience'', \<lambda>v. Some (fo_jwt_audience_update (\<lambda>_. v))),
     (''--jwt-clock-skew-sec'', \<lambda>v. map_option (\<lambda>n. fo_jwt_clock_skew_seconds_update (\<lambda>_. n)) (hugin_u64_arg v))]"

definition queue_options :: "api_option list" where
  "queue_options =
    [(''--ws-max-pending-messages'', \<lambda>v. map_option (\<lambda>n. fo_ws_max_pending_messages_update (\<lambda>_. max 1 n)) (hugin_size_arg v)),
     (''--ws-max-pending-bytes'', \<lambda>v. map_option (\<lambda>n. fo_ws_max_pending_bytes_update (\<lambda>_. max 1 n)) (hugin_size_arg v)),
     (''--ws-backpressure-policy'', \<lambda>v. map_option (\<lambda>policy. fo_ws_backpressure_policy_update (\<lambda>_. policy)) (parse_backpressure_policy v)),
     (''--command-worker-threads'', \<lambda>v. map_option (\<lambda>n. fo_command_worker_threads_update (\<lambda>_. max 1 n)) (hugin_size_arg v)),
     (''--command-max-queue-per-worker'', \<lambda>v. map_option (\<lambda>n. fo_command_max_queue_per_worker_update (\<lambda>_. max 1 n)) (hugin_size_arg v)),
     (''--command-timeout-ms'', \<lambda>v. map_option (\<lambda>n. fo_command_execution_timeout_update (\<lambda>_. n)) (hugin_u64_arg v))]"

definition hugin_value :: "string \<Rightarrow> (string \<Rightarrow> (hugin_settings \<Rightarrow> hugin_settings) option) option" where
  "hugin_value arg =
    (if arg = ''--io-threads'' then Some (\<lambda>v. map_option (\<lambda>n. hs_io_threads_update (\<lambda>_. max 1 (unat n))) (hugin_size_arg v))
     else case client_option arg of
       Some f \<Rightarrow> Some (\<lambda>v. map_option hs_muninn_update (f v))
     | None \<Rightarrow>
         map_option (\<lambda>f v. map_option hs_api_update (f v))
           (map_of (access_options @ upload_options @ jwt_options @ queue_options) arg))"

text \<open>An argument that is not known is passed over.\<close>

definition hugin_configure :: "nat \<Rightarrow> (string \<Rightarrow> string option) \<Rightarrow> string list \<Rightarrow> int + hugin_settings" where
  "hugin_configure hardware_concurrency env args =
    sum_bind (hugin_environment env (initial_hugin hardware_concurrency env)) (\<lambda>st.
      parse_options hugin_flag hugin_value (\<lambda>_ st. Inr st) args st)"

subsection \<open>Starting and stopping\<close>

definition command_handler :: "client option \<Rightarrow> crud_command \<Rightarrow> (status_error + unit) \<times> client option" where
  "command_handler muninn_client command =
    (case muninn_client of
       None \<Rightarrow> (Inl (error_code.Internal, ''Muninn bridge client is disabled.''), None)
     | Some c \<Rightarrow> (let (status, c) = submit_command command c in (status, Some c)))"

text \<open>The exit code when the API server does not start; otherwise the client, if there is one.\<close>

definition hugin_start ::
  "listener_answers \<Rightarrow> file_answers \<Rightarrow> hugin_settings \<Rightarrow> int + client option" where
  "hugin_start ln fw st =
    (let muninn_client = (if hs_start_muninn_client st then Some (new_client (hs_muninn st)) else None)
     in case api_start ln (hs_api st) fw False of
          (Inl _, _) \<Rightarrow> Inl 1
        | (Inr _, _) \<Rightarrow>
            Inr (map_option (\<lambda>c.
              (let c = client_start c
               in if mo_auto_pull_enabled (hs_muninn st) then snd (request_read 0 c) else c)) muninn_client))"

definition hugin_stop :: "client option \<Rightarrow> client option" where
  "hugin_stop muninn_client = map_option client_stop muninn_client"

subsection \<open>Numbers\<close>

text \<open>A number is read back as it was written, and a minus sign is accepted: the number wraps around.\<close>

lemma stoull_rest_digits: "list_all is_digit s \<Longrightarrow> s \<noteq> [] \<Longrightarrow> stoull_rest s = []"
proof -
  assume a: "list_all is_digit s" "s \<noteq> []"
  then have "dropWhile is_space s = s" "hd s \<noteq> CHR ''-''" "hd s \<noteq> CHR ''+''"
    using digit_not_space by (cases s; auto simp: is_digit_def)+
  moreover have "dropWhile is_digit s = []" using a(1) by (simp add: list_all_iff)
  ultimately show ?thesis by (simp add: stoull_rest_def Let_def)
qed

lemma negative_sizes_are_accepted:
  "hugin_size_arg ''-1'' = Some (- 1)" "hugin_size_arg '' 7'' = Some 7" "hugin_size_arg ''7x'' = None"
  by (simp_all add: hugin_size_arg_def hugin_u64_arg_def stoull_def stoull_rest_def Let_def is_space_def is_digit_def digits_value_def)

lemma jitter_percent_bound: "jitter_percent_arg t = Some n \<Longrightarrow> n \<le> 100"
proof -
  assume "jitter_percent_arg t = Some n"
  then obtain parsed where p: "\<not> parsed > (100 :: u64)" "n = ucast parsed"
    by (auto simp: jitter_percent_arg_def split: option.splits if_splits)
  have "unat parsed \<le> 100" using p(1) by (simp add: not_less word_le_nat_alt)
  then have "unat n \<le> 100"
    unfolding p(2) by (simp add: unsigned_ucast_eq take_bit_nat_eq_self)
  then show ?thesis by (simp add: word_le_nat_alt)
qed

subsection \<open>What every configuration keeps\<close>

definition hugin_ok :: "hugin_settings \<Rightarrow> bool" where
  "hugin_ok st \<longleftrightarrow> 1 \<le> hs_io_threads st \<and>
    1 \<le> mo_outbox_batch_size (hs_muninn st) \<and> mo_reconnect_jitter_percent (hs_muninn st) \<le> 100 \<and>
    1 \<le> fo_directory_upload_threads (hs_api st) \<and> fo_directory_upload_threads (hs_api st) \<le> 4 \<and>
    1 \<le> fo_ws_max_pending_messages (hs_api st) \<and> 1 \<le> fo_ws_max_pending_bytes (hs_api st) \<and>
    1 \<le> fo_command_worker_threads (hs_api st) \<and> 1 \<le> fo_command_max_queue_per_worker (hs_api st)"

lemma initial_hugin_ok: "hugin_ok (initial_hugin hardware_concurrency env)" "fo_require_jwt (hs_api (initial_hugin hardware_concurrency env))"
  by (simp_all add: hugin_ok_def initial_hugin_def default_client_options_def default_frontend_options_def max_def)

lemma hugin_flag_keeps:
  assumes "hugin_flag arg = Some f"
  shows "hugin_ok (f st) = hugin_ok st"
    "fo_require_jwt (hs_api st) \<Longrightarrow> fo_require_jwt (hs_api (f st)) \<or> arg = ''--disable-jwt''"
  using assms by (auto simp: hugin_flag_def hugin_ok_def split: if_splits)

lemma client_option_keeps:
  assumes "client_option arg = Some g" "g v = Some f"
  shows "1 \<le> mo_outbox_batch_size mo \<Longrightarrow> 1 \<le> mo_outbox_batch_size (f mo)"
    "mo_reconnect_jitter_percent mo \<le> 100 \<Longrightarrow> mo_reconnect_jitter_percent (f mo) \<le> 100"
  using assms by (auto simp: client_option_def jitter_percent_bound split: if_splits)

lemma api_options_keep:
  assumes "map_of (access_options @ upload_options @ jwt_options @ queue_options) arg = Some g" "g v = Some f"
  shows "hugin_ok st \<Longrightarrow> hugin_ok (hs_api_update f st)" "fo_require_jwt (f fo) = fo_require_jwt fo"
proof -
  have "(hugin_ok st \<longrightarrow> hugin_ok (hs_api_update f st)) \<and> fo_require_jwt (f fo) = fo_require_jwt fo"
    using map_of_SomeD [OF assms(1)] assms(2)
    by (auto simp: access_options_def upload_options_def jwt_options_def queue_options_def hugin_ok_def)
  then show "hugin_ok st \<Longrightarrow> hugin_ok (hs_api_update f st)" "fo_require_jwt (f fo) = fo_require_jwt fo" by blast+
qed

lemma hugin_value_keeps:
  assumes "hugin_value arg = Some g" "g v = Some f"
  shows "hugin_ok st \<Longrightarrow> hugin_ok (f st)" "fo_require_jwt (hs_api (f st)) = fo_require_jwt (hs_api st)"
proof -
  have "(hugin_ok st \<longrightarrow> hugin_ok (f st)) \<and> fo_require_jwt (hs_api (f st)) = fo_require_jwt (hs_api st)"
  proof (cases "arg = ''--io-threads''")
    case True
    then have "g = (\<lambda>v. map_option (\<lambda>n. hs_io_threads_update (\<lambda>_. max 1 (unat n))) (hugin_size_arg v))"
      using assms(1) by (simp only: hugin_value_def if_True refl option.inject)
    then show ?thesis using assms(2) by (auto simp: hugin_ok_def)
  next
    case threads: False
    show ?thesis
    proof (cases "client_option arg")
      case (Some h)
      then have "g = (\<lambda>v. map_option hs_muninn_update (h v))"
        using assms(1) threads by (simp only: hugin_value_def if_False option.case option.inject)
      then obtain k where "h v = Some k" "f = hs_muninn_update k" using assms(2) by auto
      then show ?thesis using client_option_keeps [OF Some] by (auto simp: hugin_ok_def)
    next
      case client: None
      then obtain h where h: "map_of (access_options @ upload_options @ jwt_options @ queue_options) arg = Some h"
          "g = (\<lambda>v. map_option hs_api_update (h v))"
        using assms(1) threads by (auto simp only: hugin_value_def if_False option.case map_option_eq_Some)
      then obtain k where "h v = Some k" "f = hs_api_update k" using assms(2) by auto
      then show ?thesis using api_options_keep [OF h(1)] by auto
    qed
  qed
  then show "hugin_ok st \<Longrightarrow> hugin_ok (f st)" "fo_require_jwt (hs_api (f st)) = fo_require_jwt (hs_api st)" by blast+
qed

definition hugin_kept :: "hugin_settings \<Rightarrow> bool" where
  "hugin_kept st \<longleftrightarrow> hugin_ok st \<and> fo_require_jwt (hs_api st)"

lemma hugin_environment_keeps:
  assumes "hugin_environment env st = Inr st'" "hugin_kept st"
  shows "hugin_kept st'"
proof -
  note holds = from_env_holds [where P = hugin_kept]
  have step: "hugin_kept u'" if "from_env env name parse apply_value u = Inr u'" "hugin_kept u"
      "\<And>t v u. parse t = Some v \<Longrightarrow> hugin_kept u \<Longrightarrow> hugin_kept (apply_value v u)"
    for name u u' and parse :: "string \<Rightarrow> 'b option" and apply_value
    by (rule holds [OF that])
  show ?thesis
    using assms unfolding hugin_environment_def sum_bind_eq_Inr
    by (elim exE conjE) (drule (1) step, (simp add: hugin_kept_def hugin_ok_def jitter_percent_bound; fail))+
qed

text \<open>
  C14: Hugin offers its interface without tokens only when the command line says so, and otherwise only with a
  secret to check them with; the directories to which it confines reading and writing exist; no file may be
  larger than an upload; and whatever was asked for, its pools and queues are not empty, at most four threads
  write a directory, and the jitter stays a percentage.
\<close>

theorem interface_is_guarded:
  assumes "hugin_configure hardware_concurrency env args = Inr st" and "hugin_start ln fw st = Inr muninn_client"
  shows "(fo_require_jwt (hs_api st) \<or> ''--disable-jwt'' \<in> set args) \<and>
    (fo_require_jwt (hs_api st) \<longrightarrow> fo_jwt_secret (hs_api st) \<noteq> []) \<and>
    root_usable fw (fo_allowed_read_root (hs_api st)) \<and> root_usable fw (fo_allowed_write_root (hs_api st)) \<and>
    fo_max_upload_file_bytes (hs_api st) \<le> fo_max_upload_total_decoded_bytes (hs_api st) \<and> hugin_ok st"
proof -
  obtain st0 where env: "hugin_environment env (initial_hugin hardware_concurrency env) = Inr st0"
    and args: "parse_options hugin_flag hugin_value (\<lambda>_ st. Inr st) args st0 = Inr st"
    using assms(1) by (auto simp: hugin_configure_def sum_bind_eq_Inr)
  have "hugin_kept st0"
    using hugin_environment_keeps [OF env] initial_hugin_ok by (simp add: hugin_kept_def)
  moreover define P where "P = (\<lambda>t. hugin_ok t \<and> (fo_require_jwt (hs_api t) \<or> ''--disable-jwt'' \<in> set args))"
  ultimately have "P st0" by (simp add: hugin_kept_def)
  then have "P st"
    by (rule parse_options_keeps [OF args]) (use hugin_flag_keeps hugin_value_keeps in \<open>unfold P_def, blast+\<close>)
  moreover have "check_api_options (hs_api st) fw = Inr ()"
    using assms(2) by (auto simp: hugin_start_def api_start_def Let_def sum_bind_eq_Inr split: sum.splits prod.splits)
  ultimately show ?thesis by (auto simp: P_def check_api_options_def split: if_splits)
qed

text \<open>
  The read that Hugin asks for right after it has started its client is always refused, because the bridge is
  not connected yet; the client pulls when the hello is complete.
\<close>

lemma first_read_is_refused:
  "fst (request_read q (client_start (new_client options))) = Inl (error_code.Internal, ''Muninn bridge is not connected.'')"
  by (simp add: request_read_def next_request_id_def client_start_def new_client_def start_connect_def submit_command_def
      connected_def Let_def)

subsection \<open>Examples\<close>

definition guarded_arguments :: "string list" where
  "guarded_arguments = [''--enable-jwt'', ''--jwt-secret'', ''s'']"

lemma jwt_secret_option:
  "hugin_flag ''--jwt-secret'' = None"
  "hugin_value ''--jwt-secret'' = Some (\<lambda>v. Some (hs_api_update (fo_jwt_secret_update (\<lambda>_. v))))"
proof -
  have "client_option ''--jwt-secret'' = None" by (simp add: client_option_def)
  moreover have "map_of (access_options @ upload_options @ jwt_options @ queue_options) ''--jwt-secret'' =
      Some (\<lambda>v. Some (fo_jwt_secret_update (\<lambda>_. v)))"
    by (simp add: access_options_def upload_options_def jwt_options_def queue_options_def)
  ultimately show "hugin_value ''--jwt-secret'' = Some (\<lambda>v. Some (hs_api_update (fo_jwt_secret_update (\<lambda>_. v))))"
    by (simp add: hugin_value_def)
qed (simp add: hugin_flag_def)

lemma empty_environment: "hugin_environment Map.empty st = Inr st"
  by (simp add: hugin_environment_def from_env_def)

lemma guarded_configures:
  "hugin_configure 4 Map.empty guarded_arguments =
    Inr (hs_api_update (fo_jwt_secret_update (\<lambda>_. ''s'')) (hs_api_update (fo_require_jwt_update (\<lambda>_. True)) (initial_hugin 4 Map.empty)))"
proof -
  have "hugin_flag ''--enable-jwt'' = Some (hs_api_update (fo_require_jwt_update (\<lambda>_. True)))" by (simp add: hugin_flag_def)
  then show ?thesis
    by (simp only: hugin_configure_def empty_environment sum_bind_simps guarded_arguments_def parse_options.simps
        jwt_secret_option option.case list.case)
qed

definition sample_listener :: listener_answers where
  "sample_listener = \<lparr>ln_make_address = (\<lambda>_. None), ln_open = None, ln_set_option = None, ln_bind = (\<lambda>_. None), ln_listen = None\<rparr>"

lemma sample_listener_starts: "check_api_options fo fw = Inr () \<Longrightarrow> api_start sample_listener fo fw False = (Inr (), True)"
proof -
  assume checked: "check_api_options fo fw = Inr ()"
  have "api_io_failure ctxt None = Inr ()" for ctxt by (simp add: api_io_failure_def)
  then show ?thesis
    by (simp only: api_start_def checked sample_listener_def listener_answers.select_convs sum_bind_simps if_False sum.case)
qed

theorem interface_is_guarded_witness:
  "\<exists>st muninn_client. hugin_configure 4 Map.empty guarded_arguments = Inr st \<and>
    hugin_start sample_listener sample_files st = Inr muninn_client \<and> hugin_ok st \<and> fo_require_jwt (hs_api st)"
proof -
  define st where "st = hs_api_update (fo_jwt_secret_update (\<lambda>_. ''s'')) (hs_api_update (fo_require_jwt_update (\<lambda>_. True))
    (initial_hugin 4 Map.empty))"
  have run: "hugin_configure 4 Map.empty guarded_arguments = Inr st" unfolding st_def by (rule guarded_configures)
  have api: "hs_api st = default_frontend_options\<lparr>fo_jwt_secret := ''s'', fo_require_jwt := True\<rparr>"
    by (simp add: st_def initial_hugin_def)
  have "fo_jwt_secret (hs_api st) \<noteq> []" "fo_allowed_read_root (hs_api st) = []" "fo_allowed_write_root (hs_api st) = []"
    unfolding api by (simp_all add: default_frontend_options_def)
  moreover have "fo_max_upload_file_bytes (hs_api st) = 16777216" "fo_max_upload_directory_files (hs_api st) = 1024"
      "fo_max_upload_total_decoded_bytes (hs_api st) = 67108864"
    unfolding api by (simp_all add: default_frontend_options_def)
  moreover have "root_usable sample_files []" by (simp add: root_usable_def)
  moreover have "(16777216 :: u64) \<noteq> 0" "(1024 :: u64) \<noteq> 0" "(67108864 :: u64) \<noteq> 0" "\<not> (16777216 :: u64) > 67108864" by simp_all
  ultimately have "check_api_options (hs_api st) sample_files = Inr ()"
    by (simp only: check_api_options_def simp_thms if_False)
  then have "api_start sample_listener (hs_api st) sample_files False = (Inr (), True)" by (rule sample_listener_starts)
  then obtain muninn_client where start: "hugin_start sample_listener sample_files st = Inr muninn_client"
    unfolding hugin_start_def Let_def by simp
  have "''--disable-jwt'' \<notin> set guarded_arguments" by (simp add: guarded_arguments_def)
  then show ?thesis using interface_is_guarded [OF run start] run start by blast
qed

end
