(* ===== verification/Spec2Isabelle.thy ===== *)
theory Spec2Isabelle imports Wire MuninnFrame Serialization DeltaEngine SnapshotBuilder Migration Ingest MuninnStore MaterializerDelta Bridge SerializationJson CommandBalancer WatchLoop HuginOptions begin

text \<open>
  Server-Storage, a verification development.

  THE PROGRAM.  Two services index the file trees of hosts.  Muninn (\<open>src/backend/Muninn\<close>) runs on a host:
  it scans a directory (\<open>filesystem_scanner.cpp\<close>), builds a snapshot with stable identifiers
  (\<open>snapshot_builder.cpp\<close>), computes the delta to the previous snapshot (\<open>delta_engine.cpp\<close>), validates both
  (\<open>validators.cpp\<close>), migrates them between schema versions (\<open>migration.cpp\<close>), and keeps them in an LMDB
  environment together with an outbox of transport records, one sequence number each, and an acknowledgement
  per consumer (\<open>lmdb_store.cpp\<close>).  Hugin (\<open>src/backend/Hugin\<close>) receives the records: its wire protocol
  (\<open>wire.cpp\<close>) carries frames (\<open>muninn_frame.cpp\<close>), which are validated (\<open>message_validator.cpp\<close>), checked for
  their sequence number and logged exactly once (\<open>ingest_coordinator.cpp\<close>, \<open>lmdb_ingest_store.cpp\<close>), and
  applied to a view of each host's tree (\<open>materializer_sink.cpp\<close>) that answers the listings of the frontend.
  Between the two runs the bridge: Hugin's client (\<open>muninn_client.cpp\<close>) pulls batches over a WebSocket from Muninn's server
  (\<open>ws_crud_server.cpp\<close>, \<open>crud_command_processor.cpp\<close>) in the messages of \<open>crud_protocol.hpp\<close>, and Hugin's \<open>main.cpp\<close>
  feeds what arrives to the view.  The frontend reaches Hugin by HTTP and a WebSocket (\<open>frontend_api_server.cpp\<close>): it
  authenticates (\<open>jwt_auth.cpp\<close>), sends commands (\<open>frontend_dto.cpp\<close>, \<open>command_load_balancer.cpp\<close>), asks for the view
  and moves files.

  THEORIES, in the order of the data's way.
  \<^item> Prelude, Decimal: machine integers, byte strings and their order, sorting, decimal numbers.
  \<^item> Models: \<open>models.hpp\<close>, \<open>validation_types.hpp\<close>.  Paths: the lexical operations of \<open>std::filesystem\<close>
    and \<open>invariants.hpp\<close>.  Hash: \<open>hash.hpp\<close>.
  \<^item> Glob, FilesystemScanner: the glob matcher against a recursive specification; the scan, and which entries
    of the tree it records under the options.
  \<^item> Validation, ValidationGraph: every pass of the validators; a report is free of errors exactly for the
    snapshots (and deltas) that the declarative predicates \<open>snapshot_acceptable\<close> and its counterpart for
    deltas describe, which rests on the exactness of the depth-first search for cycles.
  \<^item> SnapshotBuilder: what a scan builds validates, and when the search for identifiers ends, so that the building returns.
  \<^item> DeltaEngine: a computed delta validates, accounts for every identifier, and its inverse is the delta
    computed the other way.  Migration: when a migration succeeds, and that rolling back restores.
  \<^item> Serialization: the binary format of snapshots and deltas, written and read back, truncation rejected.
  \<^item> ByteCodec, Wire: Hugin's field codecs (locale \<open>field_codec\<close>) and the message protocol built of them.
  \<^item> TransportFrame, MuninnFrame: the frame as Muninn writes it and as Hugin reads it.
  \<^item> Lmdb: LMDB as a parameter with its laws, and the loop over a cursor.
  \<^item> LmdbStore, StoreContents, StoreMaintenance, MuninnStore: Muninn's store; what each operation does to the
    contents of the databases; and the delivery of the outbox over any sequence of operations.
  \<^item> IngestStore, LmdbIngestStore (locale \<open>ingest_store\<close>, with both of its providers), MessageValidator,
    IngestCoordinator (a step relation over the phases of concurrent calls and crashes), Ingest (the
    properties of the whole path: under every interleaving what is acknowledged is in the log on LMDB, and one call after
    another logs exactly the bytes that Muninn sent).
  \<^item> Materializer, MaterializerDelta: the view of a host, and that it follows the computed deltas.
  \<^item> Base64, CrudProtocol, SerializationJson: the messages of the bridge and the JSON form of snapshots and deltas, what
    is written is read.
  \<^item> Pipeline, CrudProcessor, WsSession: Muninn's captures, its commands and its sessions; what a peer can and cannot do to
    the store.
  \<^item> MuninnClient: Hugin's client, every callback a step, and that each frame it writes is its hello, the acknowledgement
    of a record it was given, a pull from such a record, or a command it was asked to forward.
  \<^item> Bridge: Hugin's wiring, and the way of a snapshot through the whole system.
  \<^item> FrontendAuth, FrontendDto, FrontendFiles, FrontendUpload, StreamSession, FrontendApi: the options, tokens and commands of the
    frontend, the files it reads and writes, the threads of a directory upload under every schedule, the bounded queue
    of its stream, and the requests of its HTTP interface.  CommandBalancer: the threads that run its commands.
  \<^item> CommandLine, MuninnOptions, WatchLoop, HuginOptions: the two \<open>main.cpp\<close>: environment and command line, which of
    Muninn's three modes runs, its bootstrap, watch loop and clean-up beside the sessions, and how Hugin starts.  Any mixture of watch
    cycles and store calls keeps the outbox, a lost base is recovered, and Hugin's interface is open only on request.

  CORRESPONDENCE.  A definition has the name of the function or type it translates, prefixed or suffixed
  where HOL has the name already or where two files use one name (\<open>ingest_kDbMeta\<close>, \<open>mz_apply_delta\<close>).  The
  fields of a record carry a prefix of their structure.  Integers keep their width (\<open>u64\<close> is \<open>64 word\<close>, read
  by \<open>sint\<close> where the type is signed); a string or a byte vector is a list; an output parameter and a changed
  object are part of the result; a status or an error is a value of a sum type; a hash container is a map, and
  the order in which it is visited, which the language leaves open, is first occurrence or a parameter.  A mutex
  held through an operation makes it one step; where one is released in between (the ingest coordinator) the
  operation is split into steps.

  PARAMETERS.  What is not code of the repository is an argument: the answers of the operating system to the
  scanner (record \<open>file_system\<close>), LMDB (record \<open>lmdb_api\<close>, with the hypothesis \<open>lmdb_laws\<close>, which a
  concrete database \<open>list_db\<close> satisfies, so that it can be met), the clock, the downstream sink of the
  coordinator, and the order of an \<open>unordered_map\<close>; the JSON library (records \<open>json_api\<close> and \<open>json_values\<close>, with the
  hypotheses \<open>json_laws\<close> and \<open>value_laws\<close>, which the trees of \<open>tree_json\<close> satisfy), the JWT library (\<open>jwt_api\<close>), the file
  system under the frontend (\<open>file_answers\<close>, whose answers depend on the operations before), the random generator, and
  what the networking library reports, which comes as events.  The callbacks of one connection are taken not to
  overlap, although Hugin's client has no strand.  Undefined behaviour that the sources run into (the
  depth in \<open>root_path\<close>) is an argument too.

  LOOPS.  Loops that are not structural are functions with a measure, or \<open>partial_function (option)\<close> with a
  theorem that they return: the glob matcher, the search for an unused identifier, the cursor walks.  No fuel
  is used.  The search for an identifier ends when the candidates of the path (its base key and one key for each of the
  \<open>2 ^ 32\<close> salts) are not all taken; \<open>enough_candidates\<close> asks for as many candidates of each path as the scan has entries,
  which always holds up to nine entries and is proved from the hash function (\<open>small_scan_enough\<close>).

  THREADS.  Where threads share state (the ingest coordinator, a directory upload, the load balancer) the model has a step for
  what happens between two points where another thread can come in, and the theorems hold for every order of steps.
  A directory upload takes at most six steps for each file and one for each thread, so its runs are finite without fuel.

  NOT MODELLED.  The networking library itself (accepting, TLS, framing), what both \<open>main.cpp\<close> print and their worker
  threads, thin wrappers of sockets and logging (\<open>line_socket.hpp\<close>, \<open>service_log.hpp\<close>), the tests, and the Angular frontend.
  A cycle of Muninn's watch is taken as a whole between the store calls of its sessions.  Streams are in memory, so writing
  does not fail.
\<close>

end
